(* ===== verification/Irena_Prelude.thy ===== *)
theory Irena_Prelude
  imports
    Main
    "HOL-Library.Word"
    "HOL-Library.Char_ord"
    "HOL-Library.List_Lexorder"
    "HOL-Library.Product_Lexorder"
    "HOL-Library.Multiset"
begin

text \<open>
  What every component of the model shares: the result type of fallible Rust code, checked
  machine arithmetic, the standard-library routines the crates rely on (stable sort, binary
  search, \<open>try_fold\<close>, \<open>collect\<close> into a \<open>Result\<close>), and two locales. \<open>sorted_table\<close> is the
  interface of a collection that is kept sorted by a key and looked up by binary search;
  \<open>canonical_builder\<close> is the interface of a constructor that sorts its input and refuses
  repeated keys. Electorates, ballot sets, rosters, registers, channel sets and identity
  tables all provide these interfaces and inherit the lemmas proved here once.
\<close>

named_theorems word_nat "facts that read machine words as natural numbers"
named_theorems result_simps "how a property of a composite result splits over its parts"
named_theorems wf_defs "the well-formedness predicates of the model's values"

section \<open>Results\<close>

text \<open>
  Rust's \<open>Result\<close>, with a third value for a panic: an \<open>expect\<close> or \<open>unwrap\<close> on the wrong
  value, an index out of range, or an arithmetic overflow (the workspace builds its release
  profile with \<open>overflow-checks = true\<close>, so overflow panics in every build).
\<close>

datatype ('e, 'a) result = Ok 'a | Err 'e | Panic

fun rbind :: "('e, 'a) result \<Rightarrow> ('a \<Rightarrow> ('e, 'b) result) \<Rightarrow> ('e, 'b) result" where
  "rbind (Ok a) f = f a"
| "rbind (Err e) f = Err e"
| "rbind Panic f = Panic"

fun rmap_err :: "('e \<Rightarrow> 'f) \<Rightarrow> ('e, 'a) result \<Rightarrow> ('f, 'a) result" where
  "rmap_err g (Ok a) = Ok a"
| "rmap_err g (Err e) = Err (g e)"
| "rmap_err g Panic = Panic"

fun rexpect :: "'a option \<Rightarrow> ('e, 'a) result" where
  "rexpect (Some a) = Ok a"
| "rexpect None = Panic"

fun ok_or :: "'e \<Rightarrow> 'a option \<Rightarrow> ('e, 'a) result" where
  "ok_or e (Some a) = Ok a"
| "ok_or e None = Err e"

definition is_ok :: "('e, 'a) result \<Rightarrow> bool" where
  "is_ok r = (case r of Ok _ \<Rightarrow> True | _ \<Rightarrow> False)"

lemma is_ok_simps [simp]: "is_ok (Ok a)" "\<not> is_ok (Err e)" "\<not> is_ok Panic"
  by (simp_all add: is_ok_def)

lemma is_ok_iff: "is_ok r \<longleftrightarrow> (\<exists>a. r = Ok a)"
  by (cases r) simp_all

lemma rbind_Ok_iff [result_simps]: "rbind r f = Ok b \<longleftrightarrow> (\<exists>a. r = Ok a \<and> f a = Ok b)"
  by (cases r) simp_all

lemma rbind_Err_iff [result_simps]:
  "rbind r f = Err e \<longleftrightarrow> r = Err e \<or> (\<exists>a. r = Ok a \<and> f a = Err e)"
  by (cases r) simp_all

lemma rbind_Panic_iff [result_simps]:
  "rbind r f = Panic \<longleftrightarrow> r = Panic \<or> (\<exists>a. r = Ok a \<and> f a = Panic)"
  by (cases r) simp_all

lemma rmap_err_Ok_iff [result_simps]: "rmap_err g r = Ok a \<longleftrightarrow> r = Ok a"
  by (cases r) simp_all

lemma rmap_err_Err_iff [result_simps]: "rmap_err g r = Err e \<longleftrightarrow> (\<exists>d. r = Err d \<and> e = g d)"
  by (cases r) auto

lemma rmap_err_Panic_iff [result_simps]: "rmap_err g r = Panic \<longleftrightarrow> r = Panic"
  by (cases r) simp_all

lemma rexpect_iff [result_simps]:
  "rexpect x = Ok a \<longleftrightarrow> x = Some a" "rexpect x \<noteq> Err e" "rexpect x = Panic \<longleftrightarrow> x = None"
  by (cases x; simp)+

lemma ok_or_iff [result_simps]:
  "ok_or e x = Ok a \<longleftrightarrow> x = Some a" "ok_or e x = Err d \<longleftrightarrow> x = None \<and> d = e" "ok_or e x \<noteq> Panic"
  by (cases x; auto)+

text \<open>\<open>iter().map(f).collect::<Result<Vec<_>, _>>()\<close>: the first failure ends the traversal.\<close>

fun rcollect :: "('a \<Rightarrow> ('e, 'b) result) \<Rightarrow> 'a list \<Rightarrow> ('e, 'b list) result" where
  "rcollect f [] = Ok []"
| "rcollect f (x # xs) = rbind (f x) (\<lambda>y. rbind (rcollect f xs) (\<lambda>ys. Ok (y # ys)))"

lemma rcollect_Ok_iff [result_simps]:
  "rcollect f xs = Ok ys \<longleftrightarrow> list_all2 (\<lambda>x y. f x = Ok y) xs ys"
  by (induction xs arbitrary: ys) (auto simp: result_simps list_all2_Cons1)

lemma rcollect_map_Ok: "(\<And>x. x \<in> set xs \<Longrightarrow> f x = Ok (g x)) \<Longrightarrow> rcollect f xs = Ok (map g xs)"
  by (induction xs) auto

lemma rcollect_no_Panic: "(\<And>x. x \<in> set xs \<Longrightarrow> f x \<noteq> Panic) \<Longrightarrow> rcollect f xs \<noteq> Panic"
  by (induction xs) (auto simp: result_simps)

text \<open>\<open>try_fold\<close>.\<close>

fun try_fold :: "('b \<Rightarrow> 'a \<Rightarrow> ('e, 'b) result) \<Rightarrow> 'b \<Rightarrow> 'a list \<Rightarrow> ('e, 'b) result" where
  "try_fold f b [] = Ok b"
| "try_fold f b (x # xs) = rbind (f b x) (\<lambda>b'. try_fold f b' xs)"

lemma try_fold_append:
  "try_fold f b (xs @ ys) = rbind (try_fold f b xs) (\<lambda>b'. try_fold f b' ys)"
proof (induction xs arbitrary: b)
  case (Cons x xs)
  then show ?case by (cases "f b x") simp_all
qed simp

lemma try_fold_invariant:
  assumes "try_fold f b xs = Ok b'" and "P b"
    and "\<And>b x c. \<lbrakk>P b; x \<in> set xs; f b x = Ok c\<rbrakk> \<Longrightarrow> P c"
  shows "P b'"
  using assms(1,2,3)
proof (induction xs arbitrary: b)
  case (Cons x xs)
  from Cons.prems(1) obtain c where c: "f b x = Ok c" "try_fold f c xs = Ok b'"
    by (auto simp: result_simps)
  have "P c" by (rule Cons.prems(3) [OF Cons.prems(2) _ c(1)]) simp
  with c(2) show ?case
    by (rule Cons.IH) (metis Cons.prems(3) list.set_intros(2))
qed simp

section \<open>Machine integers\<close>

type_synonym u8 = "8 word"
type_synonym u16 = "16 word"
type_synonym u32 = "32 word"
type_synonym u64 = "64 word"
type_synonym u128 = "128 word"

lemma unat_bound: "unat (w :: 'l::len word) < 2 ^ LENGTH('l)"
  by (fact unsigned_less)

definition checked_add :: "'l::len word \<Rightarrow> 'l word \<Rightarrow> 'l word option" where
  "checked_add a b = (if unat a + unat b < 2 ^ LENGTH('l) then Some (a + b) else None)"

definition checked_sub :: "'l::len word \<Rightarrow> 'l word \<Rightarrow> 'l word option" where
  "checked_sub a b = (if b \<le> a then Some (a - b) else None)"

lemma checked_add_Some [word_nat]:
  "checked_add a b = Some c \<longleftrightarrow> unat a + unat b = unat (c :: 'l::len word)"
proof -
  have "unat a + unat b < 2 ^ LENGTH('l) \<Longrightarrow> unat (a + b) = unat a + unat b"
    by (simp add: unat_word_ariths)
  moreover have "unat c < 2 ^ LENGTH('l)" by simp
  ultimately show ?thesis
    by (auto simp: checked_add_def word_unat_eq_iff split: if_splits)
qed

lemma checked_add_None [word_nat]:
  "checked_add a b = None \<longleftrightarrow> 2 ^ LENGTH('l) \<le> unat a + unat (b :: 'l::len word)"
  by (auto simp: checked_add_def)

lemma checked_sub_Some [word_nat]:
  "checked_sub a b = Some c \<longleftrightarrow> unat a = unat b + unat (c :: 'l::len word)"
proof
  assume "checked_sub a b = Some c"
  then have "b \<le> a" "c = a - b" by (auto simp: checked_sub_def split: if_splits)
  then show "unat a = unat b + unat c" by (simp add: unat_sub word_le_nat_alt)
next
  assume "unat a = unat b + unat c"
  then show "checked_sub a b = Some c"
    by (auto simp: checked_sub_def word_le_nat_alt unat_sub word_unat_eq_iff)
qed

lemma checked_sub_None [word_nat]: "checked_sub a b = None \<longleftrightarrow> unat a < unat b"
  by (auto simp: checked_sub_def word_le_nat_alt)

text \<open>Both evaluate without counting up to \<open>2 ^ LENGTH('l)\<close>.\<close>

lemma checked_add_code [code]:
  "checked_add a b = (if uint a + uint b < 2 ^ LENGTH('l) then Some (a + b) else None)"
  for a b :: "'l::len word"
proof -
  have "unat a + unat b < 2 ^ LENGTH('l) \<longleftrightarrow> uint a + uint b < 2 ^ LENGTH('l)"
    unfolding uint_nat of_nat_add [symmetric] by (metis of_nat_less_iff of_nat_numeral of_nat_power)
  then show ?thesis by (simp add: checked_add_def)
qed

text \<open>The operators \<open>+\<close> and \<open>-\<close> of Rust's unsigned integers: they panic out of range.\<close>

definition padd :: "'l::len word \<Rightarrow> 'l word \<Rightarrow> ('e, 'l word) result" where
  "padd a b = rexpect (checked_add a b)"

definition psub :: "'l::len word \<Rightarrow> 'l word \<Rightarrow> ('e, 'l word) result" where
  "psub a b = rexpect (checked_sub a b)"

text \<open>\<open>u32::try_from\<close> and \<open>u64::try_from\<close> of a length.\<close>

definition try_from_nat :: "nat \<Rightarrow> 'l::len word option" where
  "try_from_nat n = (if n < 2 ^ LENGTH('l) then Some (of_nat n) else None)"

lemma try_from_nat_Some [word_nat]:
  "try_from_nat n = Some (w :: 'l::len word) \<longleftrightarrow> unat w = n"
proof -
  have "unat w < 2 ^ LENGTH('l)" by simp
  then show ?thesis by (auto simp: try_from_nat_def unat_of_nat take_bit_nat_eq_self split: if_splits)
qed

lemma try_from_nat_None [word_nat]:
  "try_from_nat n = (None :: 'l::len word option) \<longleftrightarrow> 2 ^ LENGTH('l) \<le> n"
  by (auto simp: try_from_nat_def)

lemma padd_Ok_iff: "padd a b = Ok c \<longleftrightarrow> unat a + unat b = unat c"
  by (simp add: padd_def result_simps word_nat)

lemma padd_Ok: "unat (a :: u64) + unat b < 2 ^ 64 \<Longrightarrow> padd a b = Ok (a + b)"
  by (simp add: padd_Ok_iff unat_word_ariths)

lemma psub_Ok_iff: "psub a b = Ok c \<longleftrightarrow> unat a = unat b + unat c"
  by (simp add: psub_def result_simps word_nat)

lemma psub_no_Err [simp]: "psub a b \<noteq> Err e" and padd_no_Err [simp]: "padd a b \<noteq> Err e"
  by (simp_all add: psub_def padd_def result_simps)

lemma try_from_nat_code [code]:
  "(try_from_nat n :: 'l::len word option)
     = (if int n < 2 ^ LENGTH('l) then Some (word_of_int (int n)) else None)"
proof -
  have "n < 2 ^ LENGTH('l) \<longleftrightarrow> int n < 2 ^ LENGTH('l)"
    by (metis of_nat_less_numeral_power_cancel_iff of_nat_numeral)
  then show ?thesis by (simp add: try_from_nat_def)
qed

section \<open>Characters\<close>

text \<open>
  \<open>is_ascii_lowercase\<close> and its companions. A Rust \<open>String\<close> is a list of bytes here; the bytes of a
  character outside ASCII are 128 or more and satisfy none of these, like the character itself.
\<close>

definition is_ascii_lowercase :: "char \<Rightarrow> bool" where
  "is_ascii_lowercase c \<longleftrightarrow> CHR ''a'' \<le> c \<and> c \<le> CHR ''z''"

definition is_ascii_uppercase :: "char \<Rightarrow> bool" where
  "is_ascii_uppercase c \<longleftrightarrow> CHR ''A'' \<le> c \<and> c \<le> CHR ''Z''"

definition is_ascii_digit :: "char \<Rightarrow> bool" where
  "is_ascii_digit c \<longleftrightarrow> CHR ''0'' \<le> c \<and> c \<le> CHR ''9''"

definition is_ascii_alphanumeric :: "char \<Rightarrow> bool" where
  "is_ascii_alphanumeric c \<longleftrightarrow> is_ascii_lowercase c \<or> is_ascii_uppercase c \<or> is_ascii_digit c"

section \<open>Decimal digits\<close>

text \<open>The number that a text of decimal digits stands for.\<close>

definition digits_value :: "string \<Rightarrow> nat" where
  "digits_value s = fold (\<lambda>c n. n * 10 + (of_char c - 48)) s 0"

lemma digits_fold: "fold (\<lambda>c n. n * 10 + (of_char c - 48)) s n = n * 10 ^ length s + digits_value s"
proof (induction s arbitrary: n)
  case (Cons c s)
  have "digits_value (c # s) = fold (\<lambda>c n. n * 10 + (of_char c - 48)) s (of_char c - 48)"
    by (simp add: digits_value_def)
  then show ?case using Cons.IH [of "n * 10 + (of_char c - 48)"] Cons.IH [of "of_char c - 48"]
    by (simp add: algebra_simps)
qed (simp add: digits_value_def)

lemma digits_value_Cons: "digits_value (c # s) = (of_char c - 48) * 10 ^ length s + digits_value s"
  using digits_fold [of s "of_char c - 48"] by (simp add: digits_value_def)

lemma digit_char: "is_ascii_digit c \<longleftrightarrow> (48 :: nat) \<le> of_char c \<and> of_char c \<le> (57 :: nat)"
  by (simp add: is_ascii_digit_def less_eq_char_def)

lemma digits_value_bound: "\<forall>c \<in> set s. is_ascii_digit c \<Longrightarrow> digits_value s < 10 ^ length s"
proof (induction s)
  case (Cons c s)
  then have "of_char c - 48 \<le> (9 :: nat)" "digits_value s < 10 ^ length s" by (auto simp: digit_char)
  then have "digits_value (c # s) < 9 * 10 ^ length s + 10 ^ length s"
    unfolding digits_value_Cons by (intro add_le_less_mono mult_right_mono) simp_all
  then show ?case by simp
qed (simp add: digits_value_def)

section \<open>Sorting, repeated keys and binary search\<close>

text \<open>
  \<open>sort_by\<close> on a key is the stable \<^const>\<open>sort_key\<close>; \<open>dedup\<close> is \<^const>\<open>remdups_adj\<close>. On a list
  without repeated keys the sorted order is canonical: it does not depend on the input order.
\<close>

lemma sort_key_canonical:
  assumes "mset xs = mset ys" and "distinct (map key xs)"
  shows "sort_key key xs = sort_key key ys"
proof (rule sort_key_inj_key_eq)
  show "mset xs = mset (sort_key key ys)" using assms(1) by simp
  show "inj_on key (set xs)" using assms(2) by (simp add: distinct_map)
  show "sorted (map key (sort_key key ys))" by simp
qed

lemma distinct_map_sort_key [simp]: "distinct (map key (sort_key f xs)) = distinct (map key xs)"
  by (metis mset_sort mset_map mset_eq_imp_distinct_iff)

lemma sorted_distinct_iff_less:
  "sorted_wrt (<) (ks :: 'k::linorder list) \<longleftrightarrow> sorted ks \<and> distinct ks"
  by (rule strict_sorted_iff)

lemma distinct_remdups_adj_sorted: "sorted xs \<Longrightarrow> distinct (remdups_adj xs)"
  by (induction xs rule: remdups_adj.induct) (auto dest: order.antisym)

text \<open>\<open>issues.sort(); issues.dedup()\<close> leaves the set of issues, in strict order.\<close>

lemma sort_dedup_strict: "sorted_wrt (<) (remdups_adj (sort xs))"
  by (simp add: sorted_distinct_iff_less distinct_remdups_adj_sorted)

text \<open>The loop \<open>if !seen.insert(key) { return Err(..) }\<close>: the first key met twice.\<close>

fun first_repeat :: "'k set \<Rightarrow> 'k list \<Rightarrow> 'k option" where
  "first_repeat seen [] = None"
| "first_repeat seen (k # ks) = (if k \<in> seen then Some k else first_repeat (insert k seen) ks)"

lemma first_repeat_None_iff:
  "first_repeat seen ks = None \<longleftrightarrow> distinct ks \<and> set ks \<inter> seen = {}"
  by (induction ks arbitrary: seen) auto

lemma first_repeat_None [simp]: "first_repeat {} ks = None \<longleftrightarrow> distinct ks"
  by (simp add: first_repeat_None_iff)

lemma first_repeat_Some: "first_repeat {} ks = Some k \<Longrightarrow> \<not> distinct ks"
  using first_repeat_None [of ks] by fastforce

text \<open>
  \<open>slice::binary_search_by\<close>: the half-open interval of candidates is halved until the key is
  found or the interval is empty.
\<close>

function bsearch :: "('a \<Rightarrow> 'k::linorder) \<Rightarrow> 'a list \<Rightarrow> 'k \<Rightarrow> nat \<Rightarrow> nat \<Rightarrow> nat option" where
  "bsearch key xs k lo hi =
     (if lo < hi then
        let mid = (lo + hi) div 2; c = key (xs ! mid)
        in if c = k then Some mid
           else if c < k then bsearch key xs k (Suc mid) hi
           else bsearch key xs k lo mid
      else None)"
  by pat_completeness auto
termination
  by (relation "measure (\<lambda>(key, xs, k, lo, hi). hi - lo)") auto

declare bsearch.simps [simp del]

definition table_get :: "('a \<Rightarrow> 'k::linorder) \<Rightarrow> 'a list \<Rightarrow> 'k \<Rightarrow> 'a option" where
  "table_get key xs k = map_option (\<lambda>i. xs ! i) (bsearch key xs k 0 (length xs))"

lemma bsearch_sound:
  "bsearch key xs k lo hi = Some i \<Longrightarrow> lo \<le> i \<and> i < hi \<and> key (xs ! i) = k"
proof (induction key xs k lo hi rule: bsearch.induct)
  case (1 key xs k lo hi)
  define mid where "mid = (lo + hi) div 2"
  from "1.prems" have lohi: "lo < hi"
    by (subst (asm) bsearch.simps) (auto split: if_splits)
  then have mid: "lo \<le> mid" "mid < hi" by (auto simp: mid_def)
  consider "key (xs ! mid) = k" | "key (xs ! mid) < k" | "k < key (xs ! mid)" by fastforce
  then show ?case
  proof cases
    case 1
    with "1.prems" lohi mid show ?thesis
      by (subst (asm) bsearch.simps) (auto simp: Let_def mid_def split: if_splits)
  next
    case 2
    with "1.prems" lohi have "bsearch key xs k (Suc mid) hi = Some i"
      by (subst (asm) bsearch.simps) (auto simp: Let_def mid_def split: if_splits)
    with "1.IH"(1) [OF lohi mid_def refl] 2 mid show ?thesis by force
  next
    case 3
    with "1.prems" lohi have "bsearch key xs k lo mid = Some i"
      by (subst (asm) bsearch.simps) (auto simp: Let_def mid_def split: if_splits)
    with "1.IH"(2) [OF lohi mid_def refl] 3 mid show ?thesis by force
  qed
qed

lemma bsearch_complete:
  assumes "sorted_wrt (<) (map key xs)" and "hi \<le> length xs"
    and "lo \<le> i" and "i < hi" and "key (xs ! i) = k"
  shows "bsearch key xs k lo hi = Some i"
  using assms
proof (induction key xs k lo hi rule: bsearch.induct)
  case (1 key xs k lo hi)
  define mid where "mid = (lo + hi) div 2"
  have mid: "lo \<le> mid" "mid < hi" "mid < length xs" and lohi: "lo < hi"
    using "1.prems" by (auto simp: mid_def)
  have mono: "a < b \<Longrightarrow> b < length xs \<Longrightarrow> key (xs ! a) < key (xs ! b)" for a b
    using "1.prems"(1) by (auto simp: sorted_wrt_iff_nth_less)
  consider "mid = i" | "mid < i" | "i < mid" by linarith
  then show ?case
  proof cases
    case 1
    then show ?thesis using "1.prems"(5) lohi
      by (subst bsearch.simps) (simp add: mid_def)
  next
    case 2
    with mono [of mid i] "1.prems" have lt: "key (xs ! mid) < k" by simp
    have "bsearch key xs k (Suc mid) hi = Some i"
      using "1.IH"(1) [OF lohi mid_def refl] lt "1.prems" 2 by auto
    then show ?thesis using lt lohi
      by (subst bsearch.simps) (auto simp: mid_def Let_def)
  next
    case 3
    with mono [of i mid] mid "1.prems" have gt: "k < key (xs ! mid)" by simp
    have "bsearch key xs k lo mid = Some i"
      using "1.IH"(2) [OF lohi mid_def refl] gt "1.prems" 3 mid by auto
    then show ?thesis using gt lohi
      by (subst bsearch.simps) (auto simp: mid_def Let_def)
  qed
qed

lemma table_get_Some_iff:
  assumes "sorted_wrt (<) (map key xs)"
  shows "table_get key xs k = Some a \<longleftrightarrow> a \<in> set xs \<and> key a = k"
proof
  assume "table_get key xs k = Some a"
  then show "a \<in> set xs \<and> key a = k"
    by (auto simp: table_get_def dest: bsearch_sound)
next
  assume "a \<in> set xs \<and> key a = k"
  then obtain i where "i < length xs" "xs ! i = a" "key (xs ! i) = k"
    by (auto simp: in_set_conv_nth)
  then show "table_get key xs k = Some a"
    using bsearch_complete [OF assms order_refl, of 0 i k] by (simp add: table_get_def)
qed

lemma table_get_None_iff:
  assumes "sorted_wrt (<) (map key xs)"
  shows "table_get key xs k = None \<longleftrightarrow> k \<notin> key ` set xs"
  using table_get_Some_iff [OF assms, of k] by (metis image_iff not_None_eq)

section \<open>The interface of a sorted table\<close>

text \<open>
  A value whose items are kept in strict key order and looked up by binary search. The client
  sees a finite map: lookups find exactly the items, and two tables with the same lookups are
  the same table.
\<close>

locale sorted_table =
  fixes items :: "'t \<Rightarrow> 'a list"
    and key :: "'a \<Rightarrow> 'k::linorder"
    and get :: "'t \<Rightarrow> 'k \<Rightarrow> 'a option"
    and wf :: "'t \<Rightarrow> bool"
  assumes strict: "wf t \<Longrightarrow> sorted_wrt (<) (map key (items t))"
    and get_search: "get t k = table_get key (items t) k"
begin

lemma get_Some_iff: "wf t \<Longrightarrow> get t k = Some a \<longleftrightarrow> a \<in> set (items t) \<and> key a = k"
  by (simp add: get_search table_get_Some_iff strict)

lemma get_None_iff: "wf t \<Longrightarrow> get t k = None \<longleftrightarrow> k \<notin> key ` set (items t)"
  by (simp add: get_search table_get_None_iff strict)

lemma get_item: "wf t \<Longrightarrow> a \<in> set (items t) \<Longrightarrow> get t (key a) = Some a"
  by (simp add: get_Some_iff)

lemma keys_distinct: "wf t \<Longrightarrow> distinct (map key (items t))"
  using strict by (simp add: sorted_distinct_iff_less)

lemma key_inj: "wf t \<Longrightarrow> inj_on key (set (items t))"
  using keys_distinct by (simp add: distinct_map)

lemma items_distinct: "wf t \<Longrightarrow> distinct (items t)"
  using keys_distinct by (simp add: distinct_map)

lemma items_unique:
  assumes "wf t" and "wf u" and "set (items t) = set (items u)"
  shows "items t = items u"
proof -
  have "mset (items t) = mset (items u)"
    using assms by (simp add: items_distinct set_eq_iff_mset_eq_distinct)
  moreover have "sort_key key (items t) = items t" "sort_key key (items u) = items u"
    using strict [OF assms(1)] strict [OF assms(2)]
    by (simp_all add: sorted_sort_id sort_key_id_if_sorted sorted_distinct_iff_less)
  ultimately show ?thesis
    using sort_key_canonical [OF _ keys_distinct [OF assms(1)]] by metis
qed

lemma get_ext:
  assumes "wf t" and "wf u" and "\<And>k. get t k = get u k"
  shows "items t = items u"
proof (rule items_unique [OF assms(1,2)])
  show "set (items t) = set (items u)"
    using assms by (metis get_Some_iff set_eqI)
qed

end

text \<open>
  A constructor that sorts its input and accepts it on a condition that is independent of the
  order (in particular: no repeated key). What it builds is a sorted table, and the order in
  which the input was listed cannot be observed.
\<close>

definition distinct_keys :: "('a \<Rightarrow> 'k) \<Rightarrow> 'a multiset \<Rightarrow> bool" where
  "distinct_keys key M \<longleftrightarrow> card (key ` set_mset M) = size M"

lemma distinct_keys_mset [simp]: "distinct_keys key (mset xs) \<longleftrightarrow> distinct (map key xs)"
  by (metis card_distinct distinct_card distinct_keys_def length_map set_map set_mset_mset size_mset)

locale canonical_builder =
  fixes build :: "'a list \<Rightarrow> ('e, 't) result"
    and items :: "'t \<Rightarrow> 'a list"
    and key :: "'a \<Rightarrow> 'k::linorder"
    and make :: "'a list \<Rightarrow> 't"
    and admissible :: "'a multiset \<Rightarrow> bool"
  assumes build_Ok_iff: "build xs = Ok t \<longleftrightarrow> admissible (mset xs) \<and> t = make (sort_key key xs)"
    and items_make: "items (make xs) = xs"
    and admissible_distinct: "admissible (mset xs) \<Longrightarrow> distinct (map key xs)"
begin

lemma build_items: "build xs = Ok t \<Longrightarrow> items t = sort_key key xs"
  by (simp add: build_Ok_iff items_make)

lemma build_mset: "build xs = Ok t \<Longrightarrow> mset (items t) = mset xs"
  by (simp add: build_items)

lemma build_set: "build xs = Ok t \<Longrightarrow> set (items t) = set xs"
  by (simp add: build_items)

lemma build_strict: "build xs = Ok t \<Longrightarrow> sorted_wrt (<) (map key (items t))"
  by (simp add: build_items sorted_distinct_iff_less) (simp add: build_Ok_iff admissible_distinct)

lemma build_order_irrelevant:
  assumes "mset xs = mset ys"
  shows "build xs = Ok t \<longleftrightarrow> build ys = Ok t"
  using assms sort_key_canonical [OF assms admissible_distinct]
  by (auto simp: build_Ok_iff)

lemma build_idem:
  assumes "build xs = Ok t"
  shows "build (items t) = Ok t"
  using build_order_irrelevant [of "items t" xs t] build_mset [OF assms] assms by simp

end

end
