(* ===== verification/Bornite_Core.thy ===== *)
theory Bornite_Core
  imports Irena_Prelude
begin

text \<open>
  \<open>crates/bornite-core\<close>: exact fractions, weights and checked totals, voter ids, ballots and
  the frozen electorate. A Rust \<open>String\<close> is its UTF-8 bytes, so it is a HOL \<^typ>\<open>string\<close>
  (a list of 8-bit characters) and its byte order is the lexicographic order on lists. The
  newtypes with private fields (\<open>VoterIdV1\<close>, \<open>WeightV1\<close>, \<open>ElectorateV1\<close>, ...) can only be
  built by their constructors; what those constructors guarantee are the predicates \<open>wf_*\<close>.
\<close>

section \<open>Voter ids\<close>

datatype voter_id = VoterId (voter_id_str: string)

instantiation voter_id :: linorder
begin

definition less_eq_voter_id :: "voter_id \<Rightarrow> voter_id \<Rightarrow> bool" where
  "less_eq_voter_id a b \<longleftrightarrow> voter_id_str a \<le> voter_id_str b"

definition less_voter_id :: "voter_id \<Rightarrow> voter_id \<Rightarrow> bool" where
  "less_voter_id a b \<longleftrightarrow> voter_id_str a < voter_id_str b"

instance
  by standard (auto simp: less_eq_voter_id_def less_voter_id_def intro: voter_id.expand)

end

text \<open>Why an id was refused; the code carries one of three fixed texts.\<close>

datatype id_rejection = IdEmpty | IdTooLong | IdBadCharacter

datatype core_error =
    InvalidVoterId string id_rejection
  | ZeroWeight
  | ZeroDenominator
  | ImproperFraction u64 u64
  | WeightOverflow
  | DuplicateVoter voter_id
  | DuplicateBallot voter_id

definition MAX_VOTER_ID_LEN :: nat where
  "MAX_VOTER_ID_LEN = 128"

definition voter_id_char :: "char \<Rightarrow> bool" where
  "voter_id_char c \<longleftrightarrow> is_ascii_alphanumeric c \<or> c \<in> set ''._:+@-''"

definition voter_id_new :: "string \<Rightarrow> (core_error, voter_id) result" where
  "voter_id_new value =
     (if value = [] then Err (InvalidVoterId value IdEmpty)
      else if MAX_VOTER_ID_LEN < length value
        then Err (InvalidVoterId value IdTooLong)
      else if \<not> list_all voter_id_char value
        then Err (InvalidVoterId value IdBadCharacter)
      else Ok (VoterId value))"

definition wf_voter_id :: "voter_id \<Rightarrow> bool" where
  "wf_voter_id v \<longleftrightarrow> voter_id_str v \<noteq> [] \<and> length (voter_id_str v) \<le> MAX_VOTER_ID_LEN
     \<and> list_all voter_id_char (voter_id_str v)"

lemma voter_id_new_Ok_iff: "voter_id_new s = Ok v \<longleftrightarrow> v = VoterId s \<and> wf_voter_id v"
  by (auto simp: voter_id_new_def wf_voter_id_def)

lemma voter_id_new_no_Panic [simp]: "voter_id_new s \<noteq> Panic"
  by (simp add: voter_id_new_def)

lemma voter_id_new_str: "wf_voter_id v \<Longrightarrow> voter_id_new (voter_id_str v) = Ok v"
  by (simp add: voter_id_new_Ok_iff)

section \<open>Weights and totals\<close>

type_synonym weight = u64
type_synonym weight_total = u64

definition weight_new :: "u64 \<Rightarrow> (core_error, weight) result" where
  "weight_new value = (if value = 0 then Err ZeroWeight else Ok value)"

definition total_checked_add :: "weight_total \<Rightarrow> u64 \<Rightarrow> (core_error, weight_total) result" where
  "total_checked_add t w = ok_or WeightOverflow (checked_add t w)"

definition total_checked_sub :: "weight_total \<Rightarrow> weight_total \<Rightarrow> weight_total option" where
  "total_checked_sub t u = checked_sub t u"

definition weight_sum :: "weight list \<Rightarrow> (core_error, weight_total) result" where
  "weight_sum ws = try_fold total_checked_add 0 ws"

text \<open>The unbounded sum of a list of weights, which the checked sum is compared with.\<close>

abbreviation weight_nat :: "u64 list \<Rightarrow> nat" where
  "weight_nat ws \<equiv> sum_list (map unat ws)"

lemma total_checked_add_Ok_iff: "total_checked_add t w = Ok u \<longleftrightarrow> unat t + unat w = unat u"
  by (auto simp: total_checked_add_def result_simps word_nat)

lemma total_checked_add_Err_iff:
  "total_checked_add t w = Err e \<longleftrightarrow> e = WeightOverflow \<and> 2 ^ 64 \<le> unat t + unat w"
  by (auto simp: total_checked_add_def result_simps word_nat)

lemma total_checked_add_no_Panic [simp]: "total_checked_add t w \<noteq> Panic"
  by (simp add: total_checked_add_def result_simps)

lemma weight_fold_Ok_iff:
  "try_fold total_checked_add t ws = Ok u \<longleftrightarrow> unat t + weight_nat ws = unat u"
proof (induction ws arbitrary: t)
  case (Cons w ws)
  show ?case
  proof (cases "total_checked_add t w")
    case (Ok t')
    then have "unat t + unat w = unat t'" by (simp add: total_checked_add_Ok_iff)
    then show ?thesis using Cons.IH [of t'] Ok by (simp add: add.assoc [symmetric])
  next
    case (Err e)
    then have "2 ^ 64 \<le> unat t + unat w" by (simp add: total_checked_add_Err_iff)
    moreover have "unat u < 2 ^ 64" using unat_bound [of u] by simp
    ultimately show ?thesis using Err by simp
  qed simp
qed (auto simp: word_unat_eq_iff)

lemma weight_fold_no_Panic [simp]: "try_fold total_checked_add t ws \<noteq> Panic"
  by (induction ws arbitrary: t) (auto simp: result_simps)

lemma weight_fold_Err: "try_fold total_checked_add t ws = Err e \<Longrightarrow> e = WeightOverflow"
  by (induction ws arbitrary: t) (auto simp: result_simps total_checked_add_Err_iff)

lemma weight_sum_Ok_iff: "weight_sum ws = Ok t \<longleftrightarrow> unat t = weight_nat ws"
  by (auto simp: weight_sum_def weight_fold_Ok_iff)

lemma weight_sum_Ok: "weight_nat ws < 2 ^ 64 \<Longrightarrow> weight_sum ws = Ok (of_nat (weight_nat ws))"
  by (simp add: weight_sum_Ok_iff unat_of_nat take_bit_nat_eq_self)

lemma weight_sum_Err_iff: "weight_sum ws = Err e \<longleftrightarrow> e = WeightOverflow \<and> 2 ^ 64 \<le> weight_nat ws"
proof (cases "weight_sum ws")
  case (Ok t)
  then have "unat t = weight_nat ws" by (simp add: weight_sum_Ok_iff)
  moreover have "unat t < 2 ^ 64" using unat_bound [of t] by simp
  ultimately show ?thesis using Ok by simp
next
  case (Err d)
  then have "d = WeightOverflow" by (simp add: weight_sum_def weight_fold_Err)
  moreover have "\<not> weight_nat ws < 2 ^ 64" using Err weight_sum_Ok by fastforce
  ultimately show ?thesis using Err by auto
next
  case Panic
  then show ?thesis by (simp add: weight_sum_def)
qed

lemma weight_sum_no_Panic [simp]: "weight_sum ws \<noteq> Panic"
  by (simp add: weight_sum_def)

text \<open>A sum depends on the weights and not on the order they are listed in.\<close>

lemma weight_sum_mset: "mset ws = mset vs \<Longrightarrow> weight_sum ws = weight_sum vs"
proof -
  assume "mset ws = mset vs"
  then have "weight_nat ws = weight_nat vs"
    by (metis mset_map sum_mset_sum_list)
  then show "weight_sum ws = weight_sum vs"
    by (cases "weight_sum vs")
      (metis weight_sum_Ok_iff, metis weight_sum_Err_iff, simp)
qed

section \<open>Exact fractions\<close>

record fraction =
  numerator :: u64
  denominator :: u64

definition wf_fraction :: "fraction \<Rightarrow> bool" where
  "wf_fraction f \<longleftrightarrow> denominator f \<noteq> 0"

definition HALF :: fraction where
  "HALF = \<lparr>numerator = 1, denominator = 2\<rparr>"

definition fraction_new :: "u64 \<Rightarrow> u64 \<Rightarrow> (core_error, fraction) result" where
  "fraction_new n d = (if d = 0 then Err ZeroDenominator else Ok \<lparr>numerator = n, denominator = d\<rparr>)"

definition fraction_proportion :: "u64 \<Rightarrow> u64 \<Rightarrow> (core_error, fraction) result" where
  "fraction_proportion n d =
     (if d = 0 then Err ZeroDenominator
      else if d < n then Err (ImproperFraction n d)
      else fraction_new n d)"

datatype ordering = Less | Equal | Greater

definition cmp :: "'a::linorder \<Rightarrow> 'a \<Rightarrow> ordering" where
  "cmp a b = (if a < b then Less else if a = b then Equal else Greater)"

text \<open>The products are \<open>u128\<close> multiplications, which panic on overflow.\<close>

definition checked_mul :: "'l::len word \<Rightarrow> 'l word \<Rightarrow> 'l word option" where
  "checked_mul a b = (if unat a * unat b < 2 ^ LENGTH('l) then Some (a * b) else None)"

lemma checked_mul_code [code]:
  "checked_mul a b = (if uint a * uint b < 2 ^ LENGTH('l) then Some (a * b) else None)"
  for a b :: "'l::len word"
proof -
  have "unat a * unat b < 2 ^ LENGTH('l) \<longleftrightarrow> uint a * uint b < 2 ^ LENGTH('l)"
    unfolding uint_nat of_nat_mult [symmetric] by (metis of_nat_less_iff of_nat_numeral of_nat_power)
  then show ?thesis by (simp add: checked_mul_def)
qed

definition compare_share :: "fraction \<Rightarrow> u64 \<Rightarrow> u64 \<Rightarrow> ordering option" where
  "compare_share f value basis =
     (case checked_mul (ucast value :: u128) (ucast (denominator f)) of None \<Rightarrow> None
      | Some lhs \<Rightarrow>
        (case checked_mul (ucast (numerator f) :: u128) (ucast basis) of None \<Rightarrow> None
         | Some rhs \<Rightarrow> Some (cmp lhs rhs)))"

definition is_proportion :: "fraction \<Rightarrow> bool" where
  "is_proportion f \<longleftrightarrow> numerator f \<le> denominator f"

lemma unat_ucast_u128 [simp]: "unat (ucast (w :: u64) :: u128) = unat w"
  by (simp add: unsigned_ucast_eq take_bit_nat_eq_self order_less_le_trans [OF unat_bound])

lemma checked_mul_u64_in_u128:
  "\<exists>p. checked_mul (ucast (a :: u64) :: u128) (ucast (b :: u64)) = Some p \<and> unat p = unat a * unat b"
proof -
  have a: "unat a \<le> 2 ^ 64 - 1" and b: "unat b \<le> 2 ^ 64 - 1"
    using unat_bound [of a] unat_bound [of b] by simp_all
  have "unat a * unat b \<le> (2 ^ 64 - 1) * (2 ^ 64 - 1)"
    using a b by (rule mult_le_mono)
  also have "\<dots> < (2 ^ 128 :: nat)" by simp
  finally have lt: "unat a * unat b < 2 ^ 128" .
  then have "unat ((ucast a :: u128) * ucast b) = unat a * unat b"
    by (simp add: unat_word_ariths)
  then show ?thesis using lt by (simp add: checked_mul_def)
qed

lemma compare_share_eq:
  "compare_share f v b = Some (cmp (unat v * unat (denominator f)) (unat (numerator f) * unat b))"
proof -
  obtain p where p: "checked_mul (ucast v :: u128) (ucast (denominator f)) = Some p"
    "unat p = unat v * unat (denominator f)"
    using checked_mul_u64_in_u128 by blast
  obtain q where q: "checked_mul (ucast (numerator f) :: u128) (ucast b) = Some q"
    "unat q = unat (numerator f) * unat b"
    using checked_mul_u64_in_u128 by blast
  have "cmp p q = cmp (unat p) (unat q)"
    by (auto simp: cmp_def word_less_nat_alt word_unat_eq_iff)
  then show ?thesis using p q by (simp add: compare_share_def)
qed

section \<open>Ballots\<close>

datatype choice = Yes | No | Abstain

definition choice_as_str :: "choice \<Rightarrow> string" where
  "choice_as_str c = (case c of Yes \<Rightarrow> ''yes'' | No \<Rightarrow> ''no'' | Abstain \<Rightarrow> ''abstain'')"

definition choice_parse :: "string \<Rightarrow> choice option" where
  "choice_parse text =
     (if text = ''yes'' then Some Yes
      else if text = ''no'' then Some No
      else if text = ''abstain'' then Some Abstain
      else None)"

record ballot =
  b_voter :: voter_id
  b_choice :: choice

datatype ballot_set = BallotSet (ballots: "ballot list")

definition ballot_set_new :: "ballot list \<Rightarrow> (core_error, ballot_set) result" where
  "ballot_set_new bs =
     (let sorted = sort_key b_voter bs
      in case first_repeat {} (map b_voter sorted) of
           Some v \<Rightarrow> Err (DuplicateBallot v)
         | None \<Rightarrow> Ok (BallotSet sorted))"

definition wf_ballot_set :: "ballot_set \<Rightarrow> bool" where
  "wf_ballot_set bs \<longleftrightarrow> sorted_wrt (<) (map b_voter (ballots bs))"

interpretation ballot_builder: canonical_builder
  ballot_set_new ballots b_voter BallotSet "distinct_keys b_voter"
  by unfold_locales
    (auto simp: ballot_set_new_def Let_def split: option.splits dest: first_repeat_Some)

lemma ballot_set_new_wf: "ballot_set_new xs = Ok bs \<Longrightarrow> wf_ballot_set bs"
  unfolding wf_ballot_set_def by (rule ballot_builder.build_strict)

section \<open>Electorates\<close>

record voter =
  v_id :: voter_id
  v_weight :: weight
  v_excluded :: bool

datatype electorate = Electorate (voters: "voter list")

definition electorate_new :: "voter list \<Rightarrow> (core_error, electorate) result" where
  "electorate_new vs =
     (let sorted = sort_key v_id vs
      in case first_repeat {} (map v_id sorted) of
           Some v \<Rightarrow> Err (DuplicateVoter v)
         | None \<Rightarrow> Ok (Electorate sorted))"

definition electorate_get :: "electorate \<Rightarrow> voter_id \<Rightarrow> voter option" where
  "electorate_get e v = table_get v_id (voters e) v"

definition wf_electorate :: "electorate \<Rightarrow> bool" where
  "wf_electorate e \<longleftrightarrow> sorted_wrt (<) (map v_id (voters e))"

interpretation electorate_builder: canonical_builder
  electorate_new voters v_id Electorate "distinct_keys v_id"
  by unfold_locales
    (auto simp: electorate_new_def Let_def split: option.splits dest: first_repeat_Some)

interpretation electorate_table: sorted_table voters v_id electorate_get wf_electorate
  by unfold_locales (simp_all add: wf_electorate_def electorate_get_def)

lemma electorate_new_wf: "electorate_new xs = Ok e \<Longrightarrow> wf_electorate e"
  unfolding wf_electorate_def by (rule electorate_builder.build_strict)

end
