(* ===== verification/Bornite_Rules.thy ===== *)
theory Bornite_Rules
  imports Bornite_Core
begin

text \<open>
  \<open>crates/bornite-rules\<close>: the typed voting rules and \<open>validate\<close>, which checks a rule set against
  the electorate it will be applied to and reports every contradiction, sorted and without
  repetitions.
\<close>

datatype weight_rule = EqualWeight | ElectorateWeight

datatype quorum_basis = QB_TotalElectorate | QB_EffectiveElectorate

datatype quorum_rule =
    QuorumNone
  | QuorumAbsolute weight
  | QuorumFraction fraction quorum_basis

datatype threshold_basis = TB_VotesCast | TB_EffectiveElectorate | TB_TotalElectorate

datatype threshold_rule =
    SimpleMajority threshold_basis
  | ThresholdFraction fraction threshold_basis

definition threshold_fraction :: "threshold_rule \<Rightarrow> fraction" where
  "threshold_fraction r = (case r of SimpleMajority _ \<Rightarrow> HALF | ThresholdFraction f _ \<Rightarrow> f)"

definition threshold_basis_of :: "threshold_rule \<Rightarrow> threshold_basis" where
  "threshold_basis_of r = (case r of SimpleMajority b \<Rightarrow> b | ThresholdFraction _ b \<Rightarrow> b)"

datatype abstention_treatment = AbstentionsExclude | AbstentionsInclude

datatype tie_treatment = TieReject | TieAccept

record voting_rules =
  weight_rule :: weight_rule
  exclusions_enabled :: bool
  quorum :: quorum_rule
  threshold :: threshold_rule
  abstentions :: abstention_treatment
  tie :: tie_treatment

definition abstentions_affect_denominator :: "voting_rules \<Rightarrow> bool" where
  "abstentions_affect_denominator r \<longleftrightarrow> threshold_basis_of (threshold r) = TB_VotesCast"

text \<open>
  The invariants that the private constructors of \<open>FractionV1\<close> and \<open>WeightV1\<close> give every rule
  set: denominators and absolute quorums are not zero.
\<close>

definition wf_rules :: "voting_rules \<Rightarrow> bool" where
  "wf_rules r \<longleftrightarrow> wf_fraction (threshold_fraction (threshold r)) \<and>
     (case quorum r of QuorumNone \<Rightarrow> True | QuorumAbsolute w \<Rightarrow> w \<noteq> 0
      | QuorumFraction f _ \<Rightarrow> wf_fraction f)"

section \<open>Issues and their order\<close>

datatype validation_issue =
    ContradictoryWeight voter_id weight
  | ContradictoryExclusion voter_id
  | UnachievableQuorum weight weight_total
  | ImproperRuleFraction string fraction
  | TotalWeightOverflow

text \<open>The derived \<open>Ord\<close>: the variants in declaration order, then their fields.\<close>

fun issue_key :: "validation_issue \<Rightarrow> nat \<times> string \<times> u64 \<times> u64" where
  "issue_key (ContradictoryWeight v w) = (0, voter_id_str v, w, 0)"
| "issue_key (ContradictoryExclusion v) = (1, voter_id_str v, 0, 0)"
| "issue_key (UnachievableQuorum r t) = (2, [], r, t)"
| "issue_key (ImproperRuleFraction s f) = (3, s, numerator f, denominator f)"
| "issue_key TotalWeightOverflow = (4, [], 0, 0)"

lemma issue_key_inj: "issue_key a = issue_key b \<Longrightarrow> a = b"
  by (cases a; cases b) (auto intro: voter_id.expand fraction.equality)

instantiation validation_issue :: linorder
begin

definition less_eq_validation_issue :: "validation_issue \<Rightarrow> validation_issue \<Rightarrow> bool" where
  "less_eq_validation_issue a b \<longleftrightarrow> issue_key a \<le> issue_key b"

definition less_validation_issue :: "validation_issue \<Rightarrow> validation_issue \<Rightarrow> bool" where
  "less_validation_issue a b \<longleftrightarrow> issue_key a < issue_key b"

instance
  by standard
    (auto simp: less_eq_validation_issue_def less_validation_issue_def intro: issue_key_inj)

end

section \<open>Validation\<close>

definition weight_of :: "voting_rules \<Rightarrow> voter \<Rightarrow> weight" where
  "weight_of r v = (case weight_rule r of EqualWeight \<Rightarrow> 1 | ElectorateWeight \<Rightarrow> v_weight v)"

definition voter_issues :: "voting_rules \<Rightarrow> voter \<Rightarrow> validation_issue list" where
  "voter_issues r v =
     (if weight_rule r = EqualWeight \<and> v_weight v \<noteq> 1
      then [ContradictoryWeight (v_id v) (v_weight v)] else []) @
     (if \<not> exclusions_enabled r \<and> v_excluded v then [ContradictoryExclusion (v_id v)] else [])"

definition quorum_issues :: "voting_rules \<Rightarrow> electorate \<Rightarrow> validation_issue list" where
  "quorum_issues r e =
     (case quorum r of
        QuorumAbsolute required \<Rightarrow>
          (case weight_sum (map (weight_of r) (voters e)) of
             Ok tot \<Rightarrow> (if tot < required then [UnachievableQuorum required tot] else [])
           | _ \<Rightarrow> [TotalWeightOverflow])
      | _ \<Rightarrow> [])"

definition fraction_issues :: "voting_rules \<Rightarrow> validation_issue list" where
  "fraction_issues r =
     (case quorum r of
        QuorumFraction f _ \<Rightarrow> (if \<not> is_proportion f then [ImproperRuleFraction ''quorum'' f] else [])
      | _ \<Rightarrow> []) @
     (case threshold r of
        ThresholdFraction f _ \<Rightarrow>
          (if \<not> is_proportion f then [ImproperRuleFraction ''threshold'' f] else [])
      | _ \<Rightarrow> [])"

definition validation_issues :: "voting_rules \<Rightarrow> electorate \<Rightarrow> validation_issue list" where
  "validation_issues r e =
     fraction_issues r @ concat (map (voter_issues r) (voters e)) @ quorum_issues r e"

definition validate :: "voting_rules \<Rightarrow> electorate \<Rightarrow> (validation_issue list, unit) result" where
  "validate r e =
     (let issues = validation_issues r e
      in if issues = [] then Ok () else Err (remdups_adj (sort issues)))"

lemma validate_no_Panic [simp]: "validate r e \<noteq> Panic"
  by (simp add: validate_def Let_def)

text \<open>What a rule set and an electorate agree on when there is nothing to report.\<close>

definition compatible :: "voting_rules \<Rightarrow> electorate \<Rightarrow> bool" where
  "compatible r e \<longleftrightarrow>
     (\<forall>f b. quorum r = QuorumFraction f b \<longrightarrow> is_proportion f) \<and>
     is_proportion (threshold_fraction (threshold r)) \<and>
     (\<forall>v \<in> set (voters e). weight_rule r = EqualWeight \<longrightarrow> v_weight v = 1) \<and>
     (\<forall>v \<in> set (voters e). v_excluded v \<longrightarrow> exclusions_enabled r) \<and>
     (\<forall>w. quorum r = QuorumAbsolute w \<longrightarrow>
        weight_nat (map (weight_of r) (voters e)) < 2 ^ 64 \<and>
        unat w \<le> weight_nat (map (weight_of r) (voters e)))"

lemma HALF_proportion [simp]: "is_proportion HALF" "wf_fraction HALF"
  by (simp_all add: is_proportion_def HALF_def wf_fraction_def)

lemma fraction_issues_empty_iff:
  "fraction_issues r = [] \<longleftrightarrow>
     (\<forall>f b. quorum r = QuorumFraction f b \<longrightarrow> is_proportion f) \<and>
     is_proportion (threshold_fraction (threshold r))"
  by (auto simp: fraction_issues_def threshold_fraction_def
      split: quorum_rule.splits threshold_rule.splits)

lemma voter_issues_empty_iff:
  "concat (map (voter_issues r) vs) = [] \<longleftrightarrow>
     (\<forall>v \<in> set vs. weight_rule r = EqualWeight \<longrightarrow> v_weight v = 1) \<and>
     (\<forall>v \<in> set vs. v_excluded v \<longrightarrow> exclusions_enabled r)"
  by (auto simp: voter_issues_def split: if_splits)

lemma quorum_issues_empty_iff:
  "quorum_issues r e = [] \<longleftrightarrow>
     (\<forall>w. quorum r = QuorumAbsolute w \<longrightarrow>
        weight_nat (map (weight_of r) (voters e)) < 2 ^ 64 \<and>
        unat w \<le> weight_nat (map (weight_of r) (voters e)))"
proof (cases "quorum r")
  case (QuorumAbsolute w)
  show ?thesis
  proof (cases "weight_sum (map (weight_of r) (voters e))")
    case (Ok t)
    then have "unat t = weight_nat (map (weight_of r) (voters e))"
      by (simp add: weight_sum_Ok_iff)
    moreover have "unat t < 2 ^ 64" using unat_bound [of t] by simp
    ultimately show ?thesis using QuorumAbsolute Ok
      by (auto simp: quorum_issues_def word_less_nat_alt not_less)
  next
    case (Err d)
    then have "2 ^ 64 \<le> weight_nat (map (weight_of r) (voters e))"
      by (simp add: weight_sum_Err_iff)
    with QuorumAbsolute Err show ?thesis by (simp add: quorum_issues_def)
  qed simp
qed (auto simp: quorum_issues_def)

lemma validate_Ok_iff: "validate r e = Ok () \<longleftrightarrow> compatible r e"
proof -
  have "validation_issues r e = [] \<longleftrightarrow> compatible r e"
    unfolding validation_issues_def compatible_def append_is_Nil_conv
      fraction_issues_empty_iff voter_issues_empty_iff quorum_issues_empty_iff
    by (simp only: conj_assoc)
  then show ?thesis by (simp add: validate_def Let_def)
qed

lemma validate_Err:
  assumes "validate r e = Err is"
  shows "is \<noteq> [] \<and> sorted_wrt (<) is \<and> set is = set (validation_issues r e)"
proof -
  from assms have i: "is = remdups_adj (sort (validation_issues r e))"
    and n: "validation_issues r e \<noteq> []"
    by (auto simp: validate_def Let_def split: if_splits)
  then show ?thesis
    by (simp add: sort_dedup_strict flip: set_empty)
qed

end
