(* ===== verification/Bornite_Eval.thy ===== *)
theory Bornite_Eval
  imports Bornite_Rules
begin

text \<open>
  \<open>crates/bornite-eval\<close>: the evaluation of one vote. \<open>evaluate\<close> follows the nine steps of the
  code in their order, one definition per step, every early return an \<^const>\<open>Err\<close> and every
  \<open>expect\<close> and unchecked operator a possible \<^const>\<open>Panic\<close>. The second half states what a vote
  means over unbounded natural numbers and proves that the machine computes it.
\<close>

section \<open>Results and errors\<close>

record electorate_summary =
  es_voter_count :: u64
  es_excluded_count :: u64
  es_effective_voter_count :: u64
  es_total_weight :: weight_total
  es_effective_weight :: weight_total

record participation =
  p_ballot_count :: u64
  p_weight :: weight_total
  p_non_participant_count :: u64
  p_non_participant_weight :: weight_total

record tally =
  yes_weight :: weight_total
  no_weight :: weight_total
  abstain_weight :: weight_total
  yes_count :: u64
  no_count :: u64
  abstain_count :: u64

datatype quorum_requirement =
    RequireNone
  | RequireAbsolute weight
  | RequireFraction fraction quorum_basis weight_total

record quorum_outcome =
  q_requirement :: quorum_requirement
  q_actual_weight :: weight_total
  q_met :: bool

datatype comparison = Above | Exactly | Below

record threshold_outcome =
  t_basis :: threshold_basis
  t_denominator_weight :: weight_total
  t_required_fraction :: fraction
  t_abstentions_affected_denominator :: bool
  t_yes_weight :: weight_total
  t_comparison :: comparison
  t_met :: bool

datatype outcome = Accepted | Rejected

datatype reason_code =
    ThresholdMet | ThresholdNotMet | TieAccepted | TieRejected | QuorumNotMet | EmptyThresholdBasis

definition reason_code_as_str :: "reason_code \<Rightarrow> string" where
  "reason_code_as_str r = (case r of
     ThresholdMet \<Rightarrow> ''threshold_met'' | ThresholdNotMet \<Rightarrow> ''threshold_not_met''
   | TieAccepted \<Rightarrow> ''tie_accepted'' | TieRejected \<Rightarrow> ''tie_rejected''
   | QuorumNotMet \<Rightarrow> ''quorum_not_met'' | EmptyThresholdBasis \<Rightarrow> ''empty_threshold_basis'')"

record vote_evaluation =
  ev_version :: u32
  ev_rules :: voting_rules
  ev_electorate :: electorate_summary
  ev_participation :: participation
  ev_tally :: tally
  ev_quorum :: quorum_outcome
  ev_threshold :: threshold_outcome
  ev_outcome :: outcome
  ev_reason :: reason_code

definition accepted :: "vote_evaluation \<Rightarrow> bool" where
  "accepted ev \<longleftrightarrow> ev_outcome ev = Accepted"

datatype ballot_issue = UnknownVoter voter_id | ExcludedVoter voter_id

text \<open>The derived \<open>Ord\<close>: the variants in declaration order, then the voter.\<close>

fun ballot_issue_key :: "ballot_issue \<Rightarrow> nat \<times> voter_id" where
  "ballot_issue_key (UnknownVoter v) = (0, v)"
| "ballot_issue_key (ExcludedVoter v) = (1, v)"

datatype evaluation_error =
    EvValidation "validation_issue list"
  | EvBallots "ballot_issue list"
  | EvWeightOverflow

section \<open>The steps\<close>

definition overflow :: "core_error \<Rightarrow> evaluation_error" where
  "overflow _ = EvWeightOverflow"

definition eval_sum :: "weight list \<Rightarrow> (evaluation_error, weight_total) result" where
  "eval_sum ws = rmap_err overflow (weight_sum ws)"

definition count_items :: "'a list \<Rightarrow> (evaluation_error, u64) result" where
  "count_items xs = rexpect (try_from_nat (length xs))"

definition is_effective :: "voting_rules \<Rightarrow> voter \<Rightarrow> bool" where
  "is_effective r v \<longleftrightarrow> \<not> (exclusions_enabled r \<and> v_excluded v)"

definition ballot_issue_of :: "voting_rules \<Rightarrow> electorate \<Rightarrow> ballot \<Rightarrow> ballot_issue list" where
  "ballot_issue_of r e b =
     (case electorate_get e (b_voter b) of
        None \<Rightarrow> [UnknownVoter (b_voter b)]
      | Some v \<Rightarrow> if \<not> is_effective r v then [ExcludedVoter (b_voter b)] else [])"

definition check_ballots ::
    "voting_rules \<Rightarrow> electorate \<Rightarrow> ballot_set \<Rightarrow> (evaluation_error, unit) result" where
  "check_ballots r e bs =
     (let issues = concat (map (ballot_issue_of r e) (ballots bs))
      in if issues = [] then Ok () else Err (EvBallots (sort_key ballot_issue_key issues)))"

definition ballot_weight ::
    "voting_rules \<Rightarrow> electorate \<Rightarrow> ballot \<Rightarrow> (evaluation_error, choice \<times> weight) result" where
  "ballot_weight r e b =
     rbind (rexpect (electorate_get e (b_voter b))) (\<lambda>v. Ok (b_choice b, weight_of r v))"

definition eval_add :: "weight_total \<Rightarrow> weight \<Rightarrow> (evaluation_error, weight_total) result" where
  "eval_add t w = rmap_err overflow (total_checked_add t w)"

definition participating ::
    "voting_rules \<Rightarrow> electorate \<Rightarrow> ballot_set \<Rightarrow> (evaluation_error, weight_total) result" where
  "participating r e bs =
     try_fold (\<lambda>t b. rbind (ballot_weight r e b) (\<lambda>cw. eval_add t (snd cw))) 0 (ballots bs)"

definition requirement_of ::
    "quorum_rule \<Rightarrow> weight_total \<Rightarrow> weight_total \<Rightarrow> quorum_requirement" where
  "requirement_of q total_w effective_w =
     (case q of
        QuorumNone \<Rightarrow> RequireNone
      | QuorumAbsolute w \<Rightarrow> RequireAbsolute w
      | QuorumFraction f b \<Rightarrow> RequireFraction f b
          (case b of QB_TotalElectorate \<Rightarrow> total_w | QB_EffectiveElectorate \<Rightarrow> effective_w))"

definition quorum_met :: "quorum_requirement \<Rightarrow> weight_total \<Rightarrow> (evaluation_error, bool) result" where
  "quorum_met q part =
     (case q of
        RequireNone \<Rightarrow> Ok True
      | RequireAbsolute w \<Rightarrow> Ok (w \<le> part)
      | RequireFraction f _ basis_w \<Rightarrow>
          rbind (rexpect (compare_share f part basis_w)) (\<lambda>c. Ok (c \<noteq> Less)))"

definition empty_tally :: tally where
  "empty_tally = \<lparr>yes_weight = 0, no_weight = 0, abstain_weight = 0,
     yes_count = 0, no_count = 0, abstain_count = 0\<rparr>"

definition tally_step ::
    "voting_rules \<Rightarrow> electorate \<Rightarrow> tally \<Rightarrow> ballot \<Rightarrow> (evaluation_error, tally) result" where
  "tally_step r e t b =
     rbind (ballot_weight r e b) (\<lambda>(c, w).
       case c of
         Yes \<Rightarrow> rbind (eval_add (yes_weight t) w) (\<lambda>y. rbind (padd (yes_count t) 1) (\<lambda>n.
                  Ok (t\<lparr>yes_weight := y, yes_count := n\<rparr>)))
       | No \<Rightarrow> rbind (eval_add (no_weight t) w) (\<lambda>y. rbind (padd (no_count t) 1) (\<lambda>n.
                  Ok (t\<lparr>no_weight := y, no_count := n\<rparr>)))
       | Abstain \<Rightarrow> rbind (eval_add (abstain_weight t) w) (\<lambda>y. rbind (padd (abstain_count t) 1) (\<lambda>n.
                  Ok (t\<lparr>abstain_weight := y, abstain_count := n\<rparr>))))"

definition tally_ballots ::
    "voting_rules \<Rightarrow> electorate \<Rightarrow> ballot_set \<Rightarrow> (evaluation_error, tally) result" where
  "tally_ballots r e bs = try_fold (tally_step r e) empty_tally (ballots bs)"

definition denominator_weight ::
    "voting_rules \<Rightarrow> tally \<Rightarrow> weight_total \<Rightarrow> weight_total \<Rightarrow> weight_total
      \<Rightarrow> (evaluation_error, weight_total) result" where
  "denominator_weight r t part total_w effective_w =
     (case threshold_basis_of (threshold r) of
        TB_VotesCast \<Rightarrow>
          (case abstentions r of
             AbstentionsExclude \<Rightarrow> eval_add (yes_weight t) (no_weight t)
           | AbstentionsInclude \<Rightarrow> Ok part)
      | TB_EffectiveElectorate \<Rightarrow> Ok effective_w
      | TB_TotalElectorate \<Rightarrow> Ok total_w)"

definition comparison_of :: "ordering \<Rightarrow> comparison" where
  "comparison_of c = (case c of Greater \<Rightarrow> Above | Equal \<Rightarrow> Exactly | Less \<Rightarrow> Below)"

definition threshold_met :: "comparison \<Rightarrow> tie_treatment \<Rightarrow> weight_total \<Rightarrow> bool" where
  "threshold_met c tt denom \<longleftrightarrow>
     (case c of Above \<Rightarrow> True | Below \<Rightarrow> False | Exactly \<Rightarrow> tt = TieAccept) \<and> denom \<noteq> 0"

definition decide :: "bool \<Rightarrow> weight_total \<Rightarrow> comparison \<Rightarrow> tie_treatment \<Rightarrow> outcome \<times> reason_code" where
  "decide q_ok denom c tt =
     (if \<not> q_ok then (Rejected, QuorumNotMet)
      else if denom = 0 then (Rejected, EmptyThresholdBasis)
      else case c of
        Above \<Rightarrow> (Accepted, ThresholdMet)
      | Below \<Rightarrow> (Rejected, ThresholdNotMet)
      | Exactly \<Rightarrow> (case tt of TieAccept \<Rightarrow> (Accepted, TieAccepted) | TieReject \<Rightarrow> (Rejected, TieRejected)))"

text \<open>\<open>checked_add_total\<close> is the same checked addition as \<open>checked_add\<close> of one weight.\<close>

definition evaluate ::
    "voting_rules \<Rightarrow> electorate \<Rightarrow> ballot_set \<Rightarrow> (evaluation_error, vote_evaluation) result" where
  "evaluate r e bs =
     rbind (rmap_err EvValidation (validate r e)) (\<lambda>_.
     let effective = filter (is_effective r) (voters e) in
     rbind (eval_sum (map (weight_of r) (voters e))) (\<lambda>total_w.
     rbind (eval_sum (map (weight_of r) effective)) (\<lambda>effective_w.
     rbind (count_items effective) (\<lambda>effective_n.
     rbind (count_items (voters e)) (\<lambda>voter_n.
     rbind (check_ballots r e bs) (\<lambda>_.
     rbind (participating r e bs) (\<lambda>part.
     rbind (count_items (ballots bs)) (\<lambda>ballot_n.
     rbind (psub effective_n ballot_n) (\<lambda>absent_n.
     rbind (rexpect (total_checked_sub effective_w part)) (\<lambda>absent_w.
     let requirement = requirement_of (quorum r) total_w effective_w in
     rbind (quorum_met requirement part) (\<lambda>q_ok.
     rbind (tally_ballots r e bs) (\<lambda>t.
     rbind (denominator_weight r t part total_w effective_w) (\<lambda>denom.
     rbind (rexpect (compare_share (threshold_fraction (threshold r)) (yes_weight t) denom)) (\<lambda>ord.
     let c = comparison_of ord; t_ok = threshold_met c (tie r) denom; d = decide q_ok denom c (tie r) in
     rbind (psub voter_n effective_n) (\<lambda>excluded_n.
     Ok \<lparr>ev_version = 1,
         ev_rules = r,
         ev_electorate = \<lparr>es_voter_count = voter_n, es_excluded_count = excluded_n,
           es_effective_voter_count = effective_n, es_total_weight = total_w,
           es_effective_weight = effective_w\<rparr>,
         ev_participation = \<lparr>p_ballot_count = ballot_n, p_weight = part,
           p_non_participant_count = absent_n, p_non_participant_weight = absent_w\<rparr>,
         ev_tally = t,
         ev_quorum = \<lparr>q_requirement = requirement, q_actual_weight = part, q_met = q_ok\<rparr>,
         ev_threshold = \<lparr>t_basis = threshold_basis_of (threshold r), t_denominator_weight = denom,
           t_required_fraction = threshold_fraction (threshold r),
           t_abstentions_affected_denominator = abstentions_affect_denominator r,
           t_yes_weight = yes_weight t, t_comparison = c, t_met = t_ok\<rparr>,
         ev_outcome = fst d,
         ev_reason = snd d\<rparr>)))))))))))))))"

section \<open>The vote over natural numbers\<close>

text \<open>
  The specification: who holds how much, without machine words and without the order of the
  steps. \<open>voter_nat\<close> is what a voter's ballot weighs, \<open>voted\<close> the weight behind a choice.
\<close>

definition voter_nat :: "voting_rules \<Rightarrow> electorate \<Rightarrow> voter_id \<Rightarrow> nat" where
  "voter_nat r e i = (case electorate_get e i of None \<Rightarrow> 0 | Some v \<Rightarrow> unat (weight_of r v))"

definition weigh :: "voting_rules \<Rightarrow> electorate \<Rightarrow> ballot list \<Rightarrow> nat" where
  "weigh r e bs = sum_list (map (\<lambda>b. voter_nat r e (b_voter b)) bs)"

definition cast_for :: "choice \<Rightarrow> ballot_set \<Rightarrow> ballot list" where
  "cast_for c bs = filter (\<lambda>b. b_choice b = c) (ballots bs)"

abbreviation voted :: "voting_rules \<Rightarrow> electorate \<Rightarrow> ballot_set \<Rightarrow> choice \<Rightarrow> nat" where
  "voted r e bs c \<equiv> weigh r e (cast_for c bs)"

abbreviation effective_voters :: "voting_rules \<Rightarrow> electorate \<Rightarrow> voter list" where
  "effective_voters r e \<equiv> filter (is_effective r) (voters e)"

abbreviation total_nat :: "voting_rules \<Rightarrow> electorate \<Rightarrow> nat" where
  "total_nat r e \<equiv> weight_nat (map (weight_of r) (voters e))"

abbreviation effective_nat :: "voting_rules \<Rightarrow> electorate \<Rightarrow> nat" where
  "effective_nat r e \<equiv> weight_nat (map (weight_of r) (effective_voters r e))"

definition ballots_valid :: "voting_rules \<Rightarrow> electorate \<Rightarrow> ballot_set \<Rightarrow> bool" where
  "ballots_valid r e bs \<longleftrightarrow>
     (\<forall>b \<in> set (ballots bs). \<exists>v. electorate_get e (b_voter b) = Some v \<and> is_effective r v)"

definition basis_nat :: "voting_rules \<Rightarrow> electorate \<Rightarrow> ballot_set \<Rightarrow> nat" where
  "basis_nat r e bs =
     (case threshold_basis_of (threshold r) of
        TB_VotesCast \<Rightarrow>
          voted r e bs Yes + voted r e bs No
            + (if abstentions r = AbstentionsInclude then voted r e bs Abstain else 0)
      | TB_EffectiveElectorate \<Rightarrow> effective_nat r e
      | TB_TotalElectorate \<Rightarrow> total_nat r e)"

definition quorum_reached :: "voting_rules \<Rightarrow> electorate \<Rightarrow> ballot_set \<Rightarrow> bool" where
  "quorum_reached r e bs \<longleftrightarrow>
     (case quorum r of
        QuorumNone \<Rightarrow> True
      | QuorumAbsolute w \<Rightarrow> unat w \<le> weigh r e (ballots bs)
      | QuorumFraction f b \<Rightarrow>
          unat (numerator f)
              * (case b of QB_TotalElectorate \<Rightarrow> total_nat r e | QB_EffectiveElectorate \<Rightarrow> effective_nat r e)
            \<le> weigh r e (ballots bs) * unat (denominator f))"

definition share_reached :: "voting_rules \<Rightarrow> electorate \<Rightarrow> ballot_set \<Rightarrow> bool" where
  "share_reached r e bs \<longleftrightarrow>
     (let f = threshold_fraction (threshold r);
          wanted = unat (numerator f) * basis_nat r e bs;
          got = voted r e bs Yes * unat (denominator f)
      in 0 < basis_nat r e bs \<and> (wanted < got \<or> wanted = got \<and> tie r = TieAccept))"

text \<open>What the types of the code guarantee of the three inputs of \<open>evaluate\<close>.\<close>

definition wf_vote :: "electorate \<Rightarrow> ballot_set \<Rightarrow> bool" where
  "wf_vote e bs \<longleftrightarrow> wf_electorate e \<and> (\<forall>v \<in> set (voters e). v_weight v \<noteq> 0) \<and> wf_ballot_set bs"

lemma weigh_Nil [simp]: "weigh r e [] = 0"
  and weigh_Cons [simp]: "weigh r e (b # bs) = voter_nat r e (b_voter b) + weigh r e bs"
  by (simp_all add: weigh_def)

lemma weigh_split: "weigh r e (ballots bs) = voted r e bs Yes + voted r e bs No + voted r e bs Abstain"
proof -
  have "weigh r e xs = weigh r e (filter (\<lambda>b. b_choice b = Yes) xs)
      + weigh r e (filter (\<lambda>b. b_choice b = No) xs)
      + weigh r e (filter (\<lambda>b. b_choice b = Abstain) xs)" for xs
  proof (induction xs)
    case (Cons b xs)
    show ?case by (cases "b_choice b"; simp; use Cons.IH in linarith)
  qed simp
  from this [of "ballots bs"] show ?thesis by (simp only: cast_for_def)
qed

lemma length_split:
  "length (ballots bs) = length (cast_for Yes bs) + length (cast_for No bs) + length (cast_for Abstain bs)"
proof -
  have "length xs = length (filter (\<lambda>b. b_choice b = Yes) xs)
      + length (filter (\<lambda>b. b_choice b = No) xs)
      + length (filter (\<lambda>b. b_choice b = Abstain) xs)" for xs :: "ballot list"
  proof (induction xs)
    case (Cons b xs)
    show ?case by (cases "b_choice b"; simp; use Cons.IH in linarith)
  qed simp
  from this [of "ballots bs"] show ?thesis by (simp only: cast_for_def)
qed

section \<open>Participants are part of the effective electorate\<close>

lemma wf_ballots_distinct: "wf_ballot_set bs \<Longrightarrow> distinct (map b_voter (ballots bs))"
  by (simp add: wf_ballot_set_def sorted_distinct_iff_less)

text \<open>The voters behind the ballots, each once and all of them effective.\<close>

lemma ballot_voters:
  assumes "wf_vote e bs" and "ballots_valid r e bs"
  shows "inj_on (\<lambda>b. the (electorate_get e (b_voter b))) (set (ballots bs))"
    and "(\<lambda>b. the (electorate_get e (b_voter b))) ` set (ballots bs) \<subseteq> set (effective_voters r e)"
    and "distinct (ballots bs)" and "distinct (effective_voters r e)"
proof -
  from assms(1) have e: "wf_electorate e" and d: "distinct (map b_voter (ballots bs))"
    by (simp_all add: wf_vote_def wf_ballots_distinct)
  have found: "v \<in> set (voters e) \<and> v_id v = i" if "electorate_get e i = Some v" for i v
    using that electorate_table.get_Some_iff [OF e] by simp
  show "inj_on (\<lambda>b. the (electorate_get e (b_voter b))) (set (ballots bs))"
  proof (rule inj_onI)
    fix b c
    assume bc: "b \<in> set (ballots bs)" "c \<in> set (ballots bs)"
      "the (electorate_get e (b_voter b)) = the (electorate_get e (b_voter c))"
    then obtain v w where "electorate_get e (b_voter b) = Some v" "electorate_get e (b_voter c) = Some w"
      using assms(2) by (metis ballots_valid_def)
    with bc found have "b_voter b = b_voter c" by (metis option.sel)
    with bc d show "b = c" by (auto simp: distinct_map dest: inj_onD)
  qed
  show "(\<lambda>b. the (electorate_get e (b_voter b))) ` set (ballots bs) \<subseteq> set (effective_voters r e)"
    using assms(2) found by (fastforce simp: ballots_valid_def)
  show "distinct (ballots bs)" using d by (simp add: distinct_map)
  show "distinct (effective_voters r e)" by (simp add: electorate_table.items_distinct [OF e])
qed

lemma ballot_count_le:
  assumes "wf_vote e bs" and "ballots_valid r e bs"
  shows "length (ballots bs) \<le> length (effective_voters r e)"
proof -
  note b = ballot_voters [OF assms]
  have "card (set (ballots bs)) \<le> card (set (effective_voters r e))"
    by (rule card_inj_on_le [OF b(1,2)]) simp
  then show ?thesis using b(3,4) by (simp add: distinct_card del: set_filter)
qed

lemma participating_le:
  assumes "wf_vote e bs" and "ballots_valid r e bs"
  shows "weigh r e (ballots bs) \<le> effective_nat r e"
proof -
  let ?v = "\<lambda>b. the (electorate_get e (b_voter b))"
  note b = ballot_voters [OF assms]
  have "weigh r e (ballots bs) = (\<Sum>b \<in> set (ballots bs). voter_nat r e (b_voter b))"
    by (simp add: weigh_def sum_list_distinct_conv_sum_set [OF b(3)])
  also have "\<dots> = (\<Sum>b \<in> set (ballots bs). unat (weight_of r (?v b)))"
    using assms(2) by (intro sum.cong) (auto simp: ballots_valid_def voter_nat_def)
  also have "\<dots> = (\<Sum>v \<in> ?v ` set (ballots bs). unat (weight_of r v))"
    by (simp add: sum.reindex [OF b(1)])
  also have "\<dots> \<le> (\<Sum>v \<in> set (effective_voters r e). unat (weight_of r v))"
    by (rule sum_mono2 [OF _ b(2)]) simp_all
  also have "\<dots> = effective_nat r e"
    by (simp add: sum_list_distinct_conv_sum_set [OF b(4)] o_def del: set_filter)
  finally show ?thesis .
qed

lemma effective_le_total: "effective_nat r e \<le> total_nat r e"
proof -
  have "weight_nat (map (weight_of r) (filter (is_effective r) vs)) \<le> weight_nat (map (weight_of r) vs)" for vs
    by (induction vs) auto
  then show ?thesis .
qed

text \<open>Every weight is at least one, so there are never more voters than weight.\<close>

lemma voter_count_le:
  assumes "wf_vote e bs"
  shows "length (voters e) \<le> total_nat r e"
proof -
  have "length vs \<le> weight_nat (map (weight_of r) vs)" if "\<forall>v \<in> set vs. v_weight v \<noteq> 0" for vs
    using that
  proof (induction vs)
    case (Cons v vs)
    then have "0 < unat (weight_of r v)"
      by (auto simp: weight_of_def unat_gt_0 split: weight_rule.splits)
    with Cons show ?case by simp
  qed simp
  with assms show ?thesis by (simp add: wf_vote_def)
qed

section \<open>The machine computes it\<close>

lemma eval_sum_Ok_iff: "eval_sum ws = Ok t \<longleftrightarrow> unat t = weight_nat ws"
  by (simp add: eval_sum_def result_simps weight_sum_Ok_iff)

lemma eval_sum_no_Panic [simp]: "eval_sum ws \<noteq> Panic"
  by (simp add: eval_sum_def result_simps)

lemma eval_add_Ok_iff: "eval_add t w = Ok u \<longleftrightarrow> unat t + unat w = unat u"
  by (simp add: eval_add_def result_simps total_checked_add_Ok_iff)

lemma eval_add_Ok: "unat t + unat w < 2 ^ 64 \<Longrightarrow> eval_add t w = Ok (t + w)"
  by (simp add: eval_add_Ok_iff unat_word_ariths)

lemma count_items_Ok_iff: "count_items xs = Ok n \<longleftrightarrow> unat n = length xs"
  by (simp add: count_items_def result_simps word_nat)

lemma nat_word_exists: "n < 2 ^ LENGTH('l) \<Longrightarrow> \<exists>w :: 'l::len word. unat w = n"
  by (intro exI [of _ "of_nat n"]) (simp add: unat_of_nat take_bit_nat_eq_self)

lemma u64_exists: "n < 2 ^ 64 \<Longrightarrow> \<exists>w :: u64. unat w = n"
  using nat_word_exists [where 'l = 64] by simp

lemma u64_le_exists: "m \<le> n \<Longrightarrow> n < 2 ^ 64 \<Longrightarrow> \<exists>w :: u64. unat w = m"
  by (rule u64_exists) (rule order.strict_trans1)

lemma check_ballots_Ok_iff: "check_ballots r e bs = Ok () \<longleftrightarrow> ballots_valid r e bs"
proof -
  have "concat (map (ballot_issue_of r e) xs) = [] \<longleftrightarrow>
      (\<forall>b \<in> set xs. \<exists>v. electorate_get e (b_voter b) = Some v \<and> is_effective r v)" for xs
    by (auto simp: ballot_issue_of_def split: option.splits if_splits)
  then show ?thesis by (simp add: check_ballots_def ballots_valid_def Let_def)
qed

lemma check_ballots_no_Panic [simp]: "check_ballots r e bs \<noteq> Panic"
  by (simp add: check_ballots_def Let_def)

text \<open>A validated ballot weighs what the electorate says.\<close>

lemma ballot_weight_valid:
  assumes "ballots_valid r e bs" and "b \<in> set (ballots bs)"
  obtains w where "ballot_weight r e b = Ok (b_choice b, w)" "unat w = voter_nat r e (b_voter b)"
  using assms by (auto simp: ballots_valid_def ballot_weight_def voter_nat_def)

lemma participating_fold:
  assumes "\<forall>b \<in> set xs. \<exists>w. ballot_weight r e b = Ok (b_choice b, w)
      \<and> unat w = voter_nat r e (b_voter b)"
    and "unat t + weigh r e xs < 2 ^ 64"
  shows "\<exists>u. try_fold (\<lambda>t b. rbind (ballot_weight r e b) (\<lambda>cw. eval_add t (snd cw))) t xs = Ok u
      \<and> unat u = unat t + weigh r e xs"
  using assms
proof (induction xs arbitrary: t)
  case (Cons b xs)
  then obtain w where w: "ballot_weight r e b = Ok (b_choice b, w)"
    "unat w = voter_nat r e (b_voter b)" by auto
  with Cons.prems(2) have sum: "unat (t + w) = unat t + voter_nat r e (b_voter b)"
    and ok: "eval_add t w = Ok (t + w)"
    by (simp_all add: unat_word_ariths eval_add_Ok)
  have "\<exists>u. try_fold (\<lambda>t b. rbind (ballot_weight r e b) (\<lambda>cw. eval_add t (snd cw))) (t + w) xs = Ok u
      \<and> unat u = unat (t + w) + weigh r e xs"
    by (rule Cons.IH) (use Cons.prems sum in auto)
  then show ?case using w ok sum by (simp add: add.assoc)
qed simp

text \<open>The three buckets of a tally, by choice.\<close>

definition bucket_weight :: "choice \<Rightarrow> tally \<Rightarrow> u64" where
  "bucket_weight c t = (case c of Yes \<Rightarrow> yes_weight t | No \<Rightarrow> no_weight t | Abstain \<Rightarrow> abstain_weight t)"

definition bucket_count :: "choice \<Rightarrow> tally \<Rightarrow> u64" where
  "bucket_count c t = (case c of Yes \<Rightarrow> yes_count t | No \<Rightarrow> no_count t | Abstain \<Rightarrow> abstain_count t)"

lemma tally_step_valid:
  assumes "ballot_weight r e b = Ok (b_choice b, w)"
    and "unat (bucket_weight (b_choice b) t) + unat w < 2 ^ 64"
    and "unat (bucket_count (b_choice b) t) + 1 < 2 ^ 64"
  shows "\<exists>u. tally_step r e t b = Ok u \<and>
    (\<forall>c. unat (bucket_weight c u) = unat (bucket_weight c t) + (if c = b_choice b then unat w else 0) \<and>
         unat (bucket_count c u) = unat (bucket_count c t) + (if c = b_choice b then 1 else 0))"
proof -
  have "eval_add (bucket_weight (b_choice b) t) w = Ok (bucket_weight (b_choice b) t + w)"
    "padd (bucket_count (b_choice b) t) 1
       = (Ok (bucket_count (b_choice b) t + 1) :: (evaluation_error, u64) result)"
    "unat (bucket_weight (b_choice b) t + w) = unat (bucket_weight (b_choice b) t) + unat w"
    "unat (bucket_count (b_choice b) t + 1) = unat (bucket_count (b_choice b) t) + 1"
    using assms(2,3) by (simp_all add: eval_add_Ok padd_Ok unat_word_ariths)
  then show ?thesis using assms(1)
    by (cases "b_choice b")
      (simp_all add: tally_step_def bucket_weight_def bucket_count_def split: choice.split)
qed

lemma tally_fold:
  assumes "\<forall>b \<in> set xs. \<exists>w. ballot_weight r e b = Ok (b_choice b, w)
      \<and> unat w = voter_nat r e (b_voter b)"
    and "\<forall>c. unat (bucket_weight c t) + weigh r e (filter (\<lambda>b. b_choice b = c) xs) < 2 ^ 64"
    and "\<forall>c. unat (bucket_count c t) + length (filter (\<lambda>b. b_choice b = c) xs) < 2 ^ 64"
  shows "\<exists>u. try_fold (tally_step r e) t xs = Ok u \<and>
    (\<forall>c. unat (bucket_weight c u)
           = unat (bucket_weight c t) + weigh r e (filter (\<lambda>b. b_choice b = c) xs) \<and>
         unat (bucket_count c u)
           = unat (bucket_count c t) + length (filter (\<lambda>b. b_choice b = c) xs))"
  using assms
proof (induction xs arbitrary: t)
  case (Cons b xs)
  obtain w where w: "ballot_weight r e b = Ok (b_choice b, w)" "unat w = voter_nat r e (b_voter b)"
    using Cons.prems(1) by auto
  have "unat (bucket_weight (b_choice b) t) + unat w < 2 ^ 64"
    "unat (bucket_count (b_choice b) t) + 1 < 2 ^ 64"
    using Cons.prems(2,3)[rule_format, of "b_choice b"] w(2) by simp_all
  from tally_step_valid [OF w(1) this] obtain u where u: "tally_step r e t b = Ok u"
    "\<And>c. unat (bucket_weight c u) = unat (bucket_weight c t) + (if c = b_choice b then unat w else 0)"
    "\<And>c. unat (bucket_count c u) = unat (bucket_count c t) + (if c = b_choice b then 1 else 0)"
    by blast
  have "\<exists>u'. try_fold (tally_step r e) u xs = Ok u' \<and>
    (\<forall>c. unat (bucket_weight c u')
           = unat (bucket_weight c u) + weigh r e (filter (\<lambda>b. b_choice b = c) xs) \<and>
         unat (bucket_count c u')
           = unat (bucket_count c u) + length (filter (\<lambda>b. b_choice b = c) xs))"
  proof (rule Cons.IH)
    show "\<forall>c. unat (bucket_weight c u) + weigh r e (filter (\<lambda>b. b_choice b = c) xs) < 2 ^ 64"
    proof
      fix c
      show "unat (bucket_weight c u) + weigh r e (filter (\<lambda>b. b_choice b = c) xs) < 2 ^ 64"
        using Cons.prems(2)[rule_format, of c] by (simp add: u(2) w(2) split: if_splits)
    qed
    show "\<forall>c. unat (bucket_count c u) + length (filter (\<lambda>b. b_choice b = c) xs) < 2 ^ 64"
    proof
      fix c
      show "unat (bucket_count c u) + length (filter (\<lambda>b. b_choice b = c) xs) < 2 ^ 64"
        using Cons.prems(3)[rule_format, of c] by (simp add: u(3) split: if_splits)
    qed
  qed (use Cons.prems(1) in auto)
  then show ?case using u w(2) by auto
qed simp

section \<open>Every step of an evaluation that goes through\<close>

lemma participating_Ok:
  assumes "wf_vote e bs" and "ballots_valid r e bs" and "total_nat r e < 2 ^ 64"
  obtains p where "participating r e bs = Ok p" "unat p = weigh r e (ballots bs)"
proof -
  have "\<forall>b \<in> set (ballots bs). \<exists>w. ballot_weight r e b = Ok (b_choice b, w)
      \<and> unat w = voter_nat r e (b_voter b)"
    using ballot_weight_valid [OF assms(2)] by metis
  moreover have "unat (0 :: u64) + weigh r e (ballots bs) < 2 ^ 64"
    using participating_le [OF assms(1,2)] effective_le_total [of r e] assms(3) by simp
  ultimately show thesis
    using participating_fold [of "ballots bs" r e 0] that by (auto simp: participating_def)
qed

lemma tally_Ok:
  assumes "wf_vote e bs" and "ballots_valid r e bs" and "total_nat r e < 2 ^ 64"
  obtains t where "tally_ballots r e bs = Ok t"
    "\<forall>c. unat (bucket_weight c t) = voted r e bs c \<and> unat (bucket_count c t) = length (cast_for c bs)"
proof -
  have 1: "\<forall>b \<in> set (ballots bs). \<exists>w. ballot_weight r e b = Ok (b_choice b, w)
      \<and> unat w = voter_nat r e (b_voter b)"
    using ballot_weight_valid [OF assms(2)] by metis
  have zero: "unat (bucket_weight c empty_tally) = 0" "unat (bucket_count c empty_tally) = 0" for c
    by (cases c; simp add: bucket_weight_def bucket_count_def empty_tally_def)+
  have "voted r e bs c \<le> weigh r e (ballots bs)" for c
    using weigh_split [of r e bs] by (cases c) simp_all
  then have 2: "voted r e bs c < 2 ^ 64" for c
    using participating_le [OF assms(1,2)] effective_le_total [of r e] assms(3)
    by (meson order.strict_trans1)
  have "length (cast_for c bs) \<le> length (ballots bs)" for c
    by (simp add: cast_for_def)
  moreover have "length (ballots bs) < 2 ^ 64"
    using ballot_count_le [OF assms(1,2)] voter_count_le [OF assms(1), of r] assms(3)
      length_filter_le [of "is_effective r" "voters e"] by linarith
  ultimately have 3: "length (cast_for c bs) < 2 ^ 64" for c
    by (meson order.strict_trans1)
  from tally_fold [OF 1, of empty_tally] obtain t where "try_fold (tally_step r e) empty_tally (ballots bs) = Ok t"
    "\<forall>c. unat (bucket_weight c t) = voted r e bs c \<and> unat (bucket_count c t) = length (cast_for c bs)"
    using 2 3 by (auto simp: zero cast_for_def)
  then show thesis using that by (simp add: tally_ballots_def)
qed

lemma quorum_met_Ok:
  assumes "unat tw = total_nat r e" and "unat ew = effective_nat r e"
    and "unat p = weigh r e (ballots bs)"
  shows "quorum_met (requirement_of (quorum r) tw ew) p = Ok (quorum_reached r e bs)"
  by (cases "quorum r")
    (auto simp: quorum_met_def requirement_of_def quorum_reached_def compare_share_eq cmp_def
      word_le_nat_alt assms split: quorum_basis.splits)

lemma denominator_Ok:
  assumes "unat tw = total_nat r e" and "unat ew = effective_nat r e"
    and "unat p = weigh r e (ballots bs)" and "\<And>c. unat (bucket_weight c t) = voted r e bs c"
  obtains d where "denominator_weight r t p tw ew = Ok d" "unat d = basis_nat r e bs"
proof -
  have y: "unat (yes_weight t) = voted r e bs Yes" and n: "unat (no_weight t) = voted r e bs No"
    using assms(4) [of Yes] assms(4) [of No] by (simp_all add: bucket_weight_def)
  have "voted r e bs Yes + voted r e bs No < 2 ^ 64"
    using unat_bound [of p] assms(3) weigh_split [of r e bs] by simp
  then have "eval_add (yes_weight t) (no_weight t) = Ok (yes_weight t + no_weight t)"
    "unat (yes_weight t + no_weight t) = voted r e bs Yes + voted r e bs No"
    by (simp_all add: eval_add_Ok y n unat_word_ariths)
  then show thesis
    using that assms(1-3) weigh_split [of r e bs]
    by (cases "threshold_basis_of (threshold r)"; cases "abstentions r")
      (simp_all add: denominator_weight_def basis_nat_def)
qed

text \<open>The entries of an evaluation, read as natural numbers.\<close>

definition accounts :: "voting_rules \<Rightarrow> electorate \<Rightarrow> ballot_set \<Rightarrow> vote_evaluation \<Rightarrow> bool" where
  "accounts r e bs ev \<longleftrightarrow>
     ev_rules ev = r \<and>
     unat (es_total_weight (ev_electorate ev)) = total_nat r e \<and>
     unat (es_effective_weight (ev_electorate ev)) = effective_nat r e \<and>
     unat (es_voter_count (ev_electorate ev)) = length (voters e) \<and>
     unat (es_effective_voter_count (ev_electorate ev)) = length (effective_voters r e) \<and>
     unat (es_effective_voter_count (ev_electorate ev)) + unat (es_excluded_count (ev_electorate ev))
       = length (voters e) \<and>
     unat (p_ballot_count (ev_participation ev)) = length (ballots bs) \<and>
     unat (p_weight (ev_participation ev)) = weigh r e (ballots bs) \<and>
     unat (p_ballot_count (ev_participation ev)) + unat (p_non_participant_count (ev_participation ev))
       = length (effective_voters r e) \<and>
     unat (p_weight (ev_participation ev)) + unat (p_non_participant_weight (ev_participation ev))
       = effective_nat r e \<and>
     (\<forall>c. unat (bucket_weight c (ev_tally ev)) = voted r e bs c \<and>
          unat (bucket_count c (ev_tally ev)) = length (cast_for c bs)) \<and>
     unat (t_denominator_weight (ev_threshold ev)) = basis_nat r e bs \<and>
     (q_met (ev_quorum ev) \<longleftrightarrow> quorum_reached r e bs) \<and>
     (t_met (ev_threshold ev) \<longleftrightarrow> share_reached r e bs) \<and>
     (accepted ev \<longleftrightarrow> quorum_reached r e bs \<and> share_reached r e bs)"

lemma evaluate_Ok_accounts:
  assumes wf: "wf_vote e bs" and comp: "compatible r e" and valid: "ballots_valid r e bs"
    and fits: "total_nat r e < 2 ^ 64"
  shows "\<exists>ev. evaluate r e bs = Ok ev \<and> accounts r e bs ev"
proof -
  have eff: "effective_nat r e < 2 ^ 64" using effective_le_total [of r e] fits by simp
  have n: "length (voters e) < 2 ^ 64" using voter_count_le [OF wf, of r] fits by simp
  have en_le: "length (effective_voters r e) \<le> length (voters e)" by simp
  have bn_le: "length (ballots bs) \<le> length (effective_voters r e)" by (rule ballot_count_le [OF wf valid])
  obtain tw where tw: "unat (tw :: u64) = total_nat r e" using u64_exists [OF fits] by blast
  obtain ew where ew: "unat (ew :: u64) = effective_nat r e" using u64_exists [OF eff] by blast
  obtain vn where vn: "unat (vn :: u64) = length (voters e)" using u64_exists [OF n] by blast
  obtain en where en: "unat (en :: u64) = length (effective_voters r e)"
    using u64_le_exists [OF en_le n] by blast
  obtain bn where bn: "unat (bn :: u64) = length (ballots bs)"
    using u64_le_exists [OF order_trans [OF bn_le en_le] n] by blast
  obtain p where p: "participating r e bs = Ok p" "unat p = weigh r e (ballots bs)"
    by (rule participating_Ok [OF wf valid fits])
  obtain t where t1: "tally_ballots r e bs = Ok t" and t_all: "\<forall>c. unat (bucket_weight c t)
      = voted r e bs c \<and> unat (bucket_count c t) = length (cast_for c bs)"
    by (rule tally_Ok [OF wf valid fits])
  have t: "tally_ballots r e bs = Ok t" "\<And>c. unat (bucket_weight c t) = voted r e bs c"
    "\<And>c. unat (bucket_count c t) = length (cast_for c bs)"
    using t1 t_all by simp_all
  obtain d where d: "denominator_weight r t p tw ew = Ok d" "unat d = basis_nat r e bs"
    by (rule denominator_Ok [OF tw ew p(2) t(2)])
  obtain an where an: "unat (an :: u64) = length (effective_voters r e) - length (ballots bs)"
    using u64_le_exists [OF order_trans [OF diff_le_self en_le] n] by blast
  obtain xn where xn: "unat (xn :: u64) = length (voters e) - length (effective_voters r e)"
    using u64_le_exists [OF diff_le_self n] by blast
  obtain aw where aw: "unat (aw :: u64) = effective_nat r e - weigh r e (ballots bs)"
    using u64_le_exists [OF diff_le_self eff] by blast
  note p_le = participating_le [OF wf valid]
  have y: "unat (yes_weight t) = voted r e bs Yes" using t(2) [of Yes] by (simp add: bucket_weight_def)
  have val: "validate r e = Ok ()" and bal: "check_ballots r e bs = Ok ()"
    using comp valid by (simp_all add: validate_Ok_iff check_ballots_Ok_iff)
  have sums: "eval_sum (map (weight_of r) (voters e)) = Ok tw"
    "eval_sum (map (weight_of r) (effective_voters r e)) = Ok ew"
    using tw ew by (simp_all add: eval_sum_Ok_iff)
  have counts: "count_items (voters e) = Ok vn" "count_items (effective_voters r e) = Ok en"
    "count_items (ballots bs) = Ok bn"
    using vn en bn by (simp_all add: count_items_Ok_iff)
  have subs: "psub en bn = (Ok an :: (evaluation_error, u64) result)"
    "psub vn en = (Ok xn :: (evaluation_error, u64) result)" "total_checked_sub ew p = Some aw"
    using an xn aw en bn vn ew p(2) bn_le en_le p_le
    by (simp_all add: psub_Ok_iff total_checked_sub_def word_nat)
  note q = quorum_met_Ok [OF tw ew p(2)]
  have parts: "weigh r e (ballots bs) + unat aw = effective_nat r e"
    using aw p_le by simp
  have zero: "d = 0 \<longleftrightarrow> basis_nat r e bs = 0" using d(2) by (simp add: word_unat_eq_iff)
  show ?thesis
    unfolding evaluate_def
    by (simp add: val bal sums counts subs q p(1) t(1) d(1) compare_share_eq Let_def
        accounts_def tw ew vn en bn an xn parts p(2) t(2,3) d(2) y bn_le)
      (auto simp: accepted_def decide_def threshold_met_def share_reached_def comparison_of_def
        cmp_def zero y d(2) Let_def split: tie_treatment.splits)
qed

section \<open>What an evaluation promises\<close>

lemma evaluate_Err_Validation:
  "\<not> compatible r e \<Longrightarrow>
     evaluate r e bs = Err (EvValidation (remdups_adj (sort (validation_issues r e))))"
proof -
  assume "\<not> compatible r e"
  then have "validate r e \<noteq> Ok ()" by (simp add: validate_Ok_iff)
  then show ?thesis by (auto simp: evaluate_def validate_def Let_def split: if_splits)
qed

lemma evaluate_Err_Overflow:
  assumes "compatible r e" and "2 ^ 64 \<le> total_nat r e"
  shows "evaluate r e bs = Err EvWeightOverflow"
proof -
  have "weight_sum (map (weight_of r) (voters e)) = Err WeightOverflow"
    using assms(2) by (simp add: weight_sum_Err_iff)
  then show ?thesis
    using assms(1) by (simp add: evaluate_def validate_Ok_iff [THEN iffD2] eval_sum_def overflow_def)
qed

lemma evaluate_Err_Ballots:
  assumes wf: "wf_vote e bs" and comp: "compatible r e" and fits: "total_nat r e < 2 ^ 64"
    and "\<not> ballots_valid r e bs"
  shows "evaluate r e bs
    = Err (EvBallots (sort_key ballot_issue_key (concat (map (ballot_issue_of r e) (ballots bs)))))"
proof -
  have n: "length (voters e) < 2 ^ 64" using voter_count_le [OF wf, of r] fits by simp
  have en: "length (effective_voters r e) \<le> length (voters e)" by simp
  have eff: "effective_nat r e < 2 ^ 64" using effective_le_total [of r e] fits by simp
  obtain tw where tw: "eval_sum (map (weight_of r) (voters e)) = Ok tw"
    using u64_exists [OF fits] eval_sum_Ok_iff by blast
  obtain ew where ew: "eval_sum (map (weight_of r) (effective_voters r e)) = Ok ew"
    using u64_exists [OF eff] eval_sum_Ok_iff by blast
  obtain a where a: "count_items (voters e) = Ok a"
    using u64_exists [OF n] count_items_Ok_iff by blast
  obtain b where b: "count_items (effective_voters r e) = Ok b"
    using u64_le_exists [OF en n] count_items_Ok_iff by blast
  have "check_ballots r e bs
      = Err (EvBallots (sort_key ballot_issue_key (concat (map (ballot_issue_of r e) (ballots bs)))))"
    using assms(4) check_ballots_Ok_iff [of r e bs] by (auto simp: check_ballots_def Let_def split: if_splits)
  then show ?thesis
    by (simp add: evaluate_def comp validate_Ok_iff [THEN iffD2] tw ew a b Let_def)
qed

lemma evaluate_cases:
  assumes "wf_vote e bs"
  shows "if \<not> compatible r e
         then evaluate r e bs = Err (EvValidation (remdups_adj (sort (validation_issues r e))))
         else if 2 ^ 64 \<le> total_nat r e then evaluate r e bs = Err EvWeightOverflow
         else if \<not> ballots_valid r e bs
         then evaluate r e bs = Err (EvBallots (sort_key ballot_issue_key
                (concat (map (ballot_issue_of r e) (ballots bs)))))
         else \<exists>ev. evaluate r e bs = Ok ev \<and> accounts r e bs ev"
  by (simp add: evaluate_Err_Validation evaluate_Err_Overflow evaluate_Err_Ballots [OF assms]
      evaluate_Ok_accounts [OF assms])

lemma evaluate_OkD:
  assumes "evaluate r e bs = Ok ev" and "wf_vote e bs"
  shows "compatible r e" "total_nat r e < 2 ^ 64" "ballots_valid r e bs" "accounts r e bs ev"
  using evaluate_cases [OF assms(2), of r] assms(1) by (auto split: if_splits)

text \<open>The inputs the witnesses below are evaluated at: three voters, one of them excluded.\<close>

definition sample_electorate :: electorate where
  "sample_electorate = Electorate
     [\<lparr>v_id = VoterId ''ana'', v_weight = 3, v_excluded = False\<rparr>,
      \<lparr>v_id = VoterId ''bo'', v_weight = 2, v_excluded = False\<rparr>,
      \<lparr>v_id = VoterId ''cy'', v_weight = 4, v_excluded = True\<rparr>]"

definition sample_ballots :: ballot_set where
  "sample_ballots = BallotSet
     [\<lparr>b_voter = VoterId ''ana'', b_choice = Abstain\<rparr>, \<lparr>b_voter = VoterId ''bo'', b_choice = Yes\<rparr>]"

definition sample_rules :: voting_rules where
  "sample_rules = \<lparr>weight_rule = ElectorateWeight, exclusions_enabled = True,
     quorum = QuorumFraction HALF QB_EffectiveElectorate,
     threshold = SimpleMajority TB_VotesCast, abstentions = AbstentionsExclude, tie = TieReject\<rparr>"

lemma sample_wf: "wf_vote sample_electorate sample_ballots"
  by (auto simp: wf_vote_def wf_electorate_def wf_ballot_set_def sample_electorate_def
      sample_ballots_def less_voter_id_def)

lemma sample_Ok: "is_ok (evaluate sample_rules sample_electorate sample_ballots)"
  by code_simp

text \<open>
  C1: \<open>evaluate\<close> never panics, and it says exactly when and why it refuses: contradictory rules
  first, then a weight total past \<open>u64::MAX\<close>, then unacceptable ballots. Otherwise it returns an
  evaluation whose every entry (totals, counts, tally, denominator, quorum, threshold, outcome)
  is the one the unbounded specification defines, with participants and non-participants adding
  up to the effective electorate, and it accepts the motion exactly when the quorum and the
  share of the threshold rule are reached.
\<close>

theorem evaluate_correct:
  assumes "wf_vote e bs"
  shows "if \<not> compatible r e
         then evaluate r e bs = Err (EvValidation (remdups_adj (sort (validation_issues r e))))
         else if 2 ^ 64 \<le> total_nat r e then evaluate r e bs = Err EvWeightOverflow
         else if \<not> ballots_valid r e bs
         then evaluate r e bs = Err (EvBallots (sort_key ballot_issue_key
                (concat (map (ballot_issue_of r e) (ballots bs)))))
         else \<exists>ev. evaluate r e bs = Ok ev \<and> accounts r e bs ev"
  by (rule evaluate_cases [OF assms])

theorem evaluate_correct_witness:
  "wf_vote sample_electorate sample_ballots \<and>
   (\<exists>ev. evaluate sample_rules sample_electorate sample_ballots = Ok ev
      \<and> accounts sample_rules sample_electorate sample_ballots ev)"
  using evaluate_correct [OF sample_wf, of sample_rules] sample_Ok sample_wf
  by (auto split: if_splits)

text \<open>Raising a ballot to YES.\<close>

definition raised :: "ballot_set \<Rightarrow> ballot_set \<Rightarrow> bool" where
  "raised bs cs \<longleftrightarrow> list_all2 (\<lambda>b c. b_voter c = b_voter b \<and> (b_choice c = b_choice b \<or> b_choice c = Yes))
     (ballots bs) (ballots cs)"

lemma raised_weigh:
  assumes "raised bs cs"
  shows "voted r e bs Yes \<le> voted r e cs Yes" "voted r e cs No \<le> voted r e bs No"
    "voted r e cs Abstain \<le> voted r e bs Abstain" "weigh r e (ballots cs) = weigh r e (ballots bs)"
proof -
  have "weigh r e (filter (\<lambda>b. b_choice b = Yes) xs) \<le> weigh r e (filter (\<lambda>b. b_choice b = Yes) ys) \<and>
      weigh r e (filter (\<lambda>b. b_choice b = No) ys) \<le> weigh r e (filter (\<lambda>b. b_choice b = No) xs) \<and>
      weigh r e (filter (\<lambda>b. b_choice b = Abstain) ys) \<le> weigh r e (filter (\<lambda>b. b_choice b = Abstain) xs) \<and>
      weigh r e ys = weigh r e xs"
    if "list_all2 (\<lambda>b c. b_voter c = b_voter b \<and> (b_choice c = b_choice b \<or> b_choice c = Yes)) xs ys" for xs ys
    using that by (induction rule: list_all2_induct) auto
  from this [OF assms [unfolded raised_def]]
  show "voted r e bs Yes \<le> voted r e cs Yes" "voted r e cs No \<le> voted r e bs No"
    "voted r e cs Abstain \<le> voted r e bs Abstain" "weigh r e (ballots cs) = weigh r e (ballots bs)"
    by (simp_all add: cast_for_def)
qed

lemma raised_voters: "raised bs cs \<Longrightarrow> map b_voter (ballots cs) = map b_voter (ballots bs)"
  unfolding raised_def by (induction rule: list_all2_induct) auto

lemma raised_wf: "raised bs cs \<Longrightarrow> wf_vote e bs \<Longrightarrow> wf_vote e cs"
  by (simp add: wf_vote_def wf_ballot_set_def raised_voters)

lemma ballots_valid_voters:
  "ballots_valid r e bs \<longleftrightarrow>
     (\<forall>i \<in> set (map b_voter (ballots bs)). \<exists>v. electorate_get e i = Some v \<and> is_effective r v)"
  by (simp add: ballots_valid_def)

lemma raised_valid: "raised bs cs \<Longrightarrow> ballots_valid r e bs \<Longrightarrow> ballots_valid r e cs"
  by (simp only: ballots_valid_voters raised_voters)

text \<open>More YES weight against a basis that grows by no more: the share only improves.\<close>

lemma share_mono:
  fixes n d b b' y y' :: nat
  assumes "n * b \<le> y * d" and "n \<le> d" and "y \<le> y'" and "b' + y \<le> b + y'"
  shows "n * b' \<le> y' * d" and "n * b < y * d \<Longrightarrow> n * b' < y' * d"
proof -
  obtain k where k: "y' = y + k" using assms(3) le_Suc_ex by blast
  with assms(4) have "b' \<le> b + k" by simp
  then have "n * b' \<le> n * b + n * k"
    by (metis add_mult_distrib2 mult_le_mono2)
  also have "n * k \<le> k * d" using assms(2) by (simp add: mult.commute)
  finally have le: "n * b' \<le> n * b + k * d" by simp
  show "n * b' \<le> y' * d" using le assms(1) by (simp add: k add_mult_distrib)
  show "n * b < y * d \<Longrightarrow> n * b' < y' * d" using le by (simp add: k add_mult_distrib)
qed

lemma share_reached_raised:
  assumes "raised bs cs" and "compatible r e" and "share_reached r e bs"
  shows "share_reached r e cs"
proof -
  define n d where "n = unat (numerator (threshold_fraction (threshold r)))"
    and "d = unat (denominator (threshold_fraction (threshold r)))"
  have nd: "n \<le> d"
    using assms(2) by (simp add: compatible_def is_proportion_def word_le_nat_alt n_def d_def)
  note w = raised_weigh [OF assms(1), of r e] weigh_split [of r e bs] weigh_split [of r e cs]
  have basis: "basis_nat r e cs + voted r e bs Yes \<le> basis_nat r e bs + voted r e cs Yes"
    "0 < basis_nat r e bs \<Longrightarrow> 0 < basis_nat r e cs"
    using w by (auto simp: basis_nat_def split: threshold_basis.splits)
  from assms(3) have s: "0 < basis_nat r e bs" "n * basis_nat r e bs \<le> voted r e bs Yes * d"
    "n * basis_nat r e bs < voted r e bs Yes * d \<or> tie r = TieAccept"
    by (auto simp: share_reached_def Let_def n_def d_def)
  note m = share_mono [OF s(2) nd w(1) basis(1)]
  show ?thesis
    using s(3) m basis(2) [OF s(1)]
    by (auto simp: share_reached_def Let_def n_def [symmetric] d_def [symmetric] le_less)
qed

text \<open>
  C2: Voting YES never hurts. If an evaluation accepts the motion and some ballots are changed
  to YES (from NO or from an abstention), the vote is still evaluated and still accepted, under
  every rule set, quorum, threshold basis, abstention and tie treatment.
\<close>

theorem yes_monotone:
  assumes "evaluate r e bs = Ok ev" and "accepted ev" and "wf_vote e bs" and "raised bs cs"
  shows "\<exists>ev'. evaluate r e cs = Ok ev' \<and> accepted ev'"
proof -
  note d = evaluate_OkD [OF assms(1,3)]
  have "quorum_reached r e bs" "share_reached r e bs"
    using d(4) assms(2) by (simp_all add: accounts_def)
  then have "quorum_reached r e cs" "share_reached r e cs"
    using share_reached_raised [OF assms(4) d(1)] raised_weigh(4) [OF assms(4), of r e]
    by (simp_all add: quorum_reached_def split: quorum_rule.splits)
  then show ?thesis
    using evaluate_Ok_accounts [OF raised_wf [OF assms(4,3)] d(1) raised_valid [OF assms(4) d(3)] d(2)]
    by (auto simp: accounts_def)
qed

definition sample_raised :: ballot_set where
  "sample_raised = BallotSet
     [\<lparr>b_voter = VoterId ''ana'', b_choice = Yes\<rparr>, \<lparr>b_voter = VoterId ''bo'', b_choice = Yes\<rparr>]"

theorem yes_monotone_witness:
  "\<exists>ev'. evaluate sample_rules sample_electorate sample_raised = Ok ev' \<and> accepted ev'"
proof -
  have "case evaluate sample_rules sample_electorate sample_ballots of Ok ev \<Rightarrow> accepted ev | _ \<Rightarrow> False"
    by code_simp
  then obtain ev where "evaluate sample_rules sample_electorate sample_ballots = Ok ev" "accepted ev"
    by (auto split: result.splits)
  then show ?thesis
    by (rule yes_monotone [OF _ _ sample_wf]) (simp add: raised_def sample_ballots_def sample_raised_def)
qed

text \<open>
  A simple majority of the votes cast, abstentions left out, means what the words say: an
  evaluated motion passes exactly when the quorum is reached and more weight said YES than NO,
  or as much (and not nothing) where ties are accepted.
\<close>

theorem simple_majority_meaning:
  assumes "evaluate r e bs = Ok ev" and "wf_vote e bs"
    and "threshold r = SimpleMajority TB_VotesCast" and "abstentions r = AbstentionsExclude"
  shows "accepted ev \<longleftrightarrow> quorum_reached r e bs \<and>
    (voted r e bs No < voted r e bs Yes
     \<or> tie r = TieAccept \<and> voted r e bs Yes = voted r e bs No \<and> 0 < voted r e bs Yes)"
proof -
  have "accepted ev \<longleftrightarrow> quorum_reached r e bs \<and> share_reached r e bs"
    using evaluate_OkD(4) [OF assms(1,2)] by (simp add: accounts_def)
  moreover have "basis_nat r e bs = voted r e bs Yes + voted r e bs No"
    using assms(3,4) by (simp add: basis_nat_def threshold_basis_of_def)
  then have "share_reached r e bs \<longleftrightarrow> voted r e bs No < voted r e bs Yes
     \<or> tie r = TieAccept \<and> voted r e bs Yes = voted r e bs No \<and> 0 < voted r e bs Yes"
    using assms(3) by (auto simp: share_reached_def threshold_fraction_def HALF_def)
  ultimately show ?thesis by simp
qed

theorem simple_majority_meaning_witness:
  "\<exists>ev. evaluate sample_rules sample_electorate sample_ballots = Ok ev \<and>
     accepted ev = (quorum_reached sample_rules sample_electorate sample_ballots \<and>
       (voted sample_rules sample_electorate sample_ballots No
          < voted sample_rules sample_electorate sample_ballots Yes \<or>
        tie sample_rules = TieAccept \<and> voted sample_rules sample_electorate sample_ballots Yes
          = voted sample_rules sample_electorate sample_ballots No \<and>
        0 < voted sample_rules sample_electorate sample_ballots Yes))"
proof -
  obtain ev where ev: "evaluate sample_rules sample_electorate sample_ballots = Ok ev"
    using sample_Ok by (auto simp: is_ok_iff)
  then show ?thesis
    using simple_majority_meaning [OF ev sample_wf] by (auto simp: sample_rules_def)
qed

text \<open>The three documents of a vote, from the lists their files hold.\<close>

definition evaluate_listed ::
    "voting_rules \<Rightarrow> voter list \<Rightarrow> ballot list \<Rightarrow> (core_error + evaluation_error, vote_evaluation) result" where
  "evaluate_listed r vs bs =
     rbind (rmap_err Inl (electorate_new vs)) (\<lambda>e.
     rbind (rmap_err Inl (ballot_set_new bs)) (\<lambda>b.
     rmap_err Inr (evaluate r e b)))"

text \<open>
  The order in which voters and ballots are listed cannot be observed. Reordering either list
  neither turns an evaluation into a refusal nor changes any entry of the result, and a list that
  constructs at all constructs the canonical, strictly sorted electorate or ballot set.
\<close>

theorem evaluate_order_irrelevant:
  assumes "mset vs = mset vs'" and "mset bs = mset bs'"
  shows "evaluate_listed r vs bs = Ok ev \<longleftrightarrow> evaluate_listed r vs' bs' = Ok ev"
proof -
  have e: "electorate_new vs = Ok e \<longleftrightarrow> electorate_new vs' = Ok e" for e
    by (rule electorate_builder.build_order_irrelevant [OF assms(1)])
  have b: "ballot_set_new bs = Ok b \<longleftrightarrow> ballot_set_new bs' = Ok b" for b
    by (rule ballot_builder.build_order_irrelevant [OF assms(2)])
  show ?thesis by (simp add: evaluate_listed_def result_simps e b)
qed

theorem evaluate_order_irrelevant_witness:
  "is_ok (evaluate_listed sample_rules (rev (voters sample_electorate)) (rev (ballots sample_ballots)))"
proof -
  have "is_ok (evaluate_listed sample_rules (voters sample_electorate) (ballots sample_ballots))"
    by code_simp
  then show ?thesis
    using evaluate_order_irrelevant [of "rev (voters sample_electorate)" "voters sample_electorate"
        "rev (ballots sample_ballots)" "ballots sample_ballots" sample_rules]
    by (simp add: is_ok_iff)
qed

text \<open>
  The doc comment on \<open>EvaluationErrorV1::Ballots\<close> says that the issues are sorted by voter. They
  are sorted by kind first: an unknown voter comes before an excluded one whose id is smaller.
\<close>

lemma ballot_issues_sorted_by_kind:
  "evaluate sample_rules sample_electorate
     (BallotSet [\<lparr>b_voter = VoterId ''cy'', b_choice = No\<rparr>, \<lparr>b_voter = VoterId ''dee'', b_choice = No\<rparr>])
   = Err (EvBallots [UnknownVoter (VoterId ''dee''), ExcludedVoter (VoterId ''cy'')])"
  by code_simp

end
