(* ===== verification/Bornite_Xml.thy ===== *)
theory Bornite_Xml
  imports Bornite_Rules
begin

text \<open>
  \<open>crates/bornite-xml\<close>: the strict readers of rule sets, electorates and ballots (\<open>reader.rs\<close>), the two
  standalone documents (\<open>documents.rs\<close>) and their errors (\<open>error.rs\<close>). The readers are programs over the
  events of quick-xml; the lemmas show that a loop body consumes its child, that no \<open>expect\<close> can fail
  and that reading undoes writing.
\<close>

section \<open>Events and the reader\<close>

text \<open>
  The tokenizer is the third-party crate \<open>quick_xml\<close>: \<open>XmlReader::from_str\<close> with \<open>trim_text(true)\<close>. The
  model takes it as a function from a text to a reader, which is what its \<open>read_event\<close> will yield: the
  events in order, each with the byte position after it, and, after the last one, either an error or
  the end of the document for ever. Text, comments and the other leaves are opaque to the crates.
  Iterating over the attributes of a tag yields pairs, or an error where quick-xml cannot decode one.
\<close>

datatype xml_attribute = XmlAttribute string string | BadAttribute string | BadAttributeValue string

record xml_tag =
  tag_name :: string
  tag_attributes :: "xml_attribute list"

datatype xml_event =
    EvStart xml_tag | EvEmpty xml_tag | EvEnd string | EvText | EvCData | EvComment | EvDecl | EvPI
  | EvDocType | EvGeneralRef | EvEof

record xml_reader =
  rd_position :: u64
  rd_rest :: "(xml_event \<times> u64) list"
  rd_fault :: "string option"

section \<open>Errors\<close>

datatype xml_issue =
    XmlMissingAttribute string string
  | XmlUnusedAttribute string string string
  | XmlInvalidValue string string string string
  | XmlMissingElement string string
  | XmlRepeatedElement string string
  | XmlCore string core_error

text \<open>
  The derived order: the variant, then the fields. A \<open>CoreError\<close> has two of its variants ordered after
  a text by a second field; the reason of an invalid id is its text.
\<close>

definition rejection_text :: "id_rejection \<Rightarrow> string" where
  "rejection_text r = (case r of
     IdEmpty \<Rightarrow> ''must not be empty'' | IdTooLong \<Rightarrow> ''must be at most 128 bytes''
   | IdBadCharacter \<Rightarrow> ''may only contain ASCII letters, digits, '' @ concat (map (\<lambda>c. [CHR 0x27, c, CHR 0x27] @ '', '') ''._:+'')
       @ [CHR 0x27, CHR ''@'', CHR 0x27] @ '' and '' @ [CHR 0x27, CHR ''-'', CHR 0x27])"

fun core_error_key :: "core_error \<Rightarrow> nat \<times> string list \<times> nat list" where
  "core_error_key (InvalidVoterId v r) = (0, [v, rejection_text r], [])"
| "core_error_key ZeroWeight = (1, [], [])"
| "core_error_key ZeroDenominator = (2, [], [])"
| "core_error_key (ImproperFraction n d) = (3, [], [unat n, unat d])"
| "core_error_key WeightOverflow = (4, [], [])"
| "core_error_key (DuplicateVoter i) = (5, [voter_id_str i], [])"
| "core_error_key (DuplicateBallot i) = (6, [voter_id_str i], [])"

lemma rejection_text_inj: "rejection_text a = rejection_text b \<longleftrightarrow> a = b"
  by (cases a; cases b) (simp_all add: rejection_text_def)

lemma core_error_key_inj: "core_error_key a = core_error_key b \<Longrightarrow> a = b"
  by (cases a; cases b) (auto simp: rejection_text_inj word_unat_eq_iff intro: voter_id.expand)

fun xml_issue_key :: "xml_issue \<Rightarrow> nat \<times> string list \<times> (nat \<times> string list \<times> nat list)" where
  "xml_issue_key (XmlMissingAttribute e a) = (0, [e, a], (0, [], []))"
| "xml_issue_key (XmlUnusedAttribute e a r) = (1, [e, a, r], (0, [], []))"
| "xml_issue_key (XmlInvalidValue e a v r) = (2, [e, a, v, r], (0, [], []))"
| "xml_issue_key (XmlMissingElement p e) = (3, [p, e], (0, [], []))"
| "xml_issue_key (XmlRepeatedElement p e) = (4, [p, e], (0, [], []))"
| "xml_issue_key (XmlCore e c) = (5, [e], core_error_key c)"

lemma xml_issue_key_inj: "xml_issue_key a = xml_issue_key b \<Longrightarrow> a = b"
  by (cases a; cases b) (auto dest: core_error_key_inj)

instantiation xml_issue :: linorder
begin

definition less_eq_xml_issue :: "xml_issue \<Rightarrow> xml_issue \<Rightarrow> bool" where
  "less_eq_xml_issue a b \<longleftrightarrow> xml_issue_key a \<le> xml_issue_key b"

definition less_xml_issue :: "xml_issue \<Rightarrow> xml_issue \<Rightarrow> bool" where
  "less_xml_issue a b \<longleftrightarrow> xml_issue_key a < xml_issue_key b"

instance
  by standard (auto simp: less_eq_xml_issue_def less_xml_issue_def intro: xml_issue_key_inj)

end

text \<open>
  What the detail of a malformed document says. \<open>FaultDebug a s b\<close> is a text that shows the string \<open>s\<close> with
  \<open>{:?}\<close> between \<open>a\<close> and \<open>b\<close>.
\<close>

datatype xml_fault = Fault string | FaultDebug string string string

datatype xml_error =
    XmlMalformed u64 xml_fault
  | XmlInvalid "xml_issue list"
  | XmlUnsupportedVersion string
  | XmlTooLarge u64 u64

definition malformed :: "u64 \<Rightarrow> string \<Rightarrow> xml_error" where
  "malformed pos detail = XmlMalformed pos (Fault detail)"

section \<open>Parsers\<close>

text \<open>
  A routine that takes \<open>&mut XmlReader\<close> returns its result and the reader as it leaves it, whether it
  succeeds or not: a caller that recovers from an error goes on with the same reader.
\<close>

type_synonym ('e, 'a) parser = "xml_reader \<Rightarrow> ('e, 'a) result \<times> xml_reader"

definition preturn :: "'a \<Rightarrow> ('e, 'a) parser" where
  "preturn a r = (Ok a, r)"

definition pfail :: "'e \<Rightarrow> ('e, 'a) parser" where
  "pfail e r = (Err e, r)"

definition plift :: "('e, 'a) result \<Rightarrow> ('e, 'a) parser" where
  "plift x r = (x, r)"

definition pbind :: "('e, 'a) parser \<Rightarrow> ('a \<Rightarrow> ('e, 'b) parser) \<Rightarrow> ('e, 'b) parser" where
  "pbind p f r =
     (case p r of
        (Ok a, r') \<Rightarrow> f a r'
      | (Err e, r') \<Rightarrow> (Err e, r')
      | (Panic, r') \<Rightarrow> (Panic, r'))"

definition pmap_err :: "('e \<Rightarrow> 'f) \<Rightarrow> ('e, 'a) parser \<Rightarrow> ('f, 'a) parser" where
  "pmap_err g p r = (case p r of (x, r') \<Rightarrow> (rmap_err g x, r'))"

definition with_position :: "(u64 \<Rightarrow> ('e, 'a) parser) \<Rightarrow> ('e, 'a) parser" where
  "with_position f r = f (rd_position r) r"

definition next_event :: "(xml_error, xml_event) parser" where
  "next_event r =
     (case rd_rest r of
        (e, pos) # es \<Rightarrow> (Ok e, r\<lparr>rd_position := pos, rd_rest := es\<rparr>)
      | [] \<Rightarrow>
          (case rd_fault r of
             Some f \<Rightarrow> (Err (XmlMalformed (rd_position r) (Fault f)), r)
           | None \<Rightarrow> (Ok EvEof, r)))"

definition describe :: "xml_event \<Rightarrow> string" where
  "describe e =
     (case e of
        EvStart t \<Rightarrow> ''<'' @ tag_name t @ ''>''
      | EvEmpty t \<Rightarrow> ''<'' @ tag_name t @ ''>''
      | EvEnd n \<Rightarrow> ''</'' @ n @ ''>''
      | EvText \<Rightarrow> ''text''
      | EvCData \<Rightarrow> ''a CDATA section''
      | EvComment \<Rightarrow> ''a comment''
      | EvDecl \<Rightarrow> ''an XML declaration''
      | EvPI \<Rightarrow> ''a processing instruction''
      | EvDocType \<Rightarrow> ''a doctype''
      | EvGeneralRef \<Rightarrow> ''an entity reference''
      | EvEof \<Rightarrow> ''the end of the document'')"

text \<open>Every loop consumes events: the recursion is on how many are left.\<close>

abbreviation rd_left :: "xml_reader \<Rightarrow> nat" where
  "rd_left r \<equiv> length (rd_rest r)"

lemma next_event_left [termination_simp]:
  "next_event r = (Ok e, r') \<Longrightarrow> e \<noteq> EvEof \<Longrightarrow> rd_left r' < rd_left r"
  by (auto simp: next_event_def split: list.splits option.splits)

function expect_empty :: "string \<Rightarrow> (xml_error, unit) parser" where
  "expect_empty element r =
     (case next_event r of
        (Ok EvText, r') \<Rightarrow> expect_empty element r'
      | (Ok EvComment, r') \<Rightarrow> expect_empty element r'
      | (Ok (EvEnd _), r') \<Rightarrow> (Ok (), r')
      | (Ok other, r') \<Rightarrow>
          (Err (malformed (rd_position r') (''<'' @ element @ ''> must be empty, found '' @ describe other)), r')
      | (Err e, r') \<Rightarrow> (Err e, r')
      | (Panic, r') \<Rightarrow> (Panic, r'))"
  by pat_completeness auto
termination
  by (relation "measure (rd_left \<circ> snd)") (auto dest!: sym [of _ "next_event _"] next_event_left)

declare expect_empty.simps [simp del]

section \<open>Children\<close>

text \<open>
  The loop that every element with children has: text and comments are passed over, a start tag or
  an empty-element tag is handed on, an end tag ends the loop and anything else is refused. \<open>s\<close> holds
  the local variables that the loop assigns; \<open>lift\<close> is the \<open>From\<close> conversion that \<open>?\<close> applies. The fuel is
  one more than the events left and cannot run out (\<open>children_unfold\<close> below).
\<close>

fun children_loop ::
    "nat \<Rightarrow> (xml_error \<Rightarrow> 'e) \<Rightarrow> string \<Rightarrow> (xml_tag \<Rightarrow> bool \<Rightarrow> 's \<Rightarrow> ('e, 's) parser) \<Rightarrow> 's \<Rightarrow> ('e, 's) parser" where
  "children_loop 0 lift parent child s r = (Panic, r)"
| "children_loop (Suc n) lift parent child s r =
     (case next_event r of
        (Ok EvText, r') \<Rightarrow> children_loop n lift parent child s r'
      | (Ok EvComment, r') \<Rightarrow> children_loop n lift parent child s r'
      | (Ok (EvEmpty t), r') \<Rightarrow> pbind (child t True s) (children_loop n lift parent child) r'
      | (Ok (EvStart t), r') \<Rightarrow> pbind (child t False s) (children_loop n lift parent child) r'
      | (Ok (EvEnd _), r') \<Rightarrow> (Ok s, r')
      | (Ok other, r') \<Rightarrow>
          (Err (lift (malformed (rd_position r') (''unexpected '' @ describe other @ '' in <'' @ parent @ ''>''))), r')
      | (Err e, r') \<Rightarrow> (Err (lift e), r')
      | (Panic, r') \<Rightarrow> (Panic, r'))"

definition children ::
    "(xml_error \<Rightarrow> 'e) \<Rightarrow> string \<Rightarrow> (xml_tag \<Rightarrow> bool \<Rightarrow> 's \<Rightarrow> ('e, 's) parser) \<Rightarrow> 's \<Rightarrow> ('e, 's) parser" where
  "children lift parent child s r = children_loop (Suc (rd_left r)) lift parent child s r"

text \<open>A parser that does not give events back.\<close>

definition shrinking :: "('e, 'a) parser \<Rightarrow> bool" where
  "shrinking p \<longleftrightarrow> (\<forall>r. rd_left (snd (p r)) \<le> rd_left r)"

lemma shrinkingD: "shrinking p \<Longrightarrow> p r = (x, r') \<Longrightarrow> rd_left r' \<le> rd_left r"
  unfolding shrinking_def by (metis snd_conv)

lemma next_event_cases:
  obtains e p es where "rd_rest r = (e, p) # es" "next_event r = (Ok e, r\<lparr>rd_position := p, rd_rest := es\<rparr>)"
  | f where "rd_rest r = []" "next_event r = (Err (XmlMalformed (rd_position r) (Fault f)), r)"
  | "rd_rest r = []" "next_event r = (Ok EvEof, r)"
  by (cases "rd_rest r"; cases "rd_fault r") (auto simp: next_event_def)

lemma children_fuel:
  assumes "\<And>t e s. shrinking (child t e s)"
  shows "rd_left r < n \<Longrightarrow> rd_left r < m \<Longrightarrow>
    children_loop n lift parent child s r = children_loop m lift parent child s r"
proof (induction n arbitrary: m s r)
  case (Suc n)
  then obtain k where m: "m = Suc k" by (cases m) auto
  have sub: "pbind (child t e s) (children_loop n lift parent child) r' = pbind (child t e s) (children_loop k lift parent child) r'"
    if "rd_left r' < n" "rd_left r' < k" for t e r'
  proof (cases "child t e s r'")
    case (Pair x r'')
    have "rd_left r'' \<le> rd_left r'" using assms Pair by (rule shrinkingD)
    then show ?thesis using that Suc.IH [of r''] Pair by (cases x) (simp_all add: pbind_def)
  qed
  show ?case
  proof (rule next_event_cases [of r])
    fix e p es
    assume *: "rd_rest r = (e, p) # es" "next_event r = (Ok e, r\<lparr>rd_position := p, rd_rest := es\<rparr>)"
    let ?r = "r\<lparr>rd_position := p, rd_rest := es\<rparr>"
    have "rd_left ?r < n" "rd_left ?r < k" using Suc.prems * m by simp_all
    then show ?thesis
      using Suc.IH [of ?r k s] sub [of ?r] * by (cases e) (simp_all add: m)
  qed (simp_all add: m)
qed simp

lemma children_unfold:
  assumes "\<And>t e s. shrinking (child t e s)"
  shows "children lift parent child s r =
     (case next_event r of
        (Ok EvText, r') \<Rightarrow> children lift parent child s r'
      | (Ok EvComment, r') \<Rightarrow> children lift parent child s r'
      | (Ok (EvEmpty t), r') \<Rightarrow> pbind (child t True s) (children lift parent child) r'
      | (Ok (EvStart t), r') \<Rightarrow> pbind (child t False s) (children lift parent child) r'
      | (Ok (EvEnd _), r') \<Rightarrow> (Ok s, r')
      | (Ok other, r') \<Rightarrow>
          (Err (lift (malformed (rd_position r') (''unexpected '' @ describe other @ '' in <'' @ parent @ ''>''))), r')
      | (Err e, r') \<Rightarrow> (Err (lift e), r')
      | (Panic, r') \<Rightarrow> (Panic, r'))"
proof (rule next_event_cases [of r])
  fix e p es
  assume *: "rd_rest r = (e, p) # es" "next_event r = (Ok e, r\<lparr>rd_position := p, rd_rest := es\<rparr>)"
  let ?r = "r\<lparr>rd_position := p, rd_rest := es\<rparr>"
  have sub: "pbind (child t b s) (children_loop (rd_left r) lift parent child) ?r = pbind (child t b s) (children lift parent child) ?r" for t b
  proof (cases "child t b s ?r")
    case (Pair x r'')
    have "rd_left r'' \<le> rd_left ?r" using assms Pair by (rule shrinkingD)
    then have "children_loop (rd_left r) lift parent child u r'' = children lift parent child u r''" for u
      unfolding children_def using * by (intro children_fuel assms) simp_all
    then show ?thesis using Pair by (cases x) (simp_all add: pbind_def)
  qed
  have "children_loop (rd_left r) lift parent child s ?r = children lift parent child s ?r"
    unfolding children_def using * by (intro children_fuel assms) simp_all
  then show ?thesis
    unfolding children_def [of lift parent child s r] using * sub by (cases e) (simp_all del: children_loop.simps add: children_loop.simps(2))
qed (simp_all add: children_def)

section \<open>Attributes\<close>

record attributes =
  at_element :: string
  at_pairs :: "(string \<times> string) list"
  at_used :: "bool list"

fun collect_pairs :: "u64 \<Rightarrow> xml_attribute list \<Rightarrow> (xml_error, (string \<times> string) list) result" where
  "collect_pairs pos [] = Ok []"
| "collect_pairs pos (XmlAttribute k v # r) = rbind (collect_pairs pos r) (\<lambda>ps. Ok ((k, v) # ps))"
| "collect_pairs pos (BadAttribute e # r) = Err (malformed pos (''bad attribute: '' @ e))"
| "collect_pairs pos (BadAttributeValue e # r) = Err (malformed pos (''bad attribute value: '' @ e))"

definition attributes_of :: "u64 \<Rightarrow> string \<Rightarrow> xml_tag \<Rightarrow> (xml_error, attributes) result" where
  "attributes_of pos element start =
     rbind (collect_pairs pos (tag_attributes start)) (\<lambda>ps.
     Ok \<lparr>at_element = element, at_pairs = ps, at_used = replicate (length ps) False\<rparr>)"

definition attr_take :: "string \<Rightarrow> attributes \<Rightarrow> string option \<times> attributes" where
  "attr_take name a =
     (case find (\<lambda>i. fst (at_pairs a ! i) = name) [0..<length (at_pairs a)] of
        None \<Rightarrow> (None, a)
      | Some i \<Rightarrow> (Some (snd (at_pairs a ! i)), a\<lparr>at_used := (at_used a)[i := True]\<rparr>))"

definition attr_require ::
    "string \<Rightarrow> attributes \<Rightarrow> xml_issue list \<Rightarrow> string option \<times> attributes \<times> xml_issue list" where
  "attr_require name a issues =
     (let (value, a') = attr_take name a
      in (value, a', if value = None then issues @ [XmlMissingAttribute (at_element a) name] else issues))"

definition attr_finish :: "u64 \<Rightarrow> attributes \<Rightarrow> (xml_error, unit) result" where
  "attr_finish pos a =
     (case find (\<lambda>i. \<not> at_used a ! i) [0..<length (at_pairs a)] of
        Some i \<Rightarrow> Err (XmlMalformed pos (FaultDebug (''<'' @ at_element a @ ''> has an unknown attribute '')
          (fst (at_pairs a ! i)) []))
      | None \<Rightarrow> Ok ())"

definition attr_forbid :: "string \<Rightarrow> string \<Rightarrow> attributes \<times> xml_issue list \<Rightarrow> attributes \<times> xml_issue list" where
  "attr_forbid reason name s =
     (case s of (a, issues) \<Rightarrow>
        (let (value, a') = attr_take name a
         in (a', if value \<noteq> None then issues @ [XmlUnusedAttribute (at_element a) name reason] else issues)))"

text \<open>Taking attributes for nothing, so that they are not reported as unknown.\<close>

definition attr_drain :: "string list \<Rightarrow> attributes \<Rightarrow> attributes" where
  "attr_drain names a = fold (\<lambda>name b. snd (attr_take name b)) names a"

definition check_version :: "string \<Rightarrow> (xml_error, unit) result" where
  "check_version value = (if value = ''1.0'' then Ok () else Err (XmlUnsupportedVersion value))"

text \<open>\<open>and_then\<close> with a closure that may push issues.\<close>

definition opt_then :: "'a option \<Rightarrow> ('a \<Rightarrow> 'i list \<Rightarrow> 'b option \<times> 'i list) \<Rightarrow> 'i list \<Rightarrow> 'b option \<times> 'i list" where
  "opt_then x f issues = (case x of None \<Rightarrow> (None, issues) | Some a \<Rightarrow> f a issues)"

fun joined :: "string \<Rightarrow> string list \<Rightarrow> string" where
  "joined separator [] = []"
| "joined separator [x] = x"
| "joined separator (x # y # r) = x @ separator @ joined separator (y # r)"

definition enum_value ::
    "string \<Rightarrow> string \<Rightarrow> (string \<times> 'a) list \<Rightarrow> string \<Rightarrow> xml_issue list \<Rightarrow> 'a option \<times> xml_issue list" where
  "enum_value element attribute options value issues =
     (case find (\<lambda>(name, _). name = value) options of
        Some (_, parsed) \<Rightarrow> (Some parsed, issues)
      | None \<Rightarrow> (None, issues @ [XmlInvalidValue element attribute value
          (''expected one of '' @ joined '', '' (map fst options))]))"

definition bool_value :: "string \<Rightarrow> string \<Rightarrow> string \<Rightarrow> xml_issue list \<Rightarrow> bool option \<times> xml_issue list" where
  "bool_value element attribute value issues =
     (if value = ''true'' then (Some True, issues)
      else if value = ''false'' then (Some False, issues)
      else (None, issues @ [XmlInvalidValue element attribute value ''expected true or false'']))"

text \<open>\<open>str::parse::<u64>\<close>: an optional plus sign and at least one digit, in range.\<close>

definition parse_unsigned :: "string \<Rightarrow> u64 option" where
  "parse_unsigned s =
     (let digits = (if take 1 s = ''+'' then drop 1 s else s)
      in if digits = [] \<or> \<not> list_all is_ascii_digit digits then None
         else if digits_value digits < 2 ^ 64 then Some (word_of_nat (digits_value digits)) else None)"

definition u64_value :: "string \<Rightarrow> string \<Rightarrow> string \<Rightarrow> xml_issue list \<Rightarrow> u64 option \<times> xml_issue list" where
  "u64_value element attribute value issues =
     (case parse_unsigned value of
        Some number \<Rightarrow>
          if take 1 value \<noteq> ''+'' then (Some number, issues)
          else (None, issues @ [XmlInvalidValue element attribute value ''expected a non-negative integer''])
      | None \<Rightarrow> (None, issues @ [XmlInvalidValue element attribute value ''expected a non-negative integer'']))"

text \<open>
  \<open>.map_err(|e| issues.push(core_issue(element, e))).ok()\<close>, for the constructors of \<open>bornite-core\<close>, which
  do not panic.
\<close>

definition core_value ::
    "string \<Rightarrow> ('a \<Rightarrow> (core_error, 'b) result) \<Rightarrow> 'a \<Rightarrow> xml_issue list \<Rightarrow> 'b option \<times> xml_issue list" where
  "core_value element build x issues =
     (case build x of
        Ok v \<Rightarrow> (Some v, issues)
      | Err e \<Rightarrow> (None, issues @ [XmlCore element e])
      | Panic \<Rightarrow> (None, issues))"

section \<open>The elements of a rule set\<close>

definition parse_weight :: "u64 \<Rightarrow> xml_tag \<Rightarrow> xml_issue list \<Rightarrow> (xml_error, weight_rule option \<times> xml_issue list) result" where
  "parse_weight pos child issues =
     rbind (attributes_of pos ''weight'' child) (\<lambda>a.
     let (v, a, issues) = attr_require ''type'' a issues;
         (value, issues) = opt_then v (enum_value ''weight'' ''type''
           [(''equal'', EqualWeight), (''electorate'', ElectorateWeight)]) issues
     in rbind (attr_finish pos a) (\<lambda>_. Ok (value, issues)))"

definition parse_exclusions :: "u64 \<Rightarrow> xml_tag \<Rightarrow> xml_issue list \<Rightarrow> (xml_error, bool option \<times> xml_issue list) result" where
  "parse_exclusions pos child issues =
     rbind (attributes_of pos ''exclusions'' child) (\<lambda>a.
     let (v, a, issues) = attr_require ''enabled'' a issues;
         (value, issues) = opt_then v (bool_value ''exclusions'' ''enabled'') issues
     in rbind (attr_finish pos a) (\<lambda>_. Ok (value, issues)))"

definition number_attr ::
    "string \<Rightarrow> string \<Rightarrow> attributes \<times> xml_issue list \<Rightarrow> u64 option \<times> attributes \<times> xml_issue list" where
  "number_attr element name s =
     (let (v, a, issues) = attr_require name (fst s) (snd s);
          (n, issues) = opt_then v (u64_value element name) issues
      in (n, a, issues))"

definition proportion_value ::
    "string \<Rightarrow> u64 option \<Rightarrow> u64 option \<Rightarrow> 'b option \<Rightarrow> (fraction \<Rightarrow> 'b \<Rightarrow> 'r) \<Rightarrow> xml_issue list \<Rightarrow> 'r option \<times> xml_issue list" where
  "proportion_value element num den basis build issues =
     (case (num, den, basis) of
        (Some n, Some d, Some b) \<Rightarrow>
          (case core_value element (\<lambda>(n, d). fraction_proportion n d) (n, d) issues of
             (f, issues) \<Rightarrow> (map_option (\<lambda>f. build f b) f, issues))
      | _ \<Rightarrow> (None, issues))"

definition quorum_value ::
    "string option \<Rightarrow> attributes \<times> xml_issue list \<Rightarrow> quorum_rule option \<times> attributes \<times> xml_issue list" where
  "quorum_value kind s =
     (let rest = [''weight'', ''numerator'', ''denominator'', ''basis''] in
      case kind of
        Some k \<Rightarrow>
          if k = ''none'' then (Some QuorumNone, fold (attr_forbid ''type is none'') rest s)
          else if k = ''absolute'' then
            (let s = fold (attr_forbid ''type is absolute'') [''numerator'', ''denominator'', ''basis''] s;
                 (w, a, issues) = number_attr ''quorum'' ''weight'' s;
                 (w, issues) = opt_then w (core_value ''quorum'' weight_new) issues
             in (map_option QuorumAbsolute w, a, issues))
          else if k = ''fraction'' then
            (let s = attr_forbid ''type is fraction'' ''weight'' s;
                 (n, s) = number_attr ''quorum'' ''numerator'' s;
                 (d, s) = number_attr ''quorum'' ''denominator'' s;
                 (v, a, issues) = attr_require ''basis'' (fst s) (snd s);
                 (basis, issues) = opt_then v (enum_value ''quorum'' ''basis''
                   [(''total-electorate'', QB_TotalElectorate), (''effective-electorate'', QB_EffectiveElectorate)]) issues;
                 (value, issues) = proportion_value ''quorum'' n d basis QuorumFraction issues
             in (value, a, issues))
          else (None, attr_drain rest (fst s), snd s @ [XmlInvalidValue ''quorum'' ''type'' k
                  ''expected one of none, absolute, fraction''])
      | None \<Rightarrow> (None, attr_drain rest (fst s), snd s))"

definition parse_quorum :: "u64 \<Rightarrow> xml_tag \<Rightarrow> xml_issue list \<Rightarrow> (xml_error, quorum_rule option \<times> xml_issue list) result" where
  "parse_quorum pos child issues =
     rbind (attributes_of pos ''quorum'' child) (\<lambda>a.
     let (kind, s) = attr_require ''type'' a issues;
         (value, a, issues) = quorum_value kind s
     in rbind (attr_finish pos a) (\<lambda>_. Ok (value, issues)))"

definition threshold_value ::
    "string option \<Rightarrow> threshold_basis option \<Rightarrow> attributes \<times> xml_issue list
      \<Rightarrow> threshold_rule option \<times> attributes \<times> xml_issue list" where
  "threshold_value kind basis s =
     (let rest = [''numerator'', ''denominator''] in
      case kind of
        Some k \<Rightarrow>
          if k = ''simple-majority'' then
            (map_option SimpleMajority basis, fold (attr_forbid ''type is simple-majority'') rest s)
          else if k = ''fraction'' then
            (let (n, s) = number_attr ''threshold'' ''numerator'' s;
                 (d, a, issues) = number_attr ''threshold'' ''denominator'' s;
                 (value, issues) = proportion_value ''threshold'' n d basis ThresholdFraction issues
             in (value, a, issues))
          else (None, attr_drain rest (fst s), snd s @ [XmlInvalidValue ''threshold'' ''type'' k
                  ''expected one of simple-majority, fraction''])
      | None \<Rightarrow> (None, attr_drain rest (fst s), snd s))"

definition parse_threshold :: "u64 \<Rightarrow> xml_tag \<Rightarrow> xml_issue list \<Rightarrow> (xml_error, threshold_rule option \<times> xml_issue list) result" where
  "parse_threshold pos child issues =
     rbind (attributes_of pos ''threshold'' child) (\<lambda>a.
     let (kind, a, issues) = attr_require ''type'' a issues;
         (v, a, issues) = attr_require ''basis'' a issues;
         (basis, issues) = opt_then v (enum_value ''threshold'' ''basis''
           [(''votes-cast'', TB_VotesCast), (''effective-electorate'', TB_EffectiveElectorate),
            (''total-electorate'', TB_TotalElectorate)]) issues;
         (value, a, issues) = threshold_value kind basis (a, issues)
     in rbind (attr_finish pos a) (\<lambda>_. Ok (value, issues)))"

definition parse_abstentions ::
    "u64 \<Rightarrow> xml_tag \<Rightarrow> xml_issue list \<Rightarrow> (xml_error, abstention_treatment option \<times> xml_issue list) result" where
  "parse_abstentions pos child issues =
     rbind (attributes_of pos ''abstentions'' child) (\<lambda>a.
     let (v, a, issues) = attr_require ''treatment'' a issues;
         (value, issues) = opt_then v (enum_value ''abstentions'' ''treatment''
           [(''exclude'', AbstentionsExclude), (''include'', AbstentionsInclude)]) issues
     in rbind (attr_finish pos a) (\<lambda>_. Ok (value, issues)))"

definition parse_tie :: "u64 \<Rightarrow> xml_tag \<Rightarrow> xml_issue list \<Rightarrow> (xml_error, tie_treatment option \<times> xml_issue list) result" where
  "parse_tie pos child issues =
     rbind (attributes_of pos ''tie'' child) (\<lambda>a.
     let (v, a, issues) = attr_require ''treatment'' a issues;
         (value, issues) = opt_then v (enum_value ''tie'' ''treatment''
           [(''reject'', TieReject), (''accept'', TieAccept)]) issues
     in rbind (attr_finish pos a) (\<lambda>_. Ok (value, issues)))"

section \<open>Rule sets\<close>

text \<open>The local variables of \<open>parse_voting_rules\<close>: a slot is empty until its element has been met.\<close>

record rule_slots =
  rs_weight :: "weight_rule option option"
  rs_exclusions :: "bool option option"
  rs_quorum :: "quorum_rule option option"
  rs_threshold :: "threshold_rule option option"
  rs_abstentions :: "abstention_treatment option option"
  rs_tie :: "tie_treatment option option"
  rs_issues :: "xml_issue list"

definition set_once :: "string \<Rightarrow> 'a option option \<Rightarrow> 'a option \<times> xml_issue list \<Rightarrow> 'a option option \<times> xml_issue list" where
  "set_once element slot parsed =
     (case parsed of (value, issues) \<Rightarrow>
        (if slot \<noteq> None then (slot, issues @ [XmlRepeatedElement ''voting-rules'' element])
         else (Some value, issues)))"

definition fill ::
    "string \<Rightarrow> 'a option option \<Rightarrow> (xml_error, 'a option \<times> xml_issue list) result
      \<Rightarrow> ('a option option \<Rightarrow> xml_issue list \<Rightarrow> 's) \<Rightarrow> (xml_error, 's) result" where
  "fill element slot parsed assign =
     rbind parsed (\<lambda>p. case set_once element slot p of (v, issues) \<Rightarrow> Ok (assign v issues))"

definition rule_element :: "xml_tag \<Rightarrow> rule_slots \<Rightarrow> u64 \<Rightarrow> (xml_error, rule_slots) result" where
  "rule_element t s pos =
     (let name = tag_name t; issues = rs_issues s in
      if name = ''weight'' then
        fill name (rs_weight s) (parse_weight pos t issues) (\<lambda>v i. s\<lparr>rs_weight := v, rs_issues := i\<rparr>)
      else if name = ''exclusions'' then
        fill name (rs_exclusions s) (parse_exclusions pos t issues) (\<lambda>v i. s\<lparr>rs_exclusions := v, rs_issues := i\<rparr>)
      else if name = ''quorum'' then
        fill name (rs_quorum s) (parse_quorum pos t issues) (\<lambda>v i. s\<lparr>rs_quorum := v, rs_issues := i\<rparr>)
      else if name = ''threshold'' then
        fill name (rs_threshold s) (parse_threshold pos t issues) (\<lambda>v i. s\<lparr>rs_threshold := v, rs_issues := i\<rparr>)
      else if name = ''abstentions'' then
        fill name (rs_abstentions s) (parse_abstentions pos t issues) (\<lambda>v i. s\<lparr>rs_abstentions := v, rs_issues := i\<rparr>)
      else if name = ''tie'' then
        fill name (rs_tie s) (parse_tie pos t issues) (\<lambda>v i. s\<lparr>rs_tie := v, rs_issues := i\<rparr>)
      else Err (malformed pos (''<voting-rules> has an unknown child <'' @ name @ ''>'')))"

definition rule_child :: "xml_tag \<Rightarrow> bool \<Rightarrow> rule_slots \<Rightarrow> (xml_error, rule_slots) parser" where
  "rule_child t is_empty s = with_position (\<lambda>pos.
     pbind (plift (rule_element t s pos)) (\<lambda>s.
     if is_empty then preturn s
     else pbind (expect_empty (tag_name t)) (\<lambda>_. preturn s)))"

definition missing_slots :: "rule_slots \<Rightarrow> xml_issue list" where
  "missing_slots s =
     concat (map (\<lambda>(present, name). if present then [] else [XmlMissingElement ''voting-rules'' name])
       [(rs_weight s \<noteq> None, ''weight''), (rs_exclusions s \<noteq> None, ''exclusions''),
        (rs_quorum s \<noteq> None, ''quorum''), (rs_threshold s \<noteq> None, ''threshold''),
        (rs_abstentions s \<noteq> None, ''abstentions''), (rs_tie s \<noteq> None, ''tie'')])"

definition finish_issues :: "xml_issue list \<Rightarrow> (xml_error, unit) result" where
  "finish_issues issues = (if issues = [] then Ok () else Err (XmlInvalid (remdups_adj (sort issues))))"

definition flattened :: "'a option option \<Rightarrow> ('e, 'a) result" where
  "flattened slot = rexpect (Option.bind slot (\<lambda>x. x))"

definition rules_of_slots :: "rule_slots \<Rightarrow> (xml_error, voting_rules) result" where
  "rules_of_slots s =
     rbind (flattened (rs_weight s)) (\<lambda>w. rbind (flattened (rs_exclusions s)) (\<lambda>e.
     rbind (flattened (rs_quorum s)) (\<lambda>q. rbind (flattened (rs_threshold s)) (\<lambda>t.
     rbind (flattened (rs_abstentions s)) (\<lambda>a. rbind (flattened (rs_tie s)) (\<lambda>i.
     Ok \<lparr>weight_rule = w, exclusions_enabled = e, quorum = q, threshold = t, abstentions = a, tie = i\<rparr>))))))"

definition parse_voting_rules :: "xml_tag \<Rightarrow> (xml_error, voting_rules) parser" where
  "parse_voting_rules start = with_position (\<lambda>pos.
     pbind (plift (attributes_of pos ''voting-rules'' start)) (\<lambda>a.
     let (version, a, issues) = attr_require ''version'' a [] in
     pbind (plift (attr_finish pos a)) (\<lambda>_.
     pbind (plift (case version of Some v \<Rightarrow> check_version v | None \<Rightarrow> Ok ())) (\<lambda>_.
     pbind (children (\<lambda>e. e) ''voting-rules'' rule_child
       \<lparr>rs_weight = None, rs_exclusions = None, rs_quorum = None, rs_threshold = None,
        rs_abstentions = None, rs_tie = None, rs_issues = issues\<rparr>) (\<lambda>s.
     pbind (plift (finish_issues (rs_issues s @ missing_slots s))) (\<lambda>_.
     plift (rules_of_slots s)))))))"

section \<open>Electorates and ballots\<close>

definition parse_voter :: "u64 \<Rightarrow> xml_tag \<Rightarrow> xml_issue list \<Rightarrow> (xml_error, voter option \<times> xml_issue list) result" where
  "parse_voter pos child issues =
     (if tag_name child \<noteq> ''voter''
      then Err (malformed pos (''<electorate> has an unknown child <'' @ tag_name child @ ''>''))
      else
        rbind (attributes_of pos ''voter'' child) (\<lambda>a.
        let (v, a, issues) = attr_require ''id'' a issues;
            (i, issues) = opt_then v (core_value ''voter'' voter_id_new) issues;
            (wv, a) = attr_take ''weight'' a;
            (w, issues) = (case wv of None \<Rightarrow> (Some 1, issues)
              | Some v \<Rightarrow> (case u64_value ''voter'' ''weight'' v issues of
                  (n, issues) \<Rightarrow> opt_then n (core_value ''voter'' weight_new) issues));
            (xv, a) = attr_take ''excluded'' a;
            (x, issues) = (case xv of None \<Rightarrow> (Some False, issues)
              | Some v \<Rightarrow> bool_value ''voter'' ''excluded'' v issues)
        in rbind (attr_finish pos a) (\<lambda>_.
           Ok (case (i, w, x) of
                 (Some i, Some w, Some x) \<Rightarrow> Some \<lparr>v_id = i, v_weight = w, v_excluded = x\<rparr>
               | _ \<Rightarrow> None, issues))))"

definition parse_ballot :: "u64 \<Rightarrow> xml_tag \<Rightarrow> xml_issue list \<Rightarrow> (xml_error, ballot option \<times> xml_issue list) result" where
  "parse_ballot pos child issues =
     (if tag_name child \<noteq> ''ballot''
      then Err (malformed pos (''<ballots> has an unknown child <'' @ tag_name child @ ''>''))
      else
        rbind (attributes_of pos ''ballot'' child) (\<lambda>a.
        let (v, a, issues) = attr_require ''voter'' a issues;
            (i, issues) = opt_then v (core_value ''ballot'' voter_id_new) issues;
            (v, a, issues) = attr_require ''choice'' a issues;
            (c, issues) = opt_then v (enum_value ''ballot'' ''choice''
              [(''yes'', Yes), (''no'', No), (''abstain'', Abstain)]) issues
        in rbind (attr_finish pos a) (\<lambda>_.
           Ok (case (i, c) of
                 (Some i, Some c) \<Rightarrow> Some \<lparr>b_voter = i, b_choice = c\<rparr>
               | _ \<Rightarrow> None, issues))))"

text \<open>A loop over leaves that extends a list with what each of them holds, if anything.\<close>

definition leaf_child ::
    "(u64 \<Rightarrow> xml_tag \<Rightarrow> 'i list \<Rightarrow> ('e, 'a option \<times> 'i list) result) \<Rightarrow> (xml_error \<Rightarrow> 'e) \<Rightarrow> string
      \<Rightarrow> xml_tag \<Rightarrow> bool \<Rightarrow> 'a list \<times> 'i list \<Rightarrow> ('e, 'a list \<times> 'i list) parser" where
  "leaf_child leaf lift element t is_empty s = with_position (\<lambda>pos.
     pbind (plift (leaf pos t (snd s))) (\<lambda>(item, issues).
     let s' = (case item of None \<Rightarrow> fst s | Some x \<Rightarrow> fst s @ [x], issues) in
     if is_empty then preturn s'
     else pbind (pmap_err lift (expect_empty element)) (\<lambda>_. preturn s')))"

definition parse_electorate :: "xml_tag \<Rightarrow> bool \<Rightarrow> (xml_error, electorate) parser" where
  "parse_electorate start is_empty = with_position (\<lambda>pos.
     pbind (plift (rbind (attributes_of pos ''electorate'' start) (attr_finish pos))) (\<lambda>_.
     if is_empty then plift (rmap_err (\<lambda>e. XmlInvalid [XmlCore ''electorate'' e]) (electorate_new []))
     else
       pbind (children (\<lambda>e. e) ''electorate'' (leaf_child parse_voter (\<lambda>e. e) ''voter'') ([], [])) (\<lambda>(vs, issues).
       pbind (plift (finish_issues issues)) (\<lambda>_.
       plift (rmap_err (\<lambda>e. XmlInvalid [XmlCore ''electorate'' e]) (electorate_new vs))))))"

definition parse_ballots :: "xml_tag \<Rightarrow> bool \<Rightarrow> (xml_error, ballot_set) parser" where
  "parse_ballots start is_empty = with_position (\<lambda>pos.
     pbind (plift (rbind (attributes_of pos ''ballots'' start) (attr_finish pos))) (\<lambda>_.
     if is_empty then preturn (BallotSet [])
     else
       pbind (children (\<lambda>e. e) ''ballots'' (leaf_child parse_ballot (\<lambda>e. e) ''ballot'') ([], [])) (\<lambda>(bs, issues).
       pbind (plift (finish_issues issues)) (\<lambda>_.
       plift (rmap_err (\<lambda>e. XmlInvalid [XmlCore ''ballots'' e]) (ballot_set_new bs))))))"

section \<open>Documents\<close>

definition RULES_MAX_BYTES :: u64 where "RULES_MAX_BYTES = 64 * 1024 * 1024"

definition check_size :: "string \<Rightarrow> u64 \<Rightarrow> (xml_error, unit) result" where
  "check_size xml max_bytes =
     (let found = word_of_nat (length xml)
      in if max_bytes < found then Err (XmlTooLarge found max_bytes) else Ok ())"

function root_start :: "string \<Rightarrow> (xml_error, xml_tag) parser" where
  "root_start expected r =
     (case next_event r of
        (Ok EvDecl, r') \<Rightarrow> root_start expected r'
      | (Ok EvComment, r') \<Rightarrow> root_start expected r'
      | (Ok EvText, r') \<Rightarrow> root_start expected r'
      | (Ok EvPI, r') \<Rightarrow> root_start expected r'
      | (Ok (EvStart t), r') \<Rightarrow>
          if tag_name t = expected then (Ok t, r')
          else (Err (malformed (rd_position r') (''expected a <'' @ expected @ ''> root, found <'' @ tag_name t @ ''>'')), r')
      | (Ok (EvEmpty t), r') \<Rightarrow>
          if tag_name t = expected then (Err (malformed (rd_position r') (''<'' @ expected @ ''> must have content'')), r')
          else (Err (malformed (rd_position r') (''expected a <'' @ expected @ ''> root, found <'' @ tag_name t @ ''>'')), r')
      | (Ok EvEof, r') \<Rightarrow> (Err (malformed (rd_position r') ''document is empty''), r')
      | (Ok other, r') \<Rightarrow> (Err (malformed (rd_position r') (''unexpected '' @ describe other @ '' before the root'')), r')
      | (Err e, r') \<Rightarrow> (Err e, r')
      | (Panic, r') \<Rightarrow> (Panic, r'))"
  by pat_completeness auto
termination
  by (relation "measure (rd_left \<circ> snd)") (auto dest!: sym [of _ "next_event _"] next_event_left)

function expect_eof :: "(xml_error, unit) parser" where
  "expect_eof r =
     (case next_event r of
        (Ok EvEof, r') \<Rightarrow> (Ok (), r')
      | (Ok EvText, r') \<Rightarrow> expect_eof r'
      | (Ok EvComment, r') \<Rightarrow> expect_eof r'
      | (Ok other, r') \<Rightarrow> (Err (malformed (rd_position r') (''trailing '' @ describe other @ '' after the root'')), r')
      | (Err e, r') \<Rightarrow> (Err e, r')
      | (Panic, r') \<Rightarrow> (Panic, r'))"
  by pat_completeness auto
termination
  by (relation "measure rd_left") (auto dest!: sym [of _ "next_event _"] next_event_left)

declare root_start.simps [simp del] expect_eof.simps [simp del]

definition read_rules_document_with_limit ::
    "(string \<Rightarrow> xml_reader) \<Rightarrow> string \<Rightarrow> u64 \<Rightarrow> (xml_error, voting_rules) result" where
  "read_rules_document_with_limit tok xml max_bytes =
     rbind (check_size xml max_bytes) (\<lambda>_.
     fst (pbind (root_start ''voting-rules'') (\<lambda>root.
          pbind (parse_voting_rules root) (\<lambda>rules.
          pbind expect_eof (\<lambda>_. preturn rules))) (tok xml)))"

definition read_rules_document :: "(string \<Rightarrow> xml_reader) \<Rightarrow> string \<Rightarrow> (xml_error, voting_rules) result" where
  "read_rules_document tok xml = read_rules_document_with_limit tok xml RULES_MAX_BYTES"

record vote_document =
  vd_electorate :: electorate
  vd_ballots :: ballot_set

definition vote_child ::
    "xml_tag \<Rightarrow> bool \<Rightarrow> electorate option \<times> ballot_set option
      \<Rightarrow> (xml_error, electorate option \<times> ballot_set option) parser" where
  "vote_child t is_empty s = with_position (\<lambda>pos.
     let name = tag_name t in
      if name = ''electorate'' \<and> fst s = None then
        pbind (parse_electorate t is_empty) (\<lambda>e. preturn (Some e, snd s))
      else if name = ''ballots'' \<and> snd s = None then
        pbind (parse_ballots t is_empty) (\<lambda>b. preturn (fst s, Some b))
      else if name = ''electorate'' \<or> name = ''ballots''
      then pfail (malformed pos (''<vote> has more than one <'' @ name @ ''>''))
      else pfail (malformed pos (''<vote> has an unknown child <'' @ name @ ''>'')))"

definition read_vote_document_with_limit ::
    "(string \<Rightarrow> xml_reader) \<Rightarrow> string \<Rightarrow> u64 \<Rightarrow> (xml_error, vote_document) result" where
  "read_vote_document_with_limit tok xml max_bytes =
     rbind (check_size xml max_bytes) (\<lambda>_.
     fst (pbind (root_start ''vote'') (\<lambda>root. with_position (\<lambda>pos.
          pbind (plift (attributes_of pos ''vote'' root)) (\<lambda>a.
          let (version, a, issues) = attr_require ''version'' a [] in
          pbind (plift (attr_finish pos a)) (\<lambda>_.
          pbind (plift (case version of Some v \<Rightarrow> check_version v | None \<Rightarrow> Ok ())) (\<lambda>_.
          pbind (if issues \<noteq> [] then pfail (XmlInvalid issues) else preturn ()) (\<lambda>_.
          pbind (children (\<lambda>e. e) ''vote'' vote_child (None, None)) (\<lambda>(e, b).
          pbind expect_eof (\<lambda>_.
          case (e, b) of
            (Some e, Some b) \<Rightarrow> preturn \<lparr>vd_electorate = e, vd_ballots = b\<rparr>
          | _ \<Rightarrow> pfail (XmlInvalid
              ((if e = None then [XmlMissingElement ''vote'' ''electorate''] else []) @
               (if b = None then [XmlMissingElement ''vote'' ''ballots''] else []))))))))))) (tok xml)))"

definition read_vote_document :: "(string \<Rightarrow> xml_reader) \<Rightarrow> string \<Rightarrow> (xml_error, vote_document) result" where
  "read_vote_document tok xml = read_vote_document_with_limit tok xml RULES_MAX_BYTES"

section \<open>The reader only moves forward\<close>

named_theorems shrink "the parsers that do not give events back"

lemma shrinking_next [shrink]: "shrinking next_event"
  unfolding shrinking_def by (auto simp: next_event_def split: list.splits option.splits)

lemma shrinking_plift [shrink]: "shrinking (plift x)" "shrinking (preturn a)" "shrinking (pfail e)"
  by (simp_all add: shrinking_def plift_def preturn_def pfail_def)

lemma shrinking_pbind [shrink]:
  assumes "shrinking p" and "\<And>a. shrinking (f a)"
  shows "shrinking (pbind p f)"
  unfolding shrinking_def
proof
  fix r
  show "rd_left (snd (pbind p f r)) \<le> rd_left r"
  proof (cases "p r")
    case (Pair x r')
    then have "rd_left r' \<le> rd_left r" by (rule shrinkingD [OF assms(1)])
    moreover have "rd_left (snd (f a r')) \<le> rd_left r'" for a using assms(2) by (simp add: shrinking_def)
    ultimately show ?thesis
      using Pair order_trans by (cases x) (fastforce simp: pbind_def)+
  qed
qed

lemma shrinking_pmap_err [shrink]: "shrinking p \<Longrightarrow> shrinking (pmap_err g p)"
  by (simp add: shrinking_def pmap_err_def case_prod_unfold)

lemma shrinking_with_position [shrink]: "(\<And>pos. shrinking (f pos)) \<Longrightarrow> shrinking (with_position f)"
  by (simp add: shrinking_def with_position_def)

lemma shrinking_cases [shrink]:
  "shrinking p \<Longrightarrow> shrinking q \<Longrightarrow> shrinking (if b then p else q)"
  "(\<And>x y. shrinking (f x y)) \<Longrightarrow> shrinking (case z of (x, y) \<Rightarrow> f x y)"
  "shrinking p \<Longrightarrow> (\<And>x. shrinking (g x)) \<Longrightarrow> shrinking (case u of None \<Rightarrow> p | Some x \<Rightarrow> g x)"
  by (simp_all split: prod.splits option.splits)

lemma expect_empty_shrinks [shrink]: "shrinking (expect_empty element)"
proof -
  have "rd_left (snd (expect_empty element r)) \<le> rd_left r" for r
  proof (induction "rd_left r" arbitrary: r rule: less_induct)
    case less
    show ?case
    proof (rule next_event_cases [of r])
      fix e p es
      assume *: "rd_rest r = (e, p) # es" "next_event r = (Ok e, r\<lparr>rd_position := p, rd_rest := es\<rparr>)"
      have "rd_left (snd (expect_empty element (r\<lparr>rd_position := p, rd_rest := es\<rparr>))) \<le> rd_left r"
        using less [of "r\<lparr>rd_position := p, rd_rest := es\<rparr>"] * by simp
      then show ?thesis
        using * by (subst expect_empty.simps) (simp split: xml_event.splits)
    qed (subst expect_empty.simps, simp)+
  qed
  then show ?thesis by (simp add: shrinking_def)
qed

lemma root_start_shrinks [shrink]: "shrinking (root_start expected)"
proof -
  have "rd_left (snd (root_start expected r)) \<le> rd_left r" for r
  proof (induction "rd_left r" arbitrary: r rule: less_induct)
    case less
    show ?case
    proof (rule next_event_cases [of r])
      fix e p es
      assume *: "rd_rest r = (e, p) # es" "next_event r = (Ok e, r\<lparr>rd_position := p, rd_rest := es\<rparr>)"
      have "rd_left (snd (root_start expected (r\<lparr>rd_position := p, rd_rest := es\<rparr>))) \<le> rd_left r"
        using less [of "r\<lparr>rd_position := p, rd_rest := es\<rparr>"] * by simp
      then show ?thesis
        using * by (subst root_start.simps) (simp split: xml_event.splits)
    qed (subst root_start.simps, simp)+
  qed
  then show ?thesis by (simp add: shrinking_def)
qed

lemma expect_eof_shrinks [shrink]: "shrinking expect_eof"
proof -
  have "rd_left (snd (expect_eof r)) \<le> rd_left r" for r
  proof (induction "rd_left r" arbitrary: r rule: less_induct)
    case less
    show ?case
    proof (rule next_event_cases [of r])
      fix e p es
      assume *: "rd_rest r = (e, p) # es" "next_event r = (Ok e, r\<lparr>rd_position := p, rd_rest := es\<rparr>)"
      have "rd_left (snd (expect_eof (r\<lparr>rd_position := p, rd_rest := es\<rparr>))) \<le> rd_left r"
        using less [of "r\<lparr>rd_position := p, rd_rest := es\<rparr>"] * by simp
      then show ?thesis
        using * by (subst expect_eof.simps) (simp split: xml_event.splits)
    qed (subst expect_eof.simps, simp)+
  qed
  then show ?thesis by (simp add: shrinking_def)
qed

text \<open>The rule for the loop: a property of the state, the reader and what the loop makes of them.\<close>

lemma children_rule [case_names shrinking skip stop child fail_child panic_child fail]:
  assumes child_shrinks: "\<And>t e s. shrinking (child t e s)"
    and skip: "\<And>s r e p es x. \<lbrakk>rd_rest r = (e, p) # es; e = EvText \<or> e = EvComment;
      Q s (r\<lparr>rd_position := p, rd_rest := es\<rparr>) x\<rbrakk> \<Longrightarrow> Q s r x"
    and stop: "\<And>s r n p es. rd_rest r = (EvEnd n, p) # es \<Longrightarrow> Q s r (Ok s, r\<lparr>rd_position := p, rd_rest := es\<rparr>)"
    and child: "\<And>s r t b p es s' r' x. \<lbrakk>rd_rest r = (if b then EvEmpty t else EvStart t, p) # es;
      child t b s (r\<lparr>rd_position := p, rd_rest := es\<rparr>) = (Ok s', r'); Q s' r' x\<rbrakk> \<Longrightarrow> Q s r x"
    and fail_child: "\<And>s r t b p es e r'. \<lbrakk>rd_rest r = (if b then EvEmpty t else EvStart t, p) # es;
      child t b s (r\<lparr>rd_position := p, rd_rest := es\<rparr>) = (Err e, r')\<rbrakk> \<Longrightarrow> Q s r (Err e, r')"
    and panic_child: "\<And>s r t b p es r'. \<lbrakk>rd_rest r = (if b then EvEmpty t else EvStart t, p) # es;
      child t b s (r\<lparr>rd_position := p, rd_rest := es\<rparr>) = (Panic, r')\<rbrakk> \<Longrightarrow> Q s r (Panic, r')"
    and fail: "\<And>s r pos f r'. rd_left r' \<le> rd_left r \<Longrightarrow> Q s r (Err (lift (XmlMalformed pos f)), r')"
  shows "Q s r (children lift parent child s r)"
proof (induction "rd_left r" arbitrary: s r rule: less_induct)
  case less
  note unfold = children_unfold [OF child_shrinks]
  show ?case
  proof (rule next_event_cases [of r])
    fix e p es
    assume *: "rd_rest r = (e, p) # es" "next_event r = (Ok e, r\<lparr>rd_position := p, rd_rest := es\<rparr>)"
    let ?r = "r\<lparr>rd_position := p, rd_rest := es\<rparr>"
    have here: "Q s ?r (children lift parent child s ?r)"
      using less [of ?r s] * by simp
    have sub: "Q s r (pbind (child t b s) (children lift parent child) ?r)"
      if "e = (if b then EvEmpty t else EvStart t)" for t b
    proof (cases "child t b s ?r")
      case (Pair x r'')
      have "rd_left r'' \<le> rd_left ?r" using child_shrinks Pair by (rule shrinkingD)
      then have "rd_left r'' < rd_left r" using * by simp
      then have Q: "Q u r'' (children lift parent child u r'')" for u by (rule less)
      note r = *(1) [unfolded that]
      show ?thesis
      proof (cases x)
        case (Ok u)
        then show ?thesis using Pair child [OF r _ Q, of s u] by (simp add: pbind_def)
      next
        case (Err f)
        then show ?thesis using Pair fail_child [OF r, of s f r''] by (simp add: pbind_def)
      next
        case Panic
        then show ?thesis using Pair panic_child [OF r, of s r''] by (simp add: pbind_def)
      qed
    qed
    have f: "Q s r (Err (lift (malformed pos d)), ?r)" for pos d
      unfolding malformed_def using * by (intro fail) simp
    show ?thesis
    proof (cases e)
      case (EvStart t)
      then show ?thesis using sub [of False t] * by (subst unfold) simp
    next
      case (EvEmpty t)
      then show ?thesis using sub [of True t] * by (subst unfold) simp
    next
      case (EvEnd n)
      then show ?thesis using stop * by (subst unfold) simp
    next
      case EvText
      then show ?thesis using skip [OF *(1) _ here] * by (subst unfold) simp
    next
      case EvComment
      then show ?thesis using skip [OF *(1) _ here] * by (subst unfold) simp
    qed (use * f in \<open>subst unfold, simp\<close>)+
  qed (subst unfold, simp add: fail malformed_def)+
qed

lemma children_shrinks [shrink]:
  fixes child :: "xml_tag \<Rightarrow> bool \<Rightarrow> 's \<Rightarrow> ('e, 's) parser"
  assumes "\<And>t e s. shrinking (child t e s)"
  shows "shrinking (children lift parent child s)"
proof -
  have "rd_left (snd (children lift parent child s r)) \<le> rd_left r" for r
  proof (rule children_rule [where Q = "\<lambda>s r x. rd_left (snd x) \<le> rd_left r", OF assms])
    fix s :: 's and r t b p es s' r' and x :: "('e, 's) result \<times> xml_reader"
    assume "rd_rest r = (if b then EvEmpty t else EvStart t, p) # es"
      "child t b s (r\<lparr>rd_position := p, rd_rest := es\<rparr>) = (Ok s', r')" "rd_left (snd x) \<le> rd_left r'"
    then show "rd_left (snd x) \<le> rd_left r" using shrinkingD [OF assms] by fastforce
  qed (use shrinkingD [OF assms] in fastforce)+
  then show ?thesis by (simp add: shrinking_def)
qed

lemma rule_child_shrinks [shrink]: "shrinking (rule_child t e s)"
  unfolding rule_child_def by (intro shrink)

lemma leaf_child_shrinks [shrink]: "shrinking (leaf_child leaf lift element t e s)"
  unfolding leaf_child_def Let_def by (intro shrink)

lemma parse_voting_rules_shrinks [shrink]: "shrinking (parse_voting_rules t)"
  unfolding parse_voting_rules_def Let_def by (intro shrink)

lemma parse_electorate_shrinks [shrink]: "shrinking (parse_electorate t e)"
  unfolding parse_electorate_def by (intro shrink)

lemma parse_ballots_shrinks [shrink]: "shrinking (parse_ballots t e)"
  unfolding parse_ballots_def by (intro shrink)

lemma vote_child_shrinks [shrink]: "shrinking (vote_child t e s)"
  unfolding vote_child_def Let_def by (intro shrink)

section \<open>An element is consumed whole\<close>

text \<open>What is left after the end tag that closes the element whose start tag has been read.\<close>

fun close_at :: "nat \<Rightarrow> (xml_event \<times> u64) list \<Rightarrow> (xml_event \<times> u64) list option" where
  "close_at d [] = None"
| "close_at d ((EvStart t, p) # es) = close_at (Suc d) es"
| "close_at d ((EvEnd n, p) # es) = (case d of 0 \<Rightarrow> Some es | Suc k \<Rightarrow> close_at k es)"
| "close_at d ((e, p) # es) = close_at d es"

lemma close_at_nested: "close_at d es = Some es' \<Longrightarrow> close_at (d + Suc k) es = close_at k es'"
proof (induction d es rule: close_at.induct)
  case (3 d n p es)
  then show ?case by (cases d) simp_all
qed simp_all

lemma close_at_child: "close_at 0 es = Some es' \<Longrightarrow> close_at 0 ((EvStart t, p) # es) = close_at 0 es'"
  using close_at_nested [of 0 es es' 0] by simp

definition consumes :: "bool \<Rightarrow> xml_reader \<Rightarrow> xml_reader \<Rightarrow> bool" where
  "consumes is_empty r r' \<longleftrightarrow>
     (if is_empty then rd_rest r' = rd_rest r else close_at 0 (rd_rest r) = Some (rd_rest r'))"

text \<open>
  The interface of a loop body: on success it has consumed the child it was given. \<open>clean\<close> says that no
  issue has been recorded, for the bodies that go on after a child that was refused.
\<close>

locale element_reader =
  fixes child :: "xml_tag \<Rightarrow> bool \<Rightarrow> 's \<Rightarrow> ('e, 's) parser"
    and clean :: "'s \<Rightarrow> bool"
  assumes forward: "shrinking (child t e s)"
    and reads_child: "child t e s r = (Ok s', r') \<Longrightarrow> clean s' \<Longrightarrow> clean s \<and> consumes e r r'"
begin

lemma reads_children:
  assumes "children lift parent child s r = (Ok s', r')" and "clean s'"
  shows "clean s \<and> close_at 0 (rd_rest r) = Some (rd_rest r')"
proof -
  define Q where "Q = (\<lambda>s (r :: xml_reader) x. \<forall>s' (r' :: xml_reader). x = (Ok s' :: ('e, 's) result, r') \<longrightarrow> clean s' \<longrightarrow>
    clean s \<and> close_at 0 (rd_rest r) = Some (rd_rest r'))"
  have "Q s r (children lift parent child s r)"
  proof (rule children_rule [where Q = Q, OF forward])
    fix s r t b p es s' r' x
    assume r: "rd_rest r = (if b then EvEmpty t else EvStart t, p) # es"
      and c: "child t b s (r\<lparr>rd_position := p, rd_rest := es\<rparr>) = (Ok s', r')" and Q: "Q s' r' x"
    show "Q s r x"
      unfolding Q_def
    proof (intro allI impI)
      fix u r''
      assume "x = (Ok u, r'')" "clean u"
      then have s': "clean s'" "close_at 0 (rd_rest r') = Some (rd_rest r'')" using Q by (auto simp: Q_def)
      then have "clean s" "consumes b (r\<lparr>rd_position := p, rd_rest := es\<rparr>) r'" using reads_child [OF c] by auto
      then show "clean s \<and> close_at 0 (rd_rest r) = Some (rd_rest r'')"
        using r s'(2) close_at_child [of es "rd_rest r'" t p] by (cases b) (auto simp: consumes_def)
    qed
  qed (auto simp: Q_def)
  then show ?thesis using assms by (simp add: Q_def)
qed

end

lemma pbind_Ok_iff: "pbind p f r = (Ok b, r'') \<longleftrightarrow> (\<exists>a r'. p r = (Ok a, r') \<and> f a r' = (Ok b, r''))"
  by (cases "p r"; cases "fst (p r)") (auto simp: pbind_def)

lemma plift_iff: "plift x r = (y, r') \<longleftrightarrow> x = y \<and> r' = r"
  "preturn a r = (y, r') \<longleftrightarrow> y = Ok a \<and> r' = r" "pfail e r = (y, r') \<longleftrightarrow> y = Err e \<and> r' = r"
  by (auto simp: plift_def preturn_def pfail_def)

lemma pmap_err_Ok_iff: "pmap_err g p r = (Ok a, r') \<longleftrightarrow> p r = (Ok a, r')"
  by (cases "p r") (auto simp: pmap_err_def result_simps)

lemmas parser_simps = pbind_Ok_iff plift_iff pmap_err_Ok_iff with_position_def result_simps

lemma expect_empty_consumes:
  "expect_empty element r = (Ok (), r') \<Longrightarrow> close_at 0 (rd_rest r) = Some (rd_rest r')"
proof (induction "rd_left r" arbitrary: r rule: less_induct)
  case less
  show ?case
  proof (rule next_event_cases [of r])
    fix e p es
    assume *: "rd_rest r = (e, p) # es" "next_event r = (Ok e, r\<lparr>rd_position := p, rd_rest := es\<rparr>)"
    then show ?thesis
      using less.prems less.hyps [of "r\<lparr>rd_position := p, rd_rest := es\<rparr>"]
      by (subst (asm) expect_empty.simps) (auto split: xml_event.splits)
  qed (use less.prems in \<open>subst (asm) expect_empty.simps, simp\<close>)+
qed

lemma leaf_consumes:
  "(if e then preturn s' else pbind (pmap_err lift (expect_empty element)) (\<lambda>_. preturn s')) r = (Ok s'', r')
    \<Longrightarrow> s'' = s' \<and> consumes e r r'"
  by (auto simp: parser_simps consumes_def expect_empty_consumes split: if_splits)

interpretation rule_reader: element_reader rule_child "\<lambda>_. True"
  by (unfold_locales, rule rule_child_shrinks)
    (auto simp: rule_child_def parser_simps consumes_def expect_empty_consumes split: if_splits)

interpretation leaf_reader: element_reader "leaf_child leaf lift element" "\<lambda>_. True" for leaf lift element
  by (unfold_locales, rule leaf_child_shrinks)
    (auto simp: leaf_child_def Let_def parser_simps consumes_def expect_empty_consumes
      split: if_splits prod.splits)

lemma parse_voting_rules_consumes:
  assumes "parse_voting_rules t r = (Ok rules, r')"
  shows "close_at 0 (rd_rest r) = Some (rd_rest r')"
  using assms by (auto simp: parse_voting_rules_def Let_def parser_simps case_prod_unfold
      dest!: rule_reader.reads_children)

lemma parse_electorate_consumes:
  assumes "parse_electorate t e r = (Ok el, r')"
  shows "consumes e r r'"
  using assms by (auto simp: parse_electorate_def parser_simps consumes_def case_prod_unfold split: if_splits
      dest!: leaf_reader.reads_children)

lemma parse_ballots_consumes:
  assumes "parse_ballots t e r = (Ok bs, r')"
  shows "consumes e r r'"
  using assms by (auto simp: parse_ballots_def parser_simps consumes_def case_prod_unfold split: if_splits
      dest!: leaf_reader.reads_children)

interpretation vote_reader: element_reader vote_child "\<lambda>_. True"
  by (unfold_locales, rule vote_child_shrinks)
    (auto simp: vote_child_def Let_def parser_simps parse_electorate_consumes parse_ballots_consumes
      split: if_splits)

section \<open>No document makes a reader panic\<close>

text \<open>
  \<open>yields p Q E\<close>: whatever the events, the parser returns, a value with \<open>Q\<close> or an error with \<open>E\<close>. The
  \<open>expect\<close>s at the end of the parsers rest on two facts: a value is missing only where an issue was
  recorded, and an \<open>Invalid\<close> error lists at least one issue.
\<close>

definition rvalid :: "('e, 'a) result \<Rightarrow> ('a \<Rightarrow> bool) \<Rightarrow> ('e \<Rightarrow> bool) \<Rightarrow> bool" where
  "rvalid x Q E \<longleftrightarrow> (case x of Ok a \<Rightarrow> Q a | Err e \<Rightarrow> E e | Panic \<Rightarrow> False)"

definition yields :: "('e, 'a) parser \<Rightarrow> ('a \<Rightarrow> bool) \<Rightarrow> ('e \<Rightarrow> bool) \<Rightarrow> bool" where
  "yields p Q E \<longleftrightarrow> (\<forall>r. rvalid (fst (p r)) Q E)"

lemma rvalid_simps [simp]: "rvalid (Ok a) Q E = Q a" "rvalid (Err e) Q E = E e" "\<not> rvalid Panic Q E"
  by (simp_all add: rvalid_def)

lemma rvalid_bind: "rvalid x Q E \<Longrightarrow> (\<And>a. x = Ok a \<Longrightarrow> Q a \<Longrightarrow> rvalid (f a) Q' E) \<Longrightarrow> rvalid (rbind x f) Q' E"
  by (cases x) simp_all

lemma rvalid_mono: "rvalid x Q E \<Longrightarrow> (\<And>a. Q a \<Longrightarrow> Q' a) \<Longrightarrow> (\<And>e. E e \<Longrightarrow> E' e) \<Longrightarrow> rvalid x Q' E'"
  by (cases x) simp_all

lemma rvalid_map_err: "rvalid x Q E' \<Longrightarrow> (\<And>e. E' e \<Longrightarrow> E (g e)) \<Longrightarrow> rvalid (rmap_err g x) Q E"
  by (cases x) simp_all

named_theorems yield "how the outcome of a composite parser follows from its parts"

lemma yields_simps [simp]:
  "yields (preturn a) Q E \<longleftrightarrow> Q a" "yields (pfail e) Q E \<longleftrightarrow> E e" "yields (plift x) Q E \<longleftrightarrow> rvalid x Q E"
  by (auto simp: yields_def preturn_def pfail_def plift_def)

lemma yields_bind: "yields p Q E \<Longrightarrow> (\<And>a. Q a \<Longrightarrow> yields (f a) Q' E) \<Longrightarrow> yields (pbind p f) Q' E"
  unfolding yields_def
proof
  fix r
  assume p: "\<forall>r. rvalid (fst (p r)) Q E" and f: "\<And>a. Q a \<Longrightarrow> \<forall>r. rvalid (fst (f a r)) Q' E"
  show "rvalid (fst (pbind p f r)) Q' E"
  proof (cases "p r")
    case (Pair x r')
    then show ?thesis using p [rule_format, of r] f by (cases x) (simp_all add: pbind_def)
  qed
qed

lemma yields_mono: "yields p Q E \<Longrightarrow> (\<And>a. Q a \<Longrightarrow> Q' a) \<Longrightarrow> (\<And>e. E e \<Longrightarrow> E' e) \<Longrightarrow> yields p Q' E'"
  unfolding yields_def using rvalid_mono by metis

lemma yields_position: "(\<And>pos. yields (f pos) Q E) \<Longrightarrow> yields (with_position f) Q E"
  by (simp add: yields_def with_position_def)

lemma yields_map_err: "yields p Q E' \<Longrightarrow> (\<And>e. E' e \<Longrightarrow> E (g e)) \<Longrightarrow> yields (pmap_err g p) Q E"
  unfolding yields_def pmap_err_def by (auto simp: case_prod_unfold intro: rvalid_map_err)

lemma yields_children:
  assumes "\<And>t e s. shrinking (child t e s)"
    and "\<And>t e s. I s \<Longrightarrow> yields (child t e s) I E" and "\<And>pos f. E (lift (XmlMalformed pos f))" and "I s"
  shows "yields (children lift parent child s) I E"
proof -
  have "I s \<longrightarrow> rvalid (fst (children lift parent child s r)) I E" for r
  proof (rule children_rule [where Q = "\<lambda>s r x. I s \<longrightarrow> rvalid (fst x) I E", OF assms(1)])
    fix s r t b p es s' r' and x :: "('b, 'a) result \<times> xml_reader"
    assume "child t b s (r\<lparr>rd_position := p, rd_rest := es\<rparr>) = (Ok s', r')" "I s' \<longrightarrow> rvalid (fst x) I E"
    then show "I s \<longrightarrow> rvalid (fst x) I E" using assms(2) by (metis fst_conv rvalid_simps(1) yields_def)
  next
    fix s r t b p es e r'
    assume "child t b s (r\<lparr>rd_position := p, rd_rest := es\<rparr>) = (Err e, r')"
    then show "I s \<longrightarrow> rvalid (fst (Err e, r')) I E" using assms(2) by (metis fst_conv yields_def)
  next
    fix s r t b p es r'
    assume "child t b s (r\<lparr>rd_position := p, rd_rest := es\<rparr>) = (Panic, r')"
    then show "I s \<longrightarrow> rvalid (fst (Panic, r')) I E" using assms(2) by (metis fst_conv yields_def)
  qed (use assms(3) in simp_all)
  then show ?thesis using assms(4) by (simp add: yields_def)
qed

text \<open>An \<open>Invalid\<close> error lists an issue.\<close>

definition xml_listed :: "xml_error \<Rightarrow> bool" where
  "xml_listed e \<longleftrightarrow> (\<forall>issues. e = XmlInvalid issues \<longrightarrow> issues \<noteq> [])"

lemma xml_listed_simps [simp]: "xml_listed (XmlMalformed pos f)" "xml_listed (malformed pos d)"
  "xml_listed (XmlUnsupportedVersion v)" "xml_listed (XmlTooLarge m n)" "xml_listed (XmlInvalid xs) \<longleftrightarrow> xs \<noteq> []"
  by (simp_all add: xml_listed_def malformed_def)

lemma expect_empty_yields: "yields (expect_empty element) (\<lambda>_. True) xml_listed"
proof -
  have "rvalid (fst (expect_empty element r)) (\<lambda>_. True) xml_listed" for r
  proof (induction "rd_left r" arbitrary: r rule: less_induct)
    case less
    show ?case
    proof (rule next_event_cases [of r])
      fix e p es
      assume *: "rd_rest r = (e, p) # es" "next_event r = (Ok e, r\<lparr>rd_position := p, rd_rest := es\<rparr>)"
      then show ?thesis
        using less.hyps [of "r\<lparr>rd_position := p, rd_rest := es\<rparr>"]
        by (subst expect_empty.simps) (auto split: xml_event.splits)
    qed (subst expect_empty.simps, simp)+
  qed
  then show ?thesis by (simp add: yields_def)
qed

lemma root_start_yields: "yields (root_start expected) (\<lambda>_. True) xml_listed"
proof -
  have "rvalid (fst (root_start expected r)) (\<lambda>_. True) xml_listed" for r
  proof (induction "rd_left r" arbitrary: r rule: less_induct)
    case less
    show ?case
    proof (rule next_event_cases [of r])
      fix e p es
      assume *: "rd_rest r = (e, p) # es" "next_event r = (Ok e, r\<lparr>rd_position := p, rd_rest := es\<rparr>)"
      then show ?thesis
        using less.hyps [of "r\<lparr>rd_position := p, rd_rest := es\<rparr>"]
        by (subst root_start.simps) (auto split: xml_event.splits)
    qed (subst root_start.simps, simp)+
  qed
  then show ?thesis by (simp add: yields_def)
qed

lemma expect_eof_yields: "yields expect_eof (\<lambda>_. True) xml_listed"
proof -
  have "rvalid (fst (expect_eof r)) (\<lambda>_. True) xml_listed" for r
  proof (induction "rd_left r" arbitrary: r rule: less_induct)
    case less
    show ?case
    proof (rule next_event_cases [of r])
      fix e p es
      assume *: "rd_rest r = (e, p) # es" "next_event r = (Ok e, r\<lparr>rd_position := p, rd_rest := es\<rparr>)"
      then show ?thesis
        using less.hyps [of "r\<lparr>rd_position := p, rd_rest := es\<rparr>"]
        by (subst expect_eof.simps) (auto split: xml_event.splits)
    qed (subst expect_eof.simps, simp)+
  qed
  then show ?thesis by (simp add: yields_def)
qed

text \<open>\<open>answered P issues (v, issues')\<close>: without an issue there is a value, and a value has \<open>P\<close>.\<close>

definition answered :: "('a \<Rightarrow> bool) \<Rightarrow> 'i list \<Rightarrow> 'a option \<times> 'i list \<Rightarrow> bool" where
  "answered P issues r \<longleftrightarrow> (snd r = [] \<longrightarrow> issues = [] \<and> fst r \<noteq> None) \<and> (\<forall>v. fst r = Some v \<longrightarrow> P v)"

lemma answered_Pair [simp]:
  "answered P issues (None, issues') \<longleftrightarrow> issues' \<noteq> []"
  "answered P issues (Some v, issues') \<longleftrightarrow> (issues' = [] \<longrightarrow> issues = []) \<and> P v"
  by (auto simp: answered_def)

lemma opt_then_answered:
  assumes "answered (\<lambda>_. True) before (x, issues)" and "\<And>a. answered P issues (f a issues)"
  shows "answered P before (opt_then x f issues)"
  using assms by (cases x) (auto simp: opt_then_def answered_def)

lemma attr_require_answered:
  "answered (\<lambda>_. True) issues (fst (attr_require name a issues), snd (snd (attr_require name a issues)))"
  by (auto simp: attr_require_def answered_def split: prod.splits)

lemma enum_value_answered: "answered (\<lambda>_. True) issues (enum_value e a opts v issues)"
  by (auto simp: enum_value_def split: option.splits)

lemma bool_value_answered: "answered (\<lambda>_. True) issues (bool_value e a v issues)"
  by (simp add: bool_value_def)

lemma u64_value_answered: "answered (\<lambda>_. True) issues (u64_value e a v issues)"
  by (auto simp: u64_value_def split: option.splits)

lemma core_value_answered:
  assumes "rvalid (build x) P (\<lambda>_. True)"
  shows "answered P issues (core_value e build x issues)"
  using assms by (cases "build x") (auto simp: core_value_def)

lemma attributes_of_valid: "rvalid (attributes_of pos e t) (\<lambda>_. True) xml_listed"
proof -
  have "rvalid (collect_pairs pos as) (\<lambda>_. True) xml_listed" for as
    by (induction pos as rule: collect_pairs.induct) (auto intro: rvalid_bind)
  then show ?thesis unfolding attributes_of_def by (rule rvalid_bind) simp
qed

lemma attr_finish_valid: "rvalid (attr_finish pos a) (\<lambda>_. True) xml_listed"
  by (auto simp: attr_finish_def split: option.splits)

definition sound_quorum :: "quorum_rule \<Rightarrow> bool" where
  "sound_quorum q \<longleftrightarrow> (case q of QuorumNone \<Rightarrow> True | QuorumAbsolute w \<Rightarrow> w \<noteq> 0
     | QuorumFraction f _ \<Rightarrow> wf_fraction f \<and> is_proportion f)"

definition sound_threshold :: "threshold_rule \<Rightarrow> bool" where
  "sound_threshold t \<longleftrightarrow> (case t of SimpleMajority _ \<Rightarrow> True
     | ThresholdFraction f _ \<Rightarrow> wf_fraction f \<and> is_proportion f)"

lemma fraction_proportion_valid:
  "rvalid (fraction_proportion n d) (\<lambda>f. wf_fraction f \<and> is_proportion f) (\<lambda>_. True)"
  by (auto simp: fraction_proportion_def fraction_new_def wf_fraction_def is_proportion_def)

lemma weight_new_valid: "rvalid (weight_new w) (\<lambda>w. w \<noteq> 0) (\<lambda>_. True)"
  by (simp add: weight_new_def)

lemma voter_id_new_valid: "rvalid (voter_id_new s) (\<lambda>_. True) (\<lambda>_. True)"
  by (simp add: voter_id_new_def)

lemma attr_forbid_step: "snd (attr_forbid reason name s) = [] \<Longrightarrow> snd s = []"
  by (simp add: attr_forbid_def case_prod_unfold Let_def split: if_splits)

lemma attr_forbid_grows: "snd (fold (attr_forbid reason) names s) = [] \<Longrightarrow> snd s = []"
proof (induction names arbitrary: s)
  case (Cons n names)
  have "snd (attr_forbid reason n s) = []" by (rule Cons.IH) (use Cons.prems in simp)
  then show ?case by (rule attr_forbid_step)
qed simp

lemma number_attr_answered:
  "answered (\<lambda>_. True) (snd s) (fst (number_attr e n s), snd (snd (number_attr e n s)))"
  unfolding number_attr_def
  unfolding case_prod_unfold Let_def fst_conv snd_conv prod.collapse
  by (intro opt_then_answered attr_require_answered u64_value_answered)

lemma proportion_value_answered:
  assumes "issues = [] \<Longrightarrow> num \<noteq> None \<and> den \<noteq> None \<and> basis \<noteq> None"
    and "\<And>f b. wf_fraction f \<Longrightarrow> is_proportion f \<Longrightarrow> P (build f b)"
  shows "answered P issues (proportion_value e num den basis build issues)"
proof (cases "num = None \<or> den = None \<or> basis = None")
  case True
  then have "issues \<noteq> []" using assms(1) by auto
  then show ?thesis using True by (auto simp: proportion_value_def split: option.splits)
next
  case False
  then obtain n d b where v: "num = Some n" "den = Some d" "basis = Some b" by auto
  have "answered (\<lambda>f. wf_fraction f \<and> is_proportion f) issues
      (core_value e (\<lambda>(n, d). fraction_proportion n d) (n, d) issues)"
    by (rule core_value_answered) (simp add: fraction_proportion_valid)
  then show ?thesis
    using assms(2) by (auto simp: v proportion_value_def answered_def case_prod_unfold)
qed

lemma quorum_value_answered:
  assumes "snd s = [] \<Longrightarrow> kind \<noteq> None"
  shows "answered sound_quorum (snd s) (fst (quorum_value kind s), snd (snd (quorum_value kind s)))"
proof (cases kind)
  case None
  then show ?thesis using assms by (auto simp: quorum_value_def answered_def)
next
  case (Some k)
  consider "k = ''none''" | "k = ''absolute''" | "k = ''fraction''"
    | "k \<notin> {''none'', ''absolute'', ''fraction''}" by blast
  then show ?thesis
  proof cases
    case 1
    then show ?thesis
      using attr_forbid_grows [of "''type is none''" "[''weight'', ''numerator'', ''denominator'', ''basis'']" s]
      by (auto simp: Some quorum_value_def answered_def sound_quorum_def case_prod_unfold simp del: fold.simps)
  next
    case 2
    define s1 where "s1 = fold (attr_forbid ''type is absolute'') [''numerator'', ''denominator'', ''basis''] s"
    define w where "w = number_attr ''quorum'' ''weight'' s1"
    define v where "v = opt_then (fst w) (core_value ''quorum'' weight_new) (snd (snd w))"
    have s1: "snd s1 = [] \<Longrightarrow> snd s = []" unfolding s1_def by (rule attr_forbid_grows)
    have "answered (\<lambda>w. w \<noteq> 0) (snd s1) v"
      unfolding v_def w_def by (intro opt_then_answered number_attr_answered core_value_answered weight_new_valid)
    moreover have "quorum_value kind s = (map_option QuorumAbsolute (fst v), fst (snd w), snd v)"
      by (simp add: Some 2 quorum_value_def Let_def case_prod_unfold s1_def w_def v_def del: fold.simps)
    ultimately show ?thesis using s1 by (auto simp: answered_def sound_quorum_def)
  next
    case 3
    define s1 where "s1 = attr_forbid ''type is fraction'' ''weight'' s"
    define n where "n = number_attr ''quorum'' ''numerator'' s1"
    define d where "d = number_attr ''quorum'' ''denominator'' (snd n)"
    define b where "b = attr_require ''basis'' (fst (snd d)) (snd (snd d))"
    define basis where "basis = opt_then (fst b) (enum_value ''quorum'' ''basis''
        [(''total-electorate'', QB_TotalElectorate), (''effective-electorate'', QB_EffectiveElectorate)]) (snd (snd b))"
    define v where "v = proportion_value ''quorum'' (fst n) (fst d) (fst basis) QuorumFraction (snd basis)"
    have s1: "snd s1 = [] \<Longrightarrow> snd s = []"
      unfolding s1_def using attr_forbid_grows [of "''type is fraction''" "[''weight'']" s] by simp
    have 1: "answered (\<lambda>_. True) (snd s1) (fst n, snd (snd n))" unfolding n_def by (rule number_attr_answered)
    have 2: "answered (\<lambda>_. True) (snd (snd n)) (fst d, snd (snd d))" unfolding d_def by (rule number_attr_answered)
    have 3: "answered (\<lambda>_. True) (snd (snd d)) basis"
      unfolding basis_def b_def by (intro opt_then_answered attr_require_answered enum_value_answered)
    have 4: "answered sound_quorum (snd basis) v"
      unfolding v_def using 1 2 3 by (intro proportion_value_answered) (auto simp: answered_def sound_quorum_def)
    have "quorum_value kind s = (fst v, fst (snd b), snd v)"
      by (simp add: Some \<open>k = ''fraction''\<close> quorum_value_def Let_def case_prod_unfold s1_def n_def d_def b_def basis_def v_def)
    then show ?thesis using s1 1 2 3 4 by (auto simp: answered_def)
  next
    case 4
    then show ?thesis by (simp add: Some quorum_value_def Let_def del: fold.simps)
  qed
qed

lemma threshold_value_answered:
  assumes "snd s = [] \<Longrightarrow> kind \<noteq> None \<and> basis \<noteq> None"
  shows "answered sound_threshold (snd s) (fst (threshold_value kind basis s), snd (snd (threshold_value kind basis s)))"
proof (cases kind)
  case None
  then show ?thesis using assms by (auto simp: threshold_value_def answered_def)
next
  case (Some k)
  consider "k = ''simple-majority''" | "k = ''fraction''" | "k \<notin> {''simple-majority'', ''fraction''}" by blast
  then show ?thesis
  proof cases
    case 1
    then show ?thesis
      using assms attr_forbid_grows [of "''type is simple-majority''" "[''numerator'', ''denominator'']" s]
      by (auto simp: Some threshold_value_def answered_def sound_threshold_def case_prod_unfold simp del: fold.simps)
  next
    case 2
    define n where "n = number_attr ''threshold'' ''numerator'' s"
    define d where "d = number_attr ''threshold'' ''denominator'' (snd n)"
    define v where "v = proportion_value ''threshold'' (fst n) (fst d) basis ThresholdFraction (snd (snd d))"
    have 1: "answered (\<lambda>_. True) (snd s) (fst n, snd (snd n))" unfolding n_def by (rule number_attr_answered)
    have d: "answered (\<lambda>_. True) (snd (snd n)) (fst d, snd (snd d))" unfolding d_def by (rule number_attr_answered)
    have v: "answered sound_threshold (snd (snd d)) v"
      unfolding v_def using 1 d assms by (intro proportion_value_answered) (auto simp: answered_def sound_threshold_def)
    have "threshold_value kind basis s = (fst v, fst (snd d), snd v)"
      by (simp add: Some 2 threshold_value_def Let_def case_prod_unfold n_def d_def v_def)
    then show ?thesis using 1 d v by (auto simp: answered_def)
  next
    case 3
    then show ?thesis by (simp add: Some threshold_value_def Let_def)
  qed
qed

lemma parse_leaf_valid:
  "rvalid (parse_weight pos t issues) (answered (\<lambda>_. True) issues) xml_listed"
  "rvalid (parse_exclusions pos t issues) (answered (\<lambda>_. True) issues) xml_listed"
  "rvalid (parse_abstentions pos t issues) (answered (\<lambda>_. True) issues) xml_listed"
  "rvalid (parse_tie pos t issues) (answered (\<lambda>_. True) issues) xml_listed"
  unfolding parse_weight_def parse_exclusions_def parse_abstentions_def parse_tie_def Let_def case_prod_unfold
  by (intro rvalid_bind [OF attributes_of_valid] rvalid_bind [OF attr_finish_valid];
      simp add: opt_then_answered attr_require_answered enum_value_answered bool_value_answered)+

lemma parse_quorum_valid: "rvalid (parse_quorum pos t issues) (answered sound_quorum issues) xml_listed"
proof -
  have "answered sound_quorum issues (fst (quorum_value kind s), snd (snd (quorum_value kind s)))"
    if "attr_require ''type'' a issues = (kind, s)" for a kind s
    using attr_require_answered [of issues "''type''" a] quorum_value_answered [of s kind] that
    by (auto simp: answered_def)
  then show ?thesis
    unfolding parse_quorum_def Let_def case_prod_unfold
    by (intro rvalid_bind [OF attributes_of_valid] rvalid_bind [OF attr_finish_valid]) (simp add: prod_eq_iff)
qed

lemma parse_threshold_valid: "rvalid (parse_threshold pos t issues) (answered sound_threshold issues) xml_listed"
proof -
  define opts where "opts = [(''votes-cast'', TB_VotesCast), (''effective-electorate'', TB_EffectiveElectorate),
            (''total-electorate'', TB_TotalElectorate)]"
  have "answered sound_threshold issues (fst (threshold_value (fst k) (fst b) (fst (snd v), snd b)),
      snd (snd (threshold_value (fst k) (fst b) (fst (snd v), snd b))))"
    if "k = attr_require ''type'' a issues" and "v = attr_require ''basis'' (fst (snd k)) (snd (snd k))"
      and "b = opt_then (fst v) (enum_value ''threshold'' ''basis'' opts) (snd (snd v))" for a k v b
  proof -
    have 1: "answered (\<lambda>_. True) issues (fst k, snd (snd k))" unfolding that(1) by (rule attr_require_answered)
    have 2: "answered (\<lambda>_. True) (snd (snd k)) b"
      unfolding that(3) that(2) by (intro opt_then_answered attr_require_answered enum_value_answered)
    show ?thesis
      using threshold_value_answered [of "(fst (snd v), snd b)" "fst k" "fst b"] 1 2
      by (auto simp: answered_def)
  qed
  then show ?thesis
    unfolding parse_threshold_def Let_def case_prod_unfold opts_def
    by (intro rvalid_bind [OF attributes_of_valid] rvalid_bind [OF attr_finish_valid]) simp
qed

definition slot_ok :: "('a \<Rightarrow> bool) \<Rightarrow> xml_issue list \<Rightarrow> 'a option option \<Rightarrow> bool" where
  "slot_ok P issues slot \<longleftrightarrow> (issues = [] \<longrightarrow> slot \<noteq> Some None) \<and> (\<forall>v. slot = Some (Some v) \<longrightarrow> P v)"

definition slots_ok :: "rule_slots \<Rightarrow> bool" where
  "slots_ok s \<longleftrightarrow> (let i = rs_issues s in
     slot_ok (\<lambda>_. True) i (rs_weight s) \<and> slot_ok (\<lambda>_. True) i (rs_exclusions s) \<and>
     slot_ok sound_quorum i (rs_quorum s) \<and> slot_ok sound_threshold i (rs_threshold s) \<and>
     slot_ok (\<lambda>_. True) i (rs_abstentions s) \<and> slot_ok (\<lambda>_. True) i (rs_tie s))"

lemma slot_ok_mono: "slot_ok P i slot \<Longrightarrow> (i' = [] \<Longrightarrow> i = []) \<Longrightarrow> slot_ok P i' slot"
  by (auto simp: slot_ok_def)

lemma set_once_ok:
  assumes "slot_ok P issues slot" and "answered P issues p"
  shows "slot_ok P (snd (set_once e slot p)) (fst (set_once e slot p)) \<and> (snd (set_once e slot p) = [] \<longrightarrow> issues = [])"
  using assms by (cases p) (auto simp: set_once_def slot_ok_def answered_def)

lemma fill_valid:
  assumes "rvalid parsed (answered P issues) xml_listed" and "slot_ok P issues slot"
    and "\<And>v i. (i = [] \<Longrightarrow> issues = []) \<Longrightarrow> slot_ok P i v \<Longrightarrow> I (assign v i)"
  shows "rvalid (fill e slot parsed assign) I xml_listed"
  unfolding fill_def
proof (rule rvalid_bind [OF assms(1)])
  fix p
  assume "answered P issues p"
  from set_once_ok [OF assms(2) this, of e] show "rvalid (case set_once e slot p of (v, issues) \<Rightarrow> Ok (assign v issues)) I xml_listed"
    using assms(3) by (simp add: case_prod_unfold)
qed

lemma rule_element_valid:
  assumes "slots_ok s"
  shows "rvalid (rule_element t s pos) slots_ok xml_listed"
proof -
  note s = assms [unfolded slots_ok_def Let_def]
  have assign: "slots_ok (s\<lparr>rs_weight := v1, rs_issues := i\<rparr>)" "slots_ok (s\<lparr>rs_exclusions := v2, rs_issues := i\<rparr>)"
    "slots_ok (s\<lparr>rs_quorum := v3, rs_issues := i\<rparr>)" "slots_ok (s\<lparr>rs_threshold := v4, rs_issues := i\<rparr>)"
    "slots_ok (s\<lparr>rs_abstentions := v5, rs_issues := i\<rparr>)" "slots_ok (s\<lparr>rs_tie := v6, rs_issues := i\<rparr>)"
    if "i = [] \<Longrightarrow> rs_issues s = []" "slot_ok (\<lambda>_. True) i v1" "slot_ok (\<lambda>_. True) i v2" "slot_ok sound_quorum i v3"
      "slot_ok sound_threshold i v4" "slot_ok (\<lambda>_. True) i v5" "slot_ok (\<lambda>_. True) i v6" for i v1 v2 v3 v4 v5 v6
    using s that by (auto simp: slots_ok_def intro: slot_ok_mono)
  have none: "slot_ok P i None" for P :: "'x \<Rightarrow> bool" and i by (simp add: slot_ok_def)
  show ?thesis
    unfolding rule_element_def Let_def
    using s by (auto intro!: fill_valid parse_leaf_valid parse_quorum_valid parse_threshold_valid
        intro: assign [OF _ _ none none none none none] assign(2) [OF _ none _ none none none none]
          assign(3) [OF _ none none _ none none none] assign(4) [OF _ none none none _ none none]
          assign(5) [OF _ none none none none _ none] assign(6) [OF _ none none none none none])
qed

lemma rule_child_yields: "slots_ok s \<Longrightarrow> yields (rule_child t e s) slots_ok xml_listed"
  unfolding rule_child_def
  by (intro yields_position yields_bind [where Q = slots_ok])
    (auto intro: rule_element_valid yields_bind [OF expect_empty_yields])

definition sound_rules :: "voting_rules \<Rightarrow> bool" where
  "sound_rules r \<longleftrightarrow> sound_quorum (quorum r) \<and> sound_threshold (threshold r)"

lemma sound_rules_wf: "sound_rules r \<Longrightarrow> wf_rules r"
  by (auto simp: sound_rules_def wf_rules_def sound_quorum_def sound_threshold_def threshold_fraction_def
      wf_fraction_def HALF_def split: quorum_rule.splits threshold_rule.splits)

lemma finish_issues_valid: "rvalid (finish_issues issues) (\<lambda>_. issues = []) xml_listed"
proof -
  have "remdups_adj (sort issues) = [] \<longleftrightarrow> issues = []" by (metis remdups_adj_set set_empty set_sort)
  then show ?thesis by (simp add: finish_issues_def)
qed

lemma parse_voting_rules_yields: "yields (parse_voting_rules t) sound_rules xml_listed"
proof -
  have fin: "rvalid (rules_of_slots s) sound_rules xml_listed" if "slots_ok s" "rs_issues s @ missing_slots s = []" for s
    using that
    by (auto simp: slots_ok_def slot_ok_def missing_slots_def rules_of_slots_def flattened_def sound_rules_def
        split: if_splits)
  have loop: "yields (children (\<lambda>e. e) ''voting-rules'' rule_child
      \<lparr>rs_weight = None, rs_exclusions = None, rs_quorum = None, rs_threshold = None,
       rs_abstentions = None, rs_tie = None, rs_issues = issues\<rparr>) slots_ok xml_listed" for issues
    by (rule yields_children [where I = slots_ok, OF rule_child_shrinks rule_child_yields])
      (simp_all add: slots_ok_def slot_ok_def)
  have last: "yields (pbind (plift (finish_issues (rs_issues s @ missing_slots s))) (\<lambda>_. plift (rules_of_slots s)))
      sound_rules xml_listed" if "slots_ok s" for s
    by (rule yields_bind [where Q = "\<lambda>_. rs_issues s @ missing_slots s = []"])
      (simp only: yields_simps finish_issues_valid, simp only: yields_simps, rule fin [OF that])
  show ?thesis
    unfolding parse_voting_rules_def Let_def case_prod_unfold
    by (intro yields_position yields_bind [where Q = "\<lambda>_. True" and E = xml_listed and p = "plift _"]
        yields_bind [OF loop] last)
      (simp_all add: attributes_of_valid attr_finish_valid check_version_def split: option.splits)
qed

lemma leaf_child_yields:
  assumes "\<And>pos t issues. rvalid (leaf pos t issues) (\<lambda>_. True) E" and "\<And>e. xml_listed e \<Longrightarrow> E (lift e)"
  shows "yields (leaf_child leaf lift element t e s) (\<lambda>_. True) E"
  unfolding leaf_child_def Let_def
  by (intro yields_position yields_bind [where Q = "\<lambda>_. True" and p = "plift _"])
    (auto simp: assms(1) split: prod.splits
      intro!: yields_bind [OF yields_map_err [OF expect_empty_yields]] assms(2))

lemma parse_voter_valid: "rvalid (parse_voter pos t issues) (\<lambda>_. True) xml_listed"
  unfolding parse_voter_def Let_def case_prod_unfold
  by (auto intro!: rvalid_bind [OF attributes_of_valid] rvalid_bind [OF attr_finish_valid])

lemma parse_ballot_valid: "rvalid (parse_ballot pos t issues) (\<lambda>_. True) xml_listed"
  unfolding parse_ballot_def Let_def case_prod_unfold
  by (auto intro!: rvalid_bind [OF attributes_of_valid] rvalid_bind [OF attr_finish_valid])

lemma electorate_new_valid: "rvalid (electorate_new vs) wf_electorate (\<lambda>_. True)"
  using electorate_new_wf [of vs] by (cases "electorate_new vs") (auto simp: electorate_new_def Let_def split: option.splits)

lemma ballot_set_new_valid: "rvalid (ballot_set_new bs) wf_ballot_set (\<lambda>_. True)"
  using ballot_set_new_wf [of bs] by (cases "ballot_set_new bs") (auto simp: ballot_set_new_def Let_def split: option.splits)

lemma open_tag_valid: "rvalid (rbind (attributes_of pos e t) (attr_finish pos)) (\<lambda>_. True) xml_listed"
  by (rule rvalid_bind [OF attributes_of_valid]) (simp add: attr_finish_valid)

lemma leaf_children_yields:
  assumes "\<And>pos t issues. rvalid (leaf pos t issues) (\<lambda>_. True) xml_listed"
  shows "yields (children (\<lambda>e. e) parent (leaf_child leaf (\<lambda>e. e) element) s) (\<lambda>_. True) xml_listed"
  by (rule yields_children [where I = "\<lambda>_. True", OF leaf_child_shrinks leaf_child_yields])
    (simp_all add: assms)

lemma parse_electorate_yields: "yields (parse_electorate t e) wf_electorate xml_listed"
  unfolding parse_electorate_def
  by (intro yields_position yields_bind [where Q = "\<lambda>_. True" and p = "plift _"])
    (auto simp: open_tag_valid finish_issues_valid [THEN rvalid_mono]
      intro!: yields_bind [OF leaf_children_yields [OF parse_voter_valid]] yields_bind [where Q = "\<lambda>_. True" and p = "plift _"]
        rvalid_map_err [OF electorate_new_valid])

lemma parse_ballots_yields: "yields (parse_ballots t e) wf_ballot_set xml_listed"
  unfolding parse_ballots_def
  by (intro yields_position yields_bind [where Q = "\<lambda>_. True" and p = "plift _"])
    (auto simp: open_tag_valid finish_issues_valid [THEN rvalid_mono] wf_ballot_set_def [of "BallotSet []"]
      intro!: yields_bind [OF leaf_children_yields [OF parse_ballot_valid]] yields_bind [where Q = "\<lambda>_. True" and p = "plift _"]
        rvalid_map_err [OF ballot_set_new_valid])

lemma vote_child_yields:
  "yields (vote_child t e s) (\<lambda>s. True) xml_listed"
  unfolding vote_child_def Let_def
  by (intro yields_position)
    (auto intro: yields_bind [OF parse_electorate_yields] yields_bind [OF parse_ballots_yields])

definition sound_vote :: "electorate option \<times> ballot_set option \<Rightarrow> bool" where
  "sound_vote s \<longleftrightarrow> (\<forall>e. fst s = Some e \<longrightarrow> wf_electorate e) \<and> (\<forall>b. snd s = Some b \<longrightarrow> wf_ballot_set b)"

lemma vote_child_sound: "sound_vote s \<Longrightarrow> yields (vote_child t e s) sound_vote xml_listed"
  unfolding vote_child_def Let_def
  by (intro yields_position)
    (auto simp: sound_vote_def intro!: yields_bind [OF parse_electorate_yields] yields_bind [OF parse_ballots_yields])

text \<open>
  C18: The rule and vote readers are total and sound on every input: whatever events quick-xml produces
  from a text, none of their \<open>expect\<close>s panics; a rule set that is read has a non-zero absolute quorum
  and proper proportions with non-zero denominators, an electorate and a ballot set that are read are
  sorted without repeated ids, and a document refused for its content lists at least one issue.
\<close>

theorem documents_total:
  "(case read_rules_document_with_limit tok xml limit of
      Ok rules \<Rightarrow> sound_quorum (quorum rules) \<and> sound_threshold (threshold rules) \<and> wf_rules rules
    | Err e \<Rightarrow> e \<noteq> XmlInvalid [] | Panic \<Rightarrow> False) \<and>
   (case read_vote_document_with_limit tok xml limit of
      Ok d \<Rightarrow> wf_electorate (vd_electorate d) \<and> wf_ballot_set (vd_ballots d)
    | Err e \<Rightarrow> e \<noteq> XmlInvalid [] | Panic \<Rightarrow> False)"
proof -
  have size: "rvalid (check_size xml limit) (\<lambda>_. True) xml_listed" by (simp add: check_size_def Let_def)
  have run: "rvalid (fst (p (tok xml))) Q E" if "yields p Q E" for p :: "('e, 'a) parser" and Q E
    using that by (simp add: yields_def)
  have rules: "rvalid (read_rules_document_with_limit tok xml limit) sound_rules xml_listed"
    unfolding read_rules_document_with_limit_def
    by (intro rvalid_bind [OF size] run yields_bind [OF root_start_yields]
        yields_bind [OF parse_voting_rules_yields] yields_bind [OF expect_eof_yields]) simp
  have loop: "yields (children (\<lambda>e. e) ''vote'' vote_child (None, None)) sound_vote xml_listed"
    by (rule yields_children [where I = sound_vote, OF vote_child_shrinks vote_child_sound])
      (simp_all add: sound_vote_def)
  have "rvalid (read_vote_document_with_limit tok xml limit)
      (\<lambda>d. wf_electorate (vd_electorate d) \<and> wf_ballot_set (vd_ballots d)) xml_listed"
    unfolding read_vote_document_with_limit_def Let_def case_prod_unfold
    by (intro rvalid_bind [OF size] run yields_bind [OF root_start_yields] yields_position
        yields_bind [where Q = "\<lambda>_. True" and p = "plift _"] yields_bind [OF loop] yields_bind [OF expect_eof_yields]
        yields_bind [where Q = "\<lambda>_. True" and p = "if _ then _ else _"])
      (auto simp: attributes_of_valid attr_finish_valid check_version_def sound_vote_def split: option.splits)
  moreover note rules
  ultimately show ?thesis
    by (auto simp: rvalid_def xml_listed_def sound_rules_def sound_rules_wf split: result.splits)
qed

section \<open>Reading back a rule set\<close>

text \<open>How a rule set is written: six empty elements, with numbers in decimal.\<close>

fun decimal :: "nat \<Rightarrow> string" where
  "decimal n = (if n < 10 then [char_of (48 + n)] else decimal (n div 10) @ [char_of (48 + n mod 10)])"

declare decimal.simps [simp del]

definition u64_text :: "u64 \<Rightarrow> string" where
  "u64_text w = decimal (unat w)"

definition leaf_tag :: "string \<Rightarrow> (string \<times> string) list \<Rightarrow> xml_tag" where
  "leaf_tag name pairs = \<lparr>tag_name = name, tag_attributes = map (\<lambda>(k, v). XmlAttribute k v) pairs\<rparr>"

definition weight_tag :: "weight_rule \<Rightarrow> xml_tag" where
  "weight_tag w = leaf_tag ''weight'' [(''type'', case w of EqualWeight \<Rightarrow> ''equal'' | ElectorateWeight \<Rightarrow> ''electorate'')]"

definition exclusions_tag :: "bool \<Rightarrow> xml_tag" where
  "exclusions_tag b = leaf_tag ''exclusions'' [(''enabled'', if b then ''true'' else ''false'')]"

definition fraction_pairs :: "fraction \<Rightarrow> (string \<times> string) list" where
  "fraction_pairs f = [(''numerator'', u64_text (numerator f)), (''denominator'', u64_text (denominator f))]"

definition quorum_tag :: "quorum_rule \<Rightarrow> xml_tag" where
  "quorum_tag q = leaf_tag ''quorum'' (case q of
     QuorumNone \<Rightarrow> [(''type'', ''none'')]
   | QuorumAbsolute w \<Rightarrow> [(''type'', ''absolute''), (''weight'', u64_text w)]
   | QuorumFraction f b \<Rightarrow> (''type'', ''fraction'') # fraction_pairs f @
       [(''basis'', case b of QB_TotalElectorate \<Rightarrow> ''total-electorate'' | QB_EffectiveElectorate \<Rightarrow> ''effective-electorate'')])"

definition basis_text :: "threshold_basis \<Rightarrow> string" where
  "basis_text b = (case b of TB_VotesCast \<Rightarrow> ''votes-cast'' | TB_EffectiveElectorate \<Rightarrow> ''effective-electorate''
     | TB_TotalElectorate \<Rightarrow> ''total-electorate'')"

definition threshold_tag :: "threshold_rule \<Rightarrow> xml_tag" where
  "threshold_tag t = leaf_tag ''threshold'' (case t of
     SimpleMajority b \<Rightarrow> [(''type'', ''simple-majority''), (''basis'', basis_text b)]
   | ThresholdFraction f b \<Rightarrow> (''type'', ''fraction'') # fraction_pairs f @ [(''basis'', basis_text b)])"

definition abstentions_tag :: "abstention_treatment \<Rightarrow> xml_tag" where
  "abstentions_tag a = leaf_tag ''abstentions'' [(''treatment'', case a of AbstentionsExclude \<Rightarrow> ''exclude'' | AbstentionsInclude \<Rightarrow> ''include'')]"

definition tie_tag :: "tie_treatment \<Rightarrow> xml_tag" where
  "tie_tag t = leaf_tag ''tie'' [(''treatment'', case t of TieReject \<Rightarrow> ''reject'' | TieAccept \<Rightarrow> ''accept'')]"

definition rule_tags :: "voting_rules \<Rightarrow> xml_tag list" where
  "rule_tags r = [weight_tag (weight_rule r), exclusions_tag (exclusions_enabled r), quorum_tag (quorum r),
     threshold_tag (threshold r), abstentions_tag (abstentions r), tie_tag (tie r)]"

definition rules_tag :: xml_tag where
  "rules_tag = leaf_tag ''voting-rules'' [(''version'', ''1.0'')]"

lemma digits_value_snoc: "digits_value (s @ [c]) = digits_value s * 10 + (of_char c - 48)"
  by (simp add: digits_value_def)

lemma digit_char_of: "n < 10 \<Longrightarrow> of_char (char_of (48 + n :: nat)) = (48 + n :: nat)"
  by (simp add: take_bit_nat_eq_self)

lemma decimal_value: "digits_value (decimal n) = n \<and> list_all is_ascii_digit (decimal n) \<and> decimal n \<noteq> []"
proof (induction n rule: decimal.induct)
  case (1 n)
  show ?case
  proof (cases "n < 10")
    case True
    then show ?thesis
      by (simp add: decimal.simps [of n] digits_value_def digit_char digit_char_of del: of_char_of)
  next
    case False
    then show ?thesis
      using 1 by (simp add: decimal.simps [of n] digits_value_snoc digit_char digit_char_of del: of_char_of)
  qed
qed

lemma u64_text_first: "take 1 (u64_text w) \<noteq> ''+''"
proof -
  obtain c r where c: "u64_text w = c # r" "is_ascii_digit c"
    using decimal_value [of "unat w"] by (cases "decimal (unat w)") (auto simp: u64_text_def)
  then have "c \<noteq> CHR ''+''" by (auto simp: digit_char)
  then show ?thesis using c by simp
qed

lemma parse_unsigned_text: "parse_unsigned (u64_text w) = Some w"
proof -
  have "unat w < 2 ^ 64" using unat_bound [of w] by simp
  then show ?thesis
    using decimal_value [of "unat w"] u64_text_first [of w]
    by (simp add: parse_unsigned_def u64_text_def Let_def)
qed

lemma u64_value_text: "u64_value e a (u64_text w) issues = (Some w, issues)"
  using u64_text_first [of w] by (simp add: u64_value_def parse_unsigned_text)

lemma leaf_attributes:
  "attributes_of pos e (leaf_tag name pairs) = Ok \<lparr>at_element = e, at_pairs = pairs, at_used = replicate (length pairs) False\<rparr>"
proof -
  have "collect_pairs pos (map (\<lambda>(k, v). XmlAttribute k v) pairs) = Ok pairs"
    by (induction pairs) auto
  then show ?thesis by (simp add: attributes_of_def leaf_tag_def)
qed

lemma tag_name_leaf [simp]: "tag_name (leaf_tag name pairs) = name"
  by (simp add: leaf_tag_def)

lemmas attr_eval = leaf_attributes Let_def attr_require_def attr_take_def attr_forbid_def attr_finish_def
  opt_then_def enum_value_def bool_value_def number_attr_def u64_value_text

lemma parse_leaf_tag:
  "parse_weight pos (weight_tag w) issues = Ok (Some w, issues)"
  "parse_exclusions pos (exclusions_tag b) issues = Ok (Some b, issues)"
  "parse_abstentions pos (abstentions_tag a) issues = Ok (Some a, issues)"
  "parse_tie pos (tie_tag t) issues = Ok (Some t, issues)"
  by (simp_all add: parse_weight_def weight_tag_def parse_exclusions_def exclusions_tag_def parse_abstentions_def
      abstentions_tag_def parse_tie_def tie_tag_def attr_eval
      split: weight_rule.split abstention_treatment.split tie_treatment.split)

lemma proportion_sound:
  "wf_fraction f \<Longrightarrow> is_proportion f \<Longrightarrow> fraction_proportion (numerator f) (denominator f) = Ok f"
  by (cases f) (auto simp: fraction_proportion_def fraction_new_def wf_fraction_def is_proportion_def)

lemma parse_quorum_tag: "sound_quorum q \<Longrightarrow> parse_quorum pos (quorum_tag q) issues = Ok (Some q, issues)"
  by (cases q)
    (simp_all add: parse_quorum_def quorum_tag_def fraction_pairs_def quorum_value_def attr_eval sound_quorum_def
      core_value_def weight_new_def proportion_value_def proportion_sound split: quorum_basis.split)

lemma parse_threshold_tag: "sound_threshold t \<Longrightarrow> parse_threshold pos (threshold_tag t) issues = Ok (Some t, issues)"
  by (cases t)
    (simp_all add: parse_threshold_def threshold_tag_def fraction_pairs_def basis_text_def threshold_value_def
      attr_eval sound_threshold_def core_value_def proportion_value_def proportion_sound split: threshold_basis.split)

text \<open>The slots after some of the elements of a rule set have been read, in whatever order.\<close>

definition slots_after :: "voting_rules \<Rightarrow> string set \<Rightarrow> rule_slots" where
  "slots_after r seen =
     \<lparr>rs_weight = if ''weight'' \<in> seen then Some (Some (weight_rule r)) else None,
      rs_exclusions = if ''exclusions'' \<in> seen then Some (Some (exclusions_enabled r)) else None,
      rs_quorum = if ''quorum'' \<in> seen then Some (Some (quorum r)) else None,
      rs_threshold = if ''threshold'' \<in> seen then Some (Some (threshold r)) else None,
      rs_abstentions = if ''abstentions'' \<in> seen then Some (Some (abstentions r)) else None,
      rs_tie = if ''tie'' \<in> seen then Some (Some (tie r)) else None,
      rs_issues = []\<rparr>"

lemma rule_element_tag:
  assumes "sound_rules r" and "t \<in> set (rule_tags r)" and "tag_name t \<notin> seen"
  shows "rule_element t (slots_after r seen) pos = Ok (slots_after r (insert (tag_name t) seen))"
proof -
  note tags = weight_tag_def exclusions_tag_def quorum_tag_def threshold_tag_def abstentions_tag_def tie_tag_def
  have names: "tag_name (weight_tag w) = ''weight''" "tag_name (exclusions_tag b) = ''exclusions''"
    "tag_name (quorum_tag q) = ''quorum''" "tag_name (threshold_tag th) = ''threshold''"
    "tag_name (abstentions_tag a) = ''abstentions''" "tag_name (tie_tag ti) = ''tie''" for w b q th a ti
    by (simp_all add: tags)
  have sound: "sound_quorum (quorum r)" "sound_threshold (threshold r)"
    using assms(1) by (simp_all add: sound_rules_def)
  consider "t = weight_tag (weight_rule r)" | "t = exclusions_tag (exclusions_enabled r)" | "t = quorum_tag (quorum r)"
    | "t = threshold_tag (threshold r)" | "t = abstentions_tag (abstentions r)" | "t = tie_tag (tie r)"
    using assms(2) by (auto simp: rule_tags_def)
  then show ?thesis
    by cases (use assms(3) sound in \<open>simp_all add: names rule_element_def Let_def fill_def set_once_def parse_leaf_tag
      parse_quorum_tag parse_threshold_tag slots_after_def\<close>)
qed

lemma children_of_leaves:
  assumes "sound_rules r" and "set tags \<subseteq> set (rule_tags r)" and "distinct (map tag_name tags)"
    and "tag_name ` set tags \<inter> seen = {}" and "map fst (rd_rest rd) = map EvEmpty tags @ EvEnd n # tail"
  shows "\<exists>rd'. children (\<lambda>e. e) ''voting-rules'' rule_child (slots_after r seen) rd =
      (Ok (slots_after r (seen \<union> tag_name ` set tags)), rd') \<and> map fst (rd_rest rd') = tail"
  using assms(2-)
proof (induction tags arbitrary: seen rd)
  case Nil
  then obtain p es where rd: "rd_rest rd = (EvEnd n, p) # es" "map fst es = tail" by (cases "rd_rest rd") auto
  then show ?case by (subst children_unfold [OF rule_child_shrinks]) (simp add: next_event_def)
next
  case (Cons t tags)
  then obtain p es where rd: "rd_rest rd = (EvEmpty t, p) # es" "map fst es = map EvEmpty tags @ EvEnd n # tail"
    by (cases "rd_rest rd") auto
  let ?rd = "rd\<lparr>rd_position := p, rd_rest := es\<rparr>"
  have "rule_child t True (slots_after r seen) ?rd = (Ok (slots_after r (insert (tag_name t) seen)), ?rd)"
    using rule_element_tag [OF assms(1), of t seen] Cons.prems
    by (simp add: rule_child_def with_position_def pbind_def plift_def preturn_def)
  moreover obtain rd' where "children (\<lambda>e. e) ''voting-rules'' rule_child (slots_after r (insert (tag_name t) seen)) ?rd =
      (Ok (slots_after r (insert (tag_name t) seen \<union> tag_name ` set tags)), rd')" "map fst (rd_rest rd') = tail"
    using Cons.IH [of "insert (tag_name t) seen" ?rd] Cons.prems rd by auto
  ultimately show ?case
    by (subst children_unfold [OF rule_child_shrinks]) (simp add: next_event_def rd pbind_def)
qed

text \<open>
  Reading undoes writing: a rule set with proper proportions, written as its start tag and its six
  elements in any order, with numbers in decimal, is read back as exactly that rule set, and the reader
  is left right after its end tag, whatever follows.
\<close>

theorem rules_roundtrip:
  assumes "sound_rules r" and "mset tags = mset (rule_tags r)"
    and "map fst (rd_rest rd) = map EvEmpty tags @ EvEnd ''voting-rules'' # tail"
  shows "\<exists>rd'. parse_voting_rules rules_tag rd = (Ok r, rd') \<and> map fst (rd_rest rd') = tail"
proof -
  have set: "set tags = set (rule_tags r)" using assms(2) by (rule mset_eq_setD)
  have "distinct (map tag_name (rule_tags r))"
    by (simp add: rule_tags_def weight_tag_def exclusions_tag_def quorum_tag_def threshold_tag_def abstentions_tag_def tie_tag_def)
  then have dist: "distinct (map tag_name tags)" using assms(2) by (metis mset_eq_imp_distinct_iff mset_map)
  have names: "tag_name ` set tags = {''weight'', ''exclusions'', ''quorum'', ''threshold'', ''abstentions'', ''tie''}"
    by (simp add: set rule_tags_def weight_tag_def exclusions_tag_def quorum_tag_def threshold_tag_def abstentions_tag_def
        tie_tag_def)
  obtain rd' where loop: "children (\<lambda>e. e) ''voting-rules'' rule_child (slots_after r {}) rd =
      (Ok (slots_after r (tag_name ` set tags)), rd')" "map fst (rd_rest rd') = tail"
    using children_of_leaves [OF assms(1) _ dist _ assms(3), of "{}"] set by auto
  have start: "slots_after r {} = \<lparr>rs_weight = None, rs_exclusions = None, rs_quorum = None, rs_threshold = None,
      rs_abstentions = None, rs_tie = None, rs_issues = []\<rparr>" by (simp add: slots_after_def)
  have "missing_slots (slots_after r (tag_name ` set tags)) = []" "rs_issues (slots_after r (tag_name ` set tags)) = []"
    "rules_of_slots (slots_after r (tag_name ` set tags)) = Ok r"
    by (simp_all add: names slots_after_def missing_slots_def rules_of_slots_def flattened_def)
  then have "parse_voting_rules rules_tag rd = (Ok r, rd')"
    using loop(1) unfolding start
    by (simp add: parse_voting_rules_def rules_tag_def attr_eval with_position_def pbind_def plift_def
        check_version_def finish_issues_def)
  then show ?thesis using loop(2) by blast
qed

definition sample_rule_set :: voting_rules where
  "sample_rule_set = \<lparr>weight_rule = ElectorateWeight, exclusions_enabled = False,
     quorum = QuorumFraction \<lparr>numerator = 1, denominator = 2\<rparr> QB_TotalElectorate,
     threshold = ThresholdFraction \<lparr>numerator = 2, denominator = 3\<rparr> TB_VotesCast,
     abstentions = AbstentionsExclude, tie = TieReject\<rparr>"

theorem rules_roundtrip_witness:
  "\<exists>rd'. parse_voting_rules rules_tag \<lparr>rd_position = 9, rd_rest = map (\<lambda>e. (e, 77))
      (map EvEmpty (rev (rule_tags sample_rule_set)) @ [EvEnd ''voting-rules'', EvEof]), rd_fault = None\<rparr>
     = (Ok sample_rule_set, rd') \<and> map fst (rd_rest rd') = [EvEof]"
proof (rule rules_roundtrip)
  show "sound_rules sample_rule_set"
    by (simp add: sound_rules_def sample_rule_set_def sound_quorum_def sound_threshold_def wf_fraction_def is_proportion_def)
  show "mset (rev (rule_tags sample_rule_set)) = mset (rule_tags sample_rule_set)" by simp
qed (simp add: o_def)

text \<open>
  An element is consumed whole: where a rule set, an electorate or a ballot set is read, the reader
  is left right after the end tag that closes the element, however its children are nested, so that
  the format it is embedded in goes on with the next sibling.
\<close>

theorem elements_consumed:
  "(case parse_voting_rules t r of (Ok _, r') \<Rightarrow> close_at 0 (rd_rest r) = Some (rd_rest r') | _ \<Rightarrow> True) \<and>
   (case parse_electorate t e r of (Ok _, r') \<Rightarrow>
      if e then rd_rest r' = rd_rest r else close_at 0 (rd_rest r) = Some (rd_rest r') | _ \<Rightarrow> True) \<and>
   (case parse_ballots t e r of (Ok _, r') \<Rightarrow>
      if e then rd_rest r' = rd_rest r else close_at 0 (rd_rest r) = Some (rd_rest r') | _ \<Rightarrow> True)"
  using parse_voting_rules_consumes [of t r] parse_electorate_consumes [of t e r] parse_ballots_consumes [of t e r]
  by (auto simp: consumes_def split: prod.splits result.splits)

text \<open>Text after the root element is passed over, like comments.\<close>

lemma expect_eof_text: "rd_rest r = [(EvText, p)] \<Longrightarrow> rd_fault r = None \<Longrightarrow> fst (expect_eof r) = Ok ()"
  by (simp add: expect_eof.simps [of r] next_event_def) (simp add: expect_eof.simps next_event_def)

end
