(* ===== verification/Prunella_Canonical.thy ===== *)
theory Prunella_Canonical
  imports Irena_Prelude
begin

text \<open>
  \<open>crates/prunella-canonical\<close>: the canonical byte encoding and domain-separated hashing, with the
  byte layout that \<open>crates/prunella-conformance/src/oracle.rs\<close> writes by hand and
  \<open>docs/PROTOCOL_V1.md\<close> freezes. Borsh, BLAKE3 and Ed25519 are third-party code: the hash, the
  signature scheme and the decoder are parameters. The interface of an encoder is the locale
  \<open>prefix_code\<close>: no encoding is a proper prefix of another, so an encoding followed by anything
  can be split in one way only.
\<close>

section \<open>Bytes and digests\<close>

type_synonym bytes = "u8 list"
type_synonym digest = "256 word"
type_synonym signature = "512 word"

text \<open>\<open>to_le_bytes\<close> of an integer of \<open>n\<close> bytes.\<close>

definition le_bytes :: "nat \<Rightarrow> 'l::len word \<Rightarrow> bytes" where
  "le_bytes n w = map (\<lambda>i. ucast (drop_bit (8 * i) w)) [0..<n]"

text \<open>Evaluation divides the integer, one byte at a time.\<close>

fun int_bytes :: "nat \<Rightarrow> int \<Rightarrow> bytes" where
  "int_bytes 0 i = []"
| "int_bytes (Suc n) i = word_of_int (i mod 256) # int_bytes n (i div 256)"

lemma int_bytes_drop: "int_bytes n (uint (drop_bit k w)) = map (\<lambda>i. ucast (drop_bit (k + 8 * i) w)) [0..<n]"
  for w :: "'l::len word"
proof (induction n arbitrary: k)
  case (Suc n)
  have "[0..<Suc n] = 0 # map Suc [0..<n]" by (simp add: map_Suc_upt upt_conv_Cons)
  moreover have "uint (drop_bit m w) = uint w div 2 ^ m" for m
    using take_bit_int_eq_self [of "uint w" "LENGTH('l)"]
    by (simp add: unsigned_drop_bit_eq unsigned_less flip: drop_bit_eq_div)
  then have "uint (drop_bit k w) div 256 = uint (drop_bit (k + 8) w)"
    by (simp add: power_add zdiv_zmult2_eq)
  moreover have "(word_of_int (uint (drop_bit k w) mod 256) :: u8) = ucast (drop_bit k w)"
  proof -
    have "(word_of_int (take_bit 8 (uint (drop_bit k w))) :: u8) = ucast (drop_bit k w)"
      by (rule bit_word_eqI)
        (auto simp: bit_word_of_int_iff bit_take_bit_iff bit_ucast_iff bit_uint_iff dest: bit_imp_le_length)
    then show ?thesis by (simp add: take_bit_eq_mod)
  qed
  ultimately show ?case using Suc.IH [of "k + 8"] by (simp add: o_def add.assoc del: upt_Suc)
qed simp

lemma le_bytes_code [code]: "le_bytes n w = int_bytes n (uint w)"
  using int_bytes_drop [of n 0 w] by (simp add: le_bytes_def)

text \<open>
  A 32-byte or 64-byte array is the word whose most significant byte comes first, so that the
  derived \<open>Ord\<close> of a digest, byte by byte, is the order of the words.
\<close>

definition array_bytes :: "nat \<Rightarrow> 'l::len word \<Rightarrow> bytes" where
  "array_bytes n w = rev (le_bytes n w)"

abbreviation digest_bytes :: "digest \<Rightarrow> bytes" where
  "digest_bytes \<equiv> array_bytes 32"

abbreviation signature_bytes :: "signature \<Rightarrow> bytes" where
  "signature_bytes \<equiv> array_bytes 64"

text \<open>\<open>as_bytes\<close> of a string.\<close>

definition str_bytes :: "string \<Rightarrow> bytes" where
  "str_bytes s = map (\<lambda>c. word_of_nat (of_char c)) s"

text \<open>The byte of a character, from its bits: the same value, quicker to evaluate.\<close>

definition bit_and_rest :: "bool \<Rightarrow> int \<Rightarrow> int" where
  "bit_and_rest b n = (if b then 2 * n + 1 else 2 * n)"

definition char_byte :: "char \<Rightarrow> u8" where
  "char_byte c = (case c of Char b0 b1 b2 b3 b4 b5 b6 b7 \<Rightarrow>
     word_of_int (bit_and_rest b0 (bit_and_rest b1 (bit_and_rest b2 (bit_and_rest b3
       (bit_and_rest b4 (bit_and_rest b5 (bit_and_rest b6 (bit_and_rest b7 0)))))))))"

lemma str_bytes_code [code]: "str_bytes s = map char_byte s"
proof -
  have "bit_and_rest b n = of_bool b + 2 * n" for b n by (simp add: bit_and_rest_def)
  then have "char_byte c = word_of_int (of_char c)" for c
    by (cases c) (simp only: char_byte_def char.case of_char_Char horner_sum_simps)
  moreover have "(word_of_int (of_char c) :: u8) = word_of_nat (of_char c)" for c
    by (metis of_int_of_nat_eq of_nat_of_char)
  ultimately show ?thesis by (simp add: str_bytes_def)
qed

lemma le_bytes_length [simp]: "length (le_bytes n w) = n"
  by (simp add: le_bytes_def)

lemma array_bytes_length [simp]: "length (array_bytes n w) = n"
  by (simp add: array_bytes_def)

lemma le_bytes_inj:
  assumes "le_bytes n w = le_bytes n v" and "LENGTH('l) \<le> 8 * n"
  shows "w = (v :: 'l::len word)"
proof (rule bit_word_eqI)
  fix b
  assume b: "b < LENGTH('l)"
  have "b div 8 < n" using b assms(2) by auto
  then have "ucast (drop_bit (8 * (b div 8)) w) = (ucast (drop_bit (8 * (b div 8)) v) :: u8)"
    using assms(1) by (auto simp: le_bytes_def)
  then have "bit (ucast (drop_bit (8 * (b div 8)) w) :: u8) (b mod 8)
      = bit (ucast (drop_bit (8 * (b div 8)) v) :: u8) (b mod 8)"
    by simp
  then show "bit w b = bit v b"
    by (simp add: bit_ucast_iff bit_drop_bit_eq)
qed

lemma array_bytes_inj:
  "array_bytes n w = array_bytes n v \<Longrightarrow> LENGTH('l) \<le> 8 * n \<Longrightarrow> w = (v :: 'l::len word)"
  using le_bytes_inj [of n w v] by (simp add: array_bytes_def)

lemma digest_bytes_inj [simp]: "digest_bytes a = digest_bytes b \<longleftrightarrow> a = b"
  using array_bytes_inj [of 32 a b] by auto

lemma byte_of_char_inj: "(word_of_nat (of_char c) :: u8) = word_of_nat (of_char d) \<longleftrightarrow> c = d"
proof
  assume "(word_of_nat (of_char c) :: u8) = word_of_nat (of_char d)"
  then have "unat (word_of_nat (of_char c) :: u8) = unat (word_of_nat (of_char d) :: u8)" by simp
  then have "(of_char c :: nat) = of_char d"
    by (simp add: unat_of_nat take_bit_nat_eq_self nat_of_char_less_256)
  then show "c = d" by (simp add: of_char_eq_iff)
qed simp

lemma str_bytes_inj [simp]: "str_bytes s = str_bytes t \<longleftrightarrow> s = t"
proof -
  have "inj (\<lambda>c. word_of_nat (of_char c) :: u8)" by (rule injI) (simp only: byte_of_char_inj)
  then show ?thesis by (simp add: str_bytes_def inj_map_eq_map)
qed

lemma str_bytes_length [simp]: "length (str_bytes s) = length s"
  by (simp add: str_bytes_def)

section \<open>The layout\<close>

definition enc_u16 :: "u16 \<Rightarrow> bytes" where "enc_u16 v = le_bytes 2 v"
definition enc_u32 :: "u32 \<Rightarrow> bytes" where "enc_u32 v = le_bytes 4 v"
definition enc_u64 :: "u64 \<Rightarrow> bytes" where "enc_u64 v = le_bytes 8 v"

text \<open>
  A length-prefixed byte string. Borsh refuses to encode a value of \<open>2 ^ 32\<close> bytes or more;
  \<open>fits_u32\<close> is the domain on which the layout is defined.
\<close>

definition fits_u32 :: "'a list \<Rightarrow> bool" where
  "fits_u32 xs \<longleftrightarrow> length xs < 2 ^ 32"

definition enc_bytes :: "bytes \<Rightarrow> bytes" where
  "enc_bytes v = enc_u32 (word_of_nat (length v)) @ v"

definition enc_string :: "string \<Rightarrow> bytes" where
  "enc_string s = enc_bytes (str_bytes s)"

definition enc_vec :: "('a \<Rightarrow> bytes) \<Rightarrow> 'a list \<Rightarrow> bytes" where
  "enc_vec enc xs = enc_u32 (word_of_nat (length xs)) @ concat (map enc xs)"

section \<open>Strings\<close>

text \<open>
  The well-formed UTF-8 sequences of one to four bytes. Every Rust \<open>String\<close> is one; \<open>is_string\<close>
  adds that its length can be written.
\<close>

definition is_cont :: "u8 \<Rightarrow> bool" where
  "is_cont b \<longleftrightarrow> 128 \<le> b \<and> b \<le> 191"

fun utf8_valid :: "bytes \<Rightarrow> bool" where
  "utf8_valid [] \<longleftrightarrow> True"
| "utf8_valid (a # r) \<longleftrightarrow>
     (if a < 128 then utf8_valid r
      else case r of
        [] \<Rightarrow> False
      | b # r2 \<Rightarrow>
          if 194 \<le> a \<and> a \<le> 223 then is_cont b \<and> utf8_valid r2
          else case r2 of
            [] \<Rightarrow> False
          | c # r3 \<Rightarrow>
              if 224 \<le> a \<and> a \<le> 239
              then is_cont b \<and> is_cont c \<and> (a = 224 \<longrightarrow> 160 \<le> b) \<and> (a = 237 \<longrightarrow> b \<le> 159) \<and> utf8_valid r3
              else case r3 of
                [] \<Rightarrow> False
              | d # r4 \<Rightarrow>
                  240 \<le> a \<and> a \<le> 244 \<and> is_cont b \<and> is_cont c \<and> is_cont d \<and>
                  (a = 240 \<longrightarrow> 144 \<le> b) \<and> (a = 244 \<longrightarrow> b \<le> 143) \<and> utf8_valid r4)"

definition is_string :: "string \<Rightarrow> bool" where
  "is_string s \<longleftrightarrow> utf8_valid (str_bytes s) \<and> fits_u32 s"

lemma utf8_ascii: "\<forall>b \<in> set bs. b < 128 \<Longrightarrow> utf8_valid bs"
  by (induction bs) auto

lemma is_string_fits: "is_string s \<Longrightarrow> fits_u32 s"
  by (simp add: is_string_def)

section \<open>The interface of an encoder\<close>

locale prefix_code =
  fixes enc :: "'a \<Rightarrow> bytes"
    and wf :: "'a \<Rightarrow> bool"
  assumes split_unique: "wf x \<Longrightarrow> wf y \<Longrightarrow> enc x @ r = enc y @ s \<Longrightarrow> x = y \<and> r = s"
begin

lemma enc_inj: "wf x \<Longrightarrow> wf y \<Longrightarrow> enc x = enc y \<longleftrightarrow> x = y"
  using split_unique [of x y "[]" "[]"] by auto

lemma no_proper_prefix: "wf x \<Longrightarrow> wf y \<Longrightarrow> enc x = enc y @ s \<Longrightarrow> s = []"
  using split_unique [of x y "[]" s] by auto

text \<open>Sequences of the same length, and vectors with their length in front.\<close>

lemma sequence_unique:
  assumes "length xs = length ys" and "\<forall>x \<in> set xs. wf x" and "\<forall>y \<in> set ys. wf y"
    and "concat (map enc xs) @ r = concat (map enc ys) @ s"
  shows "xs = ys \<and> r = s"
  using assms
proof (induction xs ys arbitrary: r s rule: list_induct2)
  case (Cons x xs y ys)
  have "x = y \<and> concat (map enc xs) @ r = concat (map enc ys) @ s"
    by (rule split_unique) (use Cons.prems in simp_all)
  moreover have "xs = ys \<and> r = s"
    by (rule Cons.IH) (use Cons.prems calculation in simp_all)
  ultimately show ?case by simp
qed simp

end

lemma prefix_code_fixed:
  assumes "\<And>x. length (enc x) = n" and "\<And>x y. enc x = enc y \<Longrightarrow> x = y"
  shows "prefix_code enc (\<lambda>_. True)"
proof
  fix x y r s
  assume "enc x @ r = enc y @ s"
  then have "enc x = enc y \<and> r = s" using assms(1) by (simp add: append_eq_append_conv)
  then show "x = y \<and> r = s" using assms(2) by blast
qed

interpretation u16_code: prefix_code enc_u16 "\<lambda>_. True"
  by (rule prefix_code_fixed [where n = 2]) (simp_all add: enc_u16_def le_bytes_inj)

interpretation u32_code: prefix_code enc_u32 "\<lambda>_. True"
  by (rule prefix_code_fixed [where n = 4]) (simp_all add: enc_u32_def le_bytes_inj)

interpretation u64_code: prefix_code enc_u64 "\<lambda>_. True"
  by (rule prefix_code_fixed [where n = 8]) (simp_all add: enc_u64_def le_bytes_inj)

interpretation digest_code: prefix_code digest_bytes "\<lambda>_. True"
  by (rule prefix_code_fixed [where n = 32]) simp_all

interpretation signature_code: prefix_code signature_bytes "\<lambda>_. True"
  by (rule prefix_code_fixed [where n = 64]) (simp_all add: array_bytes_inj)

lemma length_prefix_unique:
  assumes "fits_u32 xs" and "fits_u32 ys"
    and "enc_u32 (word_of_nat (length xs)) @ r = enc_u32 (word_of_nat (length ys)) @ s"
  shows "length xs = length ys \<and> r = s"
proof -
  from u32_code.split_unique [OF _ _ assms(3)]
  have "(word_of_nat (length xs) :: u32) = word_of_nat (length ys)" and rs: "r = s" by simp_all
  then have "unat (word_of_nat (length xs) :: u32) = unat (word_of_nat (length ys) :: u32)" by simp
  with assms(1,2) rs show ?thesis by (simp add: unat_of_nat take_bit_nat_eq_self fits_u32_def)
qed

interpretation bytes_code: prefix_code enc_bytes fits_u32
proof
  fix x y r s
  assume "fits_u32 x" "fits_u32 y" "enc_bytes x @ r = enc_bytes y @ s"
  then have "length x = length y \<and> x @ r = y @ s"
    using length_prefix_unique [of x y "x @ r" "y @ s"] by (simp add: enc_bytes_def)
  then show "x = y \<and> r = s" by (metis append_eq_append_conv)
qed

interpretation string_code: prefix_code enc_string fits_u32
proof
  fix x y r s
  assume "fits_u32 x" "fits_u32 y" "enc_string x @ r = enc_string y @ s"
  then show "x = y \<and> r = s"
    using bytes_code.split_unique [of "str_bytes x" "str_bytes y" r s]
    by (simp add: enc_string_def fits_u32_def)
qed

context prefix_code
begin

lemma vec_unique:
  assumes "fits_u32 xs" and "fits_u32 ys" and "\<forall>x \<in> set xs. wf x" and "\<forall>y \<in> set ys. wf y"
    and "enc_vec enc xs @ r = enc_vec enc ys @ s"
  shows "xs = ys \<and> r = s"
proof -
  have "length xs = length ys \<and> concat (map enc xs) @ r = concat (map enc ys) @ s"
    using length_prefix_unique [OF assms(1,2)] assms(5) by (simp add: enc_vec_def)
  then show ?thesis using sequence_unique [OF _ assms(3,4)] by blast
qed

end

text \<open>
  Splitting an equation between two encoded structs, field by field: the facts are applied to
  the first field, and what remains is the equation between the rests.
\<close>

lemmas split_fields = u16_code.split_unique [OF TrueI TrueI] u32_code.split_unique [OF TrueI TrueI]
  u64_code.split_unique [OF TrueI TrueI] digest_code.split_unique [OF TrueI TrueI]
  signature_code.split_unique [OF TrueI TrueI] string_code.split_unique [rotated 2]
  bytes_code.split_unique [rotated 2]

text \<open>A byte array read back: \<open>from_bytes\<close> of the array types.\<close>

lemma word_rcat_array_bytes:
  assumes "LENGTH('l) \<le> 8 * n"
  shows "word_rcat (array_bytes n w) = (w :: 'l::len word)"
proof (rule bit_word_eqI)
  fix b
  assume b: "b < LENGTH('l)"
  then have "b div 8 < n" using assms by auto
  then show "bit (word_rcat (array_bytes n w) :: 'l word) b = bit w b"
    using b by (simp add: word_rcat_def array_bytes_def bit_word_of_int_iff
        bit_horner_sum_uint_exp_iff [where 'a = 8, simplified]
        le_bytes_def bit_ucast_iff bit_drop_bit_eq)
qed

lemma array_bytes_word_rcat:
  assumes "length bs = n" and "LENGTH('l) = 8 * n"
  shows "array_bytes n (word_rcat bs :: 'l::len word) = bs"
proof -
  have "le_bytes n (word_rcat bs :: 'l word) = rev bs"
  proof (rule nth_equalityI)
    fix i
    assume "i < length (le_bytes n (word_rcat bs :: 'l word))"
    then have i: "i < n" by simp
    show "le_bytes n (word_rcat bs :: 'l word) ! i = rev bs ! i"
    proof (rule bit_word_eqI)
      fix b
      assume b: "b < LENGTH(8)"
      have "8 * i + b < 8 * n" "(8 * i + b) div 8 = i" "(8 * i + b) mod 8 = b" using i b by auto
      then show "bit (le_bytes n (word_rcat bs :: 'l word) ! i) b = bit (rev bs ! i) b"
        using i b assms by (simp add: le_bytes_def bit_ucast_iff bit_drop_bit_eq word_rcat_def
            bit_word_of_int_iff bit_horner_sum_uint_exp_iff [where 'a = 8, simplified] add.commute)
    qed
  qed (use assms in simp)
  then show ?thesis by (simp add: array_bytes_def)
qed

section \<open>Domain-separated hashing\<close>

text \<open>
  The third-party cryptography, as a value every hashing definition takes. A key and a seed are
  32 bytes, like a digest.
\<close>

record crypto =
  blake3 :: "bytes \<Rightarrow> digest"
  is_point :: "digest \<Rightarrow> bool"
  ed_verify_strict :: "digest \<Rightarrow> bytes \<Rightarrow> signature \<Rightarrow> bool"
  ed_public :: "digest \<Rightarrow> digest"
  ed_sign :: "digest \<Rightarrow> bytes \<Rightarrow> signature"

text \<open>What Ed25519 promises: the public key of a seed is a point that accepts its signatures.\<close>

definition signatures_verify :: "crypto \<Rightarrow> bool" where
  "signatures_verify cr \<longleftrightarrow> (\<forall>seed m. is_point cr (ed_public cr seed)
     \<and> ed_verify_strict cr (ed_public cr seed) m (ed_sign cr seed m))"

definition TX_SIGN :: string where "TX_SIGN = ''PRUNELLA/v1/tx-sign''"
definition TX_ID :: string where "TX_ID = ''PRUNELLA/v1/tx-id''"
definition TX_ROOT :: string where "TX_ROOT = ''PRUNELLA/v1/tx-root''"
definition TX_LEAF :: string where "TX_LEAF = ''PRUNELLA/v1/tx-leaf''"
definition TX_NODE :: string where "TX_NODE = ''PRUNELLA/v1/tx-node''"
definition BLOCK_HEADER :: string where "BLOCK_HEADER = ''PRUNELLA/v1/block-header''"

lemmas domain_tags = TX_SIGN_def TX_ID_def TX_ROOT_def TX_LEAF_def TX_NODE_def BLOCK_HEADER_def

text \<open>A hasher is what it has absorbed; \<open>blake3::Hasher\<close> hashes the concatenation of its updates.\<close>

datatype domain_hasher = DomainHasher (absorbed: bytes)

definition hasher_new :: "string \<Rightarrow> domain_hasher" where
  "hasher_new tag = DomainHasher (enc_u32 (word_of_nat (length tag)) @ str_bytes tag)"

definition hasher_update :: "domain_hasher \<Rightarrow> bytes \<Rightarrow> domain_hasher" where
  "hasher_update h b = DomainHasher (absorbed h @ b)"

definition hasher_finalize :: "crypto \<Rightarrow> domain_hasher \<Rightarrow> digest" where
  "hasher_finalize cr h = blake3 cr (absorbed h)"

definition hash_domain :: "crypto \<Rightarrow> string \<Rightarrow> bytes \<Rightarrow> digest" where
  "hash_domain cr tag b = hasher_finalize cr (hasher_update (hasher_new tag) b)"

definition hash_canonical :: "crypto \<Rightarrow> ('a \<Rightarrow> bytes) \<Rightarrow> string \<Rightarrow> 'a \<Rightarrow> digest" where
  "hash_canonical cr enc tag v = hash_domain cr tag (enc v)"

text \<open>The byte string that BLAKE3 sees: \<open>u32_le(tag.len()) || tag || bytes\<close>.\<close>

definition preimage :: "string \<Rightarrow> bytes \<Rightarrow> bytes" where
  "preimage tag b = enc_bytes (str_bytes tag) @ b"

lemma hash_domain_preimage: "hash_domain cr tag b = blake3 cr (preimage tag b)"
  by (simp add: hash_domain_def hasher_finalize_def hasher_update_def hasher_new_def preimage_def enc_bytes_def)

lemma preimage_eq_iff:
  "fits_u32 s \<Longrightarrow> fits_u32 t \<Longrightarrow> preimage s a = preimage t b \<longleftrightarrow> s = t \<and> a = b"
  using bytes_code.split_unique [of "str_bytes s" "str_bytes t" a b]
  by (auto simp: preimage_def fits_u32_def)

text \<open>
  Preimages do not collide under \<open>cr\<close> when the hash is injective on the finitely many byte
  strings a statement is about. This is the only thing ever assumed of BLAKE3.
\<close>

definition no_collision :: "crypto \<Rightarrow> bytes list \<Rightarrow> bool" where
  "no_collision cr ps \<longleftrightarrow> (\<forall>a \<in> set ps. \<forall>b \<in> set ps. blake3 cr a = blake3 cr b \<longrightarrow> a = b)"

lemma no_collision_distinct: "distinct (map (blake3 cr) ps) \<Longrightarrow> no_collision cr ps"
  by (auto simp: no_collision_def distinct_map dest: inj_onD)

lemma no_collisionD:
  "no_collision cr ps \<Longrightarrow> a \<in> set ps \<Longrightarrow> b \<in> set ps \<Longrightarrow> blake3 cr a = blake3 cr b \<Longrightarrow> a = b"
  by (auto simp: no_collision_def)

lemma no_collision_mono: "no_collision cr qs \<Longrightarrow> set ps \<subseteq> set qs \<Longrightarrow> no_collision cr ps"
  by (auto simp: no_collision_def)

section \<open>Decoding\<close>

datatype canonical_error = CanonDecode | CanonTrailing nat

text \<open>\<open>de\<close> is the derived Borsh deserializer: it reads a value and leaves the bytes after it.\<close>

definition decode :: "(bytes \<Rightarrow> ('a \<times> bytes) option) \<Rightarrow> bytes \<Rightarrow> (canonical_error, 'a) result" where
  "decode de b =
     (case de b of None \<Rightarrow> Err CanonDecode
      | Some (v, rest) \<Rightarrow> if rest \<noteq> [] then Err (CanonTrailing (length rest)) else Ok v)"

text \<open>What Borsh documents for the canonical subset: reading undoes writing, and only that.\<close>

definition reads_back :: "('a \<Rightarrow> bytes) \<Rightarrow> ('a \<Rightarrow> bool) \<Rightarrow> (bytes \<Rightarrow> ('a \<times> bytes) option) \<Rightarrow> bool" where
  "reads_back enc ok de \<longleftrightarrow>
     (\<forall>x r. ok x \<longrightarrow> de (enc x @ r) = Some (x, r)) \<and>
     (\<forall>b x r. de b = Some (x, r) \<longrightarrow> ok x \<and> b = enc x @ r)"

lemma decode_Ok_iff:
  assumes "reads_back enc ok de"
  shows "decode de b = Ok x \<longleftrightarrow> ok x \<and> b = enc x"
proof
  assume "decode de b = Ok x"
  then have "de b = Some (x, [])" by (auto simp: decode_def split: option.splits if_splits)
  with assms show "ok x \<and> b = enc x" by (fastforce simp: reads_back_def)
next
  assume "ok x \<and> b = enc x"
  then have "de (b @ []) = Some (x, [])" using assms by (auto simp only: reads_back_def)
  then show "decode de b = Ok x" by (simp add: decode_def)
qed

section \<open>A computable instance for the witnesses\<close>

text \<open>
  A polynomial hash and a signature scheme that appends nothing secret: enough to evaluate the
  model on concrete inputs. No property depends on it.
\<close>

definition sample_hash :: "bytes \<Rightarrow> digest" where
  "sample_hash b = word_of_int (fold (\<lambda>x h. (h * 31 + uint x) mod 65521) b 7)"

definition sample_crypto :: crypto where
  "sample_crypto = \<lparr>
     blake3 = sample_hash,
     is_point = (\<lambda>_. True),
     ed_verify_strict = (\<lambda>k m s. s = word_of_int (uint k + uint (sample_hash m))),
     ed_public = (\<lambda>seed. seed + 11),
     ed_sign = (\<lambda>seed m. word_of_int (uint (seed + 11) + uint (sample_hash m)))\<rparr>"

lemma sample_signatures: "signatures_verify sample_crypto"
  by (simp add: signatures_verify_def sample_crypto_def)

end
