(* ===== verification/Prunella_Merkle.thy ===== *)
theory Prunella_Merkle
  imports Prunella_Canonical "HOL-Library.While_Combinator"
begin

text \<open>
  \<open>crates/prunella-core/src/merkle.rs\<close>: the Merkle tree over 32-byte leaves and its inclusion
  proofs, for any three hash domains. A hash never appears in the hypotheses except as injective
  on the finite list of byte strings that a statement's two sides hash.
\<close>

section \<open>The tree\<close>

record tree_tags =
  leaf_tag :: string
  node_tag :: string
  empty_tag :: string

definition PRUNELLA_V1 :: tree_tags where
  "PRUNELLA_V1 = \<lparr>leaf_tag = TX_LEAF, node_tag = TX_NODE, empty_tag = TX_ROOT\<rparr>"

definition leaf_hash_with :: "crypto \<Rightarrow> tree_tags \<Rightarrow> digest \<Rightarrow> digest" where
  "leaf_hash_with cr tags content = hash_domain cr (leaf_tag tags) (digest_bytes content)"

definition node_hash_with :: "crypto \<Rightarrow> tree_tags \<Rightarrow> digest \<Rightarrow> digest \<Rightarrow> digest" where
  "node_hash_with cr tags left right =
     hasher_finalize cr
       (hasher_update (hasher_update (hasher_new (node_tag tags)) (digest_bytes left)) (digest_bytes right))"

definition empty_root_with :: "crypto \<Rightarrow> tree_tags \<Rightarrow> digest" where
  "empty_root_with cr tags = hash_domain cr (empty_tag tags) []"

text \<open>
  The loop of \<open>split_point\<close>. A slice holds fewer than \<open>2 ^ 63\<close> leaves, so the product of the
  code does not overflow.
\<close>

definition split_point :: "nat \<Rightarrow> nat" where
  "split_point n = while (\<lambda>k. k * 2 < n) (\<lambda>k. k * 2) 1"

lemma split_point_power:
  assumes "2 \<le> n"
  shows "\<exists>j. split_point n = 2 ^ j \<and> 2 ^ j < n \<and> n \<le> 2 ^ Suc j"
proof -
  have "\<exists>j. split_point n = 2 ^ j \<and> split_point n < n \<and> \<not> split_point n * 2 < n"
    unfolding split_point_def
  proof (rule while_rule [where P = "\<lambda>k. \<exists>j. k = 2 ^ j \<and> k < n" and r = "measure (\<lambda>k. n - k)"])
    show "\<exists>j. (1 :: nat) = 2 ^ j \<and> 1 < n" using assms by (intro exI [of _ 0]) simp
  next
    fix k :: nat
    assume "\<exists>j. k = 2 ^ j \<and> k < n" and lt: "k * 2 < n"
    then obtain j where "k = 2 ^ j" by blast
    then have "k * 2 = 2 ^ Suc j" by simp
    with lt show "\<exists>j. k * 2 = 2 ^ j \<and> k * 2 < n" by blast
  next
    fix k :: nat
    assume "\<exists>j. k = 2 ^ j \<and> k < n" and "k * 2 < n"
    then have "0 < k" by auto
    with \<open>k * 2 < n\<close> show "(k * 2, k) \<in> measure (\<lambda>k. n - k)" by simp
  qed auto
  then show ?thesis by force
qed

lemma split_point_bounds:
  assumes "2 \<le> n"
  shows "0 < split_point n" "split_point n < n"
  using split_point_power [OF assms] by force+

text \<open>Slices are lists; a slice of two or more leaves is split and both halves are hashed.\<close>

function root :: "crypto \<Rightarrow> tree_tags \<Rightarrow> digest list \<Rightarrow> digest" where
  "root cr tags [] = empty_root_with cr tags"
| "root cr tags [l] = leaf_hash_with cr tags l"
| "root cr tags (l # l' # ls) =
     (let split = split_point (length (l # l' # ls))
      in node_hash_with cr tags (root cr tags (take split (l # l' # ls)))
           (root cr tags (drop split (l # l' # ls))))"
  by pat_completeness auto
termination
proof (relation "measure (\<lambda>(cr, tags, ls). length ls)")
  fix cr tags l l' ls split
  assume "split = split_point (length (l # l' # ls :: digest list))"
  then have "0 < split" "split < length (l # l' # ls)"
    using split_point_bounds [of "length (l # l' # ls)"] by simp_all
  then show "((cr, tags, take split (l # l' # ls)), cr, tags, l # l' # ls)
      \<in> measure (\<lambda>(cr, tags, ls). length ls)"
    and "((cr, tags, drop split (l # l' # ls)), cr, tags, l # l' # ls)
      \<in> measure (\<lambda>(cr, tags, ls). length ls)"
    by auto
qed simp

lemmas root_split = root.simps(3)

definition leaf_hash :: "crypto \<Rightarrow> digest \<Rightarrow> digest" where
  "leaf_hash cr i = leaf_hash_with cr PRUNELLA_V1 i"

definition node_hash :: "crypto \<Rightarrow> digest \<Rightarrow> digest \<Rightarrow> digest" where
  "node_hash cr left right = node_hash_with cr PRUNELLA_V1 left right"

definition empty_root :: "crypto \<Rightarrow> digest" where
  "empty_root cr = empty_root_with cr PRUNELLA_V1"

definition merkle_root :: "crypto \<Rightarrow> digest list \<Rightarrow> digest" where
  "merkle_root cr ids = root cr PRUNELLA_V1 ids"

section \<open>Inclusion proofs\<close>

datatype side = Left | Right

record proof_step =
  ps_side :: side
  ps_hash :: digest

record inclusion_proof =
  ip_index :: u32
  ip_steps :: "proof_step list"

datatype proof_error =
    IndexOutOfRange u32 u32
  | WrongShape u32 u32 nat "side list" nat "side list"
  | RootMismatch digest digest

text \<open>\<open>steps\<close> of the code is what the recursive calls push to; here it is returned.\<close>

function audit_path :: "crypto \<Rightarrow> tree_tags \<Rightarrow> digest list \<Rightarrow> nat \<Rightarrow> proof_step list" where
  "audit_path cr tags leaves index =
     (if length leaves \<le> 1 then []
      else let split = split_point (length leaves)
        in if index < split
           then audit_path cr tags (take split leaves) index
             @ [\<lparr>ps_side = Right, ps_hash = root cr tags (drop split leaves)\<rparr>]
           else audit_path cr tags (drop split leaves) (index - split)
             @ [\<lparr>ps_side = Left, ps_hash = root cr tags (take split leaves)\<rparr>])"
  by pat_completeness auto
termination
proof (relation "measure (\<lambda>(cr, tags, ls, i). length ls)")
  fix cr tags index split
  fix leaves :: "digest list"
  assume "\<not> length leaves \<le> 1" "split = split_point (length leaves)"
  then have "0 < split" "split < length leaves"
    using split_point_bounds [of "length leaves"] by simp_all
  then show "((cr, tags, take split leaves, index), cr, tags, leaves, index)
      \<in> measure (\<lambda>(cr, tags, ls, i). length ls)"
    and "((cr, tags, drop split leaves, index - split), cr, tags, leaves, index)
      \<in> measure (\<lambda>(cr, tags, ls, i). length ls)"
    by auto
qed simp

function expected_sides :: "nat \<Rightarrow> nat \<Rightarrow> side list" where
  "expected_sides cnt index =
     (if cnt \<le> 1 then []
      else let split = split_point cnt
        in if index < split then expected_sides split index @ [Right]
           else expected_sides (cnt - split) (index - split) @ [Left])"
  by pat_completeness auto
termination
proof (relation "measure fst")
  fix cnt index split :: nat
  assume "\<not> cnt \<le> 1" "split = split_point cnt"
  then show "((split, index), cnt, index) \<in> measure fst"
    and "((cnt - split, index - split), cnt, index) \<in> measure fst"
    using split_point_bounds [of cnt] by auto
qed simp

declare audit_path.simps [simp del] expected_sides.simps [simp del]

definition generate_with ::
    "crypto \<Rightarrow> tree_tags \<Rightarrow> digest list \<Rightarrow> nat \<Rightarrow> inclusion_proof option" where
  "generate_with cr tags leaves index =
     (if length leaves \<le> index then None
      else let steps = audit_path cr tags leaves index
        in map_option (\<lambda>i. \<lparr>ip_index = i, ip_steps = steps\<rparr>) (try_from_nat index))"

definition fold_step :: "crypto \<Rightarrow> tree_tags \<Rightarrow> proof_step \<Rightarrow> digest \<Rightarrow> digest" where
  "fold_step cr tags step running =
     (case ps_side step of
        Left \<Rightarrow> node_hash_with cr tags (ps_hash step) running
      | Right \<Rightarrow> node_hash_with cr tags running (ps_hash step))"

definition verify_with ::
    "crypto \<Rightarrow> inclusion_proof \<Rightarrow> tree_tags \<Rightarrow> digest \<Rightarrow> u32 \<Rightarrow> digest \<Rightarrow> (proof_error, unit) result" where
  "verify_with cr p tags leaf cnt root_hash =
     (if cnt \<le> ip_index p then Err (IndexOutOfRange (ip_index p) cnt)
      else
        let expected = expected_sides (unat cnt) (unat (ip_index p));
            found = map ps_side (ip_steps p)
        in if expected \<noteq> found
           then Err (WrongShape (ip_index p) cnt (length expected) expected (length found) found)
           else
             let running = fold (fold_step cr tags) (ip_steps p) (leaf_hash_with cr tags leaf)
             in if running = root_hash then Ok () else Err (RootMismatch root_hash running))"

definition generate :: "crypto \<Rightarrow> digest list \<Rightarrow> nat \<Rightarrow> inclusion_proof option" where
  "generate cr ids index = generate_with cr PRUNELLA_V1 ids index"

definition verify_proof ::
    "crypto \<Rightarrow> inclusion_proof \<Rightarrow> digest \<Rightarrow> u32 \<Rightarrow> digest \<Rightarrow> (proof_error, unit) result" where
  "verify_proof cr p i cnt root_hash = verify_with cr p PRUNELLA_V1 i cnt root_hash"

section \<open>Shape\<close>

text \<open>The case split that every proof about a tree follows: empty, one leaf, or two halves.\<close>

lemma tree_induct [case_names Empty Leaf Node]:
  assumes "P []" and "\<And>l. P [l]"
    and "\<And>ls k. \<lbrakk>2 \<le> length ls; k = split_point (length ls); 0 < k; k < length ls;
        P (take k ls); P (drop k ls)\<rbrakk> \<Longrightarrow> P ls"
  shows "P (ls :: 'a list)"
proof (induction "length ls" arbitrary: ls rule: less_induct)
  case less
  show ?case
  proof (cases "2 \<le> length ls")
    case True
    define k where "k = split_point (length ls)"
    have k: "0 < k" "k < length ls" using split_point_bounds [OF True] by (simp_all add: k_def)
    show ?thesis
      by (rule assms(3) [OF True k_def k]) (rule less, use k in simp)+
  next
    case False
    then show ?thesis using assms(1,2) by (cases ls rule: remdups_adj.cases) auto
  qed
qed

lemma root_node:
  assumes "2 \<le> length ls" and "k = split_point (length ls)"
  shows "root cr tags ls = node_hash_with cr tags (root cr tags (take k ls)) (root cr tags (drop k ls))"
  using assms by (cases ls rule: remdups_adj.cases) (simp_all add: Let_def)

lemma audit_path_small [simp]: "length ls \<le> 1 \<Longrightarrow> audit_path cr tags ls i = []"
  by (subst audit_path.simps) simp

lemma audit_path_node:
  assumes "2 \<le> length ls" and "k = split_point (length ls)"
  shows "audit_path cr tags ls i =
    (if i < k then audit_path cr tags (take k ls) i @ [\<lparr>ps_side = Right, ps_hash = root cr tags (drop k ls)\<rparr>]
     else audit_path cr tags (drop k ls) (i - k) @ [\<lparr>ps_side = Left, ps_hash = root cr tags (take k ls)\<rparr>])"
  using assms by (subst audit_path.simps) (simp add: Let_def)

lemma expected_sides_small [simp]: "n \<le> 1 \<Longrightarrow> expected_sides n i = []"
  by (subst expected_sides.simps) simp

lemma expected_sides_node:
  assumes "2 \<le> n" and "k = split_point n"
  shows "expected_sides n i = (if i < k then expected_sides k i @ [Right]
     else expected_sides (n - k) (i - k) @ [Left])"
  using assms by (subst expected_sides.simps) (simp add: Let_def)

lemma audit_path_sides: "map ps_side (audit_path cr tags ls i) = expected_sides (length ls) i"
proof (induction ls arbitrary: i rule: tree_induct)
  case (Node ls k)
  then show ?case by (simp add: audit_path_node expected_sides_node)
qed simp_all

lemma fold_step_simps [simp]:
  "fold_step cr tags \<lparr>ps_side = Left, ps_hash = h\<rparr> r = node_hash_with cr tags h r"
  "fold_step cr tags \<lparr>ps_side = Right, ps_hash = h\<rparr> r = node_hash_with cr tags r h"
  by (simp_all add: fold_step_def)

lemma fold_audit_path:
  "i < length ls \<Longrightarrow>
     fold (fold_step cr tags) (audit_path cr tags ls i) (leaf_hash_with cr tags (ls ! i)) = root cr tags ls"
proof (induction ls arbitrary: i rule: tree_induct)
  case (Node ls k)
  note n = audit_path_node [OF Node.hyps(1,2)]
  have "fold (fold_step cr tags) (audit_path cr tags ls i) (leaf_hash_with cr tags (ls ! i))
      = node_hash_with cr tags (root cr tags (take k ls)) (root cr tags (drop k ls))"
  proof (cases "i < k")
    case True
    then show ?thesis using Node.IH(1) [of i] Node.hyps(4) by (simp add: n)
  next
    case False
    then show ?thesis using Node.IH(2) [of "i - k"] Node.prems Node.hyps(4) by (simp add: n)
  qed
  then show ?case by (simp only: root_node [OF Node.hyps(1,2)])
qed simp_all

text \<open>An index is determined by the sides of its path.\<close>

lemma expected_sides_inj:
  "i < n \<Longrightarrow> j < n \<Longrightarrow> expected_sides n i = expected_sides n j \<Longrightarrow> i = j"
proof (induction n arbitrary: i j rule: less_induct)
  case (less n)
  show ?case
  proof (cases "2 \<le> n")
    case True
    define k where "k = split_point n"
    note k = split_point_bounds [OF True, folded k_def]
    note e = expected_sides_node [OF True k_def]
    consider "i < k" "j < k" | "k \<le> i" "k \<le> j"
      using less.prems(3) by (auto simp: e split: if_splits)
    then show ?thesis
    proof cases
      case 1
      then show ?thesis using less.prems(3) less.IH [of k i j] k by (simp add: e)
    next
      case 2
      then have "expected_sides (n - k) (i - k) = expected_sides (n - k) (j - k)"
        using less.prems(3) by (simp add: e)
      then have "i - k = j - k" by (intro less.IH [of "n - k"]) (use less.prems k 2 in auto)
      with 2 show ?thesis by simp
    qed
  qed (use less.prems in simp)
qed

section \<open>Preimages\<close>

definition wf_tags :: "tree_tags \<Rightarrow> bool" where
  "wf_tags tags \<longleftrightarrow> fits_u32 (leaf_tag tags) \<and> fits_u32 (node_tag tags) \<and> fits_u32 (empty_tag tags)
     \<and> distinct [leaf_tag tags, node_tag tags, empty_tag tags]"

lemma wf_PRUNELLA_V1 [simp]: "wf_tags PRUNELLA_V1"
  by (simp add: wf_tags_def PRUNELLA_V1_def domain_tags fits_u32_def)

definition leaf_preimage :: "tree_tags \<Rightarrow> digest \<Rightarrow> bytes" where
  "leaf_preimage tags l = preimage (leaf_tag tags) (digest_bytes l)"

definition node_preimage :: "tree_tags \<Rightarrow> digest \<Rightarrow> digest \<Rightarrow> bytes" where
  "node_preimage tags a b = preimage (node_tag tags) (digest_bytes a @ digest_bytes b)"

definition empty_preimage :: "tree_tags \<Rightarrow> bytes" where
  "empty_preimage tags = preimage (empty_tag tags) []"

lemma leaf_hash_preimage: "leaf_hash_with cr tags l = blake3 cr (leaf_preimage tags l)"
  by (simp add: leaf_hash_with_def leaf_preimage_def hash_domain_preimage)

lemma node_hash_preimage: "node_hash_with cr tags a b = blake3 cr (node_preimage tags a b)"
  by (simp add: node_hash_with_def node_preimage_def hasher_finalize_def hasher_update_def hasher_new_def
      preimage_def enc_bytes_def)

lemma empty_root_preimage: "empty_root_with cr tags = blake3 cr (empty_preimage tags)"
  by (simp add: empty_root_with_def empty_preimage_def hash_domain_preimage)

lemmas tree_hashes = leaf_hash_preimage node_hash_preimage empty_root_preimage

lemma preimage_simps [simp]:
  assumes "wf_tags tags"
  shows "leaf_preimage tags a = leaf_preimage tags b \<longleftrightarrow> a = b"
    "node_preimage tags a b = node_preimage tags c d \<longleftrightarrow> a = c \<and> b = d"
    "leaf_preimage tags a \<noteq> node_preimage tags c d" "node_preimage tags c d \<noteq> leaf_preimage tags a"
    "leaf_preimage tags a \<noteq> empty_preimage tags" "empty_preimage tags \<noteq> leaf_preimage tags a"
    "node_preimage tags a b \<noteq> empty_preimage tags" "empty_preimage tags \<noteq> node_preimage tags a b"
  using assms
  by (auto simp: leaf_preimage_def node_preimage_def empty_preimage_def preimage_eq_iff wf_tags_def
      dest: digest_code.split_unique [rotated 2])

text \<open>The byte strings hashed by a tree, and by the verification of a path.\<close>

function tree_preimages :: "crypto \<Rightarrow> tree_tags \<Rightarrow> digest list \<Rightarrow> bytes list" where
  "tree_preimages cr tags ls =
     (if ls = [] then [empty_preimage tags]
      else if length ls = 1 then [leaf_preimage tags (hd ls)]
      else let k = split_point (length ls)
        in node_preimage tags (root cr tags (take k ls)) (root cr tags (drop k ls))
           # tree_preimages cr tags (take k ls) @ tree_preimages cr tags (drop k ls))"
  by pat_completeness auto
termination
proof (relation "measure (\<lambda>(cr, tags, ls). length ls)")
  fix cr tags k
  fix ls :: "digest list"
  assume "ls \<noteq> []" "length ls \<noteq> 1" and k: "k = split_point (length ls)"
  then have "2 \<le> length ls" by (cases ls rule: remdups_adj.cases) auto
  from split_point_bounds [OF this] k
  show "((cr, tags, take k ls), cr, tags, ls) \<in> measure (\<lambda>(cr, tags, ls). length ls)"
    and "((cr, tags, drop k ls), cr, tags, ls) \<in> measure (\<lambda>(cr, tags, ls). length ls)"
    by auto
qed simp

declare tree_preimages.simps [simp del]

fun path_preimages :: "crypto \<Rightarrow> tree_tags \<Rightarrow> digest \<Rightarrow> proof_step list \<Rightarrow> bytes list" where
  "path_preimages cr tags running [] = []"
| "path_preimages cr tags running (s # ss) =
     (case ps_side s of Left \<Rightarrow> node_preimage tags (ps_hash s) running
      | Right \<Rightarrow> node_preimage tags running (ps_hash s))
     # path_preimages cr tags (fold_step cr tags s running) ss"

definition proof_preimages :: "crypto \<Rightarrow> tree_tags \<Rightarrow> digest \<Rightarrow> proof_step list \<Rightarrow> bytes list" where
  "proof_preimages cr tags leaf steps =
     leaf_preimage tags leaf # path_preimages cr tags (leaf_hash_with cr tags leaf) steps"

lemma tree_preimages_simps:
  "tree_preimages cr tags [] = [empty_preimage tags]"
  "tree_preimages cr tags [l] = [leaf_preimage tags l]"
  by (subst tree_preimages.simps, simp)+

lemma tree_preimages_node:
  assumes "2 \<le> length ls" and "k = split_point (length ls)"
  shows "tree_preimages cr tags ls
    = node_preimage tags (root cr tags (take k ls)) (root cr tags (drop k ls))
      # tree_preimages cr tags (take k ls) @ tree_preimages cr tags (drop k ls)"
  using assms by (subst tree_preimages.simps) (auto simp: Let_def)

lemma path_preimages_append [simp]:
  "path_preimages cr tags h (ss @ ts)
     = path_preimages cr tags h ss @ path_preimages cr tags (fold (fold_step cr tags) ss h) ts"
  by (induction ss arbitrary: h) simp_all

section \<open>What a root and a proof commit to\<close>

lemma tree_cases [case_names Empty Leaf Node]:
  obtains "ls = []" | l where "ls = [l]" 
  | k where "2 \<le> length (ls :: 'a list)" "k = split_point (length ls)" "0 < k" "k < length ls"
proof (cases "2 \<le> length ls")
  case True
  then show thesis using split_point_bounds [OF True] that(3) by blast
next
  case False
  then show thesis using that(1,2) by (cases ls rule: remdups_adj.cases) auto
qed

text \<open>The last byte string a tree hashes.\<close>

definition root_preimage :: "crypto \<Rightarrow> tree_tags \<Rightarrow> digest list \<Rightarrow> bytes" where
  "root_preimage cr tags ls = hd (tree_preimages cr tags ls)"

lemma root_preimage_simps:
  "root_preimage cr tags [] = empty_preimage tags"
  "root_preimage cr tags [l] = leaf_preimage tags l"
  "2 \<le> length ls \<Longrightarrow> k = split_point (length ls) \<Longrightarrow> root_preimage cr tags ls
     = node_preimage tags (root cr tags (take k ls)) (root cr tags (drop k ls))"
  by (simp_all add: root_preimage_def tree_preimages_simps tree_preimages_node)

lemma root_preimage_hash:
  "root cr tags ls = blake3 cr (root_preimage cr tags ls)"
  "root_preimage cr tags ls \<in> set (tree_preimages cr tags ls)"
  by (cases ls rule: tree_cases;
      simp add: root_preimage_simps tree_preimages_simps tree_preimages_node root_node tree_hashes)+

lemma root_injective:
  assumes tags: "wf_tags tags"
  shows "no_collision cr (tree_preimages cr tags xs @ tree_preimages cr tags ys) \<Longrightarrow>
    root cr tags xs = root cr tags ys \<Longrightarrow> xs = ys"
proof (induction xs arbitrary: ys rule: tree_induct)
  case Empty
  have "root_preimage cr tags [] = root_preimage cr tags ys"
    by (rule no_collisionD [OF Empty.prems(1)])
      (use Empty.prems(2) root_preimage_hash in auto)
  then show ?case using tags
    by (cases ys rule: tree_cases) (simp_all add: root_preimage_simps)
next
  case (Leaf l)
  have "root_preimage cr tags [l] = root_preimage cr tags ys"
    by (rule no_collisionD [OF Leaf.prems(1)])
      (use Leaf.prems(2) root_preimage_hash in auto)
  then show ?case using tags
    by (cases ys rule: tree_cases) (simp_all add: root_preimage_simps)
next
  case (Node xs k)
  have eq: "root_preimage cr tags xs = root_preimage cr tags ys"
    by (rule no_collisionD [OF Node.prems(1)])
      (use Node.prems(2) root_preimage_hash in auto)
  show ?case
  proof (cases ys rule: tree_cases)
    case (Node m)
    note n = Node
    from eq tags have
      "root cr tags (take k xs) = root cr tags (take m ys)"
      "root cr tags (drop k xs) = root cr tags (drop m ys)"
      by (simp_all add: root_preimage_simps(3) [OF Node.hyps(1,2)] root_preimage_simps(3) [OF n(1,2)])
    moreover have "no_collision cr (tree_preimages cr tags (take k xs) @ tree_preimages cr tags (take m ys))"
      "no_collision cr (tree_preimages cr tags (drop k xs) @ tree_preimages cr tags (drop m ys))"
      by (rule no_collision_mono [OF Node.prems(1)],
          use Node.hyps n in \<open>auto simp: tree_preimages_node\<close>)+
    ultimately have "take k xs = take m ys" "drop k xs = drop m ys"
      using Node.IH by blast+
    then show ?thesis by (metis append_take_drop_id)
  qed (use eq tags in \<open>simp_all add: root_preimage_simps(1,2) root_preimage_simps(3) [OF Node.hyps(1,2)]\<close>)
qed

lemma path_sound:
  assumes tags: "wf_tags tags"
  shows "\<lbrakk>i < length ls; map ps_side steps = expected_sides (length ls) i;
     fold (fold_step cr tags) steps (leaf_hash_with cr tags leaf) = root cr tags ls;
     no_collision cr (tree_preimages cr tags ls @ proof_preimages cr tags leaf steps)\<rbrakk>
    \<Longrightarrow> leaf = ls ! i \<and> steps = audit_path cr tags ls i"
proof (induction ls arbitrary: i steps rule: tree_induct)
  case (Leaf l)
  then have "leaf_preimage tags leaf = leaf_preimage tags l"
    by (intro no_collisionD [OF Leaf.prems(4)]) (auto simp: tree_preimages_simps proof_preimages_def tree_hashes)
  with Leaf tags show ?case by simp
next
  case (Node ls k)
  define far where "far = (if i < k then Right else Left)"
  define near_ls where "near_ls = (if i < k then take k ls else drop k ls)"
  define j where "j = (if i < k then i else i - k)"
  have "map ps_side steps = expected_sides (length near_ls) j @ [far]"
    using Node.prems(2) Node.hyps by (simp add: expected_sides_node far_def near_ls_def j_def)
  then obtain ss s where steps: "steps = ss @ [s]" "map ps_side ss = expected_sides (length near_ls) j"
      "ps_side s = far"
    by (auto simp: map_eq_append_conv)
  define run where "run = fold (fold_step cr tags) ss (leaf_hash_with cr tags leaf)"
  define last_pre where "last_pre = (case far of Left \<Rightarrow> node_preimage tags (ps_hash s) run
      | Right \<Rightarrow> node_preimage tags run (ps_hash s))"
  have "fold_step cr tags s run = root cr tags ls"
    using Node.prems(3) steps(1) by (simp add: run_def)
  then have hash_eq: "blake3 cr last_pre = blake3 cr (root_preimage cr tags ls)"
    unfolding root_preimage_hash(1) [symmetric] fold_step_def last_pre_def steps(3)
    by (cases far) (simp_all add: node_hash_preimage)
  have "last_pre = root_preimage cr tags ls"
    by (rule no_collisionD [OF Node.prems(4) _ _ hash_eq])
      (use root_preimage_hash steps in \<open>auto simp: proof_preimages_def last_pre_def run_def split: side.split\<close>)
  then have run: "run = root cr tags near_ls"
    and sib: "ps_hash s = root cr tags (if i < k then drop k ls else take k ls)"
    using tags by (auto simp: last_pre_def far_def near_ls_def root_preimage_simps(3) [OF Node.hyps(1,2)]
        split: if_splits)
  have nc: "no_collision cr (tree_preimages cr tags near_ls @ proof_preimages cr tags leaf ss)"
    by (rule no_collision_mono [OF Node.prems(4)])
      (auto simp: steps proof_preimages_def near_ls_def tree_preimages_node [OF Node.hyps(1,2)])
  have "leaf = near_ls ! j \<and> ss = audit_path cr tags near_ls j"
  proof (cases "i < k")
    case True
    then show ?thesis
      using Node.IH(1) [of j ss] run nc steps Node.hyps by (simp add: run_def near_ls_def j_def)
  next
    case False
    then show ?thesis
      using Node.IH(2) [of j ss] run nc steps Node.hyps Node.prems(1) by (simp add: run_def near_ls_def j_def)
  qed
  moreover have "near_ls ! j = ls ! i"
    using Node.hyps Node.prems(1) by (simp add: near_ls_def j_def)
  moreover have "s = \<lparr>ps_side = far, ps_hash = root cr tags (if i < k then drop k ls else take k ls)\<rparr>"
    using steps(3) sib by (cases s) simp
  ultimately show ?case
    using steps(1) by (simp add: audit_path_node [OF Node.hyps(1,2)] far_def near_ls_def j_def)
qed simp

lemma honest_proof_preimages:
  "i < length ls \<Longrightarrow> set (proof_preimages cr tags (ls ! i) (audit_path cr tags ls i))
     \<subseteq> set (tree_preimages cr tags ls)"
proof (induction ls arbitrary: i rule: tree_induct)
  case (Node ls k)
  note n = audit_path_node [OF Node.hyps(1,2)] tree_preimages_node [OF Node.hyps(1,2)]
  show ?case
  proof (cases "i < k")
    case True
    then show ?thesis
      using Node.IH(1) [of i] Node.hyps(4) fold_audit_path [of i "take k ls" cr tags]
      by (auto simp: n proof_preimages_def)
  next
    case False
    then have "i - k < length (drop k ls)" "drop k ls ! (i - k) = ls ! i"
      using Node.prems Node.hyps(4) by simp_all
    with False show ?thesis
      using Node.IH(2) [of "i - k"] fold_audit_path [of "i - k" "drop k ls" cr tags]
      by (auto simp: n proof_preimages_def)
  qed
qed (simp_all add: proof_preimages_def tree_preimages_simps)

section \<open>Properties\<close>

definition sample_leaves :: "digest list" where
  "sample_leaves = [11, 22, 33]"

lemma sample_distinct_hashes:
  "distinct (map (blake3 sample_crypto) (tree_preimages sample_crypto PRUNELLA_V1 sample_leaves))"
  by code_simp

lemma sample_no_collision:
  "no_collision sample_crypto (tree_preimages sample_crypto PRUNELLA_V1 sample_leaves
     @ tree_preimages sample_crypto PRUNELLA_V1 sample_leaves)"
  "no_collision sample_crypto (tree_preimages sample_crypto PRUNELLA_V1 sample_leaves
     @ proof_preimages sample_crypto PRUNELLA_V1 22
         (audit_path sample_crypto PRUNELLA_V1 sample_leaves 1))"
proof -
  have "set (proof_preimages sample_crypto PRUNELLA_V1 22 (audit_path sample_crypto PRUNELLA_V1 sample_leaves 1))
      \<subseteq> set (tree_preimages sample_crypto PRUNELLA_V1 sample_leaves)"
    using honest_proof_preimages [of 1 sample_leaves sample_crypto PRUNELLA_V1]
    by (simp add: sample_leaves_def)
  then show "no_collision sample_crypto (tree_preimages sample_crypto PRUNELLA_V1 sample_leaves
     @ tree_preimages sample_crypto PRUNELLA_V1 sample_leaves)"
    "no_collision sample_crypto (tree_preimages sample_crypto PRUNELLA_V1 sample_leaves
     @ proof_preimages sample_crypto PRUNELLA_V1 22
         (audit_path sample_crypto PRUNELLA_V1 sample_leaves 1))"
    by (auto intro!: no_collision_mono [OF no_collision_distinct [OF sample_distinct_hashes]])
qed

text \<open>
  C3: Every leaf of every tree has a proof, and the proof verifies against the root: for any
  domains, any list of fewer than \<open>2 ^ 32\<close> leaves and any position in it, \<open>generate_with\<close>
  returns a proof whose path has the sides the shape of the tree requires and folds to the root.
\<close>

theorem inclusion_complete:
  assumes "index < length leaves" and "fits_u32 leaves"
  shows "\<exists>p. generate_with cr tags leaves index = Some p \<and>
    verify_with cr p tags (leaves ! index) (word_of_nat (length leaves)) (root cr tags leaves) = Ok ()"
proof -
  let ?i = "word_of_nat index :: u32"
  let ?p = "\<lparr>ip_index = ?i, ip_steps = audit_path cr tags leaves index\<rparr>"
  have fits: "index < 2 ^ 32" "length leaves < 2 ^ 32"
    using assms by (simp_all add: fits_u32_def)
  then have u: "unat ?i = index" "unat (word_of_nat (length leaves) :: u32) = length leaves"
    by (simp_all add: unat_of_nat take_bit_nat_eq_self)
  have "generate_with cr tags leaves index = Some ?p"
    using assms(1) fits(1) by (simp add: generate_with_def try_from_nat_def Let_def)
  moreover have "verify_with cr ?p tags (leaves ! index) (word_of_nat (length leaves)) (root cr tags leaves) = Ok ()"
    using assms(1) u fold_audit_path [OF assms(1)]
    by (simp add: verify_with_def Let_def audit_path_sides word_le_nat_alt)
  ultimately show ?thesis by blast
qed

theorem inclusion_complete_witness:
  "\<exists>p. generate_with sample_crypto PRUNELLA_V1 sample_leaves 2 = Some p \<and>
    verify_with sample_crypto p PRUNELLA_V1 33 3 (root sample_crypto PRUNELLA_V1 sample_leaves) = Ok ()"
  using inclusion_complete [of 2 sample_leaves sample_crypto PRUNELLA_V1]
  by (simp add: sample_leaves_def fits_u32_def)

lemma verify_with_OkD:
  assumes "verify_with cr p tags leaf cnt r = Ok ()"
  shows "unat (ip_index p) < unat cnt"
    "map ps_side (ip_steps p) = expected_sides (unat cnt) (unat (ip_index p))"
    "fold (fold_step cr tags) (ip_steps p) (leaf_hash_with cr tags leaf) = r"
  using assms by (auto simp: verify_with_def Let_def word_le_nat_alt split: if_splits)

text \<open>
  C4: A proof proves what it claims. If a proof verifies against the root of a list of leaves,
  then, unless BLAKE3 collides on the byte strings that the tree and the verification hash, the
  claimed leaf is the one at the claimed index and the proof is the one \<open>generate_with\<close> builds.
\<close>

theorem inclusion_sound:
  assumes "verify_with cr p tags leaf (word_of_nat (length leaves)) (root cr tags leaves) = Ok ()"
    and "wf_tags tags" and "fits_u32 leaves"
    and "no_collision cr (tree_preimages cr tags leaves @ proof_preimages cr tags leaf (ip_steps p))"
  shows "unat (ip_index p) < length leaves \<and> leaf = leaves ! unat (ip_index p)
    \<and> generate_with cr tags leaves (unat (ip_index p)) = Some p"
proof -
  have u: "unat (word_of_nat (length leaves) :: u32) = length leaves"
    using assms(3) by (simp add: fits_u32_def unat_of_nat take_bit_nat_eq_self)
  note v = verify_with_OkD [OF assms(1), unfolded u]
  have "leaf = leaves ! unat (ip_index p) \<and> ip_steps p = audit_path cr tags leaves (unat (ip_index p))"
    by (rule path_sound [OF assms(2) v assms(4)])
  moreover have "try_from_nat (unat (ip_index p)) = Some (ip_index p)"
    by (simp add: word_nat)
  ultimately show ?thesis using v(1) by (simp add: generate_with_def Let_def)
qed

theorem inclusion_sound_witness:
  "\<exists>p. verify_with sample_crypto p PRUNELLA_V1 22 3 (root sample_crypto PRUNELLA_V1 sample_leaves) = Ok ()
    \<and> 22 = sample_leaves ! unat (ip_index p)"
proof -
  let ?p = "\<lparr>ip_index = 1, ip_steps = audit_path sample_crypto PRUNELLA_V1 sample_leaves 1\<rparr>"
  have "verify_with sample_crypto ?p PRUNELLA_V1 22 (word_of_nat (length sample_leaves))
      (root sample_crypto PRUNELLA_V1 sample_leaves) = Ok ()"
    by code_simp
  from inclusion_sound [OF this wf_PRUNELLA_V1] this sample_no_collision(2) show ?thesis
    by (intro exI [of _ ?p]) (simp add: sample_leaves_def fits_u32_def)
qed

text \<open>
  A proof with an altered index is rejected by its shape, before its hashes are compared: the
  sides of a path determine the index, so a proof that verifies at one index of a tree is
  answered with \<open>WrongShape\<close> at every other index of it, whatever the leaf and the root.
\<close>

theorem altered_index_rejected:
  assumes "verify_with cr p tags leaf cnt r = Ok ()" and "i < cnt" and "i \<noteq> ip_index p"
  shows "\<exists>n expected m found. verify_with cr (p\<lparr>ip_index := i\<rparr>) tags leaf' cnt r'
    = Err (WrongShape i cnt n expected m found)"
proof -
  note v = verify_with_OkD [OF assms(1)]
  have "unat i < unat cnt" using assms(2) by (simp add: word_less_nat_alt)
  moreover have "unat i \<noteq> unat (ip_index p)" using assms(3) by (simp add: word_unat_eq_iff)
  ultimately have "expected_sides (unat cnt) (unat i) \<noteq> map ps_side (ip_steps p)"
    unfolding v(2) using expected_sides_inj v(1) by blast
  then show ?thesis using assms(2) by (simp add: verify_with_def Let_def not_le)
qed

theorem altered_index_rejected_witness:
  "\<exists>p n expected m found.
    verify_with sample_crypto p PRUNELLA_V1 22 3 (root sample_crypto PRUNELLA_V1 sample_leaves) = Ok ()
    \<and> verify_with sample_crypto (p\<lparr>ip_index := 2\<rparr>) PRUNELLA_V1 33 3 0
        = Err (WrongShape 2 3 n expected m found)"
proof -
  let ?p = "\<lparr>ip_index = 1, ip_steps = audit_path sample_crypto PRUNELLA_V1 sample_leaves 1\<rparr>"
  have ok: "verify_with sample_crypto ?p PRUNELLA_V1 22 3
      (root sample_crypto PRUNELLA_V1 sample_leaves) = Ok ()"
    by code_simp
  show ?thesis
    using ok altered_index_rejected [OF ok, of 2 33 0] by (intro exI [of _ ?p]) simp
qed

text \<open>
  C5: A root commits to the whole list: two lists of leaves with the same root under the same
  domains are equal, length and order included, unless BLAKE3 collides on what the two trees hash.
  In particular repeating the last leaf changes the root.
\<close>

theorem root_commits:
  assumes "wf_tags tags" and "root cr tags xs = root cr tags ys"
    and "no_collision cr (tree_preimages cr tags xs @ tree_preimages cr tags ys)"
  shows "xs = ys"
  by (rule root_injective [OF assms(1,3,2)])

theorem root_commits_witness:
  "root sample_crypto PRUNELLA_V1 sample_leaves = root sample_crypto PRUNELLA_V1 [11, 22, 33]
    \<and> sample_leaves = [11, 22, 33]"
proof -
  have r: "root sample_crypto PRUNELLA_V1 sample_leaves = root sample_crypto PRUNELLA_V1 [11, 22, 33]"
    by (simp add: sample_leaves_def)
  show ?thesis
    using root_commits [OF wf_PRUNELLA_V1 r] sample_no_collision(1) r by (simp add: sample_leaves_def)
qed

end
