(* ===== verification/Prunella_Core.thy ===== *)
theory Prunella_Core
  imports Prunella_Merkle
begin

text \<open>
  \<open>crates/prunella-core\<close> (labels, heights, hex text, transactions, blocks, drafts, genesis) and
  \<open>crates/prunella-crypto\<close> (signing and verification). Each struct has its encoder, an instance of
  the interface \<open>prefix_code\<close>; the hashes derived from the encodings commit to the values.
\<close>

type_synonym hash = digest
type_synonym tx_id = digest
type_synonym public_key = digest
type_synonym schema_version = u32
type_synonym block_height = u64

section \<open>Labels\<close>

datatype label_rejection = LabelEmpty | LabelTooLong | BadFirstCharacter | BadCharacter

text \<open>Why a hex text was refused: a character outside \<open>0-9a-f\<close>, or the decoder's own reason.\<close>

datatype hex_fault = OffendingCharacter char | DecoderFault

datatype prunella_error =
    InvalidNetworkId string label_rejection
  | InvalidNamespace string label_rejection
  | TooManyTransactions nat u32
  | HexLength string nat nat
  | HexDigits string hex_fault
  | HeightOverflow u64

definition MAX_LABEL_LEN :: nat where
  "MAX_LABEL_LEN = 64"

definition validate_label :: "string \<Rightarrow> (label_rejection, unit) result" where
  "validate_label value =
     (case value of
        [] \<Rightarrow> Err LabelEmpty
      | first # rest \<Rightarrow>
          if MAX_LABEL_LEN < length value then Err LabelTooLong
          else if \<not> is_ascii_lowercase first \<and> \<not> is_ascii_digit first then Err BadFirstCharacter
          else if \<not> list_all (\<lambda>c. is_ascii_lowercase c \<or> is_ascii_digit c \<or> c \<in> set ''._-'') rest
          then Err BadCharacter
          else Ok ())"

datatype network_id = NetworkId (network_id_str: string)
datatype namespace = Namespace (namespace_str: string)

definition network_id_new :: "string \<Rightarrow> (prunella_error, network_id) result" where
  "network_id_new value = rbind (rmap_err (InvalidNetworkId value) (validate_label value))
     (\<lambda>_. Ok (NetworkId value))"

definition namespace_new :: "string \<Rightarrow> (prunella_error, namespace) result" where
  "namespace_new value = rbind (rmap_err (InvalidNamespace value) (validate_label value))
     (\<lambda>_. Ok (Namespace value))"

definition wf_label :: "string \<Rightarrow> bool" where
  "wf_label s \<longleftrightarrow> validate_label s = Ok ()"

lemma wf_label_fits: "wf_label s \<Longrightarrow> fits_u32 s"
  by (auto simp: wf_label_def validate_label_def fits_u32_def MAX_LABEL_LEN_def
      split: list.splits if_splits)

section \<open>Heights and heads\<close>

definition GENESIS :: block_height where
  "GENESIS = 0"

definition height_next :: "block_height \<Rightarrow> (prunella_error, block_height) result" where
  "height_next h = ok_or (HeightOverflow h) (checked_add h 1)"

definition is_genesis :: "block_height \<Rightarrow> bool" where
  "is_genesis h \<longleftrightarrow> h = 0"

lemma height_next_Ok_iff: "height_next h = Ok k \<longleftrightarrow> unat k = unat h + 1"
  by (auto simp: height_next_def result_simps word_nat)

record chain_head =
  head_height :: block_height
  head_hash :: hash

definition block_count :: "chain_head \<Rightarrow> ('e, u64) result" where
  "block_count h = padd (head_height h) 1"

section \<open>Hex text\<close>

definition hex_digit :: "nat \<Rightarrow> char" where
  "hex_digit n = ''0123456789abcdef'' ! n"

definition hex_byte :: "u8 \<Rightarrow> string" where
  "hex_byte b = [hex_digit (unat b div 16), hex_digit (unat b mod 16)]"

definition to_hex :: "nat \<Rightarrow> 'l::len word \<Rightarrow> string" where
  "to_hex n w = concat (map hex_byte (array_bytes n w))"

definition is_hex_char :: "char \<Rightarrow> bool" where
  "is_hex_char c \<longleftrightarrow> is_ascii_digit c \<or> CHR ''a'' \<le> c \<and> c \<le> CHR ''f''"

text \<open>\<open>hexd\<close> is the third-party \<open>hex::decode_to_slice\<close>.\<close>

definition hex_bytes ::
    "(string \<Rightarrow> bytes option) \<Rightarrow> nat \<Rightarrow> string \<Rightarrow> string \<Rightarrow> (prunella_error, bytes) result" where
  "hex_bytes hexd n kind txt =
     (if length txt \<noteq> n * 2 then Err (HexLength kind (n * 2) (length txt))
      else case List.find (\<lambda>c. \<not> is_hex_char c) txt of
        Some c \<Rightarrow> Err (HexDigits kind (OffendingCharacter c))
      | None \<Rightarrow> ok_or (HexDigits kind DecoderFault) (hexd txt))"

definition hash_from_hex :: "(string \<Rightarrow> bytes option) \<Rightarrow> string \<Rightarrow> (prunella_error, hash) result" where
  "hash_from_hex hexd txt = rbind (hex_bytes hexd 32 ''hash'' txt) (\<lambda>b. Ok (word_rcat b))"

definition public_key_from_hex :: "(string \<Rightarrow> bytes option) \<Rightarrow> string \<Rightarrow> (prunella_error, public_key) result" where
  "public_key_from_hex hexd txt = rbind (hex_bytes hexd 32 ''public key'' txt) (\<lambda>b. Ok (word_rcat b))"

definition signature_from_hex :: "(string \<Rightarrow> bytes option) \<Rightarrow> string \<Rightarrow> (prunella_error, signature) result" where
  "signature_from_hex hexd txt = rbind (hex_bytes hexd 64 ''signature'' txt) (\<lambda>b. Ok (word_rcat b))"

section \<open>Transactions\<close>

record transaction =
  t_id :: tx_id
  t_namespace :: namespace
  t_schema_version :: schema_version
  t_payload :: bytes
  t_signer :: public_key
  t_nonce :: u64
  t_signature :: signature

record transaction_draft =
  d_namespace :: namespace
  d_schema_version :: schema_version
  d_payload :: bytes
  d_signer :: public_key
  d_nonce :: u64

record tx_signing_body =
  sb_namespace :: namespace
  sb_schema_version :: schema_version
  sb_payload :: bytes
  sb_signer :: public_key
  sb_nonce :: u64

record tx_id_body =
  ib_namespace :: namespace
  ib_schema_version :: schema_version
  ib_payload :: bytes
  ib_signer :: public_key
  ib_nonce :: u64
  ib_signature :: signature

definition enc_signing_body :: "tx_signing_body \<Rightarrow> bytes" where
  "enc_signing_body b = enc_string (namespace_str (sb_namespace b)) @ enc_u32 (sb_schema_version b)
     @ enc_bytes (sb_payload b) @ digest_bytes (sb_signer b) @ enc_u64 (sb_nonce b)"

definition enc_id_body :: "tx_id_body \<Rightarrow> bytes" where
  "enc_id_body b = enc_string (namespace_str (ib_namespace b)) @ enc_u32 (ib_schema_version b)
     @ enc_bytes (ib_payload b) @ digest_bytes (ib_signer b) @ enc_u64 (ib_nonce b)
     @ signature_bytes (ib_signature b)"

definition enc_transaction :: "transaction \<Rightarrow> bytes" where
  "enc_transaction t = digest_bytes (t_id t) @ enc_string (namespace_str (t_namespace t))
     @ enc_u32 (t_schema_version t) @ enc_bytes (t_payload t) @ digest_bytes (t_signer t)
     @ enc_u64 (t_nonce t) @ signature_bytes (t_signature t)"

definition body_signing_message :: "crypto \<Rightarrow> tx_signing_body \<Rightarrow> digest" where
  "body_signing_message cr b = hash_canonical cr enc_signing_body TX_SIGN b"

definition signing_body :: "transaction \<Rightarrow> tx_signing_body" where
  "signing_body t = \<lparr>sb_namespace = t_namespace t, sb_schema_version = t_schema_version t,
     sb_payload = t_payload t, sb_signer = t_signer t, sb_nonce = t_nonce t\<rparr>"

definition id_body :: "transaction \<Rightarrow> tx_id_body" where
  "id_body t = \<lparr>ib_namespace = t_namespace t, ib_schema_version = t_schema_version t,
     ib_payload = t_payload t, ib_signer = t_signer t, ib_nonce = t_nonce t,
     ib_signature = t_signature t\<rparr>"

definition signing_message :: "crypto \<Rightarrow> transaction \<Rightarrow> digest" where
  "signing_message cr t = body_signing_message cr (signing_body t)"

definition signing_preimage :: "transaction \<Rightarrow> bytes" where
  "signing_preimage t = enc_signing_body (signing_body t)"

definition id_preimage :: "transaction \<Rightarrow> bytes" where
  "id_preimage t = enc_id_body (id_body t)"

definition compute_id :: "crypto \<Rightarrow> transaction \<Rightarrow> tx_id" where
  "compute_id cr t = hash_canonical cr enc_id_body TX_ID (id_body t)"

definition has_consistent_id :: "crypto \<Rightarrow> transaction \<Rightarrow> bool" where
  "has_consistent_id cr t \<longleftrightarrow> t_id t = compute_id cr t"

definition compute_root :: "crypto \<Rightarrow> transaction list \<Rightarrow> (prunella_error, hash) result" where
  "compute_root cr ts =
     (case try_from_nat (length ts) :: u32 option of
        None \<Rightarrow> Err (TooManyTransactions (length ts) (- 1))
      | Some _ \<Rightarrow> Ok (merkle_root cr (map t_id ts)))"

definition draft_signing_message :: "crypto \<Rightarrow> transaction_draft \<Rightarrow> digest" where
  "draft_signing_message cr d = body_signing_message cr
     \<lparr>sb_namespace = d_namespace d, sb_schema_version = d_schema_version d,
      sb_payload = d_payload d, sb_signer = d_signer d, sb_nonce = d_nonce d\<rparr>"

definition into_transaction :: "crypto \<Rightarrow> transaction_draft \<Rightarrow> signature \<Rightarrow> transaction" where
  "into_transaction cr d s =
     (let t = \<lparr>t_id = 0, t_namespace = d_namespace d, t_schema_version = d_schema_version d,
        t_payload = d_payload d, t_signer = d_signer d, t_nonce = d_nonce d, t_signature = s\<rparr>
      in t\<lparr>t_id := compute_id cr t\<rparr>)"

section \<open>Signatures\<close>

datatype crypto_error = MalformedPublicKey public_key | SignatureMismatch public_key

definition verify_signature ::
    "crypto \<Rightarrow> public_key \<Rightarrow> bytes \<Rightarrow> signature \<Rightarrow> (crypto_error, unit) result" where
  "verify_signature cr key message s =
     (if \<not> is_point cr key then Err (MalformedPublicKey key)
      else if \<not> ed_verify_strict cr key message s then Err (SignatureMismatch key)
      else Ok ())"

definition verify_transaction :: "crypto \<Rightarrow> transaction \<Rightarrow> (crypto_error, unit) result" where
  "verify_transaction cr t =
     verify_signature cr (t_signer t) (digest_bytes (signing_message cr t)) (t_signature t)"

text \<open>A signing key is its seed.\<close>

definition sign_transaction :: "crypto \<Rightarrow> digest \<Rightarrow> transaction_draft \<Rightarrow> transaction" where
  "sign_transaction cr seed draft =
     (let d = draft\<lparr>d_signer := ed_public cr seed\<rparr>;
          s = ed_sign cr seed (digest_bytes (draft_signing_message cr d))
      in into_transaction cr d s)"

section \<open>Blocks\<close>

definition HEADER_VERSION :: u16 where
  "HEADER_VERSION = 1"

record block_header =
  h_version :: u16
  h_network_id :: network_id
  h_height :: block_height
  h_previous_hash :: hash
  h_tx_root :: hash
  h_tx_count :: u32
  h_timestamp_millis :: u64

record block =
  b_header :: block_header
  b_transactions :: "transaction list"

definition enc_header :: "block_header \<Rightarrow> bytes" where
  "enc_header h = enc_u16 (h_version h) @ enc_string (network_id_str (h_network_id h))
     @ enc_u64 (h_height h) @ digest_bytes (h_previous_hash h) @ digest_bytes (h_tx_root h)
     @ enc_u32 (h_tx_count h) @ enc_u64 (h_timestamp_millis h)"

definition enc_block :: "block \<Rightarrow> bytes" where
  "enc_block b = enc_header (b_header b) @ enc_vec enc_transaction (b_transactions b)"

definition header_hash :: "crypto \<Rightarrow> block_header \<Rightarrow> hash" where
  "header_hash cr h = hash_canonical cr enc_header BLOCK_HEADER h"

definition block_hash :: "crypto \<Rightarrow> block \<Rightarrow> hash" where
  "block_hash cr b = header_hash cr (b_header b)"

definition block_height :: "block \<Rightarrow> block_height" where
  "block_height b = h_height (b_header b)"

definition block_inclusion_proof :: "crypto \<Rightarrow> block \<Rightarrow> nat \<Rightarrow> inclusion_proof option" where
  "block_inclusion_proof cr b index = generate cr (map t_id (b_transactions b)) index"

definition verify_against ::
    "crypto \<Rightarrow> inclusion_proof \<Rightarrow> tx_id \<Rightarrow> block_header \<Rightarrow> (proof_error, unit) result" where
  "verify_against cr p i h = verify_proof cr p i (h_tx_count h) (h_tx_root h)"

record block_draft =
  bd_network_id :: network_id
  bd_height :: block_height
  bd_previous_hash :: hash
  bd_timestamp_millis :: u64
  bd_transactions :: "transaction list"

definition child_draft ::
    "crypto \<Rightarrow> block_header \<Rightarrow> transaction list \<Rightarrow> u64 \<Rightarrow> (prunella_error, block_draft) result" where
  "child_draft cr h ts ms =
     rbind (height_next (h_height h)) (\<lambda>next.
     Ok \<lparr>bd_network_id = h_network_id h, bd_height = next, bd_previous_hash = header_hash cr h,
         bd_timestamp_millis = ms, bd_transactions = ts\<rparr>)"

definition draft_build :: "crypto \<Rightarrow> block_draft \<Rightarrow> (prunella_error, block) result" where
  "draft_build cr d =
     rbind (ok_or (TooManyTransactions (length (bd_transactions d)) (- 1))
              (try_from_nat (length (bd_transactions d)))) (\<lambda>n.
     rbind (compute_root cr (bd_transactions d)) (\<lambda>r.
     Ok \<lparr>b_header = \<lparr>h_version = HEADER_VERSION, h_network_id = bd_network_id d,
            h_height = bd_height d, h_previous_hash = bd_previous_hash d, h_tx_root = r,
            h_tx_count = n, h_timestamp_millis = bd_timestamp_millis d\<rparr>,
         b_transactions = bd_transactions d\<rparr>))"

record genesis_spec =
  gs_network_id :: network_id
  gs_timestamp_millis :: u64
  gs_transactions :: "transaction list"

definition genesis_new :: "network_id \<Rightarrow> genesis_spec" where
  "genesis_new n = \<lparr>gs_network_id = n, gs_timestamp_millis = 0, gs_transactions = []\<rparr>"

definition genesis_build :: "crypto \<Rightarrow> genesis_spec \<Rightarrow> (prunella_error, block) result" where
  "genesis_build cr g = draft_build cr
     \<lparr>bd_network_id = gs_network_id g, bd_height = GENESIS, bd_previous_hash = 0,
      bd_timestamp_millis = gs_timestamp_millis g, bd_transactions = gs_transactions g\<rparr>"

section \<open>Well-formed values\<close>

text \<open>
  The values the encoding is defined for: strings are UTF-8, and a payload or a transaction list
  of \<open>2 ^ 32\<close> elements or more has no canonical encoding. A label is a string, but the derived
  decoder of \<open>NetworkId\<close> and \<open>Namespace\<close> reads any string, label or not.
\<close>

definition wf_transaction :: "transaction \<Rightarrow> bool" where
  [wf_defs]: "wf_transaction t \<longleftrightarrow> is_string (namespace_str (t_namespace t)) \<and> fits_u32 (t_payload t)"

definition wf_header :: "block_header \<Rightarrow> bool" where
  [wf_defs]: "wf_header h \<longleftrightarrow> is_string (network_id_str (h_network_id h))"

definition wf_block :: "block \<Rightarrow> bool" where
  [wf_defs]: "wf_block b \<longleftrightarrow> wf_header (b_header b) \<and> fits_u32 (b_transactions b)
     \<and> (\<forall>t \<in> set (b_transactions b). wf_transaction t)"

definition wf_signing_body :: "tx_signing_body \<Rightarrow> bool" where
  [wf_defs]: "wf_signing_body b \<longleftrightarrow> is_string (namespace_str (sb_namespace b)) \<and> fits_u32 (sb_payload b)"

definition wf_id_body :: "tx_id_body \<Rightarrow> bool" where
  [wf_defs]: "wf_id_body b \<longleftrightarrow> is_string (namespace_str (ib_namespace b)) \<and> fits_u32 (ib_payload b)"

interpretation signing_body_code: prefix_code enc_signing_body wf_signing_body
proof
  fix x y r s
  assume "wf_signing_body x" "wf_signing_body y" "enc_signing_body x @ r = enc_signing_body y @ s"
  then show "x = y \<and> r = s"
    by (cases x; cases y)
      (auto simp: enc_signing_body_def wf_signing_body_def namespace.expand
        dest!: is_string_fits split_fields)
qed

interpretation id_body_code: prefix_code enc_id_body wf_id_body
proof
  fix x y r s
  assume "wf_id_body x" "wf_id_body y" "enc_id_body x @ r = enc_id_body y @ s"
  then show "x = y \<and> r = s"
    by (cases x; cases y)
      (auto simp: enc_id_body_def wf_id_body_def namespace.expand dest!: is_string_fits split_fields)
qed

interpretation transaction_code: prefix_code enc_transaction wf_transaction
proof
  fix x y r s
  assume "wf_transaction x" "wf_transaction y" "enc_transaction x @ r = enc_transaction y @ s"
  then show "x = y \<and> r = s"
    by (cases x; cases y)
      (auto simp: enc_transaction_def wf_transaction_def namespace.expand dest!: is_string_fits split_fields)
qed

interpretation header_code: prefix_code enc_header wf_header
proof
  fix x y r s
  assume "wf_header x" "wf_header y" "enc_header x @ r = enc_header y @ s"
  then show "x = y \<and> r = s"
    by (cases x; cases y)
      (auto simp: enc_header_def wf_header_def network_id.expand dest!: is_string_fits split_fields)
qed

interpretation block_code: prefix_code enc_block wf_block
proof
  fix x y r s
  assume wf: "wf_block x" "wf_block y" and eq: "enc_block x @ r = enc_block y @ s"
  then have "b_header x = b_header y \<and>
      enc_vec enc_transaction (b_transactions x) @ r = enc_vec enc_transaction (b_transactions y) @ s"
    by (intro header_code.split_unique) (simp_all add: enc_block_def wf_block_def)
  moreover from this have "b_transactions x = b_transactions y \<and> r = s"
    using wf by (intro transaction_code.vec_unique) (simp_all add: wf_block_def)
  ultimately show "x = y \<and> r = s" by simp
qed

section \<open>What the derived hashes commit to\<close>

definition id_hash_preimage :: "transaction \<Rightarrow> bytes" where
  "id_hash_preimage t = preimage TX_ID (id_preimage t)"

definition header_preimage :: "block_header \<Rightarrow> bytes" where
  "header_preimage h = preimage BLOCK_HEADER (enc_header h)"

lemma compute_id_preimage: "compute_id cr t = blake3 cr (id_hash_preimage t)"
  by (simp add: compute_id_def hash_canonical_def hash_domain_preimage id_hash_preimage_def id_preimage_def)

lemma header_hash_preimage: "header_hash cr h = blake3 cr (header_preimage h)"
  by (simp add: header_hash_def hash_canonical_def hash_domain_preimage header_preimage_def)

lemma domain_tag_fits [simp]: "fits_u32 TX_ID" "fits_u32 BLOCK_HEADER"
  by (simp_all add: domain_tags fits_u32_def)

lemma wf_id_body: "wf_transaction t \<Longrightarrow> wf_id_body (id_body t)"
  by (simp add: wf_transaction_def wf_id_body_def id_body_def)

lemma id_hash_preimage_inj:
  assumes "wf_transaction t" and "wf_transaction u"
  shows "id_hash_preimage t = id_hash_preimage u \<longleftrightarrow> t\<lparr>t_id := 0\<rparr> = u\<lparr>t_id := 0\<rparr>"
proof -
  have "id_hash_preimage t = id_hash_preimage u \<longleftrightarrow> id_body t = id_body u"
    using id_body_code.enc_inj [OF wf_id_body [OF assms(1)] wf_id_body [OF assms(2)]]
    by (simp add: id_hash_preimage_def preimage_eq_iff id_preimage_def)
  then show ?thesis by (cases t; cases u) (auto simp: id_body_def)
qed

lemma header_preimage_inj:
  "wf_header h \<Longrightarrow> wf_header k \<Longrightarrow> header_preimage h = header_preimage k \<longleftrightarrow> h = k"
  by (simp add: header_preimage_def preimage_eq_iff header_code.enc_inj)

lemma compute_root_Ok_iff:
  "compute_root cr ts = Ok r \<longleftrightarrow> fits_u32 ts \<and> r = merkle_root cr (map t_id ts)"
  by (auto simp: compute_root_def fits_u32_def try_from_nat_def)

lemma draft_build_Ok_iff:
  "draft_build cr d = Ok b \<longleftrightarrow> fits_u32 (bd_transactions d) \<and>
     b = \<lparr>b_header = \<lparr>h_version = HEADER_VERSION, h_network_id = bd_network_id d,
            h_height = bd_height d, h_previous_hash = bd_previous_hash d,
            h_tx_root = merkle_root cr (map t_id (bd_transactions d)),
            h_tx_count = word_of_nat (length (bd_transactions d)),
            h_timestamp_millis = bd_timestamp_millis d\<rparr>,
          b_transactions = bd_transactions d\<rparr>"
  by (auto simp: draft_build_def result_simps compute_root_Ok_iff try_from_nat_def fits_u32_def)

lemma draft_build_no_Panic [simp]: "draft_build cr d \<noteq> Panic"
  by (auto simp: draft_build_def result_simps compute_root_def split: option.splits)

section \<open>Hex text is canonical\<close>

lemma hex_chars: "\<forall>c. is_hex_char c \<longleftrightarrow> c \<in> set ''0123456789abcdef''"
  by code_simp

lemma hex_digit_range: "is_hex_char c \<longleftrightarrow> (\<exists>n < 16. c = hex_digit n)"
proof -
  have "length ''0123456789abcdef'' = 16" by simp
  then show ?thesis
    unfolding hex_chars [rule_format] in_set_conv_nth hex_digit_def by metis
qed

lemma hex_byte_surj:
  assumes "is_hex_char c" and "is_hex_char d"
  shows "\<exists>b. hex_byte b = [c, d]"
proof -
  obtain m n where "m < 16" "n < 16" "c = hex_digit m" "d = hex_digit n"
    using assms by (auto simp: hex_digit_range)
  moreover from this have "unat (word_of_nat (m * 16 + n) :: u8) = m * 16 + n"
    by (simp only: unat_of_nat) (simp add: take_bit_nat_eq_self)
  ultimately have "hex_byte (word_of_nat (m * 16 + n)) = [c, d]"
    by (simp only: hex_byte_def) simp
  then show ?thesis by blast
qed

lemma hex_text_bytes:
  "length s = n * 2 \<Longrightarrow> list_all is_hex_char s \<Longrightarrow> \<exists>bs. length bs = n \<and> s = concat (map hex_byte bs)"
proof (induction n arbitrary: s)
  case (Suc n)
  then obtain c d r where s: "s = c # d # r" "length r = n * 2" by (auto simp: length_Suc_conv)
  with Suc obtain bs where "length bs = n" "r = concat (map hex_byte bs)" by auto
  moreover obtain b where "hex_byte b = [c, d]" using hex_byte_surj Suc.prems(2) s(1) by auto
  ultimately show ?case using s(1) by (intro exI [of _ "b # bs"]) simp
qed simp

lemma hex_bytes_chars: "list_all is_hex_char (concat (map hex_byte bs))" "length (concat (map hex_byte bs)) = length bs * 2"
proof -
  have "is_hex_char (hex_digit n)" if "n < 16" for n using that hex_digit_range by blast
  moreover have "unat b div 16 < 16" "unat b mod 16 < 16" for b :: u8 using unat_bound [of b] by simp_all
  ultimately have "list_all is_hex_char (hex_byte b)" for b by (simp add: hex_byte_def)
  then show "list_all is_hex_char (concat (map hex_byte bs))" by (induction bs) simp_all
qed (induction bs, simp_all add: hex_byte_def)

text \<open>What \<open>hex::decode_to_slice\<close> documents: it reads back the lowercase rendering of any bytes.\<close>

definition hex_decodes :: "(string \<Rightarrow> bytes option) \<Rightarrow> bool" where
  "hex_decodes hexd \<longleftrightarrow> (\<forall>bs. hexd (concat (map hex_byte bs)) = Some bs)"

lemma hash_from_hex_Ok_iff:
  assumes "hex_decodes hexd"
  shows "hash_from_hex hexd txt = Ok h \<longleftrightarrow> txt = to_hex 32 h"
proof
  assume "hash_from_hex hexd txt = Ok h"
  then obtain b where len: "length txt = 32 * 2" and none: "List.find (\<lambda>c. \<not> is_hex_char c) txt = None"
    and b: "hexd txt = Some b" and h: "h = word_rcat b"
    by (auto simp: hash_from_hex_def hex_bytes_def result_simps split: if_splits option.splits)
  from none have "list_all is_hex_char txt" by (simp add: find_None_iff list_all_iff)
  with len obtain bs where bs: "length bs = 32" "txt = concat (map hex_byte bs)"
    using hex_text_bytes by blast
  with b assms have "b = bs" by (simp add: hex_decodes_def)
  with bs h show "txt = to_hex 32 h" by (simp add: to_hex_def array_bytes_word_rcat)
next
  assume "txt = to_hex 32 h"
  moreover have "List.find (\<lambda>c. \<not> is_hex_char c) (to_hex 32 h) = None"
    using hex_bytes_chars(1) [of "digest_bytes h"] by (auto simp: find_None_iff to_hex_def list_all_iff)
  ultimately show "hash_from_hex hexd txt = Ok h"
    using assms hex_bytes_chars(2) [of "digest_bytes h"]
    by (simp add: hash_from_hex_def hex_bytes_def to_hex_def hex_decodes_def word_rcat_array_bytes)
qed

text \<open>A decoder for the witness.\<close>

fun sample_hex_value :: "char \<Rightarrow> nat" where
  "sample_hex_value c = length (takeWhile (\<lambda>d. d \<noteq> c) ''0123456789abcdef'')"

fun sample_hexd :: "string \<Rightarrow> bytes option" where
  "sample_hexd (c # d # r) =
     map_option (\<lambda>bs. word_of_nat (sample_hex_value c * 16 + sample_hex_value d) # bs) (sample_hexd r)"
| "sample_hexd [] = Some []"
| "sample_hexd _ = None"

lemma sample_hex_value_digit: "n < 16 \<Longrightarrow> sample_hex_value (hex_digit n) = n"
proof -
  have "\<forall>n \<in> set [0..<16]. sample_hex_value (hex_digit n) = n" by code_simp
  then show "n < 16 \<Longrightarrow> sample_hex_value (hex_digit n) = n" by simp
qed

lemma sample_hex_decodes: "hex_decodes sample_hexd"
proof -
  have "word_of_nat (unat b div 16 * 16 + unat b mod 16) = b" for b :: u8
    by (simp only: div_mult_mod_eq) simp
  moreover have "unat b div 16 < 16" "unat b mod 16 < 16" for b :: u8 using unat_bound [of b] by simp_all
  ultimately have "sample_hexd (concat (map hex_byte bs)) = Some bs" for bs
    by (induction bs)
      (simp_all only: list.map concat.simps hex_byte_def append.simps sample_hexd.simps
        sample_hex_value_digit option.map)
  then show ?thesis by (simp add: hex_decodes_def)
qed
text \<open>
  Hex text is canonical: \<open>Hash::from_hex\<close> accepts a text as the hash \<open>h\<close> exactly when it is the
  64 lowercase characters that \<open>to_hex\<close> writes for \<open>h\<close>, so printing and parsing undo each other and
  no value has a second textual form.
\<close>

theorem hash_hex_roundtrip:
  assumes "hex_decodes hexd"
  shows "hash_from_hex hexd txt = Ok h \<longleftrightarrow> txt = to_hex 32 h"
  by (rule hash_from_hex_Ok_iff [OF assms])

theorem hash_hex_roundtrip_witness:
  "hash_from_hex sample_hexd (to_hex 32 (258 :: hash)) = Ok 258"
  using hash_hex_roundtrip [OF sample_hex_decodes, of "to_hex 32 (258 :: hash)" 258] by simp

section \<open>Signed transactions\<close>

lemma into_transaction_fields:
  "t_namespace (into_transaction cr d s) = d_namespace d"
  "t_schema_version (into_transaction cr d s) = d_schema_version d"
  "t_payload (into_transaction cr d s) = d_payload d"
  "t_signer (into_transaction cr d s) = d_signer d"
  "t_nonce (into_transaction cr d s) = d_nonce d"
  "t_signature (into_transaction cr d s) = s"
  "has_consistent_id cr (into_transaction cr d s)"
  "signing_message cr (into_transaction cr d s) = draft_signing_message cr d"
  by (simp_all add: into_transaction_def Let_def has_consistent_id_def compute_id_def id_body_def
      signing_message_def signing_body_def draft_signing_message_def)

lemma signed_transaction_valid_facts:
  assumes "signatures_verify cr"
  shows "has_consistent_id cr (sign_transaction cr seed d)"
    "verify_transaction cr (sign_transaction cr seed d) = Ok ()"
  using assms
  by (simp_all add: sign_transaction_def Let_def into_transaction_fields verify_transaction_def
      verify_signature_def signatures_verify_def)

text \<open>
  A transaction signed by \<open>sign_transaction\<close> carries a consistent id and verifies, whatever
  signer its draft declared: the declared signer is replaced by the public key of the signing
  seed, and nothing else of the draft changes.
\<close>

theorem signed_transaction_valid:
  assumes "signatures_verify cr"
  shows "has_consistent_id cr (sign_transaction cr seed d) \<and>
    verify_transaction cr (sign_transaction cr seed d) = Ok () \<and>
    t_signer (sign_transaction cr seed d) = ed_public cr seed \<and>
    t_namespace (sign_transaction cr seed d) = d_namespace d \<and>
    t_schema_version (sign_transaction cr seed d) = d_schema_version d \<and>
    t_payload (sign_transaction cr seed d) = d_payload d \<and>
    t_nonce (sign_transaction cr seed d) = d_nonce d"
  using assms
  by (simp add: sign_transaction_def Let_def into_transaction_fields verify_transaction_def
      verify_signature_def signatures_verify_def)

definition sample_draft :: transaction_draft where
  "sample_draft = \<lparr>d_namespace = Namespace ''demo'', d_schema_version = 1, d_payload = [1, 2, 3],
     d_signer = 0, d_nonce = 7\<rparr>"

definition sample_tx :: transaction where
  "sample_tx = sign_transaction sample_crypto 5 sample_draft"

theorem signed_transaction_valid_witness:
  "verify_transaction sample_crypto sample_tx = Ok () \<and> t_signer sample_tx = 16"
  using signed_transaction_valid [OF sample_signatures, of 5 sample_draft]
  by (simp add: sample_tx_def sample_crypto_def)

section \<open>Blocks\<close>

text \<open>
  The canonical encoding of a block has one reading: two well-formed blocks whose encodings,
  each followed by arbitrary bytes, agree, are the same block followed by the same bytes. So the
  encoding is injective and no encoding is a prefix of another.
\<close>

theorem block_encoding_unique:
  assumes "wf_block x" and "wf_block y" and "enc_block x @ r = enc_block y @ s"
  shows "x = y \<and> r = s"
  by (rule block_code.split_unique [OF assms])

definition sample_genesis :: genesis_spec where
  "sample_genesis = \<lparr>gs_network_id = NetworkId ''demo'', gs_timestamp_millis = 9,
     gs_transactions = [sample_tx]\<rparr>"

definition sample_block :: block where
  "sample_block = \<lparr>b_header = \<lparr>h_version = 1, h_network_id = NetworkId ''demo'', h_height = 0,
       h_previous_hash = 0, h_tx_root = merkle_root sample_crypto [t_id sample_tx], h_tx_count = 1,
       h_timestamp_millis = 9\<rparr>, b_transactions = [sample_tx]\<rparr>"

lemma sample_genesis_build: "genesis_build sample_crypto sample_genesis = Ok sample_block"
  by (simp add: genesis_build_def draft_build_Ok_iff sample_genesis_def sample_block_def
      HEADER_VERSION_def GENESIS_def fits_u32_def)

lemma demo_string: "is_string ''demo''" "wf_label ''demo''"
proof -
  have "utf8_valid (str_bytes ''demo'')" by code_simp
  then show "is_string ''demo''" by (simp add: is_string_def fits_u32_def)
qed code_simp

lemma sample_tx_wf: "wf_transaction sample_tx"
  by (simp add: wf_transaction_def sample_tx_def sign_transaction_def Let_def into_transaction_fields
      sample_draft_def fits_u32_def demo_string)

lemma sample_block_wf: "wf_block sample_block"
  by (simp add: wf_block_def wf_header_def sample_block_def sample_tx_wf fits_u32_def demo_string)

theorem block_encoding_unique_witness:
  "wf_block sample_block \<and> sample_block = sample_block \<and> [0 :: u8] = [0]"
  using block_encoding_unique [OF sample_block_wf sample_block_wf, of "[0]" "[0]"] sample_block_wf
  by simp

text \<open>A block whose derived values are the derived ones, and every byte string they hash.\<close>

definition sealed :: "crypto \<Rightarrow> block \<Rightarrow> bool" where
  "sealed cr b \<longleftrightarrow> h_tx_root (b_header b) = merkle_root cr (map t_id (b_transactions b))
     \<and> (\<forall>t \<in> set (b_transactions b). has_consistent_id cr t)"

definition block_preimages :: "crypto \<Rightarrow> block \<Rightarrow> bytes list" where
  "block_preimages cr b = header_preimage (b_header b)
     # tree_preimages cr PRUNELLA_V1 (map t_id (b_transactions b)) @ map id_hash_preimage (b_transactions b)"

lemma draft_build_sealed:
  "draft_build cr d = Ok b \<Longrightarrow> \<forall>t \<in> set (bd_transactions d). has_consistent_id cr t \<Longrightarrow> sealed cr b"
  by (auto simp: draft_build_Ok_iff sealed_def)

lemma consistent_ids_inj:
  assumes nc: "no_collision cr ps"
    and "wf_transaction t" "wf_transaction u" "has_consistent_id cr t" "has_consistent_id cr u"
    and "id_hash_preimage t \<in> set ps" "id_hash_preimage u \<in> set ps" "t_id t = t_id u"
  shows "t = u"
proof -
  have "blake3 cr (id_hash_preimage t) = blake3 cr (id_hash_preimage u)"
    using assms by (simp add: has_consistent_id_def compute_id_preimage)
  then have "id_hash_preimage t = id_hash_preimage u"
    using no_collisionD [OF nc] assms(6,7) by blast
  then show ?thesis
    using id_hash_preimage_inj [OF assms(2,3)] assms(8) by (cases t; cases u) simp
qed

lemma block_hash_inj:
  assumes "wf_block a" "wf_block b" "sealed cr a" "sealed cr b" "block_hash cr a = block_hash cr b"
    and nc: "no_collision cr (block_preimages cr a @ block_preimages cr b)"
  shows "a = b"
proof -
  have "header_preimage (b_header a) = header_preimage (b_header b)"
    by (rule no_collisionD [OF nc])
      (use assms(5) in \<open>simp_all add: block_preimages_def block_hash_def header_hash_preimage\<close>)
  then have h: "b_header a = b_header b"
    using assms(1,2) header_preimage_inj by (simp add: wf_block_def)
  then have "root cr PRUNELLA_V1 (map t_id (b_transactions a)) = root cr PRUNELLA_V1 (map t_id (b_transactions b))"
    using assms(3,4) by (simp add: sealed_def merkle_root_def)
  then have ids: "map t_id (b_transactions a) = map t_id (b_transactions b)"
    by (rule root_injective [OF wf_PRUNELLA_V1 no_collision_mono [OF nc], rotated])
      (auto simp: block_preimages_def)
  have "b_transactions a = b_transactions b"
  proof (rule nth_equalityI)
    show len: "length (b_transactions a) = length (b_transactions b)" using ids by (rule map_eq_imp_length_eq)
    fix i
    assume i: "i < length (b_transactions a)"
    then have "b_transactions a ! i \<in> set (b_transactions a)" "b_transactions b ! i \<in> set (b_transactions b)"
      using len by simp_all
    moreover have "t_id (b_transactions a ! i) = t_id (b_transactions b ! i)"
      using ids i len by (metis nth_map)
    ultimately show "b_transactions a ! i = b_transactions b ! i"
      using assms(1-4)
      by (intro consistent_ids_inj [OF nc]) (auto simp: wf_block_def sealed_def block_preimages_def)
  qed
  with h show "a = b" by simp
qed

text \<open>
  C7: A block hash commits to the whole block: two well-formed blocks whose roots and transaction
  ids are the derived ones and whose block hashes agree are equal, every byte of every payload and
  signature included, unless BLAKE3 collides on the byte strings the two blocks hash.
\<close>

theorem block_hash_commits:
  assumes "wf_block a" and "wf_block b" and "sealed cr a" and "sealed cr b"
    and "block_hash cr a = block_hash cr b"
    and "no_collision cr (block_preimages cr a @ block_preimages cr b)"
  shows "a = b"
  by (rule block_hash_inj [OF assms])

lemma sample_block_sealed: "sealed sample_crypto sample_block"
  by (simp add: sealed_def sample_block_def sample_tx_def sign_transaction_def Let_def into_transaction_fields)

lemma sample_block_distinct: "distinct (map (blake3 sample_crypto) (block_preimages sample_crypto sample_block))"
  by code_simp

theorem block_hash_commits_witness:
  "sealed sample_crypto sample_block \<and>
   block_hash sample_crypto sample_block = block_hash sample_crypto sample_block \<and> sample_block = sample_block"
  using block_hash_commits [OF sample_block_wf sample_block_wf sample_block_sealed sample_block_sealed refl]
    no_collision_mono [OF no_collision_distinct [OF sample_block_distinct],
      of "block_preimages sample_crypto sample_block @ block_preimages sample_crypto sample_block"]
    sample_block_sealed
  by simp

end
