(* ===== verification/Prunella_Verify.thy ===== *)
theory Prunella_Verify
  imports Prunella_Core
begin

text \<open>
  \<open>crates/prunella-verify\<close>: the block rules (\<open>check_block\<close>) and the walk over a whole chain
  (\<open>verify_chain\<close>). A finding keeps its kind and its location; its \<open>detail\<close> is text for
  operators, which the code neither hashes nor reads back, and is left out. The counters of a
  report are natural numbers: they count blocks and transactions that were read one by one.
\<close>

section \<open>Findings\<close>

record location =
  loc_height :: "block_height option"
  loc_block_hash :: "hash option"
  loc_tx_index :: "u32 option"
  loc_tx_id :: "tx_id option"

definition no_location :: location where
  "no_location = \<lparr>loc_height = None, loc_block_hash = None, loc_tx_index = None, loc_tx_id = None\<rparr>"

definition at_height :: "block_height \<Rightarrow> location" where
  "at_height h = no_location\<lparr>loc_height := Some h\<rparr>"

definition with_block_hash :: "location \<Rightarrow> hash \<Rightarrow> location" where
  "with_block_hash l h = l\<lparr>loc_block_hash := Some h\<rparr>"

definition with_transaction :: "location \<Rightarrow> u32 \<Rightarrow> tx_id \<Rightarrow> location" where
  "with_transaction l i t = l\<lparr>loc_tx_index := Some i, loc_tx_id := Some t\<rparr>"

datatype finding_kind =
    UnsupportedHeaderVersion | NetworkMismatch | GenesisMismatch | HeightOutOfOrder | MissingBlock
  | PreviousHashMismatch | BlockHashMismatch | TxRootMismatch | TxCountMismatch | TxIdMismatch
  | SignatureInvalid | DuplicateTxIdInBlock | DuplicateTxIdInChain | TimestampRegression
  | DecodeError | SourceFailure

record finding =
  f_kind :: finding_kind
  f_location :: location

definition finding_new :: "finding_kind \<Rightarrow> location \<Rightarrow> finding" where
  "finding_new k l = \<lparr>f_kind = k, f_location = l\<rparr>"

section \<open>Sources\<close>

datatype source_error = SourceError string

text \<open>The trait \<open>TxIdLookup\<close> is its one function; a \<open>BlockSource\<close> is the record of its four.\<close>

type_synonym tx_lookup = "tx_id \<Rightarrow> source_error + bool"

record block_source =
  src_network_id :: network_id
  src_genesis_hash :: hash
  src_head :: "source_error + chain_head"
  src_block_at :: "block_height \<Rightarrow> source_error + block option"

record block_context =
  bc_expected_network :: network_id
  bc_parent :: "block_header option"
  bc_expected_hash :: "hash option"
  bc_committed :: "tx_lookup option"

definition context_genesis :: "network_id \<Rightarrow> block_context" where
  "context_genesis n = \<lparr>bc_expected_network = n, bc_parent = None, bc_expected_hash = None, bc_committed = None\<rparr>"

definition context_child_of :: "network_id \<Rightarrow> block_header \<Rightarrow> block_context" where
  "context_child_of n p = \<lparr>bc_expected_network = n, bc_parent = Some p, bc_expected_hash = None, bc_committed = None\<rparr>"

definition expecting_hash :: "block_context \<Rightarrow> hash \<Rightarrow> block_context" where
  "expecting_hash c h = c\<lparr>bc_expected_hash := Some h\<rparr>"

definition with_committed_transactions :: "block_context \<Rightarrow> tx_lookup \<Rightarrow> block_context" where
  "with_committed_transactions c l = c\<lparr>bc_committed := Some l\<rparr>"

section \<open>The rules of one block\<close>

definition check_linkage :: "crypto \<Rightarrow> block_context \<Rightarrow> block_header \<Rightarrow> location \<Rightarrow> finding list" where
  "check_linkage cr ctx h at =
     (case bc_parent ctx of
        None \<Rightarrow>
          (if h_height h \<noteq> GENESIS then [finding_new HeightOutOfOrder at] else []) @
          (if h_previous_hash h \<noteq> 0 then [finding_new PreviousHashMismatch at] else [])
      | Some p \<Rightarrow>
          (if Some (h_height h) \<noteq> checked_add (h_height p) 1 then [finding_new HeightOutOfOrder at] else []) @
          (if h_previous_hash h \<noteq> header_hash cr p then [finding_new PreviousHashMismatch at] else []) @
          (if h_timestamp_millis h < h_timestamp_millis p then [finding_new TimestampRegression at] else []))"

definition check_transaction_commitments :: "crypto \<Rightarrow> block \<Rightarrow> location \<Rightarrow> finding list" where
  "check_transaction_commitments cr b at =
     (case try_from_nat (length (b_transactions b)) of
        Some n \<Rightarrow> if n = h_tx_count (b_header b) then [] else [finding_new TxCountMismatch at]
      | None \<Rightarrow> [finding_new TxCountMismatch at]) @
     (case compute_root cr (b_transactions b) of
        Ok r \<Rightarrow> if r = h_tx_root (b_header b) then [] else [finding_new TxRootMismatch at]
      | _ \<Rightarrow> [finding_new TxRootMismatch at])"

definition index_u32 :: "nat \<Rightarrow> u32" where
  "index_u32 i = (case try_from_nat i of Some w \<Rightarrow> w | None \<Rightarrow> - 1)"

definition check_transaction ::
    "crypto \<Rightarrow> block_context \<Rightarrow> location \<Rightarrow> tx_id set \<Rightarrow> nat \<Rightarrow> transaction \<Rightarrow> finding list" where
  "check_transaction cr ctx at seen i t =
     (let here = with_transaction at (index_u32 i) (t_id t) in
      (if compute_id cr t \<noteq> t_id t then [finding_new TxIdMismatch here] else []) @
      (case verify_transaction cr t of Err _ \<Rightarrow> [finding_new SignatureInvalid here] | _ \<Rightarrow> []) @
      (if t_id t \<in> seen then [finding_new DuplicateTxIdInBlock here] else []) @
      (case bc_committed ctx of
         None \<Rightarrow> []
       | Some lookup \<Rightarrow>
           (case lookup (t_id t) of
              Inr True \<Rightarrow> [finding_new DuplicateTxIdInChain here]
            | Inr False \<Rightarrow> []
            | Inl e \<Rightarrow> [finding_new SourceFailure here])))"

fun check_transactions ::
    "crypto \<Rightarrow> block_context \<Rightarrow> location \<Rightarrow> tx_id set \<Rightarrow> nat \<Rightarrow> transaction list \<Rightarrow> finding list" where
  "check_transactions cr ctx at seen i [] = []"
| "check_transactions cr ctx at seen i (t # ts) =
     check_transaction cr ctx at seen i t
     @ check_transactions cr ctx at (insert (t_id t) seen) (Suc i) ts"

definition check_block :: "crypto \<Rightarrow> block_context \<Rightarrow> block \<Rightarrow> finding list" where
  "check_block cr ctx b =
     (let h = b_header b;
          computed = header_hash cr h;
          at = with_block_hash (at_height (h_height h)) computed
      in (if h_version h \<noteq> HEADER_VERSION then [finding_new UnsupportedHeaderVersion at] else []) @
         (if h_network_id h \<noteq> bc_expected_network ctx then [finding_new NetworkMismatch at] else []) @
         check_linkage cr ctx h at @
         check_transaction_commitments cr b at @
         check_transactions cr ctx at {} 0 (b_transactions b) @
         (case bc_expected_hash ctx of
            Some e \<Rightarrow> if e \<noteq> computed then [finding_new BlockHashMismatch at] else []
          | None \<Rightarrow> []))"

section \<open>The walk over a chain\<close>

record verify_options =
  vo_from :: "block_height option"
  vo_to :: "block_height option"
  vo_detect_duplicates :: bool

definition default_options :: verify_options where
  "default_options = \<lparr>vo_from = None, vo_to = None, vo_detect_duplicates = True\<rparr>"

definition range_options :: "block_height \<Rightarrow> block_height \<Rightarrow> verify_options" where
  "range_options a b = \<lparr>vo_from = Some a, vo_to = Some b, vo_detect_duplicates = True\<rparr>"

record verification_report =
  vr_network_id :: network_id
  vr_genesis_hash :: hash
  vr_head :: "chain_head option"
  vr_range_start :: "block_height option"
  vr_range_end :: "block_height option"
  vr_blocks_checked :: nat
  vr_transactions_checked :: nat
  vr_findings :: "finding list"

definition is_valid :: "verification_report \<Rightarrow> bool" where
  "is_valid r \<longleftrightarrow> vr_findings r = []"

definition add_findings :: "finding list \<Rightarrow> verification_report \<Rightarrow> verification_report" where
  "add_findings fs r = r\<lparr>vr_findings := vr_findings r @ fs\<rparr>"

definition check_genesis_identity :: "crypto \<Rightarrow> block_source \<Rightarrow> verification_report \<Rightarrow> verification_report" where
  "check_genesis_identity cr src r =
     (case src_block_at src GENESIS of
        Inr (Some g) \<Rightarrow>
          (let actual = block_hash cr g; at = with_block_hash (at_height GENESIS) actual in
           add_findings
             ((if actual \<noteq> vr_genesis_hash r then [finding_new GenesisMismatch at] else []) @
              (if h_network_id (b_header g) \<noteq> src_network_id src then [finding_new NetworkMismatch at] else [])) r)
      | Inr None \<Rightarrow> add_findings [finding_new MissingBlock (at_height GENESIS)] r
      | Inl e \<Rightarrow> add_findings [finding_new DecodeError (at_height GENESIS)] r)"

definition load_parent :: "block_source \<Rightarrow> block_height \<Rightarrow> finding + block_header" where
  "load_parent src from_height =
     (let parent_height = from_height - 1 in
      case src_block_at src parent_height of
        Inr (Some b) \<Rightarrow> Inr (b_header b)
      | Inr None \<Rightarrow> Inl (finding_new MissingBlock (at_height parent_height))
      | Inl e \<Rightarrow> Inl (finding_new DecodeError (at_height parent_height)))"

text \<open>What one iteration adds to the report and to the set of transaction ids seen.\<close>

definition walk_context ::
    "block_source \<Rightarrow> verify_options \<Rightarrow> chain_head \<Rightarrow> block_height \<Rightarrow> block_header option \<Rightarrow> tx_id set \<Rightarrow> block_context" where
  "walk_context src opts head height parent seen =
     \<lparr>bc_expected_network = src_network_id src,
      bc_parent = parent,
      bc_expected_hash = (if height = head_height head then Some (head_hash head) else None),
      bc_committed = (if vo_detect_duplicates opts then Some (\<lambda>i. Inr (i \<in> seen)) else None)\<rparr>"

definition walk_record :: "crypto \<Rightarrow> block_context \<Rightarrow> block_height \<Rightarrow> block \<Rightarrow> verification_report \<Rightarrow> verification_report" where
  "walk_record cr ctx height b r =
     (add_findings (check_block cr ctx b) r)
       \<lparr>vr_blocks_checked := vr_blocks_checked r + 1,
        vr_transactions_checked := vr_transactions_checked r + length (b_transactions b),
        vr_range_end := Some height\<rparr>"

text \<open>The loop; it ends because the height grows until it is \<open>to\<close>, or until it cannot grow.\<close>

function walk ::
    "crypto \<Rightarrow> block_source \<Rightarrow> verify_options \<Rightarrow> chain_head \<Rightarrow> block_height \<Rightarrow> block_height
      \<Rightarrow> block_header option \<Rightarrow> tx_id set \<Rightarrow> verification_report \<Rightarrow> verification_report" where
  "walk cr src opts head to_height height parent seen r =
     (case src_block_at src height of
        Inr None \<Rightarrow> add_findings [finding_new MissingBlock (at_height height)] r
      | Inl e \<Rightarrow> add_findings [finding_new DecodeError (at_height height)] r
      | Inr (Some b) \<Rightarrow>
          (let r' = walk_record cr (walk_context src opts head height parent seen) height b r;
               seen' = (if vo_detect_duplicates opts then seen \<union> set (map t_id (b_transactions b)) else seen)
           in if height = to_height then r'
              else case height_next height of
                Ok next \<Rightarrow> walk cr src opts head to_height next (Some (b_header b)) seen' r'
              | _ \<Rightarrow> r'))"
  by pat_completeness auto
termination
proof (relation "measure (\<lambda>(cr, src, opts, head, to_height, height, parent, seen, r). 2 ^ 64 - unat height)")
  fix height nxt :: block_height
  assume "height_next height = Ok nxt"
  then have "unat nxt = unat height + 1" by (simp add: height_next_Ok_iff)
  moreover have "unat nxt < 2 ^ 64" using unat_bound [of nxt] by simp
  ultimately show "((cr, src, opts, head, to_height, nxt, Some (b_header b), seen', r'),
      cr, src, opts, head, to_height, height, parent, seen, r)
      \<in> measure (\<lambda>(cr, src, opts, head, to_height, height, parent, seen, r). 2 ^ 64 - unat height)"
    for cr :: crypto and src :: block_source and opts :: verify_options and head :: chain_head
      and to_height b seen' r' parent seen r
    by simp
qed simp

declare walk.simps [simp del]

definition verify_chain :: "crypto \<Rightarrow> block_source \<Rightarrow> verify_options \<Rightarrow> verification_report" where
  "verify_chain cr src opts =
     (let r = \<lparr>vr_network_id = src_network_id src, vr_genesis_hash = src_genesis_hash src,
                vr_head = None, vr_range_start = None, vr_range_end = None, vr_blocks_checked = 0,
                vr_transactions_checked = 0, vr_findings = []\<rparr>
      in case src_head src of
        Inl e \<Rightarrow> add_findings [finding_new SourceFailure no_location] r
      | Inr head \<Rightarrow>
          (let r1 = check_genesis_identity cr src (r\<lparr>vr_head := Some head\<rparr>);
               from_height = (case vo_from opts of Some f \<Rightarrow> f | None \<Rightarrow> GENESIS);
               to_height = (case vo_to opts of Some t \<Rightarrow> min t (head_height head) | None \<Rightarrow> head_height head)
           in if to_height < from_height then r1
              else
                let r2 = r1\<lparr>vr_range_start := Some from_height\<rparr>
                in if is_genesis from_height
                   then walk cr src opts head to_height from_height None {} r2
                   else case load_parent src from_height of
                     Inr p \<Rightarrow> walk cr src opts head to_height from_height (Some p) {} r2
                   | Inl f \<Rightarrow> add_findings [f] r2))"

section \<open>What the rules say\<close>

text \<open>The specification of a block that follows \<open>parent\<close> on the chain \<open>net\<close>.\<close>

definition follows :: "crypto \<Rightarrow> block_header option \<Rightarrow> block_header \<Rightarrow> bool" where
  "follows cr parent h \<longleftrightarrow>
     (case parent of
        None \<Rightarrow> h_height h = 0 \<and> h_previous_hash h = 0
      | Some p \<Rightarrow> unat (h_height h) = unat (h_height p) + 1 \<and> h_previous_hash h = header_hash cr p
          \<and> h_timestamp_millis p \<le> h_timestamp_millis h)"

definition authentic :: "crypto \<Rightarrow> transaction \<Rightarrow> bool" where
  "authentic cr t \<longleftrightarrow> has_consistent_id cr t \<and> verify_transaction cr t = Ok ()"

abbreviation tx_ids :: "block \<Rightarrow> tx_id list" where
  "tx_ids b \<equiv> map t_id (b_transactions b)"

definition valid_block :: "crypto \<Rightarrow> network_id \<Rightarrow> block_header option \<Rightarrow> block \<Rightarrow> bool" where
  "valid_block cr net parent b \<longleftrightarrow>
     h_version (b_header b) = HEADER_VERSION \<and>
     h_network_id (b_header b) = net \<and>
     follows cr parent (b_header b) \<and>
     unat (h_tx_count (b_header b)) = length (b_transactions b) \<and>
     h_tx_root (b_header b) = merkle_root cr (tx_ids b) \<and>
     (\<forall>t \<in> set (b_transactions b). authentic cr t) \<and>
     distinct (tx_ids b)"

text \<open>No transaction of the block is already committed, as far as the context can tell.\<close>

definition fresh_ids :: "block_context \<Rightarrow> block \<Rightarrow> bool" where
  "fresh_ids ctx b \<longleftrightarrow> (\<forall>lookup. bc_committed ctx = Some lookup \<longrightarrow>
     (\<forall>i \<in> set (tx_ids b). lookup i = Inr False))"

lemma verify_transaction_no_Panic [simp]: "verify_transaction cr t \<noteq> Panic"
  by (simp add: verify_transaction_def verify_signature_def)

lemma check_linkage_empty_iff: "check_linkage cr ctx h at = [] \<longleftrightarrow> follows cr (bc_parent ctx) h"
proof (cases "bc_parent ctx")
  case (Some p)
  have "Some (h_height h) = checked_add (h_height p) 1 \<longleftrightarrow> unat (h_height h) = unat (h_height p) + 1"
    using checked_add_Some [of "h_height p" 1 "h_height h"] by (metis unat_1 zero_neq_one one_neq_zero)
  then show ?thesis using Some by (auto simp: check_linkage_def follows_def not_less)
qed (auto simp: check_linkage_def follows_def GENESIS_def)

lemma check_commitments_empty_iff:
  "check_transaction_commitments cr b at = [] \<longleftrightarrow>
     unat (h_tx_count (b_header b)) = length (b_transactions b) \<and>
     h_tx_root (b_header b) = merkle_root cr (tx_ids b)"
proof (cases "try_from_nat (length (b_transactions b)) :: u32 option")
  case None
  then have "2 ^ 32 \<le> length (b_transactions b)" by (simp add: word_nat)
  moreover have "unat (h_tx_count (b_header b)) < 2 ^ 32" using unat_bound [of "h_tx_count (b_header b)"] by simp
  ultimately show ?thesis using None by (auto simp: check_transaction_commitments_def)
next
  case (Some n)
  then have n: "unat n = length (b_transactions b)" by (simp add: word_nat)
  then have "n = h_tx_count (b_header b) \<longleftrightarrow> unat (h_tx_count (b_header b)) = length (b_transactions b)"
    by (metis word_unat_eq_iff)
  then show ?thesis using Some
    by (auto simp: check_transaction_commitments_def compute_root_def)
qed

lemma check_transaction_empty_iff:
  "check_transaction cr ctx at seen i t = [] \<longleftrightarrow>
     authentic cr t \<and> t_id t \<notin> seen \<and>
     (\<forall>lookup. bc_committed ctx = Some lookup \<longrightarrow> lookup (t_id t) = Inr False)"
proof -
  have "verify_transaction cr t = Ok () \<or> (\<exists>e. verify_transaction cr t = Err e)"
    by (cases "verify_transaction cr t") simp_all
  then show ?thesis
    by (auto simp: check_transaction_def Let_def authentic_def has_consistent_id_def
        split: option.splits sum.splits bool.splits)
qed

lemma check_transactions_empty_iff:
  "check_transactions cr ctx at seen i ts = [] \<longleftrightarrow>
     (\<forall>t \<in> set ts. authentic cr t) \<and> distinct (map t_id ts) \<and> set (map t_id ts) \<inter> seen = {} \<and>
     (\<forall>lookup. bc_committed ctx = Some lookup \<longrightarrow> (\<forall>j \<in> set (map t_id ts). lookup j = Inr False))"
  by (induction ts arbitrary: seen i) (auto simp: check_transaction_empty_iff)

lemma check_block_empty_iff:
  "check_block cr ctx b = [] \<longleftrightarrow>
     valid_block cr (bc_expected_network ctx) (bc_parent ctx) b \<and> fresh_ids ctx b \<and>
     (\<forall>e. bc_expected_hash ctx = Some e \<longrightarrow> e = block_hash cr b)"
  by (auto simp: check_block_def Let_def check_linkage_empty_iff check_commitments_empty_iff
      check_transactions_empty_iff valid_block_def fresh_ids_def block_hash_def split: option.splits)

text \<open>
  C8: \<open>check_block\<close> reports nothing exactly when the block is valid: the supported version, the
  expected network, the right height, parent hash and a timestamp that does not go back, a count
  and a root that match the transactions, every id derived and every signature verified, no id
  twice in the block or already committed, and the announced hash if there is one.
\<close>

theorem check_block_exact:
  "check_block cr ctx b = [] \<longleftrightarrow>
     valid_block cr (bc_expected_network ctx) (bc_parent ctx) b \<and> fresh_ids ctx b \<and>
     bc_expected_hash ctx \<in> {None, Some (block_hash cr b)}"
  unfolding check_block_empty_iff by (cases "bc_expected_hash ctx") auto

section \<open>Whole chains\<close>

fun chain_from :: "crypto \<Rightarrow> network_id \<Rightarrow> block_header option \<Rightarrow> block list \<Rightarrow> bool" where
  "chain_from cr net parent [] \<longleftrightarrow> True"
| "chain_from cr net parent (b # bs) \<longleftrightarrow>
     valid_block cr net parent b \<and> chain_from cr net (Some (b_header b)) bs"

abbreviation chain_ids :: "block list \<Rightarrow> tx_id list" where
  "chain_ids bs \<equiv> concat (map tx_ids bs)"

definition valid_chain :: "crypto \<Rightarrow> network_id \<Rightarrow> block list \<Rightarrow> bool" where
  "valid_chain cr net bs \<longleftrightarrow> bs \<noteq> [] \<and> chain_from cr net None bs \<and> distinct (chain_ids bs)"

fun last_header :: "block_header option \<Rightarrow> block list \<Rightarrow> block_header option" where
  "last_header p [] = p"
| "last_header p (b # bs) = last_header (Some (b_header b)) bs"

lemma last_header_append [simp]: "last_header p (bs @ [b]) = Some (b_header b)"
  by (induction bs arbitrary: p) simp_all

lemma last_header_last: "last_header p bs = (if bs = [] then p else Some (b_header (last bs)))"
  by (induction bs arbitrary: p) simp_all

lemma chain_from_append:
  "chain_from cr net p (bs @ cs) \<longleftrightarrow> chain_from cr net p bs \<and> chain_from cr net (last_header p bs) cs"
  by (induction bs arbitrary: p) auto

lemma valid_chain_snoc:
  "bs \<noteq> [] \<Longrightarrow> valid_chain cr net (bs @ [b]) \<longleftrightarrow>
     valid_chain cr net bs \<and> valid_block cr net (Some (b_header (last bs))) b
     \<and> set (tx_ids b) \<inter> set (chain_ids bs) = {}"
  by (auto simp: valid_chain_def chain_from_append last_header_last valid_block_def)

text \<open>The height of a block of a valid chain is its position.\<close>

lemma chain_from_heights:
  "chain_from cr net p bs \<Longrightarrow> i < length bs \<Longrightarrow>
     unat (h_height (b_header (bs ! i))) = i + (case p of None \<Rightarrow> 0 | Some q \<Rightarrow> unat (h_height q) + 1)"
proof (induction bs arbitrary: p i)
  case (Cons b bs)
  then show ?case
    by (cases i) (auto simp: valid_block_def follows_def split: option.splits)
qed simp

lemma valid_chain_height:
  "valid_chain cr net bs \<Longrightarrow> i < length bs \<Longrightarrow> unat (h_height (b_header (bs ! i))) = i"
  using chain_from_heights [of cr net None bs i] by (simp add: valid_chain_def)

text \<open>A source that holds a list of blocks.\<close>

definition holds_blocks :: "block_source \<Rightarrow> block list \<Rightarrow> bool" where
  "holds_blocks src bs \<longleftrightarrow>
     (\<forall>h. src_block_at src h = Inr (if unat h < length bs then Some (bs ! unat h) else None))"

lemma walk_findings:
  assumes src: "holds_blocks src bs" and len: "length bs \<le> 2 ^ 64"
    and last: "unat to_height = length bs - 1" and to: "head_height head = to_height"
  shows "\<lbrakk>unat height < length bs; parent = last_header None (take (unat height) bs)\<rbrakk> \<Longrightarrow>
    vr_findings (walk cr src default_options head to_height height parent seen r) = [] \<longleftrightarrow>
    vr_findings r = [] \<and> chain_from cr (src_network_id src) parent (drop (unat height) bs) \<and>
    distinct (chain_ids (drop (unat height) bs)) \<and>
    set (chain_ids (drop (unat height) bs)) \<inter> seen = {} \<and>
    head_hash head = block_hash cr (List.last bs)"
proof (induction "length bs - unat height" arbitrary: height parent seen r rule: less_induct)
  case less
  define b where "b = bs ! unat height"
  have at: "src_block_at src height = Inr (Some b)"
    using src less.prems(1) by (simp add: holds_blocks_def b_def)
  have drop: "drop (unat height) bs = b # drop (Suc (unat height)) bs"
    using less.prems(1) by (simp add: Cons_nth_drop_Suc b_def)
  define ctx where "ctx = walk_context src default_options head height parent seen"
  define r' where "r' = walk_record cr ctx height b r"
  have r': "vr_findings r' = [] \<longleftrightarrow> vr_findings r = [] \<and> valid_block cr (src_network_id src) parent b \<and>
      set (tx_ids b) \<inter> seen = {} \<and> (height = to_height \<longrightarrow> head_hash head = block_hash cr b)"
    using to by (auto simp: r'_def walk_record_def add_findings_def check_block_empty_iff ctx_def
        walk_context_def default_options_def fresh_ids_def)
  note w = walk.simps [of cr src default_options head to_height height parent seen r]
  have dd: "vo_detect_duplicates default_options" by (simp add: default_options_def)
  show ?case
  proof (cases "height = to_height")
    case True
    then have h: "unat height = length bs - 1" using last by simp
    have "bs \<noteq> []" using less.prems(1) by auto
    then have "drop (Suc (unat height)) bs = []" "b = List.last bs"
      using h by (simp_all add: b_def last_conv_nth)
    then have rest: "drop (unat height) bs = [b]" "b = List.last bs" using drop by simp_all
    have walk: "walk cr src default_options head to_height height parent seen r = r'"
      unfolding w r'_def ctx_def using True at by simp
    have "vr_findings r' = [] \<longleftrightarrow> vr_findings r = [] \<and> valid_block cr (src_network_id src) parent b \<and>
      set (tx_ids b) \<inter> seen = {} \<and> head_hash head = block_hash cr b"
      using r' True by blast
    then show ?thesis unfolding walk rest(1) rest(2) [symmetric] by (auto simp: valid_block_def)
  next
    case False
    have "unat height \<noteq> length bs - 1" using False last by (metis word_unat_eq_iff)
    with less.prems(1) have lt: "unat height + 1 < length bs" by simp
    then have "unat height + 1 < 2 ^ 64" using len by simp
    then have "height_next height = Ok (height + 1)" and u: "unat (height + 1) = unat height + 1"
      by (simp_all add: height_next_Ok_iff unat_word_ariths)
    then have walk: "walk cr src default_options head to_height height parent seen r
      = walk cr src default_options head to_height (height + 1) (Some (b_header b)) (seen \<union> set (tx_ids b)) r'"
      using False at by (simp add: w r'_def ctx_def dd)
    have "Some (b_header b) = last_header None (take (unat (height + 1)) bs)"
      using lt by (simp add: u take_Suc_conv_app_nth b_def)
    then have IH: "vr_findings (walk cr src default_options head to_height (height + 1)
        (Some (b_header b)) (seen \<union> set (tx_ids b)) r') = [] \<longleftrightarrow>
      vr_findings r' = [] \<and> chain_from cr (src_network_id src) (Some (b_header b)) (drop (Suc (unat height)) bs) \<and>
      distinct (chain_ids (drop (Suc (unat height)) bs)) \<and>
      set (chain_ids (drop (Suc (unat height)) bs)) \<inter> (seen \<union> set (tx_ids b)) = {} \<and>
      head_hash head = block_hash cr (List.last bs)"
      using less.hyps [of "height + 1" "Some (b_header b)" "seen \<union> set (tx_ids b)" r'] lt
      by (simp add: u)
    have ids: "distinct (chain_ids (b # bs')) \<longleftrightarrow> distinct (tx_ids b) \<and> distinct (chain_ids bs')
        \<and> set (tx_ids b) \<inter> set (chain_ids bs') = {}"
      "set (chain_ids (b # bs')) = set (tx_ids b) \<union> set (chain_ids bs')" for bs'
      by (simp_all only: list.map concat.simps distinct_append set_append)
    have "valid_block cr (src_network_id src) parent b \<Longrightarrow> distinct (tx_ids b)"
      by (simp add: valid_block_def)
    then show ?thesis unfolding walk IH r' drop ids chain_from.simps using False by blast
  qed
qed

definition chain_source :: "network_id \<Rightarrow> hash \<Rightarrow> chain_head \<Rightarrow> block list \<Rightarrow> block_source" where
  "chain_source net g head bs = \<lparr>src_network_id = net, src_genesis_hash = g, src_head = Inr head,
     src_block_at = (\<lambda>h. Inr (if unat h < length bs then Some (bs ! unat h) else None))\<rparr>"

lemma verify_chain_empty_iff:
  assumes "holds_blocks src bs" and "src_head src = Inr head" and "bs \<noteq> []" and "length bs \<le> 2 ^ 64"
    and "unat (head_height head) = length bs - 1"
  shows "vr_findings (verify_chain cr src default_options) = [] \<longleftrightarrow>
    valid_chain cr (src_network_id src) bs \<and> src_genesis_hash src = block_hash cr (hd bs) \<and>
    head_hash head = block_hash cr (last bs)"
proof -
  have g: "src_block_at src GENESIS = Inr (Some (hd bs))"
    using assms(1,3) by (simp add: holds_blocks_def GENESIS_def hd_conv_nth)
  have zero: "unat GENESIS = 0" "\<not> head_height head < GENESIS" "is_genesis GENESIS"
    by (simp_all add: GENESIS_def is_genesis_def)
  define r where "r = check_genesis_identity cr src
    \<lparr>vr_network_id = src_network_id src, vr_genesis_hash = src_genesis_hash src,
     vr_head = Some head, vr_range_start = None, vr_range_end = None, vr_blocks_checked = 0,
     vr_transactions_checked = 0, vr_findings = []\<rparr>"
  have r: "vr_findings r = [] \<longleftrightarrow> src_genesis_hash src = block_hash cr (hd bs) \<and>
      h_network_id (b_header (hd bs)) = src_network_id src"
    by (auto simp: r_def check_genesis_identity_def g add_findings_def Let_def)
  have "verify_chain cr src default_options
      = walk cr src default_options head (head_height head) GENESIS None {} (r\<lparr>vr_range_start := Some GENESIS\<rparr>)"
    using zero assms(2) by (simp add: verify_chain_def Let_def r_def default_options_def)
  moreover have "h_network_id (b_header (hd bs)) = src_network_id src"
    if "chain_from cr (src_network_id src) None bs"
    using that assms(3) by (cases bs) (simp_all add: valid_block_def)
  ultimately show ?thesis
    using walk_findings [OF assms(1,4,5) refl, of GENESIS None cr "{}" "r\<lparr>vr_range_start := Some GENESIS\<rparr>"]
      assms(3) by (auto simp: zero r valid_chain_def)
qed

text \<open>
  C9: \<open>verify_chain\<close> with the default options is exact: over a source that holds the blocks \<open>bs\<close> and
  whose head is at the last of them, it reports no finding exactly when \<open>bs\<close> is a valid chain (every
  block valid after its parent, no transaction id twice anywhere), the recorded genesis hash is
  the first block's and the recorded head hash the last block's.
\<close>

theorem verify_chain_exact:
  assumes "holds_blocks src bs" and "src_head src = Inr head" and "bs \<noteq> []" and "length bs \<le> 2 ^ 64"
    and "unat (head_height head) = length bs - 1"
  shows "is_valid (verify_chain cr src default_options) \<longleftrightarrow>
    valid_chain cr (src_network_id src) bs \<and> src_genesis_hash src = block_hash cr (hd bs) \<and>
    head_hash head = block_hash cr (last bs)"
  unfolding is_valid_def by (rule verify_chain_empty_iff [OF assms])

lemma sample_chain_valid: "valid_chain sample_crypto (NetworkId ''demo'') [sample_block]"
proof -
  have "authentic sample_crypto sample_tx"
    using signed_transaction_valid_facts [OF sample_signatures] by (simp add: authentic_def sample_tx_def)
  then show ?thesis
    by (simp add: valid_chain_def valid_block_def follows_def sample_block_def HEADER_VERSION_def)
qed

theorem verify_chain_exact_witness:
  "is_valid (verify_chain sample_crypto
     (chain_source (NetworkId ''demo'') (block_hash sample_crypto sample_block)
        \<lparr>head_height = 0, head_hash = block_hash sample_crypto sample_block\<rparr> [sample_block])
     default_options)"
proof -
  let ?head = "\<lparr>head_height = 0, head_hash = block_hash sample_crypto sample_block\<rparr>"
  let ?src = "chain_source (NetworkId ''demo'') (block_hash sample_crypto sample_block) ?head [sample_block]"
  have "holds_blocks ?src [sample_block]" "src_head ?src = Inr ?head"
    by (simp_all add: holds_blocks_def chain_source_def)
  from verify_chain_exact [OF this, of sample_crypto] show ?thesis
    using sample_chain_valid by (simp add: chain_source_def)
qed

section \<open>A head commits to its chain\<close>

definition chain_preimages :: "crypto \<Rightarrow> block list \<Rightarrow> bytes list" where
  "chain_preimages cr bs = concat (map (block_preimages cr) bs)"

lemma valid_block_sealed: "valid_block cr net p b \<Longrightarrow> sealed cr b"
  by (simp add: valid_block_def sealed_def authentic_def)

lemma valid_chain_sealed: "valid_chain cr net bs \<Longrightarrow> b \<in> set bs \<Longrightarrow> sealed cr b"
proof -
  have "chain_from cr net p bs \<Longrightarrow> b \<in> set bs \<Longrightarrow> sealed cr b" for p
    by (induction bs arbitrary: p) (auto simp: valid_block_sealed)
  then show "valid_chain cr net bs \<Longrightarrow> b \<in> set bs \<Longrightarrow> sealed cr b" by (auto simp: valid_chain_def)
qed

lemma chain_commits:
  "\<lbrakk>valid_chain cr net xs; valid_chain cr net' ys; \<forall>b \<in> set (xs @ ys). wf_block b;
    block_hash cr (last xs) = block_hash cr (last ys);
    no_collision cr (chain_preimages cr (xs @ ys))\<rbrakk> \<Longrightarrow> xs = ys"
proof (induction xs arbitrary: ys rule: rev_induct)
  case Nil
  then show ?case by (simp add: valid_chain_def)
next
  case (snoc x xs)
  from snoc.prems(2) obtain zs y where ys: "ys = zs @ [y]"
    by (cases ys rule: rev_cases) (auto simp: valid_chain_def)
  have "x = y"
  proof (rule block_hash_inj)
    show "no_collision cr (block_preimages cr x @ block_preimages cr y)"
      by (rule no_collision_mono [OF snoc.prems(5)]) (auto simp: chain_preimages_def ys)
  qed (use snoc.prems ys valid_chain_sealed [OF snoc.prems(1)] valid_chain_sealed [OF snoc.prems(2)] in simp_all)
  moreover have "length xs = length zs"
    using valid_chain_height [OF snoc.prems(1), of "length xs"]
      valid_chain_height [OF snoc.prems(2), of "length zs"] \<open>x = y\<close> by (simp add: ys nth_append)
  moreover have "xs = zs"
  proof (cases "xs = []")
    case False
    with calculation(2) have "zs \<noteq> []" by auto
    note v = snoc.prems(1) [unfolded valid_chain_snoc [OF False]]
      snoc.prems(2) [unfolded ys valid_chain_snoc [OF \<open>zs \<noteq> []\<close>]]
    show ?thesis
    proof (rule snoc.IH)
      show "block_hash cr (last xs) = block_hash cr (last zs)"
        using v \<open>x = y\<close> by (simp add: valid_block_def follows_def block_hash_def)
      show "no_collision cr (chain_preimages cr (xs @ zs))"
        by (rule no_collision_mono [OF snoc.prems(5)]) (auto simp: chain_preimages_def ys)
    qed (use v snoc.prems(3) ys in auto)
  qed (use calculation(2) in simp)
  ultimately show ?case by (simp add: ys)
qed

text \<open>
  C10: The hash of the last block commits to the whole history. Two valid chains whose last blocks
  have the same hash are the same list of blocks, from genesis on, whatever network each was
  checked for, unless BLAKE3 collides on the byte strings the two chains hash.
\<close>

theorem head_hash_commits:
  assumes "valid_chain cr net xs" and "valid_chain cr net' ys" and "\<forall>b \<in> set (xs @ ys). wf_block b"
    and "block_hash cr (last xs) = block_hash cr (last ys)"
    and "no_collision cr (chain_preimages cr (xs @ ys))"
  shows "xs = ys"
  by (rule chain_commits [OF assms])

theorem head_hash_commits_witness:
  "valid_chain sample_crypto (NetworkId ''demo'') [sample_block] \<and> [sample_block] = [sample_block]"
  using head_hash_commits [OF sample_chain_valid sample_chain_valid _ refl]
    no_collision_mono [OF no_collision_distinct [OF sample_block_distinct],
      of "chain_preimages sample_crypto ([sample_block] @ [sample_block])"]
    sample_chain_valid sample_block_wf
  by (simp add: chain_preimages_def)

end
