(* ===== verification/Prunella_Store.thy ===== *)
theory Prunella_Store
  imports Prunella_Verify
begin

text \<open>
  \<open>crates/prunella-store\<close>: the chain on disk. redb is third-party code: a database is its four
  tables, each a map from keys to values, and a write transaction works on a copy of the tables
  that replaces them at the commit or is dropped. \<open>io\<close> says whether the commit goes through, and
  \<open>creates\<close> whether a new file can be created; an I/O failure before the commit has the same effect on
  the tables, none. The block decoder \<open>de\<close> is the derived Borsh deserializer. The texts inside
  errors are left out; an \<open>Inconsistent\<close> error keeps which check failed.
\<close>

section \<open>The tables\<close>

definition STORE_FORMAT_VERSION :: u32 where
  "STORE_FORMAT_VERSION = 1"

record database =
  db_meta :: "string \<rightharpoonup> bytes"
  db_blocks :: "u64 \<rightharpoonup> bytes"
  db_height_by_hash :: "bytes \<rightharpoonup> u64"
  db_tx_location :: "bytes \<rightharpoonup> bytes"

definition FORMAT_VERSION :: string where "FORMAT_VERSION = ''format_version''"
definition NETWORK_ID :: string where "NETWORK_ID = ''network_id''"
definition GENESIS_HASH :: string where "GENESIS_HASH = ''genesis_hash''"
definition HEAD_HEIGHT :: string where "HEAD_HEIGHT = ''head_height''"
definition HEAD_HASH :: string where "HEAD_HASH = ''head_hash''"
definition TRANSACTION_COUNT :: string where "TRANSACTION_COUNT = ''transaction_count''"

lemmas meta_keys = FORMAT_VERSION_def NETWORK_ID_def GENESIS_HASH_def HEAD_HEIGHT_def
  HEAD_HASH_def TRANSACTION_COUNT_def

text \<open>\<open>from_le_bytes\<close>, and \<open>from_bytes\<close> of an array.\<close>

definition from_le_bytes :: "bytes \<Rightarrow> 'l::len word" where
  "from_le_bytes b = word_rcat (rev b)"

definition encode_location :: "u64 \<Rightarrow> u32 \<Rightarrow> bytes" where
  "encode_location height index = le_bytes 8 height @ le_bytes 4 index"

definition decode_location :: "bytes \<Rightarrow> (u64 \<times> u32) option" where
  "decode_location b =
     (if length b \<noteq> 12 then None else Some (from_le_bytes (take 8 b), from_le_bytes (drop 8 b)))"

section \<open>Errors and outcomes\<close>

datatype acceptance_error = AcceptanceInvalid "finding list" | AcceptanceDeclined string

datatype inconsistency =
    RecordLength string | RecordNotUtf8 string
  | NoBlockAtHeight block_height | HashIndexDangling block_height
  | LocationMalformed tx_id | LocationNoBlock tx_id block_height
  | LocationNoIndex tx_id block_height u32 | LocationOtherTransaction tx_id tx_id
  | GenesisHashDiffers hash hash | GenesisNetworkDiffers network_id network_id
  | HeadHashDiffers hash hash

datatype not_a_chain = NoSuchFile | NotADatabaseFile | MetaTableMissing | NoRecord string

datatype store_error =
    DatabaseError
  | AlreadyExists
  | NotAChain not_a_chain
  | UnsupportedFormatVersion u32 u32
  | Inconsistent inconsistency
  | CorruptBlock block_height canonical_error
  | NotAccepted acceptance_error
  | NonContiguous block_height block_height
  | ForkedHistory block_height hash hash
  | StoreCore prunella_error

datatype append_status = Committed | AlreadyPresent

record append_outcome =
  ao_status :: append_status
  ao_head :: chain_head

record batch_outcome =
  bo_appended :: u64
  bo_already_present :: u64
  bo_head :: chain_head

record located_transaction =
  lt_height :: block_height
  lt_index :: u32
  lt_transaction :: transaction

record chain_status =
  st_network_id :: network_id
  st_genesis_hash :: hash
  st_head :: chain_head
  st_block_count :: u64
  st_transaction_count :: u64
  st_format_version :: u32

text \<open>An open store: the database and what was read from it when it was opened.\<close>

record chain_store =
  cs_database :: database
  cs_network_id :: network_id
  cs_genesis_hash :: hash

section \<open>Reading and writing records\<close>

definition read_meta :: "database \<Rightarrow> string \<Rightarrow> (store_error, bytes) result" where
  "read_meta db key = ok_or (NotAChain (NoRecord key)) (db_meta db key)"

definition read_u32 :: "database \<Rightarrow> string \<Rightarrow> (store_error, u32) result" where
  "read_u32 db key = rbind (read_meta db key) (\<lambda>b.
     if length b = 4 then Ok (from_le_bytes b) else Err (Inconsistent (RecordLength key)))"

definition read_u64 :: "database \<Rightarrow> string \<Rightarrow> (store_error, u64) result" where
  "read_u64 db key = rbind (read_meta db key) (\<lambda>b.
     if length b = 8 then Ok (from_le_bytes b) else Err (Inconsistent (RecordLength key)))"

definition read_hash :: "database \<Rightarrow> string \<Rightarrow> (store_error, hash) result" where
  "read_hash db key = rbind (read_meta db key) (\<lambda>b.
     if length b = 32 then Ok (word_rcat b) else Err (Inconsistent (RecordLength key)))"

definition text_of_bytes :: "bytes \<Rightarrow> string" where
  "text_of_bytes b = map (\<lambda>x. char_of (unat x)) b"

definition read_text :: "database \<Rightarrow> string \<Rightarrow> (store_error, string) result" where
  "read_text db key = rbind (read_meta db key) (\<lambda>b.
     if utf8_valid b then Ok (text_of_bytes b) else Err (Inconsistent (RecordNotUtf8 key)))"

definition read_head :: "database \<Rightarrow> (store_error, chain_head) result" where
  "read_head db = rbind (read_u64 db HEAD_HEIGHT) (\<lambda>h. rbind (read_hash db HEAD_HASH) (\<lambda>x.
     Ok \<lparr>head_height = h, head_hash = x\<rparr>))"

definition write_bytes :: "string \<Rightarrow> bytes \<Rightarrow> database \<Rightarrow> database" where
  "write_bytes key v db = db\<lparr>db_meta := (db_meta db)(key \<mapsto> v)\<rparr>"

definition write_u32 :: "string \<Rightarrow> u32 \<Rightarrow> database \<Rightarrow> database" where
  "write_u32 key v = write_bytes key (le_bytes 4 v)"

definition write_u64 :: "string \<Rightarrow> u64 \<Rightarrow> database \<Rightarrow> database" where
  "write_u64 key v = write_bytes key (le_bytes 8 v)"

definition write_head :: "chain_head \<Rightarrow> database \<Rightarrow> database" where
  "write_head h db = write_bytes HEAD_HASH (digest_bytes (head_hash h)) (write_u64 HEAD_HEIGHT (head_height h) db)"

definition read_block ::
    "(bytes \<Rightarrow> (block \<times> bytes) option) \<Rightarrow> database \<Rightarrow> block_height \<Rightarrow> (store_error, block option) result" where
  "read_block de db h =
     (case db_blocks db h of
        None \<Rightarrow> Ok None
      | Some raw \<Rightarrow> rbind (rmap_err (CorruptBlock h) (decode de raw)) (\<lambda>b. Ok (Some b)))"

text \<open>The entries of the transaction index: every transaction of a block, by position.\<close>

fun insert_locations :: "u64 \<Rightarrow> nat \<Rightarrow> transaction list \<Rightarrow> (bytes \<rightharpoonup> bytes) \<Rightarrow> (bytes \<rightharpoonup> bytes)" where
  "insert_locations height i [] m = m"
| "insert_locations height i (t # ts) m =
     insert_locations height (Suc i) ts (m(digest_bytes (t_id t) \<mapsto> encode_location height (index_u32 i)))"

definition insert_block :: "block \<Rightarrow> hash \<Rightarrow> database \<Rightarrow> database" where
  "insert_block b hsh db =
     (let height = h_height (b_header b) in
      db\<lparr>db_blocks := (db_blocks db)(height \<mapsto> enc_block b),
         db_height_by_hash := (db_height_by_hash db)(digest_bytes hsh \<mapsto> height),
         db_tx_location := insert_locations height 0 (b_transactions b) (db_tx_location db)\<rparr>)"

section \<open>The acceptance policy\<close>

record acceptance_context =
  ac_network_id :: network_id
  ac_genesis_hash :: hash
  ac_head :: "chain_head option"
  ac_parent :: "block_header option"
  ac_committed :: tx_lookup

definition acceptance_block_context :: "acceptance_context \<Rightarrow> block_context" where
  "acceptance_block_context c = \<lparr>bc_expected_network = ac_network_id c, bc_parent = ac_parent c,
     bc_expected_hash = None, bc_committed = Some (ac_committed c)\<rparr>"

definition policy_evaluate :: "crypto \<Rightarrow> acceptance_context \<Rightarrow> block \<Rightarrow> (acceptance_error, unit) result" where
  "policy_evaluate cr c b =
     (let findings = check_block cr (acceptance_block_context c) b
      in if findings = [] then Ok () else Err (AcceptanceInvalid findings))"

text \<open>\<open>CommittedTransactions\<close>: the index, and what this write transaction has added so far.\<close>

definition committed_lookup :: "database \<Rightarrow> tx_id set \<Rightarrow> tx_lookup" where
  "committed_lookup db pending i =
     (if i \<in> pending then Inr True else Inr (db_tx_location db (digest_bytes i) \<noteq> None))"

section \<open>Appending\<close>

record append_state =
  as_db :: database
  as_head :: chain_head
  as_transaction_count :: u64
  as_appended :: u64
  as_already_present :: u64
  as_parent :: "block_header option"
  as_pending :: "tx_id set"

definition append_present ::
    "crypto \<Rightarrow> (bytes \<Rightarrow> (block \<times> bytes) option) \<Rightarrow> append_state \<Rightarrow> block \<Rightarrow> (store_error, append_state) result" where
  "append_present cr de s b =
     (let height = h_height (b_header b) in
      rbind (read_block de (as_db s) height) (\<lambda>found.
      rbind (ok_or (Inconsistent (NoBlockAtHeight height)) found) (\<lambda>committed.
      if committed = b
      then rbind (padd (as_already_present s) 1) (\<lambda>n. Ok (s\<lparr>as_already_present := n\<rparr>))
      else Err (ForkedHistory height (block_hash cr committed) (block_hash cr b)))))"

definition append_new ::
    "crypto \<Rightarrow> (bytes \<Rightarrow> (block \<times> bytes) option) \<Rightarrow> chain_store \<Rightarrow> append_state \<Rightarrow> block
      \<Rightarrow> (store_error, append_state) result" where
  "append_new cr de st s b =
     (let height = h_height (b_header b) in
      rbind (rmap_err StoreCore (height_next (head_height (as_head s)))) (\<lambda>expected.
      if height \<noteq> expected then Err (NonContiguous expected height)
      else
        rbind (case as_parent s of
                 Some p \<Rightarrow> Ok p
               | None \<Rightarrow>
                   rbind (read_block de (as_db s) (head_height (as_head s))) (\<lambda>found.
                   rbind (ok_or (Inconsistent (NoBlockAtHeight (head_height (as_head s)))) found)
                     (\<lambda>p. Ok (b_header p)))) (\<lambda>parent.
        rbind (rmap_err NotAccepted (policy_evaluate cr
                 \<lparr>ac_network_id = cs_network_id st, ac_genesis_hash = cs_genesis_hash st,
                  ac_head = Some (as_head s), ac_parent = Some parent,
                  ac_committed = committed_lookup (as_db s) (as_pending s)\<rparr> b)) (\<lambda>_.
        rbind (padd (as_transaction_count s) (word_of_nat (length (b_transactions b)))) (\<lambda>txs.
        rbind (padd (as_appended s) 1) (\<lambda>n.
        let hsh = block_hash cr b in
        Ok \<lparr>as_db = insert_block b hsh (as_db s),
            as_head = \<lparr>head_height = height, head_hash = hsh\<rparr>,
            as_transaction_count = txs,
            as_appended = n,
            as_already_present = as_already_present s,
            as_parent = Some (b_header b),
            as_pending = as_pending s \<union> set (map t_id (b_transactions b))\<rparr>))))))"

definition append_step ::
    "crypto \<Rightarrow> (bytes \<Rightarrow> (block \<times> bytes) option) \<Rightarrow> chain_store \<Rightarrow> append_state \<Rightarrow> block
      \<Rightarrow> (store_error, append_state) result" where
  "append_step cr de st s b =
     (if h_height (b_header b) \<le> head_height (as_head s) then append_present cr de s b
      else append_new cr de st s b)"

text \<open>The tables as a write transaction leaves them, and the outcome; nothing is committed yet.\<close>

definition append_transaction ::
    "crypto \<Rightarrow> (bytes \<Rightarrow> (block \<times> bytes) option) \<Rightarrow> chain_store \<Rightarrow> block list
      \<Rightarrow> (store_error, database \<times> batch_outcome) result" where
  "append_transaction cr de st blocks =
     rbind (read_head (cs_database st)) (\<lambda>head.
     rbind (read_u64 (cs_database st) TRANSACTION_COUNT) (\<lambda>txs.
     rbind (try_fold (append_step cr de st)
              \<lparr>as_db = cs_database st, as_head = head, as_transaction_count = txs, as_appended = 0,
               as_already_present = 0, as_parent = None, as_pending = {}\<rparr> blocks) (\<lambda>s.
     Ok (write_u64 TRANSACTION_COUNT (as_transaction_count s) (write_head (as_head s) (as_db s)),
         \<lparr>bo_appended = as_appended s, bo_already_present = as_already_present s, bo_head = as_head s\<rparr>))))"

text \<open>The store after the call, and what the call returned.\<close>

definition append_blocks ::
    "crypto \<Rightarrow> (bytes \<Rightarrow> (block \<times> bytes) option) \<Rightarrow> bool \<Rightarrow> chain_store \<Rightarrow> block list
      \<Rightarrow> chain_store \<times> (store_error, batch_outcome) result" where
  "append_blocks cr de io st blocks =
     (if blocks = [] then
        (st, rbind (read_head (cs_database st))
               (\<lambda>h. Ok \<lparr>bo_appended = 0, bo_already_present = 0, bo_head = h\<rparr>))
      else case append_transaction cr de st blocks of
        Ok (db, out) \<Rightarrow> if io then (st\<lparr>cs_database := db\<rparr>, Ok out) else (st, Err DatabaseError)
      | Err e \<Rightarrow> (st, Err e)
      | Panic \<Rightarrow> (st, Panic))"

definition append_block ::
    "crypto \<Rightarrow> (bytes \<Rightarrow> (block \<times> bytes) option) \<Rightarrow> bool \<Rightarrow> chain_store \<Rightarrow> block
      \<Rightarrow> chain_store \<times> (store_error, append_outcome) result" where
  "append_block cr de io st b =
     (let (st', r) = append_blocks cr de io st [b] in
      (st', rbind r (\<lambda>out. Ok \<lparr>ao_status = (if bo_appended out = 1 then Committed else AlreadyPresent),
                             ao_head = bo_head out\<rparr>)))"

section \<open>Creating and opening\<close>

text \<open>What a path holds: nothing, a file redb cannot open, a database without tables, or a chain.\<close>

datatype chain_file = NoFile | NotRedb | EmptyDatabase | ChainFile database

definition empty_database :: database where
  "empty_database = \<lparr>db_meta = Map.empty, db_blocks = Map.empty, db_height_by_hash = Map.empty,
     db_tx_location = Map.empty\<rparr>"

definition write_genesis :: "crypto \<Rightarrow> network_id \<Rightarrow> hash \<Rightarrow> block \<Rightarrow> (store_error, database) result" where
  "write_genesis cr net g b =
     rbind (rmap_err NotAccepted (policy_evaluate cr
              \<lparr>ac_network_id = net, ac_genesis_hash = g, ac_head = None, ac_parent = None,
               ac_committed = committed_lookup empty_database {}\<rparr> b)) (\<lambda>_.
     Ok (write_u64 TRANSACTION_COUNT (word_of_nat (length (b_transactions b)))
          (write_head \<lparr>head_height = GENESIS, head_hash = g\<rparr>
            (write_bytes GENESIS_HASH (digest_bytes g)
              (write_bytes NETWORK_ID (str_bytes (network_id_str net))
                (write_u32 FORMAT_VERSION STORE_FORMAT_VERSION
                  (insert_block b g empty_database)))))))"

text \<open>The file after the call, and what the call returned. The file is created before the genesis
  block is put to the policy, so a refused genesis leaves a database without tables behind.\<close>

definition init_genesis ::
    "crypto \<Rightarrow> bool \<Rightarrow> bool \<Rightarrow> chain_file \<Rightarrow> genesis_spec \<Rightarrow> chain_file \<times> (store_error, chain_store) result" where
  "init_genesis cr creates io file spec =
     (if file \<noteq> NoFile then (file, Err AlreadyExists)
      else case genesis_build cr spec of
        Ok b \<Rightarrow>
          (let g = block_hash cr b in
           if \<not> creates then (NoFile, Err DatabaseError)
           else case write_genesis cr (gs_network_id spec) g b of
             Ok db \<Rightarrow>
               if \<not> io then (EmptyDatabase, Err DatabaseError)
               else (ChainFile db, Ok \<lparr>cs_database = db, cs_network_id = gs_network_id spec, cs_genesis_hash = g\<rparr>)
           | Err e \<Rightarrow> (EmptyDatabase, Err e)
           | Panic \<Rightarrow> (EmptyDatabase, Panic))
      | Err e \<Rightarrow> (file, Err (StoreCore e))
      | Panic \<Rightarrow> (file, Panic))"

definition check_consistency ::
    "crypto \<Rightarrow> (bytes \<Rightarrow> (block \<times> bytes) option) \<Rightarrow> chain_store \<Rightarrow> (store_error, unit) result" where
  "check_consistency cr de st =
     rbind (read_head (cs_database st)) (\<lambda>head.
     rbind (read_block de (cs_database st) GENESIS) (\<lambda>g0.
     rbind (ok_or (Inconsistent (NoBlockAtHeight GENESIS)) g0) (\<lambda>g.
     if block_hash cr g \<noteq> cs_genesis_hash st
     then Err (Inconsistent (GenesisHashDiffers (cs_genesis_hash st) (block_hash cr g)))
     else if h_network_id (b_header g) \<noteq> cs_network_id st
     then Err (Inconsistent (GenesisNetworkDiffers (cs_network_id st) (h_network_id (b_header g))))
     else
       rbind (read_block de (cs_database st) (head_height head)) (\<lambda>h0.
       rbind (ok_or (Inconsistent (NoBlockAtHeight (head_height head))) h0) (\<lambda>h.
       if block_hash cr h \<noteq> head_hash head
       then Err (Inconsistent (HeadHashDiffers (head_hash head) (block_hash cr h)))
       else Ok ())))))"

definition open_store ::
    "crypto \<Rightarrow> (bytes \<Rightarrow> (block \<times> bytes) option) \<Rightarrow> chain_file \<Rightarrow> (store_error, chain_store) result" where
  "open_store cr de file =
     (case file of
        NoFile \<Rightarrow> Err (NotAChain NoSuchFile)
      | NotRedb \<Rightarrow> Err (NotAChain NotADatabaseFile)
      | EmptyDatabase \<Rightarrow> Err (NotAChain MetaTableMissing)
      | ChainFile db \<Rightarrow>
          rbind (read_u32 db FORMAT_VERSION) (\<lambda>v.
          if v \<noteq> STORE_FORMAT_VERSION then Err (UnsupportedFormatVersion v STORE_FORMAT_VERSION)
          else
            rbind (read_text db NETWORK_ID) (\<lambda>txt.
            rbind (rmap_err StoreCore (network_id_new txt)) (\<lambda>net.
            rbind (read_hash db GENESIS_HASH) (\<lambda>g.
            let st = \<lparr>cs_database = db, cs_network_id = net, cs_genesis_hash = g\<rparr> in
            rbind (check_consistency cr de st) (\<lambda>_. Ok st))))))"

section \<open>Reading\<close>

definition store_head :: "chain_store \<Rightarrow> (store_error, chain_head) result" where
  "store_head st = read_head (cs_database st)"

definition store_status :: "chain_store \<Rightarrow> (store_error, chain_status) result" where
  "store_status st =
     rbind (read_head (cs_database st)) (\<lambda>head.
     rbind (block_count head) (\<lambda>n.
     rbind (read_u64 (cs_database st) TRANSACTION_COUNT) (\<lambda>txs.
     rbind (read_u32 (cs_database st) FORMAT_VERSION) (\<lambda>v.
     Ok \<lparr>st_network_id = cs_network_id st, st_genesis_hash = cs_genesis_hash st, st_head = head,
         st_block_count = n, st_transaction_count = txs, st_format_version = v\<rparr>))))"

definition get_block ::
    "(bytes \<Rightarrow> (block \<times> bytes) option) \<Rightarrow> chain_store \<Rightarrow> block_height \<Rightarrow> (store_error, block option) result" where
  "get_block de st h = read_block de (cs_database st) h"

definition get_block_by_hash ::
    "(bytes \<Rightarrow> (block \<times> bytes) option) \<Rightarrow> chain_store \<Rightarrow> hash \<Rightarrow> (store_error, block option) result" where
  "get_block_by_hash de st x =
     (case db_height_by_hash (cs_database st) (digest_bytes x) of
        None \<Rightarrow> Ok None
      | Some h \<Rightarrow>
          rbind (read_block de (cs_database st) h) (\<lambda>found.
          case found of None \<Rightarrow> Err (Inconsistent (HashIndexDangling h)) | Some b \<Rightarrow> Ok (Some b)))"

definition get_transaction ::
    "(bytes \<Rightarrow> (block \<times> bytes) option) \<Rightarrow> chain_store \<Rightarrow> tx_id \<Rightarrow> (store_error, located_transaction option) result" where
  "get_transaction de st i =
     (case db_tx_location (cs_database st) (digest_bytes i) of
        None \<Rightarrow> Ok None
      | Some raw \<Rightarrow>
          (case decode_location raw of
             None \<Rightarrow> Err (Inconsistent (LocationMalformed i))
           | Some (h, index) \<Rightarrow>
               rbind (read_block de (cs_database st) h) (\<lambda>found.
               case found of
                 None \<Rightarrow> Err (Inconsistent (LocationNoBlock i h))
               | Some b \<Rightarrow>
                   if length (b_transactions b) \<le> unat index then Err (Inconsistent (LocationNoIndex i h index))
                   else let t = b_transactions b ! unat index in
                     if t_id t \<noteq> i then Err (Inconsistent (LocationOtherTransaction i (t_id t)))
                     else Ok (Some \<lparr>lt_height = h, lt_index = index, lt_transaction = t\<rparr>))))"

definition contains_transaction :: "chain_store \<Rightarrow> tx_id \<Rightarrow> (store_error, bool) result" where
  "contains_transaction st i = Ok (db_tx_location (cs_database st) (digest_bytes i) \<noteq> None)"

text \<open>\<open>BlockRange\<close>: what the iterator yields until it is exhausted.\<close>

function block_range ::
    "(bytes \<Rightarrow> (block \<times> bytes) option) \<Rightarrow> database \<Rightarrow> block_height option \<Rightarrow> block_height
      \<Rightarrow> (store_error, block) result list" where
  "block_range de db None end_height = []"
| "block_range de db (Some h) end_height =
     (let nxt = (if end_height \<le> h then None else case height_next h of Ok k \<Rightarrow> Some k | _ \<Rightarrow> None)
      in case read_block de db h of
        Ok (Some b) \<Rightarrow> Ok b # block_range de db nxt end_height
      | Ok None \<Rightarrow> [Err (Inconsistent (NoBlockAtHeight h))]
      | Err e \<Rightarrow> [Err e]
      | Panic \<Rightarrow> [Panic])"
  by pat_completeness auto
termination
proof (relation "measure (\<lambda>(de, db, nxt, e). case nxt of None \<Rightarrow> 0 | Some h \<Rightarrow> 1 + (2 ^ 64 - unat h))")
  fix h e :: block_height and x
  assume "x = (if e \<le> h then None else case height_next h of Ok k \<Rightarrow> Some k | _ \<Rightarrow> None)"
  moreover have "height_next h = Ok k \<Longrightarrow> 2 ^ 64 - unat k < 2 ^ 64 - unat h" for k
    using unat_bound [of k] by (simp add: height_next_Ok_iff)
  ultimately show "((de, db, x, e), de, db, Some h, e)
      \<in> measure (\<lambda>(de, db, nxt, e). case nxt of None \<Rightarrow> 0 | Some h \<Rightarrow> 1 + (2 ^ 64 - unat h))"
    for de :: "bytes \<Rightarrow> (block \<times> bytes) option" and db :: database
    by (auto split: result.splits if_splits)
qed simp

definition iter_blocks ::
    "(bytes \<Rightarrow> (block \<times> bytes) option) \<Rightarrow> chain_store \<Rightarrow> block_height \<Rightarrow> block_height
      \<Rightarrow> (store_error, block) result list" where
  "iter_blocks de st a e = block_range de (cs_database st) (if a \<le> e then Some a else None) e"

text \<open>The store as the source that verification walks.\<close>

definition source_of :: "(bytes \<Rightarrow> (block \<times> bytes) option) \<Rightarrow> chain_store \<Rightarrow> block_source" where
  "source_of de st =
     \<lparr>src_network_id = cs_network_id st,
      src_genesis_hash = cs_genesis_hash st,
      src_head = (case store_head st of Ok h \<Rightarrow> Inr h | _ \<Rightarrow> Inl (SourceError ''head'')),
      src_block_at = (\<lambda>h. case get_block de st h of Ok b \<Rightarrow> Inr b | _ \<Rightarrow> Inl (SourceError ''block''))\<rparr>"

definition verify_from ::
    "crypto \<Rightarrow> (bytes \<Rightarrow> (block \<times> bytes) option) \<Rightarrow> chain_store \<Rightarrow> block_height \<Rightarrow> verification_report" where
  "verify_from cr de st a = verify_chain cr (source_of de st) (default_options\<lparr>vo_from := Some a\<rparr>)"

section \<open>A store that represents a chain\<close>

text \<open>
  The specification of the store is the list of its blocks. \<open>represents\<close> is the invariant: the
  four tables and the records are those of the list, and the list is a valid chain.
\<close>

definition block_table :: "block list \<Rightarrow> (u64 \<rightharpoonup> bytes)" where
  "block_table bs = (\<lambda>h. if unat h < length bs then Some (enc_block (bs ! unat h)) else None)"

definition hash_table :: "crypto \<Rightarrow> block list \<Rightarrow> (bytes \<rightharpoonup> u64)" where
  "hash_table cr bs = foldl (\<lambda>m b. m(digest_bytes (block_hash cr b) \<mapsto> h_height (b_header b))) Map.empty bs"

definition tx_table :: "block list \<Rightarrow> (bytes \<rightharpoonup> bytes)" where
  "tx_table bs = foldl (\<lambda>m b. insert_locations (h_height (b_header b)) 0 (b_transactions b) m) Map.empty bs"

definition tables_of :: "crypto \<Rightarrow> block list \<Rightarrow> database \<Rightarrow> bool" where
  "tables_of cr bs db \<longleftrightarrow> db_blocks db = block_table bs \<and> db_height_by_hash db = hash_table cr bs
     \<and> db_tx_location db = tx_table bs"

definition head_of :: "crypto \<Rightarrow> block list \<Rightarrow> chain_head" where
  "head_of cr bs = \<lparr>head_height = h_height (b_header (last bs)), head_hash = block_hash cr (last bs)\<rparr>"

abbreviation meta_names :: "string list" where
  "meta_names \<equiv> [FORMAT_VERSION, NETWORK_ID, GENESIS_HASH, HEAD_HEIGHT, HEAD_HASH, TRANSACTION_COUNT]"

definition represents :: "crypto \<Rightarrow> block list \<Rightarrow> chain_store \<Rightarrow> bool" where
  "represents cr bs st \<longleftrightarrow>
     valid_chain cr (cs_network_id st) bs \<and> (\<forall>b \<in> set bs. wf_block b) \<and>
     wf_label (network_id_str (cs_network_id st)) \<and>
     cs_genesis_hash st = block_hash cr (hd bs) \<and>
     tables_of cr bs (cs_database st) \<and>
     dom (db_meta (cs_database st)) = set meta_names \<and>
     db_meta (cs_database st) FORMAT_VERSION = Some (le_bytes 4 STORE_FORMAT_VERSION) \<and>
     db_meta (cs_database st) NETWORK_ID = Some (str_bytes (network_id_str (cs_network_id st))) \<and>
     db_meta (cs_database st) GENESIS_HASH = Some (digest_bytes (cs_genesis_hash st)) \<and>
     db_meta (cs_database st) HEAD_HEIGHT = Some (le_bytes 8 (head_height (head_of cr bs))) \<and>
     db_meta (cs_database st) HEAD_HASH = Some (digest_bytes (head_hash (head_of cr bs))) \<and>
     length (chain_ids bs) < 2 ^ 64 \<and>
     db_meta (cs_database st) TRANSACTION_COUNT = Some (le_bytes 8 (word_of_nat (length (chain_ids bs)) :: u64))"

abbreviation decodes_blocks :: "(bytes \<Rightarrow> (block \<times> bytes) option) \<Rightarrow> bool" where
  "decodes_blocks de \<equiv> reads_back enc_block wf_block de"

lemma from_le_bytes_le_bytes: "LENGTH('l) \<le> 8 * n \<Longrightarrow> from_le_bytes (le_bytes n w) = (w :: 'l::len word)"
  by (simp add: from_le_bytes_def array_bytes_def [symmetric] word_rcat_array_bytes)

lemma decode_encode_location: "decode_location (encode_location h i) = Some (h, i)"
  by (simp add: decode_location_def encode_location_def from_le_bytes_le_bytes)

lemma read_head_represents: "represents cr bs st \<Longrightarrow> read_head (cs_database st) = Ok (head_of cr bs)"
  by (simp add: represents_def read_head_def read_u64_def read_hash_def read_meta_def
      from_le_bytes_le_bytes word_rcat_array_bytes head_of_def)

lemma read_count_represents:
  "represents cr bs st \<Longrightarrow> read_u64 (cs_database st) TRANSACTION_COUNT = Ok (word_of_nat (length (chain_ids bs)))"
  by (simp add: represents_def read_u64_def read_meta_def from_le_bytes_le_bytes)

text \<open>The tables grow by one block at a time.\<close>

lemma hash_table_snoc [simp]:
  "hash_table cr (bs @ [b]) = (hash_table cr bs)(digest_bytes (block_hash cr b) \<mapsto> h_height (b_header b))"
  by (simp add: hash_table_def)

lemma tx_table_snoc [simp]:
  "tx_table (bs @ [b]) = insert_locations (h_height (b_header b)) 0 (b_transactions b) (tx_table bs)"
  by (simp add: tx_table_def)

lemma block_table_snoc:
  assumes "unat h = length bs"
  shows "block_table (bs @ [b]) = (block_table bs)(h \<mapsto> enc_block b)"
proof
  fix k
  have "unat k = length bs \<longleftrightarrow> k = h" using assms by (metis word_unat_eq_iff)
  then show "block_table (bs @ [b]) k = ((block_table bs)(h \<mapsto> enc_block b)) k"
    using assms by (auto simp: block_table_def nth_append less_Suc_eq)
qed

lemma insert_block_tables:
  "tables_of cr bs db \<Longrightarrow> unat (h_height (b_header b)) = length bs \<Longrightarrow>
     tables_of cr (bs @ [b]) (insert_block b (block_hash cr b) db)"
  by (simp add: tables_of_def insert_block_def Let_def block_table_snoc)

lemma insert_locations_dom:
  "dom (insert_locations h i ts m) = dom m \<union> digest_bytes ` set (map t_id ts)"
  by (induction ts arbitrary: i m) auto

lemma tx_table_dom: "dom (tx_table bs) = digest_bytes ` set (chain_ids bs)"
  by (induction bs rule: rev_induct) (auto simp: insert_locations_dom, simp_all add: tx_table_def)

lemma tx_table_contains: "tx_table bs (digest_bytes i) \<noteq> None \<longleftrightarrow> i \<in> set (chain_ids bs)"
proof -
  have "tx_table bs (digest_bytes i) \<noteq> None \<longleftrightarrow> digest_bytes i \<in> dom (tx_table bs)" by (simp add: domIff)
  moreover have "inj (digest_bytes :: digest \<Rightarrow> bytes)" by (rule injI) simp
  ultimately show ?thesis by (simp only: tx_table_dom inj_image_mem_iff)
qed

lemma read_block_tables:
  assumes "decodes_blocks de" and "tables_of cr bs db" and "\<forall>b \<in> set bs. wf_block b"
  shows "read_block de db h = Ok (if unat h < length bs then Some (bs ! unat h) else None)"
proof (cases "unat h < length bs")
  case True
  then have "decode de (enc_block (bs ! unat h)) = Ok (bs ! unat h)"
    using assms(3) by (simp add: decode_Ok_iff [OF assms(1)])
  then show ?thesis using True assms(2) by (simp add: read_block_def tables_of_def block_table_def)
qed (use assms(2) in \<open>simp add: read_block_def tables_of_def block_table_def\<close>)

lemma valid_chain_nonempty: "valid_chain cr net bs \<Longrightarrow> bs \<noteq> []"
  by (simp add: valid_chain_def)

lemma valid_chain_head_height:
  "valid_chain cr net bs \<Longrightarrow> unat (h_height (b_header (last bs))) = length bs - 1"
  using valid_chain_height [of cr net bs "length bs - 1"] valid_chain_nonempty [of cr net bs]
  by (simp add: last_conv_nth)

lemma valid_chain_length: "valid_chain cr net bs \<Longrightarrow> length bs \<le> 2 ^ 64"
  using valid_chain_head_height [of cr net bs] unat_bound [of "h_height (b_header (last bs))"] by simp

section \<open>The loop of an append\<close>

text \<open>The specification: what offering a block to a chain does to its list of blocks.\<close>

definition offer :: "crypto \<Rightarrow> network_id \<Rightarrow> block list \<Rightarrow> block \<Rightarrow> block list option" where
  "offer cr net bs b =
     (let h = unat (h_height (b_header b)) in
      if h < length bs then (if bs ! h = b then Some bs else None)
      else if valid_block cr net (Some (b_header (last bs))) b \<and> set (tx_ids b) \<inter> set (chain_ids bs) = {}
      then Some (bs @ [b]) else None)"

fun offer_all :: "crypto \<Rightarrow> network_id \<Rightarrow> block list \<Rightarrow> block list \<Rightarrow> block list option" where
  "offer_all cr net bs [] = Some bs"
| "offer_all cr net bs (b # r) = Option.bind (offer cr net bs b) (\<lambda>bs'. offer_all cr net bs' r)"

text \<open>The state of the loop when the chain so far is \<open>bs\<close>.\<close>

definition loop_state :: "crypto \<Rightarrow> network_id \<Rightarrow> block list \<Rightarrow> append_state \<Rightarrow> bool" where
  "loop_state cr net bs s \<longleftrightarrow>
     valid_chain cr net bs \<and> (\<forall>b \<in> set bs. wf_block b) \<and> tables_of cr bs (as_db s) \<and>
     as_head s = head_of cr bs \<and> unat (as_transaction_count s) = length (chain_ids bs) \<and>
     as_parent s \<in> {None, Some (b_header (last bs))} \<and> as_pending s \<subseteq> set (chain_ids bs)"

lemma offer_valid:
  assumes "valid_chain cr net bs" and "offer cr net bs b = Some bs'"
  shows "valid_chain cr net bs' \<and> (bs' = bs \<or> bs' = bs @ [b]) \<and> b \<in> set bs'"
proof (cases "unat (h_height (b_header b)) < length bs")
  case True
  then have "bs' = bs \<and> bs ! unat (h_height (b_header b)) = b"
    using assms(2) by (simp add: offer_def Let_def split: if_splits)
  then show ?thesis using assms(1) True by (metis nth_mem)
next
  case False
  then have "bs' = bs @ [b] \<and> valid_block cr net (Some (b_header (last bs))) b
      \<and> set (tx_ids b) \<inter> set (chain_ids bs) = {}"
    using assms(2) by (simp add: offer_def Let_def del: set_concat set_map split: if_splits)
  then show ?thesis
    using assms(1) valid_chain_snoc [OF valid_chain_nonempty [OF assms(1)]] by simp
qed

lemma offer_new_height:
  assumes "valid_chain cr net bs" and "valid_block cr net (Some (b_header (last bs))) b"
  shows "unat (h_height (b_header b)) = length bs"
  using assms valid_chain_head_height [OF assms(1)] valid_chain_nonempty [OF assms(1)]
  by (simp add: valid_block_def follows_def)

lemma committed_lookup_loop:
  assumes "loop_state cr net bs s"
  shows "committed_lookup (as_db s) (as_pending s) i = Inr (i \<in> set (chain_ids bs))"
proof -
  have "as_pending s \<subseteq> set (chain_ids bs)" and "db_tx_location (as_db s) = tx_table bs"
    using assms by (simp_all only: loop_state_def tables_of_def)
  then show ?thesis
    using tx_table_contains [of bs i]
    by (cases "i \<in> as_pending s") (auto simp: committed_lookup_def simp del: set_concat set_map)
qed

lemma policy_Ok_iff:
  assumes "loop_state cr net bs s"
  shows "policy_evaluate cr \<lparr>ac_network_id = net, ac_genesis_hash = g, ac_head = x, ac_parent = Some p,
      ac_committed = committed_lookup (as_db s) (as_pending s)\<rparr> b = Ok () \<longleftrightarrow>
    valid_block cr net (Some p) b \<and> set (tx_ids b) \<inter> set (chain_ids bs) = {}"
  unfolding policy_evaluate_def acceptance_block_context_def Let_def
  by (auto simp: check_block_empty_iff fresh_ids_def committed_lookup_loop [OF assms])

lemma policy_no_Panic [simp]: "policy_evaluate cr c b \<noteq> Panic"
  by (simp add: policy_evaluate_def Let_def)

lemma append_present_spec:
  assumes "decodes_blocks de" and "loop_state cr net bs s"
    and "unat (h_height (b_header b)) < length bs"
  shows "append_present cr de s b =
    (if bs ! unat (h_height (b_header b)) = b
     then rbind (padd (as_already_present s) 1) (\<lambda>n. Ok (s\<lparr>as_already_present := n\<rparr>))
     else Err (ForkedHistory (h_height (b_header b))
       (block_hash cr (bs ! unat (h_height (b_header b)))) (block_hash cr b)))"
  using assms read_block_tables [OF assms(1), of cr bs "as_db s"]
  by (simp add: append_present_def Let_def loop_state_def)

lemma append_parent:
  assumes "decodes_blocks de" and "loop_state cr net bs s"
  shows "(case as_parent s of Some p \<Rightarrow> Ok p
      | None \<Rightarrow> rbind (read_block de (as_db s) (head_height (as_head s))) (\<lambda>found.
          rbind (ok_or (Inconsistent (NoBlockAtHeight (head_height (as_head s)))) found)
            (\<lambda>p. Ok (b_header p)))) = Ok (b_header (last bs))"
proof (cases "as_parent s")
  case None
  have ne: "bs \<noteq> []" and h: "unat (head_height (as_head s)) = length bs - 1"
    using assms(2) valid_chain_head_height [of cr net bs] valid_chain_nonempty [of cr net bs]
    by (auto simp: loop_state_def head_of_def)
  then have "read_block de (as_db s) (head_height (as_head s)) = Ok (Some (last bs))"
    using assms read_block_tables [OF assms(1), of cr bs "as_db s"] by (simp add: loop_state_def last_conv_nth)
  then show ?thesis using None by simp
qed (use assms in \<open>auto simp: loop_state_def\<close>)

lemma append_new_Ok:
  assumes de: "decodes_blocks de" and s: "loop_state cr net bs s" and st: "cs_network_id st = net"
    and "wf_block b" and "length bs \<le> unat (h_height (b_header b))"
    and "append_new cr de st s b = Ok s'"
  shows "offer cr net bs b = Some (bs @ [b])" "loop_state cr net (bs @ [b]) s'"
    "unat (as_appended s') = unat (as_appended s) + 1" "as_already_present s' = as_already_present s"
proof -
  from assms(6) obtain txs n where
    pol: "policy_evaluate cr \<lparr>ac_network_id = net, ac_genesis_hash = cs_genesis_hash st,
        ac_head = Some (as_head s), ac_parent = Some (b_header (last bs)),
        ac_committed = committed_lookup (as_db s) (as_pending s)\<rparr> b = Ok ()"
    and txs: "padd (as_transaction_count s) (word_of_nat (length (b_transactions b)))
      = (Ok txs :: (store_error, u64) result)"
    and n: "padd (as_appended s) 1 = (Ok n :: (store_error, u64) result)"
    and s': "s' = \<lparr>as_db = insert_block b (block_hash cr b) (as_db s),
            as_head = \<lparr>head_height = h_height (b_header b), head_hash = block_hash cr b\<rparr>,
            as_transaction_count = txs, as_appended = n,
            as_already_present = as_already_present s, as_parent = Some (b_header b),
            as_pending = as_pending s \<union> set (tx_ids b)\<rparr>"
    by (auto simp: append_new_def Let_def result_simps append_parent [OF de s] st split: if_splits)
  from pol have ok: "valid_block cr net (Some (b_header (last bs))) b" "set (tx_ids b) \<inter> set (chain_ids bs) = {}"
    unfolding policy_Ok_iff [OF s] by simp_all
  then show o: "offer cr net bs b = Some (bs @ [b])" using assms(5) by (simp add: offer_def Let_def)
  have v: "valid_chain cr net bs" using s by (simp add: loop_state_def)
  have h: "unat (h_height (b_header b)) = length bs" by (rule offer_new_height [OF v ok(1)])
  have "fits_u32 (b_transactions b)" using assms(4) by (simp add: wf_block_def)
  then have "unat (word_of_nat (length (b_transactions b)) :: u64) = length (b_transactions b)"
    by (simp add: fits_u32_def unat_of_nat take_bit_nat_eq_self)
  with txs have "unat txs = length (chain_ids (bs @ [b]))"
    using s by (simp add: padd_Ok_iff loop_state_def)
  moreover have "tables_of cr (bs @ [b]) (as_db s')"
    unfolding s' using s insert_block_tables [OF _ h] by (simp add: loop_state_def)
  moreover have "as_pending s' \<subseteq> set (chain_ids (bs @ [b]))"
    using s by (auto simp: s' loop_state_def)
  ultimately show "loop_state cr net (bs @ [b]) s'"
    using offer_valid [OF v o] s assms(4) by (auto simp: loop_state_def s' head_of_def)
  show "unat (as_appended s') = unat (as_appended s) + 1" "as_already_present s' = as_already_present s"
    using n by (simp_all add: s' padd_Ok_iff)
qed

lemma append_new_Err:
  assumes de: "decodes_blocks de" and s: "loop_state cr net bs s" and st: "cs_network_id st = net"
    and "length bs \<le> unat (h_height (b_header b))" and "append_new cr de st s b = Err e"
  shows "offer cr net bs b = None"
proof (rule ccontr)
  assume "offer cr net bs b \<noteq> None"
  then have ok: "valid_block cr net (Some (b_header (last bs))) b" "set (tx_ids b) \<inter> set (chain_ids bs) = {}"
    using assms(4) by (auto simp: offer_def Let_def split: if_splits)
  have v: "valid_chain cr net bs" using s by (simp add: loop_state_def)
  have "unat (h_height (b_header b)) = unat (head_height (as_head s)) + 1"
    using ok(1) s by (simp add: valid_block_def follows_def loop_state_def head_of_def)
  then have "height_next (head_height (as_head s)) = Ok (h_height (b_header b))"
    by (simp add: height_next_Ok_iff)
  then show False
    using assms(5) policy_Ok_iff [OF s, THEN iffD2, OF conjI, OF ok]
    by (auto simp: append_new_def Let_def append_parent [OF de s] st result_simps)
qed

lemma append_new_Panic:
  assumes de: "decodes_blocks de" and s: "loop_state cr net bs s" and st: "cs_network_id st = net"
    and "append_new cr de st s b = Panic"
  shows "2 ^ 64 \<le> unat (as_transaction_count s) + length (b_transactions b) \<or> 2 ^ 64 \<le> unat (as_appended s) + 1"
proof -
  have le: "unat (word_of_nat k :: u64) \<le> k" for k by (simp add: unat_of_nat)
  have "height_next h \<noteq> Panic" for h by (simp add: height_next_def result_simps)
  then show ?thesis
    using assms(4) le [of "length (b_transactions b)"]
    by (auto simp: append_new_def Let_def append_parent [OF de s] st result_simps padd_def word_nat
        split: if_splits)
qed

section \<open>The whole loop\<close>

abbreviation tx_total :: "block list \<Rightarrow> nat" where
  "tx_total bs \<equiv> sum_list (map (\<lambda>b. length (b_transactions b)) bs)"

lemma head_below_iff:
  fixes b :: block
  assumes "loop_state cr net bs s"
  shows "h_height (b_header b) \<le> head_height (as_head s) \<longleftrightarrow> unat (h_height (b_header b)) < length bs"
proof -
  have "valid_chain cr net bs" "as_head s = head_of cr bs" using assms by (simp_all add: loop_state_def)
  then show ?thesis
    using valid_chain_head_height [of cr net bs] valid_chain_nonempty [of cr net bs]
    by (auto simp: word_le_nat_alt head_of_def neq_Nil_conv)
qed

lemma append_step_Ok:
  assumes "decodes_blocks de" and "loop_state cr net bs s" and "cs_network_id st = net"
    and "wf_block b" and "append_step cr de st s b = Ok s'"
  shows "\<exists>new. offer cr net bs b = Some (bs @ new) \<and> loop_state cr net (bs @ new) s' \<and>
    unat (as_appended s') = unat (as_appended s) + length new \<and>
    unat (as_already_present s') + length new = unat (as_already_present s) + 1"
proof (cases "unat (h_height (b_header b)) < length bs")
  case True
  then have "append_present cr de s b = Ok s'"
    using assms(5) head_below_iff [OF assms(2)] by (simp add: append_step_def)
  then obtain n where "bs ! unat (h_height (b_header b)) = b" "s' = s\<lparr>as_already_present := n\<rparr>"
      "unat n = unat (as_already_present s) + 1"
    unfolding append_present_spec [OF assms(1,2) True]
    by (auto simp: result_simps padd_Ok_iff split: if_splits)
  then show ?thesis
    using True assms(2) by (intro exI [of _ "[]"]) (simp add: offer_def Let_def loop_state_def)
next
  case False
  then have n: "append_new cr de st s b = Ok s'"
    using assms(5) head_below_iff [OF assms(2)] by (simp add: append_step_def)
  show ?thesis
    using append_new_Ok [OF assms(1-4) _ n] False by (intro exI [of _ "[b]"]) simp
qed

lemma append_step_Err:
  assumes "decodes_blocks de" and "loop_state cr net bs s" and "cs_network_id st = net"
    and "append_step cr de st s b = Err e"
  shows "offer cr net bs b = None"
proof (cases "unat (h_height (b_header b)) < length bs")
  case True
  then have "append_present cr de s b = Err e"
    using assms(4) head_below_iff [OF assms(2)] by (simp add: append_step_def)
  then show ?thesis
    using True unfolding append_present_spec [OF assms(1,2) True]
    by (auto simp: offer_def Let_def result_simps split: if_splits)
next
  case False
  then have n: "append_new cr de st s b = Err e"
    using assms(4) head_below_iff [OF assms(2)] by (simp add: append_step_def)
  show ?thesis using append_new_Err [OF assms(1-3) _ n] False by simp
qed

lemma append_step_Panic:
  assumes "decodes_blocks de" and "loop_state cr net bs s" and "cs_network_id st = net"
    and "append_step cr de st s b = Panic"
  shows "2 ^ 64 \<le> length (chain_ids bs) + length (b_transactions b)
    \<or> 2 ^ 64 \<le> unat (as_appended s) + unat (as_already_present s) + 1"
proof (cases "unat (h_height (b_header b)) < length bs")
  case True
  then have "append_present cr de s b = Panic"
    using assms(4) head_below_iff [OF assms(2)] by (simp add: append_step_def)
  then show ?thesis
    unfolding append_present_spec [OF assms(1,2) True]
    by (auto simp: result_simps padd_def word_nat split: if_splits)
next
  case False
  then have n: "append_new cr de st s b = Panic"
    using assms(4) head_below_iff [OF assms(2)] by (simp add: append_step_def)
  have "unat (as_transaction_count s) = length (chain_ids bs)" using assms(2) by (simp add: loop_state_def)
  then show ?thesis using append_new_Panic [OF assms(1-3) n] by linarith
qed

lemma append_loop_Ok:
  assumes "decodes_blocks de" and "cs_network_id st = net"
  shows "\<lbrakk>loop_state cr net bs s; \<forall>b \<in> set blocks. wf_block b;
      try_fold (append_step cr de st) s blocks = Ok s'\<rbrakk> \<Longrightarrow>
    \<exists>new. offer_all cr net bs blocks = Some (bs @ new) \<and> loop_state cr net (bs @ new) s' \<and>
      unat (as_appended s') = unat (as_appended s) + length new \<and>
      unat (as_already_present s') + length new = unat (as_already_present s) + length blocks"
proof (induction blocks arbitrary: bs s)
  case (Cons b blocks)
  then obtain s1 where s1: "append_step cr de st s b = Ok s1"
    "try_fold (append_step cr de st) s1 blocks = Ok s'" by (auto simp: result_simps)
  from append_step_Ok [OF assms(1) Cons.prems(1) assms(2) _ s1(1)] Cons.prems(2)
  obtain n1 where n1: "offer cr net bs b = Some (bs @ n1)" "loop_state cr net (bs @ n1) s1"
    "unat (as_appended s1) = unat (as_appended s) + length n1"
    "unat (as_already_present s1) + length n1 = unat (as_already_present s) + 1" by auto
  from Cons.IH [OF n1(2) _ s1(2)] Cons.prems(2) obtain n2 where
    "offer_all cr net (bs @ n1) blocks = Some ((bs @ n1) @ n2)" "loop_state cr net ((bs @ n1) @ n2) s'"
    "unat (as_appended s') = unat (as_appended s1) + length n2"
    "unat (as_already_present s') + length n2 = unat (as_already_present s1) + length blocks" by auto
  with n1 show ?case by (intro exI [of _ "n1 @ n2"]) simp
qed (auto intro!: exI [of _ "[]"])

lemma append_loop_Err:
  assumes "decodes_blocks de" and "cs_network_id st = net"
  shows "\<lbrakk>loop_state cr net bs s; \<forall>b \<in> set blocks. wf_block b;
      try_fold (append_step cr de st) s blocks = Err e\<rbrakk> \<Longrightarrow> offer_all cr net bs blocks = None"
proof (induction blocks arbitrary: bs s)
  case (Cons b blocks)
  show ?case
  proof (cases "append_step cr de st s b")
    case (Ok s1)
    from append_step_Ok [OF assms(1) Cons.prems(1) assms(2) _ Ok] Cons.prems(2)
    obtain n1 where "offer cr net bs b = Some (bs @ n1)" "loop_state cr net (bs @ n1) s1" by auto
    then show ?thesis using Cons.IH [of "bs @ n1" s1] Cons.prems(2,3) Ok by simp
  next
    case (Err e')
    then show ?thesis using append_step_Err [OF assms(1) Cons.prems(1) assms(2) Err] by simp
  next
    case Panic
    then show ?thesis using Cons.prems(3) by simp
  qed
qed simp

lemma append_loop_Panic:
  assumes "decodes_blocks de" and "cs_network_id st = net"
  shows "\<lbrakk>loop_state cr net bs s; \<forall>b \<in> set blocks. wf_block b;
      try_fold (append_step cr de st) s blocks = Panic\<rbrakk> \<Longrightarrow>
    2 ^ 64 \<le> length (chain_ids bs) + tx_total blocks
    \<or> 2 ^ 64 \<le> unat (as_appended s) + unat (as_already_present s) + length blocks"
proof (induction blocks arbitrary: bs s)
  case (Cons b blocks)
  show ?case
  proof (cases "append_step cr de st s b")
    case (Ok s1)
    from append_step_Ok [OF assms(1) Cons.prems(1) assms(2) _ Ok] Cons.prems(2)
    obtain n1 where n1: "offer cr net bs b = Some (bs @ n1)" "loop_state cr net (bs @ n1) s1"
      "unat (as_appended s1) = unat (as_appended s) + length n1"
      "unat (as_already_present s1) + length n1 = unat (as_already_present s) + 1" by auto
    have "n1 = [] \<or> n1 = [b]"
      using n1(1) offer_valid [of cr net bs b] Cons.prems(1) by (auto simp: loop_state_def)
    then have "length (chain_ids (bs @ n1)) \<le> length (chain_ids bs) + length (b_transactions b)" by auto
    then show ?thesis using Cons.IH [OF n1(2)] Cons.prems(2,3) Ok n1(3,4) by fastforce
  next
    case Panic
    then show ?thesis using append_step_Panic [OF assms(1) Cons.prems(1) assms(2) Panic] by fastforce
  qed (use Cons.prems(3) in simp)
qed simp

end
