(* ===== verification/Prunella_Layout.thy ===== *)
theory Prunella_Layout
  imports Prunella_Core
begin

text \<open>
  A decoder for the frozen layout of \<open>docs/PROTOCOL_V1.md\<close>, section 4. The code's decoder is the
  derived Borsh one, which is not in the repository; the theorems about stored chains hold for any
  decoder that reads back what the encoder writes and nothing else (\<^const>\<open>reads_back\<close>). This one
  shows that such a decoder exists, and is what the concrete examples are evaluated with.
\<close>

type_synonym 'a decoder = "bytes \<Rightarrow> ('a \<times> bytes) option"

definition dec_take :: "nat \<Rightarrow> bytes decoder" where
  "dec_take n b = (if n \<le> length b then Some (take n b, drop n b) else None)"

definition dec_map :: "('a \<Rightarrow> 'b) \<Rightarrow> 'a decoder \<Rightarrow> 'b decoder" where
  "dec_map f d b = map_option (\<lambda>(x, r). (f x, r)) (d b)"

definition dec_where :: "('a \<Rightarrow> bool) \<Rightarrow> 'a decoder \<Rightarrow> 'a decoder" where
  "dec_where p d b = (case d b of Some (x, r) \<Rightarrow> if p x then Some (x, r) else None | None \<Rightarrow> None)"

definition dec_pair :: "'a decoder \<Rightarrow> 'b decoder \<Rightarrow> ('a \<times> 'b) decoder" where
  "dec_pair d e b =
     (case d b of None \<Rightarrow> None
      | Some (x, r) \<Rightarrow> (case e r of None \<Rightarrow> None | Some (y, s) \<Rightarrow> Some ((x, y), s)))"

fun dec_times :: "nat \<Rightarrow> 'a decoder \<Rightarrow> 'a list decoder" where
  "dec_times 0 d b = Some ([], b)"
| "dec_times (Suc n) d b = dec_map (\<lambda>(x, xs). x # xs) (dec_pair d (dec_times n d)) b"

definition dec_le :: "nat \<Rightarrow> 'l::len word decoder" where
  "dec_le n = dec_map (\<lambda>b. word_rcat (rev b)) (dec_take n)"

definition dec_array :: "nat \<Rightarrow> 'l::len word decoder" where
  "dec_array n = dec_map word_rcat (dec_take n)"

definition dec_bytes :: "bytes decoder" where
  "dec_bytes b =
     (case dec_le 4 b of None \<Rightarrow> None | Some (n :: u32, r) \<Rightarrow> dec_take (unat n) r)"

definition dec_string :: "string decoder" where
  "dec_string = dec_map (map (\<lambda>x. char_of (unat x))) (dec_where utf8_valid dec_bytes)"

definition dec_vec :: "'a decoder \<Rightarrow> 'a list decoder" where
  "dec_vec d b = (case dec_le 4 b of None \<Rightarrow> None | Some (n :: u32, r) \<Rightarrow> dec_times (unat n) d r)"

section \<open>Reading back\<close>

lemma reads_backI:
  assumes "\<And>x r. ok x \<Longrightarrow> de (enc x @ r) = Some (x, r)"
    and "\<And>b x r. de b = Some (x, r) \<Longrightarrow> ok x \<and> b = enc x @ r"
  shows "reads_back enc ok de"
  using assms by (simp add: reads_back_def)

lemma reads_back_pair:
  assumes "reads_back e1 ok1 d1" and "reads_back e2 ok2 d2"
  shows "reads_back (\<lambda>x. e1 (fst x) @ e2 (snd x)) (\<lambda>x. ok1 (fst x) \<and> ok2 (snd x)) (dec_pair d1 d2)"
proof (rule reads_backI)
  fix b x r
  assume "dec_pair d1 d2 b = Some (x, r)"
  then obtain q where "d1 b = Some (fst x, q)" "d2 q = Some (snd x, r)"
    by (auto simp: dec_pair_def split: option.splits)
  then show "(ok1 (fst x) \<and> ok2 (snd x)) \<and> b = (e1 (fst x) @ e2 (snd x)) @ r"
    using assms unfolding reads_back_def by fastforce
qed (use assms in \<open>auto simp: reads_back_def dec_pair_def\<close>)

lemma reads_back_map:
  assumes "reads_back e ok d" and "\<And>x. ok x \<Longrightarrow> g (f x) = x" and "\<And>y. f (g y) = y"
  shows "reads_back (\<lambda>y. e (g y)) (\<lambda>y. ok (g y)) (dec_map f d)"
proof (rule reads_backI)
  fix b y r
  assume "dec_map f d b = Some (y, r)"
  then obtain x where "d b = Some (x, r)" "y = f x" by (auto simp: dec_map_def)
  then show "ok (g y) \<and> b = e (g y) @ r"
    using assms(1,2) unfolding reads_back_def by fastforce
qed (use assms in \<open>simp add: reads_back_def dec_map_def\<close>)

lemma reads_back_take:
  assumes "\<And>x. length (e x) = n" and "\<And>x. f (e x) = x" and "\<And>b. length b = n \<Longrightarrow> e (f b) = b"
  shows "reads_back e (\<lambda>_. True) (dec_map f (dec_take n))"
proof (rule reads_backI)
  fix b x r
  assume "dec_map f (dec_take n) b = Some (x, r)"
  then have "n \<le> length b" "x = f (take n b)" "r = drop n b"
    by (auto simp: dec_map_def dec_take_def split: if_splits)
  then show "True \<and> b = e x @ r" using assms(3) [of "take n b"] by simp
qed (simp add: dec_map_def dec_take_def assms(1,2))

lemma le_bytes_word_rcat:
  "length b = n \<Longrightarrow> LENGTH('l) = 8 * n \<Longrightarrow> le_bytes n (word_rcat (rev b) :: 'l::len word) = b"
  using array_bytes_word_rcat [of "rev b" n, where 'l = 'l] by (simp add: array_bytes_def)

lemma word_rcat_le_bytes:
  "LENGTH('l) \<le> 8 * n \<Longrightarrow> word_rcat (rev (le_bytes n w)) = (w :: 'l::len word)"
  using word_rcat_array_bytes [of n w] by (simp add: array_bytes_def)

lemma reads_back_le:
  "LENGTH('l) = 8 * n \<Longrightarrow> reads_back (le_bytes n :: 'l::len word \<Rightarrow> bytes) (\<lambda>_. True) (dec_le n)"
  unfolding dec_le_def
  by (rule reads_back_take) (simp_all add: le_bytes_word_rcat word_rcat_le_bytes)

lemma reads_back_array:
  "LENGTH('l) = 8 * n \<Longrightarrow> reads_back (array_bytes n :: 'l::len word \<Rightarrow> bytes) (\<lambda>_. True) (dec_array n)"
  unfolding dec_array_def
  by (rule reads_back_take) (simp_all add: array_bytes_word_rcat word_rcat_array_bytes)

lemma reads_back_u32: "reads_back enc_u32 (\<lambda>_. True) (dec_le 4)"
  and reads_back_u16: "reads_back enc_u16 (\<lambda>_. True) (dec_le 2)"
  and reads_back_u64: "reads_back enc_u64 (\<lambda>_. True) (dec_le 8)"
  using reads_back_le [where 'l = 32 and n = 4] reads_back_le [where 'l = 16 and n = 2]
    reads_back_le [where 'l = 64 and n = 8]
  by (simp_all add: enc_u32_def [abs_def] enc_u16_def [abs_def] enc_u64_def [abs_def])

text \<open>A length and then that many items.\<close>

lemma reads_back_counted:
  assumes "\<And>n x r. length x = n \<Longrightarrow> ok x \<Longrightarrow> d n (e x @ r) = Some (x, r)"
    and "\<And>n b x r. d n b = Some (x, r) \<Longrightarrow> ok x \<and> length x = n \<and> b = e x @ r"
  shows "reads_back (\<lambda>x. enc_u32 (word_of_nat (length x)) @ e x) (\<lambda>x. fits_u32 x \<and> ok x)
    (\<lambda>b. case dec_le 4 b of None \<Rightarrow> None | Some (n :: u32, r) \<Rightarrow> d (unat n) r)"
proof (rule reads_backI)
  fix x r
  assume x: "fits_u32 x \<and> ok x"
  then have "unat (word_of_nat (length x) :: u32) = length x"
    by (simp add: fits_u32_def unat_of_nat take_bit_nat_eq_self)
  moreover have "dec_le 4 (enc_u32 (word_of_nat (length x)) @ e x @ r) = Some (word_of_nat (length x) :: u32, e x @ r)"
    using reads_back_u32 by (simp add: reads_back_def)
  ultimately show "(case dec_le 4 ((enc_u32 (word_of_nat (length x)) @ e x) @ r) of None \<Rightarrow> None
      | Some (n :: u32, r) \<Rightarrow> d (unat n) r) = Some (x, r)"
    using assms(1) x by simp
next
  fix b x r
  assume "(case dec_le 4 b of None \<Rightarrow> None | Some (n :: u32, r) \<Rightarrow> d (unat n) r) = Some (x, r)"
  then obtain n :: u32 and q where n: "dec_le 4 b = Some (n, q)" "d (unat n) q = Some (x, r)"
    by (auto split: option.splits)
  have "b = enc_u32 n @ q" using reads_back_u32 n(1) unfolding reads_back_def by blast
  moreover have "ok x" "length x = unat n" "q = e x @ r" using assms(2) [OF n(2)] by auto
  moreover have "fits_u32 x" using unat_bound [of n] calculation(3) by (simp add: fits_u32_def)
  ultimately show "(fits_u32 x \<and> ok x) \<and> b = (enc_u32 (word_of_nat (length x)) @ e x) @ r" by simp
qed

lemma reads_back_bytes: "reads_back enc_bytes fits_u32 dec_bytes"
proof -
  have "reads_back (\<lambda>x. enc_u32 (word_of_nat (length x)) @ x) (\<lambda>x :: bytes. fits_u32 x \<and> True)
      (\<lambda>b. case dec_le 4 b of None \<Rightarrow> None | Some (n :: u32, r) \<Rightarrow> dec_take (unat n) r)"
    by (rule reads_back_counted) (auto simp: dec_take_def split: if_splits)
  then show ?thesis by (simp add: enc_bytes_def [abs_def] dec_bytes_def [abs_def])
qed

lemma dec_times_reads:
  assumes "reads_back e ok d"
  shows "length x = n \<Longrightarrow> \<forall>y \<in> set x. ok y \<Longrightarrow> dec_times n d (concat (map e x) @ r) = Some (x, r)"
    and "dec_times n d b = Some (x, r) \<Longrightarrow> (\<forall>y \<in> set x. ok y) \<and> length x = n \<and> b = concat (map e x) @ r"
proof -
  show "length x = n \<Longrightarrow> \<forall>y \<in> set x. ok y \<Longrightarrow> dec_times n d (concat (map e x) @ r) = Some (x, r)"
  proof (induction n arbitrary: x)
    case (Suc n)
    then obtain y ys where "x = y # ys" "length ys = n" by (auto simp: length_Suc_conv)
    then show ?case using Suc assms by (simp add: dec_map_def dec_pair_def reads_back_def)
  qed simp
  show "dec_times n d b = Some (x, r) \<Longrightarrow> (\<forall>y \<in> set x. ok y) \<and> length x = n \<and> b = concat (map e x) @ r"
  proof (induction n arbitrary: b x r)
    case (Suc n)
    then obtain y q ys where "d b = Some (y, q)" "dec_times n d q = Some (ys, r)" "x = y # ys"
      by (auto simp: dec_map_def dec_pair_def split: option.splits)
    then show ?case using Suc.IH [of q ys r] assms unfolding reads_back_def by fastforce
  qed simp
qed

lemma reads_back_vec:
  assumes "reads_back e ok d"
  shows "reads_back (enc_vec e) (\<lambda>x. fits_u32 x \<and> (\<forall>y \<in> set x. ok y)) (dec_vec d)"
  using reads_back_counted [of "\<lambda>x. \<forall>y \<in> set x. ok y" "\<lambda>n. dec_times n d" "\<lambda>x. concat (map e x)"]
    dec_times_reads [OF assms]
  by (simp add: enc_vec_def [abs_def] dec_vec_def [abs_def])

section \<open>Blocks\<close>

lemma reads_back_where:
  assumes "reads_back e ok d"
  shows "reads_back e (\<lambda>x. ok x \<and> p x) (dec_where p d)"
  using assms by (auto simp: reads_back_def dec_where_def split: option.splits if_splits)

lemma str_bytes_text: "str_bytes (map (\<lambda>x. char_of (unat x)) b) = b"
proof -
  have "word_of_nat (of_char (char_of (unat x))) = x" for x :: u8
    using unat_bound [of x] by (simp add: of_char_of)
  then show ?thesis by (simp add: str_bytes_def o_def map_idI)
qed

lemma text_str_bytes: "map (\<lambda>x. char_of (unat x)) (str_bytes s) = s"
proof -
  have "char_of (unat (word_of_nat (of_char c) :: u8)) = c" for c
    by (simp add: unat_of_nat take_bit_nat_eq_self nat_of_char_less_256)
  then show ?thesis by (simp add: str_bytes_def o_def map_idI)
qed

lemma reads_back_string: "reads_back enc_string is_string dec_string"
proof -
  have "reads_back (\<lambda>s. enc_bytes (str_bytes s)) (\<lambda>s. fits_u32 (str_bytes s) \<and> utf8_valid (str_bytes s))
      dec_string"
    unfolding dec_string_def
    by (rule reads_back_map [OF reads_back_where [OF reads_back_bytes]])
      (simp_all add: str_bytes_text text_str_bytes)
  then show ?thesis
    by (simp add: enc_string_def [abs_def] is_string_def [abs_def] fits_u32_def conj_commute)
qed

lemma reads_back_cong:
  assumes "reads_back e ok d" and "\<And>x. e x = e' x" and "\<And>x. ok x = ok' x"
  shows "reads_back e' ok' d"
  using assms by (simp add: reads_back_def)

definition transaction_fields ::
    "transaction \<Rightarrow> tx_id \<times> string \<times> schema_version \<times> bytes \<times> public_key \<times> u64 \<times> signature" where
  "transaction_fields t = (t_id t, namespace_str (t_namespace t), t_schema_version t, t_payload t,
     t_signer t, t_nonce t, t_signature t)"

definition dec_transaction :: "transaction decoder" where
  "dec_transaction = dec_map
     (\<lambda>(i, n, v, p, k, c, s). \<lparr>t_id = i, t_namespace = Namespace n, t_schema_version = v, t_payload = p,
        t_signer = k, t_nonce = c, t_signature = s\<rparr>)
     (dec_pair (dec_array 32) (dec_pair dec_string (dec_pair (dec_le 4) (dec_pair dec_bytes
       (dec_pair (dec_array 32) (dec_pair (dec_le 8) (dec_array 64)))))))"

lemma reads_back_transaction: "reads_back enc_transaction wf_transaction dec_transaction"
  unfolding dec_transaction_def
  by (rule reads_back_cong [OF reads_back_map [where g = transaction_fields,
          OF reads_back_pair [OF reads_back_array reads_back_pair [OF reads_back_string
            reads_back_pair [OF reads_back_u32 reads_back_pair [OF reads_back_bytes
            reads_back_pair [OF reads_back_array reads_back_pair [OF reads_back_u64 reads_back_array]]]]]]]])
    (auto simp: transaction_fields_def enc_transaction_def wf_transaction_def)

definition header_fields ::
    "block_header \<Rightarrow> u16 \<times> string \<times> u64 \<times> hash \<times> hash \<times> u32 \<times> u64" where
  "header_fields h = (h_version h, network_id_str (h_network_id h), h_height h, h_previous_hash h,
     h_tx_root h, h_tx_count h, h_timestamp_millis h)"

definition dec_header :: "block_header decoder" where
  "dec_header = dec_map
     (\<lambda>(v, n, h, p, r, c, t). \<lparr>h_version = v, h_network_id = NetworkId n, h_height = h,
        h_previous_hash = p, h_tx_root = r, h_tx_count = c, h_timestamp_millis = t\<rparr>)
     (dec_pair (dec_le 2) (dec_pair dec_string (dec_pair (dec_le 8) (dec_pair (dec_array 32)
       (dec_pair (dec_array 32) (dec_pair (dec_le 4) (dec_le 8)))))))"

lemma reads_back_header: "reads_back enc_header wf_header dec_header"
  unfolding dec_header_def
  by (rule reads_back_cong [OF reads_back_map [where g = header_fields,
          OF reads_back_pair [OF reads_back_u16 reads_back_pair [OF reads_back_string
            reads_back_pair [OF reads_back_u64 reads_back_pair [OF reads_back_array
            reads_back_pair [OF reads_back_array reads_back_pair [OF reads_back_u32 reads_back_u64]]]]]]]])
    (auto simp: header_fields_def enc_header_def wf_header_def)

definition dec_block :: "block decoder" where
  "dec_block = dec_map (\<lambda>(h, ts). \<lparr>b_header = h, b_transactions = ts\<rparr>)
     (dec_pair dec_header (dec_vec dec_transaction))"

lemma reads_back_block: "reads_back enc_block wf_block dec_block"
  unfolding dec_block_def
  by (rule reads_back_cong [OF reads_back_map [where g = "\<lambda>b. (b_header b, b_transactions b)",
          OF reads_back_pair [OF reads_back_header reads_back_vec [OF reads_back_transaction]]]])
    (auto simp: enc_block_def wf_block_def)

text \<open>
  The derived decoders of \<open>NetworkId\<close> and \<open>Namespace\<close> do not apply the label grammar of their
  constructors: the strict decoder accepts the canonical bytes of a block whose transaction has the
  namespace \<open>Not A Label\<close>, which \<open>Namespace::new\<close> refuses.
\<close>

lemma decoding_skips_label_grammar:
  "decode dec_transaction (enc_transaction (sample_tx\<lparr>t_namespace := Namespace ''Not A Label''\<rparr>))
     = Ok (sample_tx\<lparr>t_namespace := Namespace ''Not A Label''\<rparr>)"
  "namespace_new ''Not A Label'' = Err (InvalidNamespace ''Not A Label'' BadFirstCharacter)"
proof -
  have "utf8_valid (str_bytes ''Not A Label'')" by code_simp
  then have "is_string ''Not A Label''" by (simp add: is_string_def fits_u32_def)
  then show "decode dec_transaction (enc_transaction (sample_tx\<lparr>t_namespace := Namespace ''Not A Label''\<rparr>))
     = Ok (sample_tx\<lparr>t_namespace := Namespace ''Not A Label''\<rparr>)"
    using sample_tx_wf by (simp add: decode_Ok_iff [OF reads_back_transaction] wf_transaction_def)
qed code_simp

end
