(* ===== verification/Prunella_Chain.thy ===== *)
theory Prunella_Chain
  imports Prunella_Store Prunella_Layout
begin

text \<open>
  What the store of \<open>crates/prunella-store\<close> promises, over any sequence of calls. A store
  \<^const>\<open>represents\<close> a list of blocks; creating a chain, appending, reopening and every read are
  shown to be the corresponding operation on that list.
\<close>

section \<open>An append refines the specification\<close>

lemma append_step_meta:
  "append_step cr de st s b = Ok s' \<Longrightarrow> db_meta (as_db s') = db_meta (as_db s)"
  by (auto simp: append_step_def append_present_def append_new_def Let_def result_simps insert_block_def
      split: if_splits)

lemma append_loop_meta:
  assumes "try_fold (append_step cr de st) s blocks = Ok s'"
  shows "db_meta (as_db s') = db_meta (as_db s)"
  by (rule try_fold_invariant [OF assms, where P = "\<lambda>x. db_meta (as_db x) = db_meta (as_db s)"])
    (auto dest: append_step_meta)

lemma meta_key_distinct: "distinct meta_names"
  by (simp add: meta_keys)

lemma represents_written:
  assumes "represents cr bs st" and "loop_state cr (cs_network_id st) (bs @ new) s"
    and "db_meta (as_db s) = db_meta (cs_database st)"
  shows "represents cr (bs @ new)
    (st\<lparr>cs_database := write_u64 TRANSACTION_COUNT (as_transaction_count s) (write_head (as_head s) (as_db s))\<rparr>)"
proof -
  have "bs \<noteq> []" using assms(1) valid_chain_nonempty by (auto simp: represents_def)
  then have hd: "hd (bs @ new) = hd bs" by simp
  have "unat (as_transaction_count s) = length (chain_ids (bs @ new))"
    using assms(2) by (simp only: loop_state_def)
  moreover have "word_of_nat (unat (as_transaction_count s)) = as_transaction_count s"
    "unat (as_transaction_count s) < 2 ^ 64"
    using unat_bound [of "as_transaction_count s"] by simp_all
  ultimately have n: "as_transaction_count s = word_of_nat (length (chain_ids (bs @ new)))"
    "length (chain_ids (bs @ new)) < 2 ^ 64"
    by (simp_all only:)
  show ?thesis
    unfolding represents_def
  proof (intro conjI)
    show "length (chain_ids (bs @ new)) < 2 ^ 64" by (rule n(2))
  qed (use assms meta_key_distinct n(1) hd in
      \<open>auto simp: represents_def loop_state_def tables_of_def write_u64_def write_head_def write_bytes_def\<close>)
qed

lemma loop_start:
  assumes "represents cr bs st"
  shows "loop_state cr (cs_network_id st) bs
    \<lparr>as_db = cs_database st, as_head = head_of cr bs,
     as_transaction_count = word_of_nat (length (chain_ids bs)), as_appended = 0,
     as_already_present = 0, as_parent = None, as_pending = {}\<rparr>"
proof -
  have "length (chain_ids bs) < 2 ^ 64" using assms by (simp only: represents_def)
  then have "unat (word_of_nat (length (chain_ids bs)) :: u64) = length (chain_ids bs)"
    by (simp only: unat_of_nat) (simp add: take_bit_nat_eq_self)
  then show ?thesis using assms by (auto simp: loop_state_def represents_def)
qed

lemma append_transaction_represents:
  assumes de: "decodes_blocks de" and rep: "represents cr bs st" and wf: "\<forall>b \<in> set blocks. wf_block b"
  shows "case append_transaction cr de st blocks of
      Ok (db, out) \<Rightarrow> \<exists>new. offer_all cr (cs_network_id st) bs blocks = Some (bs @ new) \<and>
        represents cr (bs @ new) (st\<lparr>cs_database := db\<rparr>) \<and> bo_head out = head_of cr (bs @ new) \<and>
        unat (bo_appended out) = length new \<and>
        unat (bo_already_present out) + length new = length blocks
    | Err e \<Rightarrow> offer_all cr (cs_network_id st) bs blocks = None
    | Panic \<Rightarrow> 2 ^ 64 \<le> length (chain_ids bs) + tx_total blocks \<or> 2 ^ 64 \<le> length blocks"
proof -
  let ?s0 = "\<lparr>as_db = cs_database st, as_head = head_of cr bs,
     as_transaction_count = word_of_nat (length (chain_ids bs)), as_appended = 0,
     as_already_present = 0, as_parent = None, as_pending = {}\<rparr>"
  note s0 = loop_start [OF rep]
  have t: "append_transaction cr de st blocks = rbind (try_fold (append_step cr de st) ?s0 blocks) (\<lambda>s.
     Ok (write_u64 TRANSACTION_COUNT (as_transaction_count s) (write_head (as_head s) (as_db s)),
         \<lparr>bo_appended = as_appended s, bo_already_present = as_already_present s, bo_head = as_head s\<rparr>))"
    by (simp add: append_transaction_def read_head_represents [OF rep] read_count_represents [OF rep])
  show ?thesis
  proof (cases "try_fold (append_step cr de st) ?s0 blocks")
    case (Ok s)
    from append_loop_Ok [OF de refl s0 wf Ok] obtain new where new:
      "offer_all cr (cs_network_id st) bs blocks = Some (bs @ new)"
      "loop_state cr (cs_network_id st) (bs @ new) s"
      "unat (as_appended s) = length new" "unat (as_already_present s) + length new = length blocks"
      by auto
    have "represents cr (bs @ new) (st\<lparr>cs_database :=
        write_u64 TRANSACTION_COUNT (as_transaction_count s) (write_head (as_head s) (as_db s))\<rparr>)"
      using represents_written [OF rep new(2)] append_loop_meta [OF Ok] by simp
    moreover have "as_head s = head_of cr (bs @ new)" using new(2) by (simp add: loop_state_def)
    ultimately show ?thesis using new t Ok by auto
  next
    case (Err e)
    then show ?thesis using append_loop_Err [OF de refl s0 wf Err] t by simp
  next
    case Panic
    then show ?thesis using append_loop_Panic [OF de refl s0 wf Panic] t by simp
  qed
qed

lemma represents_unique:
  assumes "represents cr bs st" and "represents cr bs st'" and "cs_network_id st = cs_network_id st'"
  shows "st = st'"
proof -
  have "db_meta (cs_database st) k = db_meta (cs_database st') k" for k
  proof (cases "k \<in> set meta_names")
    case False
    then have "k \<notin> dom (db_meta (cs_database st))" "k \<notin> dom (db_meta (cs_database st'))"
      using assms(1,2) by (simp_all add: represents_def)
    then show ?thesis by (simp add: domIff)
  qed (use assms in \<open>auto simp: represents_def\<close>)
  then have "db_meta (cs_database st) = db_meta (cs_database st')" by (rule ext)
  moreover have "tables_of cr bs (cs_database st)" "tables_of cr bs (cs_database st')"
    "cs_genesis_hash st = cs_genesis_hash st'"
    using assms(1,2) by (simp_all add: represents_def)
  ultimately show ?thesis using assms(3) by (simp add: tables_of_def)
qed

text \<open>Every call of \<open>append_blocks\<close> is one of: committed as specified, refused, overflown.\<close>

lemma append_blocks_cases:
  assumes de: "decodes_blocks de" and rep: "represents cr bs st" and wf: "\<forall>b \<in> set blocks. wf_block b"
  obtains
    (committed) new st' out where "append_blocks cr de io st blocks = (st', Ok out)"
      "offer_all cr (cs_network_id st) bs blocks = Some (bs @ new)" "represents cr (bs @ new) st'"
      "cs_network_id st' = cs_network_id st" "cs_genesis_hash st' = cs_genesis_hash st"
      "bo_head out = head_of cr (bs @ new)" "unat (bo_appended out) = length new"
      "unat (bo_already_present out) + length new = length blocks"
  | (refused) e where "append_blocks cr de io st blocks = (st, Err e)"
      "io \<longrightarrow> offer_all cr (cs_network_id st) bs blocks = None"
  | (overflow) "append_blocks cr de io st blocks = (st, Panic)"
      "2 ^ 64 \<le> length (chain_ids bs) + tx_total blocks \<or> 2 ^ 64 \<le> length blocks"
proof (cases "blocks = []")
  case True
  then show thesis
    using that(1) [of st "\<lparr>bo_appended = 0, bo_already_present = 0, bo_head = head_of cr bs\<rparr>" "[]"] rep
    by (simp add: append_blocks_def read_head_represents [OF rep])
next
  case False
  note t = append_transaction_represents [OF de rep wf]
  show thesis
  proof (cases "append_transaction cr de st blocks")
    case (Ok r)
    obtain db out where r: "r = (db, out)" by (cases r)
    with t Ok obtain new where "offer_all cr (cs_network_id st) bs blocks = Some (bs @ new)"
      "represents cr (bs @ new) (st\<lparr>cs_database := db\<rparr>)" "bo_head out = head_of cr (bs @ new)"
      "unat (bo_appended out) = length new" "unat (bo_already_present out) + length new = length blocks"
      by auto
    then show thesis
      using that(1) [of "st\<lparr>cs_database := db\<rparr>" out new] that(2) [of DatabaseError] Ok False r
      by (cases io) (simp_all add: append_blocks_def)
  next
    case (Err e)
    then show thesis using that(2) [of e] t False by (simp add: append_blocks_def)
  next
    case Panic
    then show thesis using that(3) t False by (simp add: append_blocks_def)
  qed
qed

section \<open>Creating a chain\<close>

lemma label_chars:
  assumes "wf_label s" and "c \<in> set s"
  shows "is_ascii_lowercase c \<or> is_ascii_digit c \<or> c \<in> set ''._-''"
  using assms by (auto simp: wf_label_def validate_label_def list_all_iff split: list.splits if_splits)

lemma ascii_label_char:
  "is_ascii_lowercase c \<or> is_ascii_digit c \<or> c \<in> set ''._-'' \<Longrightarrow> (of_char c :: nat) < 128"
  by (auto simp: is_ascii_lowercase_def is_ascii_digit_def less_eq_char_def)

lemma text_of_str_bytes [simp]: "text_of_bytes (str_bytes s) = s"
proof -
  have "char_of (unat (word_of_nat (of_char c) :: u8)) = c" for c
    by (simp add: unat_of_nat take_bit_nat_eq_self nat_of_char_less_256)
  then show ?thesis by (simp add: text_of_bytes_def str_bytes_def o_def map_idI)
qed

lemma label_utf8:
  assumes "wf_label s"
  shows "utf8_valid (str_bytes s)"
proof (rule utf8_ascii, rule ballI)
  fix b
  assume "b \<in> set (str_bytes s)"
  then obtain c where "c \<in> set s" "b = word_of_nat (of_char c)" by (auto simp: str_bytes_def)
  then show "b < 128"
    using ascii_label_char [OF label_chars [OF assms]]
    by (simp add: word_less_nat_alt unat_of_nat take_bit_nat_eq_self nat_of_char_less_256)
qed

lemma label_is_string: "wf_label s \<Longrightarrow> is_string s"
  by (simp add: is_string_def label_utf8 wf_label_fits)

lemma genesis_build_Ok_iff:
  "genesis_build cr g = Ok b \<longleftrightarrow> fits_u32 (gs_transactions g) \<and>
     b = \<lparr>b_header = \<lparr>h_version = HEADER_VERSION, h_network_id = gs_network_id g, h_height = GENESIS,
            h_previous_hash = 0, h_tx_root = merkle_root cr (map t_id (gs_transactions g)),
            h_tx_count = word_of_nat (length (gs_transactions g)),
            h_timestamp_millis = gs_timestamp_millis g\<rparr>,
          b_transactions = gs_transactions g\<rparr>"
  by (simp add: genesis_build_def draft_build_Ok_iff)

lemma insert_block_meta [simp]: "db_meta (insert_block b h db) = db_meta db"
  by (simp add: insert_block_def Let_def)

lemma empty_meta [simp]: "db_meta empty_database = Map.empty"
  by (simp add: empty_database_def)

lemma init_genesis_represents:
  assumes "init_genesis cr creates io file spec = (file', Ok st)"
    and "wf_label (network_id_str (gs_network_id spec))" and "\<forall>t \<in> set (gs_transactions spec). wf_transaction t"
  shows "\<exists>b. genesis_build cr spec = Ok b \<and> represents cr [b] st \<and> file = NoFile \<and> file' = ChainFile (cs_database st)"
proof -
  from assms(1) have "file = NoFile" by (auto simp: init_genesis_def split: if_splits)
  with assms(1) obtain b where b: "genesis_build cr spec = Ok b"
    by (cases "genesis_build cr spec") (auto simp: init_genesis_def)
  let ?g = "block_hash cr b"
  from assms(1) \<open>file = NoFile\<close> b obtain db where db: "write_genesis cr (gs_network_id spec) ?g b = Ok db"
    and st: "st = \<lparr>cs_database = db, cs_network_id = gs_network_id spec, cs_genesis_hash = ?g\<rparr>"
    and file': "file' = ChainFile db"
    by (auto simp: init_genesis_def Let_def split: if_splits result.splits)
  have v: "valid_block cr (gs_network_id spec) None b"
    using db by (auto simp: write_genesis_def result_simps policy_evaluate_def acceptance_block_context_def
        Let_def check_block_empty_iff split: if_splits)
  have wf: "wf_block b"
    using b assms(2,3) label_is_string [OF assms(2)]
    by (auto simp: genesis_build_Ok_iff wf_block_def wf_header_def)
  have len: "length (b_transactions b) < 2 ^ 64" using wf by (simp add: wf_block_def fits_u32_def)
  have h: "h_height (b_header b) = 0" using v by (simp add: valid_block_def follows_def)
  have tab: "tables_of cr [b] (insert_block b ?g empty_database)"
    using insert_block_tables [of cr "[]" empty_database b] h
    by (simp add: tables_of_def empty_database_def block_table_def hash_table_def tx_table_def)
  have "valid_chain cr (gs_network_id spec) [b]" using v by (simp add: valid_chain_def valid_block_def)
  moreover have "head_of cr [b] = \<lparr>head_height = GENESIS, head_hash = ?g\<rparr>"
    using h by (simp add: head_of_def GENESIS_def)
  ultimately have "represents cr [b] st"
    using db wf len tab meta_key_distinct assms(2)
    by (auto simp: represents_def st write_genesis_def result_simps write_u64_def write_u32_def
        write_head_def write_bytes_def tables_of_def split: if_splits)
  then show ?thesis using b \<open>file = NoFile\<close> file' st by simp
qed

section \<open>Reading a store that represents a chain\<close>

lemma represents_read_block:
  assumes "decodes_blocks de" and "represents cr bs st"
  shows "read_block de (cs_database st) h = Ok (if unat h < length bs then Some (bs ! unat h) else None)"
  using read_block_tables [OF assms(1), of cr bs] assms(2) by (simp add: represents_def)

lemma represents_chain: "represents cr bs st \<Longrightarrow> valid_chain cr (cs_network_id st) bs"
  by (simp only: represents_def)

lemma hash_table_sound:
  assumes "valid_chain cr net bs" and "hash_table cr bs k = Some h"
  shows "unat h < length bs \<and> k = digest_bytes (block_hash cr (bs ! unat h))"
proof -
  have "hash_table cr cs k = Some h \<Longrightarrow> \<exists>i < length cs. h = h_height (b_header (cs ! i))
      \<and> k = digest_bytes (block_hash cr (cs ! i))" for cs
  proof (induction cs rule: rev_induct)
    case Nil
    then show ?case by (simp add: hash_table_def)
  next
    case (snoc c cs)
    then show ?case by (auto split: if_splits) (auto simp: nth_append less_Suc_eq)
  qed
  from this [OF assms(2)] show ?thesis using valid_chain_height [OF assms(1)] by auto
qed

lemma hash_table_complete: "b \<in> set bs \<Longrightarrow> hash_table cr bs (digest_bytes (block_hash cr b)) \<noteq> None"
  by (induction bs rule: rev_induct) auto

lemma insert_locations_other: "k \<notin> digest_bytes ` set (map t_id ts) \<Longrightarrow> insert_locations h i ts m k = m k"
  by (induction ts arbitrary: i m) auto

lemma insert_locations_nth:
  "distinct (map t_id ts) \<Longrightarrow> j < length ts \<Longrightarrow>
     insert_locations h i ts m (digest_bytes (t_id (ts ! j))) = Some (encode_location h (index_u32 (i + j)))"
proof (induction ts arbitrary: i j m)
  case (Cons t ts)
  show ?case
  proof (cases j)
    case 0
    have "digest_bytes (t_id t) \<notin> digest_bytes ` set (map t_id ts)" using Cons.prems(1) by auto
    then show ?thesis using 0 by (simp add: insert_locations_other)
  next
    case (Suc k)
    then show ?thesis using Cons.IH [of k "Suc i"] Cons.prems by simp
  qed
qed simp

lemma tx_table_nth:
  assumes "distinct (chain_ids bs)" and "i < length bs" and "j < length (b_transactions (bs ! i))"
  shows "tx_table bs (digest_bytes (t_id (b_transactions (bs ! i) ! j)))
    = Some (encode_location (h_height (b_header (bs ! i))) (index_u32 j))"
  using assms
proof (induction bs rule: rev_induct)
  case (snoc b bs)
  show ?case
  proof (cases "i = length bs")
    case True
    then show ?thesis using snoc.prems insert_locations_nth [of "b_transactions b" j _ 0]
      by (simp add: nth_append)
  next
    case False
    with snoc.prems have i: "i < length bs" by simp
    let ?t = "b_transactions (bs ! i) ! j"
    have "?t \<in> set (b_transactions (bs ! i))" using snoc.prems i by (simp add: nth_append)
    then have "t_id ?t \<in> set (chain_ids bs)" using i by auto
    then have "t_id ?t \<notin> set (tx_ids b)" using snoc.prems(1) by (auto simp del: set_concat set_map)
    then have "digest_bytes (t_id ?t) \<notin> digest_bytes ` set (tx_ids b)" by auto
    then show ?thesis
      using snoc.IH snoc.prems i by (simp add: nth_append insert_locations_other)
  qed
qed simp

lemma index_u32_nat: "j < 2 ^ 32 \<Longrightarrow> unat (index_u32 j) = j"
  by (simp add: index_u32_def try_from_nat_def unat_of_nat take_bit_nat_eq_self)

lemma get_transaction_represents:
  assumes de: "decodes_blocks de" and rep: "represents cr bs st"
    and "i < length bs" and "j < length (b_transactions (bs ! i))"
  shows "get_transaction de st (t_id (b_transactions (bs ! i) ! j))
    = Ok (Some \<lparr>lt_height = h_height (b_header (bs ! i)), lt_index = index_u32 j,
                lt_transaction = b_transactions (bs ! i) ! j\<rparr>)"
proof -
  note v = represents_chain [OF rep]
  have "tables_of cr bs (cs_database st)" "\<forall>b \<in> set bs. wf_block b"
    using rep by (auto simp: represents_def)
  then have loc: "db_tx_location (cs_database st) (digest_bytes (t_id (b_transactions (bs ! i) ! j)))
      = Some (encode_location (h_height (b_header (bs ! i))) (index_u32 j))"
    and "wf_block (bs ! i)"
    using tx_table_nth [OF _ assms(3,4)] v assms(3) by (simp_all add: tables_of_def valid_chain_def)
  then have "unat (index_u32 j) = j"
    using assms(4) by (intro index_u32_nat) (simp add: wf_block_def fits_u32_def)
  then show ?thesis
    using assms(3,4) valid_chain_height [OF v assms(3)]
    by (simp add: get_transaction_def loc decode_encode_location represents_read_block [OF de rep] Let_def)
qed

lemma get_transaction_absent:
  assumes "represents cr bs st" and "i \<notin> set (chain_ids bs)"
  shows "get_transaction de st i = Ok None"
proof -
  have "db_tx_location (cs_database st) = tx_table bs"
    using assms(1) by (simp only: represents_def tables_of_def)
  then have "db_tx_location (cs_database st) (digest_bytes i) = None"
    using tx_table_contains [of bs i] assms(2) by (simp del: set_concat set_map)
  then show ?thesis by (simp add: get_transaction_def)
qed

lemma get_block_by_hash_represents:
  assumes de: "decodes_blocks de" and rep: "represents cr bs st"
  shows "case get_block_by_hash de st x of
      Ok None \<Rightarrow> \<forall>b \<in> set bs. block_hash cr b \<noteq> x
    | Ok (Some b) \<Rightarrow> b \<in> set bs \<and> block_hash cr b = x
    | _ \<Rightarrow> False"
proof -
  have t: "db_height_by_hash (cs_database st) = hash_table cr bs"
    using rep by (simp only: represents_def tables_of_def)
  show ?thesis
  proof (cases "hash_table cr bs (digest_bytes x)")
    case None
    then show ?thesis
      by (simp add: get_block_by_hash_def t) (metis None hash_table_complete)
  next
    case (Some h)
    from hash_table_sound [OF represents_chain [OF rep] Some] show ?thesis
      using Some by (simp add: get_block_by_hash_def t represents_read_block [OF de rep])
  qed
qed

section \<open>Opening\<close>

lemma open_represents:
  assumes de: "decodes_blocks de" and rep: "represents cr bs st"
  shows "open_store cr de (ChainFile (cs_database st)) = Ok st"
proof -
  note v = represents_chain [OF rep]
  have ne: "bs \<noteq> []" by (rule valid_chain_nonempty [OF v])
  then have in_bs: "hd bs \<in> set bs" "bs ! 0 = hd bs" by (simp_all add: hd_conv_nth)
  have net: "h_network_id (b_header (hd bs)) = cs_network_id st"
    using v by (cases bs) (simp_all add: valid_chain_def valid_block_def)
  have lab: "wf_label (network_id_str (cs_network_id st))" using rep by (simp only: represents_def)
  have last: "unat (head_height (head_of cr bs)) = length bs - 1"
    by (simp add: head_of_def valid_chain_head_height [OF v])
  have "check_consistency cr de st = Ok ()"
    using rep ne in_bs net last
    by (simp add: check_consistency_def read_head_represents [OF rep] represents_read_block [OF de rep]
        GENESIS_def represents_def last_conv_nth head_of_def)
  moreover have "read_u32 (cs_database st) FORMAT_VERSION = Ok STORE_FORMAT_VERSION"
    "read_text (cs_database st) NETWORK_ID = Ok (network_id_str (cs_network_id st))"
    "read_hash (cs_database st) GENESIS_HASH = Ok (cs_genesis_hash st)"
    using rep label_utf8 [OF lab]
    by (simp_all add: represents_def read_u32_def read_text_def read_hash_def read_meta_def
        from_le_bytes_le_bytes word_rcat_array_bytes)
  moreover have "network_id_new (network_id_str (cs_network_id st)) = Ok (cs_network_id st)"
    using lab by (simp add: network_id_new_def wf_label_def)
  moreover obtain db net g where "st = \<lparr>cs_database = db, cs_network_id = net, cs_genesis_hash = g\<rparr>"
    by (cases st)
  ultimately show ?thesis by (simp add: open_store_def Let_def)
qed

section \<open>Histories\<close>

text \<open>What can happen to an open store: an append, whatever its outcome, or closing and reopening.\<close>

inductive store_step :: "crypto \<Rightarrow> (bytes \<Rightarrow> (block \<times> bytes) option) \<Rightarrow> chain_store \<Rightarrow> chain_store \<Rightarrow> bool"
  for cr :: crypto and de :: "bytes \<Rightarrow> (block \<times> bytes) option" where
  appended: "\<forall>b \<in> set blocks. wf_block b \<Longrightarrow> append_blocks cr de io st blocks = (st', r) \<Longrightarrow> store_step cr de st st'"
| reopened: "open_store cr de (ChainFile (cs_database st)) = Ok st' \<Longrightarrow> store_step cr de st st'"

inductive_cases store_stepE: "store_step cr de st st'"

inductive store_steps :: "crypto \<Rightarrow> (bytes \<Rightarrow> (block \<times> bytes) option) \<Rightarrow> chain_store \<Rightarrow> chain_store \<Rightarrow> bool"
  for cr :: crypto and de :: "bytes \<Rightarrow> (block \<times> bytes) option" where
  no_step: "store_steps cr de st st"
| one_more: "store_steps cr de st st' \<Longrightarrow> store_step cr de st' st'' \<Longrightarrow> store_steps cr de st st''"

text \<open>A store with a past: created at a free path from a specification, then used.\<close>

definition wf_spec :: "genesis_spec \<Rightarrow> bool" where
  "wf_spec g \<longleftrightarrow> wf_label (network_id_str (gs_network_id g)) \<and> (\<forall>t \<in> set (gs_transactions g). wf_transaction t)"

inductive reachable :: "crypto \<Rightarrow> (bytes \<Rightarrow> (block \<times> bytes) option) \<Rightarrow> chain_store \<Rightarrow> bool"
  for cr :: crypto and de :: "bytes \<Rightarrow> (block \<times> bytes) option" where
  created: "wf_spec g \<Longrightarrow> init_genesis cr creates io file g = (file', Ok st) \<Longrightarrow> store_steps cr de st st' \<Longrightarrow> reachable cr de st'"

inductive_cases reachableE: "reachable cr de st"

lemma store_step_represents:
  assumes "store_step cr de st st'" and "decodes_blocks de" and "represents cr bs st"
  shows "\<exists>new. represents cr (bs @ new) st' \<and> cs_network_id st' = cs_network_id st"
  using assms(1)
proof (cases rule: store_step.cases)
  case (appended blocks io r)
  note a = append_blocks_cases [OF assms(2,3) appended(1), of io]
  show ?thesis
  proof (rule a)
    fix e assume "append_blocks cr de io st blocks = (st, Err e)"
    then show ?thesis using appended assms(3) by (intro exI [of _ "[]"]) simp
  next
    assume "append_blocks cr de io st blocks = (st, Panic)"
    then show ?thesis using appended assms(3) by (intro exI [of _ "[]"]) simp
  qed (use appended in auto)
next
  case reopened
  then show ?thesis
    using open_represents [OF assms(2,3)] assms(3) by (intro exI [of _ "[]"]) simp
qed

lemma store_steps_represents:
  assumes "store_steps cr de st st'" and "decodes_blocks de" and "represents cr bs st"
  shows "\<exists>new. represents cr (bs @ new) st' \<and> cs_network_id st' = cs_network_id st"
  using assms(1,3)
proof (induction rule: store_steps.induct)
  case (no_step st)
  then show ?case by (intro exI [of _ "[]"]) simp
next
  case (one_more st st' st'')
  then obtain n where n: "represents cr (bs @ n) st'" "cs_network_id st' = cs_network_id st" by auto
  from store_step_represents [OF one_more.hyps(2) assms(2) n(1)] n(2) show ?case by force
qed

lemma reachable_represents:
  assumes "reachable cr de st" and "decodes_blocks de"
  obtains bs where "represents cr bs st"
  using assms(1)
proof (cases rule: reachable.cases)
  case (created g creates io f f' st0)
  from init_genesis_represents [OF created(2)] created(1) obtain b where "represents cr [b] st0"
    by (auto simp: wf_spec_def)
  from store_steps_represents [OF created(3) assms(2) this] show ?thesis using that by blast
qed

lemma represents_get_block:
  "decodes_blocks de \<Longrightarrow> represents cr bs st \<Longrightarrow>
     get_block de st h = Ok (if unat h < length bs then Some (bs ! unat h) else None)"
  by (simp add: get_block_def represents_read_block)

lemma represents_holds:
  "decodes_blocks de \<Longrightarrow> represents cr bs st \<Longrightarrow> holds_blocks (source_of de st) bs"
  by (simp add: holds_blocks_def source_of_def represents_get_block)

lemma represents_valid:
  assumes de: "decodes_blocks de" and rep: "represents cr bs st"
  shows "is_valid (verify_chain cr (source_of de st) default_options)"
proof -
  note v = represents_chain [OF rep]
  have "src_head (source_of de st) = Inr (head_of cr bs)"
    by (simp add: source_of_def store_head_def read_head_represents [OF rep])
  then show ?thesis
    using verify_chain_empty_iff [OF represents_holds [OF de rep], of "head_of cr bs" cr]
      v valid_chain_nonempty [OF v] valid_chain_length [OF v] valid_chain_head_height [OF v] rep
    by (simp add: is_valid_def source_of_def head_of_def represents_def)
qed

lemma block_range_represents:
  assumes de: "decodes_blocks de" and rep: "represents cr bs st"
  shows "h \<le> e \<Longrightarrow> block_range de (cs_database st) (Some h) e =
    map Ok (take (Suc (unat e) - unat h) (drop (unat h) bs)) @
    (if length bs \<le> unat e
     then [Err (Inconsistent (NoBlockAtHeight (if unat h < length bs then word_of_nat (length bs) else h)))]
     else [])"
proof (induction "length bs - unat h" arbitrary: h rule: less_induct)
  case less
  show ?case
  proof (cases "unat h < length bs")
    case False
    then show ?thesis using less.prems by (simp add: represents_read_block [OF de rep] word_le_nat_alt)
  next
    case lt: True
    show ?thesis
    proof (cases "h = e")
      case True
      then have "take (Suc (unat e) - unat h) (drop (unat h) bs) = [bs ! unat h]"
        using lt by (simp add: Cons_nth_drop_Suc [symmetric])
      then show ?thesis using True lt by (simp add: represents_read_block [OF de rep])
    next
      case False
      then have he: "unat h < unat e" using less.prems by (simp add: word_le_nat_alt word_unat_eq_iff)
      then have u: "unat (h + 1) = unat h + 1"
        using unat_bound [of e] by (simp add: unat_word_ariths)
      then have n: "height_next h = Ok (h + 1)" by (simp add: height_next_Ok_iff)
      have "h + 1 \<le> e" using he u by (simp add: word_le_nat_alt)
      note IH = less.hyps [OF _ this]
      have e: "\<not> unat h + 1 < length bs \<Longrightarrow> word_of_nat (length bs) = h + 1"
      proof -
        assume "\<not> unat h + 1 < length bs"
        then have "length bs = unat (h + 1)" using lt u by simp
        then show "word_of_nat (length bs) = h + 1" by simp
      qed
      have "take (Suc (unat e) - unat h) (drop (unat h) bs)
          = bs ! unat h # take (Suc (unat e) - unat (h + 1)) (drop (unat (h + 1)) bs)"
        using he lt by (simp add: u Cons_nth_drop_Suc [symmetric] Suc_diff_le)
      then show ?thesis
        using IH lt he e u False less.prems
        by (simp add: represents_read_block [OF de rep] n word_le_nat_alt)
    qed
  qed
qed

lemma offer_stored:
  assumes "valid_chain cr net bs" and "b \<in> set bs"
  shows "offer cr net bs b = Some bs"
proof -
  obtain i where "i < length bs" "bs ! i = b" using assms(2) by (auto simp: in_set_conv_nth)
  moreover from this have "unat (h_height (b_header b)) = i" using valid_chain_height [OF assms(1)] by blast
  ultimately show ?thesis by (simp add: offer_def Let_def)
qed

lemma offer_all_valid:
  "valid_chain cr net bs \<Longrightarrow> offer_all cr net bs blocks = Some bs' \<Longrightarrow>
     valid_chain cr net bs' \<and> set bs \<union> set blocks \<subseteq> set bs'"
proof (induction blocks arbitrary: bs)
  case (Cons b blocks)
  then obtain bs1 where o: "offer cr net bs b = Some bs1" "offer_all cr net bs1 blocks = Some bs'"
    by (auto simp: bind_eq_Some_conv)
  show ?case using offer_valid [OF Cons.prems(1) o(1)] Cons.IH [OF _ o(2)] by auto
qed simp

lemma offer_all_stored:
  "valid_chain cr net bs \<Longrightarrow> set blocks \<subseteq> set bs \<Longrightarrow> offer_all cr net bs blocks = Some bs"
  by (induction blocks) (auto simp: offer_stored)

lemma offer_all_append:
  "offer_all cr net bs (xs @ ys) = Option.bind (offer_all cr net bs xs) (\<lambda>b. offer_all cr net b ys)"
  by (induction xs arbitrary: bs) (auto split: bind_split)

text \<open>An append in terms of the specification, when no counter can overflow.\<close>

definition room_for :: "block list \<Rightarrow> block list \<Rightarrow> bool" where
  "room_for bs blocks \<longleftrightarrow> length (chain_ids bs) + tx_total blocks < 2 ^ 64 \<and> length blocks < 2 ^ 64"

lemma append_blocks_Some:
  assumes "decodes_blocks de" and "represents cr bs st" and "\<forall>b \<in> set blocks. wf_block b"
    and "room_for bs blocks" and "offer_all cr (cs_network_id st) bs blocks = Some bs'"
  obtains st' out where "append_blocks cr de True st blocks = (st', Ok out)" "represents cr bs' st'"
    "cs_network_id st' = cs_network_id st" "bo_head out = head_of cr bs'"
    "unat (bo_appended out) + length bs = length bs'"
    "unat (bo_appended out) + unat (bo_already_present out) = length blocks"
proof (rule append_blocks_cases [OF assms(1-3), of True])
  assume "append_blocks cr de True st blocks = (st, Panic)"
    "2 ^ 64 \<le> length (chain_ids bs) + tx_total blocks \<or> 2 ^ 64 \<le> length blocks"
  then show thesis using assms(4) by (simp add: room_for_def)
qed (use assms(5) that in auto)

lemma append_blocks_None:
  assumes "decodes_blocks de" and "represents cr bs st" and "\<forall>b \<in> set blocks. wf_block b"
    and "room_for bs blocks" and "offer_all cr (cs_network_id st) bs blocks = None"
  shows "\<exists>e. append_blocks cr de io st blocks = (st, Err e)"
proof (rule append_blocks_cases [OF assms(1-3), of io])
  assume "append_blocks cr de io st blocks = (st, Panic)"
    "2 ^ 64 \<le> length (chain_ids bs) + tx_total blocks \<or> 2 ^ 64 \<le> length blocks"
  then show ?thesis using assms(4) by (simp add: room_for_def)
qed (use assms(5) in auto)

lemma represents_functional:
  assumes "decodes_blocks de" and "represents cr bs st" and "represents cr bs' st"
  shows "bs = bs'"
proof (rule nth_equalityI)
  have "valid_chain cr (cs_network_id st) bs" "valid_chain cr (cs_network_id st) bs'"
    using assms(2,3) represents_chain by blast+
  moreover have "head_of cr bs = head_of cr bs'"
    using read_head_represents [OF assms(2)] read_head_represents [OF assms(3)] by simp
  ultimately show len: "length bs = length bs'"
    using valid_chain_head_height valid_chain_nonempty unfolding head_of_def
    by (metis chain_head.ext_inject diff_add_inverse2 length_0_conv less_one linorder_not_less le_add_diff_inverse2)
  fix i
  assume i: "i < length bs"
  have "unat (h_height (b_header (bs ! i))) = i" 
    using valid_chain_height [OF represents_chain [OF assms(2)] i] .
  then show "bs ! i = bs' ! i"
    using represents_get_block [OF assms(1,2), of "h_height (b_header (bs ! i))"]
      represents_get_block [OF assms(1,3), of "h_height (b_header (bs ! i))"] i len by simp
qed

lemma append_blocks_Ok:
  assumes "decodes_blocks de" and "represents cr bs st" and "\<forall>b \<in> set blocks. wf_block b"
    and "append_blocks cr de io st blocks = (st', Ok out)"
  shows "\<exists>new. offer_all cr (cs_network_id st) bs blocks = Some (bs @ new) \<and> represents cr (bs @ new) st' \<and>
    cs_network_id st' = cs_network_id st \<and> bo_head out = head_of cr (bs @ new) \<and>
    unat (bo_appended out) = length new \<and> unat (bo_already_present out) + length new = length blocks"
  by (rule append_blocks_cases [OF assms(1-3), of io]) (use assms(4) in auto)

lemma chain_ids_position:
  assumes "i \<in> set (chain_ids bs)"
  obtains k j where "k < length bs" "j < length (b_transactions (bs ! k))" "i = t_id (b_transactions (bs ! k) ! j)"
proof -
  from assms obtain b t where "b \<in> set bs" "t \<in> set (b_transactions b)" "i = t_id t" by auto
  then show thesis using that by (metis in_set_conv_nth)
qed

section \<open>A concrete chain\<close>

text \<open>The chain of \<^const>\<open>sample_genesis\<close>, and an empty block that follows its genesis block.\<close>

definition sample_store :: chain_store where
  "sample_store = \<lparr>cs_database = (case write_genesis sample_crypto (NetworkId ''demo'')
       (block_hash sample_crypto sample_block) sample_block of Ok db \<Rightarrow> db | _ \<Rightarrow> empty_database),
     cs_network_id = NetworkId ''demo'', cs_genesis_hash = block_hash sample_crypto sample_block\<rparr>"

definition sample_child :: block where
  "sample_child = \<lparr>b_header = \<lparr>h_version = 1, h_network_id = NetworkId ''demo'', h_height = 1,
       h_previous_hash = block_hash sample_crypto sample_block, h_tx_root = merkle_root sample_crypto [],
       h_tx_count = 0, h_timestamp_millis = 10\<rparr>, b_transactions = []\<rparr>"

lemma sample_child_wf: "wf_block sample_child"
  by (simp add: wf_block_def wf_header_def sample_child_def fits_u32_def demo_string)

lemma sample_created: "init_genesis sample_crypto True True NoFile sample_genesis = (ChainFile (cs_database sample_store), Ok sample_store)"
proof -
  have "valid_block sample_crypto (NetworkId ''demo'') None sample_block"
    using sample_chain_valid by (simp add: valid_chain_def)
  then have "policy_evaluate sample_crypto
      \<lparr>ac_network_id = NetworkId ''demo'', ac_genesis_hash = g, ac_head = None, ac_parent = None,
       ac_committed = committed_lookup empty_database {}\<rparr> sample_block = Ok ()" for g
    by (simp add: policy_evaluate_def acceptance_block_context_def Let_def check_block_empty_iff
        fresh_ids_def committed_lookup_def empty_database_def)
  then have "write_genesis sample_crypto (NetworkId ''demo'') (block_hash sample_crypto sample_block) sample_block
      = Ok (cs_database sample_store)"
    by (simp add: write_genesis_def sample_store_def)
  moreover have "gs_network_id sample_genesis = NetworkId ''demo''" by (simp add: sample_genesis_def)
  moreover have "sample_store = \<lparr>cs_database = cs_database sample_store, cs_network_id = NetworkId ''demo'',
      cs_genesis_hash = block_hash sample_crypto sample_block\<rparr>" by (simp add: sample_store_def)
  ultimately show ?thesis by (simp add: init_genesis_def sample_genesis_build Let_def)
qed

lemma sample_spec_wf: "wf_spec sample_genesis"
  by (simp add: wf_spec_def sample_genesis_def demo_string sample_tx_wf)

lemma sample_represents: "represents sample_crypto [sample_block] sample_store"
  using init_genesis_represents [OF sample_created] sample_spec_wf
  by (auto simp: wf_spec_def sample_genesis_build)

lemma sample_reachable: "reachable sample_crypto de sample_store"
  by (rule reachable.created [OF sample_spec_wf sample_created store_steps.no_step])

lemma sample_network: "cs_network_id sample_store = NetworkId ''demo''"
  by (simp add: sample_store_def)

lemma sample_offer: "offer_all sample_crypto (NetworkId ''demo'') [sample_block] [sample_block, sample_child]
    = Some [sample_block, sample_child]"
proof -
  have "offer sample_crypto (NetworkId ''demo'') [sample_block] sample_block = Some [sample_block]"
    by (rule offer_stored [OF sample_chain_valid]) simp
  moreover have "offer sample_crypto (NetworkId ''demo'') [sample_block] sample_child = Some [sample_block, sample_child]"
    by (simp add: offer_def sample_child_def valid_block_def follows_def HEADER_VERSION_def block_hash_def
        sample_block_def Let_def)
  ultimately show ?thesis by simp
qed

lemma sample_room: "room_for [sample_block] [sample_block, sample_child]"
  by (simp add: room_for_def sample_block_def sample_child_def)

lemma sample_blocks_wf: "\<forall>b \<in> set [sample_block, sample_child]. wf_block b"
  by (simp add: sample_block_wf sample_child_wf)

section \<open>What the store promises\<close>

text \<open>
  C11: Every store a program can hold, created by \<open>init_genesis\<close> and then used by any sequence of
  appends (accepted, refused, or failing to commit) and reopenings, represents a valid chain of
  blocks: its tables and records are exactly those of the chain, so the indexes never disagree with the
  blocks, no transaction id occurs twice and every block is valid after its parent.
\<close>

theorem store_invariant:
  assumes "reachable cr de st" and "decodes_blocks de"
  shows "\<exists>bs. represents cr bs st \<and> valid_chain cr (cs_network_id st) bs"
proof -
  from reachable_represents [OF assms] obtain bs where "represents cr bs st" .
  then show ?thesis using represents_chain by blast
qed

theorem store_invariant_witness:
  "\<exists>bs. represents sample_crypto bs sample_store \<and> valid_chain sample_crypto (cs_network_id sample_store) bs"
  by (rule store_invariant [OF sample_reachable reads_back_block])

text \<open>
  C12: \<open>append_blocks\<close> refines its specification on lists of blocks and is all or nothing. If every
  block of the batch is, in its turn, either already committed at its height or valid after the
  head with fresh transaction ids, the whole batch is committed, and the outcome counts the blocks
  added and those already there; otherwise, or when the commit fails, the call returns an error
  and the store is unchanged. There is no panic while the counters have room.
\<close>

theorem append_refines:
  assumes "decodes_blocks de" and "represents cr bs st" and "\<forall>b \<in> set blocks. wf_block b"
    and "room_for bs blocks"
  shows "case offer_all cr (cs_network_id st) bs blocks of
      None \<Rightarrow> \<exists>e. append_blocks cr de io st blocks = (st, Err e)
    | Some bs' \<Rightarrow>
        (\<exists>st' out. append_blocks cr de True st blocks = (st', Ok out) \<and> represents cr bs' st' \<and>
          bo_head out = head_of cr bs' \<and> unat (bo_appended out) + length bs = length bs' \<and>
          unat (bo_appended out) + unat (bo_already_present out) = length blocks) \<and>
        (blocks \<noteq> [] \<longrightarrow> append_blocks cr de False st blocks = (st, Err DatabaseError))"
proof (cases "offer_all cr (cs_network_id st) bs blocks")
  case None
  then show ?thesis using append_blocks_None [OF assms None] by simp
next
  case (Some bs')
  from append_blocks_Some [OF assms Some] obtain st' out where
    *: "append_blocks cr de True st blocks = (st', Ok out)" "represents cr bs' st'"
    "bo_head out = head_of cr bs'" "unat (bo_appended out) + length bs = length bs'"
    "unat (bo_appended out) + unat (bo_already_present out) = length blocks" by metis
  moreover from *(1) have "blocks \<noteq> [] \<Longrightarrow> append_blocks cr de False st blocks = (st, Err DatabaseError)"
    by (auto simp: append_blocks_def split: result.splits prod.splits)
  ultimately show ?thesis using Some by auto
qed

theorem append_refines_witness:
  "\<exists>st' out. append_blocks sample_crypto dec_block True sample_store [sample_block, sample_child] = (st', Ok out) \<and>
     represents sample_crypto [sample_block, sample_child] st' \<and> unat (bo_appended out) = 1"
  using append_refines [OF reads_back_block sample_represents sample_blocks_wf sample_room, of True,
      unfolded sample_network sample_offer]
  by auto

text \<open>
  Appending is safe to retry: offering a batch again after it was accepted succeeds, adds
  nothing, reports every block as already present and leaves the store as it is, byte for byte.
\<close>

theorem append_idempotent:
  assumes "decodes_blocks de" and "represents cr bs st" and "\<forall>b \<in> set blocks. wf_block b"
    and "append_blocks cr de True st blocks = (st', Ok out)" and "represents cr bs' st'"
    and "room_for bs' blocks"
  shows "\<exists>out'. append_blocks cr de True st' blocks = (st', Ok out') \<and> bo_appended out' = 0 \<and>
    unat (bo_already_present out') = length blocks \<and> bo_head out' = bo_head out"
proof -
  from append_blocks_Ok [OF assms(1-4)] obtain new where
    new: "offer_all cr (cs_network_id st) bs blocks = Some (bs @ new)" "represents cr (bs @ new) st'"
      "cs_network_id st' = cs_network_id st" "bo_head out = head_of cr (bs @ new)" by auto
  have bs': "bs' = bs @ new"
    by (rule represents_functional [OF assms(1,5) new(2)])
  have "valid_chain cr (cs_network_id st) (bs @ new)" "set blocks \<subseteq> set (bs @ new)"
    using offer_all_valid [OF represents_chain [OF assms(2)] new(1)] by auto
  then have "offer_all cr (cs_network_id st') bs' blocks = Some bs'"
    unfolding new(3) bs' by (rule offer_all_stored)
  from append_blocks_Some [OF assms(1,5,3,6) this] obtain st'' out' where
    "append_blocks cr de True st' blocks = (st'', Ok out')" "represents cr bs' st''"
    "cs_network_id st'' = cs_network_id st'" "bo_head out' = head_of cr bs'"
    "unat (bo_appended out') = 0" "unat (bo_already_present out') = length blocks" by auto
  then show ?thesis
    using represents_unique [of cr bs' st'' st'] assms(5) new(4) bs' by (auto simp: unat_eq_0)
qed

theorem append_idempotent_witness:
  "\<exists>st' out'. append_blocks sample_crypto dec_block True st' [sample_block, sample_child] = (st', Ok out') \<and>
     unat (bo_already_present out') = 2"
proof -
  obtain st' out where "append_blocks sample_crypto dec_block True sample_store [sample_block, sample_child] = (st', Ok out)"
    "represents sample_crypto [sample_block, sample_child] st'"
    using append_blocks_Some [OF reads_back_block sample_represents sample_blocks_wf sample_room]
    unfolding sample_network sample_offer by blast
  moreover have "room_for [sample_block, sample_child] [sample_block, sample_child]"
    by (simp add: room_for_def sample_block_def sample_child_def)
  ultimately show ?thesis
    using append_idempotent [OF reads_back_block sample_represents sample_blocks_wf] by force
qed

text \<open>
  A batch is the sequence of its parts: appending \<open>xs\<close> and then \<open>ys\<close> leaves the same store, byte
  for byte, as appending \<open>xs @ ys\<close> in one transaction, and the counts add up.
\<close>

theorem append_batch:
  assumes "decodes_blocks de" and "represents cr bs st" and "\<forall>b \<in> set (xs @ ys). wf_block b"
    and "room_for bs (xs @ ys)"
    and "append_blocks cr de True st xs = (st1, Ok o1)" and "append_blocks cr de True st1 ys = (st2, Ok o2)"
  shows "\<exists>out. append_blocks cr de True st (xs @ ys) = (st2, Ok out) \<and> bo_head out = bo_head o2 \<and>
    unat (bo_appended out) = unat (bo_appended o1) + unat (bo_appended o2)"
proof -
  have wf: "\<forall>b \<in> set xs. wf_block b" "\<forall>b \<in> set ys. wf_block b" using assms(3) by auto
  from append_blocks_Ok [OF assms(1,2) wf(1) assms(5)] obtain n1 where
    n1: "offer_all cr (cs_network_id st) bs xs = Some (bs @ n1)" "represents cr (bs @ n1) st1"
      "cs_network_id st1 = cs_network_id st" "unat (bo_appended o1) = length n1" by auto
  from append_blocks_Ok [OF assms(1) n1(2) wf(2) assms(6)] obtain n2 where
    n2: "offer_all cr (cs_network_id st) (bs @ n1) ys = Some (bs @ n1 @ n2)" "represents cr (bs @ n1 @ n2) st2"
      "cs_network_id st2 = cs_network_id st" "unat (bo_appended o2) = length n2"
      "bo_head o2 = head_of cr (bs @ n1 @ n2)" using n1(3) by auto
  have "offer_all cr (cs_network_id st) bs (xs @ ys) = Some (bs @ n1 @ n2)"
    by (simp add: offer_all_append n1(1) n2(1))
  from append_blocks_Some [OF assms(1-4) this] obtain st' out where
    "append_blocks cr de True st (xs @ ys) = (st', Ok out)" "represents cr (bs @ n1 @ n2) st'"
    "cs_network_id st' = cs_network_id st" "bo_head out = head_of cr (bs @ n1 @ n2)"
    "unat (bo_appended out) + length bs = length (bs @ n1 @ n2)" by metis
  then show ?thesis
    using represents_unique [of cr "bs @ n1 @ n2" st' st2] n1(4) n2 by auto
qed

theorem append_batch_witness:
  "\<exists>st2 out. append_blocks sample_crypto dec_block True sample_store ([sample_block] @ [sample_child]) = (st2, Ok out) \<and>
     unat (bo_appended out) = 1"
proof -
  have wf: "\<forall>b \<in> set [sample_block]. wf_block b" "\<forall>b \<in> set [sample_child]. wf_block b"
    and wf2: "\<forall>b \<in> set ([sample_block] @ [sample_child]). wf_block b"
    using sample_blocks_wf by simp_all
  have room: "room_for [sample_block] [sample_block]" "room_for [sample_block] [sample_child]"
    "room_for [sample_block] ([sample_block] @ [sample_child])"
    by (simp_all add: room_for_def sample_block_def sample_child_def)
  have o: "offer_all sample_crypto (NetworkId ''demo'') [sample_block] [sample_block] = Some [sample_block]"
    by (rule offer_all_stored [OF sample_chain_valid]) simp
  then have "offer_all sample_crypto (NetworkId ''demo'') [sample_block] [sample_child] = Some [sample_block, sample_child]"
    using sample_offer offer_all_append [of _ _ "[sample_block]" "[sample_block]" "[sample_child]"]
    by (simp del: offer_all.simps)
  note offers = o this
  obtain st1 o1 where 1: "append_blocks sample_crypto dec_block True sample_store [sample_block] = (st1, Ok o1)"
    "represents sample_crypto [sample_block] st1" "cs_network_id st1 = NetworkId ''demo''"
    "unat (bo_appended o1) + length [sample_block] = length [sample_block]"
    using append_blocks_Some [OF reads_back_block sample_represents wf(1) room(1)]
    unfolding sample_network offers by metis
  obtain st2 o2 where 2: "append_blocks sample_crypto dec_block True st1 [sample_child] = (st2, Ok o2)"
    "unat (bo_appended o2) + length [sample_block] = length [sample_block, sample_child]"
    using append_blocks_Some [OF reads_back_block 1(2) wf(2) room(2)]
    unfolding 1(3) offers by metis
  show ?thesis
    using append_batch [OF reads_back_block sample_represents wf2 room(3) 1(1) 2(1)] 1(4) 2(2) by auto
qed

text \<open>
  C13: Committed history never changes: whatever is appended to a store afterwards, and however often
  it is reopened, a block that could be read at a height is read at that height, and a transaction
  is found where it was found before.
\<close>

theorem history_immutable:
  assumes "reachable cr de st" and "decodes_blocks de" and "store_steps cr de st st'"
  shows "(get_block de st h = Ok (Some b) \<longrightarrow> get_block de st' h = Ok (Some b)) \<and>
    (get_transaction de st i = Ok (Some l) \<longrightarrow> get_transaction de st' i = Ok (Some l))"
proof -
  from reachable_represents [OF assms(1,2)] obtain bs where bs: "represents cr bs st" .
  from store_steps_represents [OF assms(3,2) bs] obtain new where new: "represents cr (bs @ new) st'" by auto
  have "get_transaction de st' i = Ok (Some l)" if l: "get_transaction de st i = Ok (Some l)"
  proof -
    from l get_transaction_absent [OF bs, of i de] have "i \<in> set (chain_ids bs)" by fastforce
    then obtain k j where kj: "k < length bs" "j < length (b_transactions (bs ! k))"
      "i = t_id (b_transactions (bs ! k) ! j)" by (rule chain_ids_position)
    have "(bs @ new) ! k = bs ! k" using kj(1) by (simp add: nth_append)
    then show ?thesis
      using get_transaction_represents [OF assms(2) bs kj(1,2)]
        get_transaction_represents [OF assms(2) new, of k j] kj l by simp
  qed
  then show ?thesis
    using represents_get_block [OF assms(2) bs] represents_get_block [OF assms(2) new]
    by (auto simp: nth_append split: if_splits)
qed

theorem history_immutable_witness:
  "\<exists>st'. store_step sample_crypto dec_block sample_store st' \<and>
     get_block dec_block st' 0 = Ok (Some sample_block) \<and> get_block dec_block st' 1 = Ok (Some sample_child)"
proof -
  obtain st' out where "append_blocks sample_crypto dec_block True sample_store [sample_block, sample_child] = (st', Ok out)"
    and rep: "represents sample_crypto [sample_block, sample_child] st'"
    using append_blocks_Some [OF reads_back_block sample_represents sample_blocks_wf sample_room]
    unfolding sample_network sample_offer by blast
  then have s: "store_step sample_crypto dec_block sample_store st'"
    by (intro store_step.appended [OF sample_blocks_wf])
  then have "store_steps sample_crypto dec_block sample_store st'"
    by (rule store_steps.one_more [OF store_steps.no_step])
  from history_immutable [OF sample_reachable reads_back_block this, of 0 sample_block]
  have "get_block dec_block st' 0 = Ok (Some sample_block)"
    using represents_get_block [OF reads_back_block sample_represents, of 0] by simp
  with s show ?thesis using represents_get_block [OF reads_back_block rep, of 1] by auto
qed

text \<open>
  C14: The transaction index is exact: on a reachable store \<open>get_transaction\<close> never fails, it answers
  with a transaction of that id together with the height and the position at which reading the
  block shows it, and it answers \<open>None\<close> only when no block holds that id;
  \<open>contains_transaction\<close> agrees with it.
\<close>

theorem get_transaction_exact:
  assumes "reachable cr de st" and "decodes_blocks de"
  shows "case get_transaction de st i of
      Ok (Some l) \<Rightarrow> contains_transaction st i = Ok True \<and> t_id (lt_transaction l) = i \<and>
        (\<exists>b. get_block de st (lt_height l) = Ok (Some b) \<and> h_height (b_header b) = lt_height l \<and>
          unat (lt_index l) < length (b_transactions b) \<and>
          b_transactions b ! unat (lt_index l) = lt_transaction l)
    | Ok None \<Rightarrow> contains_transaction st i = Ok False \<and>
        (\<forall>h b. get_block de st h = Ok (Some b) \<longrightarrow> i \<notin> set (tx_ids b))
    | _ \<Rightarrow> False"
proof -
  from reachable_represents [OF assms(1,2)] obtain bs where bs: "represents cr bs st" .
  note g = represents_get_block [OF assms(2) bs]
  have c: "contains_transaction st i = Ok (i \<in> set (chain_ids bs))"
    using tx_table_contains [of bs i] bs
    by (simp add: contains_transaction_def represents_def tables_of_def del: set_concat set_map)
  show ?thesis
  proof (cases "i \<in> set (chain_ids bs)")
    case False
    then show ?thesis using get_transaction_absent [OF bs False, of de] c
      by (auto simp: g split: if_splits)
  next
    case True
    then obtain k j where kj: "k < length bs" "j < length (b_transactions (bs ! k))"
      "i = t_id (b_transactions (bs ! k) ! j)" by (rule chain_ids_position)
    have h: "unat (h_height (b_header (bs ! k))) = k"
      by (rule valid_chain_height [OF represents_chain [OF bs] kj(1)])
    have "wf_block (bs ! k)" using bs kj(1) by (simp add: represents_def)
    then have j: "unat (index_u32 j) = j"
      using kj(2) by (intro index_u32_nat) (simp add: wf_block_def fits_u32_def)
    show ?thesis
      using get_transaction_represents [OF assms(2) bs kj(1,2)] kj c True by (simp add: g h j)
  qed
qed

theorem get_transaction_exact_witness:
  "contains_transaction sample_store (t_id sample_tx) = Ok True"
proof -
  have "get_transaction dec_block sample_store (t_id sample_tx) \<noteq> Ok None"
    using get_transaction_represents [OF reads_back_block sample_represents, of 0 0] by (simp add: sample_block_def)
  with get_transaction_exact [OF sample_reachable reads_back_block, of "t_id sample_tx"] show ?thesis
    by (auto split: result.splits option.splits)
qed

text \<open>
  The hash index is exact: on a reachable store \<open>get_block_by_hash\<close> never fails, it answers with a
  block of the chain that has that hash, and it answers \<open>None\<close> only when no block of the chain does.
\<close>

theorem get_block_by_hash_exact:
  assumes "reachable cr de st" and "decodes_blocks de"
  shows "case get_block_by_hash de st x of
      Ok (Some b) \<Rightarrow> block_hash cr b = x \<and> get_block de st (h_height (b_header b)) = Ok (Some b)
    | Ok None \<Rightarrow> \<forall>h b. get_block de st h = Ok (Some b) \<longrightarrow> block_hash cr b \<noteq> x
    | _ \<Rightarrow> False"
proof -
  from reachable_represents [OF assms(1,2)] obtain bs where bs: "represents cr bs st" .
  have stored: "get_block de st (h_height (b_header b)) = Ok (Some b)" if b: "b \<in> set bs" for b
  proof -
    obtain k where "k < length bs" "b = bs ! k" using b unfolding in_set_conv_nth by blast
    then show ?thesis
      using represents_get_block [OF assms(2) bs] valid_chain_height [OF represents_chain [OF bs], of k] by simp
  qed
  have read: "b \<in> set bs" if "get_block de st h = Ok (Some b)" for h b
    using that by (auto simp: represents_get_block [OF assms(2) bs] split: if_splits)
  note * = get_block_by_hash_represents [OF assms(2) bs, of x]
  show ?thesis
  proof (cases "get_block_by_hash de st x")
    case (Ok r)
    then show ?thesis using * stored read by (cases r) auto
  qed (use * in simp_all)
qed

theorem get_block_by_hash_exact_witness:
  "get_block_by_hash dec_block sample_store (block_hash sample_crypto sample_block) \<noteq> Ok None"
  using get_block_by_hash_exact [OF sample_reachable reads_back_block, of "block_hash sample_crypto sample_block"]
    represents_get_block [OF reads_back_block sample_represents, of 0]
  by force

text \<open>
  C15: Every reachable store passes verification: \<open>verify_chain\<close> over the store, with the default
  options, reports no finding.
\<close>

theorem store_verifies:
  assumes "reachable cr de st" and "decodes_blocks de"
  shows "is_valid (verify_chain cr (source_of de st) default_options)"
proof -
  from reachable_represents [OF assms] obtain bs where "represents cr bs st" .
  then show ?thesis by (rule represents_valid [OF assms(2)])
qed

theorem store_verifies_witness:
  "is_valid (verify_chain sample_crypto (source_of dec_block sample_store) default_options)"
  by (rule store_verifies [OF sample_reachable reads_back_block])

text \<open>
  Closing and opening is the identity: opening the file of a reachable store passes the
  consistency check and gives back the very same store, its network and its genesis hash included.
\<close>

theorem reopen_identity:
  assumes "reachable cr de st" and "decodes_blocks de"
  shows "open_store cr de (ChainFile (cs_database st)) = Ok st"
proof -
  from reachable_represents [OF assms] obtain bs where "represents cr bs st" .
  then show ?thesis by (rule open_represents [OF assms(2)])
qed

theorem reopen_identity_witness:
  "open_store sample_crypto dec_block (ChainFile (cs_database sample_store)) = Ok sample_store"
  by (rule reopen_identity [OF sample_reachable reads_back_block])

text \<open>
  C16: Iterating over a range yields the stored blocks of that range in order, and after the last
  one nothing if the range ends inside the chain, else one \<open>Inconsistent\<close> error at the first missing
  height; an empty range yields nothing. The iteration ends for every range.
\<close>

theorem iter_blocks_exact:
  assumes "decodes_blocks de" and "represents cr bs st"
  shows "iter_blocks de st a e =
    (if a \<le> e then
       map Ok (take (Suc (unat e) - unat a) (drop (unat a) bs)) @
       (if length bs \<le> unat e
        then [Err (Inconsistent (NoBlockAtHeight (if unat a < length bs then word_of_nat (length bs) else a)))]
        else [])
     else [])"
  using block_range_represents [OF assms, of a e] by (simp add: iter_blocks_def)

theorem iter_blocks_exact_witness:
  "iter_blocks dec_block sample_store 0 5 = [Ok sample_block, Err (Inconsistent (NoBlockAtHeight 1))]"
  using iter_blocks_exact [OF reads_back_block sample_represents, of 0 5] by simp

lemma genesis_build_Err:
  "\<not> fits_u32 (gs_transactions spec) \<Longrightarrow>
     genesis_build cr spec = Err (TooManyTransactions (length (gs_transactions spec)) (- 1))"
  by (simp add: genesis_build_def draft_build_def try_from_nat_def fits_u32_def result_simps)

text \<open>The genesis block as the policy of an empty database sees it.\<close>

lemma write_genesis_cases:
  obtains (accepted) db where "valid_block cr net None b" and "write_genesis cr net g b = Ok db"
  | (refused) fs where "\<not> valid_block cr net None b" and "fs \<noteq> []"
      and "write_genesis cr net g b = Err (NotAccepted (AcceptanceInvalid fs))"
proof -
  let ?ctx = "\<lparr>ac_network_id = net, ac_genesis_hash = g, ac_head = None, ac_parent = None,
    ac_committed = committed_lookup empty_database {}\<rparr>"
  have p: "check_block cr (acceptance_block_context ?ctx) b = [] \<longleftrightarrow> valid_block cr net None b"
    by (auto simp: acceptance_block_context_def check_block_empty_iff fresh_ids_def committed_lookup_def
        empty_database_def)
  show ?thesis
  proof (cases "check_block cr (acceptance_block_context ?ctx) b = []")
    case True
    then show ?thesis using p accepted by (simp add: write_genesis_def policy_evaluate_def)
  next
    case False
    then show ?thesis using p refused by (simp add: write_genesis_def policy_evaluate_def)
  qed
qed

lemma init_genesis_built:
  assumes "wf_spec spec" and "genesis_build cr spec = Ok b"
  shows "if valid_block cr (gs_network_id spec) None b
     then (\<exists>st. init_genesis cr True True NoFile spec = (ChainFile (cs_database st), Ok st) \<and>
            represents cr [b] st \<and> cs_network_id st = gs_network_id spec \<and> cs_genesis_hash st = block_hash cr b) \<and>
          init_genesis cr True False NoFile spec = (EmptyDatabase, Err DatabaseError)
     else \<exists>fs. fs \<noteq> [] \<and> init_genesis cr True io NoFile spec =
            (EmptyDatabase, Err (NotAccepted (AcceptanceInvalid fs)))"
proof (cases rule: write_genesis_cases [of cr "gs_network_id spec" b "block_hash cr b"])
  case (accepted db)
  let ?st = "\<lparr>cs_database = db, cs_network_id = gs_network_id spec, cs_genesis_hash = block_hash cr b\<rparr>"
  have i: "init_genesis cr True True NoFile spec = (ChainFile db, Ok ?st)"
    using assms(2) accepted(2) by (simp add: init_genesis_def Let_def)
  have "represents cr [b] ?st"
    using init_genesis_represents [OF i] assms by (auto simp: wf_spec_def)
  moreover have "init_genesis cr True False NoFile spec = (EmptyDatabase, Err DatabaseError)"
    using assms(2) accepted(2) by (simp add: init_genesis_def Let_def)
  ultimately show ?thesis using i accepted(1) by auto
next
  case (refused fs)
  then show ?thesis using assms(2) by (simp add: init_genesis_def Let_def)
qed

text \<open>
  C17: What creating a chain leaves at the path, and what it returns, on every branch. A path that
  holds anything is refused and not touched. At a free path, a genesis of \<open>2 ^ 32\<close> transactions or more
  is refused before a file exists, and so is one whose file cannot be created. A genesis block the rules
  accept becomes a chain of exactly that block when the commit succeeds, and an empty database when it
  fails. A genesis block the rules refuse leaves an empty database too, with the findings. An empty
  database is not a chain and keeps the path taken: it can neither be opened nor created again.
\<close>

theorem init_genesis_outcomes:
  assumes "wf_spec spec"
  shows "(file \<noteq> NoFile \<longrightarrow> init_genesis cr creates io file spec = (file, Err AlreadyExists)) \<and>
    (case genesis_build cr spec of
       Panic \<Rightarrow> False
     | Err e \<Rightarrow> e = TooManyTransactions (length (gs_transactions spec)) (- 1) \<and>
         \<not> fits_u32 (gs_transactions spec) \<and>
         init_genesis cr creates io NoFile spec = (NoFile, Err (StoreCore e))
     | Ok b \<Rightarrow> b_transactions b = gs_transactions spec \<and>
         init_genesis cr False io NoFile spec = (NoFile, Err DatabaseError) \<and>
         (if valid_block cr (gs_network_id spec) None b
          then (\<exists>st. init_genesis cr True True NoFile spec = (ChainFile (cs_database st), Ok st) \<and>
                  represents cr [b] st \<and> cs_network_id st = gs_network_id spec \<and>
                  cs_genesis_hash st = block_hash cr b) \<and>
               init_genesis cr True False NoFile spec = (EmptyDatabase, Err DatabaseError)
          else \<exists>fs. fs \<noteq> [] \<and> init_genesis cr True io NoFile spec =
                  (EmptyDatabase, Err (NotAccepted (AcceptanceInvalid fs))))) \<and>
    open_store cr de NoFile = Err (NotAChain NoSuchFile) \<and>
    open_store cr de EmptyDatabase = Err (NotAChain MetaTableMissing) \<and>
    init_genesis cr creates io EmptyDatabase spec' = (EmptyDatabase, Err AlreadyExists)"
proof -
  have "case genesis_build cr spec of
       Panic \<Rightarrow> False
     | Err e \<Rightarrow> e = TooManyTransactions (length (gs_transactions spec)) (- 1) \<and>
         \<not> fits_u32 (gs_transactions spec) \<and>
         init_genesis cr creates io NoFile spec = (NoFile, Err (StoreCore e))
     | Ok b \<Rightarrow> b_transactions b = gs_transactions spec \<and>
         init_genesis cr False io NoFile spec = (NoFile, Err DatabaseError)"
  proof (cases "fits_u32 (gs_transactions spec)")
    case True
    then obtain b where "genesis_build cr spec = Ok b" and "b_transactions b = gs_transactions spec"
      by (simp add: genesis_build_Ok_iff)
    then show ?thesis by (simp add: init_genesis_def)
  qed (simp add: genesis_build_Err init_genesis_def)
  moreover have "file \<noteq> NoFile \<longrightarrow> init_genesis cr creates io file spec = (file, Err AlreadyExists)"
    and "init_genesis cr creates io EmptyDatabase spec' = (EmptyDatabase, Err AlreadyExists)"
    and "open_store cr de NoFile = Err (NotAChain NoSuchFile)"
    and "open_store cr de EmptyDatabase = Err (NotAChain MetaTableMissing)"
    by (simp_all add: init_genesis_def open_store_def)
  ultimately show ?thesis
    using init_genesis_built [OF assms] by (cases "genesis_build cr spec") simp_all
qed

theorem init_genesis_outcomes_witness:
  "(\<exists>st. init_genesis sample_crypto True True NoFile sample_genesis = (ChainFile (cs_database st), Ok st) \<and>
     represents sample_crypto [sample_block] st) \<and>
   init_genesis sample_crypto True False NoFile sample_genesis = (EmptyDatabase, Err DatabaseError)"
proof -
  have "valid_block sample_crypto (gs_network_id sample_genesis) None sample_block"
    using sample_chain_valid by (simp add: valid_chain_def sample_genesis_def)
  then show ?thesis
    using init_genesis_outcomes [OF sample_spec_wf, of NoFile sample_crypto True True]
    by (auto simp: sample_genesis_build)
qed

end
