(* ===== verification/Prunella_Oracle.thy ===== *)
theory Prunella_Oracle
  imports Prunella_Core
begin

text \<open>
  \<open>crates/prunella-conformance/src/oracle.rs\<close>: the second implementation of Protocol V1, written from
  \<open>PROTOCOL_V1.md\<close> by hand. Every value it derives is shown to be the one \<open>prunella-core\<close> derives,
  for every block, where the golden vectors compare the two on a few.
\<close>

section \<open>Primitive encoders\<close>

text \<open>The oracle has no errors, only panics of \<open>expect\<close>.\<close>

type_synonym 'a oracle_result = "(unit, 'a) result"

definition oracle_u16 :: "bytes \<Rightarrow> u16 \<Rightarrow> bytes" where "oracle_u16 out v = out @ le_bytes 2 v"
definition oracle_u32 :: "bytes \<Rightarrow> u32 \<Rightarrow> bytes" where "oracle_u32 out v = out @ le_bytes 4 v"
definition oracle_u64 :: "bytes \<Rightarrow> u64 \<Rightarrow> bytes" where "oracle_u64 out v = out @ le_bytes 8 v"

definition oracle_bytes :: "bytes \<Rightarrow> bytes \<Rightarrow> bytes oracle_result" where
  "oracle_bytes out v = rbind (rexpect (try_from_nat (length v))) (\<lambda>n. Ok (oracle_u32 out n @ v))"

definition oracle_string :: "bytes \<Rightarrow> string \<Rightarrow> bytes oracle_result" where
  "oracle_string out v = oracle_bytes out (str_bytes v)"

definition oracle_hash_domain :: "crypto \<Rightarrow> string \<Rightarrow> bytes list \<Rightarrow> digest oracle_result" where
  "oracle_hash_domain cr tag parts =
     rbind (rexpect (try_from_nat (length tag))) (\<lambda>n :: u32.
       Ok (blake3 cr (fold (\<lambda>p h. h @ p) parts (([] @ le_bytes 4 n) @ str_bytes tag))))"

section \<open>Transactions\<close>

record tx_input =
  ti_namespace :: string
  ti_schema_version :: u32
  ti_payload :: bytes
  ti_signer :: digest
  ti_nonce :: u64

definition oracle_signing_preimage :: "tx_input \<Rightarrow> bytes oracle_result" where
  "oracle_signing_preimage tx =
     rbind (oracle_string [] (ti_namespace tx)) (\<lambda>out.
     rbind (oracle_bytes (oracle_u32 out (ti_schema_version tx)) (ti_payload tx)) (\<lambda>out.
     Ok (oracle_u64 (out @ array_bytes 32 (ti_signer tx)) (ti_nonce tx))))"

definition oracle_signing_message :: "crypto \<Rightarrow> tx_input \<Rightarrow> digest oracle_result" where
  "oracle_signing_message cr tx =
     rbind (oracle_signing_preimage tx) (\<lambda>p. oracle_hash_domain cr ''PRUNELLA/v1/tx-sign'' [p])"

definition oracle_sign :: "crypto \<Rightarrow> digest \<Rightarrow> digest \<Rightarrow> signature" where
  "oracle_sign cr seed message = ed_sign cr seed (array_bytes 32 message)"

definition oracle_public_key :: "crypto \<Rightarrow> digest \<Rightarrow> digest" where
  "oracle_public_key cr seed = ed_public cr seed"

definition oracle_id_preimage :: "tx_input \<Rightarrow> signature \<Rightarrow> bytes oracle_result" where
  "oracle_id_preimage tx s = rbind (oracle_signing_preimage tx) (\<lambda>out. Ok (out @ array_bytes 64 s))"

definition oracle_tx_id :: "crypto \<Rightarrow> tx_input \<Rightarrow> signature \<Rightarrow> digest oracle_result" where
  "oracle_tx_id cr tx s =
     rbind (oracle_id_preimage tx s) (\<lambda>p. oracle_hash_domain cr ''PRUNELLA/v1/tx-id'' [p])"

definition oracle_transaction :: "digest \<Rightarrow> tx_input \<Rightarrow> signature \<Rightarrow> bytes oracle_result" where
  "oracle_transaction i tx s =
     rbind (oracle_string ([] @ array_bytes 32 i) (ti_namespace tx)) (\<lambda>out.
     rbind (oracle_bytes (oracle_u32 out (ti_schema_version tx)) (ti_payload tx)) (\<lambda>out.
     Ok (oracle_u64 (out @ array_bytes 32 (ti_signer tx)) (ti_nonce tx) @ array_bytes 64 s)))"

section \<open>The tree\<close>

definition oracle_leaf :: "crypto \<Rightarrow> digest \<Rightarrow> digest oracle_result" where
  "oracle_leaf cr i = oracle_hash_domain cr ''PRUNELLA/v1/tx-leaf'' [array_bytes 32 i]"

definition oracle_node :: "crypto \<Rightarrow> digest \<Rightarrow> digest \<Rightarrow> digest oracle_result" where
  "oracle_node cr left right =
     oracle_hash_domain cr ''PRUNELLA/v1/tx-node'' [array_bytes 32 left, array_bytes 32 right]"

definition oracle_split :: "nat \<Rightarrow> nat" where
  "oracle_split n = while (\<lambda>k. k * 2 < n) (\<lambda>k. k * 2) 1"

lemma oracle_split [simp]: "oracle_split n = split_point n"
  by (simp add: oracle_split_def split_point_def)

function oracle_merkle_root :: "crypto \<Rightarrow> digest list \<Rightarrow> digest oracle_result" where
  "oracle_merkle_root cr ids =
     (if length ids = 0 then oracle_hash_domain cr ''PRUNELLA/v1/tx-root'' []
      else if length ids = 1 then oracle_leaf cr (ids ! 0)
      else let k = oracle_split (length ids)
        in rbind (oracle_merkle_root cr (take k ids)) (\<lambda>left.
           rbind (oracle_merkle_root cr (drop k ids)) (\<lambda>right. oracle_node cr left right)))"
  by pat_completeness auto
termination
proof (relation "measure (\<lambda>(cr, ids). length ids)")
  fix k
  fix ids :: "digest list"
  assume "length ids \<noteq> 0" "length ids \<noteq> 1" and k: "k = oracle_split (length ids)"
  then have "2 \<le> length ids" by linarith
  then have "0 < k" "k < length ids" using split_point_bounds [of "length ids"] k by simp_all
  then show "((cr, take k ids), cr, ids) \<in> measure (\<lambda>(cr, ids). length ids)"
    and "((cr, drop k ids), cr, ids) \<in> measure (\<lambda>(cr, ids). length ids)" for cr :: crypto
    by auto
qed simp

text \<open>A step is \<open>(is_left_sibling, sibling_root)\<close>.\<close>

function oracle_audit_path :: "crypto \<Rightarrow> digest list \<Rightarrow> nat \<Rightarrow> (bool \<times> digest) list oracle_result" where
  "oracle_audit_path cr ids index =
     (if length ids \<le> 1 then Ok []
      else let k = oracle_split (length ids)
        in if index < k
           then rbind (oracle_audit_path cr (take k ids) index) (\<lambda>steps.
                rbind (oracle_merkle_root cr (drop k ids)) (\<lambda>r. Ok (steps @ [(False, r)])))
           else rbind (oracle_audit_path cr (drop k ids) (index - k)) (\<lambda>steps.
                rbind (oracle_merkle_root cr (take k ids)) (\<lambda>r. Ok (steps @ [(True, r)]))))"
  by pat_completeness auto
termination
proof (relation "measure (\<lambda>(cr, ids, i). length ids)")
  fix k index
  fix ids :: "digest list"
  assume "\<not> length ids \<le> 1" "k = oracle_split (length ids)"
  then have "0 < k" "k < length ids" using split_point_bounds [of "length ids"] by simp_all
  then show "((cr, take k ids, index), cr, ids, index) \<in> measure (\<lambda>(cr, ids, i). length ids)"
    and "((cr, drop k ids, index - k), cr, ids, index) \<in> measure (\<lambda>(cr, ids, i). length ids)" for cr :: crypto
    by auto
qed simp

declare oracle_merkle_root.simps [simp del] oracle_audit_path.simps [simp del]

definition oracle_proof :: "u32 \<Rightarrow> (bool \<times> digest) list \<Rightarrow> bytes oracle_result" where
  "oracle_proof index steps =
     rbind (rexpect (try_from_nat (length steps))) (\<lambda>n.
       Ok (fold (\<lambda>(is_left, h) out. (out @ [if is_left then 0 else 1]) @ array_bytes 32 h) steps
             (oracle_u32 (oracle_u32 [] index) n)))"

section \<open>Blocks\<close>

record header_input =
  hi_network_id :: string
  hi_height :: u64
  hi_previous_hash :: digest
  hi_tx_root :: digest
  hi_tx_count :: u32
  hi_timestamp_millis :: u64

definition oracle_header :: "header_input \<Rightarrow> bytes oracle_result" where
  "oracle_header h =
     rbind (oracle_string (oracle_u16 [] 1) (hi_network_id h)) (\<lambda>out.
     Ok (oracle_u64
          (oracle_u32 (oracle_u64 out (hi_height h) @ array_bytes 32 (hi_previous_hash h)
              @ array_bytes 32 (hi_tx_root h)) (hi_tx_count h)) (hi_timestamp_millis h)))"

definition oracle_block_hash :: "crypto \<Rightarrow> bytes \<Rightarrow> digest oracle_result" where
  "oracle_block_hash cr b = oracle_hash_domain cr ''PRUNELLA/v1/block-header'' [b]"

definition oracle_block :: "bytes \<Rightarrow> bytes list \<Rightarrow> bytes oracle_result" where
  "oracle_block header txs =
     rbind (rexpect (try_from_nat (length txs))) (\<lambda>n. Ok (fold (\<lambda>t out. out @ t) txs (oracle_u32 header n)))"

section \<open>The wire form of a proof\<close>

definition enc_proof_step :: "proof_step \<Rightarrow> bytes" where
  "enc_proof_step s = [case ps_side s of Left \<Rightarrow> 0 | Right \<Rightarrow> 1] @ digest_bytes (ps_hash s)"

definition enc_inclusion_proof :: "inclusion_proof \<Rightarrow> bytes" where
  "enc_inclusion_proof p = enc_u32 (ip_index p) @ enc_vec enc_proof_step (ip_steps p)"

section \<open>Agreement\<close>

lemma audit_path_length: "length (audit_path cr tags ids i) \<le> length ids"
proof (induction cr tags ids i rule: audit_path.induct)
  case (1 cr tags ids i)
  show ?case
  proof (cases "length ids \<le> 1")
    case False
    then have "2 \<le> length ids" by linarith
    note b = split_point_bounds [OF this]
    show ?thesis using False 1 b by (subst audit_path.simps) (fastforce simp: Let_def)
  qed (simp add: audit_path.simps)
qed

definition input_of :: "transaction \<Rightarrow> tx_input" where
  "input_of t = \<lparr>ti_namespace = namespace_str (t_namespace t), ti_schema_version = t_schema_version t,
     ti_payload = t_payload t, ti_signer = t_signer t, ti_nonce = t_nonce t\<rparr>"

definition header_input_of :: "block_header \<Rightarrow> header_input" where
  "header_input_of h = \<lparr>hi_network_id = network_id_str (h_network_id h), hi_height = h_height h,
     hi_previous_hash = h_previous_hash h, hi_tx_root = h_tx_root h, hi_tx_count = h_tx_count h,
     hi_timestamp_millis = h_timestamp_millis h\<rparr>"

lemma fold_append: "fold (\<lambda>p h. h @ p) ps b = b @ concat ps"
  by (induction ps arbitrary: b) simp_all

lemma oracle_bytes_fits: "fits_u32 v \<Longrightarrow> oracle_bytes out v = Ok (out @ enc_bytes v)"
  by (simp add: oracle_bytes_def oracle_u32_def enc_bytes_def enc_u32_def try_from_nat_def fits_u32_def)

lemma oracle_string_fits: "is_string v \<Longrightarrow> oracle_string out v = Ok (out @ enc_string v)"
  by (simp add: oracle_string_def oracle_bytes_fits enc_string_def is_string_def fits_u32_def)

lemma oracle_hash_domain:
  "length tag < 2 ^ 32 \<Longrightarrow> oracle_hash_domain cr tag parts = Ok (hash_domain cr tag (concat parts))"
  by (simp add: oracle_hash_domain_def try_from_nat_def hash_domain_def hasher_finalize_def
      hasher_update_def hasher_new_def enc_u32_def fold_append)

lemmas oracle_encoders = oracle_u16_def oracle_u32_def oracle_u64_def enc_u16_def enc_u32_def enc_u64_def

lemma oracle_merkle_root: "oracle_merkle_root cr ids = Ok (merkle_root cr ids)"
  unfolding merkle_root_def
proof (induction cr PRUNELLA_V1 ids rule: root.induct)
  case (1 cr)
  show ?case
    by (simp add: oracle_merkle_root.simps oracle_hash_domain PRUNELLA_V1_def empty_root_with_def TX_ROOT_def)
next
  case (2 cr l)
  show ?case
    by (simp add: oracle_merkle_root.simps oracle_leaf_def oracle_hash_domain PRUNELLA_V1_def
        leaf_hash_with_def TX_LEAF_def)
next
  case (3 cr l l' ls)
  show ?case
    using 3 by (subst oracle_merkle_root.simps)
      (simp add: Let_def oracle_node_def oracle_hash_domain node_hash_with_def hash_domain_def
        hasher_update_def PRUNELLA_V1_def TX_NODE_def)
qed

definition oracle_step :: "proof_step \<Rightarrow> bool \<times> digest" where
  "oracle_step s = (ps_side s = Left, ps_hash s)"

lemma oracle_audit_path:
  "oracle_audit_path cr ids index = Ok (map oracle_step (audit_path cr PRUNELLA_V1 ids index))"
proof (induction cr PRUNELLA_V1 ids index rule: audit_path.induct)
  case (1 cr ids index)
  show ?case
  proof (cases "length ids \<le> 1")
    case False
    then show ?thesis
      using 1 by (subst oracle_audit_path.simps, subst audit_path.simps)
        (simp add: Let_def oracle_merkle_root merkle_root_def oracle_step_def)
  qed (simp add: oracle_audit_path.simps audit_path.simps)
qed

lemma oracle_proof:
  assumes "fits_u32 steps"
  shows "oracle_proof i (map oracle_step steps) = Ok (enc_inclusion_proof \<lparr>ip_index = i, ip_steps = steps\<rparr>)"
proof -
  have "fold (\<lambda>(is_left, h) out. (out @ [if is_left then 0 else 1]) @ array_bytes 32 h) (map oracle_step ss) out
      = out @ concat (map enc_proof_step ss)" for ss out
    by (induction ss arbitrary: out) (auto simp: oracle_step_def enc_proof_step_def split: side.splits)
  then show ?thesis
    using assms by (simp add: oracle_proof_def enc_inclusion_proof_def enc_vec_def oracle_encoders
        try_from_nat_def fits_u32_def)
qed

lemma oracle_transaction_agrees:
  assumes "wf_transaction t"
  shows "oracle_signing_preimage (input_of t) = Ok (signing_preimage t)"
    "oracle_signing_message cr (input_of t) = Ok (signing_message cr t)"
    "oracle_id_preimage (input_of t) (t_signature t) = Ok (id_preimage t)"
    "oracle_tx_id cr (input_of t) (t_signature t) = Ok (compute_id cr t)"
    "oracle_transaction (t_id t) (input_of t) (t_signature t) = Ok (enc_transaction t)"
proof -
  show p: "oracle_signing_preimage (input_of t) = Ok (signing_preimage t)"
    using assms by (simp add: oracle_signing_preimage_def input_of_def wf_transaction_def oracle_string_fits
        oracle_bytes_fits signing_preimage_def signing_body_def enc_signing_body_def oracle_encoders)
  then show i: "oracle_id_preimage (input_of t) (t_signature t) = Ok (id_preimage t)"
    by (simp add: oracle_id_preimage_def id_preimage_def id_body_def enc_id_body_def
        signing_preimage_def signing_body_def enc_signing_body_def)
  show "oracle_signing_message cr (input_of t) = Ok (signing_message cr t)"
    by (simp add: oracle_signing_message_def p oracle_hash_domain signing_message_def
        body_signing_message_def hash_canonical_def signing_preimage_def TX_SIGN_def)
  show "oracle_tx_id cr (input_of t) (t_signature t) = Ok (compute_id cr t)"
    by (simp add: oracle_tx_id_def i oracle_hash_domain compute_id_def hash_canonical_def id_preimage_def TX_ID_def)
  show "oracle_transaction (t_id t) (input_of t) (t_signature t) = Ok (enc_transaction t)"
    using assms by (simp add: oracle_transaction_def input_of_def wf_transaction_def oracle_string_fits
        oracle_bytes_fits enc_transaction_def oracle_encoders)
qed

lemma oracle_block_agrees:
  assumes "wf_block b" and "h_version (b_header b) = 1"
  shows "oracle_header (header_input_of (b_header b)) = Ok (enc_header (b_header b))"
    "oracle_block_hash cr (enc_header (b_header b)) = Ok (block_hash cr b)"
    "oracle_block (enc_header (b_header b)) (map enc_transaction (b_transactions b)) = Ok (enc_block b)"
proof -
  show "oracle_header (header_input_of (b_header b)) = Ok (enc_header (b_header b))"
    using assms by (simp add: oracle_header_def header_input_of_def wf_block_def wf_header_def
        oracle_string_fits enc_header_def oracle_encoders)
  show "oracle_block_hash cr (enc_header (b_header b)) = Ok (block_hash cr b)"
    by (simp add: oracle_block_hash_def oracle_hash_domain block_hash_def header_hash_def
        hash_canonical_def BLOCK_HEADER_def)
  have "fold (\<lambda>t out. out @ t) ts out = out @ concat ts" for ts and out :: bytes
    by (induction ts arbitrary: out) simp_all
  then show "oracle_block (enc_header (b_header b)) (map enc_transaction (b_transactions b)) = Ok (enc_block b)"
    using assms(1) by (simp add: oracle_block_def enc_block_def enc_vec_def wf_block_def fits_u32_def
        try_from_nat_def oracle_encoders)
qed

text \<open>
  C6: The two implementations of Protocol V1 agree on every block, not only on the golden vectors:
  for every well-formed version 1 block, the values the conformance oracle derives by hand (the
  signing and id preimages, the signing message, the id and the canonical bytes of each transaction,
  the transactions root, every audit path and the bytes of every inclusion proof, the header bytes,
  the block hash and the canonical block) are those of \<open>prunella-core\<close>, and no \<open>expect\<close> of
  the oracle fails.
\<close>

theorem oracle_agrees:
  assumes "wf_block b" and "h_version (b_header b) = 1"
  shows "oracle_header (header_input_of (b_header b)) = Ok (enc_header (b_header b)) \<and>
    oracle_block_hash cr (enc_header (b_header b)) = Ok (block_hash cr b) \<and>
    oracle_block (enc_header (b_header b)) (map enc_transaction (b_transactions b)) = Ok (enc_block b) \<and>
    oracle_merkle_root cr (map t_id (b_transactions b)) = Ok (merkle_root cr (map t_id (b_transactions b))) \<and>
    (\<forall>t \<in> set (b_transactions b).
      oracle_signing_preimage (input_of t) = Ok (signing_preimage t) \<and>
      oracle_signing_message cr (input_of t) = Ok (signing_message cr t) \<and>
      oracle_id_preimage (input_of t) (t_signature t) = Ok (id_preimage t) \<and>
      oracle_tx_id cr (input_of t) (t_signature t) = Ok (compute_id cr t) \<and>
      oracle_transaction (t_id t) (input_of t) (t_signature t) = Ok (enc_transaction t)) \<and>
    (\<forall>i p. block_inclusion_proof cr b i = Some p \<longrightarrow>
      rbind (oracle_audit_path cr (map t_id (b_transactions b)) i) (oracle_proof (ip_index p)) =
        Ok (enc_inclusion_proof p))"
proof -
  let ?ids = "map t_id (b_transactions b)"
  have "rbind (oracle_audit_path cr ?ids i) (oracle_proof (ip_index p)) = Ok (enc_inclusion_proof p)"
    if "block_inclusion_proof cr b i = Some p" for i p
  proof -
    from that have p: "p = \<lparr>ip_index = ip_index p, ip_steps = audit_path cr PRUNELLA_V1 ?ids i\<rparr>"
      by (auto simp: block_inclusion_proof_def generate_def generate_with_def Let_def split: if_splits)
    have "fits_u32 (audit_path cr PRUNELLA_V1 ?ids i)"
      using audit_path_length [of cr PRUNELLA_V1 ?ids i] assms(1) by (simp add: wf_block_def fits_u32_def)
    from oracle_proof [OF this, of "ip_index p"] show ?thesis by (simp add: oracle_audit_path p [symmetric])
  qed
  then show ?thesis
    using assms(1)
    by (simp add: oracle_block_agrees [OF assms] oracle_transaction_agrees oracle_merkle_root wf_block_def)
qed

theorem oracle_agrees_witness:
  "oracle_block_hash sample_crypto (enc_header (b_header sample_block)) = Ok (block_hash sample_crypto sample_block)"
proof -
  have "h_version (b_header sample_block) = 1" by (simp add: sample_block_def)
  from oracle_agrees [OF sample_block_wf this, of sample_crypto] show ?thesis by (elim conjE)
qed

end
