(* ===== verification/Irena_Core.thy ===== *)
theory Irena_Core
  imports Bornite_Xml Prunella_Core
begin

text \<open>
  \<open>crates/irena-core\<close>, the values without structure: record kinds and families, the issues a document
  is refused with and their order (\<open>error.rs\<close>), company and channel ids (\<open>company.rs\<close>, \<open>channel.rs\<close>),
  the identity, and the notarisation with its date-times (\<open>notarisation.rs\<close>).
\<close>

section \<open>Kinds of record\<close>

datatype record_kind =
    CompanyGenesis | Identity | ShareStructure | DecisionChannels | Identities | Authorisation

definition ALL_KINDS :: "record_kind list" where
  "ALL_KINDS = [CompanyGenesis, Identity, ShareStructure, DecisionChannels, Identities, Authorisation]"

definition AMENDMENTS :: "record_kind list" where
  "AMENDMENTS = [Identity, ShareStructure, DecisionChannels, Identities, Authorisation]"

text \<open>The derived order of an enum is that of its variants' positions.\<close>

definition kind_index :: "record_kind \<Rightarrow> nat" where
  "kind_index k = (case k of CompanyGenesis \<Rightarrow> 0 | Identity \<Rightarrow> 1 | ShareStructure \<Rightarrow> 2
     | DecisionChannels \<Rightarrow> 3 | Identities \<Rightarrow> 4 | Authorisation \<Rightarrow> 5)"

lemma kind_index_inj: "kind_index a = kind_index b \<Longrightarrow> a = b"
  by (simp add: kind_index_def split: record_kind.splits)

instantiation record_kind :: linorder
begin

definition less_eq_record_kind :: "record_kind \<Rightarrow> record_kind \<Rightarrow> bool" where
  "less_eq_record_kind a b \<longleftrightarrow> kind_index a \<le> kind_index b"

definition less_record_kind :: "record_kind \<Rightarrow> record_kind \<Rightarrow> bool" where
  "less_record_kind a b \<longleftrightarrow> kind_index a < kind_index b"

instance
  by standard (auto simp: less_eq_record_kind_def less_record_kind_def intro: kind_index_inj)

end

definition kind_as_str :: "record_kind \<Rightarrow> string" where
  "kind_as_str k = (case k of
     CompanyGenesis \<Rightarrow> ''company-genesis'' | Identity \<Rightarrow> ''identity'' | ShareStructure \<Rightarrow> ''share-structure''
   | DecisionChannels \<Rightarrow> ''decision-channels'' | Identities \<Rightarrow> ''identities'' | Authorisation \<Rightarrow> ''authorisation'')"

definition kind_namespace :: "record_kind \<Rightarrow> string" where
  "kind_namespace k = (case k of
     CompanyGenesis \<Rightarrow> ''irena.company.v1'' | Identity \<Rightarrow> ''irena.company.v1''
   | ShareStructure \<Rightarrow> ''irena.shares.v1'' | DecisionChannels \<Rightarrow> ''irena.channels.v1''
   | Identities \<Rightarrow> ''irena.identities.v1'' | Authorisation \<Rightarrow> ''irena.authorisation.v1'')"

definition kind_parse :: "string \<Rightarrow> record_kind option" where
  "kind_parse text = find (\<lambda>k. kind_as_str k = text) ALL_KINDS"

lemma kind_parse_as_str: "kind_parse (kind_as_str k) = Some k"
  by (cases k) (simp_all add: kind_parse_def ALL_KINDS_def kind_as_str_def)

lemma AMENDMENTS_iff: "k \<in> set AMENDMENTS \<longleftrightarrow> k \<noteq> CompanyGenesis"
  by (cases k) (simp_all add: AMENDMENTS_def)

datatype record_family = Company | Governance

definition family_index :: "record_family \<Rightarrow> nat" where
  "family_index f = (case f of Company \<Rightarrow> 0 | Governance \<Rightarrow> 1)"

lemma family_index_inj: "family_index a = family_index b \<Longrightarrow> a = b"
  by (simp add: family_index_def split: record_family.splits)

instantiation record_family :: linorder
begin

definition less_eq_record_family :: "record_family \<Rightarrow> record_family \<Rightarrow> bool" where
  "less_eq_record_family a b \<longleftrightarrow> family_index a \<le> family_index b"

definition less_record_family :: "record_family \<Rightarrow> record_family \<Rightarrow> bool" where
  "less_record_family a b \<longleftrightarrow> family_index a < family_index b"

instance
  by standard (auto simp: less_eq_record_family_def less_record_family_def intro: family_index_inj)

end

definition ALL_FAMILIES :: "record_family list" where
  "ALL_FAMILIES = [Company, Governance]"

definition family_as_str :: "record_family \<Rightarrow> string" where
  "family_as_str f = (case f of Company \<Rightarrow> ''company'' | Governance \<Rightarrow> ''governance'')"

definition family_parse :: "string \<Rightarrow> record_family option" where
  "family_parse text = find (\<lambda>f. family_as_str f = text) ALL_FAMILIES"

lemma family_parse_as_str: "family_parse (family_as_str f) = Some f"
  by (cases f) (simp_all add: family_parse_def ALL_FAMILIES_def family_as_str_def)

section \<open>Issues and errors\<close>

datatype channel_id = ChannelId (channel_id_str: string)

instantiation channel_id :: linorder
begin

definition less_eq_channel_id :: "channel_id \<Rightarrow> channel_id \<Rightarrow> bool" where
  "less_eq_channel_id a b \<longleftrightarrow> channel_id_str a \<le> channel_id_str b"

definition less_channel_id :: "channel_id \<Rightarrow> channel_id \<Rightarrow> bool" where
  "less_channel_id a b \<longleftrightarrow> channel_id_str a < channel_id_str b"

instance
  by standard (auto simp: less_eq_channel_id_def less_channel_id_def intro: channel_id.expand)

end

text \<open>
  The variants in the order of the enum, which is their derived order. The reason of an invalid value
  is a text; where it is another error's \<open>to_string\<close>, the error is kept instead. The element, the
  attribute and the value determine the reason, so how reasons compare is never observed.
\<close>

datatype issue_reason = Because string | BecauseCore core_error | BecauseLedger prunella_error


datatype irena_issue =
    IssueXml xml_issue
  | InvalidValue string string string issue_reason
  | MissingAttribute string string
  | MissingElement string string
  | RepeatedElement string string
  | DuplicateHolder voter_id
  | DuplicateKey voter_id voter_id
  | DuplicatePerson voter_id
  | TooManyPersons nat
  | DuplicateSigner voter_id record_family
  | NoCompanySigner
  | ZeroShares voter_id
  | TotalSharesOverflow u64
  | TooManyHolders nat
  | NoChannels
  | DuplicateChannel channel_id
  | TooManyChannels nat
  | EmptyRoster channel_id
  | DuplicateMember channel_id voter_id
  | ZeroWeightMember channel_id voter_id
  | RosterWeightOverflow channel_id u64
  | TooManyMembers channel_id nat
  | EmptyScope channel_id
  | DuplicateScopePart channel_id record_kind
  | ScopeNotAnAmendment channel_id record_kind
  | UnexpectedElement channel_id string string

definition label_rejection_index :: "label_rejection \<Rightarrow> nat" where
  "label_rejection_index r = (case r of LabelEmpty \<Rightarrow> 0 | LabelTooLong \<Rightarrow> 1 | BadFirstCharacter \<Rightarrow> 2 | BadCharacter \<Rightarrow> 3)"

fun prunella_error_key :: "prunella_error \<Rightarrow> nat \<times> string list \<times> nat list" where
  "prunella_error_key (InvalidNetworkId v r) = (0, [v], [label_rejection_index r])"
| "prunella_error_key (InvalidNamespace v r) = (1, [v], [label_rejection_index r])"
| "prunella_error_key (TooManyTransactions n m) = (2, [], [n, unat m])"
| "prunella_error_key (HexLength k e f) = (3, [k], [e, f])"
| "prunella_error_key (HexDigits k d) = (4, [k], case d of OffendingCharacter c \<Rightarrow> [of_char c] | DecoderFault \<Rightarrow> [])"
| "prunella_error_key (HeightOverflow h) = (5, [], [unat h])"

lemma prunella_error_key_inj: "prunella_error_key a = prunella_error_key b \<Longrightarrow> a = b"
  by (cases a; cases b)
    (auto simp: word_unat_eq_iff label_rejection_index_def split: label_rejection.splits hex_fault.splits)

text \<open>
  The derived order: the variant, then the fields from left to right. Where a variant has a number
  or an enum, it is its last field.
\<close>

fun irena_issue_key :: "irena_issue \<Rightarrow> nat \<times> string list \<times> nat \<times> xml_issue list \<times> (nat \<times> string list \<times> nat list) list" where
  "irena_issue_key (IssueXml x) = (0, [], 0, [x], [])"
| "irena_issue_key (InvalidValue e a v (Because r)) = (1, [e, a, v, r], 0, [], [])"
| "irena_issue_key (InvalidValue e a v (BecauseCore c)) = (1, [e, a, v], 0, [], [core_error_key c])"
| "irena_issue_key (InvalidValue e a v (BecauseLedger l)) = (1, [e, a, v], 1, [], [prunella_error_key l])"
| "irena_issue_key (MissingAttribute e a) = (2, [e, a], 0, [], [])"
| "irena_issue_key (MissingElement p e) = (3, [p, e], 0, [], [])"
| "irena_issue_key (RepeatedElement p e) = (4, [p, e], 0, [], [])"
| "irena_issue_key (DuplicateHolder i) = (5, [voter_id_str i], 0, [], [])"
| "irena_issue_key (DuplicateKey i j) = (6, [voter_id_str i, voter_id_str j], 0, [], [])"
| "irena_issue_key (DuplicatePerson i) = (7, [voter_id_str i], 0, [], [])"
| "irena_issue_key (TooManyPersons n) = (8, [], n, [], [])"
| "irena_issue_key (DuplicateSigner i f) = (9, [voter_id_str i], family_index f, [], [])"
| "irena_issue_key NoCompanySigner = (10, [], 0, [], [])"
| "irena_issue_key (ZeroShares i) = (11, [voter_id_str i], 0, [], [])"
| "irena_issue_key (TotalSharesOverflow m) = (12, [], unat m, [], [])"
| "irena_issue_key (TooManyHolders n) = (13, [], n, [], [])"
| "irena_issue_key NoChannels = (14, [], 0, [], [])"
| "irena_issue_key (DuplicateChannel c) = (15, [channel_id_str c], 0, [], [])"
| "irena_issue_key (TooManyChannels n) = (16, [], n, [], [])"
| "irena_issue_key (EmptyRoster c) = (17, [channel_id_str c], 0, [], [])"
| "irena_issue_key (DuplicateMember c i) = (18, [channel_id_str c, voter_id_str i], 0, [], [])"
| "irena_issue_key (ZeroWeightMember c i) = (19, [channel_id_str c, voter_id_str i], 0, [], [])"
| "irena_issue_key (RosterWeightOverflow c m) = (20, [channel_id_str c], unat m, [], [])"
| "irena_issue_key (TooManyMembers c n) = (21, [channel_id_str c], n, [], [])"
| "irena_issue_key (EmptyScope c) = (22, [channel_id_str c], 0, [], [])"
| "irena_issue_key (DuplicateScopePart c k) = (23, [channel_id_str c], kind_index k, [], [])"
| "irena_issue_key (ScopeNotAnAmendment c k) = (24, [channel_id_str c], kind_index k, [], [])"
| "irena_issue_key (UnexpectedElement c m e) = (25, [channel_id_str c, m, e], 0, [], [])"

lemma irena_issue_key_inj: "irena_issue_key a = irena_issue_key b \<Longrightarrow> a = b"
  by (cases a rule: irena_issue_key.cases; cases b rule: irena_issue_key.cases)
    (auto dest: voter_id.expand channel_id.expand family_index_inj kind_index_inj core_error_key_inj
      prunella_error_key_inj simp: voter_id.expand channel_id.expand word_unat_eq_iff)

instantiation irena_issue :: linorder
begin

definition less_eq_irena_issue :: "irena_issue \<Rightarrow> irena_issue \<Rightarrow> bool" where
  "less_eq_irena_issue a b \<longleftrightarrow> irena_issue_key a \<le> irena_issue_key b"

definition less_irena_issue :: "irena_issue \<Rightarrow> irena_issue \<Rightarrow> bool" where
  "less_irena_issue a b \<longleftrightarrow> irena_issue_key a < irena_issue_key b"

instance
  by standard (auto simp: less_eq_irena_issue_def less_irena_issue_def intro: irena_issue_key_inj)

end

datatype irena_error =
    IrenaMalformed u64 xml_fault
  | IrenaInvalid "irena_issue list"
  | UnsupportedVersion string
  | KindMismatch record_kind record_kind
  | DocumentTooLarge u64 u64

definition irena_invalid :: "irena_issue list \<Rightarrow> irena_error" where
  "irena_invalid issues = IrenaInvalid (remdups_adj (sort issues))"

text \<open>\<open>From<XmlError>\<close>.\<close>

definition irena_of_xml :: "xml_error \<Rightarrow> irena_error" where
  "irena_of_xml e =
     (case e of
        XmlMalformed pos detail \<Rightarrow> IrenaMalformed pos detail
      | XmlInvalid issues \<Rightarrow> irena_invalid (map IssueXml issues)
      | XmlUnsupportedVersion found \<Rightarrow> UnsupportedVersion found
      | XmlTooLarge found limit \<Rightarrow> DocumentTooLarge found limit)"

definition error_issues :: "irena_error \<Rightarrow> irena_issue list" where
  "error_issues e = (case e of IrenaInvalid issues \<Rightarrow> issues | _ \<Rightarrow> [])"

text \<open>A report lists each issue once, in the derived order, whatever order they were found in.\<close>

lemma irena_invalid_canonical: "irena_invalid xs = irena_invalid ys \<longleftrightarrow> set xs = set ys"
proof
  assume "irena_invalid xs = irena_invalid ys"
  then have "set (remdups_adj (sort xs)) = set (remdups_adj (sort ys))" by (simp add: irena_invalid_def)
  then show "set xs = set ys" by simp
next
  assume "set xs = set ys"
  then have "set (remdups_adj (sort xs)) = set (remdups_adj (sort ys))" by simp
  then have "remdups_adj (sort xs) = remdups_adj (sort ys)"
    by (intro strict_sorted_equal sort_dedup_strict)
  then show "irena_invalid xs = irena_invalid ys" by (simp add: irena_invalid_def)
qed

text \<open>The common end of every constructor: the issues found, or the value.\<close>

definition accept :: "irena_issue list \<Rightarrow> 'a \<Rightarrow> (irena_error, 'a) result" where
  "accept issues v = (if issues \<noteq> [] then Err (irena_invalid issues) else Ok v)"

lemma accept_Ok_iff [simp]: "accept issues v = Ok w \<longleftrightarrow> issues = [] \<and> w = v"
  by (auto simp: accept_def)

lemma accept_Err_iff: "accept issues v = Err e \<longleftrightarrow> issues \<noteq> [] \<and> e = irena_invalid issues"
  by (auto simp: accept_def)

lemma accept_no_Panic [simp]: "accept issues v \<noteq> Panic"
  by (simp add: accept_def)

section \<open>Labels\<close>

text \<open>
  A company id and a channel id have the grammar of a Prunella label; the refusal carries the text
  of the rule broken.
\<close>

definition MAX_COMPANY_ID_LEN :: nat where "MAX_COMPANY_ID_LEN = 64"
definition MAX_CHANNEL_ID_LEN :: nat where "MAX_CHANNEL_ID_LEN = 64"

definition reject_value :: "string \<Rightarrow> string \<Rightarrow> string \<Rightarrow> string \<Rightarrow> irena_error" where
  "reject_value element attribute value reason = irena_invalid [InvalidValue element attribute value (Because reason)]"

definition quoted :: "char \<Rightarrow> string" where
  "quoted c = [CHR 0x27, c, CHR 0x27]"

definition label_text :: string where
  "label_text = ''may only contain lowercase letters, digits, '' @ quoted (CHR ''.'') @ '', ''
     @ quoted (CHR ''_'') @ '' and '' @ quoted (CHR ''-'')"

definition label_char :: "char \<Rightarrow> bool" where
  "label_char c \<longleftrightarrow> is_ascii_lowercase c \<or> is_ascii_digit c \<or> c \<in> set ''._-''"

datatype company_id = CompanyId (company_id_str: string)

definition company_id_new :: "string \<Rightarrow> (irena_error, company_id) result" where
  "company_id_new value =
     (let reject = reject_value ''irena-record'' ''company'' value
      in case value of
        [] \<Rightarrow> Err (reject ''must not be empty'')
      | first # rest \<Rightarrow>
          if MAX_COMPANY_ID_LEN < length value then Err (reject ''must be at most 64 bytes'')
          else if \<not> (is_ascii_lowercase first \<or> is_ascii_digit first)
          then Err (reject ''must start with a lowercase letter or digit'')
          else if \<not> list_all label_char rest
          then Err (reject label_text)
          else Ok (CompanyId value))"

definition channel_id_new :: "string \<Rightarrow> (irena_error, channel_id) result" where
  "channel_id_new value =
     (let reject = reject_value ''channel'' ''id'' value
      in case value of
        [] \<Rightarrow> Err (reject ''must not be empty'')
      | first # rest \<Rightarrow>
          if MAX_CHANNEL_ID_LEN < length value then Err (reject ''must be at most 64 bytes'')
          else if \<not> (is_ascii_lowercase first \<or> is_ascii_digit first)
          then Err (reject ''must start with a lowercase letter or digit'')
          else if \<not> list_all label_char rest
          then Err (reject label_text)
          else Ok (ChannelId value))"

lemma company_id_new_label: "(\<exists>c. company_id_new s = Ok c) \<longleftrightarrow> wf_label s"
  by (auto simp: company_id_new_def wf_label_def validate_label_def Let_def label_char_def [abs_def]
      MAX_COMPANY_ID_LEN_def MAX_LABEL_LEN_def split: list.splits)

lemma channel_id_new_label: "(\<exists>c. channel_id_new s = Ok c) \<longleftrightarrow> wf_label s"
  by (auto simp: channel_id_new_def wf_label_def validate_label_def Let_def label_char_def [abs_def]
      MAX_CHANNEL_ID_LEN_def MAX_LABEL_LEN_def split: list.splits)

section \<open>White space\<close>

text \<open>
  \<open>str::trim\<close> removes the characters with the Unicode property \<open>White_Space\<close>, which in UTF-8 have one,
  two or three bytes; a text of nothing else trims to the empty string.
\<close>

definition white1 :: "char \<Rightarrow> bool" where
  "white1 a \<longleftrightarrow> (let n = of_char a :: nat in 9 \<le> n \<and> n \<le> 13 \<or> n = 32)"

definition white2 :: "char \<Rightarrow> char \<Rightarrow> bool" where
  "white2 a b \<longleftrightarrow> (let m = of_char a :: nat; n = of_char b :: nat in m = 194 \<and> (n = 133 \<or> n = 160))"

definition white3 :: "char \<Rightarrow> char \<Rightarrow> char \<Rightarrow> bool" where
  "white3 a b c \<longleftrightarrow> (let m = of_char a :: nat; n = of_char b :: nat; k = of_char c :: nat in
     m = 225 \<and> n = 154 \<and> k = 128 \<or>
     m = 226 \<and> n = 128 \<and> (128 \<le> k \<and> k \<le> 138 \<or> k = 168 \<or> k = 169 \<or> k = 175) \<or>
     m = 226 \<and> n = 129 \<and> k = 159 \<or>
     m = 227 \<and> n = 128 \<and> k = 128)"

fun trims_to_empty :: "string \<Rightarrow> bool" where
  "trims_to_empty [] = True"
| "trims_to_empty [a] = white1 a"
| "trims_to_empty [a, b] = (white1 a \<and> white1 b \<or> white2 a b)"
| "trims_to_empty (a # b # c # r) =
     (if white1 a then trims_to_empty (b # c # r)
      else if white2 a b then trims_to_empty (c # r)
      else white3 a b c \<and> trims_to_empty r)"

fun trim_start :: "string \<Rightarrow> string" where
  "trim_start [] = []"
| "trim_start [a] = (if white1 a then [] else [a])"
| "trim_start [a, b] = (if white1 a then trim_start [b] else if white2 a b then [] else [a, b])"
| "trim_start (a # b # c # r) =
     (if white1 a then trim_start (b # c # r)
      else if white2 a b then trim_start (c # r)
      else if white3 a b c then trim_start r
      else a # b # c # r)"

text \<open>The end of a text, on the reversed bytes.\<close>

fun trim_back :: "string \<Rightarrow> string" where
  "trim_back [] = []"
| "trim_back [c] = (if white1 c then [] else [c])"
| "trim_back [c, b] = (if white1 c then trim_back [b] else if white2 b c then [] else [c, b])"
| "trim_back (c # b # a # r) =
     (if white1 c then trim_back (b # a # r)
      else if white2 b c then trim_back (a # r)
      else if white3 a b c then trim_back r
      else c # b # a # r)"

definition trim :: "string \<Rightarrow> string" where
  "trim s = rev (trim_back (rev (trim_start s)))"

section \<open>Identity\<close>

record identity =
  id_name :: string
  id_jurisdiction :: "string option"
  id_registered_number :: "string option"

definition identity_validate :: "identity \<Rightarrow> (irena_error, unit) result" where
  "identity_validate i =
     (if trims_to_empty (id_name i)
      then Err (reject_value ''identity'' ''name'' (id_name i) ''must not be empty'')
      else Ok ())"

section \<open>Notarisation\<close>

definition MAX_NOTARY_ID_LEN :: nat where "MAX_NOTARY_ID_LEN = 128"

definition notary_id_text :: string where
  "notary_id_text = ''may only contain ASCII letters, digits, ''
     @ concat (map (\<lambda>c. quoted c @ '', '') ''._:+'') @ quoted (CHR ''@'') @ '' and '' @ quoted (CHR ''-'')"

datatype notary_id = NotaryId (notary_id_str: string)

definition notary_id_new :: "string \<Rightarrow> (irena_error, notary_id) result" where
  "notary_id_new value =
     (let reject = reject_value ''notarisation'' ''id'' value
      in if value = [] then Err (reject ''must not be empty'')
         else if MAX_NOTARY_ID_LEN < length value then Err (reject ''must be at most 128 bytes'')
         else if \<not> list_all (\<lambda>c. is_ascii_alphanumeric c \<or> c \<in> set ''._:+@-'') value
         then Err (reject notary_id_text)
         else Ok (NotaryId value))"

lemma notary_id_new_voter_grammar:
  "(\<exists>n. notary_id_new s = Ok n) \<longleftrightarrow> (\<exists>v. voter_id_new s = Ok v)"
  by (simp add: notary_id_new_def voter_id_new_def Let_def MAX_NOTARY_ID_LEN_def MAX_VOTER_ID_LEN_def
      voter_id_char_def [abs_def])

text \<open>A date-time \<open>YYYY-MM-DDTHH:MM:SSZ\<close>.\<close>

datatype notary_time = NotaryTime (notary_time_str: string)

definition days_in_month :: "nat \<Rightarrow> nat \<Rightarrow> nat" where
  "days_in_month year month =
     (if month \<in> {1, 3, 5, 7, 8, 10, 12} then 31
      else if month \<in> {4, 6, 9, 11} then 30
      else if year mod 4 = 0 \<and> (year mod 100 \<noteq> 0 \<or> year mod 400 = 0) then 29 else 28)"

definition separator_text :: string where
  "separator_text = ''must use '' @ concat (map (\<lambda>c. quoted c @ '', '') ''-T'') @ quoted (CHR '':'')
     @ '' and a trailing '' @ quoted (CHR ''Z'') @ '' exactly as in YYYY-MM-DDTHH:MM:SSZ''"

text \<open>The character an index must hold, where it is not a digit.\<close>

definition separator_at :: "nat \<Rightarrow> char option" where
  "separator_at i = (if i = 4 \<or> i = 7 then Some (CHR ''-'') else if i = 10 then Some (CHR ''T'')
     else if i = 13 \<or> i = 16 then Some (CHR '':'') else if i = 19 then Some (CHR ''Z'') else None)"

definition time_char_ok :: "nat \<Rightarrow> char \<Rightarrow> bool" where
  "time_char_ok i c = (case separator_at i of Some s \<Rightarrow> c = s | None \<Rightarrow> is_ascii_digit c)"

definition time_field :: "string \<Rightarrow> nat \<Rightarrow> nat \<Rightarrow> nat" where
  "time_field text a b = digits_value (take (b - a) (drop a text))"

definition notary_time_parse :: "string \<Rightarrow> (irena_error, notary_time) result" where
  "notary_time_parse text =
     (let reject = reject_value ''notarisation'' ''at'' text
      in if length text \<noteq> 20 then Err (reject ''must be exactly YYYY-MM-DDTHH:MM:SSZ'')
         else case find (\<lambda>i. \<not> time_char_ok i (text ! i)) [0..<20] of
           Some i \<Rightarrow> Err (reject (if separator_at i = None
             then ''must be exactly YYYY-MM-DDTHH:MM:SSZ with ASCII digits''
             else separator_text))
         | None \<Rightarrow>
             (let year = time_field text 0 4; month = time_field text 5 7; day = time_field text 8 10;
                  hour = time_field text 11 13; minute = time_field text 14 16; second = time_field text 17 19
              in if \<not> (1 \<le> month \<and> month \<le> 12) then Err (reject ''month must be 01 to 12'')
                 else if day = 0 \<or> days_in_month year month < day then Err (reject ''day is outside the month'')
                 else if 23 < hour then Err (reject ''hour must be 00 to 23'')
                 else if 59 < minute then Err (reject ''minute must be 00 to 59'')
                 else if 59 < second then Err (reject ''second must be 00 to 59; leap seconds are not accepted'')
                 else Ok (NotaryTime text)))"

record notarisation =
  nt_id :: notary_id
  nt_name :: string
  nt_address :: "string option"
  nt_at :: notary_time
  nt_statement :: "string option"
  nt_source_digest :: "hash option"

definition notarisation_validate :: "notarisation \<Rightarrow> (irena_error, unit) result" where
  "notarisation_validate n =
     accept (if trims_to_empty (nt_name n)
             then [InvalidValue ''notarisation'' ''name'' (nt_name n) (Because ''must not be empty'')] else []) ()"

section \<open>The byte order of date-times is chronological\<close>

definition time_stamp :: "notary_time \<Rightarrow> nat \<times> nat \<times> nat \<times> nat \<times> nat \<times> nat" where
  "time_stamp t = (let x = notary_time_str t in (time_field x 0 4, time_field x 5 7, time_field x 8 10,
     time_field x 11 13, time_field x 14 16, time_field x 17 19))"

lemma less_append_same_length:
  fixes xs :: "'a::linorder list"
  assumes "length xs = length ys"
  shows "xs @ a < ys @ b \<longleftrightarrow> xs < ys \<or> xs = ys \<and> a < b"
  using assms by (induction xs ys rule: list_induct2) auto

lemma horner_less_iff:
  fixes a b x y n :: nat
  assumes "x < n" and "y < n"
  shows "a * n + x < b * n + y \<longleftrightarrow> a < b \<or> a = b \<and> x < y"
proof -
  have less: "a * n + x < b * n + y" if "a < b" "x < n" for a b x y :: nat
  proof -
    have "a * n + x < Suc a * n" using that(2) by simp
    also have "\<dots> \<le> b * n" using that(1) by (intro mult_le_mono1) simp
    finally show ?thesis by simp
  qed
  show ?thesis
    using less [of a b x y] less [of b a y x] assms by (cases a b rule: linorder_cases) auto
qed

lemma digits_value_less_iff:
  assumes "length xs = length ys" and "\<forall>c \<in> set (xs @ ys). is_ascii_digit c"
  shows "digits_value xs < digits_value ys \<longleftrightarrow> xs < ys"
  using assms
proof (induction xs ys rule: list_induct2)
  case (Cons x xs y ys)
  then have b: "digits_value xs < 10 ^ length xs" "digits_value ys < 10 ^ length xs"
    using digits_value_bound [of xs] digits_value_bound [of ys] by auto
  have d: "(48 :: nat) \<le> of_char x" "(48 :: nat) \<le> of_char y" using Cons.prems by (auto simp: digit_char)
  have "of_char x - 48 < (of_char y - 48 :: nat) \<longleftrightarrow> x < y" "of_char x - 48 = (of_char y - 48 :: nat) \<longleftrightarrow> x = y"
    using d by (auto simp: less_char_def eq_diff_iff)
  then show ?case
    using horner_less_iff [OF b] Cons by (simp add: digits_value_Cons)
qed simp

lemma digits_value_eq_iff:
  assumes "length xs = length ys" and "\<forall>c \<in> set (xs @ ys). is_ascii_digit c"
  shows "digits_value xs = digits_value ys \<longleftrightarrow> xs = ys"
  using digits_value_less_iff [OF assms] digits_value_less_iff [of ys xs] assms
  by (cases xs ys rule: linorder_cases) (auto simp: Un_commute)

lemma digits_value_le_iff:
  assumes "length xs = length ys" and "\<forall>c \<in> set (xs @ ys). is_ascii_digit c"
  shows "digits_value xs \<le> digits_value ys \<longleftrightarrow> xs < ys \<or> xs = ys"
  unfolding le_less digits_value_less_iff [OF assms] digits_value_eq_iff [OF assms] ..

lemma notary_time_shape:
  assumes "notary_time_parse text = Ok t"
  obtains Y M D h m s where "text = Y @ ''-'' @ M @ ''-'' @ D @ ''T'' @ h @ '':'' @ m @ '':'' @ s @ ''Z''"
    "length Y = 4" "length M = 2" "length D = 2" "length h = 2" "length m = 2" "length s = 2"
    "\<forall>c \<in> set (Y @ M @ D @ h @ m @ s). is_ascii_digit c"
    "time_stamp t = (digits_value Y, digits_value M, digits_value D, digits_value h, digits_value m, digits_value s)"
    "t = NotaryTime text"
proof -
  from assms have len: "length text = 20" and ok: "\<forall>i < 20. time_char_ok i (text ! i)"
    and t: "t = NotaryTime text"
    by (auto simp: notary_time_parse_def Let_def find_None_iff split: if_splits option.splits)
  have cut: "take n (drop k text) @ drop (k + n) text = drop k text" for k n
    by (metis add.commute append_take_drop_id drop_drop)
  have sep: "drop i text = c # drop (Suc i) text" if "separator_at i = Some c" "i < 20" for i c
    using ok that len by (auto simp: time_char_ok_def Cons_nth_drop_Suc [symmetric])
  have dig: "\<forall>c \<in> set (take n (drop k text)). is_ascii_digit c" if none: "\<forall>i \<in> {k..<k + n}. separator_at i = None" and b: "k + n \<le> 20" for k n
  proof
    fix c assume "c \<in> set (take n (drop k text))"
    then obtain j where "j < n" "c = text ! (k + j)" using b len by (auto simp: in_set_conv_nth)
    then show "is_ascii_digit c" using ok none b by (auto simp: time_char_ok_def dest: spec [of _ "k + j"])
  qed
  show thesis
  proof (rule that)
    show "text = take 4 (drop 0 text) @ ''-'' @ take 2 (drop 5 text) @ ''-'' @ take 2 (drop 8 text) @ ''T''
        @ take 2 (drop 11 text) @ '':'' @ take 2 (drop 14 text) @ '':'' @ take 2 (drop 17 text) @ ''Z''"
      using cut [of 4 0] sep [of 4] cut [of 2 5] sep [of 7] cut [of 2 8] sep [of 10] cut [of 2 11] sep [of 13]
        cut [of 2 14] sep [of 16] cut [of 2 17] sep [of 19] len
      by (simp add: separator_at_def)
    show "\<forall>c \<in> set (take 4 (drop 0 text) @ take 2 (drop 5 text) @ take 2 (drop 8 text) @ take 2 (drop 11 text)
        @ take 2 (drop 14 text) @ take 2 (drop 17 text)). is_ascii_digit c"
      using dig [of 0 4] dig [of 5 2] dig [of 8 2] dig [of 11 2] dig [of 14 2] dig [of 17 2]
      by (simp add: separator_at_def Ball_def)
  qed (use len in \<open>simp_all add: t time_stamp_def time_field_def\<close>)
qed

text \<open>
  The byte order of accepted date-times is chronological: two texts that \<open>NotaryTimeV1::parse\<close>
  accepts compare like the instants they name (year, month, day, hour, minute, second), and two
  accepted texts that name the same instant are the same text.
\<close>

theorem time_order_chronological:
  assumes "notary_time_parse a = Ok x" and "notary_time_parse b = Ok y"
  shows "(a < b \<longleftrightarrow> time_stamp x < time_stamp y) \<and> (a = b \<longleftrightarrow> time_stamp x = time_stamp y)"
proof -
  from notary_time_shape [OF assms(1)] obtain Y M D h m s where
    a: "a = Y @ ''-'' @ M @ ''-'' @ D @ ''T'' @ h @ '':'' @ m @ '':'' @ s @ ''Z''"
    "length Y = 4" "length M = 2" "length D = 2" "length h = 2" "length m = 2" "length s = 2"
    "\<forall>c \<in> set (Y @ M @ D @ h @ m @ s). is_ascii_digit c"
    "time_stamp x = (digits_value Y, digits_value M, digits_value D, digits_value h, digits_value m, digits_value s)"
    .
  from notary_time_shape [OF assms(2)] obtain Y' M' D' h' m' s' where
    b: "b = Y' @ ''-'' @ M' @ ''-'' @ D' @ ''T'' @ h' @ '':'' @ m' @ '':'' @ s' @ ''Z''"
    "length Y' = 4" "length M' = 2" "length D' = 2" "length h' = 2" "length m' = 2" "length s' = 2"
    "\<forall>c \<in> set (Y' @ M' @ D' @ h' @ m' @ s'). is_ascii_digit c"
    "time_stamp y = (digits_value Y', digits_value M', digits_value D', digits_value h', digits_value m', digits_value s')"
    .
  note v = digits_value_less_iff digits_value_eq_iff digits_value_le_iff
  have d: "\<forall>c \<in> set (Y @ Y'). is_ascii_digit c" "\<forall>c \<in> set (M @ M'). is_ascii_digit c"
    "\<forall>c \<in> set (D @ D'). is_ascii_digit c" "\<forall>c \<in> set (h @ h'). is_ascii_digit c"
    "\<forall>c \<in> set (m @ m'). is_ascii_digit c" "\<forall>c \<in> set (s @ s'). is_ascii_digit c"
    using a(8) b(8) by auto
  show ?thesis
    using a(2-7) b(2-7) unfolding a(1,9) b(1,9)
    by (simp add: less_append_same_length v d) blast
qed

definition sample_time :: notary_time where
  "sample_time = NotaryTime ''2024-02-29T23:59:59Z''"

lemma sample_time_parse: "notary_time_parse ''2024-02-29T23:59:59Z'' = Ok sample_time"
  unfolding sample_time_def by code_simp

theorem time_order_chronological_witness:
  "''2024-02-29T23:59:59Z'' < ''2024-03-01T00:00:00Z''"
proof -
  have b: "notary_time_parse ''2024-03-01T00:00:00Z'' = Ok (NotaryTime ''2024-03-01T00:00:00Z'')" by code_simp
  have "time_stamp sample_time < time_stamp (NotaryTime ''2024-03-01T00:00:00Z'')"
    unfolding sample_time_def by code_simp
  then show ?thesis using time_order_chronological [OF sample_time_parse b] by blast
qed

end
