(* ===== verification/Irena_Parts.thy ===== *)
theory Irena_Parts
  imports Irena_Core
begin

text \<open>
  \<open>crates/irena-core\<close>, the parts of a company and the record that carries them: the share register
  (\<open>shares.rs\<close>), rosters, scopes and channels (\<open>channel.rs\<close>), identities (\<open>identities.rs\<close>),
  authorisation (\<open>authorisation.rs\<close>), the founding record (\<open>company.rs\<close>) and the envelope
  (\<open>record.rs\<close>). Each part sorts its items, refuses what cannot be one and is looked up by binary
  search: an interpretation of the two table interfaces of the prelude.
\<close>

section \<open>Loops over a sorted list\<close>

text \<open>
  The loop shared by the register and the rosters, over the items in key order: a key equal to the
  one before, a weight of zero, a running total that overflows (and is left where it was).
\<close>

fun weighted_issues ::
    "('k \<Rightarrow> irena_issue) \<Rightarrow> ('k \<Rightarrow> irena_issue) \<Rightarrow> irena_issue \<Rightarrow> 'k option \<Rightarrow> u64 \<Rightarrow> bool
      \<Rightarrow> ('k \<times> u64) list \<Rightarrow> irena_issue list" where
  "weighted_issues dup zero over previous tot overflowed [] = (if overflowed then [over] else [])"
| "weighted_issues dup zero over previous tot overflowed ((k, w) # r) =
     (if previous = Some k then [dup k] else []) @
     (if w = 0 then [zero k] else []) @
     (case checked_add tot w of
        Some t \<Rightarrow> weighted_issues dup zero over (Some k) t overflowed r
      | None \<Rightarrow> weighted_issues dup zero over (Some k) tot True r)"

text \<open>The loop of the other sets: only the repeated keys.\<close>

fun repeat_issues :: "('a \<Rightarrow> irena_issue list) \<Rightarrow> ('a \<Rightarrow> 'k) \<Rightarrow> 'k option \<Rightarrow> 'a list \<Rightarrow> irena_issue list" where
  "repeat_issues dup key previous [] = []"
| "repeat_issues dup key previous (x # xs) =
     (if previous = Some (key x) then dup x else []) @ repeat_issues dup key (Some (key x)) xs"

lemma sorted_distinct_Cons:
  "sorted (k # ks) \<Longrightarrow> distinct (k # ks) \<longleftrightarrow> distinct ks \<and> (case ks of [] \<Rightarrow> True | l # _ \<Rightarrow> k \<noteq> l)"
  by (cases ks) (auto simp: order.order_iff_strict)

lemma repeat_issues_empty_iff:
  assumes "\<And>x. dup x \<noteq> []"
  shows "sorted (map key xs) \<Longrightarrow> repeat_issues dup key p xs = [] \<longleftrightarrow>
    distinct (map key xs) \<and> (case map key xs of [] \<Rightarrow> True | k # _ \<Rightarrow> p \<noteq> Some k)"
proof (induction xs arbitrary: p)
  case (Cons x xs)
  have "distinct (map key (x # xs)) \<longleftrightarrow> distinct (map key xs) \<and> (case map key xs of [] \<Rightarrow> True | l # _ \<Rightarrow> key x \<noteq> l)"
    using sorted_distinct_Cons [of "key x" "map key xs"] Cons.prems by (simp only: list.map)
  moreover have "repeat_issues dup key (Some (key x)) xs = [] \<longleftrightarrow>
      distinct (map key xs) \<and> (case map key xs of [] \<Rightarrow> True | l # _ \<Rightarrow> key x \<noteq> l)"
    using Cons by (simp add: list.case_eq_if)
  ultimately show ?case by (auto simp: assms simp del: distinct.simps)
qed simp

lemma repeat_issues_None_iff:
  "\<lbrakk>\<And>x. dup x \<noteq> []; sorted (map key xs)\<rbrakk> \<Longrightarrow> repeat_issues dup key None xs = [] \<longleftrightarrow> distinct (map key xs)"
  by (simp add: repeat_issues_empty_iff split: list.splits)

lemma weighted_issues_overflowed: "weighted_issues dup zero over p t True xs \<noteq> []"
  by (induction xs arbitrary: p t) (auto split: option.splits)

lemma weighted_issues_empty_iff:
  assumes "sorted (map fst xs)"
  shows "weighted_issues dup zero over None 0 False xs = [] \<longleftrightarrow>
    distinct (map fst xs) \<and> (\<forall>w \<in> snd ` set xs. w \<noteq> 0) \<and> weight_nat (map snd xs) < 2 ^ 64"
proof -
  have "weighted_issues dup zero over p t False xs = [] \<longleftrightarrow>
      distinct (map fst xs) \<and> (case map fst xs of [] \<Rightarrow> True | k # _ \<Rightarrow> p \<noteq> Some k) \<and>
      (\<forall>w \<in> snd ` set xs. w \<noteq> 0) \<and> unat t + weight_nat (map snd xs) < 2 ^ 64" if "sorted (map fst xs)" for p t
    using that
  proof (induction xs arbitrary: p t)
    case Nil
    then show ?case using unat_bound [of t] by simp
  next
    case (Cons x xs)
    obtain k w where x: "x = (k, w)" by (cases x)
    have d: "distinct (map fst (x # xs)) \<longleftrightarrow>
        distinct (map fst xs) \<and> (case map fst xs of [] \<Rightarrow> True | l # _ \<Rightarrow> k \<noteq> l)"
      using sorted_distinct_Cons [of k "map fst xs"] Cons.prems by (simp only: list.map x fst_conv)
    show ?case
    proof (cases "checked_add t w")
      case None
      then have "2 ^ 64 \<le> unat t + unat w" by (simp add: word_nat)
      then show ?thesis using None by (simp add: x weighted_issues_overflowed)
    next
      case (Some s)
      then have s: "unat t + unat w = unat s" by (simp add: word_nat)
      have "weighted_issues dup zero over (Some k) s False xs = [] \<longleftrightarrow>
        distinct (map fst xs) \<and> (case map fst xs of [] \<Rightarrow> True | l # _ \<Rightarrow> k \<noteq> l) \<and>
        (\<forall>w \<in> snd ` set xs. w \<noteq> 0) \<and> unat s + weight_nat (map snd xs) < 2 ^ 64"
        using Cons by (simp add: list.case_eq_if)
      then show ?thesis
        unfolding d using Some s by (auto simp: x add.assoc [symmetric])
    qed
  qed
  then show ?thesis using assms by (simp split: list.splits)
qed

lemma sorted_sort_key [simp]: "sorted (map f (sort_key f xs))"
  by simp

lemma weight_nat_mset: "mset xs = mset ys \<Longrightarrow> weight_nat (map w xs) = weight_nat (map w ys)"
  by (metis mset_map sum_mset_sum_list)

text \<open>What a list of keyed weights must satisfy, in terms of its elements.\<close>

definition fair_weights :: "('a \<Rightarrow> 'k) \<Rightarrow> ('a \<Rightarrow> u64) \<Rightarrow> 'a multiset \<Rightarrow> bool" where
  "fair_weights key weight M \<longleftrightarrow> distinct_keys key M \<and> (\<forall>x \<in># M. weight x \<noteq> 0) \<and>
     (\<Sum>x \<in># M. unat (weight x)) < 2 ^ 64"

lemma weighted_issues_sorted:
  "weighted_issues dup zero over None 0 False (map (\<lambda>x. (key x, weight x)) (sort_key key xs)) = [] \<longleftrightarrow>
     fair_weights key weight (mset xs)"
proof -
  have "weight_nat (map weight (sort_key key xs)) = (\<Sum>x \<in># mset xs. unat (weight x))"
    by (metis (no_types, lifting) map_map comp_apply map_eq_conv mset_map mset_sort sum_mset_sum_list)
  then show ?thesis
    by (subst weighted_issues_empty_iff) (auto simp: o_def fair_weights_def image_image)
qed

section \<open>The share register\<close>

definition MAX_HOLDERS :: nat where "MAX_HOLDERS = 1000000"

record holder =
  ho_id :: voter_id
  ho_name :: "string option"
  ho_shares :: u64

datatype share_structure = ShareRegister (holders: "holder list")

definition share_structure_new :: "holder list \<Rightarrow> (irena_error, share_structure) result" where
  "share_structure_new hs =
     (if MAX_HOLDERS < length hs then Err (irena_invalid [TooManyHolders MAX_HOLDERS])
      else let sorted = sort_key ho_id hs;
             issues = weighted_issues DuplicateHolder ZeroShares (TotalSharesOverflow (- 1)) None 0 False
               (map (\<lambda>h. (ho_id h, ho_shares h)) sorted)
        in accept issues (ShareRegister sorted))"

definition share_structure_get :: "share_structure \<Rightarrow> voter_id \<Rightarrow> holder option" where
  "share_structure_get s i = table_get ho_id (holders s) i"

text \<open>\<open>iter().sum()\<close>, which panics on overflow.\<close>

definition total_shares :: "share_structure \<Rightarrow> ('e, u64) result" where
  "total_shares s = try_fold (\<lambda>t h. padd t (ho_shares h)) 0 (holders s)"

definition wf_shares :: "share_structure \<Rightarrow> bool" where
  "wf_shares s \<longleftrightarrow> sorted_wrt (<) (map ho_id (holders s)) \<and> (\<forall>h \<in> set (holders s). ho_shares h \<noteq> 0) \<and>
     weight_nat (map ho_shares (holders s)) < 2 ^ 64 \<and> length (holders s) \<le> MAX_HOLDERS"

definition admissible_holders :: "holder multiset \<Rightarrow> bool" where
  "admissible_holders M \<longleftrightarrow> size M \<le> MAX_HOLDERS \<and> fair_weights ho_id ho_shares M"

interpretation share_builder: canonical_builder
  share_structure_new holders ho_id ShareRegister admissible_holders
  by unfold_locales
    (auto simp: share_structure_new_def Let_def admissible_holders_def weighted_issues_sorted fair_weights_def)

interpretation share_table: sorted_table holders ho_id share_structure_get wf_shares
  by unfold_locales (simp_all add: wf_shares_def share_structure_get_def)

lemma share_structure_new_wf:
  assumes "share_structure_new hs = Ok s"
  shows "wf_shares s"
proof -
  have "admissible_holders (mset (holders s))"
    using assms share_builder.build_mset [OF assms] by (simp add: share_builder.build_Ok_iff)
  then have "size (mset (holders s)) \<le> MAX_HOLDERS" "\<forall>h \<in> set (holders s). ho_shares h \<noteq> 0"
    "(\<Sum>h \<in># mset (holders s). unat (ho_shares h)) < 2 ^ 64"
    by (simp_all add: admissible_holders_def fair_weights_def)
  moreover have "(\<Sum>h \<in># mset (holders s). unat (ho_shares h)) = weight_nat (map ho_shares (holders s))"
    by (simp flip: mset_map sum_mset_sum_list add: o_def)
  ultimately show ?thesis using share_builder.build_strict [OF assms] by (simp add: wf_shares_def)
qed

lemma psum_Ok: "unat t + weight_nat (map f xs) < 2 ^ 64 \<Longrightarrow>
    \<exists>s. try_fold (\<lambda>t x. padd t (f x)) t xs = (Ok s :: ('e, u64) result) \<and> unat s = unat t + weight_nat (map f xs)"
proof (induction xs arbitrary: t)
  case (Cons x xs)
  then have p: "(padd t (f x) :: ('e, u64) result) = Ok (t + f x)" by (intro padd_Ok) simp
  then have "unat t + unat (f x) = unat (t + f x)" by (simp only: padd_Ok_iff)
  then show ?case using Cons.IH [of "t + f x"] Cons.prems p by (simp add: add.assoc [symmetric])
qed simp

lemma total_shares_Ok: "wf_shares s \<Longrightarrow> \<exists>t. total_shares s = Ok t \<and> unat t = weight_nat (map ho_shares (holders s))"
  using psum_Ok [of 0 ho_shares "holders s"] by (simp add: total_shares_def wf_shares_def)

section \<open>Rosters\<close>

definition MAX_MEMBERS :: nat where "MAX_MEMBERS = 100000"
definition MAX_CHANNELS :: nat where "MAX_CHANNELS = 1000"

record member =
  mb_id :: voter_id
  mb_name :: "string option"
  mb_weight :: u64

datatype roster = Roster (members: "member list")

definition roster_new :: "channel_id \<Rightarrow> member list \<Rightarrow> (irena_error, roster) result" where
  "roster_new channel ms =
     (if MAX_MEMBERS < length ms then Err (irena_invalid [TooManyMembers channel MAX_MEMBERS])
      else let sorted = sort_key mb_id ms;
             issues = (if ms = [] then [EmptyRoster channel] else []) @
               weighted_issues (DuplicateMember channel) (ZeroWeightMember channel)
                 (RosterWeightOverflow channel (- 1)) None 0 False
                 (map (\<lambda>m. (mb_id m, mb_weight m)) sorted)
        in accept issues (Roster sorted))"

definition roster_get :: "roster \<Rightarrow> voter_id \<Rightarrow> member option" where
  "roster_get r i = table_get mb_id (members r) i"

definition wf_roster :: "roster \<Rightarrow> bool" where
  "wf_roster r \<longleftrightarrow> members r \<noteq> [] \<and> sorted_wrt (<) (map mb_id (members r)) \<and>
     (\<forall>m \<in> set (members r). mb_weight m \<noteq> 0) \<and> weight_nat (map mb_weight (members r)) < 2 ^ 64"

definition admissible_members :: "member multiset \<Rightarrow> bool" where
  "admissible_members M \<longleftrightarrow> size M \<le> MAX_MEMBERS \<and> M \<noteq> {#} \<and> fair_weights mb_id mb_weight M"

interpretation roster_builder: canonical_builder "roster_new channel" members mb_id Roster admissible_members
  for channel
  by unfold_locales
    (auto simp: roster_new_def Let_def admissible_members_def weighted_issues_sorted fair_weights_def)

interpretation roster_table: sorted_table members mb_id roster_get wf_roster
  by unfold_locales (simp_all add: wf_roster_def roster_get_def)

lemma roster_new_wf:
  assumes "roster_new channel ms = Ok r"
  shows "wf_roster r"
proof -
  have "admissible_members (mset (members r))"
    using assms roster_builder.build_mset [OF assms] by (simp add: roster_builder.build_Ok_iff)
  then have "members r \<noteq> []" "\<forall>m \<in> set (members r). mb_weight m \<noteq> 0"
    "(\<Sum>m \<in># mset (members r). unat (mb_weight m)) < 2 ^ 64"
    by (auto simp: admissible_members_def fair_weights_def)
  moreover have "(\<Sum>m \<in># mset (members r). unat (mb_weight m)) = weight_nat (map mb_weight (members r))"
    by (simp flip: mset_map sum_mset_sum_list add: o_def)
  ultimately show ?thesis using roster_builder.build_strict [OF assms] by (simp add: wf_roster_def)
qed

section \<open>Scopes and channels\<close>

datatype channel_scope = ChannelScope (parts: "record_kind list")

definition scope_new :: "channel_id \<Rightarrow> record_kind list \<Rightarrow> (irena_error, channel_scope) result" where
  "scope_new channel ps =
     (let sorted = sort ps;
          issues = (if ps = [] then [EmptyScope channel] else []) @
            repeat_issues (\<lambda>p. [DuplicateScopePart channel p]) (\<lambda>p. p) None sorted @
            map (ScopeNotAnAmendment channel) (filter (\<lambda>p. p \<notin> set AMENDMENTS) sorted)
      in accept issues (ChannelScope (remdups_adj sorted)))"

definition scope_allows :: "channel_scope \<Rightarrow> record_kind \<Rightarrow> bool" where
  "scope_allows s p \<longleftrightarrow> p \<in> set (parts s)"

definition admissible_parts :: "record_kind multiset \<Rightarrow> bool" where
  "admissible_parts M \<longleftrightarrow> M \<noteq> {#} \<and> distinct_keys (\<lambda>p. p) M \<and> CompanyGenesis \<notin># M"

lemma filter_amendments_empty: "filter (\<lambda>p. p \<notin> set AMENDMENTS) ps = [] \<longleftrightarrow> CompanyGenesis \<notin> set ps"
  by (auto simp: filter_empty_conv AMENDMENTS_iff)

interpretation scope_builder: canonical_builder "scope_new channel" parts "\<lambda>p. p" ChannelScope admissible_parts
  for channel
  using distinct_keys_mset [where key = "\<lambda>p. p"]
  by unfold_locales
    (auto simp: scope_new_def Let_def admissible_parts_def filter_amendments_empty
      repeat_issues_None_iff [of "\<lambda>p. [DuplicateScopePart channel p]" "\<lambda>p. p"] remdups_adj_distinct)

datatype actor_source = FromShareRegister | FromRoster roster

definition source_as_str :: "actor_source \<Rightarrow> string" where
  "source_as_str s = (case s of FromShareRegister \<Rightarrow> ''share-register'' | FromRoster _ \<Rightarrow> ''roster'')"

datatype channel_mode = Individual | Collective voting_rules

definition mode_as_str :: "channel_mode \<Rightarrow> string" where
  "mode_as_str m = (case m of Individual \<Rightarrow> ''individual'' | Collective _ \<Rightarrow> ''collective'')"

definition is_individual :: "channel_mode \<Rightarrow> bool" where
  "is_individual m \<longleftrightarrow> (case m of Individual \<Rightarrow> True | Collective _ \<Rightarrow> False)"

definition mode_rules :: "channel_mode \<Rightarrow> voting_rules option" where
  "mode_rules m = (case m of Individual \<Rightarrow> None | Collective rules \<Rightarrow> Some rules)"

record decision_channel =
  ch_id :: channel_id
  ch_actors :: actor_source
  ch_mode :: channel_mode
  ch_scope :: "channel_scope option"

definition may_amend :: "decision_channel \<Rightarrow> record_kind \<Rightarrow> bool" where
  "may_amend c p \<longleftrightarrow> (case ch_scope c of None \<Rightarrow> False | Some s \<Rightarrow> scope_allows s p)"

datatype decision_channels = DecisionChannelSet (channels: "decision_channel list")

definition channels_new :: "decision_channel list \<Rightarrow> (irena_error, decision_channels) result" where
  "channels_new cs =
     (if MAX_CHANNELS < length cs then Err (irena_invalid [TooManyChannels MAX_CHANNELS])
      else let sorted = sort_key ch_id cs;
             issues = (if cs = [] then [NoChannels] else []) @
               repeat_issues (\<lambda>c. [DuplicateChannel (ch_id c)]) ch_id None sorted
        in accept issues (DecisionChannelSet sorted))"

definition channels_get :: "decision_channels \<Rightarrow> channel_id \<Rightarrow> decision_channel option" where
  "channels_get cs i = table_get ch_id (channels cs) i"

definition wf_channels :: "decision_channels \<Rightarrow> bool" where
  "wf_channels cs \<longleftrightarrow> channels cs \<noteq> [] \<and> sorted_wrt (<) (map ch_id (channels cs))"

definition admissible_channels :: "decision_channel multiset \<Rightarrow> bool" where
  "admissible_channels M \<longleftrightarrow> size M \<le> MAX_CHANNELS \<and> M \<noteq> {#} \<and> distinct_keys ch_id M"

interpretation channels_builder: canonical_builder channels_new channels ch_id DecisionChannelSet admissible_channels
  by unfold_locales (auto simp: channels_new_def Let_def admissible_channels_def repeat_issues_None_iff)

interpretation channels_table: sorted_table channels ch_id channels_get wf_channels
  by unfold_locales (simp_all add: wf_channels_def channels_get_def)

section \<open>Identities\<close>

definition MAX_PERSONS :: nat where "MAX_PERSONS = 1000000"

record person =
  pn_id :: voter_id
  pn_name :: "string option"
  pn_document_id :: "string option"
  pn_key :: "public_key option"

datatype identities = IdentityTable (persons: "person list")

text \<open>
  The loop of \<open>IdentitiesV1::new\<close>; \<open>keys\<close> maps a key to the last person seen with it.
\<close>

fun person_issues :: "voter_id option \<Rightarrow> (public_key \<rightharpoonup> voter_id) \<Rightarrow> person list \<Rightarrow> irena_issue list" where
  "person_issues previous keys [] = []"
| "person_issues previous keys (p # r) =
     (if previous = Some (pn_id p) then [DuplicatePerson (pn_id p)] else []) @
     (case pn_key p of
        None \<Rightarrow> person_issues (Some (pn_id p)) keys r
      | Some k \<Rightarrow>
          (case keys k of
             Some first \<Rightarrow> if first \<noteq> pn_id p then [DuplicateKey first (pn_id p)] else []
           | None \<Rightarrow> []) @ person_issues (Some (pn_id p)) (keys(k \<mapsto> pn_id p)) r)"

definition identities_new :: "person list \<Rightarrow> (irena_error, identities) result" where
  "identities_new ps =
     (if MAX_PERSONS < length ps then Err (irena_invalid [TooManyPersons MAX_PERSONS])
      else let sorted = sort_key pn_id ps
        in accept (person_issues None Map.empty sorted) (IdentityTable sorted))"

definition identities_get :: "identities \<Rightarrow> voter_id \<Rightarrow> person option" where
  "identities_get t i = table_get pn_id (persons t) i"

definition key_of :: "identities \<Rightarrow> voter_id \<Rightarrow> public_key option" where
  "key_of t i = Option.bind (identities_get t i) pn_key"

definition holder_of :: "identities \<Rightarrow> public_key \<Rightarrow> person option" where
  "holder_of t k = find (\<lambda>p. pn_key p = Some k) (persons t)"

definition wf_identities :: "identities \<Rightarrow> bool" where
  "wf_identities t \<longleftrightarrow> sorted_wrt (<) (map pn_id (persons t)) \<and>
     (\<forall>p \<in> set (persons t). \<forall>q \<in> set (persons t). \<forall>k. pn_key p = Some k \<longrightarrow> pn_key q = Some k \<longrightarrow> p = q)"

definition keys_consistent :: "(public_key \<rightharpoonup> voter_id) \<Rightarrow> person set \<Rightarrow> bool" where
  "keys_consistent keys P \<longleftrightarrow> (\<forall>p \<in> P. \<forall>k i. pn_key p = Some k \<longrightarrow> keys k = Some i \<longrightarrow> i = pn_id p)"

definition keys_exclusive :: "person set \<Rightarrow> bool" where
  "keys_exclusive P \<longleftrightarrow> (\<forall>p \<in> P. \<forall>q \<in> P. \<forall>k. pn_key p = Some k \<longrightarrow> pn_key q = Some k \<longrightarrow> pn_id p = pn_id q)"

lemma keys_exclusive_insert:
  "keys_exclusive (insert p P) \<longleftrightarrow> keys_exclusive P \<and>
     (\<forall>k. pn_key p = Some k \<longrightarrow> (\<forall>q \<in> P. pn_key q = Some k \<longrightarrow> pn_id p = pn_id q))"
  (is "?L \<longleftrightarrow> ?R")
proof
  assume L: ?L
  then have "keys_exclusive P" unfolding keys_exclusive_def by (meson insertI2)
  moreover have "pn_id p = pn_id q" if "pn_key p = Some k" "q \<in> P" "pn_key q = Some k" for k q
    using L that unfolding keys_exclusive_def by (meson insertI1 insertI2)
  ultimately show ?R by simp
next
  assume R: ?R
  show ?L
    unfolding keys_exclusive_def
  proof (intro ballI allI impI)
    fix a b k
    assume ab: "a \<in> insert p P" "b \<in> insert p P" and k: "pn_key a = Some k" "pn_key b = Some k"
    consider "a = p" "b = p" | "a = p" "b \<in> P" | "a \<in> P" "b = p" | "a \<in> P" "b \<in> P" using ab by fast
    then show "pn_id a = pn_id b"
    proof cases
      case 4
      then show ?thesis using R k unfolding keys_exclusive_def by meson
    qed (use R k in simp_all)
  qed
qed

lemma keys_consistent_insert:
  "keys_consistent keys (insert p P) \<longleftrightarrow> keys_consistent keys P \<and>
     (\<forall>k i. pn_key p = Some k \<longrightarrow> keys k = Some i \<longrightarrow> i = pn_id p)"
  unfolding keys_consistent_def by blast

lemma keys_consistent_upd:
  assumes "keys k = None \<or> keys k = Some i"
  shows "keys_consistent (keys(k \<mapsto> i)) P \<longleftrightarrow>
    keys_consistent keys P \<and> (\<forall>q \<in> P. pn_key q = Some k \<longrightarrow> i = pn_id q)"
  (is "?L \<longleftrightarrow> ?R")
proof
  assume L: ?L
  have i: "i = pn_id q" if "q \<in> P" "pn_key q = Some k" for q
    using L that unfolding keys_consistent_def by (meson fun_upd_same)
  have "j = pn_id q" if "q \<in> P" "pn_key q = Some l" "keys l = Some j" for q l j
  proof (cases "l = k")
    case True
    then show ?thesis using i [of q] that assms by simp
  next
    case False
    then have "(keys(k \<mapsto> i)) l = Some j" using that by simp
    then show ?thesis using L that unfolding keys_consistent_def by meson
  qed
  then show ?R using i unfolding keys_consistent_def by simp
next
  assume R: ?R
  have "j = pn_id q" if "q \<in> P" "pn_key q = Some l" "(keys(k \<mapsto> i)) l = Some j" for q l j
  proof (cases "l = k")
    case True
    then show ?thesis using R that by simp
  next
    case False
    then have "keys l = Some j" using that by simp
    then show ?thesis using R that unfolding keys_consistent_def by meson
  qed
  then show ?L unfolding keys_consistent_def by simp
qed

lemma person_issues_step:
  assumes "sorted (map pn_id ps)"
  shows "person_issues previous keys ps = [] \<longleftrightarrow>
      distinct (map pn_id ps) \<and> (case map pn_id ps of [] \<Rightarrow> True | i # _ \<Rightarrow> previous \<noteq> Some i) \<and>
      keys_consistent keys (set ps) \<and> keys_exclusive (set ps)"
  using assms
proof (induction ps arbitrary: previous keys)
  case Nil
  then show ?case by (simp add: keys_consistent_def keys_exclusive_def)
next
  case (Cons p r)
  have d: "distinct (map pn_id (p # r)) \<longleftrightarrow>
      distinct (map pn_id r) \<and> (case map pn_id r of [] \<Rightarrow> True | l # _ \<Rightarrow> Some (pn_id p) \<noteq> Some l)"
    using sorted_distinct_Cons [of "pn_id p" "map pn_id r"] Cons.prems by (simp only: list.map option.inject)
  have IH: "person_issues previous keys r = [] \<longleftrightarrow>
      distinct (map pn_id r) \<and> (case map pn_id r of [] \<Rightarrow> True | i # _ \<Rightarrow> previous \<noteq> Some i) \<and>
      keys_consistent keys (set r) \<and> keys_exclusive (set r)" for previous keys
    using Cons by simp
  show ?case
  proof (cases "pn_key p")
    case None
    then show ?thesis
      unfolding d by (simp add: IH keys_exclusive_insert keys_consistent_insert conj_ac)
  next
    case (Some k)
    show ?thesis
    proof (cases "keys k = None \<or> keys k = Some (pn_id p)")
      case True
      then have "(case keys k of Some first \<Rightarrow> if first \<noteq> pn_id p then [DuplicateKey first (pn_id p)] else []
          | None \<Rightarrow> []) = []" and k: "\<And>i. keys k = Some i \<Longrightarrow> i = pn_id p" by auto
      then have "person_issues previous keys (p # r) = [] \<longleftrightarrow> previous \<noteq> Some (pn_id p) \<and>
          person_issues (Some (pn_id p)) (keys(k \<mapsto> pn_id p)) r = []"
        by (simp add: Some)
      then show ?thesis
        unfolding d using k
        by (simp add: Some IH keys_exclusive_insert keys_consistent_insert keys_consistent_upd [of keys k "pn_id p" "set r", OF True] conj_ac)
    next
      case False
      then obtain i where "keys k = Some i" "i \<noteq> pn_id p" by (cases "keys k") simp_all
      then show ?thesis
        by (simp add: Some keys_consistent_insert)
    qed
  qed
qed

lemma person_issues_empty_iff:
  assumes "sorted (map pn_id ps)"
  shows "person_issues None Map.empty ps = [] \<longleftrightarrow> distinct (map pn_id ps) \<and> keys_exclusive (set ps)"
  using person_issues_step [OF assms, of None Map.empty]
  by (simp add: keys_consistent_def split: list.splits)

definition admissible_persons :: "person multiset \<Rightarrow> bool" where
  "admissible_persons M \<longleftrightarrow> size M \<le> MAX_PERSONS \<and> distinct_keys pn_id M \<and> keys_exclusive (set_mset M)"

interpretation identities_builder: canonical_builder identities_new persons pn_id IdentityTable admissible_persons
  by unfold_locales
    (auto simp: identities_new_def Let_def admissible_persons_def person_issues_empty_iff)

interpretation identities_table: sorted_table persons pn_id identities_get wf_identities
  by unfold_locales (simp_all add: wf_identities_def identities_get_def)

lemma identities_new_wf:
  assumes "identities_new ps = Ok t"
  shows "wf_identities t"
proof -
  have strict: "sorted_wrt (<) (map pn_id (persons t))" by (rule identities_builder.build_strict [OF assms])
  have "keys_exclusive (set (persons t))"
    using assms identities_builder.build_mset [OF assms]
    by (metis admissible_persons_def identities_builder.build_Ok_iff set_mset_mset)
  moreover have "inj_on pn_id (set (persons t))"
    using strict by (simp add: sorted_distinct_iff_less distinct_map)
  ultimately show ?thesis
    using strict unfolding wf_identities_def keys_exclusive_def inj_on_def by metis
qed

text \<open>A key names exactly one person, and the two lookups agree.\<close>

lemma holder_of_Some_iff:
  assumes "wf_identities t"
  shows "holder_of t k = Some p \<longleftrightarrow> p \<in> set (persons t) \<and> pn_key p = Some k"
proof
  assume "holder_of t k = Some p"
  then show "p \<in> set (persons t) \<and> pn_key p = Some k" by (auto simp: holder_of_def find_Some_iff)
next
  assume p: "p \<in> set (persons t) \<and> pn_key p = Some k"
  then obtain q where q: "holder_of t k = Some q"
    by (cases "holder_of t k") (auto simp: holder_of_def find_None_iff)
  then have "q \<in> set (persons t)" "pn_key q = Some k" by (auto simp: holder_of_def find_Some_iff)
  then have "p = q" using assms p unfolding wf_identities_def by blast
  then show "holder_of t k = Some p" using q by simp
qed

lemma key_of_holder_of:
  assumes "wf_identities t"
  shows "key_of t i = Some k \<longleftrightarrow> (\<exists>p. holder_of t k = Some p \<and> pn_id p = i)"
  using assms
  by (auto simp: key_of_def bind_eq_Some_conv identities_table.get_Some_iff holder_of_Some_iff)

section \<open>Authorisation\<close>

record signer =
  sg_person :: voter_id
  sg_family :: record_family

text \<open>The derived order of a struct: field by field.\<close>

definition signer_key :: "signer \<Rightarrow> voter_id \<times> record_family" where
  "signer_key s = (sg_person s, sg_family s)"

lemma signer_key_inj: "signer_key a = signer_key b \<Longrightarrow> a = b"
  by (cases a; cases b) (simp add: signer_key_def)

datatype authorisation = SignerTable (signers: "signer list")

definition authorisation_new :: "signer list \<Rightarrow> (irena_error, authorisation) result" where
  "authorisation_new ss =
     (let sorted = sort_key signer_key ss;
          issues = repeat_issues (\<lambda>s. [DuplicateSigner (sg_person s) (sg_family s)]) signer_key None sorted @
            (if \<exists>s \<in> set sorted. sg_family s = Company then [] else [NoCompanySigner])
      in accept issues (SignerTable (remdups_adj sorted)))"

definition persons_for :: "authorisation \<Rightarrow> record_family \<Rightarrow> voter_id list" where
  "persons_for a f = map sg_person (filter (\<lambda>s. sg_family s = f) (signers a))"

definition authorisation_get :: "authorisation \<Rightarrow> voter_id \<times> record_family \<Rightarrow> signer option" where
  "authorisation_get a k = table_get signer_key (signers a) k"

definition allows :: "authorisation \<Rightarrow> voter_id \<Rightarrow> record_family \<Rightarrow> bool" where
  "allows a person f \<longleftrightarrow> authorisation_get a (person, f) \<noteq> None"

definition families_of :: "authorisation \<Rightarrow> voter_id \<Rightarrow> record_family list" where
  "families_of a person = map sg_family (filter (\<lambda>s. sg_person s = person) (signers a))"

definition wf_authorisation :: "authorisation \<Rightarrow> bool" where
  "wf_authorisation a \<longleftrightarrow> sorted_wrt (<) (map signer_key (signers a)) \<and>
     (\<exists>s \<in> set (signers a). sg_family s = Company)"

definition admissible_signers :: "signer multiset \<Rightarrow> bool" where
  "admissible_signers M \<longleftrightarrow> distinct_keys signer_key M \<and> (\<exists>s \<in># M. sg_family s = Company)"

lemma remdups_adj_distinct_keys: "distinct (map f xs) \<Longrightarrow> remdups_adj xs = xs"
  by (simp add: distinct_map remdups_adj_distinct)

interpretation authorisation_builder: canonical_builder
  authorisation_new signers signer_key SignerTable admissible_signers
proof unfold_locales
  fix xs t
  have "repeat_issues (\<lambda>s. [DuplicateSigner (sg_person s) (sg_family s)]) signer_key None (sort_key signer_key xs) = []
      \<longleftrightarrow> distinct (map signer_key xs)"
    by (subst repeat_issues_None_iff) simp_all
  then show "authorisation_new xs = Ok t \<longleftrightarrow>
      admissible_signers (mset xs) \<and> t = SignerTable (sort_key signer_key xs)"
    by (auto simp: authorisation_new_def Let_def admissible_signers_def
        remdups_adj_distinct_keys [of signer_key])
qed (simp_all add: admissible_signers_def)

interpretation authorisation_table: sorted_table signers signer_key authorisation_get wf_authorisation
  by unfold_locales (simp_all add: wf_authorisation_def authorisation_get_def)

lemma authorisation_new_wf:
  assumes "authorisation_new ss = Ok a"
  shows "wf_authorisation a"
  using assms authorisation_builder.build_strict [OF assms] authorisation_builder.build_set [OF assms]
  by (auto simp: wf_authorisation_def authorisation_builder.build_Ok_iff admissible_signers_def)

lemma allows_iff:
  assumes "wf_authorisation a"
  shows "allows a p f \<longleftrightarrow> p \<in> set (persons_for a f)"
proof -
  have "allows a p f \<longleftrightarrow> (p, f) \<in> signer_key ` set (signers a)"
    using authorisation_table.get_None_iff [OF assms, of "(p, f)"] by (auto simp: allows_def)
  then show ?thesis by (auto simp: persons_for_def signer_key_def image_iff)
qed

lemma persons_for_iff: "p \<in> set (persons_for a f) \<longleftrightarrow> \<lparr>sg_person = p, sg_family = f\<rparr> \<in> set (signers a)"
proof
  assume "p \<in> set (persons_for a f)"
  then obtain s where s: "s \<in> set (signers a)" "sg_family s = f" "sg_person s = p"
    by (auto simp: persons_for_def)
  moreover have "s = \<lparr>sg_person = p, sg_family = f\<rparr>" using s(2,3) by (cases s) simp
  ultimately show "\<lparr>sg_person = p, sg_family = f\<rparr> \<in> set (signers a)" by metis
next
  assume "\<lparr>sg_person = p, sg_family = f\<rparr> \<in> set (signers a)"
  then show "p \<in> set (persons_for a f)" by (force simp: persons_for_def)
qed

lemma families_of_iff: "f \<in> set (families_of a p) \<longleftrightarrow> p \<in> set (persons_for a f)"
  by (auto simp: families_of_def persons_for_def image_iff)

lemma persons_for_Company: "wf_authorisation a \<Longrightarrow> persons_for a Company \<noteq> []"
  by (auto simp: wf_authorisation_def persons_for_def filter_empty_conv)

section \<open>Records\<close>

definition RECORD_SCHEMA_VERSION :: u32 where "RECORD_SCHEMA_VERSION = 1"

record company_genesis =
  cg_identity :: identity
  cg_incorporation_digest :: "hash option"
  cg_shares :: share_structure
  cg_channels :: decision_channels
  cg_identities :: identities
  cg_authorisation :: authorisation

datatype record_body =
    BodyGenesis company_genesis
  | BodyIdentity identity
  | BodyShares share_structure
  | BodyChannels decision_channels
  | BodyIdentities identities
  | BodyAuthorisation authorisation

definition body_kind :: "record_body \<Rightarrow> record_kind" where
  "body_kind b = (case b of
     BodyGenesis _ \<Rightarrow> CompanyGenesis | BodyIdentity _ \<Rightarrow> Identity | BodyShares _ \<Rightarrow> ShareStructure
   | BodyChannels _ \<Rightarrow> DecisionChannels | BodyIdentities _ \<Rightarrow> Identities
   | BodyAuthorisation _ \<Rightarrow> Authorisation)"

record irena_record =
  rc_company :: company_id
  rc_supersedes :: "tx_id option"
  rc_notarisation :: notarisation
  rc_body :: record_body

definition record_kind_of :: "irena_record \<Rightarrow> record_kind" where
  "record_kind_of r = body_kind (rc_body r)"

section \<open>What the parts promise\<close>

text \<open>
  A share register is built exactly when there are at most a million holders, no id is listed
  twice, nobody holds zero shares and the total fits \<open>u64\<close>; it then holds exactly the holders listed,
  the lookup by id is exact, the total is computed without overflow, and listing the holders in
  another order gives the same register.
\<close>

theorem share_register_exact:
  "((\<exists>s. share_structure_new hs = Ok s) \<longleftrightarrow>
      length hs \<le> MAX_HOLDERS \<and> distinct (map ho_id hs) \<and> (\<forall>h \<in> set hs. ho_shares h \<noteq> 0) \<and>
      weight_nat (map ho_shares hs) < 2 ^ 64) \<and>
   (\<forall>s. share_structure_new hs = Ok s \<longrightarrow>
      (\<forall>i h. share_structure_get s i = Some h \<longleftrightarrow> h \<in> set hs \<and> ho_id h = i) \<and>
      (\<exists>t. total_shares s = (Ok t :: (irena_error, u64) result) \<and> unat t = weight_nat (map ho_shares hs)) \<and>
      (\<forall>ks. mset ks = mset hs \<longrightarrow> share_structure_new ks = Ok s))"
proof (intro conjI allI impI)
  have "(\<Sum>h \<in># mset hs. unat (ho_shares h)) = weight_nat (map ho_shares hs)"
    by (simp flip: mset_map sum_mset_sum_list add: o_def)
  then show "(\<exists>s. share_structure_new hs = Ok s) \<longleftrightarrow>
      length hs \<le> MAX_HOLDERS \<and> distinct (map ho_id hs) \<and> (\<forall>h \<in> set hs. ho_shares h \<noteq> 0) \<and>
      weight_nat (map ho_shares hs) < 2 ^ 64"
    by (simp add: share_builder.build_Ok_iff admissible_holders_def fair_weights_def)
next
  fix s i h
  assume "share_structure_new hs = Ok s"
  then show "share_structure_get s i = Some h \<longleftrightarrow> h \<in> set hs \<and> ho_id h = i"
    using share_table.get_Some_iff [OF share_structure_new_wf] share_builder.build_set by metis
next
  fix s
  assume s: "share_structure_new hs = Ok s"
  have "weight_nat (map ho_shares (holders s)) = weight_nat (map ho_shares hs)"
    using share_builder.build_mset [OF s] by (rule weight_nat_mset)
  then show "\<exists>t. total_shares s = (Ok t :: (irena_error, u64) result) \<and> unat t = weight_nat (map ho_shares hs)"
    using total_shares_Ok [OF share_structure_new_wf [OF s]] by metis
next
  fix s ks
  assume "share_structure_new hs = Ok s" "mset ks = mset hs"
  then show "share_structure_new ks = Ok s" using share_builder.build_order_irrelevant by metis
qed

definition sample_holders :: "holder list" where
  "sample_holders = [\<lparr>ho_id = VoterId ''bob'', ho_name = None, ho_shares = 40\<rparr>,
     \<lparr>ho_id = VoterId ''ann'', ho_name = Some ''Ann'', ho_shares = 60\<rparr>]"

theorem share_register_exact_witness:
  "\<exists>s t. share_structure_new sample_holders = Ok s \<and> total_shares s = (Ok t :: (irena_error, u64) result) \<and> unat t = 100"
proof -
  have "length sample_holders \<le> MAX_HOLDERS" "distinct (map ho_id sample_holders)"
    "\<forall>h \<in> set sample_holders. ho_shares h \<noteq> 0" "weight_nat (map ho_shares sample_holders) = 100"
    by (simp_all add: sample_holders_def MAX_HOLDERS_def)
  then obtain s where s: "share_structure_new sample_holders = Ok s"
    using conjunct1 [OF share_register_exact [of sample_holders]] by auto
  obtain t where "total_shares s = (Ok t :: (irena_error, u64) result)"
      "unat t = weight_nat (map ho_shares sample_holders)"
    using conjunct2 [OF share_register_exact [of sample_holders], rule_format, OF s] by blast
  then show ?thesis using s \<open>weight_nat (map ho_shares sample_holders) = 100\<close> by metis
qed

text \<open>
  The identities are accepted exactly when there are at most a million persons, no id is listed
  twice and no key is on two persons; then a key names exactly one person, the person a key is looked
  up to is the person listed with it, and the key of an id is the key listed for it.
\<close>

theorem identities_exact:
  "((\<exists>t. identities_new ps = Ok t) \<longleftrightarrow>
      length ps \<le> MAX_PERSONS \<and> distinct (map pn_id ps) \<and> keys_exclusive (set ps)) \<and>
   (\<forall>t. identities_new ps = Ok t \<longrightarrow>
      (\<forall>k p. holder_of t k = Some p \<longleftrightarrow> p \<in> set ps \<and> pn_key p = Some k) \<and>
      (\<forall>i k. key_of t i = Some k \<longleftrightarrow> (\<exists>p. holder_of t k = Some p \<and> pn_id p = i)) \<and>
      (\<forall>qs. mset qs = mset ps \<longrightarrow> identities_new qs = Ok t))"
proof (intro conjI allI impI)
  show "(\<exists>t. identities_new ps = Ok t) \<longleftrightarrow>
      length ps \<le> MAX_PERSONS \<and> distinct (map pn_id ps) \<and> keys_exclusive (set ps)"
    by (simp add: identities_builder.build_Ok_iff admissible_persons_def)
next
  fix t k p
  assume t: "identities_new ps = Ok t"
  show "holder_of t k = Some p \<longleftrightarrow> p \<in> set ps \<and> pn_key p = Some k"
    using holder_of_Some_iff [OF identities_new_wf [OF t]] identities_builder.build_set [OF t] by metis
next
  fix t i k
  assume "identities_new ps = Ok t"
  then show "key_of t i = Some k \<longleftrightarrow> (\<exists>p. holder_of t k = Some p \<and> pn_id p = i)"
    by (intro key_of_holder_of identities_new_wf)
next
  fix t qs
  assume "identities_new ps = Ok t" "mset qs = mset ps"
  then show "identities_new qs = Ok t" using identities_builder.build_order_irrelevant by metis
qed

definition sample_persons :: "person list" where
  "sample_persons = [\<lparr>pn_id = VoterId ''jane'', pn_name = None, pn_document_id = None, pn_key = Some 7\<rparr>,
     \<lparr>pn_id = VoterId ''bob'', pn_name = None, pn_document_id = None, pn_key = None\<rparr>]"

theorem identities_exact_witness:
  "\<exists>t. identities_new sample_persons = Ok t \<and> key_of t (VoterId ''jane'') = Some 7 \<and>
     holder_of t 7 = Some (sample_persons ! 0)"
proof -
  have "length sample_persons \<le> MAX_PERSONS" "distinct (map pn_id sample_persons)" "keys_exclusive (set sample_persons)"
    by (simp_all add: sample_persons_def MAX_PERSONS_def keys_exclusive_def)
  then obtain t where t: "identities_new sample_persons = Ok t"
    using conjunct1 [OF identities_exact [of sample_persons]] by blast
  note exact = conjunct2 [OF identities_exact [of sample_persons], rule_format, OF t]
  have p: "sample_persons ! 0 \<in> set sample_persons \<and> pn_key (sample_persons ! 0) = Some 7"
    "pn_id (sample_persons ! 0) = VoterId ''jane''" by (simp_all add: sample_persons_def)
  then have "holder_of t 7 = Some (sample_persons ! 0)" using exact by blast
  moreover from this have "key_of t (VoterId ''jane'') = Some 7" using exact p(2) by blast
  ultimately show ?thesis using t by blast
qed

text \<open>
  An authorisation is accepted exactly when no row is repeated and some row is for the company
  family; then the three questions it answers agree with the rows listed: whether a person may sign a
  family, who may sign it, and which families a person may sign; and somebody may sign company records.
\<close>

theorem authorisation_exact:
  "((\<exists>a. authorisation_new ss = Ok a) \<longleftrightarrow> distinct ss \<and> (\<exists>s \<in> set ss. sg_family s = Company)) \<and>
   (\<forall>a. authorisation_new ss = Ok a \<longrightarrow>
      (\<forall>p f. allows a p f \<longleftrightarrow> \<lparr>sg_person = p, sg_family = f\<rparr> \<in> set ss) \<and>
      (\<forall>p f. p \<in> set (persons_for a f) \<longleftrightarrow> allows a p f) \<and>
      (\<forall>p f. f \<in> set (families_of a p) \<longleftrightarrow> allows a p f) \<and>
      persons_for a Company \<noteq> [])"
proof (intro conjI allI impI)
  have "distinct (map signer_key ss) \<longleftrightarrow> distinct ss"
    by (simp add: distinct_map inj_on_def) (metis signer_key_inj)
  then show "(\<exists>a. authorisation_new ss = Ok a) \<longleftrightarrow> distinct ss \<and> (\<exists>s \<in> set ss. sg_family s = Company)"
    by (simp add: authorisation_builder.build_Ok_iff admissible_signers_def)
next
  fix a p f
  assume a: "authorisation_new ss = Ok a"
  note wf = authorisation_new_wf [OF a]
  show "allows a p f \<longleftrightarrow> \<lparr>sg_person = p, sg_family = f\<rparr> \<in> set ss"
    by (simp add: allows_iff [OF wf] persons_for_iff authorisation_builder.build_set [OF a])
  show "p \<in> set (persons_for a f) \<longleftrightarrow> allows a p f" by (simp add: allows_iff [OF wf])
  show "f \<in> set (families_of a p) \<longleftrightarrow> allows a p f" by (simp add: allows_iff [OF wf] families_of_iff)
  show "persons_for a Company \<noteq> []" by (rule persons_for_Company [OF wf])
qed

definition sample_signers :: "signer list" where
  "sample_signers = [\<lparr>sg_person = VoterId ''jane'', sg_family = Governance\<rparr>,
     \<lparr>sg_person = VoterId ''bob'', sg_family = Governance\<rparr>, \<lparr>sg_person = VoterId ''jane'', sg_family = Company\<rparr>]"

theorem authorisation_exact_witness:
  "\<exists>a. authorisation_new sample_signers = Ok a \<and> allows a (VoterId ''jane'') Company \<and>
     \<not> allows a (VoterId ''bob'') Company"
proof -
  have "distinct sample_signers \<and> (\<exists>s \<in> set sample_signers. sg_family s = Company)"
    by (simp add: sample_signers_def)
  then obtain a where a: "authorisation_new sample_signers = Ok a"
    using conjunct1 [OF authorisation_exact [of sample_signers]] by blast
  have "\<lparr>sg_person = VoterId ''jane'', sg_family = Company\<rparr> \<in> set sample_signers"
    "\<lparr>sg_person = VoterId ''bob'', sg_family = Company\<rparr> \<notin> set sample_signers"
    by (simp_all add: sample_signers_def)
  then show ?thesis
    using a conjunct2 [OF authorisation_exact [of sample_signers], rule_format, OF a] by blast
qed

end
