(* ===== verification/Irena_Xml.thy ===== *)
theory Irena_Xml
  imports Irena_Parts
begin

text \<open>
  The readers and the composer of Irena record documents, after \<open>crates/irena-core/src/xml.rs\<close>: the
  helpers that convert the errors of \<open>bornite-xml\<close>, one reader per element (holders, persons, signers,
  rosters, scopes, channels, governance, the founding record), the envelope and its loop, the
  standalone documents, and \<open>compose_record\<close>, which embeds a body verbatim. The lists of leaves share
  one frame, \<open>item_child\<close> and \<open>parse_items\<close>, instantiated with the element names, the limits and the
  constructors. What the readers guarantee is proved in \<open>Irena_Readers\<close>.
\<close>

section \<open>Helpers\<close>

text \<open>
  The readers of \<open>xml.rs\<close> use the reader of \<open>bornite-xml\<close> and convert its errors with \<open>From\<close>. \<open>hexd\<close> is
  the third-party \<open>hex::decode_to_slice\<close> and \<open>tok\<close> is quick-xml, as before.
\<close>

definition malformed_at :: "u64 \<Rightarrow> string \<Rightarrow> irena_error" where
  "malformed_at pos detail = irena_of_xml (malformed pos detail)"

definition irena_attributes :: "u64 \<Rightarrow> string \<Rightarrow> xml_tag \<Rightarrow> (irena_error, attributes) result" where
  "irena_attributes pos element t = rmap_err irena_of_xml (attributes_of pos element t)"

definition irena_finish :: "u64 \<Rightarrow> attributes \<Rightarrow> (irena_error, unit) result" where
  "irena_finish pos a = rmap_err irena_of_xml (attr_finish pos a)"

definition irena_require ::
    "string \<Rightarrow> attributes \<Rightarrow> irena_issue list \<Rightarrow> string option \<times> attributes \<times> irena_issue list" where
  "irena_require name a issues =
     (case attr_require name a [] of (value, a', found) \<Rightarrow> (value, a', issues @ map IssueXml found))"

text \<open>
  \<open>collect\<close> is only ever handed an \<open>Invalid\<close> error; the text that it would keep of another is left out.
\<close>

definition collect :: "(irena_error, 'a) result \<Rightarrow> irena_issue list \<Rightarrow> 'a option \<times> irena_issue list" where
  "collect x issues =
     (case x of
        Ok v \<Rightarrow> (Some v, issues)
      | Err (IrenaInvalid found) \<Rightarrow> (None, issues @ found)
      | _ \<Rightarrow> (None, issues @ [InvalidValue ''irena-record'' ''?'' [] (Because [])]))"

definition parse_u64 :: "string \<Rightarrow> u64 option" where
  "parse_u64 text = (if text = [] \<or> \<not> list_all is_ascii_digit text then None else parse_unsigned text)"

text \<open>A value, or the one issue about it.\<close>

definition or_invalid :: "string \<Rightarrow> string \<Rightarrow> string \<Rightarrow> issue_reason \<Rightarrow> 'a option \<Rightarrow> (irena_error, 'a) result" where
  "or_invalid element attribute text reason x =
     ok_or (irena_invalid [InvalidValue element attribute text reason]) x"

definition voter_attr :: "string \<Rightarrow> string \<Rightarrow> string \<Rightarrow> (irena_error, voter_id) result" where
  "voter_attr element attribute text =
     rmap_err (\<lambda>e. irena_invalid [InvalidValue element attribute text (BecauseCore e)]) (voter_id_new text)"

definition hash_attr :: "(string \<Rightarrow> bytes option) \<Rightarrow> string \<Rightarrow> string \<Rightarrow> string \<Rightarrow> (irena_error, hash) result" where
  "hash_attr hexd element attribute text =
     rmap_err (\<lambda>e. irena_invalid [InvalidValue element attribute text (BecauseLedger e)]) (hash_from_hex hexd text)"

definition tx_id_from_hex :: "(string \<Rightarrow> bytes option) \<Rightarrow> string \<Rightarrow> (prunella_error, tx_id) result" where
  "tx_id_from_hex hexd txt = rbind (hex_bytes hexd 32 ''transaction id'' txt) (\<lambda>b. Ok (word_rcat b))"

definition decimal_reason :: issue_reason where
  "decimal_reason = Because ''must be a decimal integer from 0 to 18446744073709551615''"

definition u64_attr :: "string \<Rightarrow> string \<Rightarrow> string \<Rightarrow> (irena_error, u64) result" where
  "u64_attr element attribute text = or_invalid element attribute text decimal_reason (parse_u64 text)"

definition end_of_leaf :: "string \<Rightarrow> bool \<Rightarrow> 'a \<Rightarrow> (irena_error, 'a) parser" where
  "end_of_leaf element is_empty v =
     (if is_empty then preturn v
      else pbind (pmap_err irena_of_xml (expect_empty element)) (\<lambda>_. preturn v))"

text \<open>\<open>match p { Ok(v) => .., Err(Invalid { issues }) => .., Err(other) => return Err(other.into()) }\<close>.\<close>

definition recovering ::
    "('e \<Rightarrow> irena_issue list option) \<Rightarrow> ('e \<Rightarrow> irena_error) \<Rightarrow> ('e, 'a) parser
      \<Rightarrow> ('a option \<Rightarrow> irena_issue list \<Rightarrow> (irena_error, 's) parser) \<Rightarrow> (irena_error, 's) parser" where
  "recovering found lift p k r =
     (case p r of
        (Ok v, r') \<Rightarrow> k (Some v) [] r'
      | (Err e, r') \<Rightarrow> (case found e of Some issues \<Rightarrow> k None issues r' | None \<Rightarrow> (Err (lift e), r'))
      | (Panic, r') \<Rightarrow> (Panic, r'))"

definition invalid_issues :: "irena_error \<Rightarrow> irena_issue list option" where
  "invalid_issues e = (case e of IrenaInvalid issues \<Rightarrow> Some issues | _ \<Rightarrow> None)"

definition xml_invalid_issues :: "xml_error \<Rightarrow> irena_issue list option" where
  "xml_invalid_issues e = (case e of XmlInvalid issues \<Rightarrow> Some (map IssueXml issues) | _ \<Rightarrow> None)"

function skip_element :: "nat \<Rightarrow> (irena_error, unit) parser" where
  "skip_element depth r =
     (if depth = 0 then (Ok (), r)
      else case next_event r of
        (Ok (EvStart _), r') \<Rightarrow> skip_element (depth + 1) r'
      | (Ok (EvEnd _), r') \<Rightarrow> skip_element (depth - 1) r'
      | (Ok EvEof, r') \<Rightarrow> (Err (malformed_at (rd_position r') ''unexpected end of document''), r')
      | (Ok _, r') \<Rightarrow> skip_element depth r'
      | (Err e, r') \<Rightarrow> (Err (irena_of_xml e), r')
      | (Panic, r') \<Rightarrow> (Panic, r'))"
  by pat_completeness auto
termination
  by (relation "measure (rd_left \<circ> snd)") (auto dest!: sym [of _ "next_event _"] next_event_left)

declare skip_element.simps [simp del]

section \<open>Notarisations and identities\<close>

definition nonblank :: "string \<Rightarrow> string \<Rightarrow> string option \<Rightarrow> irena_issue list \<Rightarrow> irena_issue list" where
  "nonblank element attribute text issues =
     (case text of
        Some t \<Rightarrow> if trims_to_empty t
          then issues @ [InvalidValue element attribute t (Because ''must not be empty'')] else issues
      | None \<Rightarrow> issues)"

definition read_notarisation ::
    "(string \<Rightarrow> bytes option) \<Rightarrow> u64 \<Rightarrow> xml_tag \<Rightarrow> (irena_error, notarisation) result" where
  "read_notarisation hexd pos child =
     rbind (irena_attributes pos ''notarisation'' child) (\<lambda>a.
     let (i, a, issues) = irena_require ''id'' a [];
         (name, a, issues) = irena_require ''name'' a issues;
         (address, a) = attr_take ''address'' a;
         (at, a, issues) = irena_require ''at'' a issues;
         (statement, a) = attr_take ''statement'' a;
         (digest, a) = attr_take ''source-digest'' a
     in rbind (irena_finish pos a) (\<lambda>_.
     let (i, issues) = opt_then i (\<lambda>t. collect (notary_id_new t)) issues;
         (at, issues) = opt_then at (\<lambda>t. collect (notary_time_parse t)) issues;
         (digest, issues) = opt_then digest (\<lambda>t. collect (hash_attr hexd ''notarisation'' ''source-digest'' t)) issues;
         issues = nonblank ''notarisation'' ''name'' name issues
     in if issues \<noteq> [] then Err (irena_invalid issues)
        else rbind (rexpect i) (\<lambda>i. rbind (rexpect name) (\<lambda>name. rbind (rexpect at) (\<lambda>at.
          Ok \<lparr>nt_id = i, nt_name = name, nt_address = address, nt_at = at, nt_statement = statement,
              nt_source_digest = digest\<rparr>)))))"

definition parse_identity ::
    "u64 \<Rightarrow> xml_tag \<Rightarrow> irena_issue list \<Rightarrow> (irena_error, identity option \<times> irena_issue list) result" where
  "parse_identity pos child issues =
     rbind (irena_attributes pos ''identity'' child) (\<lambda>a.
     let (name, a, issues) = irena_require ''name'' a issues;
         (jurisdiction, a) = attr_take ''jurisdiction'' a;
         (registered_number, a) = attr_take ''registered-number'' a
     in rbind (irena_finish pos a) (\<lambda>_.
     Ok (case name of
           None \<Rightarrow> (None, issues)
         | Some n \<Rightarrow>
             (let i = \<lparr>id_name = n, id_jurisdiction = jurisdiction, id_registered_number = registered_number\<rparr>
              in (Some i, case identity_validate i of Ok _ \<Rightarrow> issues | e \<Rightarrow> snd (collect e issues))))))"

section \<open>Lists of items\<close>

text \<open>
  The bodies that are lists of leaves: the name of the child, the limit on how many there may be,
  if there is one, the leaf, the issues, and the constructor at the end.
\<close>

definition item_child ::
    "string \<Rightarrow> string \<Rightarrow> (nat \<times> irena_issue) option
      \<Rightarrow> (u64 \<Rightarrow> xml_tag \<Rightarrow> irena_issue list \<Rightarrow> (irena_error, 'a option \<times> irena_issue list) result)
      \<Rightarrow> xml_tag \<Rightarrow> bool \<Rightarrow> 'a list \<times> irena_issue list \<Rightarrow> (irena_error, 'a list \<times> irena_issue list) parser" where
  "item_child parent element limit leaf t is_empty s = with_position (\<lambda>pos.
     if tag_name t \<noteq> element
     then pfail (malformed_at pos (''<'' @ parent @ ''> has an unknown child <'' @ tag_name t @ ''>''))
     else case limit of
       Some (n, issue) \<Rightarrow>
         if n \<le> length (fst s) then pfail (irena_invalid [issue])
         else leaf_child leaf irena_of_xml element t is_empty s
     | None \<Rightarrow> leaf_child leaf irena_of_xml element t is_empty s)"

definition parse_items ::
    "string \<Rightarrow> (xml_tag \<Rightarrow> bool \<Rightarrow> 'a list \<times> irena_issue list \<Rightarrow> (irena_error, 'a list \<times> irena_issue list) parser)
      \<Rightarrow> ('a list \<Rightarrow> (irena_error, 't) result) \<Rightarrow> xml_tag \<Rightarrow> bool \<Rightarrow> (irena_error, 't) parser" where
  "parse_items parent child build start is_empty = with_position (\<lambda>pos.
     pbind (plift (rbind (irena_attributes pos parent start) (irena_finish pos))) (\<lambda>_.
     pbind (if is_empty then preturn ([], []) else children irena_of_xml parent child ([], [])) (\<lambda>(items, issues).
     if issues \<noteq> [] then pfail (irena_invalid issues) else plift (build items))))"

definition parse_holder ::
    "u64 \<Rightarrow> xml_tag \<Rightarrow> irena_issue list \<Rightarrow> (irena_error, holder option \<times> irena_issue list) result" where
  "parse_holder pos child issues =
     rbind (irena_attributes pos ''holder'' child) (\<lambda>a.
     let (i, a, issues) = irena_require ''id'' a issues;
         (name, a) = attr_take ''name'' a;
         (shares, a, issues) = irena_require ''shares'' a issues
     in rbind (irena_finish pos a) (\<lambda>_.
     let (i, issues) = opt_then i (\<lambda>t. collect (voter_attr ''holder'' ''id'' t)) issues;
         (shares, issues) = opt_then shares (\<lambda>t. collect (u64_attr ''holder'' ''shares'' t)) issues
     in Ok (case (i, shares) of
              (Some i, Some n) \<Rightarrow> Some \<lparr>ho_id = i, ho_name = name, ho_shares = n\<rparr>
            | _ \<Rightarrow> None, issues)))"

definition parse_share_structure :: "xml_tag \<Rightarrow> bool \<Rightarrow> (irena_error, share_structure) parser" where
  "parse_share_structure =
     parse_items ''share-structure''
       (item_child ''share-structure'' ''holder'' (Some (MAX_HOLDERS, TooManyHolders MAX_HOLDERS)) parse_holder)
       share_structure_new"

definition parse_person ::
    "(string \<Rightarrow> bytes option) \<Rightarrow> u64 \<Rightarrow> xml_tag \<Rightarrow> irena_issue list
      \<Rightarrow> (irena_error, person option \<times> irena_issue list) result" where
  "parse_person hexd pos child issues =
     rbind (irena_attributes pos ''person'' child) (\<lambda>a.
     let (i, a, issues) = irena_require ''id'' a issues;
         (name, a) = attr_take ''name'' a;
         (document_id, a) = attr_take ''document-id'' a;
         (key, a) = attr_take ''key'' a
     in rbind (irena_finish pos a) (\<lambda>_.
     let (i, issues) = opt_then i (\<lambda>t. collect (voter_attr ''person'' ''id'' t)) issues;
         (key, issues) = (case key of
             None \<Rightarrow> (Some None, issues)
           | Some t \<Rightarrow> (case collect (rmap_err (\<lambda>e. irena_invalid [InvalidValue ''person'' ''key'' t (BecauseLedger e)])
                 (public_key_from_hex hexd t)) issues of (k, issues) \<Rightarrow> (map_option Some k, issues)))
     in Ok (case (i, key) of
              (Some i, Some k) \<Rightarrow> Some \<lparr>pn_id = i, pn_name = name, pn_document_id = document_id, pn_key = k\<rparr>
            | _ \<Rightarrow> None, issues)))"

definition parse_identities :: "(string \<Rightarrow> bytes option) \<Rightarrow> xml_tag \<Rightarrow> bool \<Rightarrow> (irena_error, identities) parser" where
  "parse_identities hexd =
     parse_items ''identities''
       (item_child ''identities'' ''person'' (Some (MAX_PERSONS, TooManyPersons MAX_PERSONS)) (parse_person hexd))
       identities_new"

definition parse_signer ::
    "u64 \<Rightarrow> xml_tag \<Rightarrow> irena_issue list \<Rightarrow> (irena_error, signer option \<times> irena_issue list) result" where
  "parse_signer pos child issues =
     rbind (irena_attributes pos ''signer'' child) (\<lambda>a.
     let (person, a, issues) = irena_require ''person'' a issues;
         (records, a, issues) = irena_require ''records'' a issues
     in rbind (irena_finish pos a) (\<lambda>_.
     let (person, issues) = opt_then person (\<lambda>t. collect (voter_attr ''signer'' ''person'' t)) issues;
         (family, issues) = opt_then records (\<lambda>t. collect (or_invalid ''signer'' ''records'' t
           (Because ''must be company or governance'') (family_parse t))) issues
     in Ok (case (person, family) of
              (Some p, Some f) \<Rightarrow> Some \<lparr>sg_person = p, sg_family = f\<rparr>
            | _ \<Rightarrow> None, issues)))"

definition parse_authorisation :: "xml_tag \<Rightarrow> bool \<Rightarrow> (irena_error, authorisation) parser" where
  "parse_authorisation =
     parse_items ''authorisation'' (item_child ''authorisation'' ''signer'' None parse_signer) authorisation_new"

section \<open>Channels\<close>

definition parse_member ::
    "u64 \<Rightarrow> xml_tag \<Rightarrow> irena_issue list \<Rightarrow> (irena_error, member option \<times> irena_issue list) result" where
  "parse_member pos child issues =
     rbind (irena_attributes pos ''member'' child) (\<lambda>a.
     let (i, a, issues) = irena_require ''id'' a issues;
         (name, a) = attr_take ''name'' a;
         (weight, a) = attr_take ''weight'' a
     in rbind (irena_finish pos a) (\<lambda>_.
     let (i, issues) = opt_then i (\<lambda>t. collect (voter_attr ''member'' ''id'' t)) issues;
         (weight, issues) = (case weight of
             None \<Rightarrow> (Some 1, issues)
           | Some t \<Rightarrow> collect (u64_attr ''member'' ''weight'' t) issues)
     in Ok (case (i, weight) of
              (Some i, Some w) \<Rightarrow> Some \<lparr>mb_id = i, mb_name = name, mb_weight = w\<rparr>
            | _ \<Rightarrow> None, issues)))"

definition unexpected_source :: "string option \<Rightarrow> irena_issue list \<Rightarrow> bool \<times> irena_issue list" where
  "unexpected_source source issues =
     (case source of
        Some t \<Rightarrow>
          if t = ''share-register'' then (False, issues)
          else if t = ''roster'' then (True, issues)
          else (False, issues @ [InvalidValue ''actors'' ''source'' t (Because ''must be share-register or roster'')])
      | None \<Rightarrow> (False, issues))"

definition parse_actors :: "channel_id \<Rightarrow> xml_tag \<Rightarrow> bool \<Rightarrow> (irena_error, actor_source) parser" where
  "parse_actors channel start is_empty = with_position (\<lambda>pos.
     pbind (plift (irena_attributes pos ''actors'' start)) (\<lambda>a.
     let (source, a, issues) = irena_require ''source'' a [] in
     pbind (plift (irena_finish pos a)) (\<lambda>_.
     let (is_roster, issues) = unexpected_source source issues in
     pbind (if is_empty then preturn ([], issues)
            else children irena_of_xml ''actors''
              (item_child ''actors'' ''member'' (Some (MAX_MEMBERS, TooManyMembers channel MAX_MEMBERS)) parse_member)
              ([], issues)) (\<lambda>(ms, issues).
     let issues = issues @ (if \<not> is_roster \<and> ms \<noteq> []
           then [UnexpectedElement channel ''share-register'' ''member''] else [])
     in if issues \<noteq> [] then pfail (irena_invalid issues)
        else if is_roster then plift (rbind (roster_new channel ms) (\<lambda>r. Ok (FromRoster r)))
        else preturn FromShareRegister))))"

definition parse_amend ::
    "u64 \<Rightarrow> xml_tag \<Rightarrow> irena_issue list \<Rightarrow> (irena_error, record_kind option \<times> irena_issue list) result" where
  "parse_amend pos child issues =
     rbind (irena_attributes pos ''amend'' child) (\<lambda>a.
     let (part, a, issues) = irena_require ''part'' a issues
     in rbind (irena_finish pos a) (\<lambda>_.
     Ok (opt_then part (\<lambda>t. collect (or_invalid ''amend'' ''part'' t
       (Because ''must be identity, share-structure, decision-channels, identities or authorisation'')
       (kind_parse t))) issues)))"

definition parse_scope :: "channel_id \<Rightarrow> xml_tag \<Rightarrow> bool \<Rightarrow> (irena_error, channel_scope) parser" where
  "parse_scope channel = parse_items ''scope'' (item_child ''scope'' ''amend'' None parse_amend) (scope_new channel)"

record channel_slots =
  cl_actors :: "actor_source option"
  cl_rules :: "voting_rules option"
  cl_scope :: "channel_scope option"
  cl_actors_seen :: bool
  cl_rules_seen :: bool
  cl_scope_seen :: bool
  cl_issues :: "irena_issue list"

definition repeated :: "string \<Rightarrow> string \<Rightarrow> bool \<Rightarrow> irena_issue list" where
  "repeated parent element seen = (if seen then [RepeatedElement parent element] else [])"

definition channel_child ::
    "channel_id \<Rightarrow> xml_tag \<Rightarrow> bool \<Rightarrow> channel_slots \<Rightarrow> (irena_error, channel_slots) parser" where
  "channel_child channel t is_empty s = with_position (\<lambda>pos.
     let name = tag_name t in
     if name = ''actors'' then
       recovering invalid_issues (\<lambda>e. e) (parse_actors channel t is_empty) (\<lambda>parsed found. preturn
         (s\<lparr>cl_actors := (if parsed = None then cl_actors s else parsed), cl_actors_seen := True,
           cl_issues := cl_issues s @ repeated ''channel'' name (cl_actors_seen s) @ found\<rparr>))
     else if name = ''scope'' then
       recovering invalid_issues (\<lambda>e. e) (parse_scope channel t is_empty) (\<lambda>parsed found. preturn
         (s\<lparr>cl_scope := (if parsed = None then cl_scope s else parsed), cl_scope_seen := True,
           cl_issues := cl_issues s @ repeated ''channel'' name (cl_scope_seen s) @ found\<rparr>))
     else if name = ''voting-rules'' then
       (if is_empty then pfail (malformed_at pos ''<voting-rules> must have content'')
        else recovering xml_invalid_issues irena_of_xml (parse_voting_rules t) (\<lambda>parsed found. preturn
         (s\<lparr>cl_rules := (if parsed = None then cl_rules s else parsed), cl_rules_seen := True,
           cl_issues := cl_issues s @ repeated ''channel'' name (cl_rules_seen s) @ found\<rparr>)))
     else pfail (malformed_at pos (''<channel> has an unknown child <'' @ name @ ''>'')))"

text \<open>The mode attribute: individual, collective, or an issue.\<close>

definition channel_individual :: "string option \<Rightarrow> irena_issue list \<Rightarrow> bool option \<times> irena_issue list" where
  "channel_individual mode issues =
     (case mode of
        Some t \<Rightarrow>
          if t = ''individual'' then (Some True, issues)
          else if t = ''collective'' then (Some False, issues)
          else (None, issues @ [InvalidValue ''channel'' ''mode'' t (Because ''must be individual or collective'')])
      | None \<Rightarrow> (None, issues))"

definition channel_mode_of :: "channel_id \<Rightarrow> bool option \<Rightarrow> channel_slots \<Rightarrow> channel_mode option \<times> irena_issue list" where
  "channel_mode_of channel individual s =
     (case (individual, cl_rules_seen s, cl_rules s) of
        (Some True, False, _) \<Rightarrow> (Some Individual, [])
      | (Some True, True, _) \<Rightarrow> (None, [UnexpectedElement channel ''individual'' ''voting-rules''])
      | (Some False, _, Some rules) \<Rightarrow> (Some (Collective rules), [])
      | (Some False, False, None) \<Rightarrow> (None, [MissingElement ''channel'' ''voting-rules''])
      | _ \<Rightarrow> (None, []))"

definition finish_channel :: "channel_id \<Rightarrow> bool option \<Rightarrow> channel_slots \<Rightarrow> (irena_error, decision_channel) result" where
  "finish_channel channel individual s =
     (case channel_mode_of channel individual s of (mode, found) \<Rightarrow>
       (let issues = cl_issues s @ (if cl_actors_seen s then [] else [MissingElement ''channel'' ''actors'']) @ found
        in if issues \<noteq> [] then Err (irena_invalid issues)
           else rbind (rexpect (cl_actors s)) (\<lambda>actors. rbind (rexpect mode) (\<lambda>mode.
             Ok \<lparr>ch_id = channel, ch_actors = actors, ch_mode = mode, ch_scope = cl_scope s\<rparr>))))"

definition parse_channel :: "xml_tag \<Rightarrow> bool \<Rightarrow> (irena_error, decision_channel) parser" where
  "parse_channel start is_empty = with_position (\<lambda>pos.
     pbind (plift (irena_attributes pos ''channel'' start)) (\<lambda>a.
     let (i, a, issues) = irena_require ''id'' a [];
         (mode, a, issues) = irena_require ''mode'' a issues in
     pbind (plift (irena_finish pos a)) (\<lambda>_.
     case opt_then i (\<lambda>t. collect (channel_id_new t)) issues of
       (None, issues) \<Rightarrow>
         pbind (if is_empty then preturn () else skip_element 1) (\<lambda>_. pfail (irena_invalid issues))
     | (Some channel, issues) \<Rightarrow>
         (let (individual, issues) = channel_individual mode issues in
          if is_empty then pfail (irena_invalid (issues @ [MissingElement ''channel'' ''actors'']))
          else
            pbind (children irena_of_xml ''channel'' (channel_child channel)
              \<lparr>cl_actors = None, cl_rules = None, cl_scope = None, cl_actors_seen = False, cl_rules_seen = False,
               cl_scope_seen = False, cl_issues = issues\<rparr>) (\<lambda>s.
            plift (finish_channel channel individual s))))))"

definition channels_child ::
    "xml_tag \<Rightarrow> bool \<Rightarrow> decision_channel list \<times> irena_issue list
      \<Rightarrow> (irena_error, decision_channel list \<times> irena_issue list) parser" where
  "channels_child t is_empty s = with_position (\<lambda>pos.
     if tag_name t \<noteq> ''channel''
     then pfail (malformed_at pos (''<decision-channels> has an unknown child <'' @ tag_name t @ ''>''))
     else if MAX_CHANNELS \<le> length (fst s) then pfail (irena_invalid [TooManyChannels MAX_CHANNELS])
     else recovering invalid_issues (\<lambda>e. e) (parse_channel t is_empty) (\<lambda>parsed found. preturn
       (fst s @ (case parsed of Some c \<Rightarrow> [c] | None \<Rightarrow> []), snd s @ found)))"

definition parse_decision_channels :: "xml_tag \<Rightarrow> bool \<Rightarrow> (irena_error, decision_channels) parser" where
  "parse_decision_channels = parse_items ''decision-channels'' channels_child channels_new"

text \<open>\<open><governance>\<close>: the channels found, whether the element was seen, and the issues.\<close>

definition governance_child ::
    "xml_tag \<Rightarrow> bool \<Rightarrow> decision_channels option \<times> bool \<times> irena_issue list
      \<Rightarrow> (irena_error, decision_channels option \<times> bool \<times> irena_issue list) parser" where
  "governance_child t is_empty s = with_position (\<lambda>pos.
     case s of (chs, seen, issues) \<Rightarrow>
       if tag_name t \<noteq> ''decision-channels''
       then pfail (malformed_at pos (''unexpected <'' @ tag_name t @ ''> in <governance>''))
       else recovering invalid_issues (\<lambda>e. e) (parse_decision_channels t is_empty) (\<lambda>parsed found. preturn
         (if parsed = None then chs else parsed, True,
          issues @ repeated ''governance'' ''decision-channels'' seen @ found)))"

definition parse_governance :: "(irena_error, decision_channels) parser" where
  "parse_governance =
     pbind (children irena_of_xml ''governance'' governance_child (None, False, [])) (\<lambda>(chs, seen, issues).
     let issues = issues @ (if seen then [] else [MissingElement ''governance'' ''decision-channels''])
     in if issues \<noteq> [] then pfail (irena_invalid issues) else plift (rexpect chs))"

section \<open>The founding record\<close>

record genesis_slots =
  gl_identity :: "identity option"
  gl_incorporation :: "hash option option"
  gl_shares :: "share_structure option"
  gl_channels :: "decision_channels option"
  gl_identities :: "identities option"
  gl_authorisation :: "authorisation option"
  gl_shares_seen :: bool
  gl_governance_seen :: bool
  gl_identities_seen :: bool
  gl_authorisation_seen :: bool
  gl_issues :: "irena_issue list"

definition incorporation_child ::
    "(string \<Rightarrow> bytes option) \<Rightarrow> u64 \<Rightarrow> xml_tag \<Rightarrow> irena_issue list \<Rightarrow> (irena_error, hash option \<times> irena_issue list) result" where
  "incorporation_child hexd pos t issues =
     rbind (irena_attributes pos ''incorporation'' t) (\<lambda>a.
     let (digest, a) = attr_take ''document-digest'' a
     in rbind (irena_finish pos a) (\<lambda>_.
     Ok (opt_then digest (\<lambda>x. collect (hash_attr hexd ''incorporation'' ''document-digest'' x)) issues)))"

definition genesis_child ::
    "(string \<Rightarrow> bytes option) \<Rightarrow> xml_tag \<Rightarrow> bool \<Rightarrow> genesis_slots \<Rightarrow> (irena_error, genesis_slots) parser" where
  "genesis_child hexd t is_empty s = with_position (\<lambda>pos.
     let name = tag_name t; again = repeated ''company-genesis'' name in
     if name = ''identity'' then
       pbind (plift (parse_identity pos t (gl_issues s @ again (gl_identity s \<noteq> None)))) (\<lambda>(parsed, issues).
       end_of_leaf name is_empty
         (s\<lparr>gl_identity := (if parsed = None then gl_identity s else parsed), gl_issues := issues\<rparr>))
     else if name = ''incorporation'' then
       pbind (plift (incorporation_child hexd pos t (gl_issues s @ again (gl_incorporation s \<noteq> None)))) (\<lambda>(digest, issues).
       end_of_leaf name is_empty (s\<lparr>gl_incorporation := Some digest, gl_issues := issues\<rparr>))
     else if name = ''share-structure'' then
       recovering invalid_issues (\<lambda>e. e) (parse_share_structure t is_empty) (\<lambda>parsed found. preturn
         (s\<lparr>gl_shares := (if parsed = None then gl_shares s else parsed), gl_shares_seen := True,
           gl_issues := gl_issues s @ again (gl_shares_seen s) @ found\<rparr>))
     else if name = ''governance'' then
       pbind (plift (rbind (irena_attributes pos name t) (irena_finish pos))) (\<lambda>_.
       if is_empty then pfail (malformed_at pos ''<governance> must hold <decision-channels>'')
       else recovering invalid_issues (\<lambda>e. e) parse_governance (\<lambda>parsed found. preturn
         (s\<lparr>gl_channels := (if parsed = None then gl_channels s else parsed), gl_governance_seen := True,
           gl_issues := gl_issues s @ again (gl_governance_seen s) @ found\<rparr>)))
     else if name = ''identities'' then
       recovering invalid_issues (\<lambda>e. e) (parse_identities hexd t is_empty) (\<lambda>parsed found. preturn
         (s\<lparr>gl_identities := (if parsed = None then gl_identities s else parsed), gl_identities_seen := True,
           gl_issues := gl_issues s @ again (gl_identities_seen s) @ found\<rparr>))
     else if name = ''authorisation'' then
       recovering invalid_issues (\<lambda>e. e) (parse_authorisation t is_empty) (\<lambda>parsed found. preturn
         (s\<lparr>gl_authorisation := (if parsed = None then gl_authorisation s else parsed), gl_authorisation_seen := True,
           gl_issues := gl_issues s @ again (gl_authorisation_seen s) @ found\<rparr>))
     else pfail (malformed_at pos (''<company-genesis> has an unknown child <'' @ name @ ''>'')))"

definition genesis_missing :: "genesis_slots \<Rightarrow> irena_issue list" where
  "genesis_missing s =
     concat (map (\<lambda>(present, element). if present then [] else [MissingElement ''company-genesis'' element])
       [(gl_identity s \<noteq> None, ''identity''), (gl_shares_seen s, ''share-structure''),
        (gl_identities_seen s, ''identities''), (gl_governance_seen s, ''governance''),
        (gl_authorisation_seen s, ''authorisation'')])"

definition finish_genesis :: "genesis_slots \<Rightarrow> (irena_error, company_genesis) result" where
  "finish_genesis s =
     (let issues = gl_issues s @ genesis_missing s in
      if issues \<noteq> [] then Err (irena_invalid issues)
      else rbind (rexpect (gl_identity s)) (\<lambda>i. rbind (rexpect (gl_shares s)) (\<lambda>h.
        rbind (rexpect (gl_channels s)) (\<lambda>c. rbind (rexpect (gl_identities s)) (\<lambda>p.
        rbind (rexpect (gl_authorisation s)) (\<lambda>a.
        Ok \<lparr>cg_identity = i, cg_incorporation_digest = Option.bind (gl_incorporation s) (\<lambda>x. x), cg_shares = h,
            cg_channels = c, cg_identities = p, cg_authorisation = a\<rparr>))))))"

definition parse_company_genesis ::
    "(string \<Rightarrow> bytes option) \<Rightarrow> xml_tag \<Rightarrow> (irena_error, company_genesis) parser" where
  "parse_company_genesis hexd start = with_position (\<lambda>pos.
     pbind (plift (rbind (irena_attributes pos ''company-genesis'' start) (irena_finish pos))) (\<lambda>_.
     pbind (children irena_of_xml ''company-genesis'' (genesis_child hexd)
       \<lparr>gl_identity = None, gl_incorporation = None, gl_shares = None, gl_channels = None, gl_identities = None,
        gl_authorisation = None, gl_shares_seen = False, gl_governance_seen = False, gl_identities_seen = False,
        gl_authorisation_seen = False, gl_issues = []\<rparr>) (\<lambda>s.
     plift (finish_genesis s))))"

section \<open>Record documents\<close>

definition RECORD_VERSION :: string where "RECORD_VERSION = ''1.0''"
definition RECORD_MAX_BYTES :: u64 where "RECORD_MAX_BYTES = 16 * 1024 * 1024"

definition refuse_second_body :: "u64 \<Rightarrow> bool \<Rightarrow> (irena_error, unit) result" where
  "refuse_second_body pos seen =
     (if seen then Err (malformed_at pos ''a record carries exactly one element'') else Ok ())"

text \<open>The loop of \<open>read_record\<close>: the notarisation and the body read so far.\<close>

definition record_child ::
    "(string \<Rightarrow> bytes option) \<Rightarrow> xml_tag \<Rightarrow> bool \<Rightarrow> notarisation option \<times> record_body option
      \<Rightarrow> (irena_error, notarisation option \<times> record_body option) parser" where
  "record_child hexd t is_empty s = with_position (\<lambda>pos.
     let name = tag_name t;
         body = (\<lambda>p. pbind (plift (refuse_second_body pos (snd s \<noteq> None))) (\<lambda>_. pbind p (\<lambda>b. preturn (fst s, Some b)))) in
     if name = ''notarisation'' then
       (if fst s \<noteq> None \<or> snd s \<noteq> None
        then pfail (malformed_at pos ''notarisation must appear once, before the element it attests to'')
        else pbind (plift (read_notarisation hexd pos t)) (\<lambda>n. end_of_leaf name is_empty (Some n, snd s)))
     else if name = ''company-genesis'' then
       body (if is_empty then pfail (malformed_at pos ''<company-genesis> must have content'')
             else pbind (parse_company_genesis hexd t) (\<lambda>g. preturn (BodyGenesis g)))
     else if name = ''identity'' then
       body (pbind (plift (parse_identity pos t [])) (\<lambda>(i, issues).
             pbind (end_of_leaf name is_empty ()) (\<lambda>_.
             if issues \<noteq> [] then pfail (irena_invalid issues)
             else plift (rbind (rexpect i) (\<lambda>i. Ok (BodyIdentity i))))))
     else if name = ''share-structure'' then
       body (pbind (parse_share_structure t is_empty) (\<lambda>h. preturn (BodyShares h)))
     else if name = ''decision-channels'' then
       body (pbind (parse_decision_channels t is_empty) (\<lambda>c. preturn (BodyChannels c)))
     else if name = ''identities'' then
       body (pbind (parse_identities hexd t is_empty) (\<lambda>p. preturn (BodyIdentities p)))
     else if name = ''authorisation'' then
       body (pbind (parse_authorisation t is_empty) (\<lambda>a. preturn (BodyAuthorisation a)))
     else pfail (malformed_at pos (''<irena-record> has an unknown child <'' @ name @ ''>'')))"

text \<open>The attributes of the envelope: what it declares itself to be.\<close>

definition read_envelope ::
    "(string \<Rightarrow> bytes option) \<Rightarrow> u64 \<Rightarrow> xml_tag \<Rightarrow> (irena_error, record_kind \<times> company_id \<times> tx_id option) result" where
  "read_envelope hexd pos start =
     rbind (irena_attributes pos ''irena-record'' start) (\<lambda>a.
     let (version, a, issues) = irena_require ''version'' a [];
         (kind, a, issues) = irena_require ''kind'' a issues;
         (company, a, issues) = irena_require ''company'' a issues;
         (supersedes, a) = attr_take ''supersedes'' a
     in rbind (irena_finish pos a) (\<lambda>_.
     if issues \<noteq> [] then Err (irena_invalid issues)
     else rbind (rexpect version) (\<lambda>version.
     if version \<noteq> RECORD_VERSION then Err (UnsupportedVersion version)
     else rbind (rexpect kind) (\<lambda>kind.
     rbind (ok_or (IrenaMalformed pos (FaultDebug ''unknown record kind '' kind
         ''; expected company-genesis, identity, share-structure, decision-channels, identities or authorisation''))
       (kind_parse kind)) (\<lambda>declared.
     rbind (rexpect company) (\<lambda>company. rbind (company_id_new company) (\<lambda>company.
     rbind (case supersedes of
         Some text \<Rightarrow> rbind (rmap_err (\<lambda>e. irena_invalid [InvalidValue ''irena-record'' ''supersedes'' text (BecauseLedger e)])
             (tx_id_from_hex hexd text)) (\<lambda>i. Ok (Some i))
       | None \<Rightarrow> Ok None) (\<lambda>supersedes.
     Ok (declared, company, supersedes)))))))))"

definition finish_record ::
    "record_kind \<times> company_id \<times> tx_id option \<Rightarrow> notarisation option \<times> record_body option
      \<Rightarrow> (irena_error, irena_record) result" where
  "finish_record envelope s =
     (case envelope of (declared, company, supersedes) \<Rightarrow>
        rbind (ok_or (irena_invalid [MissingElement ''irena-record'' ''notarisation'']) (fst s)) (\<lambda>n.
        rbind (ok_or (irena_invalid [MissingElement ''irena-record'' (kind_as_str declared)]) (snd s)) (\<lambda>b.
        if body_kind b \<noteq> declared then Err (KindMismatch declared (body_kind b))
        else Ok \<lparr>rc_company = company, rc_supersedes = supersedes, rc_notarisation = n, rc_body = b\<rparr>)))"

definition irena_size :: "string \<Rightarrow> u64 \<Rightarrow> (irena_error, unit) result" where
  "irena_size xml max_bytes =
     (let found = word_of_nat (length xml)
      in if max_bytes < found then Err (DocumentTooLarge found max_bytes) else Ok ())"

definition record_parser :: "(string \<Rightarrow> bytes option) \<Rightarrow> (irena_error, irena_record) parser" where
  "record_parser hexd =
     pbind (pmap_err irena_of_xml (root_start ''irena-record'')) (\<lambda>start. with_position (\<lambda>pos.
     pbind (plift (read_envelope hexd pos start)) (\<lambda>envelope.
     pbind (children irena_of_xml ''irena-record'' (record_child hexd) (None, None)) (\<lambda>s.
     pbind (pmap_err irena_of_xml expect_eof) (\<lambda>_.
     plift (finish_record envelope s))))))"

definition read_record_with_limit ::
    "(string \<Rightarrow> xml_reader) \<Rightarrow> (string \<Rightarrow> bytes option) \<Rightarrow> string \<Rightarrow> u64 \<Rightarrow> (irena_error, irena_record) result" where
  "read_record_with_limit tok hexd xml max_bytes =
     rbind (irena_size xml max_bytes) (\<lambda>_. fst (record_parser hexd (tok xml)))"

definition read_record ::
    "(string \<Rightarrow> xml_reader) \<Rightarrow> (string \<Rightarrow> bytes option) \<Rightarrow> string \<Rightarrow> (irena_error, irena_record) result" where
  "read_record tok hexd xml = read_record_with_limit tok hexd xml RECORD_MAX_BYTES"

section \<open>Standalone bodies\<close>

function root_of :: "string \<Rightarrow> string \<Rightarrow> (irena_error, xml_tag \<times> bool) parser" where
  "root_of article name r =
     (case next_event r of
        (Ok EvDecl, r') \<Rightarrow> root_of article name r'
      | (Ok EvComment, r') \<Rightarrow> root_of article name r'
      | (Ok EvText, r') \<Rightarrow> root_of article name r'
      | (Ok EvPI, r') \<Rightarrow> root_of article name r'
      | (Ok (EvStart t), r') \<Rightarrow>
          if tag_name t = name then (Ok (t, False), r')
          else (Err (malformed_at (rd_position r') (''expected '' @ article @ '' <'' @ name @ ''> root, found '' @ describe (EvStart t))), r')
      | (Ok (EvEmpty t), r') \<Rightarrow>
          if tag_name t = name then (Ok (t, True), r')
          else (Err (malformed_at (rd_position r') (''expected '' @ article @ '' <'' @ name @ ''> root, found '' @ describe (EvEmpty t))), r')
      | (Ok other, r') \<Rightarrow>
          (Err (malformed_at (rd_position r') (''expected '' @ article @ '' <'' @ name @ ''> root, found '' @ describe other)), r')
      | (Err e, r') \<Rightarrow> (Err (irena_of_xml e), r')
      | (Panic, r') \<Rightarrow> (Panic, r'))"
  by pat_completeness auto
termination
  by (relation "measure (rd_left \<circ> snd \<circ> snd)") (auto dest!: sym [of _ "next_event _"] next_event_left)

declare root_of.simps [simp del]

text \<open>The frame of \<open>read_*_document\<close>.\<close>

definition standalone ::
    "(string \<Rightarrow> xml_reader) \<Rightarrow> string \<Rightarrow> string \<Rightarrow> (xml_tag \<Rightarrow> bool \<Rightarrow> (irena_error, 'a) parser) \<Rightarrow> string
      \<Rightarrow> (irena_error, 'a) result" where
  "standalone tok article name body xml =
     rbind (irena_size xml RECORD_MAX_BYTES) (\<lambda>_.
     fst (pbind (root_of article name) (\<lambda>(start, is_empty).
          pbind (body start is_empty) (\<lambda>v.
          pbind (pmap_err irena_of_xml expect_eof) (\<lambda>_. preturn v))) (tok xml)))"

definition read_company_genesis_document ::
    "(string \<Rightarrow> xml_reader) \<Rightarrow> (string \<Rightarrow> bytes option) \<Rightarrow> string \<Rightarrow> (irena_error, company_genesis) result" where
  "read_company_genesis_document tok hexd xml =
     rbind (irena_size xml RECORD_MAX_BYTES) (\<lambda>_.
     fst (pbind (pmap_err irena_of_xml (root_start ''company-genesis'')) (\<lambda>start.
          pbind (parse_company_genesis hexd start) (\<lambda>g.
          pbind (pmap_err irena_of_xml expect_eof) (\<lambda>_. preturn g))) (tok xml)))"

definition identity_body :: "xml_tag \<Rightarrow> bool \<Rightarrow> (irena_error, identity option \<times> irena_issue list) parser" where
  "identity_body start is_empty = with_position (\<lambda>pos.
     pbind (plift (parse_identity pos start [])) (\<lambda>p. end_of_leaf ''identity'' is_empty p))"

definition read_identity_document ::
    "(string \<Rightarrow> xml_reader) \<Rightarrow> string \<Rightarrow> (irena_error, identity) result" where
  "read_identity_document tok xml =
     rbind (standalone tok ''an'' ''identity'' identity_body xml) (\<lambda>(i, issues).
     if issues \<noteq> [] then Err (irena_invalid issues) else rexpect i)"

definition read_share_structure_document ::
    "(string \<Rightarrow> xml_reader) \<Rightarrow> string \<Rightarrow> (irena_error, share_structure) result" where
  "read_share_structure_document tok = standalone tok ''a'' ''share-structure'' parse_share_structure"

definition read_decision_channels_document ::
    "(string \<Rightarrow> xml_reader) \<Rightarrow> string \<Rightarrow> (irena_error, decision_channels) result" where
  "read_decision_channels_document tok = standalone tok ''a'' ''decision-channels'' parse_decision_channels"

definition read_identities_document ::
    "(string \<Rightarrow> xml_reader) \<Rightarrow> (string \<Rightarrow> bytes option) \<Rightarrow> string \<Rightarrow> (irena_error, identities) result" where
  "read_identities_document tok hexd = standalone tok ''a'' ''identities'' (parse_identities hexd)"

definition read_authorisation_document ::
    "(string \<Rightarrow> xml_reader) \<Rightarrow> string \<Rightarrow> (irena_error, authorisation) result" where
  "read_authorisation_document tok = standalone tok ''a'' ''authorisation'' parse_authorisation"

section \<open>Composing a record\<close>

definition replace_char :: "char \<Rightarrow> string \<Rightarrow> string \<Rightarrow> string" where
  "replace_char c by text = concat (map (\<lambda>x. if x = c then by else [x]) text)"

definition escape_attribute :: "string \<Rightarrow> string" where
  "escape_attribute text =
     replace_char (CHR ''>'') ''&gt;'' (replace_char (CHR ''<'') ''&lt;''
       (replace_char (CHR 0x22) ''&quot;'' (replace_char (CHR ''&'') ''&amp;'' text)))"

definition find_text :: "string \<Rightarrow> string \<Rightarrow> nat option" where
  "find_text pat s = find (\<lambda>i. take (length pat) (drop i s) = pat) [0..<Suc (length s)]"

definition strip_declaration :: "string \<Rightarrow> string" where
  "strip_declaration text =
     (let trimmed = trim text in
      if take 5 trimmed = ''<?xml'' then
        (case find_text ''?>'' (drop 5 trimmed) of
           Some k \<Rightarrow> trim (drop (k + 2) (drop 5 trimmed))
         | None \<Rightarrow> trimmed)
      else trimmed)"

definition normalise_body :: "string \<Rightarrow> string" where
  "normalise_body text = strip_declaration text"

definition attr_text :: "string \<Rightarrow> string \<Rightarrow> string" where
  "attr_text name value = '' '' @ name @ ''='' @ [CHR 0x22] @ value @ [CHR 0x22]"

definition opt_text :: "('a \<Rightarrow> string) \<Rightarrow> 'a option \<Rightarrow> string" where
  "opt_text f x = (case x of Some a \<Rightarrow> f a | None \<Rightarrow> [])"

definition write_notarisation :: "notarisation \<Rightarrow> string" where
  "write_notarisation n =
     ''<notarisation'' @ attr_text ''id'' (notary_id_str (nt_id n)) @
     attr_text ''name'' (escape_attribute (nt_name n)) @
     opt_text (\<lambda>t. attr_text ''address'' (escape_attribute t)) (nt_address n) @
     attr_text ''at'' (notary_time_str (nt_at n)) @
     opt_text (\<lambda>t. attr_text ''statement'' (escape_attribute t)) (nt_statement n) @
     opt_text (\<lambda>d. attr_text ''source-digest'' (to_hex 32 d)) (nt_source_digest n) @ ''/>''"

definition check_body ::
    "(string \<Rightarrow> xml_reader) \<Rightarrow> (string \<Rightarrow> bytes option) \<Rightarrow> record_kind \<Rightarrow> string \<Rightarrow> (irena_error, unit) result" where
  "check_body tok hexd kind element =
     (case kind of
        CompanyGenesis \<Rightarrow> rbind (read_company_genesis_document tok hexd element) (\<lambda>_. Ok ())
      | Identity \<Rightarrow> rbind (read_identity_document tok element) (\<lambda>_. Ok ())
      | ShareStructure \<Rightarrow> rbind (read_share_structure_document tok element) (\<lambda>_. Ok ())
      | DecisionChannels \<Rightarrow> rbind (read_decision_channels_document tok element) (\<lambda>_. Ok ())
      | Identities \<Rightarrow> rbind (read_identities_document tok hexd element) (\<lambda>_. Ok ())
      | Authorisation \<Rightarrow> rbind (read_authorisation_document tok element) (\<lambda>_. Ok ()))"

definition record_text :: "record_kind \<Rightarrow> company_id \<Rightarrow> tx_id option \<Rightarrow> notarisation \<Rightarrow> string \<Rightarrow> string" where
  "record_text kind company supersedes n element =
     ''<irena-record'' @ attr_text ''version'' RECORD_VERSION @ attr_text ''kind'' (kind_as_str kind) @
     attr_text ''company'' (company_id_str company) @
     opt_text (\<lambda>i. attr_text ''supersedes'' (to_hex 32 i)) supersedes @
     ''>'' @ [CHR 0x0A] @ ''  '' @ write_notarisation n @ [CHR 0x0A] @ ''  '' @ element @ [CHR 0x0A] @ ''</irena-record>''"

definition compose_record ::
    "(string \<Rightarrow> xml_reader) \<Rightarrow> (string \<Rightarrow> bytes option) \<Rightarrow> record_kind \<Rightarrow> company_id \<Rightarrow> tx_id option
      \<Rightarrow> notarisation \<Rightarrow> string \<Rightarrow> (irena_error, string) result" where
  "compose_record tok hexd kind company supersedes n body =
     rbind (notarisation_validate n) (\<lambda>_.
     let element = strip_declaration body in
     rbind (check_body tok hexd kind element) (\<lambda>_.
     let xml = record_text kind company supersedes n element in
     rbind (read_record tok hexd xml) (\<lambda>back.
     if record_kind_of back \<noteq> kind \<or> rc_company back \<noteq> company \<or> rc_supersedes back \<noteq> supersedes
       \<or> rc_notarisation back \<noteq> n
     then Err (IrenaMalformed 0 (Fault ''composed record did not read back as written''))
     else Ok xml)))"

end
