(* ===== verification/Irena_Readers.thy ===== *)
theory Irena_Readers
  imports Irena_Xml
begin

text \<open>
  What the readers of \<open>Irena_Xml\<close> guarantee. They only move forward, so the loops over the children
  end; where no issue was recorded every \<open>expect\<close> has its value, so that none panics; what is returned
  satisfies the invariant of its type, \<open>wf_body\<close> and its parts; escaping an attribute is exact; and a
  composed record reads back as it was asked for.
\<close>


section \<open>The readers only move forward\<close>

lemma end_of_leaf_shrinks [shrink]: "shrinking (end_of_leaf element e v)"
  unfolding end_of_leaf_def by (intro shrink)

lemma recovering_shrinks [shrink]:
  assumes "shrinking p" and "\<And>v i. shrinking (k v i)"
  shows "shrinking (recovering found lift p k)"
  unfolding shrinking_def
proof
  fix r
  show "rd_left (snd (recovering found lift p k r)) \<le> rd_left r"
  proof (cases "p r")
    case (Pair x r')
    have r': "rd_left r' \<le> rd_left r" using assms(1) Pair by (rule shrinkingD)
    moreover have "rd_left (snd (k v i r')) \<le> rd_left r'" for v i using assms(2) by (simp add: shrinking_def)
    ultimately have "rd_left (snd (k v i r')) \<le> rd_left r" for v i using order_trans by blast
    then show ?thesis using Pair r' by (cases x) (simp_all add: recovering_def split: option.splits)
  qed
qed

lemma skip_element_shrinks [shrink]: "shrinking (skip_element depth)"
proof -
  have "rd_left (snd (skip_element depth r)) \<le> rd_left r" for r
  proof (induction "rd_left r" arbitrary: depth r rule: less_induct)
    case less
    show ?case
    proof (rule next_event_cases [of r])
      fix e p es
      assume *: "rd_rest r = (e, p) # es" "next_event r = (Ok e, r\<lparr>rd_position := p, rd_rest := es\<rparr>)"
      have "rd_left (snd (skip_element d (r\<lparr>rd_position := p, rd_rest := es\<rparr>))) \<le> rd_left r" for d
        using less [of "r\<lparr>rd_position := p, rd_rest := es\<rparr>" d] * by simp
      then show ?thesis
        using * by (subst skip_element.simps) (simp split: xml_event.splits)
    qed (subst skip_element.simps, simp)+
  qed
  then show ?thesis by (simp add: shrinking_def)
qed

lemma item_child_shrinks [shrink]: "shrinking (item_child parent element limit leaf t e s)"
  unfolding item_child_def by (intro shrink)

lemma parse_items_shrinks:
  "(\<And>t e s. shrinking (child t e s)) \<Longrightarrow> shrinking (parse_items parent child build start e)"
  unfolding parse_items_def by (intro shrink)

lemma parse_share_structure_shrinks [shrink]: "shrinking (parse_share_structure t e)"
  unfolding parse_share_structure_def by (rule parse_items_shrinks, rule item_child_shrinks)

lemma parse_identities_shrinks [shrink]: "shrinking (parse_identities hexd t e)"
  unfolding parse_identities_def by (rule parse_items_shrinks, rule item_child_shrinks)

lemma parse_authorisation_shrinks [shrink]: "shrinking (parse_authorisation t e)"
  unfolding parse_authorisation_def by (rule parse_items_shrinks, rule item_child_shrinks)

lemma parse_scope_shrinks [shrink]: "shrinking (parse_scope channel t e)"
  unfolding parse_scope_def by (rule parse_items_shrinks, rule item_child_shrinks)

lemma parse_actors_shrinks [shrink]: "shrinking (parse_actors channel t e)"
  unfolding parse_actors_def Let_def by (intro shrink)

lemma channel_child_shrinks [shrink]: "shrinking (channel_child channel t e s)"
  unfolding channel_child_def Let_def by (intro shrink)

lemma parse_channel_shrinks [shrink]: "shrinking (parse_channel t e)"
  unfolding parse_channel_def Let_def by (intro shrink)

lemma channels_child_shrinks [shrink]: "shrinking (channels_child t e s)"
  unfolding channels_child_def Let_def by (intro shrink)

lemma parse_decision_channels_shrinks [shrink]: "shrinking (parse_decision_channels t e)"
  unfolding parse_decision_channels_def by (rule parse_items_shrinks, rule channels_child_shrinks)

lemma governance_child_shrinks [shrink]: "shrinking (governance_child t e s)"
  unfolding governance_child_def Let_def by (intro shrink)

lemma parse_governance_shrinks [shrink]: "shrinking parse_governance"
  unfolding parse_governance_def Let_def by (intro shrink)

lemma genesis_child_shrinks [shrink]: "shrinking (genesis_child hexd t e s)"
  unfolding genesis_child_def Let_def by (intro shrink)

lemma parse_company_genesis_shrinks [shrink]: "shrinking (parse_company_genesis hexd t)"
  unfolding parse_company_genesis_def Let_def by (intro shrink)

lemma record_child_shrinks [shrink]: "shrinking (record_child hexd t e s)"
  unfolding record_child_def Let_def by (intro shrink)

section \<open>No document makes a record reader panic\<close>

definition listed :: "irena_error \<Rightarrow> bool" where
  "listed e \<longleftrightarrow> (\<forall>issues. e = IrenaInvalid issues \<longrightarrow> issues \<noteq> [])"

lemma irena_invalid_not_empty: "issues \<noteq> [] \<Longrightarrow> listed (irena_invalid issues)"
  by (simp add: listed_def irena_invalid_def) (metis remdups_adj_set set_empty set_sort)

lemma listed_of_xml: "xml_listed e \<Longrightarrow> listed (irena_of_xml e)"
  by (cases e) (auto simp: irena_of_xml_def irena_invalid_not_empty, simp_all add: listed_def)

lemma listed_simps [simp]: "listed (malformed_at pos d)" "listed (UnsupportedVersion v)"
  "listed (IrenaMalformed pos f)" "listed (KindMismatch k l)" "listed (DocumentTooLarge m n)"
  by (simp_all add: malformed_at_def listed_of_xml) (simp_all add: listed_def)

text \<open>What a constructor may answer: a value with \<open>P\<close>, or an \<open>Invalid\<close> error with an issue.\<close>

definition refuses :: "('a \<Rightarrow> bool) \<Rightarrow> (irena_error, 'a) result \<Rightarrow> bool" where
  "refuses P x \<longleftrightarrow> rvalid x P (\<lambda>e. \<exists>issues. issues \<noteq> [] \<and> e = IrenaInvalid issues)"

lemma refuses_listed: "refuses P x \<Longrightarrow> rvalid x P listed"
  by (cases x) (auto simp: refuses_def listed_def)

lemma irena_invalid_issues: "issues \<noteq> [] \<Longrightarrow> \<exists>xs. xs \<noteq> [] \<and> irena_invalid issues = IrenaInvalid xs"
  using irena_invalid_not_empty [of issues] by (auto simp: irena_invalid_def listed_def)

lemma refuses_simps [simp]: "refuses P (Ok v) = P v" "issues \<noteq> [] \<Longrightarrow> refuses P (Err (irena_invalid issues))"
  "\<not> refuses P Panic"
  using irena_invalid_issues by (auto simp: refuses_def)

lemma accept_refuses: "refuses P (accept issues v) \<longleftrightarrow> (issues = [] \<longrightarrow> P v)"
  by (simp add: accept_def)

lemma collect_answered: "refuses P x \<Longrightarrow> answered P issues (collect x issues)"
  by (cases x) (auto simp: refuses_def collect_def)

lemma or_invalid_refuses: "(\<And>v. x = Some v \<Longrightarrow> P v) \<Longrightarrow> refuses P (or_invalid e a t r x)"
  by (cases x) (simp_all add: or_invalid_def)

lemma company_id_new_refuses: "refuses (\<lambda>_. True) (company_id_new s)"
  by (simp add: company_id_new_def Let_def reject_value_def split: list.splits)

lemma channel_id_new_refuses: "refuses (\<lambda>_. True) (channel_id_new s)"
  by (simp add: channel_id_new_def Let_def reject_value_def split: list.splits)

lemma notary_id_new_refuses: "refuses (\<lambda>_. True) (notary_id_new s)"
  by (simp add: notary_id_new_def Let_def reject_value_def)

lemma notary_time_parse_refuses: "refuses (\<lambda>_. True) (notary_time_parse s)"
  by (simp add: notary_time_parse_def Let_def reject_value_def split: option.splits)

lemma identity_validate_refuses: "refuses (\<lambda>_. True) (identity_validate i)"
  by (simp add: identity_validate_def reject_value_def)

lemma voter_attr_refuses: "refuses (\<lambda>_. True) (voter_attr e a t)"
  by (cases "voter_id_new t") (simp_all add: voter_attr_def)

lemma hash_from_hex_no_Panic: "hash_from_hex hexd t \<noteq> Panic" "public_key_from_hex hexd t \<noteq> Panic" "tx_id_from_hex hexd t \<noteq> Panic"
  by (auto simp: hash_from_hex_def public_key_from_hex_def tx_id_from_hex_def hex_bytes_def result_simps split: option.splits)

lemma hash_attr_refuses: "refuses (\<lambda>_. True) (hash_attr hexd e a t)"
  using hash_from_hex_no_Panic(1) [of hexd t] by (cases "hash_from_hex hexd t") (simp_all add: hash_attr_def)

lemma public_key_refuses:
  "refuses (\<lambda>_. True) (rmap_err (\<lambda>e. irena_invalid [InvalidValue x a t (BecauseLedger e)]) (public_key_from_hex hexd t))"
  using hash_from_hex_no_Panic(2) [of hexd t] by (cases "public_key_from_hex hexd t") simp_all

lemma u64_attr_refuses: "refuses (\<lambda>_. True) (u64_attr e a t)"
  unfolding u64_attr_def by (rule or_invalid_refuses) simp

lemma share_structure_new_refuses: "refuses wf_shares (share_structure_new hs)"
  using share_structure_new_wf [of hs] by (auto simp: share_structure_new_def Let_def accept_refuses)

lemma identities_new_refuses: "refuses wf_identities (identities_new ps)"
  using identities_new_wf [of ps] by (auto simp: identities_new_def Let_def accept_refuses)

lemma authorisation_new_refuses: "refuses wf_authorisation (authorisation_new ss)"
  using authorisation_new_wf [of ss] by (auto simp: authorisation_new_def Let_def accept_refuses)

lemma roster_new_refuses: "refuses wf_roster (roster_new c ms)"
  using roster_new_wf [of c ms] by (auto simp: roster_new_def Let_def accept_refuses)

lemma scope_new_refuses: "refuses (\<lambda>_. True) (scope_new c ps)"
  by (simp add: scope_new_def Let_def accept_refuses)

lemma channels_new_wf:
  assumes "channels_new cs = Ok t"
  shows "wf_channels t"
proof -
  have "cs \<noteq> []" using assms by (auto simp: channels_builder.build_Ok_iff admissible_channels_def)
  then have "channels t \<noteq> []" using channels_builder.build_set [OF assms] by auto
  then show ?thesis using channels_builder.build_strict [OF assms] by (simp add: wf_channels_def)
qed

lemma channels_new_refuses: "refuses (\<lambda>t. wf_channels t \<and> set (channels t) = set cs) (channels_new cs)"
  using channels_new_wf [of cs] channels_builder.build_set [of cs]
  by (auto simp: channels_new_def Let_def accept_refuses)

lemma irena_require_answered:
  "answered (\<lambda>_. True) issues (fst (irena_require name a issues), snd (snd (irena_require name a issues)))"
  using attr_require_answered [of "[]" name a]
  by (auto simp: irena_require_def answered_def case_prod_unfold)

lemma irena_attributes_valid: "rvalid (irena_attributes pos e t) (\<lambda>_. True) listed"
  unfolding irena_attributes_def by (rule rvalid_map_err [OF attributes_of_valid]) (rule listed_of_xml)

lemma irena_finish_valid: "rvalid (irena_finish pos a) (\<lambda>_. True) listed"
  unfolding irena_finish_def by (rule rvalid_map_err [OF attr_finish_valid]) (rule listed_of_xml)

lemmas attribute_steps = rvalid_bind [OF irena_attributes_valid] rvalid_bind [OF irena_finish_valid]

lemma irena_open_valid: "rvalid (rbind (irena_attributes pos e t) (irena_finish pos)) (\<lambda>_. True) listed"
  by (rule rvalid_bind [OF irena_attributes_valid]) (rule irena_finish_valid)

lemma expect_empty_irena: "yields (pmap_err irena_of_xml (expect_empty e)) (\<lambda>_. True) listed"
  by (rule yields_map_err, rule expect_empty_yields, rule listed_of_xml)

lemma end_of_leaf_yields: "Q v \<Longrightarrow> yields (end_of_leaf e b v) Q listed"
  unfolding end_of_leaf_def
  by (simp add: yields_bind [OF expect_empty_irena])

lemma recovering_yields:
  assumes "yields p P E" and "\<And>v. P v \<Longrightarrow> yields (k (Some v) []) Q listed"
    and "\<And>e i. E e \<Longrightarrow> found e = Some i \<Longrightarrow> yields (k None i) Q listed"
    and "\<And>e. E e \<Longrightarrow> found e = None \<Longrightarrow> listed (lift e)"
  shows "yields (recovering found lift p k) Q listed"
  unfolding yields_def
proof
  fix r
  show "rvalid (fst (recovering found lift p k r)) Q listed"
  proof (cases "p r")
    case (Pair x r')
    then have "rvalid x P E" using assms(1) unfolding yields_def by (metis fst_conv)
    then show ?thesis
      using Pair assms(2-4) by (cases x) (auto simp: recovering_def yields_def split: option.splits)
  qed
qed

lemma invalid_issues_listed: "listed e \<Longrightarrow> invalid_issues e = Some i \<Longrightarrow> i \<noteq> []"
  by (cases e) (auto simp: invalid_issues_def listed_def)

lemma xml_invalid_issues_listed: "xml_listed e \<Longrightarrow> xml_invalid_issues e = Some i \<Longrightarrow> i \<noteq> []"
  by (cases e) (auto simp: xml_invalid_issues_def)

lemma skip_element_yields: "yields (skip_element depth) (\<lambda>_. True) listed"
proof -
  have "rvalid (fst (skip_element depth r)) (\<lambda>_. True) listed" for r
  proof (induction "rd_left r" arbitrary: depth r rule: less_induct)
    case less
    show ?case
    proof (rule next_event_cases [of r])
      fix e p es
      assume *: "rd_rest r = (e, p) # es" "next_event r = (Ok e, r\<lparr>rd_position := p, rd_rest := es\<rparr>)"
      have "rvalid (fst (skip_element d (r\<lparr>rd_position := p, rd_rest := es\<rparr>))) (\<lambda>_. True) listed" for d
        using less.hyps [of "r\<lparr>rd_position := p, rd_rest := es\<rparr>" d] * by simp
      then show ?thesis
        using * by (subst skip_element.simps) (simp split: xml_event.splits)
    qed (subst skip_element.simps, simp add: listed_of_xml)+
  qed
  then show ?thesis by (simp add: yields_def)
qed

lemma opt_collect_clean:
  assumes "\<And>t. refuses (\<lambda>_. True) (f t)" and "snd (opt_then x (\<lambda>t. collect (f t)) issues) = []"
  shows "issues = [] \<and> (fst (opt_then x (\<lambda>t. collect (f t)) issues) = None \<longrightarrow> x = None)"
proof (cases x)
  case (Some t)
  then show ?thesis
    using collect_answered [OF assms(1) [of t], of issues] assms(2) by (auto simp: opt_then_def answered_def)
qed (use assms(2) in \<open>simp add: opt_then_def\<close>)

lemma read_notarisation_valid: "rvalid (read_notarisation hexd pos t) (\<lambda>_. True) listed"
proof -
  have last: "rvalid (if issues \<noteq> [] then Err (irena_invalid issues)
        else rbind (rexpect i) (\<lambda>i. rbind (rexpect name) (\<lambda>name. rbind (rexpect at) (\<lambda>at. Ok (f i name at)))))
      (\<lambda>_. True) listed"
    if "issues = [] \<Longrightarrow> i \<noteq> None \<and> name \<noteq> None \<and> at \<noteq> None"
    for issues :: "irena_issue list" and i :: "notary_id option" and name :: "string option" and at :: "notary_time option"
      and f :: "notary_id \<Rightarrow> string \<Rightarrow> notary_time \<Rightarrow> notarisation"
    using that by (auto simp: irena_invalid_not_empty)
  have blank: "nonblank e a name issues = [] \<Longrightarrow> issues = []" for e a name issues
    by (auto simp: nonblank_def split: option.splits if_splits)
  have got: "v \<noteq> None \<and> issues = []" if "answered (\<lambda>_. True) issues (v, issues')" "issues' = []"
    for v :: "'x option" and issues issues' :: "irena_issue list"
    using that by (auto simp: answered_def)
  show ?thesis
    unfolding read_notarisation_def Let_def case_prod_unfold
  proof (rule attribute_steps(1), rule attribute_steps(2), rule last)
    fix a
    let ?i = "irena_require ''id'' a []"
    let ?n = "irena_require ''name'' (fst (snd ?i)) (snd (snd ?i))"
    let ?at = "irena_require ''at'' (snd (attr_take ''address'' (fst (snd ?n)))) (snd (snd ?n))"
    let ?st = "attr_take ''statement'' (fst (snd ?at))"
    let ?d = "attr_take ''source-digest'' (snd ?st)"
    let ?i' = "opt_then (fst ?i) (\<lambda>t. collect (notary_id_new t)) (snd (snd ?at))"
    let ?at' = "opt_then (fst ?at) (\<lambda>t. collect (notary_time_parse t)) (snd ?i')"
    let ?d' = "opt_then (fst ?d) (\<lambda>t. collect (hash_attr hexd ''notarisation'' ''source-digest'' t)) (snd ?at')"
    assume *: "nonblank ''notarisation'' ''name'' (fst ?n) (snd ?d') = []"
    have d: "snd ?at' = []" using opt_collect_clean [OF hash_attr_refuses blank [OF *]] by (rule conjunct1)
    note at = opt_collect_clean [OF notary_time_parse_refuses d]
    note i = opt_collect_clean [OF notary_id_new_refuses conjunct1 [OF at]]
    show "fst ?i' \<noteq> None \<and> fst ?n \<noteq> None \<and> fst ?at' \<noteq> None"
      using at i irena_require_answered [of "[]" "''id''" a]
        irena_require_answered [of "snd (snd ?i)" "''name''" "fst (snd ?i)"]
        irena_require_answered [of "snd (snd ?n)" "''at''" "snd (attr_take ''address'' (fst (snd ?n)))"]
      by (auto simp: answered_def)
  qed
qed

lemma parse_identity_valid: "rvalid (parse_identity pos t issues) (answered (\<lambda>_. True) issues) listed"
proof -
  have "answered (\<lambda>_. True) issues (case n of None \<Rightarrow> (None, issues')
      | Some n \<Rightarrow> (Some (f n), case identity_validate (f n) of Ok _ \<Rightarrow> issues' | e \<Rightarrow> snd (collect e issues')))"
    if "answered (\<lambda>_. True) issues (n, issues')" for n issues' and f :: "string \<Rightarrow> identity"
  proof (cases n)
    case (Some x)
    have "answered (\<lambda>_. True) issues' (collect (identity_validate (f x)) issues')"
      by (rule collect_answered [OF identity_validate_refuses])
    then show ?thesis using that Some by (auto simp: answered_def split: result.splits)
  qed (use that in simp)
  then show ?thesis
    unfolding parse_identity_def Let_def case_prod_unfold
    by (intro attribute_steps) (simp add: irena_require_answered)
qed

section \<open>What a reader returns is well-formed\<close>

lemma leaf_items_yields:
  assumes "\<And>pos t issues. rvalid (leaf pos t issues) (\<lambda>_. True) listed"
  shows "yields (item_child parent element limit leaf t e s) (\<lambda>_. True) listed"
  unfolding item_child_def
  by (intro yields_position)
    (auto simp: irena_invalid_not_empty split: option.splits intro!: leaf_child_yields assms(1) listed_of_xml)

lemma parse_items_yields:
  assumes "\<And>t e s. shrinking (child t e s)" and "\<And>t e s. I s \<Longrightarrow> yields (child t e s) I listed" and "I ([], [])"
    and "\<And>items. I (items, []) \<Longrightarrow> rvalid (build items) P listed"
  shows "yields (parse_items parent child build start e) P listed"
proof -
  have loop: "yields (if e then preturn ([], []) else children irena_of_xml parent child ([], [])) I listed"
    using yields_children [where I = I, OF assms(1,2)] assms(3) by (auto simp: listed_of_xml)
  show ?thesis
    unfolding parse_items_def
    by (intro yields_position yields_bind [where Q = "\<lambda>_. True" and p = "plift _"] yields_bind [OF loop])
      (auto simp: irena_open_valid irena_invalid_not_empty assms(4))
qed

lemma parse_holder_valid: "rvalid (parse_holder pos t issues) (\<lambda>_. True) listed"
  unfolding parse_holder_def Let_def case_prod_unfold by (intro attribute_steps) simp

lemma parse_person_valid: "rvalid (parse_person hexd pos t issues) (\<lambda>_. True) listed"
  unfolding parse_person_def Let_def case_prod_unfold by (intro attribute_steps) simp

lemma parse_signer_valid: "rvalid (parse_signer pos t issues) (\<lambda>_. True) listed"
  unfolding parse_signer_def Let_def case_prod_unfold by (intro attribute_steps) simp

lemma parse_member_valid: "rvalid (parse_member pos t issues) (\<lambda>_. True) listed"
  unfolding parse_member_def Let_def case_prod_unfold by (intro attribute_steps) simp

lemma parse_amend_valid: "rvalid (parse_amend pos t issues) (\<lambda>_. True) listed"
  unfolding parse_amend_def Let_def case_prod_unfold by (intro attribute_steps) simp

lemma parse_share_structure_yields: "yields (parse_share_structure t e) wf_shares listed"
  unfolding parse_share_structure_def
  by (rule parse_items_yields [where I = "\<lambda>_. True"])
    (auto intro!: item_child_shrinks leaf_items_yields parse_holder_valid refuses_listed share_structure_new_refuses)

lemma parse_identities_yields: "yields (parse_identities hexd t e) wf_identities listed"
  unfolding parse_identities_def
  by (rule parse_items_yields [where I = "\<lambda>_. True"])
    (auto intro!: item_child_shrinks leaf_items_yields parse_person_valid refuses_listed identities_new_refuses)

lemma parse_authorisation_yields: "yields (parse_authorisation t e) wf_authorisation listed"
  unfolding parse_authorisation_def
  by (rule parse_items_yields [where I = "\<lambda>_. True"])
    (auto intro!: item_child_shrinks leaf_items_yields parse_signer_valid refuses_listed authorisation_new_refuses)

lemma parse_scope_yields: "yields (parse_scope c t e) (\<lambda>_. True) listed"
  unfolding parse_scope_def
  by (rule parse_items_yields [where I = "\<lambda>_. True"])
    (auto intro!: item_child_shrinks leaf_items_yields parse_amend_valid refuses_listed scope_new_refuses)

definition wf_source :: "actor_source \<Rightarrow> bool" where
  "wf_source a \<longleftrightarrow> (case a of FromShareRegister \<Rightarrow> True | FromRoster r \<Rightarrow> wf_roster r)"

definition wf_mode :: "channel_mode \<Rightarrow> bool" where
  "wf_mode m \<longleftrightarrow> (case m of Individual \<Rightarrow> True | Collective rules \<Rightarrow> sound_rules rules)"

definition wf_channel_set :: "decision_channels \<Rightarrow> bool" where
  "wf_channel_set cs \<longleftrightarrow> wf_channels cs \<and> (\<forall>c \<in> set (channels cs). wf_source (ch_actors c) \<and> wf_mode (ch_mode c))"

definition wf_genesis :: "company_genesis \<Rightarrow> bool" where
  "wf_genesis g \<longleftrightarrow> wf_shares (cg_shares g) \<and> wf_channel_set (cg_channels g) \<and> wf_identities (cg_identities g) \<and>
     wf_authorisation (cg_authorisation g)"

definition wf_body :: "record_body \<Rightarrow> bool" where
  "wf_body b \<longleftrightarrow> (case b of BodyGenesis g \<Rightarrow> wf_genesis g | BodyIdentity _ \<Rightarrow> True | BodyShares s \<Rightarrow> wf_shares s
     | BodyChannels c \<Rightarrow> wf_channel_set c | BodyIdentities p \<Rightarrow> wf_identities p | BodyAuthorisation a \<Rightarrow> wf_authorisation a)"

lemma plift_step: "rvalid x (\<lambda>_. True) listed \<Longrightarrow> (\<And>a. yields (f a) Q listed) \<Longrightarrow> yields (pbind (plift x) f) Q listed"
  by (rule yields_bind [where Q = "\<lambda>_. True"]) simp_all

lemma yields_if: "(b \<Longrightarrow> yields p Q E) \<Longrightarrow> (\<not> b \<Longrightarrow> yields q Q E) \<Longrightarrow> yields (if b then p else q) Q E"
  by simp

lemma parse_actors_yields: "yields (parse_actors c t e) wf_source listed"
proof -
  have items: "yields (if e then preturn ([], i) else children irena_of_xml ''actors''
      (item_child ''actors'' ''member'' (Some (MAX_MEMBERS, TooManyMembers c MAX_MEMBERS)) parse_member) ([], i))
    (\<lambda>_. True) listed" for i
    using yields_children [where I = "\<lambda>_. True" and s = "([], i)" and lift = irena_of_xml and E = listed,
        OF item_child_shrinks leaf_items_yields [OF parse_member_valid]]
    by (auto simp: listed_of_xml)
  have "rvalid (rbind (roster_new c ms) (\<lambda>r. Ok (FromRoster r))) wf_source listed" for ms
    by (rule rvalid_bind [OF refuses_listed [OF roster_new_refuses]]) (simp add: wf_source_def)
  then show ?thesis
    unfolding parse_actors_def Let_def case_prod_unfold
    by (intro yields_position plift_step irena_attributes_valid irena_finish_valid yields_bind [OF items])
      (auto simp: irena_invalid_not_empty wf_source_def)
qed

definition channel_slots_ok :: "bool \<Rightarrow> channel_slots \<Rightarrow> bool" where
  "channel_slots_ok known s \<longleftrightarrow>
     (\<forall>a. cl_actors s = Some a \<longrightarrow> wf_source a) \<and> (\<forall>r. cl_rules s = Some r \<longrightarrow> sound_rules r) \<and>
     (cl_issues s = [] \<longrightarrow> known \<and> (cl_actors_seen s \<longrightarrow> cl_actors s \<noteq> None) \<and> (cl_rules_seen s \<longrightarrow> cl_rules s \<noteq> None))"

lemma channel_child_yields:
  "channel_slots_ok k s \<Longrightarrow> yields (channel_child c t e s) (channel_slots_ok k) listed"
  unfolding channel_child_def Let_def
  by (intro yields_position)
    (auto intro!: recovering_yields [OF parse_actors_yields] recovering_yields [OF parse_scope_yields]
        recovering_yields [OF parse_voting_rules_yields] listed_of_xml
      simp: channel_slots_ok_def dest: invalid_issues_listed xml_invalid_issues_listed)

lemma finish_channel_valid:
  assumes "channel_slots_ok (individual \<noteq> None) s"
  shows "rvalid (finish_channel c individual s) (\<lambda>d. wf_source (ch_actors d) \<and> wf_mode (ch_mode d)) listed"
  using assms
  by (auto simp: finish_channel_def channel_mode_of_def channel_slots_ok_def wf_mode_def irena_invalid_not_empty Let_def
      split: option.splits bool.splits)

lemma parse_channel_yields: "yields (parse_channel t e) (\<lambda>d. wf_source (ch_actors d) \<and> wf_mode (ch_mode d)) listed"
proof -
  have loop: "yields (pbind (children irena_of_xml ''channel'' (channel_child c)
      \<lparr>cl_actors = None, cl_rules = None, cl_scope = None, cl_actors_seen = False, cl_rules_seen = False,
       cl_scope_seen = False, cl_issues = issues\<rparr>) (\<lambda>s. plift (finish_channel c individual s)))
      (\<lambda>d. wf_source (ch_actors d) \<and> wf_mode (ch_mode d)) listed" if "issues = [] \<Longrightarrow> individual \<noteq> None" for c issues individual
    by (rule yields_bind [OF yields_children [where I = "channel_slots_ok (individual \<noteq> None)",
          OF channel_child_shrinks channel_child_yields]])
      (use that finish_channel_valid in \<open>auto simp: listed_of_xml channel_slots_ok_def\<close>)
  have known: "snd (channel_individual mode issues) = [] \<Longrightarrow> fst (channel_individual mode issues) \<noteq> None"
    if "issues = [] \<Longrightarrow> mode \<noteq> None" for mode issues
    using that by (auto simp: channel_individual_def split: option.splits if_splits)
  have clean: "snd (opt_then i (\<lambda>t. collect (channel_id_new t)) issues) = [] \<Longrightarrow> issues = []" for i issues
    using opt_collect_clean [where f = channel_id_new, OF channel_id_new_refuses] by blast
  show ?thesis
    unfolding parse_channel_def Let_def case_prod_unfold
  proof (intro yields_position plift_step irena_attributes_valid irena_finish_valid, split option.split, intro conjI allI impI)
    fix a
    let ?i = "irena_require ''id'' a []"
    let ?m = "irena_require ''mode'' (fst (snd ?i)) (snd (snd ?i))"
    let ?c = "opt_then (fst ?i) (\<lambda>t. collect (channel_id_new t)) (snd (snd ?m))"
    have mode: "snd ?c = [] \<Longrightarrow> fst ?m \<noteq> None"
      using clean irena_require_answered [of "snd (snd ?i)" "''mode''" "fst (snd ?i)"] by (auto simp: answered_def)
    {
      assume "fst ?c = None"
      moreover have "answered (\<lambda>_. True) [] ?c"
        using irena_require_answered [of "snd (snd ?i)" "''mode''" "fst (snd ?i)"] irena_require_answered [of "[]" "''id''" a]
          collect_answered [OF channel_id_new_refuses, of "snd (snd ?m)"]
        by (auto simp: opt_then_def answered_def split: option.splits)
      ultimately have "snd ?c \<noteq> []" by (auto simp: answered_def)
      then show "yields (pbind (if e then preturn () else skip_element 1) (\<lambda>_. pfail (irena_invalid (snd ?c))))
          (\<lambda>d. wf_source (ch_actors d) \<and> wf_mode (ch_mode d)) listed"
        by (intro yields_bind [where Q = "\<lambda>_. True"]) (auto simp: irena_invalid_not_empty skip_element_yields)
    next
      fix c
      show "yields (if e then pfail (irena_invalid (snd (channel_individual (fst ?m) (snd ?c)) @ [MissingElement ''channel'' ''actors'']))
          else pbind (children irena_of_xml ''channel'' (channel_child c)
            \<lparr>cl_actors = None, cl_rules = None, cl_scope = None, cl_actors_seen = False, cl_rules_seen = False,
             cl_scope_seen = False, cl_issues = snd (channel_individual (fst ?m) (snd ?c))\<rparr>)
            (\<lambda>s. plift (finish_channel c (fst (channel_individual (fst ?m) (snd ?c))) s)))
        (\<lambda>d. wf_source (ch_actors d) \<and> wf_mode (ch_mode d)) listed"
        using loop known mode by (auto simp: irena_invalid_not_empty)
    }
  qed
qed

lemma channels_child_yields:
  "\<forall>c \<in> set (fst s). wf_source (ch_actors c) \<and> wf_mode (ch_mode c) \<Longrightarrow>
     yields (channels_child t e s) (\<lambda>s. \<forall>c \<in> set (fst s). wf_source (ch_actors c) \<and> wf_mode (ch_mode c)) listed"
  unfolding channels_child_def
  by (intro yields_position)
    (auto simp: irena_invalid_not_empty intro!: recovering_yields [OF parse_channel_yields])

lemma parse_decision_channels_yields: "yields (parse_decision_channels t e) wf_channel_set listed"
  unfolding parse_decision_channels_def
proof (rule parse_items_yields [OF channels_child_shrinks channels_child_yields])
  fix items :: "decision_channel list"
  assume "\<forall>c \<in> set (fst (items, [] :: irena_issue list)). wf_source (ch_actors c) \<and> wf_mode (ch_mode c)"
  then show "rvalid (channels_new items) wf_channel_set listed"
    using refuses_listed [OF channels_new_refuses, of items] by (auto elim!: rvalid_mono simp: wf_channel_set_def)
qed simp_all

definition governance_ok :: "decision_channels option \<times> bool \<times> irena_issue list \<Rightarrow> bool" where
  "governance_ok s \<longleftrightarrow> (case s of (chs, seen, issues) \<Rightarrow>
     (\<forall>c. chs = Some c \<longrightarrow> wf_channel_set c) \<and> (issues = [] \<longrightarrow> seen \<longrightarrow> chs \<noteq> None))"

lemma governance_child_yields: "governance_ok s \<Longrightarrow> yields (governance_child t e s) governance_ok listed"
  unfolding governance_child_def
  by (intro yields_position)
    (auto simp: governance_ok_def split: prod.splits intro!: recovering_yields [OF parse_decision_channels_yields]
      dest: invalid_issues_listed)

lemma parse_governance_yields: "yields parse_governance wf_channel_set listed"
proof -
  have loop: "yields (children irena_of_xml ''governance'' governance_child (None, False, [])) governance_ok listed"
    by (rule yields_children [where I = governance_ok, OF governance_child_shrinks governance_child_yields])
      (simp_all add: governance_ok_def listed_of_xml)
  show ?thesis
    unfolding parse_governance_def Let_def case_prod_unfold
    by (rule yields_bind [OF loop]) (auto simp: governance_ok_def irena_invalid_not_empty)
qed

definition genesis_slots_ok :: "genesis_slots \<Rightarrow> bool" where
  "genesis_slots_ok s \<longleftrightarrow>
     (\<forall>h. gl_shares s = Some h \<longrightarrow> wf_shares h) \<and> (\<forall>c. gl_channels s = Some c \<longrightarrow> wf_channel_set c) \<and>
     (\<forall>p. gl_identities s = Some p \<longrightarrow> wf_identities p) \<and> (\<forall>a. gl_authorisation s = Some a \<longrightarrow> wf_authorisation a) \<and>
     (gl_issues s = [] \<longrightarrow> (gl_shares_seen s \<longrightarrow> gl_shares s \<noteq> None) \<and> (gl_governance_seen s \<longrightarrow> gl_channels s \<noteq> None) \<and>
       (gl_identities_seen s \<longrightarrow> gl_identities s \<noteq> None) \<and> (gl_authorisation_seen s \<longrightarrow> gl_authorisation s \<noteq> None))"

lemma incorporation_child_valid: "rvalid (incorporation_child hexd pos t issues) (\<lambda>p. snd p = [] \<longrightarrow> issues = []) listed"
  unfolding incorporation_child_def Let_def case_prod_unfold
  by (intro attribute_steps) (auto dest: opt_collect_clean [OF hash_attr_refuses])

lemma genesis_child_yields:
  assumes ok: "genesis_slots_ok s"
  shows "yields (genesis_child hexd t e s) genesis_slots_ok listed"
  unfolding genesis_child_def Let_def
proof (intro yields_position, goal_cases)
  case (1 pos)
  have i: "yields (pbind (plift (parse_identity pos t (gl_issues s @ again))) (\<lambda>(parsed, issues). end_of_leaf name e
      (s\<lparr>gl_identity := (if parsed = None then gl_identity s else parsed), gl_issues := issues\<rparr>))) genesis_slots_ok listed"
    for again name
  proof (rule yields_bind [where Q = "answered (\<lambda>_. True) (gl_issues s @ again)"])
    show "yields (plift (parse_identity pos t (gl_issues s @ again))) (answered (\<lambda>_. True) (gl_issues s @ again)) listed"
      by (simp add: parse_identity_valid)
  qed (use ok in \<open>auto simp: genesis_slots_ok_def answered_def intro!: end_of_leaf_yields\<close>)
  have d: "yields (pbind (plift (incorporation_child hexd pos t (gl_issues s @ again))) (\<lambda>(digest, issues). end_of_leaf name e
      (s\<lparr>gl_incorporation := Some digest, gl_issues := issues\<rparr>))) genesis_slots_ok listed" for again name
  proof (rule yields_bind [where Q = "\<lambda>p. snd p = [] \<longrightarrow> gl_issues s @ again = []"])
    show "yields (plift (incorporation_child hexd pos t (gl_issues s @ again))) (\<lambda>p. snd p = [] \<longrightarrow> gl_issues s @ again = []) listed"
      using incorporation_child_valid [of hexd pos t "gl_issues s @ again"] by (simp only: yields_simps)
  qed (use ok in \<open>auto simp: genesis_slots_ok_def intro!: end_of_leaf_yields\<close>)
  have shares: "yields (recovering invalid_issues (\<lambda>e. e) (parse_share_structure t e) (\<lambda>parsed found. preturn
      (s\<lparr>gl_shares := (if parsed = None then gl_shares s else parsed), gl_shares_seen := True,
        gl_issues := gl_issues s @ again @ found\<rparr>))) genesis_slots_ok listed" for again
    by (rule recovering_yields [OF parse_share_structure_yields])
      (use ok in \<open>auto simp: genesis_slots_ok_def dest: invalid_issues_listed\<close>)
  have governance: "yields (recovering invalid_issues (\<lambda>e. e) parse_governance (\<lambda>parsed found. preturn
      (s\<lparr>gl_channels := (if parsed = None then gl_channels s else parsed), gl_governance_seen := True,
        gl_issues := gl_issues s @ again @ found\<rparr>))) genesis_slots_ok listed" for again
    by (rule recovering_yields [OF parse_governance_yields])
      (use ok in \<open>auto simp: genesis_slots_ok_def dest: invalid_issues_listed\<close>)
  have identities: "yields (recovering invalid_issues (\<lambda>e. e) (parse_identities hexd t e) (\<lambda>parsed found. preturn
      (s\<lparr>gl_identities := (if parsed = None then gl_identities s else parsed), gl_identities_seen := True,
        gl_issues := gl_issues s @ again @ found\<rparr>))) genesis_slots_ok listed" for again
    by (rule recovering_yields [OF parse_identities_yields])
      (use ok in \<open>auto simp: genesis_slots_ok_def dest: invalid_issues_listed\<close>)
  have authorisation: "yields (recovering invalid_issues (\<lambda>e. e) (parse_authorisation t e) (\<lambda>parsed found. preturn
      (s\<lparr>gl_authorisation := (if parsed = None then gl_authorisation s else parsed), gl_authorisation_seen := True,
        gl_issues := gl_issues s @ again @ found\<rparr>))) genesis_slots_ok listed" for again
    by (rule recovering_yields [OF parse_authorisation_yields])
      (use ok in \<open>auto simp: genesis_slots_ok_def dest: invalid_issues_listed\<close>)
  show ?case
    by (intro yields_if i d shares governance identities authorisation plift_step irena_open_valid) simp_all
qed

lemma finish_genesis_valid: "genesis_slots_ok s \<Longrightarrow> rvalid (finish_genesis s) wf_genesis listed"
  by (auto simp: finish_genesis_def Let_def genesis_missing_def genesis_slots_ok_def wf_genesis_def irena_invalid_not_empty
      split: if_splits)

lemma parse_company_genesis_yields: "yields (parse_company_genesis hexd t) wf_genesis listed"
proof -
  have loop: "yields (children irena_of_xml ''company-genesis'' (genesis_child hexd)
       \<lparr>gl_identity = None, gl_incorporation = None, gl_shares = None, gl_channels = None, gl_identities = None,
        gl_authorisation = None, gl_shares_seen = False, gl_governance_seen = False, gl_identities_seen = False,
        gl_authorisation_seen = False, gl_issues = []\<rparr>) genesis_slots_ok listed"
    by (rule yields_children [where I = genesis_slots_ok, OF genesis_child_shrinks genesis_child_yields])
      (simp_all add: genesis_slots_ok_def listed_of_xml)
  show ?thesis
    unfolding parse_company_genesis_def
    by (intro yields_position plift_step irena_open_valid yields_bind [OF loop]) (simp add: finish_genesis_valid)
qed

definition record_slots_ok :: "notarisation option \<times> record_body option \<Rightarrow> bool" where
  "record_slots_ok s \<longleftrightarrow> (\<forall>b. snd s = Some b \<longrightarrow> wf_body b)"

lemma record_child_yields:
  assumes "record_slots_ok s"
  shows "yields (record_child hexd t e s) record_slots_ok listed"
proof -
  have body: "yields (pbind (plift (refuse_second_body pos (snd s \<noteq> None))) (\<lambda>_. pbind p (\<lambda>b. preturn (fst s, Some b))))
      record_slots_ok listed" if "yields p wf_body listed" for pos p
    by (intro plift_step yields_bind [OF that]) (simp_all add: refuse_second_body_def record_slots_ok_def)
  have i: "yields (pbind (plift (parse_identity pos t [])) (\<lambda>(i, issues). pbind (end_of_leaf name e ()) (\<lambda>_.
      if issues \<noteq> [] then pfail (irena_invalid issues) else plift (rbind (rexpect i) (\<lambda>i. Ok (BodyIdentity i))))))
      wf_body listed" for pos name
    by (intro yields_bind [where Q = "answered (\<lambda>_. True) []" and p = "plift _"])
      (auto simp: parse_identity_valid irena_invalid_not_empty wf_body_def answered_def
        intro!: yields_bind [OF end_of_leaf_yields [where Q = "\<lambda>_. True"]])
  have n: "yields (pbind (plift (read_notarisation hexd pos t)) (\<lambda>n. end_of_leaf name e (Some n, snd s))) record_slots_ok listed"
    for pos name
    using assms by (intro plift_step read_notarisation_valid end_of_leaf_yields) (simp add: record_slots_ok_def)
  show ?thesis
    unfolding record_child_def Let_def
    by (intro yields_position yields_if body i n yields_bind [OF parse_company_genesis_yields]
        yields_bind [OF parse_share_structure_yields] yields_bind [OF parse_decision_channels_yields]
        yields_bind [OF parse_identities_yields] yields_bind [OF parse_authorisation_yields])
      (simp_all add: wf_body_def)
qed

lemma supersedes_valid:
  "rvalid (case s of
       Some x \<Rightarrow> rbind (rmap_err (\<lambda>e. irena_invalid [InvalidValue ''irena-record'' ''supersedes'' x (BecauseLedger e)])
         (tx_id_from_hex hexd x)) (\<lambda>i. Ok (Some i))
     | None \<Rightarrow> Ok None) (\<lambda>_. True) listed"
proof (cases s)
  case (Some x)
  then show ?thesis
    using hash_from_hex_no_Panic(3) [of hexd x]
    by (cases "tx_id_from_hex hexd x") (simp_all add: irena_invalid_not_empty)
qed simp

lemma read_envelope_valid: "rvalid (read_envelope hexd pos t) (\<lambda>_. True) listed"
  unfolding read_envelope_def Let_def case_prod_unfold
proof (rule attribute_steps(1), rule attribute_steps(2))
  fix a
  let ?v = "irena_require ''version'' a []"
  let ?k = "irena_require ''kind'' (fst (snd ?v)) (snd (snd ?v))"
  let ?c = "irena_require ''company'' (fst (snd ?k)) (snd (snd ?k))"
  let ?s = "fst (attr_take ''supersedes'' (fst (snd ?c)))"
  have got: "\<exists>v k c. fst ?v = Some v \<and> fst ?k = Some k \<and> fst ?c = Some c" if "snd (snd ?c) = []"
    using that irena_require_answered [of "[]" "''version''" a]
      irena_require_answered [of "snd (snd ?v)" "''kind''" "fst (snd ?v)"]
      irena_require_answered [of "snd (snd ?k)" "''company''" "fst (snd ?k)"]
    by (auto simp: answered_def)
  have tail: "rvalid (rbind (company_id_new c) (\<lambda>company. rbind (case ?s of
       Some x \<Rightarrow> rbind (rmap_err (\<lambda>e. irena_invalid [InvalidValue ''irena-record'' ''supersedes'' x (BecauseLedger e)])
         (tx_id_from_hex hexd x)) (\<lambda>i. Ok (Some i))
     | None \<Rightarrow> Ok None) (\<lambda>s. Ok (f company s)))) (\<lambda>_. True) listed" for c f
    by (intro rvalid_bind [OF refuses_listed [OF company_id_new_refuses]] rvalid_bind [OF supersedes_valid]) simp
  have "rvalid (rbind (ok_or (IrenaMalformed pos e) (kind_parse k)) (\<lambda>declared. rbind (company_id_new c) (\<lambda>company.
     rbind (case ?s of
       Some x \<Rightarrow> rbind (rmap_err (\<lambda>e. irena_invalid [InvalidValue ''irena-record'' ''supersedes'' x (BecauseLedger e)])
         (tx_id_from_hex hexd x)) (\<lambda>i. Ok (Some i))
     | None \<Rightarrow> Ok None) (\<lambda>s. Ok (declared, company, s))))) (\<lambda>_. True) listed" for e k c
    using tail by (cases "kind_parse k") simp_all
  then show "rvalid (if snd (snd ?c) \<noteq> [] then Err (irena_invalid (snd (snd ?c)))
     else rbind (rexpect (fst ?v)) (\<lambda>version. if version \<noteq> RECORD_VERSION then Err (UnsupportedVersion version)
     else rbind (rexpect (fst ?k)) (\<lambda>kind. rbind (ok_or (IrenaMalformed pos (FaultDebug ''unknown record kind '' kind
         ''; expected company-genesis, identity, share-structure, decision-channels, identities or authorisation''))
       (kind_parse kind)) (\<lambda>declared. rbind (rexpect (fst ?c)) (\<lambda>company. rbind (company_id_new company) (\<lambda>company.
     rbind (case ?s of
       Some x \<Rightarrow> rbind (rmap_err (\<lambda>e. irena_invalid [InvalidValue ''irena-record'' ''supersedes'' x (BecauseLedger e)])
         (tx_id_from_hex hexd x)) (\<lambda>i. Ok (Some i))
     | None \<Rightarrow> Ok None) (\<lambda>supersedes. Ok (declared, company, supersedes)))))))) (\<lambda>_. True) listed"
    using got by (auto simp: irena_invalid_not_empty)
qed

lemma finish_record_valid: "record_slots_ok s \<Longrightarrow> rvalid (finish_record envelope s) (\<lambda>r. wf_body (rc_body r)) listed"
  by (cases "fst s"; cases "snd s")
    (auto simp: finish_record_def record_slots_ok_def irena_invalid_not_empty split: prod.splits)

lemma size_valid: "rvalid (irena_size xml limit) (\<lambda>_. length xml < 2 ^ 64 \<longrightarrow> length xml \<le> unat limit) listed"
  by (auto simp: irena_size_def Let_def not_less word_le_nat_alt unat_of_nat)

lemma run_yields: "yields p Q E \<Longrightarrow> rvalid (fst (p (tok xml))) Q E"
  by (simp add: yields_def)

lemma root_start_irena: "yields (pmap_err irena_of_xml (root_start element)) (\<lambda>_. True) listed"
  by (rule yields_map_err [OF root_start_yields]) (rule listed_of_xml)

lemma expect_eof_irena: "yields (pmap_err irena_of_xml expect_eof) (\<lambda>_. True) listed"
  by (rule yields_map_err [OF expect_eof_yields]) (rule listed_of_xml)

lemma record_parser_yields: "yields (record_parser hexd) (\<lambda>r. wf_body (rc_body r)) listed"
proof -
  have loop: "yields (children irena_of_xml ''irena-record'' (record_child hexd) (None, None)) record_slots_ok listed"
    by (rule yields_children [where I = record_slots_ok, OF record_child_shrinks record_child_yields])
      (simp_all add: record_slots_ok_def listed_of_xml)
  show ?thesis
    unfolding record_parser_def
    by (intro yields_bind [OF root_start_irena] yields_position plift_step read_envelope_valid yields_bind [OF loop]
        yields_bind [OF expect_eof_irena]) (simp add: finish_record_valid)
qed

lemma root_of_yields: "yields (root_of article name) (\<lambda>_. True) listed"
proof -
  have "rvalid (fst (root_of article name r)) (\<lambda>_. True) listed" for r
  proof (induction "rd_left r" arbitrary: r rule: less_induct)
    case less
    show ?case
    proof (rule next_event_cases [of r])
      fix e p es
      assume *: "rd_rest r = (e, p) # es" "next_event r = (Ok e, r\<lparr>rd_position := p, rd_rest := es\<rparr>)"
      then show ?thesis
        using less.hyps [of "r\<lparr>rd_position := p, rd_rest := es\<rparr>"]
        by (subst root_of.simps) (auto split: xml_event.splits)
    qed (subst root_of.simps, simp add: listed_of_xml)+
  qed
  then show ?thesis by (simp add: yields_def)
qed

lemma standalone_valid:
  assumes "\<And>t e. yields (body t e) Q listed"
  shows "rvalid (standalone tok article name body xml) Q listed"
  unfolding standalone_def case_prod_unfold
  by (intro rvalid_bind [OF size_valid] run_yields yields_bind [OF root_of_yields] yields_bind [OF assms]
      yields_bind [OF expect_eof_irena]) simp

lemma read_company_genesis_valid: "rvalid (read_company_genesis_document tok hexd xml) wf_genesis listed"
  unfolding read_company_genesis_document_def
  by (intro rvalid_bind [OF size_valid] run_yields yields_bind [OF root_start_irena]
      yields_bind [OF parse_company_genesis_yields] yields_bind [OF expect_eof_irena]) simp

lemma identity_body_yields: "yields (identity_body t e) (answered (\<lambda>_. True) []) listed"
  unfolding identity_body_def
  by (intro yields_position yields_bind [where Q = "answered (\<lambda>_. True) []" and p = "plift _"])
    (auto simp: parse_identity_valid intro: end_of_leaf_yields)

lemma read_identity_valid: "rvalid (read_identity_document tok xml) (\<lambda>_. True) listed"
  unfolding read_identity_document_def
  by (rule rvalid_bind [OF standalone_valid [OF identity_body_yields]])
    (auto simp: irena_invalid_not_empty answered_def)

lemmas standalone_readers_valid = read_company_genesis_valid read_identity_valid
  standalone_valid [OF parse_share_structure_yields] standalone_valid [OF parse_decision_channels_yields]
  standalone_valid [OF parse_identities_yields] standalone_valid [OF parse_authorisation_yields]

lemma check_body_valid: "rvalid (check_body tok hexd kind element) (\<lambda>_. True) listed"
  unfolding check_body_def
  by (cases kind)
    (auto intro!: rvalid_bind [OF standalone_readers_valid(1)] rvalid_bind [OF standalone_readers_valid(2)]
      rvalid_bind [OF standalone_readers_valid(3)] rvalid_bind [OF standalone_readers_valid(4)]
      rvalid_bind [OF standalone_readers_valid(5)] rvalid_bind [OF standalone_readers_valid(6)]
      simp: read_share_structure_document_def read_decision_channels_document_def read_identities_document_def
        read_authorisation_document_def)

lemma read_record_valid: "rvalid (read_record tok hexd xml) (\<lambda>r. wf_body (rc_body r)) listed"
  unfolding read_record_def read_record_with_limit_def
  by (intro rvalid_bind [OF size_valid] run_yields record_parser_yields)

lemma compose_record_valid: "rvalid (compose_record tok hexd kind company supersedes n body) (\<lambda>_. True) listed"
  unfolding compose_record_def Let_def
  by (intro rvalid_bind [OF refuses_listed, where Q = "\<lambda>_. True"] rvalid_bind [OF check_body_valid]
      rvalid_bind [OF read_record_valid])
    (simp_all add: notarisation_validate_def accept_refuses)

text \<open>
  C19: The readers of records and of standalone bodies are total and sound: whatever events quick-xml makes
  of a text, and whatever the nesting, order and repetition of its elements, no \<open>expect\<close> panics; the
  body that is returned satisfies the invariant its constructor promises (a register with positive,
  distinct holdings and an exact total, a sorted non-empty channel set whose rosters and rules are
  valid, a founding record of valid parts, identities no two of which hold one key, an
  authorisation under which someone signs for the company); and a document refused for its content names at least one issue.
\<close>

theorem record_readers_total:
  "(case read_record_with_limit tok hexd xml limit of
      Ok r \<Rightarrow> wf_body (rc_body r) | Err e \<Rightarrow> e \<noteq> IrenaInvalid [] | Panic \<Rightarrow> False) \<and>
   (case read_company_genesis_document tok hexd xml of
      Ok g \<Rightarrow> wf_genesis g | Err e \<Rightarrow> e \<noteq> IrenaInvalid [] | Panic \<Rightarrow> False) \<and>
   (case read_share_structure_document tok xml of
      Ok h \<Rightarrow> wf_shares h | Err e \<Rightarrow> e \<noteq> IrenaInvalid [] | Panic \<Rightarrow> False) \<and>
   (case read_decision_channels_document tok xml of
      Ok c \<Rightarrow> wf_channel_set c | Err e \<Rightarrow> e \<noteq> IrenaInvalid [] | Panic \<Rightarrow> False) \<and>
   (case read_identities_document tok hexd xml of
      Ok p \<Rightarrow> wf_identities p | Err e \<Rightarrow> e \<noteq> IrenaInvalid [] | Panic \<Rightarrow> False) \<and>
   (case read_authorisation_document tok xml of
      Ok a \<Rightarrow> wf_authorisation a | Err e \<Rightarrow> e \<noteq> IrenaInvalid [] | Panic \<Rightarrow> False) \<and>
   read_identity_document tok xml \<notin> {Panic, Err (IrenaInvalid [])} \<and>
   compose_record tok hexd kind company supersedes n body \<notin> {Panic, Err (IrenaInvalid [])}"
proof -
  have cases: "case x of Ok v \<Rightarrow> Q v | Err e \<Rightarrow> e \<noteq> IrenaInvalid [] | Panic \<Rightarrow> False" if "rvalid x Q listed"
    for x :: "(irena_error, 'x) result" and Q
    using that by (cases x) (auto simp: listed_def)
  have never: "x \<notin> {Panic, Err (IrenaInvalid [])}" if "rvalid x Q listed" for x :: "(irena_error, 'x) result" and Q
    using that by (cases x) (auto simp: listed_def)
  have "rvalid (read_record_with_limit tok hexd xml limit) (\<lambda>r. wf_body (rc_body r)) listed"
    unfolding read_record_with_limit_def by (intro rvalid_bind [OF size_valid] run_yields record_parser_yields)
  note readers = this standalone_readers_valid(1,3-6)
  show ?thesis
    unfolding read_share_structure_document_def read_decision_channels_document_def read_identities_document_def
      read_authorisation_document_def
    by (intro conjI cases readers never [OF read_identity_valid] never [OF compose_record_valid])
qed

section \<open>Composing\<close>

definition escape_char :: "char \<Rightarrow> string" where
  "escape_char c = (if c = CHR ''&'' then ''&amp;'' else if c = CHR 0x22 then ''&quot;''
     else if c = CHR ''<'' then ''&lt;'' else if c = CHR ''>'' then ''&gt;'' else [c])"

lemma replace_char_concat: "replace_char c by (concat (map f xs)) = concat (map (replace_char c by \<circ> f) xs)"
  by (induction xs) (simp_all add: replace_char_def)

lemma escape_attribute_concat: "escape_attribute text = concat (map escape_char text)"
proof -
  have "replace_char (CHR ''>'') ''&gt;'' (replace_char (CHR ''<'') ''&lt;'' (replace_char (CHR 0x22) ''&quot;''
      (if x = CHR ''&'' then ''&amp;'' else [x]))) = escape_char x" for x
    by (simp add: escape_char_def replace_char_def)
  moreover have "replace_char (CHR ''&'') ''&amp;'' text = concat (map (\<lambda>x. if x = CHR ''&'' then ''&amp;'' else [x]) text)"
    by (simp add: replace_char_def)
  ultimately show ?thesis
    by (simp add: escape_attribute_def replace_char_concat o_def)
qed

lemma escape_char_prefix: "escape_char a @ xs = escape_char b @ ys \<Longrightarrow> a = b \<and> xs = ys"
  by (auto simp: escape_char_def split: if_splits)

lemma escape_char_nonempty: "escape_char a \<noteq> []"
  by (simp add: escape_char_def)

lemma escape_concat_inj: "concat (map escape_char s) = concat (map escape_char t) \<Longrightarrow> s = t"
proof (induction s arbitrary: t)
  case Nil
  then show ?case using escape_char_nonempty by (cases t) auto
next
  case (Cons a s)
  from Cons.prems obtain b t' where t: "t = b # t'" using escape_char_nonempty by (cases t) auto
  with Cons.prems have "escape_char a @ concat (map escape_char s) = escape_char b @ concat (map escape_char t')" by simp
  then have "a = b \<and> concat (map escape_char s) = concat (map escape_char t')" by (rule escape_char_prefix)
  with Cons.IH t show ?case by blast
qed

text \<open>
  A text written into an attribute cannot leave it: what \<open>escape_attribute\<close> writes has no quote and no
  angle bracket, and no two texts are written alike, so that the four replacements, in their order, lose
  nothing (an ampersand replaced after the quotes would have been escaped twice).
\<close>

theorem escape_attribute_exact:
  "{CHR 0x22, CHR ''<'', CHR ''>''} \<inter> set (escape_attribute s) = {} \<and>
   (escape_attribute s = escape_attribute t \<longleftrightarrow> s = t)"
proof -
  have "{CHR 0x22, CHR ''<'', CHR ''>''} \<inter> set (escape_char c) = {}" for c
    by (simp add: escape_char_def)
  then show ?thesis
    using escape_concat_inj by (auto simp: escape_attribute_concat)
qed

lemma trim_start_suffix: "\<exists>w. s = w @ trim_start s"
  by (induction s rule: trim_start.induct) (auto split: if_splits, (metis append_Cons)+)

lemma trim_back_suffix: "\<exists>w. s = w @ trim_back s"
  by (induction s rule: trim_back.induct) (auto split: if_splits, (metis append_Cons)+)

lemma trim_infix: "\<exists>a b. s = a @ trim s @ b"
proof -
  obtain a where a: "s = a @ trim_start s" using trim_start_suffix by blast
  obtain b where "rev (trim_start s) = b @ trim_back (rev (trim_start s))" using trim_back_suffix by blast
  then have "trim_start s = trim s @ rev b" unfolding trim_def by (metis rev_append rev_rev_ident)
  then show ?thesis using a by metis
qed

lemma strip_declaration_infix: "\<exists>a b. body = a @ strip_declaration body @ b"
proof -
  obtain a b where ab: "body = a @ trim body @ b" using trim_infix by blast
  have drop: "\<exists>c d. trim body = c @ trim (drop n (drop 5 (trim body))) @ d" for n
  proof -
    obtain c d where "drop n (drop 5 (trim body)) = c @ trim (drop n (drop 5 (trim body))) @ d" using trim_infix by blast
    then have "trim body = (take (n + 5) (trim body) @ c) @ trim (drop n (drop 5 (trim body))) @ d"
      by (metis append.assoc append_take_drop_id drop_drop)
    then show ?thesis by blast
  qed
  have "strip_declaration body = trim body \<or> (\<exists>n. strip_declaration body = trim (drop n (drop 5 (trim body))))"
    unfolding strip_declaration_def Let_def
    by (cases "find_text ''?>'' (drop 5 (trim body))") (auto simp del: drop_drop)
  then show ?thesis
  proof
    assume "strip_declaration body = trim body"
    then show ?thesis using ab by metis
  next
    assume "\<exists>n. strip_declaration body = trim (drop n (drop 5 (trim body)))"
    then obtain n where n: "strip_declaration body = trim (drop n (drop 5 (trim body)))" ..
    obtain c d where "trim body = c @ strip_declaration body @ d" using drop [of n] n by metis
    then have "body = (a @ c) @ strip_declaration body @ (d @ b)" using ab by (metis append.assoc)
    then show ?thesis by blast
  qed
qed

lemma compose_record_Ok:
  assumes "compose_record tok hexd kind company supersedes n body = Ok xml"
  obtains r where "notarisation_validate n = Ok ()" "check_body tok hexd kind (strip_declaration body) = Ok ()"
    "read_record tok hexd xml = Ok r" "xml = record_text kind company supersedes n (strip_declaration body)"
    "record_kind_of r = kind" "rc_company r = company" "rc_supersedes r = supersedes" "rc_notarisation r = n"
    "wf_body (rc_body r)"
proof -
  have v: "notarisation_validate n = Ok ()"
    using assms by (cases "notarisation_validate n") (simp_all add: compose_record_def)
  have c: "check_body tok hexd kind (strip_declaration body) = Ok ()"
    using assms v by (cases "check_body tok hexd kind (strip_declaration body)") (simp_all add: compose_record_def Let_def)
  let ?xml = "record_text kind company supersedes n (strip_declaration body)"
  obtain r where r: "read_record tok hexd ?xml = Ok r"
    using assms v c by (cases "read_record tok hexd ?xml") (simp_all add: compose_record_def Let_def)
  have "xml = ?xml" "record_kind_of r = kind" "rc_company r = company" "rc_supersedes r = supersedes"
    "rc_notarisation r = n"
    using assms v c r by (simp_all add: compose_record_def Let_def split: if_splits)
  moreover have "wf_body (rc_body r)" using read_record_valid [of tok hexd ?xml] r by simp
  ultimately show thesis using that v c r by blast
qed

text \<open>
  C20: A composed record is what was asked for: when \<open>compose_record\<close> returns a text, reading it gives a
  record of the kind, company, predecessor and notarisation it was given with a well-formed body; the
  body's document passed its own reader; and the text is \<open><irena-record\<close>, the envelope, and the body
  verbatim, a contiguous piece of the document supplied, closed by \<open></irena-record>\<close>.
\<close>

theorem compose_reads_back:
  assumes "compose_record tok hexd kind company supersedes n body = Ok xml"
  shows "(\<exists>r. read_record tok hexd xml = Ok r \<and> record_kind_of r = kind \<and> rc_company r = company \<and>
      rc_supersedes r = supersedes \<and> rc_notarisation r = n \<and> wf_body (rc_body r)) \<and>
    check_body tok hexd kind (strip_declaration body) = Ok () \<and> \<not> trims_to_empty (nt_name n) \<and>
    (\<exists>a b open. body = a @ strip_declaration body @ b \<and>
      xml = ''<irena-record'' @ open @ strip_declaration body @ [CHR 0x0A] @ ''</irena-record>'')"
proof -
  from compose_record_Ok [OF assms] obtain r where r: "notarisation_validate n = Ok ()"
    "check_body tok hexd kind (strip_declaration body) = Ok ()" "read_record tok hexd xml = Ok r"
    and xml: "xml = record_text kind company supersedes n (strip_declaration body)"
    and got: "record_kind_of r = kind" "rc_company r = company" "rc_supersedes r = supersedes"
      "rc_notarisation r = n" "wf_body (rc_body r)" .
  have name: "\<not> trims_to_empty (nt_name n)" using r(1) by (auto simp: notarisation_validate_def accept_def split: if_splits)
  obtain a b where ab: "body = a @ strip_declaration body @ b" using strip_declaration_infix by blast
  have "xml = ''<irena-record'' @ (attr_text ''version'' RECORD_VERSION @ attr_text ''kind'' (kind_as_str kind) @
      attr_text ''company'' (company_id_str company) @
      opt_text (\<lambda>i. attr_text ''supersedes'' (to_hex 32 i)) supersedes @
      ''>'' @ [CHR 0x0A] @ ''  '' @ write_notarisation n @ [CHR 0x0A] @ ''  '') @ strip_declaration body @ [CHR 0x0A] @
      ''</irena-record>''"
    unfolding xml record_text_def by (simp only: append.assoc)
  then show ?thesis using r(2,3) got name ab by blast
qed

text \<open>A small tokenizer for the witness: the events of two documents.\<close>

definition sample_notarisation :: notarisation where
  "sample_notarisation = \<lparr>nt_id = NotaryId ''n:1'', nt_name = ''R & Co'', nt_address = None,
     nt_at = NotaryTime ''2024-02-29T09:30:00Z'', nt_statement = None, nt_source_digest = None\<rparr>"

definition sample_identity_text :: string where
  "sample_identity_text = ''<identity'' @ attr_text ''name'' ''Acme'' @ ''/>''"

definition sample_identity_tag :: xml_tag where
  "sample_identity_tag = \<lparr>tag_name = ''identity'', tag_attributes = [XmlAttribute ''name'' ''Acme'']\<rparr>"

definition reader_of :: "xml_event list \<Rightarrow> xml_reader" where
  "reader_of es = \<lparr>rd_position = 0, rd_rest = map (\<lambda>e. (e, 0)) es, rd_fault = None\<rparr>"

definition notarisation_tag :: "notarisation \<Rightarrow> xml_tag" where
  "notarisation_tag n = \<lparr>tag_name = ''notarisation'',
     tag_attributes = [XmlAttribute ''id'' (notary_id_str (nt_id n)), XmlAttribute ''name'' (nt_name n),
       XmlAttribute ''at'' (notary_time_str (nt_at n))]\<rparr>"

definition envelope_tag :: "record_kind \<Rightarrow> company_id \<Rightarrow> xml_tag" where
  "envelope_tag kind company = \<lparr>tag_name = ''irena-record'',
     tag_attributes = [XmlAttribute ''version'' RECORD_VERSION, XmlAttribute ''kind'' (kind_as_str kind),
       XmlAttribute ''company'' (company_id_str company)]\<rparr>"

definition sample_identity_tok :: "string \<Rightarrow> xml_reader" where
  "sample_identity_tok xml =
     (if xml = sample_identity_text then reader_of [EvEmpty sample_identity_tag, EvEof]
      else reader_of [EvStart (envelope_tag Identity (CompanyId ''acme'')), EvEmpty (notarisation_tag sample_notarisation),
        EvEmpty sample_identity_tag, EvEnd ''irena-record'', EvEof])"

theorem compose_reads_back_witness:
  "\<exists>r. read_record sample_identity_tok (\<lambda>_. None)
      (record_text Identity (CompanyId ''acme'') None sample_notarisation sample_identity_text) = Ok r \<and>
    record_kind_of r = Identity \<and> rc_company r = CompanyId ''acme'' \<and> rc_supersedes r = None \<and>
    rc_notarisation r = sample_notarisation \<and> wf_body (rc_body r)"
proof -
  have "compose_record sample_identity_tok (\<lambda>_. None) Identity (CompanyId ''acme'') None sample_notarisation
      ([CHR 0x0A, CHR '' ''] @ sample_identity_text) =
    Ok (record_text Identity (CompanyId ''acme'') None sample_notarisation sample_identity_text)"
    by code_simp
  then show ?thesis by (rule compose_reads_back [THEN conjunct1])
qed

end
