(* ===== verification/Prunella_Seal.thy ===== *)
theory Prunella_Seal
  imports Prunella_Chain
begin

text \<open>
  One signed transaction in a block of its own, on the head of a chain. Every record that Irena
  writes after the genesis goes on the chain this way: \<open>publish\<close> of \<open>irena-ledger\<close> and the \<open>finalize\<close>
  operations of the crates above it repeat the same statements, from \<open>store.head()\<close> to
  \<open>store.append_block\<close>. \<open>seal\<close> is those statements, and the lemmas say what they do to a store that
  represents a chain.
\<close>

section \<open>The statements\<close>

datatype seal_error = SealStore store_error | SealCore prunella_error | SealNoHead chain_head

definition sealed_tx :: "crypto \<Rightarrow> digest \<Rightarrow> string \<Rightarrow> u32 \<Rightarrow> bytes \<Rightarrow> u64 \<Rightarrow> transaction" where
  "sealed_tx cr seed ns schema payload nonce = sign_transaction cr seed
     \<lparr>d_namespace = Namespace ns, d_schema_version = schema, d_payload = payload,
      d_signer = ed_public cr seed, d_nonce = nonce\<rparr>"

definition seal_draft ::
    "crypto \<Rightarrow> (bytes \<Rightarrow> (block \<times> bytes) option) \<Rightarrow> chain_store \<Rightarrow> digest \<Rightarrow> string \<Rightarrow> u32 \<Rightarrow> bytes \<Rightarrow> u64
      \<Rightarrow> (seal_error, block \<times> tx_id \<times> block_height) result" where
  "seal_draft cr de st seed ns schema payload ms =
     rbind (rmap_err SealStore (store_head st)) (\<lambda>head.
     rbind (rmap_err SealStore (get_block de st (head_height head))) (\<lambda>found.
     rbind (ok_or (SealNoHead head) found) (\<lambda>parent.
     rbind (rmap_err SealCore (height_next (head_height head))) (\<lambda>height.
     rbind (rmap_err SealCore (namespace_new ns)) (\<lambda>n.
     let t = sealed_tx cr seed (namespace_str n) schema payload height in
     rbind (rmap_err SealCore (rbind (child_draft cr (b_header parent) [t] ms) (draft_build cr))) (\<lambda>b.
     Ok (b, t_id t, height)))))))"

text \<open>The store after the call, and the id and the height; \<open>io\<close> says whether the commit goes through.\<close>

definition seal ::
    "crypto \<Rightarrow> (bytes \<Rightarrow> (block \<times> bytes) option) \<Rightarrow> bool \<Rightarrow> chain_store \<Rightarrow> digest \<Rightarrow> string \<Rightarrow> u32 \<Rightarrow> bytes \<Rightarrow> u64
      \<Rightarrow> chain_store \<times> (seal_error, tx_id \<times> block_height) result" where
  "seal cr de io st seed ns schema payload ms =
     (case seal_draft cr de st seed ns schema payload ms of
        Err e \<Rightarrow> (st, Err e)
      | Panic \<Rightarrow> (st, Panic)
      | Ok (b, i, height) \<Rightarrow>
          (case append_block cr de io st b of
             (st', Err e) \<Rightarrow> (st', Err (SealStore e))
           | (st', Panic) \<Rightarrow> (st', Panic)
           | (st', Ok _) \<Rightarrow> (st', Ok (i, height))))"

section \<open>The block\<close>

definition sealed_block :: "crypto \<Rightarrow> block \<Rightarrow> transaction \<Rightarrow> u64 \<Rightarrow> block_height \<Rightarrow> block" where
  "sealed_block cr parent t ms h =
     \<lparr>b_header = \<lparr>h_version = HEADER_VERSION, h_network_id = h_network_id (b_header parent), h_height = h,
        h_previous_hash = header_hash cr (b_header parent), h_tx_root = merkle_root cr [t_id t], h_tx_count = 1,
        h_timestamp_millis = ms\<rparr>, b_transactions = [t]\<rparr>"

lemma sealed_block_fields [simp]:
  "b_transactions (sealed_block cr parent t ms h) = [t]" "h_height (b_header (sealed_block cr parent t ms h)) = h"
  by (simp_all add: sealed_block_def)

lemma sealed_tx_fields [simp]:
  "t_namespace (sealed_tx cr seed ns schema payload nonce) = Namespace ns"
  "t_schema_version (sealed_tx cr seed ns schema payload nonce) = schema"
  "t_payload (sealed_tx cr seed ns schema payload nonce) = payload"
  "t_signer (sealed_tx cr seed ns schema payload nonce) = ed_public cr seed"
  by (simp_all add: sealed_tx_def sign_transaction_def Let_def into_transaction_fields)

lemma sealed_tx_wf: "wf_label ns \<Longrightarrow> fits_u32 payload \<Longrightarrow> wf_transaction (sealed_tx cr seed ns schema payload nonce)"
  using label_is_string [of ns] by (simp add: wf_transaction_def fits_u32_def)

lemma sealed_tx_authentic: "signatures_verify cr \<Longrightarrow> authentic cr (sealed_tx cr seed ns schema payload nonce)"
  using signed_transaction_valid_facts by (simp add: authentic_def sealed_tx_def)

lemma sealed_build:
  assumes "height_next (h_height (b_header parent)) = Ok h"
  shows "rbind (child_draft cr (b_header parent) [t] ms) (draft_build cr) = Ok (sealed_block cr parent t ms h)"
  using assms by (simp add: child_draft_def draft_build_Ok_iff sealed_block_def fits_u32_def)

lemma head_height_represents:
  assumes "represents cr bs st"
  shows "unat (head_height (head_of cr bs)) = length bs - 1" "bs \<noteq> []"
  using valid_chain_head_height [OF represents_chain [OF assms]] valid_chain_nonempty [OF represents_chain [OF assms]]
  by (simp_all add: head_of_def)

lemma head_block_represents:
  assumes "decodes_blocks de" and "represents cr bs st"
  shows "store_head st = Ok (head_of cr bs)" "get_block de st (head_height (head_of cr bs)) = Ok (Some (last bs))"
    "head_height (head_of cr bs) = h_height (b_header (last bs))"
  using represents_get_block [OF assms] head_height_represents [OF assms(2)]
  by (simp_all add: store_head_def read_head_represents [OF assms(2)] last_conv_nth head_of_def)

lemma next_height_represents:
  assumes "represents cr bs st"
  shows "height_next (h_height (b_header (last bs))) = Ok h \<longleftrightarrow> unat h = length bs"
  using head_height_represents [OF assms] by (cases bs) (auto simp: height_next_Ok_iff head_of_def)

lemma sealed_block_wf:
  assumes "represents cr bs st" and "wf_transaction t"
  shows "wf_block (sealed_block cr (last bs) t ms h)"
proof -
  have "wf_block (last bs)" using assms(1) head_height_represents(2) [OF assms(1)] by (simp add: represents_def)
  then show ?thesis
    using assms(2) by (simp add: sealed_block_def wf_block_def wf_header_def fits_u32_def)
qed

lemma chain_from_block: "chain_from cr net p bs \<Longrightarrow> b \<in> set bs \<Longrightarrow> \<exists>q. valid_block cr net q b"
  by (induction bs arbitrary: p) auto

lemma sealed_block_valid:
  assumes "represents cr bs st" and "authentic cr t" and "h_timestamp_millis (b_header (last bs)) \<le> ms" and "unat h = length bs"
  shows "valid_block cr (cs_network_id st) (Some (b_header (last bs))) (sealed_block cr (last bs) t ms h)"
proof -
  have "h_network_id (b_header (last bs)) = cs_network_id st"
    using chain_from_block [of cr "cs_network_id st" None bs "last bs"] represents_chain [OF assms(1)]
      head_height_represents(2) [OF assms(1)] by (auto simp: valid_chain_def valid_block_def)
  moreover have "unat h = unat (h_height (b_header (last bs))) + 1"
    using head_height_represents [OF assms(1)] assms(4) by (cases bs) (auto simp: head_of_def)
  ultimately show ?thesis
    using assms(2,3) by (simp add: valid_block_def sealed_block_def follows_def)
qed

section \<open>What sealing does\<close>

lemma seal_draft_represents:
  assumes "decodes_blocks de" and "represents cr bs st" and "wf_label ns"
  shows "seal_draft cr de st seed ns schema payload ms =
    (case height_next (h_height (b_header (last bs))) of
       Ok h \<Rightarrow> Ok (sealed_block cr (last bs) (sealed_tx cr seed ns schema payload h) ms h,
                  t_id (sealed_tx cr seed ns schema payload h), h)
     | Err e \<Rightarrow> Err (SealCore e) | Panic \<Rightarrow> Panic)"
proof -
  note head = head_block_represents [OF assms(1,2)]
  have ns: "namespace_new ns = Ok (Namespace ns)" using assms(3) by (simp add: namespace_new_def wf_label_def)
  show ?thesis
  proof (cases "height_next (h_height (b_header (last bs)))")
    case (Ok h)
    then show ?thesis
      using sealed_build [OF Ok] by (simp add: seal_draft_def head(1) head(2) [unfolded head(3)] head(3) ns Let_def)
  qed (simp_all add: seal_draft_def head(1) head(2) [unfolded head(3)] head(3) ns)
qed

lemma append_sealed_cases:
  assumes de: "decodes_blocks de" and rep: "represents cr bs st" and room: "length (chain_ids bs) + 1 < 2 ^ 64"
    and t: "wf_transaction t" and h: "unat h = length bs"
  obtains e where "append_block cr de io st (sealed_block cr (last bs) t ms h) = (st, Err e)"
  | st' out where "append_block cr de io st (sealed_block cr (last bs) t ms h) = (st', Ok out)"
      "represents cr (bs @ [sealed_block cr (last bs) t ms h]) st'"
proof -
  let ?b = "sealed_block cr (last bs) t ms h"
  have wf: "\<forall>b \<in> set [?b]. wf_block b" using sealed_block_wf [OF rep t] by simp
  show thesis
  proof (rule append_blocks_cases [OF de rep wf, of io])
    fix e assume "append_blocks cr de io st [?b] = (st, Err e)"
    then show thesis by (intro that(1)) (simp add: append_block_def)
  next
    assume "2 ^ 64 \<le> length (chain_ids bs) + tx_total [?b] \<or> 2 ^ 64 \<le> length [?b]"
    then show thesis using room by simp
  next
    fix new st' out
    assume ok: "append_blocks cr de io st [?b] = (st', Ok out)" "offer_all cr (cs_network_id st) bs [?b] = Some (bs @ new)"
      and rep': "represents cr (bs @ new) st'"
    have "new = [?b]" using ok(2) h by (auto simp: offer_def Let_def split: if_splits)
    then show thesis using rep' by (intro that(2)) (simp_all add: append_block_def ok(1))
  qed
qed

lemma append_sealed_step:
  assumes "represents cr bs st" and "wf_transaction t"
    and "append_block cr de io st (sealed_block cr (last bs) t ms h) = (st', r)"
  shows "store_steps cr de st st'"
proof -
  obtain q where "append_blocks cr de io st [sealed_block cr (last bs) t ms h] = (st', q)"
    using assms(3) by (cases "append_blocks cr de io st [sealed_block cr (last bs) t ms h]") (auto simp: append_block_def)
  then have "store_step cr de st st'" using sealed_block_wf [OF assms(1,2)] by (intro store_step.appended) auto
  then show ?thesis by (rule store_steps.one_more [OF store_steps.no_step])
qed

lemma sealed_get:
  assumes "decodes_blocks de" and "represents cr (bs @ [sealed_block cr parent t ms h]) st"
  shows "get_transaction de st (t_id t) = Ok (Some \<lparr>lt_height = h, lt_index = 0, lt_transaction = t\<rparr>)"
  using get_transaction_represents [OF assms, of "length bs" 0] by (simp add: index_u32_def try_from_nat_def)

lemma append_sealed_accepts:
  assumes de: "decodes_blocks de" and rep: "represents cr bs st" and room: "length (chain_ids bs) + 1 < 2 ^ 64"
    and t: "wf_transaction t" "authentic cr t" and h: "unat h = length bs"
    and "h_timestamp_millis (b_header (last bs)) \<le> ms" and "t_id t \<notin> set (chain_ids bs)"
  obtains st' out where "append_block cr de True st (sealed_block cr (last bs) t ms h) = (st', Ok out)"
    "represents cr (bs @ [sealed_block cr (last bs) t ms h]) st'"
proof -
  let ?b = "sealed_block cr (last bs) t ms h"
  have wf: "\<forall>b \<in> set [?b]. wf_block b" using sealed_block_wf [OF rep t(1)] by simp
  have "offer cr (cs_network_id st) bs ?b = Some (bs @ [?b])"
    using sealed_block_valid [OF rep t(2) assms(7) h] assms(8) h by (simp add: offer_def Let_def)
  then have "offer_all cr (cs_network_id st) bs [?b] = Some (bs @ [?b])" by simp
  moreover have "room_for bs [?b]" using room by (simp add: room_for_def)
  ultimately obtain st' out where "append_blocks cr de True st [?b] = (st', Ok out)" "represents cr (bs @ [?b]) st'"
    using append_blocks_Some [OF de rep wf] by metis
  then show thesis by (intro that) (simp_all add: append_block_def)
qed

lemma seal_cases:
  assumes de: "decodes_blocks de" and rep: "represents cr bs st" and room: "length (chain_ids bs) + 1 < 2 ^ 64"
    and "wf_label ns" and "fits_u32 payload"
  obtains e where "seal cr de io st seed ns schema payload ms = (st, Err e)"
  | st' h where "seal cr de io st seed ns schema payload ms = (st', Ok (t_id (sealed_tx cr seed ns schema payload h), h))"
      "unat h = length bs"
      "represents cr (bs @ [sealed_block cr (last bs) (sealed_tx cr seed ns schema payload h) ms h]) st'"
proof (cases "height_next (h_height (b_header (last bs)))")
  case (Ok h)
  note hh = Ok [unfolded next_height_represents [OF rep]]
  have wf: "wf_transaction (sealed_tx cr seed ns schema payload h)" by (rule sealed_tx_wf [OF assms(4,5)])
  show ?thesis
    by (rule append_sealed_cases [OF de rep room wf hh, of io ms])
      (use that hh in \<open>auto simp: seal_def seal_draft_represents [OF de rep assms(4)] Ok\<close>)
next
  case (Err e)
  then show ?thesis using that(1) by (simp add: seal_def seal_draft_represents [OF de rep assms(4)])
next
  case Panic
  then show ?thesis by (simp add: height_next_def result_simps)
qed

lemma seal_steps:
  assumes de: "decodes_blocks de" and rep: "represents cr bs st" and "wf_label ns" and "fits_u32 payload"
    and "seal cr de io st seed ns schema payload ms = (st', r)"
  shows "store_steps cr de st st'"
proof (cases "height_next (h_height (b_header (last bs)))")
  case (Ok h)
  let ?t = "sealed_tx cr seed ns schema payload h"
  obtain q where "append_block cr de io st (sealed_block cr (last bs) ?t ms h) = (st', q)"
    using assms(5)
    by (cases "append_block cr de io st (sealed_block cr (last bs) ?t ms h)")
      (auto simp: seal_def seal_draft_represents [OF de rep assms(3)] Ok split: result.splits)
  then show ?thesis by (rule append_sealed_step [OF rep sealed_tx_wf [OF assms(3,4)]])
qed (use assms(5) in \<open>auto simp: seal_def seal_draft_represents [OF de rep assms(3)] intro: store_steps.no_step\<close>)

lemma seal_accepts:
  assumes de: "decodes_blocks de" and rep: "represents cr bs st" and room: "length (chain_ids bs) + 1 < 2 ^ 64"
    and "wf_label ns" and "fits_u32 payload" and "signatures_verify cr" and "length bs < 2 ^ 64"
    and "h_timestamp_millis (b_header (last bs)) \<le> ms"
    and "t_id (sealed_tx cr seed ns schema payload (word_of_nat (length bs))) \<notin> set (chain_ids bs)"
  shows "\<exists>st' i h. seal cr de True st seed ns schema payload ms = (st', Ok (i, h))"
proof -
  let ?h = "word_of_nat (length bs) :: block_height"
  let ?t = "sealed_tx cr seed ns schema payload ?h"
  have h: "unat ?h = length bs" using assms(7) by (simp add: unat_of_nat take_bit_nat_eq_self)
  then have k: "height_next (h_height (b_header (last bs))) = Ok ?h" by (simp add: next_height_represents [OF rep])
  show ?thesis
    by (rule append_sealed_accepts [OF de rep room sealed_tx_wf [OF assms(4,5)] sealed_tx_authentic [OF assms(6)] h
        assms(8,9)]) (simp add: seal_def seal_draft_represents [OF de rep assms(4)] k)
qed

section \<open>Histories that go on\<close>

lemma store_steps_append: "store_steps cr de s t \<Longrightarrow> store_steps cr de r s \<Longrightarrow> store_steps cr de r t"
  by (induction rule: store_steps.induct) (auto intro: store_steps.one_more)

lemma reachable_steps: "reachable cr de st \<Longrightarrow> store_steps cr de st st' \<Longrightarrow> reachable cr de st'"
  by (elim reachableE) (blast intro: reachable.created store_steps_append)

section \<open>Operations that write one block\<close>

text \<open>
  What an operation that seals one record may do to a store that represents the chain \<open>bs\<close>: it
  returns a value, the chain then has one more block, of one transaction, and the program still holds a
  reachable store; or it returns an error and the store is what it was. It does not panic.
\<close>

definition writes_one ::
    "crypto \<Rightarrow> (bytes \<Rightarrow> (block \<times> bytes) option) \<Rightarrow> block list \<Rightarrow> chain_store \<Rightarrow> chain_store \<times> ('e, 'a) result \<Rightarrow> bool" where
  "writes_one cr de bs st out =
     (case out of
        (st', Ok _) \<Rightarrow> reachable cr de st' \<and> (\<exists>b. length (b_transactions b) = 1 \<and> represents cr (bs @ [b]) st')
      | (st', Err _) \<Rightarrow> st' = st
      | (st', Panic) \<Rightarrow> False)"

lemma writes_one_no_Panic: "writes_one cr de bs st out \<Longrightarrow> snd out \<noteq> Panic"
  by (auto simp: writes_one_def split: prod.splits)

lemma writes_one_Err [simp]: "writes_one cr de bs st (st', Err e) \<longleftrightarrow> st' = st"
  by (simp add: writes_one_def)

lemma writes_one_Panic [simp]: "\<not> writes_one cr de bs st (st', Panic)"
  by (simp add: writes_one_def)

lemma writes_one_OkE:
  assumes "writes_one cr de bs st (st', Ok x)"
  obtains b where "reachable cr de st'" "represents cr (bs @ [b]) st'" "length (chain_ids (bs @ [b])) = length (chain_ids bs) + 1"
  using assms by (auto simp: writes_one_def)

lemma seal_writes_one:
  assumes de: "decodes_blocks de" and st: "reachable cr de st" and rep: "represents cr bs st"
    and room: "length (chain_ids bs) + 1 < 2 ^ 64" and ns: "wf_label ns" and fits: "fits_u32 payload"
  shows "writes_one cr de bs st (seal cr de io st seed ns schema payload ms)"
proof (rule seal_cases [OF de rep room ns fits, of io seed schema ms])
  fix st' h
  assume ok: "seal cr de io st seed ns schema payload ms = (st', Ok (t_id (sealed_tx cr seed ns schema payload h), h))"
    and "represents cr (bs @ [sealed_block cr (last bs) (sealed_tx cr seed ns schema payload h) ms h]) st'"
  moreover have "reachable cr de st'" by (rule reachable_steps [OF st seal_steps [OF de rep ns fits ok]])
  ultimately show ?thesis
    by (auto simp: writes_one_def intro!: exI [of _ "sealed_block cr (last bs) (sealed_tx cr seed ns schema payload h) ms h"])
qed simp

text \<open>What an operation makes of the id and the height does not matter.\<close>

lemma writes_one_bind:
  "writes_one cr de bs st out \<Longrightarrow>
     writes_one cr de bs st (fst out, rbind (rmap_err f (snd out)) (\<lambda>p. Ok (g p)))"
  by (cases out; cases "snd out") (auto simp: writes_one_def)

end
