(* ===== verification/Irena_Ledger.thy ===== *)
theory Irena_Ledger
  imports Irena_Readers Prunella_Seal
begin

text \<open>
  The ledger layer of Irena, crate \<open>irena-ledger\<close>: who may sign (\<open>authority.rs\<close>), why it refuses
  (\<open>error.rs\<close>), the company replayed from the records of the chain (\<open>state.rs\<close>), and founding and
  amending it (\<open>ledger.rs\<close>).

  The first part holds the code. After it come \<open>replayed\<close>, the contract of an invariant of a state that
  is replayed from a log; the proof that reconstruction is such a replay of the records the chain holds
  (\<open>reconstruct_Ok_iff\<close>); and the invariant of a company, as an interpretation of \<open>replayed\<close> on
  \<open>found_company\<close> and \<open>apply_record\<close>. \<open>tok\<close>, \<open>hexd\<close> and \<open>de\<close> are the tokenizer, the hex decoder and the
  reader of canonical blocks, as in the theories this one imports.
\<close>

section \<open>Why the ledger layer refused\<close>

text \<open>
  \<open>error.rs\<close>. Where the code keeps a rendered text, the model keeps what it is rendered from: why a key
  does not qualify, which company signers there are and whether the identities list them, the two
  transaction ids of a broken link, what is wrong with a payload.
\<close>

datatype unqualified = HeldByNobody | NotASigner voter_id

type_synonym lockout = "(voter_id \<times> bool) list"

datatype unreadable = PayloadNotUtf8 | NotARecord irena_error | WrongNamespace record_kind namespace

datatype ledger_fault =
    TooManyInBlock block_height | FoundedOnce | NoHeadBlock chain_head | NotReadBack tx_id | ComposedNotUtf8

datatype ledger_error =
    LedgerRecord irena_error
  | NoCompany block_height
  | NoGenesisFirst block_height tx_id record_kind
  | SecondGenesis tx_id block_height tx_id
  | ForeignCompany company_id company_id block_height tx_id
  | StaleAmendment record_kind tx_id "tx_id option"
  | UnauthorisedSigner record_family public_key unqualified
  | LockedOut lockout
  | UnauthorisedRecord block_height tx_id record_kind public_key unqualified
  | LockoutAt block_height tx_id lockout
  | BrokenAmendmentChain company_id record_kind block_height tx_id "tx_id option" "tx_id option"
  | UnreadableRecord block_height tx_id namespace unreadable
  | LedgerMalformed ledger_fault
  | LedgerStore store_error
  | LedgerCore prunella_error

section \<open>Who may sign\<close>

definition signer_of ::
    "identities \<Rightarrow> authorisation \<Rightarrow> record_family \<Rightarrow> public_key \<Rightarrow> (ledger_error, person) result" where
  "signer_of ids a family key =
     (case holder_of ids key of
        None \<Rightarrow> Err (UnauthorisedSigner family key HeldByNobody)
      | Some p \<Rightarrow>
          if \<not> allows a (pn_id p) family then Err (UnauthorisedSigner family key (NotASigner (pn_id p)))
          else Ok p)"

definition lockout_after :: "identities \<Rightarrow> authorisation \<Rightarrow> lockout option" where
  "lockout_after ids a =
     (let company = persons_for a Company in
      if \<exists>p \<in> set company. key_of ids p \<noteq> None then None
      else Some (map (\<lambda>p. (p, identities_get ids p \<noteq> None)) company))"

section \<open>The company\<close>

record record_ref =
  rr_height :: block_height
  rr_index :: u32
  rr_tx_id :: tx_id
  rr_signer :: public_key
  rr_record :: irena_record

record 'a in_force =
  if_value :: 'a
  if_tx_id :: tx_id
  if_height :: block_height
  if_notarisation :: notarisation
  if_supersedes :: "tx_id option"

definition from_record :: "record_ref \<Rightarrow> 'a \<Rightarrow> 'a in_force" where
  "from_record found v =
     \<lparr>if_value = v, if_tx_id = rr_tx_id found, if_height = rr_height found,
      if_notarisation = rc_notarisation (rr_record found), if_supersedes = rc_supersedes (rr_record found)\<rparr>"

record company_state =
  co_company :: company_id
  co_at :: block_height
  co_genesis_tx_id :: tx_id
  co_genesis_height :: block_height
  co_identity :: "identity in_force"
  co_shares :: "share_structure in_force"
  co_channels :: "decision_channels in_force"
  co_identities :: "identities in_force"
  co_authorisation :: "authorisation in_force"
  co_applied :: "record_ref list"

abbreviation ref_kind :: "record_ref \<Rightarrow> record_kind" where
  "ref_kind f \<equiv> record_kind_of (rr_record f)"

definition provider_of :: "company_state \<Rightarrow> record_kind \<Rightarrow> tx_id" where
  "provider_of s k = (case k of
     CompanyGenesis \<Rightarrow> co_genesis_tx_id s | Identity \<Rightarrow> if_tx_id (co_identity s)
   | ShareStructure \<Rightarrow> if_tx_id (co_shares s) | DecisionChannels \<Rightarrow> if_tx_id (co_channels s)
   | Identities \<Rightarrow> if_tx_id (co_identities s) | Authorisation \<Rightarrow> if_tx_id (co_authorisation s))"

definition history_of :: "company_state \<Rightarrow> record_kind \<Rightarrow> record_ref list" where
  "history_of s k = filter (\<lambda>f. ref_kind f = CompanyGenesis \<or> ref_kind f = k) (co_applied s)"

definition authorised_signer ::
    "company_state \<Rightarrow> record_family \<Rightarrow> public_key \<Rightarrow> (ledger_error, person) result" where
  "authorised_signer s family key =
     signer_of (if_value (co_identities s)) (if_value (co_authorisation s)) family key"

definition found_company :: "record_ref \<Rightarrow> (ledger_error, company_state) result" where
  "found_company found =
     (case rc_body (rr_record found) of
        BodyGenesis g \<Rightarrow>
          (case rc_supersedes (rr_record found) of
             Some i \<Rightarrow> Err (BrokenAmendmentChain (rc_company (rr_record found)) CompanyGenesis (rr_height found)
               (rr_tx_id found) None (Some i))
           | None \<Rightarrow>
               (case lockout_after (cg_identities g) (cg_authorisation g) of
                  Some detail \<Rightarrow> Err (LockoutAt (rr_height found) (rr_tx_id found) detail)
                | None \<Rightarrow> Ok \<lparr>co_company = rc_company (rr_record found), co_at = rr_height found,
                    co_genesis_tx_id = rr_tx_id found, co_genesis_height = rr_height found,
                    co_identity = from_record found (cg_identity g), co_shares = from_record found (cg_shares g),
                    co_channels = from_record found (cg_channels g),
                    co_identities = from_record found (cg_identities g),
                    co_authorisation = from_record found (cg_authorisation g), co_applied = [found]\<rparr>))
      | _ \<Rightarrow> Err (NoGenesisFirst (rr_height found) (rr_tx_id found) (ref_kind found)))"

text \<open>The \<open>match\<close> of \<open>apply\<close> on the body; its last arm is \<open>unreachable!\<close>.\<close>

definition amend_part :: "company_state \<Rightarrow> record_ref \<Rightarrow> (ledger_error, company_state) result" where
  "amend_part s found =
     (case rc_body (rr_record found) of
        BodyIdentity v \<Rightarrow> Ok (s\<lparr>co_identity := from_record found v\<rparr>)
      | BodyShares v \<Rightarrow> Ok (s\<lparr>co_shares := from_record found v\<rparr>)
      | BodyChannels v \<Rightarrow> Ok (s\<lparr>co_channels := from_record found v\<rparr>)
      | BodyIdentities v \<Rightarrow> Ok (s\<lparr>co_identities := from_record found v\<rparr>)
      | BodyAuthorisation v \<Rightarrow> Ok (s\<lparr>co_authorisation := from_record found v\<rparr>)
      | BodyGenesis _ \<Rightarrow> Panic)"

definition apply_record :: "company_state \<Rightarrow> record_ref \<Rightarrow> (ledger_error, company_state) result" where
  "apply_record s found =
     (let kind = ref_kind found; expected = provider_of s kind in
      if rc_company (rr_record found) \<noteq> co_company s
      then Err (ForeignCompany (co_company s) (rc_company (rr_record found)) (rr_height found) (rr_tx_id found))
      else if kind = CompanyGenesis then Err (SecondGenesis (co_genesis_tx_id s) (rr_height found) (rr_tx_id found))
      else case authorised_signer s Company (rr_signer found) of
        Err (UnauthorisedSigner _ _ detail) \<Rightarrow>
          Err (UnauthorisedRecord (rr_height found) (rr_tx_id found) kind (rr_signer found) detail)
      | _ \<Rightarrow>
          if rc_supersedes (rr_record found) \<noteq> Some expected
          then Err (BrokenAmendmentChain (co_company s) kind (rr_height found) (rr_tx_id found) (Some expected)
                 (rc_supersedes (rr_record found)))
          else rbind (amend_part s found) (\<lambda>s'.
            case lockout_after (if_value (co_identities s')) (if_value (co_authorisation s')) of
              Some detail \<Rightarrow> Err (LockoutAt (rr_height found) (rr_tx_id found) detail)
            | None \<Rightarrow> Ok (s'\<lparr>co_applied := co_applied s' @ [found]\<rparr>)))"

section \<open>Reconstruction\<close>

definition kind_of_namespace :: "string \<Rightarrow> string option" where
  "kind_of_namespace ns = find (\<lambda>candidate. candidate = ns) (map kind_namespace ALL_KINDS)"

text \<open>One transaction of a block: not Irena's, a record, or an error.\<close>

definition read_entry ::
    "(string \<Rightarrow> xml_reader) \<Rightarrow> (string \<Rightarrow> bytes option) \<Rightarrow> block_height \<Rightarrow> nat \<times> transaction
      \<Rightarrow> (ledger_error, record_ref option) result" where
  "read_entry tok hexd height entry =
     (case entry of (index, t) \<Rightarrow>
      (case kind_of_namespace (namespace_str (t_namespace t)) of
        None \<Rightarrow> Ok None
      | Some kind \<Rightarrow>
          (let unreadable = UnreadableRecord height (t_id t) (t_namespace t) in
           if \<not> utf8_valid (t_payload t) then Err (unreadable PayloadNotUtf8)
           else rbind (rmap_err (\<lambda>e. unreadable (NotARecord e)) (read_record tok hexd (text_of_bytes (t_payload t)))) (\<lambda>r.
             if kind_namespace (record_kind_of r) \<noteq> kind
             then Err (unreadable (WrongNamespace (record_kind_of r) (t_namespace t)))
             else rbind (ok_or (LedgerMalformed (TooManyInBlock height)) (try_from_nat index)) (\<lambda>i.
               Ok (Some \<lparr>rr_height = height, rr_index = i, rr_tx_id = t_id t, rr_signer = t_signer t, rr_record = r\<rparr>))))))"

definition take_record :: "company_state option \<Rightarrow> record_ref \<Rightarrow> (ledger_error, company_state option) result" where
  "take_record state found =
     rbind (case state of None \<Rightarrow> found_company found | Some s \<Rightarrow> apply_record s found) (\<lambda>s. Ok (Some s))"

definition scan_block ::
    "(string \<Rightarrow> xml_reader) \<Rightarrow> (string \<Rightarrow> bytes option) \<Rightarrow> company_state option \<Rightarrow> block
      \<Rightarrow> (ledger_error, company_state option) result" where
  "scan_block tok hexd state b =
     try_fold (\<lambda>state entry. rbind (read_entry tok hexd (h_height (b_header b)) entry) (\<lambda>found.
       case found of None \<Rightarrow> Ok state | Some f \<Rightarrow> take_record state f)) state (List.enumerate 0 (b_transactions b))"

definition reconstruct ::
    "(string \<Rightarrow> xml_reader) \<Rightarrow> (string \<Rightarrow> bytes option) \<Rightarrow> (bytes \<Rightarrow> (block \<times> bytes) option) \<Rightarrow> chain_store
      \<Rightarrow> block_height \<Rightarrow> (ledger_error, company_state) result" where
  "reconstruct tok hexd de st at =
     rbind (rmap_err LedgerStore (store_head st)) (\<lambda>head.
     let upto = min at (head_height head) in
     rbind (try_fold (\<lambda>state b. rbind (rmap_err LedgerStore b) (scan_block tok hexd state)) None
              (iter_blocks de st GENESIS upto)) (\<lambda>state.
     rbind (ok_or (NoCompany upto) state) (\<lambda>s. Ok (s\<lparr>co_at := at\<rparr>))))"

definition company_now ::
    "(string \<Rightarrow> xml_reader) \<Rightarrow> (string \<Rightarrow> bytes option) \<Rightarrow> (bytes \<Rightarrow> (block \<times> bytes) option) \<Rightarrow> chain_store
      \<Rightarrow> (ledger_error, company_state) result" where
  "company_now tok hexd de st =
     rbind (rmap_err LedgerStore (store_head st)) (\<lambda>head. reconstruct tok hexd de st (head_height head))"

definition company_history ::
    "(string \<Rightarrow> xml_reader) \<Rightarrow> (string \<Rightarrow> bytes option) \<Rightarrow> (bytes \<Rightarrow> (block \<times> bytes) option) \<Rightarrow> chain_store
      \<Rightarrow> record_kind \<Rightarrow> block_height \<Rightarrow> (ledger_error, record_ref list) result" where
  "company_history tok hexd de st kind at = rbind (reconstruct tok hexd de st at) (\<lambda>s. Ok (history_of s kind))"

section \<open>Founding and amending\<close>

definition transaction_for ::
    "crypto \<Rightarrow> digest \<Rightarrow> record_kind \<Rightarrow> string \<Rightarrow> u64 \<Rightarrow> (ledger_error, transaction) result" where
  "transaction_for cr seed kind payload nonce =
     rbind (rmap_err LedgerCore (namespace_new (kind_namespace kind))) (\<lambda>ns.
     Ok (sign_transaction cr seed
       \<lparr>d_namespace = ns, d_schema_version = RECORD_SCHEMA_VERSION, d_payload = str_bytes payload,
        d_signer = ed_public cr seed, d_nonce = nonce\<rparr>))"

definition genesis_with_company ::
    "(string \<Rightarrow> xml_reader) \<Rightarrow> (string \<Rightarrow> bytes option) \<Rightarrow> crypto \<Rightarrow> network_id \<Rightarrow> digest \<Rightarrow> company_id \<Rightarrow> string
      \<Rightarrow> notarisation \<Rightarrow> u64 \<Rightarrow> (ledger_error, genesis_spec) result" where
  "genesis_with_company tok hexd cr network seed company xml n ms =
     rbind (rmap_err LedgerRecord (read_company_genesis_document tok hexd xml)) (\<lambda>g.
     case lockout_after (cg_identities g) (cg_authorisation g) of
       Some detail \<Rightarrow> Err (LockedOut detail)
     | None \<Rightarrow>
         rbind (rmap_err LedgerRecord (compose_record tok hexd CompanyGenesis company None n xml)) (\<lambda>payload.
         rbind (transaction_for cr seed CompanyGenesis payload 0) (\<lambda>t.
         Ok \<lparr>gs_network_id = network, gs_timestamp_millis = ms, gs_transactions = [t]\<rparr>)))"

text \<open>The \<open>match\<close> of \<open>publish\<close> on the body it is about to publish.\<close>

definition lockout_of_amendment :: "company_state \<Rightarrow> record_body \<Rightarrow> lockout option" where
  "lockout_of_amendment s body =
     (case body of
        BodyIdentities ids \<Rightarrow> lockout_after ids (if_value (co_authorisation s))
      | BodyAuthorisation a \<Rightarrow> lockout_after (if_value (co_identities s)) a
      | _ \<Rightarrow> None)"

text \<open>What \<open>publish\<close> does before it writes: the block it is about to append, and where.\<close>

definition publish_draft ::
    "(string \<Rightarrow> xml_reader) \<Rightarrow> (string \<Rightarrow> bytes option) \<Rightarrow> crypto \<Rightarrow> (bytes \<Rightarrow> (block \<times> bytes) option)
      \<Rightarrow> chain_store \<Rightarrow> digest \<Rightarrow> record_kind \<Rightarrow> string \<Rightarrow> tx_id option \<Rightarrow> notarisation \<Rightarrow> u64
      \<Rightarrow> (ledger_error, block \<times> tx_id \<times> block_height) result" where
  "publish_draft tok hexd cr de st seed kind body supersedes n ms =
     (if kind = CompanyGenesis then Err (LedgerMalformed FoundedOnce)
      else
        rbind (company_now tok hexd de st) (\<lambda>s.
        rbind (authorised_signer s Company (ed_public cr seed)) (\<lambda>_.
        if supersedes \<noteq> Some (provider_of s kind) then Err (StaleAmendment kind (provider_of s kind) supersedes)
        else
          rbind (rmap_err LedgerRecord (compose_record tok hexd kind (co_company s) supersedes n body)) (\<lambda>payload.
          rbind (rmap_err LedgerRecord (read_record tok hexd payload)) (\<lambda>r.
          case lockout_of_amendment s (rc_body r) of
            Some detail \<Rightarrow> Err (LockedOut detail)
          | None \<Rightarrow>
              rbind (rmap_err LedgerStore (store_head st)) (\<lambda>head.
              rbind (rmap_err LedgerStore (get_block de st (head_height head))) (\<lambda>found.
              rbind (ok_or (LedgerMalformed (NoHeadBlock head)) found) (\<lambda>parent.
              rbind (rmap_err LedgerCore (height_next (head_height head))) (\<lambda>height.
              rbind (transaction_for cr seed kind payload height) (\<lambda>t.
              rbind (rmap_err LedgerCore (rbind (child_draft cr (b_header parent) [t] ms) (draft_build cr))) (\<lambda>b.
              Ok (b, t_id t, height))))))))))))"

text \<open>The store after the call, and what the call returned; \<open>io\<close> says whether the commit goes through.\<close>

definition publish ::
    "(string \<Rightarrow> xml_reader) \<Rightarrow> (string \<Rightarrow> bytes option) \<Rightarrow> crypto \<Rightarrow> (bytes \<Rightarrow> (block \<times> bytes) option) \<Rightarrow> bool
      \<Rightarrow> chain_store \<Rightarrow> digest \<Rightarrow> record_kind \<Rightarrow> string \<Rightarrow> tx_id option \<Rightarrow> notarisation \<Rightarrow> u64
      \<Rightarrow> chain_store \<times> (ledger_error, record_ref) result" where
  "publish tok hexd cr de io st seed kind body supersedes n ms =
     (case publish_draft tok hexd cr de st seed kind body supersedes n ms of
        Err e \<Rightarrow> (st, Err e)
      | Panic \<Rightarrow> (st, Panic)
      | Ok (b, i, height) \<Rightarrow>
          (case append_block cr de io st b of
             (st', Err e) \<Rightarrow> (st', Err (LedgerStore e))
           | (st', Panic) \<Rightarrow> (st', Panic)
           | (st', Ok _) \<Rightarrow>
               (st', rbind (rmap_err LedgerStore (get_transaction de st' i)) (\<lambda>found.
                     rbind (ok_or (LedgerMalformed (NotReadBack i)) found) (\<lambda>c.
                     if \<not> utf8_valid (t_payload (lt_transaction c)) then Err (LedgerMalformed ComposedNotUtf8)
                     else rbind (rmap_err LedgerRecord (read_record tok hexd (text_of_bytes (t_payload (lt_transaction c))))) (\<lambda>r.
                       Ok \<lparr>rr_height = height, rr_index = lt_index c, rr_tx_id = i, rr_signer = ed_public cr seed,
                           rr_record = r\<rparr>))))))"

section \<open>States replayed from a log\<close>

text \<open>
  A state that is never edited but replayed: the first entry of the log founds it, every later one is
  applied to the state before it. \<open>replayed\<close> is the contract of an invariant that relates the log to
  the state; the lemma inside says that every successful replay has it.
\<close>

definition replay_step :: "('r \<Rightarrow> ('e, 's) result) \<Rightarrow> ('s \<Rightarrow> 'r \<Rightarrow> ('e, 's) result) \<Rightarrow> 's option \<Rightarrow> 'r \<Rightarrow> ('e, 's option) result" where
  "replay_step found advance state r =
     rbind (case state of None \<Rightarrow> found r | Some s \<Rightarrow> advance s r) (\<lambda>s. Ok (Some s))"

definition replay :: "('r \<Rightarrow> ('e, 's) result) \<Rightarrow> ('s \<Rightarrow> 'r \<Rightarrow> ('e, 's) result) \<Rightarrow> 'r list \<Rightarrow> ('e, 's option) result" where
  "replay found advance rs = try_fold (replay_step found advance) None rs"

lemma replay_Nil [simp]: "replay found advance [] = Ok None"
  by (simp add: replay_def)

lemma rbind_Ok_right [simp]: "rbind x Ok = x"
  by (cases x) simp_all

lemma replay_snoc: "replay found advance (rs @ [r]) = rbind (replay found advance rs) (\<lambda>state. replay_step found advance state r)"
  by (simp add: replay_def try_fold_append)

locale replayed =
  fixes found :: "'r \<Rightarrow> ('e, 's) result" and advance :: "'s \<Rightarrow> 'r \<Rightarrow> ('e, 's) result"
    and inv :: "'r list \<Rightarrow> 's \<Rightarrow> bool"
  assumes founded: "found r = Ok s \<Longrightarrow> inv [r] s"
    and advanced: "inv rs s \<Longrightarrow> rs \<noteq> [] \<Longrightarrow> advance s r = Ok s' \<Longrightarrow> inv (rs @ [r]) s'"
begin

lemma replay_some: "replay found advance rs = Ok state \<Longrightarrow> (state = None \<longleftrightarrow> rs = [])"
  by (cases rs rule: rev_cases) (auto simp: replay_snoc replay_step_def result_simps)

lemma replay_inv: "replay found advance rs = Ok (Some s) \<Longrightarrow> inv rs s"
proof (induction rs arbitrary: s rule: rev_induct)
  case (snoc r rs)
  then obtain state where state: "replay found advance rs = Ok state" "replay_step found advance state r = Ok (Some s)"
    by (auto simp: replay_snoc result_simps)
  show ?case
  proof (cases state)
    case None
    then show ?thesis using state replay_some [OF state(1)] founded by (auto simp: replay_step_def result_simps)
  next
    case (Some t)
    then have "inv rs t" "rs \<noteq> []" "advance t r = Ok s"
      using state snoc.IH replay_some [OF state(1)] by (auto simp: replay_step_def result_simps)
    then show ?thesis by (rule advanced)
  qed
qed simp

end

abbreviation replay_company :: "record_ref list \<Rightarrow> (ledger_error, company_state option) result" where
  "replay_company \<equiv> replay found_company apply_record"

lemma take_record_step: "take_record = replay_step found_company apply_record"
  by (intro ext) (simp add: take_record_def replay_step_def)

section \<open>Applying an amendment\<close>

lemma signer_of_Ok_iff:
  "signer_of ids a family key = Ok p \<longleftrightarrow> holder_of ids key = Some p \<and> allows a (pn_id p) family"
  by (auto simp: signer_of_def split: option.splits)

lemma signer_of_result:
  obtains p where "signer_of ids a family key = Ok p" | d where "signer_of ids a family key = Err (UnauthorisedSigner family key d)"
  by (cases "holder_of ids key"; cases "signer_of ids a family key") (auto simp: signer_of_def split: if_splits)

lemma amend_part_applied: "amend_part s f = Ok s' \<Longrightarrow> co_applied s' = co_applied s \<and> co_company s' = co_company s
    \<and> co_genesis_tx_id s' = co_genesis_tx_id s \<and> co_genesis_height s' = co_genesis_height s \<and> co_at s' = co_at s"
  by (cases "rc_body (rr_record f)") (auto simp: amend_part_def)

lemma amend_part_no_Panic: "ref_kind f \<noteq> CompanyGenesis \<Longrightarrow> \<exists>s'. amend_part s f = Ok s'"
  by (cases "rc_body (rr_record f)") (simp_all add: amend_part_def record_kind_of_def body_kind_def)

text \<open>The rule of an amendment, as the README states it.\<close>

definition amends :: "company_state \<Rightarrow> record_ref \<Rightarrow> company_state \<Rightarrow> bool" where
  "amends s f s' \<longleftrightarrow>
     rc_company (rr_record f) = co_company s \<and> ref_kind f \<noteq> CompanyGenesis \<and>
     (\<exists>p. authorised_signer s Company (rr_signer f) = Ok p) \<and>
     rc_supersedes (rr_record f) = Some (provider_of s (ref_kind f)) \<and>
     (\<exists>t. amend_part s f = Ok t \<and> s' = t\<lparr>co_applied := co_applied s @ [f]\<rparr>) \<and>
     lockout_after (if_value (co_identities s')) (if_value (co_authorisation s')) = None"

lemma apply_record_Ok_iff: "apply_record s f = Ok s' \<longleftrightarrow> amends s f s'"
proof (cases "rc_company (rr_record f) = co_company s \<and> ref_kind f \<noteq> CompanyGenesis")
  case True
  then obtain t where t: "amend_part s f = Ok t" using amend_part_no_Panic by blast
  note same = amend_part_applied [OF t]
  show ?thesis
    unfolding authorised_signer_def
  proof (rule signer_of_result [of "if_value (co_identities s)" "if_value (co_authorisation s)" Company "rr_signer f"])
    fix p
    assume "signer_of (if_value (co_identities s)) (if_value (co_authorisation s)) Company (rr_signer f) = Ok p"
    then show ?thesis
      using True t same
      by (auto simp: apply_record_def amends_def Let_def authorised_signer_def split: option.splits)
  next
    fix d
    assume "signer_of (if_value (co_identities s)) (if_value (co_authorisation s)) Company (rr_signer f)
      = Err (UnauthorisedSigner Company (rr_signer f) d)"
    then show ?thesis
      using True by (auto simp: apply_record_def amends_def Let_def authorised_signer_def)
  qed
qed (auto simp: apply_record_def amends_def Let_def)

lemma found_company_Ok_iff:
  "found_company f = Ok s \<longleftrightarrow> (\<exists>g. rc_body (rr_record f) = BodyGenesis g \<and> rc_supersedes (rr_record f) = None \<and>
     lockout_after (cg_identities g) (cg_authorisation g) = None \<and>
     s = \<lparr>co_company = rc_company (rr_record f), co_at = rr_height f, co_genesis_tx_id = rr_tx_id f,
          co_genesis_height = rr_height f, co_identity = from_record f (cg_identity g),
          co_shares = from_record f (cg_shares g), co_channels = from_record f (cg_channels g),
          co_identities = from_record f (cg_identities g), co_authorisation = from_record f (cg_authorisation g),
          co_applied = [f]\<rparr>)"
proof (cases "rc_body (rr_record f)")
  case (BodyGenesis g)
  then show ?thesis
    by (cases "rc_supersedes (rr_record f)"; cases "lockout_after (cg_identities g) (cg_authorisation g)")
      (simp_all add: found_company_def eq_commute [of s])
qed (simp_all add: found_company_def)

lemma apply_record_no_Panic: "apply_record s f \<noteq> Panic"
proof (cases "ref_kind f = CompanyGenesis")
  case True
  then show ?thesis by (simp add: apply_record_def Let_def)
next
  case False
  then obtain t where "amend_part s f = Ok t" using amend_part_no_Panic by blast
  then show ?thesis
    by (auto simp: apply_record_def Let_def split: option.splits result.splits ledger_error.splits)
qed

lemma found_company_no_Panic: "found_company f \<noteq> Panic"
  by (simp add: found_company_def split: record_body.splits option.splits)

section \<open>Reconstruction replays the records of the chain\<close>

fun read_all :: "('x \<Rightarrow> ('e, 'a option) result) \<Rightarrow> 'x list \<Rightarrow> ('e, 'a list) result" where
  "read_all f [] = Ok []"
| "read_all f (x # xs) =
     rbind (f x) (\<lambda>a. rbind (read_all f xs) (\<lambda>rest. Ok (case a of None \<Rightarrow> rest | Some a \<Rightarrow> a # rest)))"

lemma read_all_append: "read_all f (xs @ ys) = Ok zs \<longleftrightarrow> (\<exists>as bs. read_all f xs = Ok as \<and> read_all f ys = Ok bs \<and> zs = as @ bs)"
proof (induction xs arbitrary: zs)
  case (Cons x xs)
  show ?case by (cases "f x") (auto simp: result_simps Cons.IH split: option.splits)
qed simp

lemma read_all_set: "read_all f xs = Ok as \<Longrightarrow> a \<in> set as \<Longrightarrow> \<exists>x \<in> set xs. f x = Ok (Some a)"
  by (induction xs arbitrary: as) (auto simp: result_simps split: option.splits)

text \<open>Reading and folding in one pass, or one after the other.\<close>

lemma try_fold_read_all:
  "try_fold (\<lambda>s x. rbind (f x) (\<lambda>a. case a of None \<Rightarrow> Ok s | Some a \<Rightarrow> g s a)) s xs = Ok s' \<longleftrightarrow>
     (\<exists>as. read_all f xs = Ok as \<and> try_fold g s as = Ok s')"
proof (induction xs arbitrary: s)
  case (Cons x xs)
  show ?case
  proof (cases "f x")
    case (Ok a)
    then show ?thesis by (cases a) (auto simp: Cons.IH result_simps)
  qed simp_all
qed simp

lemma try_fold_concat: "try_fold (\<lambda>s x. try_fold f s (h x)) s xs = try_fold f s (concat (map h xs))"
  by (induction xs arbitrary: s) (simp_all add: try_fold_append)

lemma try_fold_map_Ok: "try_fold (\<lambda>s x. rbind (rmap_err e x) (f s)) s (map Ok xs) = try_fold f s xs"
  by (induction xs arbitrary: s) simp_all

text \<open>The transactions of a list of blocks, with the height and the position of each.\<close>

definition chain_entries :: "block list \<Rightarrow> (block_height \<times> nat \<times> transaction) list" where
  "chain_entries bs = concat (map (\<lambda>b. map (\<lambda>e. (h_height (b_header b), e)) (List.enumerate 0 (b_transactions b))) bs)"

definition chain_records ::
    "(string \<Rightarrow> xml_reader) \<Rightarrow> (string \<Rightarrow> bytes option) \<Rightarrow> block list \<Rightarrow> (ledger_error, record_ref list) result" where
  "chain_records tok hexd bs = read_all (\<lambda>(h, e). read_entry tok hexd h e) (chain_entries bs)"

lemma chain_entries_append [simp]: "chain_entries (bs @ cs) = chain_entries bs @ chain_entries cs"
  by (simp add: chain_entries_def)

lemma chain_entries_iff:
  "(h, i, t) \<in> set (chain_entries bs) \<longleftrightarrow>
     (\<exists>b \<in> set bs. h = h_height (b_header b) \<and> i < length (b_transactions b) \<and> t = b_transactions b ! i)"
  by (auto simp: chain_entries_def in_set_enumerate_eq image_iff)

lemma try_fold_map: "try_fold f s (map g xs) = try_fold (\<lambda>s x. f s (g x)) s xs"
  by (induction xs arbitrary: s) simp_all

lemma scan_blocks:
  "try_fold (scan_block tok hexd) None bs = Ok state \<longleftrightarrow>
     (\<exists>rs. chain_records tok hexd bs = Ok rs \<and> replay_company rs = Ok state)"
proof -
  let ?g = "\<lambda>state (h, e). rbind (read_entry tok hexd h e) (\<lambda>a. case a of None \<Rightarrow> Ok state | Some a \<Rightarrow> take_record state a)"
  have "scan_block tok hexd = (\<lambda>s b. try_fold ?g s (map (\<lambda>e. (h_height (b_header b), e)) (List.enumerate 0 (b_transactions b))))"
    by (intro ext) (simp add: scan_block_def try_fold_map)
  then have "try_fold (scan_block tok hexd) None bs = try_fold ?g None (chain_entries bs)"
    by (simp only: try_fold_concat chain_entries_def)
  also have "?g = (\<lambda>s x. rbind (case x of (h, e) \<Rightarrow> read_entry tok hexd h e)
      (\<lambda>a. case a of None \<Rightarrow> Ok s | Some a \<Rightarrow> take_record s a))"
    by (intro ext) (simp add: case_prod_unfold)
  finally show ?thesis
    by (simp only: try_fold_read_all chain_records_def replay_def take_record_step)
qed

definition upto :: "block_height \<Rightarrow> block list \<Rightarrow> block list" where
  "upto at bs = take (Suc (unat at)) bs"

lemma reconstruct_represents:
  assumes de: "decodes_blocks de" and rep: "represents cr bs st"
  shows "reconstruct tok hexd de st at =
    rbind (try_fold (scan_block tok hexd) None (upto at bs)) (\<lambda>state.
    rbind (ok_or (NoCompany (min at (head_height (head_of cr bs)))) state) (\<lambda>s. Ok (s\<lparr>co_at := at\<rparr>)))"
proof -
  let ?e = "min at (head_height (head_of cr bs))"
  have e: "unat ?e = min (unat at) (length bs - 1)"
    using head_height_represents(1) [OF rep] by (simp add: min_def word_le_nat_alt)
  then have "unat ?e < length bs" using head_height_represents(2) [OF rep] by (cases bs) auto
  moreover have "take (Suc (unat ?e)) bs = upto at bs"
    using e head_height_represents(2) [OF rep] unfolding upto_def by (cases "unat at < length bs") auto
  ultimately have "iter_blocks de st GENESIS ?e = map Ok (upto at bs)"
    using block_range_represents [OF de rep, of GENESIS ?e] by (simp add: iter_blocks_def GENESIS_def)
  then show ?thesis
    by (simp add: reconstruct_def store_head_def read_head_represents [OF rep] Let_def try_fold_map_Ok)
qed

lemma reconstruct_Ok_iff:
  assumes "decodes_blocks de" and "represents cr bs st"
  shows "reconstruct tok hexd de st at = Ok s \<longleftrightarrow>
    (\<exists>rs s0. chain_records tok hexd (upto at bs) = Ok rs \<and> replay_company rs = Ok (Some s0) \<and> s = s0\<lparr>co_at := at\<rparr>)"
  unfolding reconstruct_represents [OF assms]
  by (auto simp: result_simps scan_blocks)

lemma company_now_represents:
  assumes "decodes_blocks de" and "represents cr bs st"
  shows "company_now tok hexd de st = reconstruct tok hexd de st (head_height (head_of cr bs))"
  by (simp add: company_now_def store_head_def read_head_represents [OF assms(2)])

lemma upto_head: "represents cr bs st \<Longrightarrow> upto (head_height (head_of cr bs)) bs = bs"
  using head_height_represents [of cr bs st] by (simp add: upto_def)

lemma company_now_Ok_iff:
  assumes "decodes_blocks de" and "represents cr bs st"
  shows "company_now tok hexd de st = Ok s \<longleftrightarrow>
    (\<exists>rs s0. chain_records tok hexd bs = Ok rs \<and> replay_company rs = Ok (Some s0) \<and>
      s = s0\<lparr>co_at := head_height (head_of cr bs)\<rparr>)"
  by (simp add: company_now_represents [OF assms] reconstruct_Ok_iff [OF assms] upto_head [OF assms(2)])

section \<open>What a record on the chain is\<close>

lemma kind_of_namespace_Some: "kind_of_namespace (kind_namespace k) = Some (kind_namespace k)"
  by (cases k) (simp_all add: kind_of_namespace_def ALL_KINDS_def kind_namespace_def)

lemma kind_of_namespace_iff: "kind_of_namespace ns = Some c \<longleftrightarrow> c = ns \<and> (\<exists>k. ns = kind_namespace k)"
proof
  assume *: "kind_of_namespace ns = Some c"
  then have "c = ns \<and> c \<in> set (map kind_namespace ALL_KINDS)"
    by (auto simp: kind_of_namespace_def find_Some_iff)
  then show "c = ns \<and> (\<exists>k. ns = kind_namespace k)" by auto
qed (auto simp: kind_of_namespace_Some)

lemma read_entry_Some_iff:
  "read_entry tok hexd h (i, t) = Ok (Some f) \<longleftrightarrow>
     i < 2 ^ 32 \<and> utf8_valid (t_payload t) \<and> namespace_str (t_namespace t) = kind_namespace (ref_kind f) \<and>
     read_record tok hexd (text_of_bytes (t_payload t)) = Ok (rr_record f) \<and>
     rr_height f = h \<and> rr_index f = word_of_nat i \<and> rr_tx_id f = t_id t \<and> rr_signer f = t_signer t"
  (is "?L \<longleftrightarrow> ?R")
proof
  assume L: ?L
  then obtain kind where k: "kind_of_namespace (namespace_str (t_namespace t)) = Some kind"
    by (auto simp: read_entry_def split: option.splits)
  then have "kind = namespace_str (t_namespace t)" by (simp add: kind_of_namespace_iff)
  then show ?R
    using L k by (auto simp: read_entry_def Let_def result_simps try_from_nat_def split: if_splits)
next
  assume R: ?R
  then have "kind_of_namespace (namespace_str (t_namespace t)) = Some (namespace_str (t_namespace t))"
    using kind_of_namespace_Some by metis
  moreover have "f = \<lparr>rr_height = h, rr_index = word_of_nat i, rr_tx_id = t_id t, rr_signer = t_signer t, rr_record = rr_record f\<rparr>"
    using R by (cases f) simp
  ultimately show ?L using R by (simp add: read_entry_def Let_def try_from_nat_def)
qed

text \<open>The transaction a record comes from.\<close>

lemma chain_records_source:
  assumes "chain_records tok hexd bs = Ok rs" and "f \<in> set rs"
  obtains b i where "b \<in> set bs" "i < length (b_transactions b)" "rr_height f = h_height (b_header b)"
    "rr_index f = word_of_nat i" "rr_tx_id f = t_id (b_transactions b ! i)" "rr_signer f = t_signer (b_transactions b ! i)"
    "read_record tok hexd (text_of_bytes (t_payload (b_transactions b ! i))) = Ok (rr_record f)" "i < 2 ^ 32"
    "namespace_str (t_namespace (b_transactions b ! i)) = kind_namespace (ref_kind f)"
proof -
  from read_all_set [OF assms(1) [unfolded chain_records_def] assms(2)] obtain h i t where
    *: "(h, i, t) \<in> set (chain_entries bs)" "read_entry tok hexd h (i, t) = Ok (Some f)" by auto
  then obtain b where "b \<in> set bs" "h = h_height (b_header b)" "i < length (b_transactions b)" "t = b_transactions b ! i"
    by (auto simp: chain_entries_iff)
  then show thesis using that * by (auto simp: read_entry_Some_iff)
qed

lemma chain_records_wf: "chain_records tok hexd bs = Ok rs \<Longrightarrow> f \<in> set rs \<Longrightarrow> wf_body (rc_body (rr_record f))"
  using read_record_valid by (metis chain_records_source rvalid_simps(1))

section \<open>The invariant of a company\<close>

text \<open>The five parts as record bodies, and what the body of a record says about a part.\<close>

definition lifted :: "('a \<Rightarrow> record_body) \<Rightarrow> 'a in_force \<Rightarrow> record_body in_force" where
  "lifted c p = \<lparr>if_value = c (if_value p), if_tx_id = if_tx_id p, if_height = if_height p,
     if_notarisation = if_notarisation p, if_supersedes = if_supersedes p\<rparr>"

definition part_of :: "company_state \<Rightarrow> record_kind \<Rightarrow> record_body in_force option" where
  "part_of s k = (case k of
     CompanyGenesis \<Rightarrow> None | Identity \<Rightarrow> Some (lifted BodyIdentity (co_identity s))
   | ShareStructure \<Rightarrow> Some (lifted BodyShares (co_shares s))
   | DecisionChannels \<Rightarrow> Some (lifted BodyChannels (co_channels s))
   | Identities \<Rightarrow> Some (lifted BodyIdentities (co_identities s))
   | Authorisation \<Rightarrow> Some (lifted BodyAuthorisation (co_authorisation s)))"

definition carried :: "record_kind \<Rightarrow> record_body \<Rightarrow> record_body option" where
  "carried k b = (case b of
     BodyGenesis g \<Rightarrow> (case k of
         CompanyGenesis \<Rightarrow> None | Identity \<Rightarrow> Some (BodyIdentity (cg_identity g))
       | ShareStructure \<Rightarrow> Some (BodyShares (cg_shares g)) | DecisionChannels \<Rightarrow> Some (BodyChannels (cg_channels g))
       | Identities \<Rightarrow> Some (BodyIdentities (cg_identities g))
       | Authorisation \<Rightarrow> Some (BodyAuthorisation (cg_authorisation g)))
   | _ \<Rightarrow> if body_kind b = k then Some b else None)"

definition provided :: "company_state \<Rightarrow> record_kind \<Rightarrow> record_ref \<Rightarrow> bool" where
  "provided s k f \<longleftrightarrow> provider_of s k = rr_tx_id f \<and> part_of s k = map_option (from_record f) (carried k (rc_body (rr_record f)))"

definition not_locked_out :: "company_state \<Rightarrow> bool" where
  "not_locked_out s \<longleftrightarrow> lockout_after (if_value (co_identities s)) (if_value (co_authorisation s)) = None"

abbreviation supersedes_of :: "record_ref \<Rightarrow> tx_id option" where
  "supersedes_of f \<equiv> rc_supersedes (rr_record f)"

definition company_inv :: "record_ref list \<Rightarrow> company_state \<Rightarrow> bool" where
  "company_inv rs s \<longleftrightarrow>
     co_applied s = rs \<and> rs \<noteq> [] \<and> ref_kind (hd rs) = CompanyGenesis \<and> supersedes_of (hd rs) = None \<and>
     co_genesis_tx_id s = rr_tx_id (hd rs) \<and> co_genesis_height s = rr_height (hd rs) \<and>
     (\<forall>f \<in> set (tl rs). ref_kind f \<noteq> CompanyGenesis) \<and> (\<forall>f \<in> set rs. rc_company (rr_record f) = co_company s) \<and>
     not_locked_out s \<and>
     (\<forall>k. history_of s k \<noteq> [] \<and> provided s k (last (history_of s k)) \<and>
       successively (\<lambda>f g. supersedes_of g = Some (rr_tx_id f)) (history_of s k))"

lemma provider_of_part: "k \<noteq> CompanyGenesis \<Longrightarrow> part_of s k = Some p \<Longrightarrow> provider_of s k = if_tx_id p"
  by (cases k) (auto simp: part_of_def provider_of_def lifted_def)

lemma part_of_at [simp]: "part_of (s\<lparr>co_at := h\<rparr>) k = part_of s k" "provider_of (s\<lparr>co_at := h\<rparr>) k = provider_of s k"
  "part_of (s\<lparr>co_applied := rs\<rparr>) k = part_of s k" "provider_of (s\<lparr>co_applied := rs\<rparr>) k = provider_of s k"
  by (cases k; simp add: part_of_def provider_of_def)+

lemma part_of_amended:
  assumes "amend_part s f = Ok t"
  shows "part_of t k = (if k = ref_kind f then Some (from_record f (rc_body (rr_record f))) else part_of s k)"
    "provider_of t k = (if k = ref_kind f then rr_tx_id f else provider_of s k)"
  using assms
  by (cases "rc_body (rr_record f)"; cases k;
      auto simp: amend_part_def part_of_def provider_of_def record_kind_of_def body_kind_def lifted_def from_record_def)+

lemma carried_amendment: "body_kind b \<noteq> CompanyGenesis \<Longrightarrow> carried k b = (if k = body_kind b then Some b else None)"
  by (cases b) (auto simp: carried_def body_kind_def)

lemma company_inv_founded:
  assumes "found_company f = Ok s"
  shows "company_inv [f] s"
proof -
  from assms obtain g where g: "rc_body (rr_record f) = BodyGenesis g" "supersedes_of f = None"
    "lockout_after (cg_identities g) (cg_authorisation g) = None"
    and s: "s = \<lparr>co_company = rc_company (rr_record f), co_at = rr_height f, co_genesis_tx_id = rr_tx_id f,
          co_genesis_height = rr_height f, co_identity = from_record f (cg_identity g),
          co_shares = from_record f (cg_shares g), co_channels = from_record f (cg_channels g),
          co_identities = from_record f (cg_identities g), co_authorisation = from_record f (cg_authorisation g),
          co_applied = [f]\<rparr>"
    unfolding found_company_Ok_iff by blast
  have k: "ref_kind f = CompanyGenesis" using g by (simp add: record_kind_of_def body_kind_def)
  then have "history_of s k = [f]" for k by (simp add: s history_of_def)
  moreover have "provided s k f" for k
    by (cases k) (simp_all add: provided_def part_of_def provider_of_def s g(1) carried_def lifted_def from_record_def)
  ultimately show ?thesis
    using g k by (simp add: company_inv_def s not_locked_out_def from_record_def)
qed

lemma company_inv_advanced:
  assumes "company_inv rs s" and "apply_record s f = Ok s'"
  shows "company_inv (rs @ [f]) s'"
proof -
  from assms(2) obtain t where f: "rc_company (rr_record f) = co_company s" "ref_kind f \<noteq> CompanyGenesis"
    "supersedes_of f = Some (provider_of s (ref_kind f))" "amend_part s f = Ok t"
    and s': "s' = t\<lparr>co_applied := co_applied s @ [f]\<rparr>" and lock: "not_locked_out s'"
    unfolding apply_record_Ok_iff amends_def not_locked_out_def by blast
  note same = amend_part_applied [OF f(4)]
  have h: "history_of s' k = history_of s k @ (if k = ref_kind f then [f] else [])" for k
    using f(2) by (simp add: history_of_def s')
  have "history_of s' k \<noteq> [] \<and> provided s' k (last (history_of s' k)) \<and>
      successively (\<lambda>f g. supersedes_of g = Some (rr_tx_id f)) (history_of s' k)" for k
  proof (cases "k = ref_kind f")
    case True
    have "provided s' k f"
      using True f(2) carried_amendment [of "rc_body (rr_record f)"]
      by (simp add: provided_def s' part_of_amended [OF f(4)] record_kind_of_def)
    moreover have "supersedes_of f = Some (rr_tx_id (last (history_of s k)))"
      using assms(1) f(3) True by (simp add: company_inv_def provided_def)
    ultimately show ?thesis
      using True assms(1) by (simp add: h successively_append_iff company_inv_def)
  next
    case False
    then have "part_of s' k = part_of s k" "provider_of s' k = provider_of s k"
      by (simp_all add: s' part_of_amended [OF f(4)])
    then show ?thesis using False assms(1) by (simp add: h company_inv_def provided_def)
  qed
  then show ?thesis
    using assms(1) f(1,2) same lock by (auto simp: company_inv_def s' hd_append tl_append split: list.splits)
qed

interpretation company_log: replayed found_company apply_record company_inv
  by unfold_locales (auto intro: company_inv_founded company_inv_advanced)

text \<open>Every amendment was signed by a person the company then named.\<close>

definition company_signed :: "record_ref list \<Rightarrow> company_state \<Rightarrow> bool" where
  "company_signed rs s \<longleftrightarrow> replay_company rs = Ok (Some s) \<and>
     (\<forall>i. 0 < i \<longrightarrow> i < length rs \<longrightarrow> (\<exists>t. replay_company (take i rs) = Ok (Some t) \<and> (\<exists>u. amends t (rs ! i) u)))"

interpretation company_signers: replayed found_company apply_record company_signed
proof unfold_locales
  fix f s
  assume "found_company f = Ok s"
  then show "company_signed [f] s" by (simp add: company_signed_def replay_def replay_step_def)
next
  fix rs s f s'
  assume *: "company_signed rs s" "rs \<noteq> []" "apply_record s f = Ok s'"
  then have "replay_company (rs @ [f]) = Ok (Some s')" by (simp add: company_signed_def replay_snoc replay_step_def)
  moreover have "amends s f s'" using *(3) by (simp add: apply_record_Ok_iff)
  ultimately show "company_signed (rs @ [f]) s'"
    using *(1) unfolding company_signed_def by (auto simp: nth_append less_Suc_eq)
qed

end
