(* ===== verification/Irena_Frames.thy ===== *)
theory Irena_Frames
  imports Irena_Readers
begin

text \<open>
  A record carries its body verbatim, so its reader meets the same events that the reader of the body's own
  document meets, at other positions and with other events behind them. The lemmas show that this makes no
  difference: every reader of the founding record, whether it returns a value or a list of issues, has
  consumed exactly one element and decides on its events alone. \<open>embedded\<close> states what quick-xml does with
  a text that stands inside another, and \<open>embedded_genesis\<close> concludes that the record holds the very company
  that the standalone reader returns.
\<close>

section \<open>Events and settled results\<close>

text \<open>The events a reader has still to yield, without their positions.\<close>

abbreviation events :: "xml_reader \<Rightarrow> xml_event list" where
  "events r \<equiv> map fst (rd_rest r)"

text \<open>
  A result that does not depend on where in the document the element stands: a value, or a refusal that
  lists issues. Every other error names a position or is about the document as a whole.
\<close>

definition settled :: "('e \<Rightarrow> bool) \<Rightarrow> ('e, 'a) result \<Rightarrow> bool" where
  "settled E x = (case x of Ok _ \<Rightarrow> True | Err e \<Rightarrow> E e | Panic \<Rightarrow> False)"

lemma settled_simps [simp]: "settled E (Ok a)" "settled E (Err e) = E e" "\<not> settled E Panic"
  by (simp_all add: settled_def)

definition xml_lists :: "xml_error \<Rightarrow> bool" where
  "xml_lists e \<longleftrightarrow> (\<exists>issues. e = XmlInvalid issues)"

definition irena_lists :: "irena_error \<Rightarrow> bool" where
  "irena_lists e \<longleftrightarrow> (\<exists>issues. e = IrenaInvalid issues)"

lemma lists_simps [simp]:
  "\<not> xml_lists (XmlMalformed pos f)" "\<not> xml_lists (malformed pos d)" "\<not> irena_lists (IrenaMalformed pos f)"
  "\<not> irena_lists (malformed_at pos d)" "irena_lists (irena_invalid issues)" "irena_lists (irena_of_xml e) = xml_lists e"
  "\<not> xml_lists (XmlUnsupportedVersion v)"
  by (auto simp: xml_lists_def irena_lists_def malformed_def malformed_at_def irena_of_xml_def irena_invalid_def split: xml_error.splits)

section \<open>Results\<close>

named_theorems frame "the parsers and results that do not depend on what surrounds an element"

definition same_settled :: "('e \<Rightarrow> bool) \<Rightarrow> ('e, 'a) result \<Rightarrow> ('e, 'a) result \<Rightarrow> bool" where
  "same_settled E x y \<longleftrightarrow> (settled E x \<longrightarrow> y = x)"

lemma same_refl [frame]: "same_settled E x x"
  by (simp add: same_settled_def)

lemma same_bind [frame]:
  assumes "same_settled E x y" and "\<And>a. same_settled E (f a) (g a)"
  shows "same_settled E (rbind x f) (rbind y g)"
  using assms by (cases x) (auto simp: same_settled_def)

lemma same_map_err:
  assumes "same_settled E x y" and "\<And>e. E' (h e) \<Longrightarrow> E e"
  shows "same_settled E' (rmap_err h x) (rmap_err h y)"
  using assms by (cases x) (auto simp: same_settled_def)

lemma same_cases [frame]:
  "same_settled E x y \<Longrightarrow> same_settled E x' y' \<Longrightarrow> same_settled E (if b then x else x') (if b then y else y')"
  by simp

lemma same_malformed [frame]: "same_settled xml_lists (Err (malformed pos d)) (Err (malformed pos' d))"
  by (simp add: same_settled_def)

lemma collect_pairs_same: "same_settled xml_lists (collect_pairs pos l) (collect_pairs pos' l)"
proof (induction pos l rule: collect_pairs.induct)
  case (2 pos k v r)
  then show ?case by (simp add: same_bind same_refl)
qed (simp_all add: same_settled_def)

lemma attributes_of_same [frame]: "same_settled xml_lists (attributes_of pos e t) (attributes_of pos' e t)"
  unfolding attributes_of_def by (rule same_bind [OF collect_pairs_same same_refl])

lemma attr_finish_same [frame]: "same_settled xml_lists (attr_finish pos a) (attr_finish pos' a)"
  by (simp add: attr_finish_def same_settled_def split: option.split)

lemma irena_attributes_same [frame]: "same_settled irena_lists (irena_attributes pos e t) (irena_attributes pos' e t)"
  unfolding irena_attributes_def by (rule same_map_err [OF attributes_of_same]) simp

lemma irena_finish_same [frame]: "same_settled irena_lists (irena_finish pos a) (irena_finish pos' a)"
  unfolding irena_finish_def by (rule same_map_err [OF attr_finish_same]) simp

text \<open>The leaves.\<close>

lemma rule_leaves_same [frame]:
  "same_settled xml_lists (parse_weight pos t i) (parse_weight pos' t i)"
  "same_settled xml_lists (parse_exclusions pos t i) (parse_exclusions pos' t i)"
  "same_settled xml_lists (parse_quorum pos t i) (parse_quorum pos' t i)"
  "same_settled xml_lists (parse_threshold pos t i) (parse_threshold pos' t i)"
  "same_settled xml_lists (parse_abstentions pos t i) (parse_abstentions pos' t i)"
  "same_settled xml_lists (parse_tie pos t i) (parse_tie pos' t i)"
  unfolding parse_weight_def parse_exclusions_def parse_quorum_def parse_threshold_def parse_abstentions_def parse_tie_def
    Let_def case_prod_unfold
  by (intro frame)+

lemma fill_same [frame]: "same_settled xml_lists x y \<Longrightarrow> same_settled xml_lists (fill e slot x f) (fill e slot y f)"
  unfolding fill_def by (intro same_bind same_refl)

lemma rule_element_same [frame]: "same_settled xml_lists (rule_element t s pos) (rule_element t s pos')"
  unfolding rule_element_def Let_def by (intro frame)

lemma record_leaves_same [frame]:
  "same_settled irena_lists (parse_identity pos t i) (parse_identity pos' t i)"
  "same_settled irena_lists (parse_holder pos t i) (parse_holder pos' t i)"
  "same_settled irena_lists (parse_person hexd pos t i) (parse_person hexd pos' t i)"
  "same_settled irena_lists (parse_signer pos t i) (parse_signer pos' t i)"
  "same_settled irena_lists (parse_member pos t i) (parse_member pos' t i)"
  "same_settled irena_lists (parse_amend pos t i) (parse_amend pos' t i)"
  "same_settled irena_lists (incorporation_child hexd pos t i) (incorporation_child hexd pos' t i)"
  unfolding parse_identity_def parse_holder_def parse_person_def parse_signer_def parse_member_def parse_amend_def
    incorporation_child_def Let_def case_prod_unfold
  by (intro frame)+

section \<open>Parsers\<close>

text \<open>
  Two parsers that do the same wherever the element stands: when the first settles on a reader, it has
  consumed some events, and the second settles likewise, after the same events, on every reader that starts
  with them, whatever comes behind.
\<close>

definition agrees :: "('e \<Rightarrow> bool) \<Rightarrow> ('e, 'a) parser \<Rightarrow> ('e, 'a) parser \<Rightarrow> bool" where
  "agrees E p q \<longleftrightarrow> (\<forall>r x s. p r = (x, s) \<and> settled E x \<longrightarrow>
     (\<exists>used. events r = used @ events s \<and>
        (\<forall>r' more. events r' = used @ more \<longrightarrow> (\<exists>s'. q r' = (x, s') \<and> events s' = more))))"

lemma agreesI:
  assumes "\<And>r x s. p r = (x, s) \<Longrightarrow> settled E x \<Longrightarrow>
     \<exists>used. events r = used @ events s \<and> (\<forall>r' more. events r' = used @ more \<longrightarrow> (\<exists>s'. q r' = (x, s') \<and> events s' = more))"
  shows "agrees E p q"
  using assms by (simp add: agrees_def)

lemma agreesD:
  assumes "agrees E p q" and "p r = (x, s)" and "settled E x"
  obtains used where "events r = used @ events s"
    "\<And>r' more. events r' = used @ more \<Longrightarrow> \<exists>s'. q r' = (x, s') \<and> events s' = more"
  using assms unfolding agrees_def by blast

lemma agrees_return [frame]: "agrees E (preturn a) (preturn a)"
  by (rule agreesI) (auto simp: preturn_def)

lemma agrees_lift [frame]: "same_settled E x y \<Longrightarrow> agrees E (plift x) (plift y)"
  by (rule agreesI) (auto simp: plift_def same_settled_def)

lemma agrees_fail [frame]:
  "agrees E (pfail e) (pfail e)" "agrees xml_lists (pfail (malformed pos d)) (pfail (malformed pos' d))"
  "agrees irena_lists (pfail (malformed_at pos d)) (pfail (malformed_at pos' d))"
  by (rule agreesI, auto simp: pfail_def)+

lemma agrees_bind [frame]:
  assumes p: "agrees E p p'" and f: "\<And>a. agrees E (f a) (f' a)"
  shows "agrees E (pbind p f) (pbind p' f')"
proof (rule agreesI)
  fix r x s
  assume run: "pbind p f r = (x, s)" "settled E x"
  obtain y r1 where y: "p r = (y, r1)" by (cases "p r")
  have "settled E y" using run y by (cases y) (auto simp: pbind_def)
  from agreesD [OF p y this] obtain used where u: "events r = used @ events r1"
    "\<And>r' more. events r' = used @ more \<Longrightarrow> \<exists>s'. p' r' = (y, s') \<and> events s' = more" by blast
  show "\<exists>used. events r = used @ events s \<and>
      (\<forall>r' more. events r' = used @ more \<longrightarrow> (\<exists>s'. pbind p' f' r' = (x, s') \<and> events s' = more))"
  proof (cases y)
    case (Ok a)
    then have "f a r1 = (x, s)" using run(1) y by (simp add: pbind_def)
    from agreesD [OF f this run(2)] obtain used' where v: "events r1 = used' @ events s"
      "\<And>r' more. events r' = used' @ more \<Longrightarrow> \<exists>s'. f' a r' = (x, s') \<and> events s' = more" by blast
    have "\<exists>s'. pbind p' f' r' = (x, s') \<and> events s' = more" if here: "events r' = (used @ used') @ more" for r' more
    proof -
      obtain r2 where "p' r' = (Ok a, r2)" "events r2 = used' @ more" using u(2) [of r' "used' @ more"] here Ok by auto
      then show ?thesis using v(2) [of r2 more] by (simp add: pbind_def)
    qed
    then show ?thesis using u(1) v(1) by (intro exI [of _ "used @ used'"]) simp
  next
    case (Err e)
    then have eq: "x = Err e" "s = r1" using run(1) y by (simp_all add: pbind_def)
    have "\<exists>s'. pbind p' f' r' = (x, s') \<and> events s' = more" if "events r' = used @ more" for r' more
      using u(2) [OF that] by (auto simp: pbind_def Err eq)
    then show ?thesis using u(1) eq(2) by blast
  next
    case Panic
    then show ?thesis using \<open>settled E y\<close> by simp
  qed
qed

lemma agrees_map_err [frame]:
  assumes "agrees xml_lists p q"
  shows "agrees irena_lists (pmap_err irena_of_xml p) (pmap_err irena_of_xml q)"
proof (rule agreesI)
  fix r x s
  assume run: "pmap_err irena_of_xml p r = (x, s)" "settled irena_lists x"
  then obtain y where y: "p r = (y, s)" "x = rmap_err irena_of_xml y" by (auto simp: pmap_err_def split: prod.splits)
  then have "settled xml_lists y" using run(2) by (cases y) simp_all
  from agreesD [OF assms y(1) this] obtain used where "events r = used @ events s"
    "\<And>r' more. events r' = used @ more \<Longrightarrow> \<exists>s'. q r' = (y, s') \<and> events s' = more" by blast
  then show "\<exists>used. events r = used @ events s \<and>
      (\<forall>r' more. events r' = used @ more \<longrightarrow> (\<exists>s'. pmap_err irena_of_xml q r' = (x, s') \<and> events s' = more))"
    by (intro exI [of _ used]) (fastforce simp: pmap_err_def y(2))
qed

lemma agrees_position [frame]:
  assumes "\<And>pos pos'. agrees E (f pos) (g pos')"
  shows "agrees E (with_position f) (with_position g)"
proof (rule agreesI)
  fix r x s
  assume "with_position f r = (x, s)" and x: "settled E x"
  then have run: "f (rd_position r) r = (x, s)" by (simp add: with_position_def)
  obtain used where used: "events r = used @ events s" by (rule agreesD [OF assms run x]) blast
  have "\<exists>s'. with_position g r' = (x, s') \<and> events s' = more" if "events r' = used @ more" for r' more
    by (rule agreesD [OF assms [of _ "rd_position r'"] run x]) (use used that in \<open>simp add: with_position_def\<close>)
  then show "\<exists>used. events r = used @ events s \<and>
      (\<forall>r' more. events r' = used @ more \<longrightarrow> (\<exists>s'. with_position g r' = (x, s') \<and> events s' = more))"
    using used by blast
qed

lemma agrees_cases [frame]:
  "agrees E p q \<Longrightarrow> agrees E p' q' \<Longrightarrow> agrees E (if b then p else p') (if b then q else q')"
  "(\<And>x y. agrees E (f x y) (g x y)) \<Longrightarrow> agrees E (case z of (x, y) \<Rightarrow> f x y) (case z of (x, y) \<Rightarrow> g x y)"
  "agrees E p q \<Longrightarrow> (\<And>x. agrees E (h x) (k x)) \<Longrightarrow>
     agrees E (case u of None \<Rightarrow> p | Some x \<Rightarrow> h x) (case u of None \<Rightarrow> q | Some x \<Rightarrow> k x)"
  by (simp_all split: prod.splits option.splits)

lemma agrees_recovering:
  assumes p: "agrees E p p'" and k: "\<And>v i. agrees irena_lists (k v i) (k' v i)"
    and found: "\<And>e. E e \<longleftrightarrow> found e \<noteq> None" and lift: "\<And>e. irena_lists (lift e) \<Longrightarrow> E e"
  shows "agrees irena_lists (recovering found lift p k) (recovering found lift p' k')"
proof (rule agreesI)
  fix r x s
  assume run: "recovering found lift p k r = (x, s)" "settled irena_lists x"
  obtain y r1 where y: "p r = (y, r1)" by (cases "p r")
  have "settled E y"
  proof (cases y)
    case (Err e)
    then show ?thesis using run y found [of e] lift [of e] by (cases "found e") (auto simp: recovering_def)
  qed (use run y in \<open>simp_all add: recovering_def\<close>)
  from agreesD [OF p y this] obtain used where u: "events r = used @ events r1"
    "\<And>r' more. events r' = used @ more \<Longrightarrow> \<exists>s'. p' r' = (y, s') \<and> events s' = more" by blast
  define v i where vi: "v = (case y of Ok a \<Rightarrow> Some a | _ \<Rightarrow> None)" "i = (case y of Err e \<Rightarrow> the (found e) | _ \<Rightarrow> [])"
  have go: "recovering found lift q h r' = h v i r2" if "q r' = (y, r2)" for q and h :: "_ \<Rightarrow> _ \<Rightarrow> (irena_error, 'd) parser" and r' r2
    using that \<open>settled E y\<close> found by (cases y) (auto simp: recovering_def vi)
  have "k v i r1 = (x, s)" using go [of p r r1 k, OF y] run(1) by simp
  from agreesD [OF k this run(2)] obtain used' where w: "events r1 = used' @ events s"
    "\<And>r' more. events r' = used' @ more \<Longrightarrow> \<exists>s'. k' v i r' = (x, s') \<and> events s' = more" by blast
  have "\<exists>s'. recovering found lift p' k' r' = (x, s') \<and> events s' = more" if here: "events r' = (used @ used') @ more" for r' more
  proof -
    obtain r2 where "p' r' = (y, r2)" "events r2 = used' @ more" using u(2) [of r' "used' @ more"] here by auto
    then show ?thesis using w(2) [of r2 more] go [of p' r' r2 k'] by simp
  qed
  then show "\<exists>used. events r = used @ events s \<and>
      (\<forall>r' more. events r' = used @ more \<longrightarrow> (\<exists>s'. recovering found lift p' k' r' = (x, s') \<and> events s' = more))"
    using u(1) w(1) by (intro exI [of _ "used @ used'"]) simp
qed

lemma agrees_recovering_irena [frame]:
  assumes "agrees irena_lists p p'" and "\<And>v i. agrees irena_lists (k v i) (k' v i)"
  shows "agrees irena_lists (recovering invalid_issues (\<lambda>e. e) p k) (recovering invalid_issues (\<lambda>e. e) p' k')"
  by (rule agrees_recovering [OF assms]) (auto simp: irena_lists_def invalid_issues_def split: irena_error.splits)

lemma agrees_recovering_xml [frame]:
  assumes "agrees xml_lists p p'" and "\<And>v i. agrees irena_lists (k v i) (k' v i)"
  shows "agrees irena_lists (recovering xml_invalid_issues irena_of_xml p k) (recovering xml_invalid_issues irena_of_xml p' k')"
  by (rule agrees_recovering [OF assms]) (auto simp: xml_lists_def xml_invalid_issues_def split: xml_error.splits)

section \<open>Loops\<close>

lemma next_event_on:
  assumes "events r = e # es"
  shows "\<exists>p l. map fst l = es \<and> next_event r = (Ok e, r\<lparr>rd_position := p, rd_rest := l\<rparr>)"
proof -
  obtain p l where "rd_rest r = (e, p) # l" "map fst l = es" using assms by (cases "rd_rest r") auto
  then show ?thesis by (intro exI [of _ p] exI [of _ l]) (simp add: next_event_def)
qed

lemma expect_empty_agrees [frame]: "agrees xml_lists (expect_empty element) (expect_empty element)"
proof (rule agreesI)
  fix r x s
  show "expect_empty element r = (x, s) \<Longrightarrow> settled xml_lists x \<Longrightarrow> \<exists>used. events r = used @ events s \<and>
      (\<forall>r' more. events r' = used @ more \<longrightarrow> (\<exists>s'. expect_empty element r' = (x, s') \<and> events s' = more))"
  proof (induction "rd_left r" arbitrary: r rule: less_induct)
    case less
    show ?case
    proof (rule next_event_cases [of r])
      fix e p es
      assume *: "rd_rest r = (e, p) # es" "next_event r = (Ok e, r\<lparr>rd_position := p, rd_rest := es\<rparr>)"
      let ?r = "r\<lparr>rd_position := p, rd_rest := es\<rparr>"
      show ?thesis
      proof (cases "e = EvText \<or> e = EvComment")
        case True
        then have "expect_empty element ?r = (x, s)" using less.prems(1) * by (subst (asm) expect_empty.simps) auto
        from less.hyps [OF _ this less.prems(2)] obtain used where u: "events ?r = used @ events s"
          "\<forall>r' more. events r' = used @ more \<longrightarrow> (\<exists>s'. expect_empty element r' = (x, s') \<and> events s' = more)"
          using * by auto
        have "\<exists>s'. expect_empty element r' = (x, s') \<and> events s' = more" if here: "events r' = (e # used) @ more" for r' more
        proof -
          obtain p' l where "map fst l = used @ more" "next_event r' = (Ok e, r'\<lparr>rd_position := p', rd_rest := l\<rparr>)"
            using next_event_on [of r' e "used @ more"] here by auto
          then show ?thesis using u(2) True by (subst expect_empty.simps) auto
        qed
        then show ?thesis using u(1) * by (intro exI [of _ "e # used"]) simp
      next
        case False
        then obtain n where e: "e = EvEnd n" "x = Ok ()" "s = ?r"
          using less.prems * by (subst (asm) expect_empty.simps) (cases e; auto)
        have "\<exists>s'. expect_empty element r' = (x, s') \<and> events s' = more" if here: "events r' = [EvEnd n] @ more" for r' more
        proof -
          obtain p' l where "map fst l = more" "next_event r' = (Ok (EvEnd n), r'\<lparr>rd_position := p', rd_rest := l\<rparr>)"
            using next_event_on [of r' "EvEnd n" more] here by auto
          then show ?thesis using e by (subst expect_empty.simps) simp
        qed
        then show ?thesis using * e by (intro exI [of _ "[EvEnd n]"]) simp
      qed
    qed (use less.prems in \<open>auto simp: expect_empty.simps [of element r]\<close>)
  qed
qed

lemma end_of_leaf_agrees [frame]: "agrees irena_lists (end_of_leaf element b v) (end_of_leaf element b v)"
  unfolding end_of_leaf_def by (intro frame)

lemma skip_element_agrees [frame]: "agrees irena_lists (skip_element depth) (skip_element depth)"
proof (rule agreesI)
  fix r x s
  show "skip_element depth r = (x, s) \<Longrightarrow> settled irena_lists x \<Longrightarrow> \<exists>used. events r = used @ events s \<and>
      (\<forall>r' more. events r' = used @ more \<longrightarrow> (\<exists>s'. skip_element depth r' = (x, s') \<and> events s' = more))"
  proof (induction "rd_left r" arbitrary: depth r rule: less_induct)
    case less
    show ?case
    proof (cases "depth = 0")
      case True
      then show ?thesis using less.prems by (subst (asm) skip_element.simps, subst skip_element.simps) simp
    next
      case False
      show ?thesis
      proof (rule next_event_cases [of r])
        fix e p es
        assume *: "rd_rest r = (e, p) # es" "next_event r = (Ok e, r\<lparr>rd_position := p, rd_rest := es\<rparr>)"
        let ?r = "r\<lparr>rd_position := p, rd_rest := es\<rparr>"
        let ?d = "case e of EvStart _ \<Rightarrow> depth + 1 | EvEnd _ \<Rightarrow> depth - 1 | _ \<Rightarrow> depth"
        have eof: "e \<noteq> EvEof" using less.prems * False by (subst (asm) skip_element.simps) auto
        have step: "skip_element depth r' = skip_element ?d (r'\<lparr>rd_position := p', rd_rest := l\<rparr>)"
          if "next_event r' = (Ok e, r'\<lparr>rd_position := p', rd_rest := l\<rparr>)" for r' p' l
          using that eof False by (subst skip_element.simps) (cases e; simp)
        have "skip_element ?d ?r = (x, s)" using step [OF *(2)] less.prems(1) by simp
        from less.hyps [OF _ this less.prems(2)] obtain used where u: "events ?r = used @ events s"
          "\<forall>r' more. events r' = used @ more \<longrightarrow> (\<exists>s'. skip_element ?d r' = (x, s') \<and> events s' = more)"
          using * by auto
        have "\<exists>s'. skip_element depth r' = (x, s') \<and> events s' = more" if here: "events r' = (e # used) @ more" for r' more
        proof -
          obtain p' l where "map fst l = used @ more" "next_event r' = (Ok e, r'\<lparr>rd_position := p', rd_rest := l\<rparr>)"
            using next_event_on [of r' e "used @ more"] here by auto
          then show ?thesis using u(2) step by auto
        qed
        then show ?thesis using u(1) * by (intro exI [of _ "e # used"]) simp
      qed (use less.prems False in \<open>auto simp: skip_element.simps [of depth r]\<close>)
    qed
  qed
qed

text \<open>A loop over children that came to its end has consumed an end tag, and that last.\<close>

lemma children_consumes:
  fixes child :: "xml_tag \<Rightarrow> bool \<Rightarrow> 's \<Rightarrow> ('e, 's) parser"
  assumes sh: "\<And>t e s. shrinking (child t e s)" and child: "\<And>t e s. agrees E (child t e s) (child t e s)"
    and lift: "\<And>pos f. \<not> E (lift (XmlMalformed pos f))"
  shows "settled E (fst (children lift parent child s r)) \<longrightarrow>
    (\<exists>used. events r = used @ events (snd (children lift parent child s r)) \<and>
      (\<forall>v. fst (children lift parent child s r) = Ok v \<longrightarrow> (\<exists>u n. used = u @ [EvEnd n])) \<and>
      (\<forall>r' more. events r' = used @ more \<longrightarrow>
         (\<exists>s'. children lift parent child s r' = (fst (children lift parent child s r), s') \<and> events s' = more)))"
proof (rule children_rule [where Q = "\<lambda>s r x. settled E (fst x) \<longrightarrow> (\<exists>used. events r = used @ events (snd x) \<and>
      (\<forall>v. fst x = Ok v \<longrightarrow> (\<exists>u n. used = u @ [EvEnd n])) \<and>
      (\<forall>r' more. events r' = used @ more \<longrightarrow> (\<exists>s'. children lift parent child s r' = (fst x, s') \<and> events s' = more)))"], goal_cases)
  case 1
  show ?case by (rule sh)
next
  case (2 s r e p es x)
  show ?case
  proof
    assume "settled E (fst x)"
    with 2(3) obtain used where u: "map fst es = used @ events (snd x)" "\<forall>v. fst x = Ok v \<longrightarrow> (\<exists>u n. used = u @ [EvEnd n])"
      "\<forall>r' more. events r' = used @ more \<longrightarrow> (\<exists>s'. children lift parent child s r' = (fst x, s') \<and> events s' = more)" by auto
    have "\<exists>s'. children lift parent child s r' = (fst x, s') \<and> events s' = more" if here: "events r' = (e # used) @ more" for r' more
    proof -
      obtain p' l where "map fst l = used @ more" "next_event r' = (Ok e, r'\<lparr>rd_position := p', rd_rest := l\<rparr>)"
        using next_event_on [of r' e "used @ more"] here by auto
      then show ?thesis using u(3) 2(2) by (subst children_unfold [OF sh]) auto
    qed
    then show "\<exists>used. events r = used @ events (snd x) \<and> (\<forall>v. fst x = Ok v \<longrightarrow> (\<exists>u n. used = u @ [EvEnd n])) \<and>
      (\<forall>r' more. events r' = used @ more \<longrightarrow> (\<exists>s'. children lift parent child s r' = (fst x, s') \<and> events s' = more))"
      using u(1,2) 2(1) by (intro exI [of _ "e # used"]) auto
  qed
next
  case (3 s r n p es)
  have "\<exists>s'. children lift parent child s r' = (Ok s, s') \<and> events s' = more" if here: "events r' = [EvEnd n] @ more" for r' more
  proof -
    obtain p' l where "map fst l = more" "next_event r' = (Ok (EvEnd n), r'\<lparr>rd_position := p', rd_rest := l\<rparr>)"
      using next_event_on [of r' "EvEnd n" more] here by auto
    then show ?thesis by (subst children_unfold [OF sh]) simp
  qed
  then show ?case using 3 by (auto intro!: exI [of _ "[EvEnd n]"])
next
  case (4 s r t b p es s' r'' x)
  show ?case
  proof
    assume x: "settled E (fst x)"
    with 4(3) obtain used where u: "events r'' = used @ events (snd x)" "\<forall>v. fst x = Ok v \<longrightarrow> (\<exists>u n. used = u @ [EvEnd n])"
      "\<forall>r' more. events r' = used @ more \<longrightarrow> (\<exists>q. children lift parent child s' r' = (fst x, q) \<and> events q = more)" by auto
    from agreesD [OF child 4(2)] obtain first where f: "map fst es = first @ events r''"
      "\<And>r' more. events r' = first @ more \<Longrightarrow> \<exists>q. child t b s r' = (Ok s', q) \<and> events q = more" by auto
    let ?e = "if b then EvEmpty t else EvStart t"
    have "\<exists>q. children lift parent child s r' = (fst x, q) \<and> events q = more" if here: "events r' = (?e # first @ used) @ more" for r' more
    proof -
      obtain p' l where l: "map fst l = first @ used @ more" "next_event r' = (Ok ?e, r'\<lparr>rd_position := p', rd_rest := l\<rparr>)"
        using next_event_on [of r' ?e "first @ used @ more"] here by auto
      obtain q where "child t b s (r'\<lparr>rd_position := p', rd_rest := l\<rparr>) = (Ok s', q)" "events q = used @ more"
        using f(2) [of "r'\<lparr>rd_position := p', rd_rest := l\<rparr>" "used @ more"] l(1) by auto
      then show ?thesis using u(3) l(2) by (subst children_unfold [OF sh]) (cases b; auto simp: pbind_def)
    qed
    then show "\<exists>used. events r = used @ events (snd x) \<and> (\<forall>v. fst x = Ok v \<longrightarrow> (\<exists>u n. used = u @ [EvEnd n])) \<and>
      (\<forall>r' more. events r' = used @ more \<longrightarrow> (\<exists>q. children lift parent child s r' = (fst x, q) \<and> events q = more))"
      using u(1,2) f(1) 4(1) by (intro exI [of _ "?e # first @ used"]) auto
  qed
next
  case (5 s r t b p es e r'')
  show ?case
  proof
    assume "settled E (fst (Err e :: ('e, 's) result, r''))"
    then have x: "settled E (Err e :: ('e, 's) result)" by simp
    from agreesD [OF child 5(2) x] obtain first where f: "map fst es = first @ events r''"
      "\<And>r' more. events r' = first @ more \<Longrightarrow> \<exists>q. child t b s r' = (Err e, q) \<and> events q = more" by auto
    let ?e = "if b then EvEmpty t else EvStart t"
    have "\<exists>q. children lift parent child s r' = (Err e, q) \<and> events q = more" if here: "events r' = (?e # first) @ more" for r' more
    proof -
      obtain p' l where l: "map fst l = first @ more" "next_event r' = (Ok ?e, r'\<lparr>rd_position := p', rd_rest := l\<rparr>)"
        using next_event_on [of r' ?e "first @ more"] here by auto
      obtain q where "child t b s (r'\<lparr>rd_position := p', rd_rest := l\<rparr>) = (Err e, q)" "events q = more"
        using f(2) [of "r'\<lparr>rd_position := p', rd_rest := l\<rparr>" more] l(1) by auto
      then show ?thesis using l(2) by (subst children_unfold [OF sh]) (cases b; auto simp: pbind_def)
    qed
    then show "\<exists>used. events r = used @ events (snd (Err e :: ('e, 's) result, r'')) \<and>
      (\<forall>v. fst (Err e :: ('e, 's) result, r'') = Ok v \<longrightarrow> (\<exists>u n. used = u @ [EvEnd n])) \<and>
      (\<forall>r' more. events r' = used @ more \<longrightarrow> (\<exists>q. children lift parent child s r' = (fst (Err e, r''), q) \<and> events q = more))"
      using f(1) 5(1) by (intro exI [of _ "?e # first"]) auto
  qed
next
  case 6
  show ?case by simp
next
  case 7
  show ?case by (simp add: lift)
qed

lemma agrees_children:
  assumes "\<And>t e s. shrinking (child t e s)" and "\<And>t e s. agrees E (child t e s) (child t e s)"
    and "\<And>pos f. \<not> E (lift (XmlMalformed pos f))"
  shows "agrees E (children lift parent child s) (children lift parent child s)"
proof (rule agreesI)
  fix r x q
  assume "children lift parent child s r = (x, q)" and "settled E x"
  then show "\<exists>used. events r = used @ events q \<and> (\<forall>r' more. events r' = used @ more \<longrightarrow>
      (\<exists>s'. children lift parent child s r' = (x, s') \<and> events s' = more))"
    using children_consumes [where child = child and r = r and s = s and lift = lift and parent = parent and E = E, OF assms] by auto
qed

lemma irena_children [frame]:
  assumes "\<And>t e s. shrinking (child t e s)" and "\<And>t e s. agrees irena_lists (child t e s) (child t e s)"
  shows "agrees irena_lists (children irena_of_xml parent child s) (children irena_of_xml parent child s)"
  by (rule agrees_children [OF assms]) simp

lemma xml_children [frame]:
  assumes "\<And>t e s. shrinking (child t e s)" and "\<And>t e s. agrees xml_lists (child t e s) (child t e s)"
  shows "agrees xml_lists (children (\<lambda>e. e) parent child s) (children (\<lambda>e. e) parent child s)"
  by (rule agrees_children [OF assms]) simp

section \<open>The readers of the founding record\<close>

lemma leaf_child_agrees [frame]:
  assumes "\<And>pos pos' t i. same_settled irena_lists (leaf pos t i) (leaf pos' t i)"
  shows "agrees irena_lists (leaf_child leaf irena_of_xml element t e s) (leaf_child leaf irena_of_xml element t e s)"
  unfolding leaf_child_def Let_def by (intro frame assms)

lemma item_child_agrees [frame]:
  assumes "\<And>pos pos' t i. same_settled irena_lists (leaf pos t i) (leaf pos' t i)"
  shows "agrees irena_lists (item_child parent element limit leaf t e s) (item_child parent element limit leaf t e s)"
  unfolding item_child_def by (intro frame assms)

lemma parse_items_agrees:
  assumes "\<And>t e s. shrinking (child t e s)" and "\<And>t e s. agrees irena_lists (child t e s) (child t e s)"
  shows "agrees irena_lists (parse_items parent child build start e) (parse_items parent child build start e)"
  unfolding parse_items_def by (intro frame assms)

lemma parse_share_structure_agrees [frame]:
  "agrees irena_lists (parse_share_structure t e) (parse_share_structure t e)"
  unfolding parse_share_structure_def by (rule parse_items_agrees; intro frame shrink)

lemma parse_identities_agrees [frame]:
  "agrees irena_lists (parse_identities hexd t e) (parse_identities hexd t e)"
  unfolding parse_identities_def by (rule parse_items_agrees; intro frame shrink)

lemma parse_authorisation_agrees [frame]:
  "agrees irena_lists (parse_authorisation t e) (parse_authorisation t e)"
  unfolding parse_authorisation_def by (rule parse_items_agrees; intro frame shrink)

lemma parse_scope_agrees [frame]: "agrees irena_lists (parse_scope c t e) (parse_scope c t e)"
  unfolding parse_scope_def by (rule parse_items_agrees; intro frame shrink)

lemma parse_actors_agrees [frame]: "agrees irena_lists (parse_actors c t e) (parse_actors c t e)"
  unfolding parse_actors_def Let_def by (intro frame shrink)

lemma rule_child_agrees [frame]: "agrees xml_lists (rule_child t e s) (rule_child t e s)"
  unfolding rule_child_def by (intro frame)

lemma parse_voting_rules_agrees [frame]: "agrees xml_lists (parse_voting_rules t) (parse_voting_rules t)"
  unfolding parse_voting_rules_def Let_def by (intro frame shrink)

lemma channel_child_agrees [frame]: "agrees irena_lists (channel_child c t e s) (channel_child c t e s)"
  unfolding channel_child_def Let_def by (intro frame)

lemma parse_channel_agrees [frame]: "agrees irena_lists (parse_channel t e) (parse_channel t e)"
  unfolding parse_channel_def Let_def by (intro frame shrink)

lemma channels_child_agrees [frame]: "agrees irena_lists (channels_child t e s) (channels_child t e s)"
  unfolding channels_child_def by (intro frame)

lemma parse_decision_channels_agrees [frame]:
  "agrees irena_lists (parse_decision_channels t e) (parse_decision_channels t e)"
  unfolding parse_decision_channels_def by (rule parse_items_agrees; intro frame shrink)

lemma governance_child_agrees [frame]: "agrees irena_lists (governance_child t e s) (governance_child t e s)"
  unfolding governance_child_def by (intro frame)

lemma parse_governance_agrees [frame]: "agrees irena_lists parse_governance parse_governance"
  unfolding parse_governance_def Let_def by (intro frame shrink)

lemma genesis_child_agrees [frame]: "agrees irena_lists (genesis_child hexd t e s) (genesis_child hexd t e s)"
  unfolding genesis_child_def Let_def by (intro frame)

lemma children_ends:
  assumes "\<And>t e s. shrinking (child t e s)" and "\<And>t e s. agrees E (child t e s) (child t e s)"
    and "\<And>pos f. \<not> E (lift (XmlMalformed pos f))" and run: "children lift parent child s r = (Ok v, q)"
  obtains u n where "events r = u @ EvEnd n # events q"
    "\<And>r' more. events r' = u @ EvEnd n # more \<Longrightarrow> \<exists>s'. children lift parent child s r' = (Ok v, s') \<and> events s' = more"
proof -
  obtain used where used: "events r = used @ events q" "\<exists>u n. used = u @ [EvEnd n]"
    "\<And>r' more. events r' = used @ more \<Longrightarrow> \<exists>s'. children lift parent child s r' = (Ok v, s') \<and> events s' = more"
    using children_consumes [where child = child and r = r and s = s and lift = lift and parent = parent and E = E, OF assms(1-3)] run
    by auto
  then obtain u n where "used = u @ [EvEnd n]" by blast
  then show thesis using that [of u n] used(1,3) by simp
qed

lemma parse_company_genesis_consumes:
  assumes "parse_company_genesis hexd t r = (Ok g, s)"
  obtains u n where "events r = u @ EvEnd n # events s"
    "\<And>r' more. events r' = u @ EvEnd n # more \<Longrightarrow> \<exists>s'. parse_company_genesis hexd t r' = (Ok g, s') \<and> events s' = more"
proof -
  let ?loop = "children irena_of_xml ''company-genesis'' (genesis_child hexd)
       \<lparr>gl_identity = None, gl_incorporation = None, gl_shares = None, gl_channels = None, gl_identities = None,
        gl_authorisation = None, gl_shares_seen = False, gl_governance_seen = False, gl_identities_seen = False,
        gl_authorisation_seen = False, gl_issues = []\<rparr>"
  let ?open = "\<lambda>pos. rbind (irena_attributes pos ''company-genesis'' t) (irena_finish pos)"
  have run: "parse_company_genesis hexd t r' = (Ok g, s') \<longleftrightarrow>
      (\<exists>slots. ?open (rd_position r') = Ok () \<and> ?loop r' = (Ok slots, s') \<and> finish_genesis slots = Ok g)" for r' s'
    by (cases "?open (rd_position r')"; cases "?loop r'"; cases "fst (?loop r')")
      (auto simp: parse_company_genesis_def with_position_def pbind_def plift_def)
  obtain slots where slots: "?open (rd_position r) = Ok ()" "?loop r = (Ok slots, s)" "finish_genesis slots = Ok g"
    using assms unfolding run by blast
  have "same_settled irena_lists (?open pos) (?open pos')" for pos pos' by (intro frame)
  then have opened: "?open pos = Ok ()" for pos using slots(1) unfolding same_settled_def by (metis settled_simps(1))
  have bad: "\<not> irena_lists (irena_of_xml (XmlMalformed pos f))" for pos f by simp
  obtain u n where "events r = u @ EvEnd n # events s"
    "\<And>r' more. events r' = u @ EvEnd n # more \<Longrightarrow> \<exists>s'. ?loop r' = (Ok slots, s') \<and> events s' = more"
    by (rule children_ends [OF genesis_child_shrinks genesis_child_agrees bad slots(2)]) blast
  then show thesis using that [of u n] slots(3) opened unfolding run by blast
qed

section \<open>An element inside another document\<close>

text \<open>
  What quick-xml makes of a document whose root element is written, byte for byte, as the last child of a
  record behind an empty \<open><notarisation>\<close>: the events of the element are the same in both places. In its own
  document a prolog may come before it and an epilog behind it; in the record, text and comments. \<open>inner\<close>
  is what stands between its start tag and its end tag.
\<close>

definition embedded :: "xml_event list \<Rightarrow> xml_event list \<Rightarrow> bool" where
  "embedded alone whole \<longleftrightarrow> (\<exists>prolog t inner n epilog envtag gap a gap' rest.
     alone = prolog @ EvStart t # inner @ EvEnd n # epilog \<and>
     set prolog \<subseteq> {EvDecl, EvComment, EvText, EvPI} \<and> EvEof \<notin> set inner \<and> (\<forall>m. EvEnd m \<notin> set epilog) \<and>
     whole = EvStart envtag # gap @ EvEmpty a # gap' @ EvStart t # inner @ EvEnd n # rest \<and>
     tag_name a = ''notarisation'' \<and> set gap \<subseteq> {EvText, EvComment} \<and> set gap' \<subseteq> {EvText, EvComment})"

lemma embeddedI:
  assumes "alone = prolog @ EvStart t # inner @ EvEnd n # epilog"
    and "whole = EvStart envtag # gap @ EvEmpty a # gap' @ EvStart t # inner @ EvEnd n # rest"
    and "set prolog \<subseteq> {EvDecl, EvComment, EvText, EvPI}" and "EvEof \<notin> set inner" and "\<forall>m. EvEnd m \<notin> set epilog"
    and "tag_name a = ''notarisation''" and "set gap \<subseteq> {EvText, EvComment}" and "set gap' \<subseteq> {EvText, EvComment}"
  shows "embedded alone whole"
  unfolding embedded_def using assms by metis

lemma root_start_prolog:
  assumes "set prolog \<subseteq> {EvDecl, EvComment, EvText, EvPI}" and "events r = prolog @ EvStart t # rest"
    and "root_start expected r = (Ok x, s)"
  shows "x = t \<and> events s = rest"
  using assms
proof (induction prolog arbitrary: r)
  case Nil
  then obtain p l where "map fst l = rest" "next_event r = (Ok (EvStart t), r\<lparr>rd_position := p, rd_rest := l\<rparr>)"
    using next_event_on [of r "EvStart t" rest] by auto
  then show ?case using Nil(3) by (auto simp: root_start.simps [of expected r] split: if_splits)
next
  case (Cons e prolog)
  then obtain p l where *: "map fst l = prolog @ EvStart t # rest" "next_event r = (Ok e, r\<lparr>rd_position := p, rd_rest := l\<rparr>)"
    using next_event_on [of r e "prolog @ EvStart t # rest"] by auto
  have "root_start expected (r\<lparr>rd_position := p, rd_rest := l\<rparr>) = (Ok x, s)"
    using Cons.prems(1,3) * by (auto simp: root_start.simps [of expected r])
  then show ?case using Cons.IH [of "r\<lparr>rd_position := p, rd_rest := l\<rparr>"] Cons.prems(1) * by simp
qed

lemma root_start_tag: "root_start expected r = (Ok t, s) \<Longrightarrow> tag_name t = expected"
proof (induction expected r rule: root_start.induct)
  case (1 expected r)
  show ?case
    by (rule next_event_cases [of r])
      (use 1 in \<open>auto simp: root_start.simps [of expected r] split: xml_event.splits if_splits\<close>)
qed

lemma expect_eof_Ok:
  assumes "expect_eof r = (Ok (), s)"
  shows "\<exists>gap. set gap \<subseteq> {EvText, EvComment} \<and> (events r = gap \<or> (\<exists>l. events r = gap @ EvEof # l))"
  using assms
proof (induction "rd_left r" arbitrary: r rule: less_induct)
  case less
  show ?case
  proof (rule next_event_cases [of r])
    fix e p es
    assume *: "rd_rest r = (e, p) # es" "next_event r = (Ok e, r\<lparr>rd_position := p, rd_rest := es\<rparr>)"
    show ?thesis
    proof (cases "e = EvText \<or> e = EvComment")
      case True
      then have "expect_eof (r\<lparr>rd_position := p, rd_rest := es\<rparr>) = (Ok (), s)"
        using less.prems * by (auto simp: expect_eof.simps [of r])
      with less.hyps [of "r\<lparr>rd_position := p, rd_rest := es\<rparr>"] * obtain gap where
        "set gap \<subseteq> {EvText, EvComment}" "map fst es = gap \<or> (\<exists>l. map fst es = gap @ EvEof # l)" by auto
      then show ?thesis using * True by (intro exI [of _ "e # gap"]) auto
    next
      case False
      then have "e = EvEof" using less.prems * by (cases e) (simp_all add: expect_eof.simps [of r])
      then show ?thesis using * by (intro exI [of _ "[]"]) simp
    qed
  qed (intro exI [of _ "[]"], simp)+
qed

text \<open>The reader of the element stops exactly at its end tag.\<close>

lemma element_end:
  assumes "inner @ EvEnd n # epilog = u @ EvEnd m # left" and "EvEof \<notin> set inner" and "\<forall>m. EvEnd m \<notin> set epilog"
    and "set gap \<subseteq> {EvText, EvComment}" and "left = gap \<or> (\<exists>l. left = gap @ EvEof # l)"
  shows "u @ [EvEnd m] = inner @ [EvEnd n]"
proof -
  have "(inner @ [EvEnd n]) @ epilog = (u @ [EvEnd m]) @ left" using assms(1) by simp
  then obtain us where us: "inner @ [EvEnd n] = (u @ [EvEnd m]) @ us \<and> us @ epilog = left \<or>
      (inner @ [EvEnd n]) @ us = u @ [EvEnd m] \<and> epilog = us @ left"
    unfolding append_eq_append_conv2 by blast
  have "us = []"
  proof (rule ccontr)
    assume ne: "us \<noteq> []"
    from us show False
    proof (elim disjE conjE)
      assume a: "inner @ [EvEnd n] = (u @ [EvEnd m]) @ us" "us @ epilog = left"
      then have last: "EvEnd n \<in> set us" using ne by (metis last_appendR last_in_set last_snoc)
      have eof: "EvEof \<notin> set us" using a(1) assms(2) by (metis Un_iff set_append xml_event.distinct empty_iff empty_set insert_iff list.simps(15) xml_event.simps)
      obtain vs where "us = take (length us) left" using a(2) by auto
      have "set us \<subseteq> set gap"
        using assms(5)
      proof
        assume "left = gap"
        then show ?thesis using a(2) by auto
      next
        assume "\<exists>l. left = gap @ EvEof # l"
        then obtain l where "us @ epilog = gap @ EvEof # l" using a(2) by auto
        then obtain ws where "us = gap @ ws \<and> ws @ epilog = EvEof # l \<or> us @ ws = gap" unfolding append_eq_append_conv2 by blast
        then show ?thesis using eof by (cases ws) auto
      qed
      then show False using last assms(4) by auto
    next
      assume "(inner @ [EvEnd n]) @ us = u @ [EvEnd m]" "epilog = us @ left"
      then have "EvEnd m \<in> set epilog" using ne by (metis UnI1 last_appendR last_in_set last_snoc set_append)
      then show False using assms(3) by blast
    qed
  qed
  then show ?thesis using us by auto
qed

text \<open>In a record that has its body already, no other element is accepted.\<close>

lemma record_child_full: "snd s \<noteq> None \<Longrightarrow> fst (record_child hexd t b s r) \<noteq> Ok s'"
  by (simp add: record_child_def with_position_def Let_def pbind_def plift_def pfail_def refuse_second_body_def)

lemma record_children_full:
  assumes "children irena_of_xml ''irena-record'' (record_child hexd) s r = (Ok s', r')" and "snd s \<noteq> None"
  shows "s' = s"
proof -
  have "\<forall>s'. snd s \<noteq> None \<longrightarrow> fst (children irena_of_xml ''irena-record'' (record_child hexd) s r) = Ok s' \<longrightarrow> s' = s"
  proof (rule children_rule [where Q = "\<lambda>s r x. \<forall>s'. snd s \<noteq> None \<longrightarrow> fst x = Ok s' \<longrightarrow> s' = s"], goal_cases)
    case (4 s r t b p es s' r' x)
    then show ?case using record_child_full [of s hexd t b "r\<lparr>rd_position := p, rd_rest := es\<rparr>" s'] by auto
  qed (simp_all add: record_child_shrinks)
  then show ?thesis using assms by simp
qed

lemma record_children_gap:
  assumes "events r = gap @ es" and "set gap \<subseteq> {EvText, EvComment}"
  obtains r' where "events r' = es" "children irena_of_xml ''irena-record'' (record_child hexd) s r
      = children irena_of_xml ''irena-record'' (record_child hexd) s r'"
  using assms
proof (induction gap arbitrary: r thesis)
  case (Cons e gap)
  then obtain p l where *: "map fst l = gap @ es" "next_event r = (Ok e, r\<lparr>rd_position := p, rd_rest := l\<rparr>)"
    using next_event_on [of r e "gap @ es"] by auto
  then have "children irena_of_xml ''irena-record'' (record_child hexd) s r
      = children irena_of_xml ''irena-record'' (record_child hexd) s (r\<lparr>rd_position := p, rd_rest := l\<rparr>)"
    using Cons.prems(3) by (subst children_unfold [OF record_child_shrinks]) auto
  then show ?case using Cons.IH [of "r\<lparr>rd_position := p, rd_rest := l\<rparr>"] Cons.prems(1,3) * by auto
qed simp

lemma record_children_next:
  assumes "children irena_of_xml ''irena-record'' (record_child hexd) s r = (Ok s', q)"
    and "events r = (if b then EvEmpty t else EvStart t) # es"
  obtains r1 s1 r2 where "events r1 = es" "record_child hexd t b s r1 = (Ok s1, r2)"
    "children irena_of_xml ''irena-record'' (record_child hexd) s1 r2 = (Ok s', q)"
proof -
  obtain p l where *: "map fst l = es"
    "next_event r = (Ok (if b then EvEmpty t else EvStart t), r\<lparr>rd_position := p, rd_rest := l\<rparr>)"
    using next_event_on [OF assms(2)] by auto
  let ?r = "r\<lparr>rd_position := p, rd_rest := l\<rparr>"
  have run: "pbind (record_child hexd t b s) (children irena_of_xml ''irena-record'' (record_child hexd)) ?r = (Ok s', q)"
    using assms(1) * by (subst (asm) children_unfold [OF record_child_shrinks]) (cases b; auto)
  obtain x r2 where "record_child hexd t b s ?r = (x, r2)" by (cases "record_child hexd t b s ?r")
  then show thesis using that [of ?r] run * by (cases x) (auto simp: pbind_def)
qed

section \<open>The body of a composed record\<close>

lemma genesis_document_Ok:
  assumes "read_company_genesis_document tok hexd xml = Ok g" and "events (tok xml) = prolog @ EvStart t # rest"
    and "set prolog \<subseteq> {EvDecl, EvComment, EvText, EvPI}"
  obtains u m left gap where "rest = u @ EvEnd m # left" "set gap \<subseteq> {EvText, EvComment}"
    "left = gap \<or> (\<exists>l. left = gap @ EvEof # l)" "tag_name t = ''company-genesis''"
    "\<And>r' more. events r' = u @ EvEnd m # more \<Longrightarrow> \<exists>s'. parse_company_genesis hexd t r' = (Ok g, s') \<and> events s' = more"
proof -
  obtain t' r1 r2 r3 where run: "root_start ''company-genesis'' (tok xml) = (Ok t', r1)"
    "parse_company_genesis hexd t' r1 = (Ok g, r2)" "expect_eof r2 = (Ok (), r3)"
  proof (cases "root_start ''company-genesis'' (tok xml)")
    case (Pair x r1)
    then show thesis
    proof (cases x)
      case (Ok t')
      obtain y r2 where "parse_company_genesis hexd t' r1 = (y, r2)" by (cases "parse_company_genesis hexd t' r1")
      moreover obtain z r3 where "expect_eof r2 = (z, r3)" by (cases "expect_eof r2")
      ultimately show thesis
        using assms(1) Pair Ok that
        by (cases y; cases z) (auto simp: read_company_genesis_document_def result_simps pbind_def pmap_err_def preturn_def)
    qed (use assms(1) in \<open>auto simp: read_company_genesis_document_def result_simps pbind_def pmap_err_def\<close>)
  qed
  have t: "t' = t" "events r1 = rest" using root_start_prolog [OF assms(3,2) run(1)] by simp_all
  have "tag_name t = ''company-genesis''"
    using run(1) t(1) by (simp add: root_start_tag)
  moreover obtain u m where "rest = u @ EvEnd m # events r2"
    "\<And>r' more. events r' = u @ EvEnd m # more \<Longrightarrow> \<exists>s'. parse_company_genesis hexd t r' = (Ok g, s') \<and> events s' = more"
    using parse_company_genesis_consumes [OF run(2)] unfolding t by metis
  ultimately show thesis using that expect_eof_Ok [OF run(3)] by metis
qed

lemma record_document_Ok:
  assumes "read_record tok hexd xml = Ok r" and "events (tok xml) = EvStart envtag # rest"
  obtains s r1 r2 where "events r1 = rest" "children irena_of_xml ''irena-record'' (record_child hexd) (None, None) r1 = (Ok s, r2)"
    "snd s = Some (rc_body r)"
proof -
  have run: "fst (record_parser hexd (tok xml)) = Ok r"
    using assms(1) by (auto simp: read_record_def read_record_with_limit_def result_simps)
  obtain p l where *: "map fst l = rest" "next_event (tok xml) = (Ok (EvStart envtag), (tok xml)\<lparr>rd_position := p, rd_rest := l\<rparr>)"
    using next_event_on [OF assms(2)] by auto
  let ?r1 = "(tok xml)\<lparr>rd_position := p, rd_rest := l\<rparr>"
  have envtag: "tag_name envtag = ''irena-record''"
    using run * by (cases "tag_name envtag = ''irena-record''") (simp_all add: record_parser_def pbind_def pmap_err_def root_start.simps [of _ "tok xml"])
  obtain envelope where e: "read_envelope hexd p envtag = Ok envelope"
    using run * envtag by (cases "read_envelope hexd p envtag")
      (simp_all add: record_parser_def pbind_def pmap_err_def plift_def with_position_def root_start.simps [of _ "tok xml"])
  obtain x r2 where c: "children irena_of_xml ''irena-record'' (record_child hexd) (None, None) ?r1 = (x, r2)"
    by (cases "children irena_of_xml ''irena-record'' (record_child hexd) (None, None) ?r1")
  obtain z r3 where z: "expect_eof r2 = (z, r3)" by (cases "expect_eof r2")
  note walk = record_parser_def pbind_def pmap_err_def plift_def with_position_def root_start.simps [of _ "tok xml"] envtag * e c z
  obtain s where s: "x = Ok s" using run by (cases x) (simp_all add: walk)
  have "finish_record envelope s = Ok r" using run by (cases z) (simp_all add: walk s)
  then have "snd s = Some (rc_body r)"
    by (cases envelope) (auto simp: finish_record_def result_simps split: if_splits)
  then show thesis using that [of ?r1] * c s by simp
qed

lemma embedded_genesis:
  assumes alone: "read_company_genesis_document tok hexd xml = Ok g" and whole: "read_record tok hexd payload = Ok r"
    and "embedded (events (tok xml)) (events (tok payload))"
  shows "rc_body r = BodyGenesis g"
proof -
  obtain prolog t inner n epilog envtag gap a gap' rest where e:
    "events (tok xml) = prolog @ EvStart t # inner @ EvEnd n # epilog"
    "set prolog \<subseteq> {EvDecl, EvComment, EvText, EvPI}" "EvEof \<notin> set inner" "\<forall>m. EvEnd m \<notin> set epilog"
    "events (tok payload) = EvStart envtag # gap @ EvEmpty a # gap' @ EvStart t # inner @ EvEnd n # rest"
    "tag_name a = ''notarisation''" "set gap \<subseteq> {EvText, EvComment}" "set gap' \<subseteq> {EvText, EvComment}"
    using assms(3) unfolding embedded_def by metis
  obtain u m left g' where doc: "inner @ EvEnd n # epilog = u @ EvEnd m # left" "set g' \<subseteq> {EvText, EvComment}"
    "left = g' \<or> (\<exists>l. left = g' @ EvEof # l)" "tag_name t = ''company-genesis''"
    "\<And>r' more. events r' = u @ EvEnd m # more \<Longrightarrow> \<exists>s'. parse_company_genesis hexd t r' = (Ok g, s') \<and> events s' = more"
    by (rule genesis_document_Ok [OF alone e(1,2)]) blast
  have same: "u @ EvEnd m # more = inner @ EvEnd n # more" for more
    using element_end [OF doc(1) e(3,4) doc(2,3)] by simp
  obtain s r1 q where rec: "events r1 = gap @ EvEmpty a # gap' @ EvStart t # inner @ EvEnd n # rest"
    "children irena_of_xml ''irena-record'' (record_child hexd) (None, None) r1 = (Ok s, q)" "snd s = Some (rc_body r)"
    by (rule record_document_Ok [OF whole e(5)]) blast
  obtain r2 where r2: "events r2 = EvEmpty a # gap' @ EvStart t # inner @ EvEnd n # rest"
    "children irena_of_xml ''irena-record'' (record_child hexd) (None, None) r2 = (Ok s, q)"
    using record_children_gap [OF rec(1) e(7)] rec(2) by metis
  obtain r3 s1 r4 where r3: "events r3 = gap' @ EvStart t # inner @ EvEnd n # rest" "record_child hexd a True (None, None) r3 = (Ok s1, r4)"
    "children irena_of_xml ''irena-record'' (record_child hexd) s1 r4 = (Ok s, q)"
    by (rule record_children_next [OF r2(2), of True a]) (use r2(1) in auto)
  have r4: "r4 = r3" "snd s1 = None"
    using r3(2) e(6) by (auto simp: record_child_def with_position_def Let_def pbind_def plift_def end_of_leaf_def preturn_def split: result.splits)
  obtain r5 where r5: "events r5 = EvStart t # inner @ EvEnd n # rest"
    "children irena_of_xml ''irena-record'' (record_child hexd) s1 r5 = (Ok s, q)"
    using record_children_gap [OF r3(1) e(8)] r3(3) unfolding r4 by metis
  obtain r6 s2 r7 where r6: "events r6 = inner @ EvEnd n # rest" "record_child hexd t False s1 r6 = (Ok s2, r7)"
    "children irena_of_xml ''irena-record'' (record_child hexd) s2 r7 = (Ok s, q)"
    by (rule record_children_next [OF r5(2), of False t]) (use r5(1) in auto)
  obtain r8 where "parse_company_genesis hexd t r6 = (Ok g, r8)" using doc(5) [of r6 rest] r6(1) same by auto
  then have "s2 = (fst s1, Some (BodyGenesis g))"
    using r6(2) r4(2) doc(4)
    by (simp add: record_child_def with_position_def Let_def pbind_def plift_def preturn_def refuse_second_body_def)
  then show ?thesis using record_children_full [OF r6(3)] rec(3) by simp
qed

end
