(* ===== verification/Irena_Publish.thy ===== *)
theory Irena_Publish
  imports Irena_Ledger Irena_Frames "HOL-Library.Code_Target_Nat"
begin

text \<open>
  What \<open>irena-ledger\<close> promises: the company that reconstruction returns, that only authorised amendments
  are part of it and that the past does not change; what \<open>publish\<close> does to the chain and to the company
  and when it goes through; and what a genesis founds. The last part is a concrete company, founded and
  amended once on a concrete chain, on which the theorems are applied.
\<close>


section \<open>What reconstruction promises\<close>

lemma try_fold_no_Panic: "(\<And>s x. f s x \<noteq> Panic) \<Longrightarrow> try_fold f s xs \<noteq> Panic"
  by (induction xs arbitrary: s) (auto simp: result_simps)

lemma try_fold_Err: "try_fold f s xs = Err e \<Longrightarrow> \<exists>t x. x \<in> set xs \<and> f t x = Err e"
proof (induction xs arbitrary: s)
  case (Cons x xs)
  then show ?case by (cases "f s x") (simp_all, metis+)
qed simp

lemma read_record_no_Panic [simp]: "read_record tok hexd xml \<noteq> Panic"
  using read_record_valid [of tok hexd xml] by auto

lemma read_entry_no_Panic: "read_entry tok hexd h e \<noteq> Panic"
  by (cases e) (auto simp: read_entry_def Let_def result_simps split: option.splits)

lemma take_record_no_Panic: "take_record state f \<noteq> Panic"
  by (auto simp: take_record_def result_simps found_company_no_Panic apply_record_no_Panic split: option.splits)

lemma scan_block_no_Panic: "scan_block tok hexd state b \<noteq> Panic"
  unfolding scan_block_def
  by (rule try_fold_no_Panic)
    (auto simp: result_simps read_entry_no_Panic take_record_no_Panic split: option.splits)

lemma apply_record_errors: "apply_record s f \<noteq> Err (NoCompany h)"
proof (cases "ref_kind f = CompanyGenesis")
  case False
  then obtain t where "amend_part s f = Ok t" using amend_part_no_Panic by blast
  then show ?thesis
    using False by (auto simp: apply_record_def Let_def split: option.splits result.splits ledger_error.splits)
qed (simp add: apply_record_def Let_def)

lemma scan_block_errors: "scan_block tok hexd state b \<noteq> Err (NoCompany h)"
proof
  assume "scan_block tok hexd state b = Err (NoCompany h)"
  from try_fold_Err [OF this [unfolded scan_block_def]] obtain t e where
    *: "rbind (read_entry tok hexd (h_height (b_header b)) e)
      (\<lambda>found. case found of None \<Rightarrow> Ok t | Some f \<Rightarrow> take_record t f) = Err (NoCompany h)" by blast
  have "read_entry tok hexd k e \<noteq> Err (NoCompany h)" for k
    by (cases e) (auto simp: read_entry_def Let_def result_simps split: option.splits)
  moreover have "take_record t f \<noteq> Err (NoCompany h)" for f
    using apply_record_errors
    by (auto simp: take_record_def result_simps found_company_def split: option.splits record_body.splits)
  ultimately show False using * by (auto simp: result_simps split: option.splits)
qed

lemma reconstruct_no_Panic:
  assumes "decodes_blocks de" and "represents cr bs st"
  shows "reconstruct tok hexd de st at \<noteq> Panic"
proof -
  have "try_fold (scan_block tok hexd) None (upto at bs) \<noteq> Panic"
    by (rule try_fold_no_Panic) (rule scan_block_no_Panic)
  then show ?thesis unfolding reconstruct_represents [OF assms] by (auto simp: result_simps)
qed

lemma reconstruct_no_company:
  assumes "decodes_blocks de" and "represents cr bs st"
  shows "reconstruct tok hexd de st at = Err (NoCompany h) \<longleftrightarrow>
    chain_records tok hexd (upto at bs) = Ok [] \<and> h = min at (head_height (head_of cr bs))"
proof -
  have "try_fold (scan_block tok hexd) None (upto at bs) \<noteq> Err (NoCompany h)"
    using try_fold_Err scan_block_errors by metis
  moreover have "try_fold (scan_block tok hexd) None (upto at bs) = Ok None \<longleftrightarrow> chain_records tok hexd (upto at bs) = Ok []"
    unfolding scan_blocks using company_log.replay_some by auto
  ultimately show ?thesis
    unfolding reconstruct_represents [OF assms] by (auto simp: result_simps)
qed

text \<open>
  C23: Reconstruction is a replay. On every store a program can hold, \<open>reconstruct\<close> never panics and
  returns a state exactly when every transaction in an Irena namespace up to the height holds a
  readable record of that namespace and the records, in chain order, replay: the first founds the
  company and every later one is an amendment the state before it admits. The state is the replayed
  one; and the refusal that there is no company means that there is no Irena record.
\<close>

theorem reconstruction_refines:
  assumes "decodes_blocks de" and "reachable cr de st"
  shows "\<exists>bs. represents cr bs st \<and>
    (\<forall>at s. reconstruct tok hexd de st at = Ok s \<longleftrightarrow>
       (\<exists>rs s0. chain_records tok hexd (upto at bs) = Ok rs \<and> replay_company rs = Ok (Some s0) \<and> s = s0\<lparr>co_at := at\<rparr>)) \<and>
    (\<forall>at h. reconstruct tok hexd de st at = Err (NoCompany h) \<longleftrightarrow>
       chain_records tok hexd (upto at bs) = Ok [] \<and> h = min at (head_height (head_of cr bs))) \<and>
    (\<forall>at. reconstruct tok hexd de st at \<noteq> Panic)"
proof -
  obtain bs where bs: "represents cr bs st" by (rule reachable_represents [OF assms(2,1)])
  show ?thesis
    by (intro exI [of _ bs] conjI allI bs reconstruct_Ok_iff [OF assms(1) bs] reconstruct_no_company [OF assms(1) bs]
        reconstruct_no_Panic [OF assms(1) bs])
qed

lemma company_inv_at [simp]: "company_inv rs (s\<lparr>co_at := h\<rparr>) \<longleftrightarrow> company_inv rs s"
proof -
  have "history_of (s\<lparr>co_at := h\<rparr>) k = history_of s k" "provided (s\<lparr>co_at := h\<rparr>) k f = provided s k f" for k f
    by (simp_all add: history_of_def provided_def)
  then show ?thesis by (simp add: company_inv_def not_locked_out_def)
qed

lemma reconstruct_inv:
  assumes "decodes_blocks de" and "represents cr bs st" and "reconstruct tok hexd de st at = Ok s"
  shows "company_inv (co_applied s) s"
    "chain_records tok hexd (upto at bs) = Ok (co_applied s)"
proof -
  from assms(3) obtain rs s0 where *: "chain_records tok hexd (upto at bs) = Ok rs" "replay_company rs = Ok (Some s0)"
    "s = s0\<lparr>co_at := at\<rparr>" unfolding reconstruct_Ok_iff [OF assms(1,2)] by blast
  from company_log.replay_inv [OF *(2)] have inv: "company_inv rs s0" .
  then have "co_applied s = rs" using *(3) by (simp add: company_inv_def)
  then show "company_inv (co_applied s) s" "chain_records tok hexd (upto at bs) = Ok (co_applied s)"
    using inv *(1,3) by simp_all
qed

lemma lockout_after_None_iff:
  "lockout_after ids a = None \<longleftrightarrow> (\<exists>p \<in> set (persons_for a Company). key_of ids p \<noteq> None)"
  by (simp add: lockout_after_def Let_def)

lemma carried_wf: "wf_body b \<Longrightarrow> carried k b = Some c \<Longrightarrow> wf_body c"
  by (cases b; cases k) (auto simp: carried_def wf_body_def wf_genesis_def split: if_splits)

lemma part_wf:
  assumes "company_inv rs s" and "\<forall>f \<in> set rs. wf_body (rc_body (rr_record f))" and "part_of s k = Some p"
  shows "wf_body (if_value p)"
proof -
  let ?f = "last (history_of s k)"
  have hist: "history_of s k \<noteq> []" "co_applied s = rs" "provided s k ?f" using assms(1) by (simp_all add: company_inv_def)
  then have "?f \<in> set rs" unfolding history_of_def by (metis filter_is_subset last_in_set subset_iff)
  moreover obtain b where "carried k (rc_body (rr_record ?f)) = Some b" "p = from_record ?f b"
    using hist(3) assms(3) by (cases "carried k (rc_body (rr_record ?f))") (simp_all add: provided_def)
  ultimately show ?thesis using assms(2) carried_wf by (auto simp: from_record_def)
qed

lemma reconstruct_wf:
  assumes "decodes_blocks de" and "represents cr bs st" and "reconstruct tok hexd de st at = Ok s"
  shows "wf_shares (if_value (co_shares s))" "wf_channel_set (if_value (co_channels s))"
    "wf_identities (if_value (co_identities s))" "wf_authorisation (if_value (co_authorisation s))"
proof -
  note inv = reconstruct_inv [OF assms]
  have wf: "wf_body (if_value p)" if "part_of s k = Some p" for k p
    using part_wf [OF inv(1) _ that] chain_records_wf [OF inv(2)] by blast
  show "wf_shares (if_value (co_shares s))" "wf_channel_set (if_value (co_channels s))"
    "wf_identities (if_value (co_identities s))" "wf_authorisation (if_value (co_authorisation s))"
    using wf [of ShareStructure] wf [of DecisionChannels] wf [of Identities] wf [of Authorisation]
    by (simp_all add: part_of_def lifted_def wf_body_def)
qed

lemma chain_record_ids:
  assumes "represents cr bs st" and "chain_records tok hexd (upto at bs) = Ok rs" and "f \<in> set rs" and "decodes_blocks de"
  obtains t where "get_transaction de st (rr_tx_id f)
      = Ok (Some \<lparr>lt_height = rr_height f, lt_index = rr_index f, lt_transaction = t\<rparr>)"
    "t_signer t = rr_signer f" "authentic cr t" "read_record tok hexd (text_of_bytes (t_payload t)) = Ok (rr_record f)"
    "namespace_str (t_namespace t) = kind_namespace (ref_kind f)" "rr_height f \<le> at"
proof -
  from chain_records_source [OF assms(2,3)] obtain b i where
    b: "b \<in> set (upto at bs)" "i < length (b_transactions b)" "rr_height f = h_height (b_header b)"
    "rr_index f = word_of_nat i" "rr_tx_id f = t_id (b_transactions b ! i)" "rr_signer f = t_signer (b_transactions b ! i)"
    "read_record tok hexd (text_of_bytes (t_payload (b_transactions b ! i))) = Ok (rr_record f)" "i < 2 ^ 32"
    "namespace_str (t_namespace (b_transactions b ! i)) = kind_namespace (ref_kind f)" .
  obtain j where j: "j < length bs" "j \<le> unat at" "b = bs ! j"
    using b(1) by (auto simp: upto_def in_set_conv_nth less_Suc_eq_le)
  have v: "valid_chain cr (cs_network_id st) bs" by (rule represents_chain [OF assms(1)])
  have "unat (rr_height f) = j" using valid_chain_height [OF v j(1)] j(3) b(3) by simp
  then have h: "rr_height f \<le> at" using j(2) by (simp add: word_le_nat_alt)
  have "authentic cr (b_transactions b ! i)"
    using chain_from_block [of cr "cs_network_id st" None bs b] v j(1,3) b(2)
    by (auto simp: valid_chain_def valid_block_def)
  moreover have "index_u32 i = rr_index f" using b(4,8) by (simp add: index_u32_def try_from_nat_def)
  moreover have "get_transaction de st (t_id (b_transactions b ! i)) =
      Ok (Some \<lparr>lt_height = h_height (b_header b), lt_index = index_u32 i, lt_transaction = b_transactions b ! i\<rparr>)"
    using get_transaction_represents [OF assms(4,1) j(1), of i] b(2) j(3) by simp
  ultimately show thesis using b h by (intro that [of "b_transactions b ! i"]) simp_all
qed

text \<open>
  C21: The company that is reconstructed can always be amended again and accounts for every part: some
  company signer holds a key; the register, channels, identities and authorisation in force are well
  formed; and for every part the records that provided it start with the genesis, each names the
  transaction before it as the one it supersedes, the last one is the provider in force, and the
  value in force is what that record carries. Every record is of this company.
\<close>

theorem company_invariant:
  assumes "decodes_blocks de" and "reachable cr de st" and "reconstruct tok hexd de st at = Ok s"
  shows "(\<exists>p \<in> set (persons_for (if_value (co_authorisation s)) Company). key_of (if_value (co_identities s)) p \<noteq> None) \<and>
    wf_shares (if_value (co_shares s)) \<and> wf_channel_set (if_value (co_channels s)) \<and>
    wf_identities (if_value (co_identities s)) \<and> wf_authorisation (if_value (co_authorisation s)) \<and>
    (\<forall>k. history_of s k \<noteq> [] \<and> supersedes_of (hd (history_of s k)) = None \<and>
       successively (\<lambda>f g. supersedes_of g = Some (rr_tx_id f)) (history_of s k) \<and>
       provided s k (last (history_of s k))) \<and>
    (\<forall>f \<in> set (co_applied s). rc_company (rr_record f) = co_company s)"
proof -
  obtain bs where bs: "represents cr bs st" by (rule reachable_represents [OF assms(2,1)])
  note inv = reconstruct_inv [OF assms(1) bs assms(3)]
  have "hd (history_of s k) = hd (co_applied s)" for k
    using inv(1) by (cases "co_applied s") (auto simp: history_of_def company_inv_def)
  then show ?thesis
    using inv(1) reconstruct_wf [OF assms(1) bs assms(3)]
    by (simp add: company_inv_def not_locked_out_def lockout_after_None_iff)
qed

text \<open>
  C22: Only authorised amendments are part of the company: every record after the genesis was carried by
  a transaction that is on the chain at the recorded place, whose signature verifies under its signer's
  key, and in the company as it was before that record that key was held by a person listed as a
  company signer, and the record named the transaction that then provided its part.
\<close>

theorem amendments_authorised:
  assumes "decodes_blocks de" and "reachable cr de st" and "reconstruct tok hexd de st at = Ok s"
    and "0 < i" and "i < length (co_applied s)"
  shows "\<exists>f before p t. f = co_applied s ! i \<and> replay_company (take i (co_applied s)) = Ok (Some before) \<and>
    p \<in> set (persons (if_value (co_identities before))) \<and> pn_key p = Some (rr_signer f) \<and>
    pn_id p \<in> set (persons_for (if_value (co_authorisation before)) Company) \<and>
    supersedes_of f = Some (provider_of before (ref_kind f)) \<and>
    get_transaction de st (rr_tx_id f) = Ok (Some \<lparr>lt_height = rr_height f, lt_index = rr_index f, lt_transaction = t\<rparr>) \<and>
    t_signer t = rr_signer f \<and> verify_transaction cr t = Ok () \<and> rr_height f \<le> at"
proof -
  obtain bs where bs: "represents cr bs st" by (rule reachable_represents [OF assms(2,1)])
  from assms(3) obtain s0 where run: "replay_company (co_applied s) = Ok (Some s0)"
    unfolding reconstruct_Ok_iff [OF assms(1) bs] using company_log.replay_inv by (force simp: company_inv_def)
  note inv = reconstruct_inv [OF assms(1) bs assms(3)]
  let ?f = "co_applied s ! i"
  from company_signers.replay_inv [OF run] assms(4,5) obtain before u where
    before: "replay_company (take i (co_applied s)) = Ok (Some before)" "amends before ?f u"
    unfolding company_signed_def by blast
  then obtain p where "authorised_signer before Company (rr_signer ?f) = Ok p"
    and link: "supersedes_of ?f = Some (provider_of before (ref_kind ?f))" unfolding amends_def by blast
  then have p: "holder_of (if_value (co_identities before)) (rr_signer ?f) = Some p"
    "allows (if_value (co_authorisation before)) (pn_id p) Company"
    by (simp_all add: authorised_signer_def signer_of_Ok_iff)
  have binv: "company_inv (take i (co_applied s)) before" by (rule company_log.replay_inv [OF before(1)])
  have all_wf: "\<forall>f \<in> set (take i (co_applied s)). wf_body (rc_body (rr_record f))"
    using chain_records_wf [OF inv(2)] by (blast dest: in_set_takeD)
  have "wf_identities (if_value (co_identities before))" "wf_authorisation (if_value (co_authorisation before))"
    using part_wf [OF binv all_wf, of Identities] part_wf [OF binv all_wf, of Authorisation]
    by (simp_all add: part_of_def lifted_def wf_body_def)
  then have "p \<in> set (persons (if_value (co_identities before)))" "pn_key p = Some (rr_signer ?f)"
    "pn_id p \<in> set (persons_for (if_value (co_authorisation before)) Company)"
    using p by (simp_all add: holder_of_Some_iff allows_iff)
  moreover obtain t where "get_transaction de st (rr_tx_id ?f)
      = Ok (Some \<lparr>lt_height = rr_height ?f, lt_index = rr_index ?f, lt_transaction = t\<rparr>)"
    "t_signer t = rr_signer ?f" "authentic cr t" "rr_height ?f \<le> at"
    using chain_record_ids [OF bs inv(2) nth_mem [OF assms(5)] assms(1)] by metis
  ultimately show ?thesis using before(1) link unfolding authentic_def by blast
qed

lemma reconstruct_extends:
  assumes de: "decodes_blocks de" and bs: "represents cr bs st" and new: "represents cr (bs @ new) st'" and h: "unat at < length bs"
  shows "reconstruct tok hexd de st' at = reconstruct tok hexd de st at"
proof -
  have u: "upto at (bs @ new) = upto at bs" using h by (simp add: upto_def)
  have "unat at \<le> unat (head_height (head_of cr (bs @ new)))" "unat at \<le> unat (head_height (head_of cr bs))"
    using h head_height_represents(1) [OF new] head_height_represents(1) [OF bs] by simp_all
  then have "min at (head_height (head_of cr (bs @ new))) = at" "min at (head_height (head_of cr bs)) = at"
    by (simp_all add: min_def word_le_nat_alt)
  then show ?thesis
    unfolding reconstruct_represents [OF de bs] reconstruct_represents [OF de new] u by simp
qed

text \<open>
  C24: The past does not change: whatever is done to a store afterwards, appends that succeed, fail or do
  not commit, and reopening, the company at a height that was already on the chain is reconstructed to
  the same result, be it a state or a refusal.
\<close>

theorem company_past_fixed:
  assumes "decodes_blocks de" and "reachable cr de st" and "store_steps cr de st st'"
    and "store_head st = Ok head" and "at \<le> head_height head"
  shows "reconstruct tok hexd de st' at = reconstruct tok hexd de st at"
proof -
  obtain bs where bs: "represents cr bs st" by (rule reachable_represents [OF assms(2,1)])
  obtain new where new: "represents cr (bs @ new) st'" using store_steps_represents [OF assms(3,1) bs] by blast
  have head: "head = head_of cr bs" using assms(4) by (simp add: store_head_def read_head_represents [OF bs])
  then have "unat at < length bs"
    using assms(5) head_height_represents [OF bs] by (cases bs) (auto simp: word_le_nat_alt)
  then show ?thesis by (rule reconstruct_extends [OF assms(1) bs new])
qed

section \<open>Publishing\<close>

lemma kind_namespace_label: "wf_label (kind_namespace k)"
proof -
  have "\<forall>k \<in> set ALL_KINDS. validate_label (kind_namespace k) = Ok ()" by code_simp
  moreover have "k \<in> set ALL_KINDS" by (cases k) (simp_all add: ALL_KINDS_def)
  ultimately show ?thesis by (simp add: wf_label_def)
qed

abbreviation record_transaction :: "crypto \<Rightarrow> digest \<Rightarrow> record_kind \<Rightarrow> string \<Rightarrow> u64 \<Rightarrow> transaction" where
  "record_transaction cr seed kind payload nonce \<equiv>
     sealed_tx cr seed (kind_namespace kind) RECORD_SCHEMA_VERSION (str_bytes payload) nonce"

lemma transaction_for_Ok: "transaction_for cr seed kind payload nonce = Ok (record_transaction cr seed kind payload nonce)"
  using kind_namespace_label [of kind]
  by (simp add: transaction_for_def sealed_tx_def namespace_new_def wf_label_def)

lemma record_transaction_wf: "is_string payload \<Longrightarrow> wf_transaction (record_transaction cr seed kind payload nonce)"
  by (rule sealed_tx_wf [OF kind_namespace_label]) (simp add: is_string_def fits_u32_def)

lemma record_read_back:
  assumes "is_string payload" and "read_record tok hexd payload = Ok r" and "record_kind_of r = kind"
  shows "read_entry tok hexd h (0, record_transaction cr seed kind payload nonce) =
    Ok (Some \<lparr>rr_height = h, rr_index = 0, rr_tx_id = t_id (record_transaction cr seed kind payload nonce),
              rr_signer = ed_public cr seed, rr_record = r\<rparr>)"
  using assms by (simp add: read_entry_Some_iff is_string_def)

abbreviation publish_block :: "crypto \<Rightarrow> digest \<Rightarrow> record_kind \<Rightarrow> string \<Rightarrow> block \<Rightarrow> u64 \<Rightarrow> block_height \<Rightarrow> block" where
  "publish_block cr seed kind payload parent ms h \<equiv>
     sealed_block cr parent (record_transaction cr seed kind payload h) ms h"

text \<open>After the checks, what is left of \<open>publish_draft\<close> is one block on the head.\<close>

lemma publish_draft_represents:
  assumes "decodes_blocks de" and "represents cr bs st"
  shows "publish_draft tok hexd cr de st seed kind body supersedes n ms =
    (if kind = CompanyGenesis then Err (LedgerMalformed FoundedOnce)
     else rbind (company_now tok hexd de st) (\<lambda>s.
       rbind (authorised_signer s Company (ed_public cr seed)) (\<lambda>_.
       if supersedes \<noteq> Some (provider_of s kind) then Err (StaleAmendment kind (provider_of s kind) supersedes)
       else rbind (rmap_err LedgerRecord (compose_record tok hexd kind (co_company s) supersedes n body)) (\<lambda>payload.
         rbind (rmap_err LedgerRecord (read_record tok hexd payload)) (\<lambda>r.
         case lockout_of_amendment s (rc_body r) of
           Some detail \<Rightarrow> Err (LockedOut detail)
         | None \<Rightarrow> rbind (rmap_err LedgerCore (height_next (h_height (b_header (last bs))))) (\<lambda>h.
             Ok (publish_block cr seed kind payload (last bs) ms h, t_id (record_transaction cr seed kind payload h), h)))))))"
proof -
  note head = head_block_represents [OF assms]
  have tail: "rbind (rmap_err LedgerStore (store_head st)) (\<lambda>head.
      rbind (rmap_err LedgerStore (get_block de st (head_height head))) (\<lambda>found.
      rbind (ok_or (LedgerMalformed (NoHeadBlock head)) found) (\<lambda>parent.
      rbind (rmap_err LedgerCore (height_next (head_height head))) (\<lambda>height.
      rbind (transaction_for cr seed kind payload height) (\<lambda>t.
      rbind (rmap_err LedgerCore (rbind (child_draft cr (b_header parent) [t] ms) (draft_build cr))) (\<lambda>b.
      Ok (b, t_id t, height))))))) =
    rbind (rmap_err LedgerCore (height_next (h_height (b_header (last bs))))) (\<lambda>h.
      Ok (publish_block cr seed kind payload (last bs) ms h, t_id (record_transaction cr seed kind payload h), h))" for payload
  proof (cases "height_next (h_height (b_header (last bs)))")
    case (Ok h)
    then show ?thesis
      using sealed_build [OF Ok]
      by (simp add: head(1) head(2) [unfolded head(3)] head(3) transaction_for_Ok)
  qed (simp_all add: head(1) head(2) [unfolded head(3)] head(3))
  show ?thesis by (simp only: publish_draft_def tail)
qed

lemma publish_draft_Ok:
  assumes "decodes_blocks de" and "represents cr bs st"
    and "publish_draft tok hexd cr de st seed kind body supersedes n ms = Ok (b, i, h)"
  obtains s payload r where "kind \<noteq> CompanyGenesis" "company_now tok hexd de st = Ok s"
    "\<exists>p. authorised_signer s Company (ed_public cr seed) = Ok p" "supersedes = Some (provider_of s kind)"
    "compose_record tok hexd kind (co_company s) supersedes n body = Ok payload"
    "read_record tok hexd payload = Ok r" "lockout_of_amendment s (rc_body r) = None"
    "unat h = length bs" "b = publish_block cr seed kind payload (last bs) ms h"
    "i = t_id (record_transaction cr seed kind payload h)"
  using assms(3) unfolding publish_draft_represents [OF assms(1,2)]
  by (auto simp: result_simps next_height_represents [OF assms(2)] split: if_splits option.splits)

lemma company_now_no_Panic: "decodes_blocks de \<Longrightarrow> represents cr bs st \<Longrightarrow> company_now tok hexd de st \<noteq> Panic"
  by (simp add: company_now_represents reconstruct_no_Panic)

lemma authorised_signer_no_Panic: "authorised_signer s family key \<noteq> Panic"
  by (simp add: authorised_signer_def signer_of_def split: option.split)

lemma height_next_no_Panic: "height_next h \<noteq> Panic"
  by (simp add: height_next_def result_simps)

lemma publish_draft_no_Panic:
  assumes "decodes_blocks de" and "represents cr bs st"
  shows "publish_draft tok hexd cr de st seed kind body supersedes n ms \<noteq> Panic"
proof -
  have "compose_record tok hexd kind company supersedes n body \<noteq> Panic" for company
    using compose_record_valid [of tok hexd kind company supersedes n body] by auto
  then show ?thesis
    unfolding publish_draft_represents [OF assms]
    by (auto simp: result_simps company_now_no_Panic [OF assms] authorised_signer_no_Panic height_next_no_Panic split: option.split)
qed

lemma amends_at: "amends (s\<lparr>co_at := x\<rparr>) f u \<longleftrightarrow> (\<exists>s'. amends s f s' \<and> u = s'\<lparr>co_at := x\<rparr>)"
proof -
  have a: "amend_part (s\<lparr>co_at := x\<rparr>) f = (case amend_part s f of Ok t \<Rightarrow> Ok (t\<lparr>co_at := x\<rparr>) | Err e \<Rightarrow> Err e | Panic \<Rightarrow> Panic)"
    by (cases "rc_body (rr_record f)") (simp_all add: amend_part_def)
  show ?thesis
    by (cases "amend_part s f") (auto simp: amends_def a authorised_signer_def)
qed

text \<open>An amendment that \<open>publish\<close> lets through is one that reconstruction admits.\<close>

lemma admitted:
  assumes "not_locked_out s" and "kind \<noteq> CompanyGenesis" and "\<exists>p. authorised_signer s Company (rr_signer f) = Ok p"
    and "supersedes_of f = Some (provider_of s kind)" and "ref_kind f = kind" and "rc_company (rr_record f) = co_company s"
    and "lockout_of_amendment s (rc_body (rr_record f)) = None"
  obtains s' where "amends s f s'"
proof -
  from assms(2,5) obtain t where t: "amend_part s f = Ok t" using amend_part_no_Panic by blast
  have "lockout_after (if_value (co_identities t)) (if_value (co_authorisation t)) = None"
    using assms(1,7) t
    by (cases "rc_body (rr_record f)")
      (auto simp: amend_part_def lockout_of_amendment_def not_locked_out_def from_record_def)
  then have "amends s f (t\<lparr>co_applied := co_applied s @ [f]\<rparr>)"
    using assms(2-6) t by (simp add: amends_def)
  then show thesis by (rule that)
qed

lemma upto_snoc_records:
  assumes "chain_records tok hexd bs = Ok rs" and "b_transactions b = [t]"
    and "read_entry tok hexd (h_height (b_header b)) (0, t) = Ok (Some f)"
  shows "chain_records tok hexd (bs @ [b]) = Ok (rs @ [f])"
proof -
  have "chain_entries [b] = [(h_height (b_header b), 0, t)]" by (simp add: chain_entries_def assms(2))
  then show ?thesis
    using assms(1,3) unfolding chain_records_def by (simp only: chain_entries_append read_all_append) simp
qed

lemma publish_drafted:
  assumes "decodes_blocks de" and "represents cr bs st" and "length (chain_ids bs) + 1 < 2 ^ 64"
    and "\<forall>s xml. company_now tok hexd de st = Ok s \<longrightarrow>
      compose_record tok hexd kind (co_company s) supersedes n body = Ok xml \<longrightarrow> is_string xml"
    and draft: "publish_draft tok hexd cr de st seed kind body supersedes n ms = Ok (b, i, h)"
  shows "(\<exists>e. publish tok hexd cr de io st seed kind body supersedes n ms = (st, Err e)) \<or>
    (\<exists>st' f s s'. publish tok hexd cr de io st seed kind body supersedes n ms = (st', Ok f) \<and>
      company_now tok hexd de st = Ok s \<and> amends s f s' \<and> represents cr (bs @ [b]) st' \<and>
      rr_height f = h_height (b_header b) \<and> company_now tok hexd de st' = Ok (s'\<lparr>co_at := rr_height f\<rparr>) \<and>
      ref_kind f = kind \<and> supersedes_of f = supersedes \<and> rc_notarisation (rr_record f) = n \<and>
      rr_signer f = ed_public cr seed)"
proof -
  from publish_draft_Ok [OF assms(1,2) draft] obtain s payload r where
    s: "kind \<noteq> CompanyGenesis" "company_now tok hexd de st = Ok s" "\<exists>p. authorised_signer s Company (ed_public cr seed) = Ok p"
      "supersedes = Some (provider_of s kind)"
    and r: "compose_record tok hexd kind (co_company s) supersedes n body = Ok payload"
      "read_record tok hexd payload = Ok r" "lockout_of_amendment s (rc_body r) = None"
    and h: "unat h = length bs" and b: "b = publish_block cr seed kind payload (last bs) ms h"
      "i = t_id (record_transaction cr seed kind payload h)" .
  have rb: "record_kind_of r = kind" "rc_company r = co_company s" "rc_supersedes r = supersedes" "rc_notarisation r = n"
    using compose_record_Ok [OF r(1)] r(2) by (metis result.inject(1))+
  have str: "is_string payload" using assms(4) s(2) r(1) by blast
  let ?t = "record_transaction cr seed kind payload h"
  let ?f = "\<lparr>rr_height = h, rr_index = 0, rr_tx_id = i, rr_signer = ed_public cr seed, rr_record = r\<rparr>"
  show ?thesis
  proof (rule append_sealed_cases [OF assms(1-3) record_transaction_wf [OF str, where cr = cr and kind = kind] h, where io = io and ms = ms])
    fix e assume "append_block cr de io st (publish_block cr seed kind payload (last bs) ms h) = (st, Err e)"
    then show ?thesis by (simp add: publish_def draft b(1))
  next
    fix st' out
    assume ok: "append_block cr de io st (publish_block cr seed kind payload (last bs) ms h) = (st', Ok out)"
      and rep: "represents cr (bs @ [publish_block cr seed kind payload (last bs) ms h]) st'"
    note rep = rep [folded b(1)]
    have pub: "publish tok hexd cr de io st seed kind body supersedes n ms = (st', Ok ?f)"
      using str r(2) sealed_get [OF assms(1) rep [unfolded b(1)]]
      by (simp add: publish_def draft b ok is_string_def)
    from s(2) obtain rs s0 where now: "chain_records tok hexd bs = Ok rs" "replay_company rs = Ok (Some s0)"
      "s = s0\<lparr>co_at := head_height (head_of cr bs)\<rparr>"
      unfolding company_now_Ok_iff [OF assms(1,2)] by blast
    have "not_locked_out s0" using company_log.replay_inv [OF now(2)] by (simp add: company_inv_def)
    then have "not_locked_out s" by (simp add: now(3) not_locked_out_def)
    then obtain s' where s': "amends s ?f s'"
      using admitted [of s kind ?f] s r(3) rb by auto
    then obtain u where u: "amends s0 ?f u" "s' = u\<lparr>co_at := head_height (head_of cr bs)\<rparr>"
      unfolding now(3) amends_at by blast
    have "chain_records tok hexd (bs @ [b]) = Ok (rs @ [?f])"
      using upto_snoc_records [OF now(1), of b ?t] record_read_back [OF str r(2) rb(1)] by (simp add: b)
    moreover have "replay_company (rs @ [?f]) = Ok (Some u)"
      using u(1) by (simp add: replay_snoc now(2) replay_step_def apply_record_Ok_iff [symmetric])
    moreover have "head_height (head_of cr (bs @ [b])) = h" by (simp add: head_of_def b(1))
    ultimately have "company_now tok hexd de st' = Ok (s'\<lparr>co_at := h\<rparr>)"
      unfolding company_now_Ok_iff [OF assms(1) rep] by (auto simp: u(2))
    then show ?thesis using s(2) s' rep b(1) rb by (auto simp: pub)
  qed
qed

text \<open>
  C25: Publishing an amendment either changes nothing or amends the company as asked. When \<open>publish\<close>
  returns a record, the chain has grown by one block that carries it, the company at the head before
  the call admits the record (an authorised key, the provider of its part superseded, no lockout), and
  reconstructing the company at the new head gives exactly the amended company, with the kind, the
  predecessor and the notarisation asked for. When it returns an error, the store is unchanged. It
  does not panic.
\<close>

theorem publish_exact:
  assumes "decodes_blocks de" and "represents cr bs st" and "length (chain_ids bs) + 1 < 2 ^ 64"
    and "\<And>s xml. company_now tok hexd de st = Ok s \<Longrightarrow>
      compose_record tok hexd kind (co_company s) supersedes n body = Ok xml \<Longrightarrow> is_string xml"
  shows "case publish tok hexd cr de io st seed kind body supersedes n ms of
      (st', Ok f) \<Rightarrow> \<exists>s s' b. company_now tok hexd de st = Ok s \<and> amends s f s' \<and>
        represents cr (bs @ [b]) st' \<and> rr_height f = h_height (b_header b) \<and>
        company_now tok hexd de st' = Ok (s'\<lparr>co_at := rr_height f\<rparr>) \<and>
        ref_kind f = kind \<and> supersedes_of f = supersedes \<and> rc_notarisation (rr_record f) = n \<and>
        rr_signer f = ed_public cr seed
    | (st', Err e) \<Rightarrow> st' = st
    | (st', Panic) \<Rightarrow> False"
proof (cases "publish_draft tok hexd cr de st seed kind body supersedes n ms")
  case Panic
  then show ?thesis using publish_draft_no_Panic [OF assms(1,2)] by blast
next
  case (Err e)
  then show ?thesis by (simp add: publish_def)
next
  case (Ok draft)
  obtain b i h where "draft = (b, i, h)" by (cases draft)
  moreover have "\<forall>s xml. company_now tok hexd de st = Ok s \<longrightarrow>
      compose_record tok hexd kind (co_company s) supersedes n body = Ok xml \<longrightarrow> is_string xml"
    using assms(4) by blast
  ultimately show ?thesis
    using publish_drafted [OF assms(1-3), where io = io] Ok by fastforce
qed

lemma publish_goes_through:
  assumes de: "decodes_blocks de" and rep: "represents cr bs st" and room: "length (chain_ids bs) + 1 < 2 ^ 64"
    and "signatures_verify cr" and "kind \<noteq> CompanyGenesis" and "company_now tok hexd de st = Ok s"
    and "\<exists>p. authorised_signer s Company (ed_public cr seed) = Ok p"
    and "compose_record tok hexd kind (co_company s) (Some (provider_of s kind)) n body = Ok payload"
    and "is_string payload" and "read_record tok hexd payload = Ok r" and "lockout_of_amendment s (rc_body r) = None"
    and "h_timestamp_millis (b_header (last bs)) \<le> ms" and "length bs < 2 ^ 64"
    and "t_id (record_transaction cr seed kind payload (word_of_nat (length bs))) \<notin> set (chain_ids bs)"
  shows "\<exists>st' f. publish tok hexd cr de True st seed kind body (Some (provider_of s kind)) n ms = (st', Ok f)"
proof -
  let ?h = "word_of_nat (length bs) :: block_height"
  let ?t = "record_transaction cr seed kind payload ?h"
  have h: "unat ?h = length bs" using assms(13) by (simp add: unat_of_nat take_bit_nat_eq_self)
  have draft: "publish_draft tok hexd cr de st seed kind body (Some (provider_of s kind)) n ms =
      Ok (publish_block cr seed kind payload (last bs) ms ?h, t_id ?t, ?h)"
    using assms(5-8,10,11) h [folded next_height_represents [OF rep]]
    by (auto simp: publish_draft_represents [OF de rep])
  obtain st' out where ok: "append_block cr de True st (publish_block cr seed kind payload (last bs) ms ?h) = (st', Ok out)"
    "represents cr (bs @ [publish_block cr seed kind payload (last bs) ms ?h]) st'"
    using append_sealed_accepts [OF de rep room record_transaction_wf [OF assms(9)] sealed_tx_authentic [OF assms(4)] h
        assms(12,14)] by metis
  then show ?thesis
    using assms(9,10) sealed_get [OF de ok(2)] by (simp add: publish_def draft is_string_def)
qed

text \<open>
  C26: An amendment that should go through does: when the company at the head names the signing key's
  holder as a company signer, the composed record is a valid document, it leaves some company signer
  with a key, and the block can follow the head (its time is not before the head's, there is room for
  one more height and counter, and the new transaction's id is fresh), \<open>publish\<close> naming the provider in
  force returns the record, and the company is amended by it.
\<close>

theorem publish_accepts:
  assumes "decodes_blocks de" and "represents cr bs st" and "length (chain_ids bs) + 1 < 2 ^ 64"
    and "signatures_verify cr" and "kind \<noteq> CompanyGenesis" and "company_now tok hexd de st = Ok s"
    and "holder_of (if_value (co_identities s)) (ed_public cr seed) = Some p"
    and "allows (if_value (co_authorisation s)) (pn_id p) Company"
    and "compose_record tok hexd kind (co_company s) (Some (provider_of s kind)) n body = Ok payload"
    and "is_string payload" and "read_record tok hexd payload = Ok r" and "lockout_of_amendment s (rc_body r) = None"
    and "h_timestamp_millis (b_header (last bs)) \<le> ms" and "length bs < 2 ^ 64"
    and "t_id (record_transaction cr seed kind payload (word_of_nat (length bs))) \<notin> set (chain_ids bs)"
  shows "\<exists>st' f. publish tok hexd cr de True st seed kind body (Some (provider_of s kind)) n ms = (st', Ok f)"
proof -
  have "authorised_signer s Company (ed_public cr seed) = Ok p"
    using assms(7,8) by (simp add: authorised_signer_def signer_of_Ok_iff)
  then show ?thesis by (intro publish_goes_through [OF assms(1-6) _ assms(9-15)]) blast
qed

section \<open>Founding\<close>

lemma genesis_with_company_Ok:
  assumes "genesis_with_company tok hexd cr network seed company xml n ms = Ok spec"
  obtains g payload where "read_company_genesis_document tok hexd xml = Ok g"
    "lockout_after (cg_identities g) (cg_authorisation g) = None"
    "compose_record tok hexd CompanyGenesis company None n xml = Ok payload"
    "spec = \<lparr>gs_network_id = network, gs_timestamp_millis = ms,
       gs_transactions = [record_transaction cr seed CompanyGenesis payload 0]\<rparr>"
proof -
  obtain g where g: "read_company_genesis_document tok hexd xml = Ok g"
    using assms by (auto simp: genesis_with_company_def result_simps)
  moreover from this have l: "lockout_after (cg_identities g) (cg_authorisation g) = None"
    using assms by (cases "lockout_after (cg_identities g) (cg_authorisation g)") (simp_all add: genesis_with_company_def)
  moreover from g l obtain payload where "compose_record tok hexd CompanyGenesis company None n xml = Ok payload"
    using assms by (auto simp: genesis_with_company_def result_simps)
  ultimately show thesis using that assms by (simp add: genesis_with_company_def transaction_for_Ok)
qed

lemma init_genesis_one:
  assumes "authentic cr t" and "wf_label (network_id_str network)" and "wf_transaction t"
  shows "\<exists>st b. init_genesis cr True True NoFile \<lparr>gs_network_id = network, gs_timestamp_millis = ms, gs_transactions = [t]\<rparr>
    = (ChainFile (cs_database st), Ok st) \<and> represents cr [b] st \<and> b_transactions b = [t] \<and> h_height (b_header b) = 0 \<and>
      h_timestamp_millis (b_header b) = ms"
proof -
  let ?spec = "\<lparr>gs_network_id = network, gs_timestamp_millis = ms, gs_transactions = [t]\<rparr>"
  let ?b = "\<lparr>b_header = \<lparr>h_version = HEADER_VERSION, h_network_id = network, h_height = GENESIS, h_previous_hash = 0,
     h_tx_root = merkle_root cr [t_id t], h_tx_count = 1, h_timestamp_millis = ms\<rparr>, b_transactions = [t]\<rparr>"
  have build: "genesis_build cr ?spec = Ok ?b" by (simp add: genesis_build_Ok_iff fits_u32_def)
  have "valid_block cr network None ?b"
    using assms(1) by (simp add: valid_block_def follows_def GENESIS_def)
  then have "policy_evaluate cr
      \<lparr>ac_network_id = network, ac_genesis_hash = g, ac_head = None, ac_parent = None,
       ac_committed = committed_lookup empty_database {}\<rparr> ?b = Ok ()" for g
    by (simp add: policy_evaluate_def acceptance_block_context_def Let_def check_block_empty_iff
        fresh_ids_def committed_lookup_def empty_database_def)
  then obtain db where "write_genesis cr network (block_hash cr ?b) ?b = Ok db" by (simp add: write_genesis_def)
  then have "init_genesis cr True True NoFile ?spec =
      (ChainFile db, Ok \<lparr>cs_database = db, cs_network_id = network, cs_genesis_hash = block_hash cr ?b\<rparr>)"
    by (simp add: init_genesis_def build Let_def)
  then obtain st where st: "init_genesis cr True True NoFile ?spec = (ChainFile (cs_database st), Ok st)"
    by (metis chain_store.select_convs(1))
  from init_genesis_represents [OF st] assms(2,3) build show ?thesis
    using st by (auto simp: GENESIS_def)
qed

lemma founded_state:
  assumes de: "decodes_blocks de" and sig: "signatures_verify cr" and "wf_label (network_id_str network)"
    and "is_string payload" and "read_record tok hexd payload = Ok r" and "rc_body r = BodyGenesis g"
    and "rc_supersedes r = None" and "lockout_after (cg_identities g) (cg_authorisation g) = None"
  obtains st b s where "init_genesis cr True True NoFile \<lparr>gs_network_id = network, gs_timestamp_millis = ms,
      gs_transactions = [record_transaction cr seed CompanyGenesis payload 0]\<rparr> = (ChainFile (cs_database st), Ok st)"
    "represents cr [b] st" "b_transactions b = [record_transaction cr seed CompanyGenesis payload 0]"
    "h_timestamp_millis (b_header b) = ms"
    "found_company \<lparr>rr_height = 0, rr_index = 0, rr_tx_id = t_id (record_transaction cr seed CompanyGenesis payload 0),
       rr_signer = ed_public cr seed, rr_record = r\<rparr> = Ok s"
    "company_now tok hexd de st = Ok (s\<lparr>co_at := 0\<rparr>)"
proof -
  let ?t = "record_transaction cr seed CompanyGenesis payload 0"
  let ?f = "\<lparr>rr_height = 0, rr_index = 0, rr_tx_id = t_id ?t, rr_signer = ed_public cr seed, rr_record = r\<rparr>"
  from init_genesis_one [OF sealed_tx_authentic [OF sig] assms(3) record_transaction_wf [OF assms(4)]] obtain st b where
    st: "init_genesis cr True True NoFile \<lparr>gs_network_id = network, gs_timestamp_millis = ms, gs_transactions = [?t]\<rparr>
      = (ChainFile (cs_database st), Ok st)" "represents cr [b] st" "b_transactions b = [?t]" "h_height (b_header b) = 0"
    "h_timestamp_millis (b_header b) = ms" by blast
  obtain s where s: "found_company ?f = Ok s" using assms(6-8) by (auto simp: found_company_Ok_iff)
  have kind: "record_kind_of r = CompanyGenesis" using assms(6) by (simp add: record_kind_of_def body_kind_def)
  have "chain_records tok hexd ([] @ [b]) = Ok ([] @ [?f])"
    using record_read_back [OF assms(4,5) kind] st(3,4)
    by (intro upto_snoc_records) (simp_all add: chain_records_def chain_entries_def)
  moreover have "replay_company ([] @ [?f]) = Ok (Some s)"
    using s by (simp only: replay_snoc) (simp add: replay_step_def)
  moreover have "head_height (head_of cr [b]) = 0" using st(4) by (simp add: head_of_def)
  ultimately have "company_now tok hexd de st = Ok (s\<lparr>co_at := 0\<rparr>)"
    unfolding company_now_Ok_iff [OF de st(2)] by auto
  then show thesis by (rule that [OF st(1-3) st(5) s])
qed

text \<open>
  C27: A genesis founds its company: when \<open>genesis_with_company\<close> accepts a body, creating a chain from the
  specification it returns succeeds, and the company at height 0 is exactly the body's, part by part,
  under the id and notarisation given, provided by the one transaction, which the founding key signed.
  Of the tokenizer it is assumed only that it yields the same events for the body inside the record as in
  its own document; that the record's reader makes the same company of them is part of the theorem.
\<close>

theorem genesis_founds:
  assumes "decodes_blocks de" and "signatures_verify cr" and "wf_label (network_id_str network)"
    and "genesis_with_company tok hexd cr network seed company xml n ms = Ok spec"
    and "\<And>payload. compose_record tok hexd CompanyGenesis company None n xml = Ok payload \<Longrightarrow> is_string payload"
    and "\<And>payload. compose_record tok hexd CompanyGenesis company None n xml = Ok payload \<Longrightarrow>
      embedded (events (tok xml)) (events (tok payload))"
  shows "\<exists>st s g f. init_genesis cr True True NoFile spec = (ChainFile (cs_database st), Ok st) \<and>
    read_company_genesis_document tok hexd xml = Ok g \<and> company_now tok hexd de st = Ok s \<and>
    co_company s = company \<and> co_at s = 0 \<and> co_applied s = [f] \<and> rr_signer f = ed_public cr seed \<and>
    rc_notarisation (rr_record f) = n \<and> map t_id (gs_transactions spec) = [rr_tx_id f] \<and>
    if_value (co_identity s) = cg_identity g \<and> if_value (co_shares s) = cg_shares g \<and>
    if_value (co_channels s) = cg_channels g \<and> if_value (co_identities s) = cg_identities g \<and>
    if_value (co_authorisation s) = cg_authorisation g \<and> (\<forall>k. provider_of s k = rr_tx_id f)"
proof -
  from genesis_with_company_Ok [OF assms(4)] obtain g payload where g: "read_company_genesis_document tok hexd xml = Ok g"
    "lockout_after (cg_identities g) (cg_authorisation g) = None"
    and payload: "compose_record tok hexd CompanyGenesis company None n xml = Ok payload"
    and spec: "spec = \<lparr>gs_network_id = network, gs_timestamp_millis = ms,
       gs_transactions = [record_transaction cr seed CompanyGenesis payload 0]\<rparr>" .
  from compose_record_Ok [OF payload] obtain r where r: "read_record tok hexd payload = Ok r"
    "rc_company r = company" "rc_supersedes r = None" "rc_notarisation r = n" by metis
  have body: "rc_body r = BodyGenesis g" by (rule embedded_genesis [OF g(1) r(1) assms(6) [OF payload]])
  from founded_state [OF assms(1-3) assms(5) [OF payload] r(1) body r(3) g(2), of ms seed, folded spec] obtain st b s where
    st: "init_genesis cr True True NoFile spec = (ChainFile (cs_database st), Ok st)"
    "found_company \<lparr>rr_height = 0, rr_index = 0, rr_tx_id = t_id (record_transaction cr seed CompanyGenesis payload 0),
       rr_signer = ed_public cr seed, rr_record = r\<rparr> = Ok s"
    "company_now tok hexd de st = Ok (s\<lparr>co_at := 0\<rparr>)" by metis
  have "provider_of s k = t_id (record_transaction cr seed CompanyGenesis payload 0)" for k
    using st(2) body by (cases k) (auto simp: found_company_Ok_iff provider_of_def from_record_def)
  then show ?thesis
    using st g r body
    by (intro exI [of _ st] exI [of _ "s\<lparr>co_at := 0\<rparr>"] exI [of _ g] exI [of _ "hd (co_applied s)"])
      (auto simp: found_company_Ok_iff from_record_def spec)
qed

text \<open>Whatever it returns, a publication is a step of the store.\<close>

lemma publish_steps:
  assumes "decodes_blocks de" and "represents cr bs st"
    and "\<forall>s xml. company_now tok hexd de st = Ok s \<longrightarrow>
      compose_record tok hexd kind (co_company s) supersedes n body = Ok xml \<longrightarrow> is_string xml"
    and "publish tok hexd cr de io st seed kind body supersedes n ms = (st', res)"
  shows "store_steps cr de st st'"
proof (cases "publish_draft tok hexd cr de st seed kind body supersedes n ms")
  case (Ok draft)
  obtain b i h where draft: "draft = (b, i, h)" by (cases draft)
  show ?thesis
  proof (rule publish_draft_Ok [OF assms(1,2) Ok [unfolded draft]])
    fix s payload
    assume p: "company_now tok hexd de st = Ok s" "compose_record tok hexd kind (co_company s) supersedes n body = Ok payload"
      and b: "b = publish_block cr seed kind payload (last bs) ms h"
    obtain q where "append_block cr de io st b = (st', q)"
      using assms(4) by (cases "append_block cr de io st b") (auto simp: publish_def Ok draft split: result.splits)
    then show ?thesis
      using append_sealed_step [OF assms(2) record_transaction_wf] assms(3) p b by metis
  qed
qed (use assms(4) in \<open>simp_all add: publish_def store_steps.no_step\<close>)

lemma publish_Ok:
  assumes "decodes_blocks de" and "represents cr bs st" and "length (chain_ids bs) + 1 < 2 ^ 64"
    and "\<forall>s xml. company_now tok hexd de st = Ok s \<longrightarrow>
      compose_record tok hexd kind (co_company s) supersedes n body = Ok xml \<longrightarrow> is_string xml"
    and "publish tok hexd cr de io st seed kind body supersedes n ms = (st', Ok f)"
    and "company_now tok hexd de st = Ok s"
  obtains s' b where "amends s f s'" "represents cr (bs @ [b]) st'"
    "company_now tok hexd de st' = Ok (s'\<lparr>co_at := rr_height f\<rparr>)"
proof (cases "publish_draft tok hexd cr de st seed kind body supersedes n ms")
  case (Ok draft)
  obtain b i h where "draft = (b, i, h)" by (cases draft)
  then show thesis using publish_drafted [OF assms(1-4), where io = io] Ok assms(5,6) that by fastforce
qed (use assms(5) in \<open>simp_all add: publish_def\<close>)

section \<open>A concrete company\<close>

text \<open>
  A company with two holders, a board of one that decides alone, the members who vote and one person who
  signs its records, its founding document and an amendment of its identity, and the events quick-xml reads
  them as.
\<close>

abbreviation tag :: "string \<Rightarrow> (string \<times> string) list \<Rightarrow> xml_tag" where
  "tag name attrs \<equiv> \<lparr>tag_name = name, tag_attributes = map (\<lambda>(a, v). XmlAttribute a v) attrs\<rparr>"

definition sample_key_text :: string where
  "sample_key_text = ''0000000000000000000000000000000000000000000000000000000000000010''"

definition sample_company_text :: string where
  "sample_company_text = ''<company-genesis>...</company-genesis>''"

definition sample_voting_rules :: "xml_event list" where
  "sample_voting_rules =
     [EvStart (tag ''voting-rules'' [(''version'', ''1.0'')]), EvEmpty (tag ''weight'' [(''type'', ''electorate'')]),
      EvEmpty (tag ''exclusions'' [(''enabled'', ''true'')]),
      EvEmpty (tag ''quorum'' [(''type'', ''fraction''), (''numerator'', ''1''), (''denominator'', ''2''), (''basis'', ''total-electorate'')]),
      EvEmpty (tag ''threshold'' [(''type'', ''simple-majority''), (''basis'', ''votes-cast'')]),
      EvEmpty (tag ''abstentions'' [(''treatment'', ''exclude'')]), EvEmpty (tag ''tie'' [(''treatment'', ''reject'')]),
      EvEnd ''voting-rules'']"

definition sample_company_events :: "xml_event list" where
  "sample_company_events =
     [EvStart (tag ''company-genesis'' []), EvEmpty (tag ''identity'' [(''name'', ''Acme'')]),
      EvStart (tag ''share-structure'' []), EvEmpty (tag ''holder'' [(''id'', ''ann''), (''shares'', ''100'')]),
      EvEmpty (tag ''holder'' [(''id'', ''bob''), (''shares'', ''50'')]), EvEnd ''share-structure'',
      EvStart (tag ''identities'' []), EvEmpty (tag ''person'' [(''id'', ''ann''), (''key'', sample_key_text)]),
      EvEnd ''identities'',
      EvStart (tag ''governance'' []), EvStart (tag ''decision-channels'' []),
      EvStart (tag ''channel'' [(''id'', ''board''), (''mode'', ''individual'')]),
      EvStart (tag ''actors'' [(''source'', ''roster'')]), EvEmpty (tag ''member'' [(''id'', ''ann''), (''weight'', ''1'')]),
      EvEnd ''actors'', EvEnd ''channel'',
      EvStart (tag ''channel'' [(''id'', ''members''), (''mode'', ''collective'')]),
      EvEmpty (tag ''actors'' [(''source'', ''share-register'')])] @ sample_voting_rules @
     [EvEnd ''channel'', EvEnd ''decision-channels'', EvEnd ''governance'',
      EvStart (tag ''authorisation'' []), EvEmpty (tag ''signer'' [(''person'', ''ann''), (''records'', ''company'')]),
      EvEmpty (tag ''signer'' [(''person'', ''ann''), (''records'', ''governance'')]), EvEnd ''authorisation'',
      EvEnd ''company-genesis'']"

definition sample_founding :: string where
  "sample_founding = record_text CompanyGenesis (CompanyId ''acme'') None sample_notarisation sample_company_text"

text \<open>A hash that counts bytes and a signature that is always zero are enough here, and quick to evaluate.\<close>

definition sample_ledger_crypto :: crypto where
  "sample_ledger_crypto = \<lparr>blake3 = (\<lambda>b. word_of_nat (length b)), is_point = (\<lambda>_. True),
     ed_verify_strict = (\<lambda>_ _ s. s = 0), ed_public = (\<lambda>seed. seed + 11), ed_sign = (\<lambda>_ _. 0)\<rparr>"

lemma sample_ledger_signatures: "signatures_verify sample_ledger_crypto"
  by (simp add: signatures_verify_def sample_ledger_crypto_def)

definition sample_founding_tx :: transaction where
  "sample_founding_tx = record_transaction sample_ledger_crypto 5 CompanyGenesis sample_founding 0"

definition sample_founding_id :: tx_id where
  "sample_founding_id = 347"

definition sample_amendment :: string where
  "sample_amendment = ''<irena-record'' @ attr_text ''version'' RECORD_VERSION @ attr_text ''kind'' ''identity'' @
     attr_text ''company'' ''acme'' @ attr_text ''supersedes'' (to_hex 32 sample_founding_id) @ ''>'' @ [CHR 0x0A] @ ''  '' @
     write_notarisation sample_notarisation @ [CHR 0x0A] @ ''  '' @ sample_identity_text @ [CHR 0x0A] @ ''</irena-record>''"

definition sample_company_tok :: "string \<Rightarrow> xml_reader" where
  "sample_company_tok xml =
     (if xml = sample_company_text then reader_of (sample_company_events @ [EvEof])
      else if xml = sample_identity_text then reader_of [EvEmpty sample_identity_tag, EvEof]
      else if xml = sample_founding then
        reader_of (EvStart (envelope_tag CompanyGenesis (CompanyId ''acme'')) #
          EvEmpty (notarisation_tag sample_notarisation) # sample_company_events @ [EvEnd ''irena-record'', EvEof])
      else
        reader_of [EvStart (tag ''irena-record'' [(''version'', RECORD_VERSION), (''kind'', ''identity''), (''company'', ''acme''),
            (''supersedes'', to_hex 32 sample_founding_id)]),
          EvEmpty (notarisation_tag sample_notarisation), EvEmpty sample_identity_tag, EvEnd ''irena-record'', EvEof])"

definition sample_company :: company_genesis where
  "sample_company =
     \<lparr>cg_identity = \<lparr>id_name = ''Acme'', id_jurisdiction = None, id_registered_number = None\<rparr>,
      cg_incorporation_digest = None,
      cg_shares = ShareRegister
        [\<lparr>ho_id = VoterId ''ann'', ho_name = None, ho_shares = 100\<rparr>, \<lparr>ho_id = VoterId ''bob'', ho_name = None, ho_shares = 50\<rparr>],
      cg_channels = DecisionChannelSet
        [\<lparr>ch_id = ChannelId ''board'',
          ch_actors = FromRoster (Roster [\<lparr>mb_id = VoterId ''ann'', mb_name = None, mb_weight = 1\<rparr>]),
          ch_mode = Individual, ch_scope = None\<rparr>,
         \<lparr>ch_id = ChannelId ''members'', ch_actors = FromShareRegister,
          ch_mode = Collective
            \<lparr>weight_rule = ElectorateWeight, exclusions_enabled = True,
             quorum = QuorumFraction \<lparr>numerator = 1, denominator = 2\<rparr> QB_TotalElectorate,
             threshold = SimpleMajority TB_VotesCast, abstentions = AbstentionsExclude, tie = TieReject\<rparr>,
          ch_scope = None\<rparr>],
      cg_identities = IdentityTable [\<lparr>pn_id = VoterId ''ann'', pn_name = None, pn_document_id = None, pn_key = Some 16\<rparr>],
      cg_authorisation = SignerTable
        [\<lparr>sg_person = VoterId ''ann'', sg_family = Company\<rparr>, \<lparr>sg_person = VoterId ''ann'', sg_family = Governance\<rparr>]\<rparr>"

lemma sample_company_read:
  "read_company_genesis_document sample_company_tok sample_hexd sample_company_text = Ok sample_company"
  by code_simp

lemma sample_company_open: "lockout_after (cg_identities sample_company) (cg_authorisation sample_company) = None"
  by code_simp

lemma sample_ledger_id:
  "t_id (sealed_tx sample_ledger_crypto seed ns schema payload h) = word_of_nat (137 + length ns + length payload)"
proof -
  have "blake3 sample_ledger_crypto b = word_of_nat (length b)" for b by (simp add: sample_ledger_crypto_def)
  then show ?thesis
    by (simp add: sealed_tx_def sign_transaction_def into_transaction_def Let_def compute_id_preimage
      id_hash_preimage_def id_preimage_def preimage_def enc_id_body_def id_body_def enc_bytes_def enc_string_def
      str_bytes_def enc_u32_def enc_u64_def TX_ID_def)
qed

lemma sample_founding_string: "is_string sample_founding" "length sample_founding = 194"
  by code_simp+

lemma sample_founding_tx_id: "t_id sample_founding_tx = sample_founding_id"
  by (simp add: sample_founding_tx_def sample_ledger_id sample_founding_string sample_founding_id_def kind_namespace_def)

lemma sample_founding_read:
  "read_record sample_company_tok sample_hexd sample_founding = Ok \<lparr>rc_company = CompanyId ''acme'', rc_supersedes = None,
     rc_notarisation = sample_notarisation, rc_body = BodyGenesis sample_company\<rparr>"
  by code_simp

lemma sample_founding_composed:
  "compose_record sample_company_tok sample_hexd CompanyGenesis (CompanyId ''acme'') None sample_notarisation sample_company_text
    = Ok sample_founding"
proof -
  have "notarisation_validate sample_notarisation = Ok ()" "strip_declaration sample_company_text = sample_company_text"
    by code_simp+
  then show ?thesis
    using sample_founding_read
    by (simp add: compose_record_def check_body_def sample_company_read record_kind_of_def body_kind_def sample_founding_def)
qed

lemma sample_amendment_text:
  "record_text Identity (CompanyId ''acme'') (Some sample_founding_id) sample_notarisation sample_identity_text = sample_amendment"
  by (simp add: record_text_def sample_amendment_def opt_text_def kind_as_str_def)

lemma sample_amendment_string: "is_string sample_amendment" "length sample_amendment = 250"
  by code_simp+

lemma sample_amendment_body:
  "notarisation_validate sample_notarisation = Ok ()" "strip_declaration sample_identity_text = sample_identity_text"
  "check_body sample_company_tok sample_hexd Identity sample_identity_text = Ok ()"
  by code_simp+

definition sample_identity :: identity where
  "sample_identity = (case read_record sample_company_tok sample_hexd sample_amendment of
     Ok r \<Rightarrow> (case rc_body r of BodyIdentity i \<Rightarrow> i))"

lemma sample_amendment_read:
  "read_record sample_company_tok sample_hexd sample_amendment =
     Ok \<lparr>rc_company = CompanyId ''acme'', rc_supersedes = Some sample_founding_id, rc_notarisation = sample_notarisation,
         rc_body = BodyIdentity sample_identity\<rparr>"
proof -
  have "case read_record sample_company_tok sample_hexd sample_amendment of
      Ok r \<Rightarrow> rc_company r = CompanyId ''acme'' \<and> rc_supersedes r = Some sample_founding_id \<and>
        rc_notarisation r = sample_notarisation \<and> record_kind_of r = Identity
    | _ \<Rightarrow> False" by code_simp
  then obtain r where r: "read_record sample_company_tok sample_hexd sample_amendment = Ok r"
    "rc_company r = CompanyId ''acme''" "rc_supersedes r = Some sample_founding_id"
    "rc_notarisation r = sample_notarisation" "record_kind_of r = Identity"
    by (auto split: result.splits)
  moreover obtain i where "rc_body r = BodyIdentity i"
    using r(5) by (cases "rc_body r") (simp_all add: record_kind_of_def body_kind_def)
  ultimately show ?thesis by (cases r) (simp add: sample_identity_def)
qed

lemma sample_amendment_composed:
  "compose_record sample_company_tok sample_hexd Identity (CompanyId ''acme'') (Some sample_founding_id) sample_notarisation
     sample_identity_text = Ok sample_amendment"
  by (simp add: compose_record_def sample_amendment_body sample_amendment_text sample_amendment_read record_kind_of_def body_kind_def)

abbreviation sample_spec :: genesis_spec where
  "sample_spec \<equiv> \<lparr>gs_network_id = NetworkId ''demo'', gs_timestamp_millis = 0, gs_transactions = [sample_founding_tx]\<rparr>"

definition sample_genesis_state :: company_state where
  "sample_genesis_state = (case found_company \<lparr>rr_height = 0, rr_index = 0, rr_tx_id = sample_founding_id, rr_signer = 16,
     rr_record = \<lparr>rc_company = CompanyId ''acme'', rc_supersedes = None, rc_notarisation = sample_notarisation,
       rc_body = BodyGenesis sample_company\<rparr>\<rparr> of Ok s \<Rightarrow> s)"

lemma sample_label: "wf_label (network_id_str (NetworkId ''demo''))"
  by (simp add: demo_string)

text \<open>The chain the company is founded on.\<close>

lemma sample_company_chain_read:
  assumes "read_record tok sample_hexd sample_founding = Ok \<lparr>rc_company = CompanyId ''acme'', rc_supersedes = None,
     rc_notarisation = sample_notarisation, rc_body = BodyGenesis sample_company\<rparr>"
  obtains st b where "reachable sample_ledger_crypto dec_block st" "represents sample_ledger_crypto [b] st"
    "b_transactions b = [sample_founding_tx]" "h_timestamp_millis (b_header b) = 0"
    "company_now tok sample_hexd dec_block st = Ok (sample_genesis_state\<lparr>co_at := 0\<rparr>)"
proof (rule founded_state [OF reads_back_block sample_ledger_signatures sample_label sample_founding_string(1)
    assms _ _ sample_company_open, where ms = 0 and seed = 5, folded sample_founding_tx_def])
  fix st b s
  assume st: "init_genesis sample_ledger_crypto True True NoFile sample_spec = (ChainFile (cs_database st), Ok st)"
    "represents sample_ledger_crypto [b] st" "b_transactions b = [sample_founding_tx]" "h_timestamp_millis (b_header b) = 0"
    and found: "found_company \<lparr>rr_height = 0, rr_index = 0, rr_tx_id = t_id sample_founding_tx,
       rr_signer = ed_public sample_ledger_crypto 5, rr_record = \<lparr>rc_company = CompanyId ''acme'', rc_supersedes = None,
         rc_notarisation = sample_notarisation, rc_body = BodyGenesis sample_company\<rparr>\<rparr> = Ok s"
    and now: "company_now tok sample_hexd dec_block st = Ok (s\<lparr>co_at := 0\<rparr>)"
  have "wf_spec sample_spec"
    using record_transaction_wf [OF sample_founding_string(1)]
    by (simp add: wf_spec_def demo_string sample_founding_tx_def)
  then have "reachable sample_ledger_crypto dec_block st"
    using st(1) by (rule reachable.created [OF _ _ store_steps.no_step])
  moreover have "ed_public sample_ledger_crypto 5 = 16" by (simp add: sample_ledger_crypto_def)
  then have "sample_genesis_state = s" using found by (simp add: sample_genesis_state_def sample_founding_tx_id)
  ultimately show thesis using that st now by simp
qed simp_all

lemma sample_company_chain:
  obtains st b where "reachable sample_ledger_crypto dec_block st" "represents sample_ledger_crypto [b] st"
    "b_transactions b = [sample_founding_tx]" "h_timestamp_millis (b_header b) = 0"
    "company_now sample_company_tok sample_hexd dec_block st = Ok (sample_genesis_state\<lparr>co_at := 0\<rparr>)"
  by (rule sample_company_chain_read [OF sample_founding_read])

lemma sample_company_at_founding:
  assumes "represents sample_ledger_crypto [b] st"
    and "company_now tok sample_hexd dec_block st = Ok (sample_genesis_state\<lparr>co_at := 0\<rparr>)"
  shows "reconstruct tok sample_hexd dec_block st 0 = Ok (sample_genesis_state\<lparr>co_at := 0\<rparr>)"
    "head_height (head_of sample_ledger_crypto [b]) = 0" "store_head st = Ok (head_of sample_ledger_crypto [b])"
proof -
  have "unat (head_height (head_of sample_ledger_crypto [b])) = 0" by (simp only: head_height_represents [OF assms(1)]) simp
  then show head: "head_height (head_of sample_ledger_crypto [b]) = 0" by (simp add: unat_eq_zero)
  show "reconstruct tok sample_hexd dec_block st 0 = Ok (sample_genesis_state\<lparr>co_at := 0\<rparr>)"
    using assms(2) company_now_represents [OF reads_back_block assms(1)] head by simp
  show "store_head st = Ok (head_of sample_ledger_crypto [b])" by (simp add: store_head_def read_head_represents [OF assms(1)])
qed

lemma sample_genesis_state:
  "co_company sample_genesis_state = CompanyId ''acme''"
  "if_tx_id (co_identity sample_genesis_state) = sample_founding_id"
  "if_value (co_identities sample_genesis_state) = cg_identities sample_company"
  "if_value (co_authorisation sample_genesis_state) = cg_authorisation sample_company"
  by (simp_all add: sample_genesis_state_def found_company_def sample_company_open from_record_def)

lemma sample_state_parts:
  "if_value (co_channels sample_genesis_state) = cg_channels sample_company"
  "if_value (co_shares sample_genesis_state) = cg_shares sample_company"
  "co_genesis_tx_id sample_genesis_state = sample_founding_id" "if_tx_id (co_shares sample_genesis_state) = sample_founding_id"
  "if_tx_id (co_channels sample_genesis_state) = sample_founding_id"
  "if_tx_id (co_identities sample_genesis_state) = sample_founding_id"
  by (simp_all add: sample_genesis_state_def found_company_def sample_company_open from_record_def)

lemma sample_company_signer:
  obtains p where "holder_of (cg_identities sample_company) 16 = Some p" "allows (cg_authorisation sample_company) (pn_id p) Company"
    "allows (cg_authorisation sample_company) (pn_id p) Governance"
proof -
  have "case holder_of (cg_identities sample_company) 16 of
      Some p \<Rightarrow> allows (cg_authorisation sample_company) (pn_id p) Company \<and>
        allows (cg_authorisation sample_company) (pn_id p) Governance
    | None \<Rightarrow> False"
    by code_simp
  then show thesis using that by (auto split: option.splits)
qed

lemma sample_state_facts:
  "provider_of (sample_genesis_state\<lparr>co_at := 0\<rparr>) Identity = sample_founding_id"
  "co_company (sample_genesis_state\<lparr>co_at := 0\<rparr>) = CompanyId ''acme''"
  "ed_public sample_ledger_crypto 5 = 16"
  "t_id (record_transaction sample_ledger_crypto 5 Identity sample_amendment 1) \<noteq> sample_founding_id"
  by (simp add: sample_genesis_state provider_of_def, simp add: sample_genesis_state, simp add: sample_ledger_crypto_def,
    simp add: sample_ledger_id sample_amendment_string kind_namespace_def sample_founding_id_def)

text \<open>The amendment of the identity is admitted on that chain.\<close>

lemma sample_publishable:
  assumes "represents sample_ledger_crypto [b] st" and "b_transactions b = [sample_founding_tx]"
    and "h_timestamp_millis (b_header b) = 0"
    and "company_now sample_company_tok sample_hexd dec_block st = Ok (sample_genesis_state\<lparr>co_at := 0\<rparr>)"
  shows "h_timestamp_millis (b_header (last [b])) \<le> 10" "length (chain_ids [b]) + 1 < 2 ^ 64"
    "t_id (record_transaction sample_ledger_crypto 5 Identity sample_amendment (word_of_nat (length [b]))) \<notin> set (chain_ids [b])"
  using assms(2,3) sample_state_facts(4) by (simp_all add: sample_founding_tx_id)

abbreviation sample_publish :: "chain_store \<Rightarrow> chain_store \<times> (ledger_error, record_ref) result" where
  "sample_publish st \<equiv> publish sample_company_tok sample_hexd sample_ledger_crypto dec_block True st 5 Identity
     sample_identity_text (Some sample_founding_id) sample_notarisation 10"

lemma sample_strings:
  assumes "company_now sample_company_tok sample_hexd dec_block st = Ok (sample_genesis_state\<lparr>co_at := 0\<rparr>)"
  shows "\<forall>s xml. company_now sample_company_tok sample_hexd dec_block st = Ok s \<longrightarrow>
      compose_record sample_company_tok sample_hexd Identity (co_company s) (Some sample_founding_id) sample_notarisation
        sample_identity_text = Ok xml \<longrightarrow> is_string xml"
  by (simp add: assms sample_state_facts(2) sample_amendment_composed sample_amendment_string)

lemma sample_published:
  assumes "represents sample_ledger_crypto [b] st" and "b_transactions b = [sample_founding_tx]"
    and "h_timestamp_millis (b_header b) = 0"
    and "company_now sample_company_tok sample_hexd dec_block st = Ok (sample_genesis_state\<lparr>co_at := 0\<rparr>)"
  obtains st' f where "sample_publish st = (st', Ok f)"
proof -
  obtain p where "holder_of (cg_identities sample_company) 16 = Some p" "allows (cg_authorisation sample_company) (pn_id p) Company"
    by (rule sample_company_signer)
  then have signer: "\<exists>p. authorised_signer (sample_genesis_state\<lparr>co_at := 0\<rparr>) Company (ed_public sample_ledger_crypto 5) = Ok p"
    by (simp add: authorised_signer_def signer_of_Ok_iff sample_genesis_state sample_state_facts)
  note can = sample_publishable [OF assms]
  from publish_goes_through [where kind = Identity, OF reads_back_block assms(1) can(2) sample_ledger_signatures _ assms(4)
      signer, unfolded sample_state_facts(1,2), OF _ sample_amendment_composed sample_amendment_string(1)
      sample_amendment_read _ can(1) _ can(3)]
  show thesis using that by (auto simp: lockout_of_amendment_def)
qed

lemma sample_amended_chain:
  obtains st st' b s where "reachable sample_ledger_crypto dec_block st" "represents sample_ledger_crypto [b] st"
    "company_now sample_company_tok sample_hexd dec_block st = Ok (sample_genesis_state\<lparr>co_at := 0\<rparr>)"
    "store_steps sample_ledger_crypto dec_block st st'" "reachable sample_ledger_crypto dec_block st'"
    "reconstruct sample_company_tok sample_hexd dec_block st' 1 = Ok s" "length (co_applied s) = 2"
proof -
  obtain st b where st: "reachable sample_ledger_crypto dec_block st" "represents sample_ledger_crypto [b] st"
    "b_transactions b = [sample_founding_tx]" "h_timestamp_millis (b_header b) = 0"
    "company_now sample_company_tok sample_hexd dec_block st = Ok (sample_genesis_state\<lparr>co_at := 0\<rparr>)"
    by (rule sample_company_chain)
  obtain st' f where pub: "sample_publish st = (st', Ok f)" by (rule sample_published [OF st(2-5)])
  note can = sample_publishable [OF st(2-5)]
  from publish_Ok [OF reads_back_block st(2) can(2) sample_strings [OF st(5)] pub st(5)] obtain s' b' where s':
    "amends (sample_genesis_state\<lparr>co_at := 0\<rparr>) f s'" "represents sample_ledger_crypto ([b] @ [b']) st'"
    "company_now sample_company_tok sample_hexd dec_block st' = Ok (s'\<lparr>co_at := rr_height f\<rparr>)" .
  have "length (co_applied sample_genesis_state) = 1"
    by (simp add: sample_genesis_state_def found_company_def sample_company_open)
  then have "length (co_applied (s'\<lparr>co_at := rr_height f\<rparr>)) = 2" using s'(1) by (auto simp: amends_def)
  moreover have steps: "store_steps sample_ledger_crypto dec_block st st'"
    by (rule publish_steps [OF reads_back_block st(2) sample_strings [OF st(5)] pub])
  moreover have "unat (head_height (head_of sample_ledger_crypto ([b] @ [b']))) = 1"
    by (simp only: head_height_represents [OF s'(2)]) simp
  then have "head_height (head_of sample_ledger_crypto ([b] @ [b'])) = 1" by (metis unsigned_1 unsigned_word_eqI)
  then have "reconstruct sample_company_tok sample_hexd dec_block st' 1 = Ok (s'\<lparr>co_at := rr_height f\<rparr>)"
    using s'(3) company_now_represents [OF reads_back_block s'(2)] by simp
  ultimately show thesis using that st(1,2,5) reachable_steps [OF st(1) steps] by blast
qed

theorem reconstruction_refines_witness:
  "\<exists>st bs rs s. reachable sample_ledger_crypto dec_block st \<and> represents sample_ledger_crypto bs st \<and>
     chain_records sample_company_tok sample_hexd (upto 1 bs) = Ok rs \<and> replay_company rs = Ok (Some s)"
proof -
  obtain st s where st: "reachable sample_ledger_crypto dec_block st"
    "reconstruct sample_company_tok sample_hexd dec_block st 1 = Ok s" by (rule sample_amended_chain)
  from reconstruction_refines [OF reads_back_block st(1), of sample_company_tok sample_hexd] st show ?thesis by blast
qed

theorem company_invariant_witness:
  "\<exists>st s. reachable sample_ledger_crypto dec_block st \<and> length (co_applied s) = 2 \<and>
     reconstruct sample_company_tok sample_hexd dec_block st 1 = Ok s \<and> wf_identities (if_value (co_identities s)) \<and>
     provided s Identity (last (history_of s Identity))"
proof -
  obtain st s where st: "reachable sample_ledger_crypto dec_block st"
    "reconstruct sample_company_tok sample_hexd dec_block st 1 = Ok s" "length (co_applied s) = 2"
    by (rule sample_amended_chain)
  from company_invariant [OF reads_back_block st(1,2)] st show ?thesis by blast
qed

theorem amendments_authorised_witness:
  "\<exists>st s before p t. reachable sample_ledger_crypto dec_block st \<and>
     reconstruct sample_company_tok sample_hexd dec_block st 1 = Ok s \<and>
     replay_company (take 1 (co_applied s)) = Ok (Some before) \<and> p \<in> set (persons (if_value (co_identities before))) \<and>
     pn_key p = Some (t_signer t) \<and> verify_transaction sample_ledger_crypto t = Ok ()"
proof -
  obtain st s where st: "reachable sample_ledger_crypto dec_block st"
    "reconstruct sample_company_tok sample_hexd dec_block st 1 = Ok s" "length (co_applied s) = 2"
    by (rule sample_amended_chain)
  from amendments_authorised [OF reads_back_block st(1,2), of 1] st show ?thesis by force
qed

theorem company_past_fixed_witness:
  "\<exists>st st'. store_steps sample_ledger_crypto dec_block st st' \<and>
     (\<exists>s. reconstruct sample_company_tok sample_hexd dec_block st' 1 = Ok s \<and> length (co_applied s) = 2) \<and>
     reconstruct sample_company_tok sample_hexd dec_block st' 0 = Ok (sample_genesis_state\<lparr>co_at := 0\<rparr>)"
proof -
  obtain st st' b s where st: "reachable sample_ledger_crypto dec_block st" "represents sample_ledger_crypto [b] st"
    "company_now sample_company_tok sample_hexd dec_block st = Ok (sample_genesis_state\<lparr>co_at := 0\<rparr>)"
    "store_steps sample_ledger_crypto dec_block st st'"
    "reconstruct sample_company_tok sample_hexd dec_block st' 1 = Ok s" "length (co_applied s) = 2"
    by (rule sample_amended_chain)
  note at = sample_company_at_founding [OF st(2,3)]
  have "reconstruct sample_company_tok sample_hexd dec_block st' 0 = Ok (sample_genesis_state\<lparr>co_at := 0\<rparr>)"
    using company_past_fixed [OF reads_back_block st(1,4), of "head_of sample_ledger_crypto [b]" 0] at by simp
  then show ?thesis using st(4-6) by blast
qed

theorem publish_exact_witness:
  "\<exists>st st' f s' b. reachable sample_ledger_crypto dec_block st \<and> sample_publish st = (st', Ok f) \<and>
     amends (sample_genesis_state\<lparr>co_at := 0\<rparr>) f s' \<and>
     company_now sample_company_tok sample_hexd dec_block st' = Ok (s'\<lparr>co_at := rr_height f\<rparr>) \<and> ref_kind f = Identity"
proof -
  obtain st b where st: "reachable sample_ledger_crypto dec_block st" "represents sample_ledger_crypto [b] st"
    "b_transactions b = [sample_founding_tx]" "h_timestamp_millis (b_header b) = 0"
    "company_now sample_company_tok sample_hexd dec_block st = Ok (sample_genesis_state\<lparr>co_at := 0\<rparr>)"
    by (rule sample_company_chain)
  obtain st' f where pub: "sample_publish st = (st', Ok f)" by (rule sample_published [OF st(2-5)])
  note can = sample_publishable [OF st(2-5)]
  note exact = publish_exact [OF reads_back_block st(2) can(2), where io = True and seed = 5 and ms = 10
      and tok = sample_company_tok and hexd = sample_hexd and kind = Identity and supersedes = "Some sample_founding_id"
      and n = sample_notarisation and body = sample_identity_text, unfolded pub prod.case result.case]
  have "\<exists>s s' b'. company_now sample_company_tok sample_hexd dec_block st = Ok s \<and> amends s f s' \<and>
      company_now sample_company_tok sample_hexd dec_block st' = Ok (s'\<lparr>co_at := rr_height f\<rparr>) \<and> ref_kind f = Identity"
    by (rule exE [OF exact]) (use sample_strings [OF st(5)] in \<open>blast+\<close>)
  then show ?thesis using st(1,5) pub by auto
qed

theorem publish_accepts_witness:
  "\<exists>st st' f. reachable sample_ledger_crypto dec_block st \<and> sample_publish st = (st', Ok f)"
proof -
  obtain st b where st: "reachable sample_ledger_crypto dec_block st" "represents sample_ledger_crypto [b] st"
    "b_transactions b = [sample_founding_tx]" "h_timestamp_millis (b_header b) = 0"
    "company_now sample_company_tok sample_hexd dec_block st = Ok (sample_genesis_state\<lparr>co_at := 0\<rparr>)"
    by (rule sample_company_chain)
  obtain p where "holder_of (cg_identities sample_company) 16 = Some p" "allows (cg_authorisation sample_company) (pn_id p) Company"
    by (rule sample_company_signer)
  then have p: "holder_of (if_value (co_identities (sample_genesis_state\<lparr>co_at := 0\<rparr>))) (ed_public sample_ledger_crypto 5) = Some p"
    "allows (if_value (co_authorisation (sample_genesis_state\<lparr>co_at := 0\<rparr>))) (pn_id p) Company"
    by (simp_all add: sample_genesis_state sample_state_facts)
  note can = sample_publishable [OF st(2-5)]
  from publish_accepts [where kind = Identity, OF reads_back_block st(2) can(2) sample_ledger_signatures _ st(5) p,
      unfolded sample_state_facts(1,2), OF _ sample_amendment_composed sample_amendment_string(1)
      sample_amendment_read _ can(1) _ can(3)]
  show ?thesis using st(1) by (auto simp: lockout_of_amendment_def)
qed

lemma sample_embedded: "embedded (events (sample_company_tok sample_company_text)) (events (sample_company_tok sample_founding))"
proof -
  let ?inner = "butlast (tl sample_company_events)"
  have parts: "sample_company_events = EvStart (tag ''company-genesis'' []) # ?inner @ [EvEnd ''company-genesis'']"
    by (simp add: sample_company_events_def sample_voting_rules_def)
  have "sample_founding \<noteq> sample_company_text" "sample_founding \<noteq> sample_identity_text" by code_simp+
  then have alone: "events (sample_company_tok sample_company_text) = [] @ EvStart (tag ''company-genesis'' []) # ?inner @ EvEnd ''company-genesis'' # [EvEof]"
    and whole: "events (sample_company_tok sample_founding) = EvStart (envelope_tag CompanyGenesis (CompanyId ''acme'')) # [] @
      EvEmpty (notarisation_tag sample_notarisation) # [] @ EvStart (tag ''company-genesis'' []) # ?inner @
      EvEnd ''company-genesis'' # [EvEnd ''irena-record'', EvEof]"
    using parts by (simp_all add: sample_company_tok_def reader_of_def o_def)
  show ?thesis
    by (rule embeddedI [OF alone whole]) (simp_all add: sample_company_events_def sample_voting_rules_def notarisation_tag_def)
qed

theorem genesis_founds_witness:
  "\<exists>st s f. init_genesis sample_ledger_crypto True True NoFile sample_spec = (ChainFile (cs_database st), Ok st) \<and>
     company_now sample_company_tok sample_hexd dec_block st = Ok s \<and> co_company s = CompanyId ''acme'' \<and>
     co_applied s = [f] \<and> rr_tx_id f = sample_founding_id"
proof -
  have founded: "genesis_with_company sample_company_tok sample_hexd sample_ledger_crypto (NetworkId ''demo'') 5
      (CompanyId ''acme'') sample_company_text sample_notarisation 0 = Ok sample_spec"
    by (simp add: genesis_with_company_def sample_company_read sample_company_open sample_founding_composed transaction_for_Ok sample_founding_tx_def)
  from genesis_founds [OF reads_back_block sample_ledger_signatures sample_label founded]
  show ?thesis
    by (force simp: sample_founding_composed sample_founding_string sample_embedded sample_founding_tx_id)
qed

end
