(* ===== verification/Irena_Decision.thy ===== *)
theory Irena_Decision
  imports Irena_Publish Prunella_Layout
begin

text \<open>
  \<open>irena-decision\<close>: a decision taken by one person through an individual channel. \<open>resolve.rs\<close> turns a
  channel of the company at a height into actors with weights and keys; \<open>record.rs\<close> is the snapshot that is
  frozen and the record that carries it; \<open>decision.rs\<close> is the process, draft, freeze, sign, finalise; and
  \<open>verify.rs\<close> rebuilds everything a record claims from the chain alone. The derived Borsh decoder of a record
  is a parameter that reads back what the encoder writes; \<open>dec_decision_record\<close> is one for the examples.
\<close>

section \<open>Resolving a channel\<close>

datatype decision_status = DecisionDraft | DecisionFrozen | DecisionSigned | DecisionFinalized

text \<open>The rendered texts of \<open>error.rs\<close> are kept as what they are rendered from.\<close>

datatype decision_error =
    NoSuchChannel channel_id block_height
  | NotSingleActor channel_id nat
  | NotIndividual channel_id
  | DecisionNotCollective channel_id
  | NoKey channel_id voter_id
  | WrongKey string
  | BadSignature crypto_error
  | DecisionInvalidTransition decision_status string
  | DecisionLedger ledger_error
  | Derivation core_error
  | DecisionStore store_error
  | DecisionCore prunella_error
  | DecisionChain chain_head
  | DecisionNoSuchTransaction tx_id
  | DecisionChannelsMoved block_height tx_id tx_id
  | DecisionLabel irena_error

record actor =
  at_id :: voter_id
  at_weight :: weight
  at_key :: "public_key option"
  at_can_sign :: bool

record actor_set =
  set_electorate :: electorate
  set_actors :: "actor list"
  set_total_weight :: weight_total
  set_signing :: nat

definition actor_set_build :: "actor list \<Rightarrow> (decision_error, actor_set) result" where
  "actor_set_build actors =
     (let voters = map (\<lambda>a. \<lparr>v_id = at_id a, v_weight = at_weight a, v_excluded = False\<rparr>) actors in
      rbind (rmap_err Derivation (weight_sum (map at_weight actors))) (\<lambda>t.
      let signing = length (filter at_can_sign actors) in
      rbind (rmap_err Derivation (electorate_new voters)) (\<lambda>e.
      Ok \<lparr>set_electorate = e, set_actors = actors, set_total_weight = t, set_signing = signing\<rparr>)))"

definition actor_set_get :: "actor_set \<Rightarrow> voter_id \<Rightarrow> actor option" where
  "actor_set_get s i = table_get at_id (set_actors s) i"

definition actor_set_key_of :: "actor_set \<Rightarrow> voter_id \<Rightarrow> public_key option" where
  "actor_set_key_of s i = Option.bind (actor_set_get s i) at_key"

definition actor_of :: "identities \<Rightarrow> voter_id \<Rightarrow> u64 \<Rightarrow> (decision_error, actor) result" where
  "actor_of ids i w =
     (let key = key_of ids i in
      rbind (rmap_err Derivation (weight_new w)) (\<lambda>w.
      Ok \<lparr>at_id = i, at_weight = w, at_key = key, at_can_sign = (key \<noteq> None)\<rparr>))"

definition actors_of_register :: "share_structure \<Rightarrow> identities \<Rightarrow> (decision_error, actor_set) result" where
  "actors_of_register register ids =
     rbind (rcollect (\<lambda>h. actor_of ids (ho_id h) (ho_shares h)) (holders register)) actor_set_build"

definition actors_of_roster :: "roster \<Rightarrow> identities \<Rightarrow> (decision_error, actor_set) result" where
  "actors_of_roster r ids =
     rbind (rcollect (\<lambda>m. actor_of ids (mb_id m) (mb_weight m)) (members r)) actor_set_build"

definition actors_of :: "actor_source \<Rightarrow> share_structure \<Rightarrow> identities \<Rightarrow> (decision_error, actor_set) result" where
  "actors_of source register ids =
     (case source of FromShareRegister \<Rightarrow> actors_of_register register ids | FromRoster r \<Rightarrow> actors_of_roster r ids)"

record resolved_channel =
  rv_channel :: decision_channel
  rv_channels_tx_id :: tx_id
  rv_shares_tx_id :: tx_id
  rv_identities_tx_id :: tx_id
  rv_height :: block_height
  rv_actors :: actor_set

definition sole_actor :: "resolved_channel \<Rightarrow> actor option" where
  "sole_actor r =
     (case ch_mode (rv_channel r) of
        Individual \<Rightarrow> (case set_actors (rv_actors r) of [] \<Rightarrow> None | a # _ \<Rightarrow> Some a)
      | Collective _ \<Rightarrow> None)"

definition resolved_rules :: "resolved_channel \<Rightarrow> voting_rules option" where
  "resolved_rules r = mode_rules (ch_mode (rv_channel r))"

definition resolve_channel :: "company_state \<Rightarrow> channel_id \<Rightarrow> (decision_error, resolved_channel) result" where
  "resolve_channel s i =
     rbind (ok_or (NoSuchChannel i (co_at s)) (channels_get (if_value (co_channels s)) i)) (\<lambda>channel.
     rbind (actors_of (ch_actors channel) (if_value (co_shares s)) (if_value (co_identities s))) (\<lambda>actors.
     if is_individual (ch_mode channel) \<and> length (set_actors actors) \<noteq> 1
     then Err (NotSingleActor i (length (set_actors actors)))
     else Ok \<lparr>rv_channel = channel, rv_channels_tx_id = if_tx_id (co_channels s), rv_shares_tx_id = if_tx_id (co_shares s),
              rv_identities_tx_id = if_tx_id (co_identities s), rv_height = co_at s, rv_actors = actors\<rparr>))"

section \<open>The snapshot and the record\<close>

definition DECISION_ID_TAG :: string where "DECISION_ID_TAG = ''IRENA/decision/v1/id''"
definition DECISION_SIGN_TAG :: string where "DECISION_SIGN_TAG = ''IRENA/decision/v1/statement''"
definition DECISION_NAMESPACE :: string where "DECISION_NAMESPACE = ''irena.decision.v1''"
definition DECISION_SCHEMA_VERSION :: u32 where "DECISION_SCHEMA_VERSION = 1"
definition DECISION_RECORD_VERSION :: u16 where "DECISION_RECORD_VERSION = 1"

type_synonym decision_id = digest

record decision_snapshot =
  ds_company :: string
  ds_subject :: string
  ds_proposal_digest :: hash
  ds_height :: block_height
  ds_genesis_tx_id :: tx_id
  ds_shares_tx_id :: tx_id
  ds_channels_tx_id :: tx_id
  ds_identities_tx_id :: tx_id
  ds_channel :: string
  ds_actor :: string
  ds_key :: public_key

definition enc_decision_snapshot :: "decision_snapshot \<Rightarrow> bytes" where
  "enc_decision_snapshot s = enc_string (ds_company s) @ enc_string (ds_subject s) @ digest_bytes (ds_proposal_digest s)
     @ enc_u64 (ds_height s) @ digest_bytes (ds_genesis_tx_id s) @ digest_bytes (ds_shares_tx_id s)
     @ digest_bytes (ds_channels_tx_id s) @ digest_bytes (ds_identities_tx_id s) @ enc_string (ds_channel s)
     @ enc_string (ds_actor s) @ digest_bytes (ds_key s)"

definition decision_snapshot_id :: "crypto \<Rightarrow> decision_snapshot \<Rightarrow> decision_id" where
  "decision_snapshot_id cr s = hash_canonical cr enc_decision_snapshot DECISION_ID_TAG s"

definition decision_signing_message :: "crypto \<Rightarrow> decision_snapshot \<Rightarrow> digest" where
  "decision_signing_message cr s = hash_canonical cr enc_decision_snapshot DECISION_SIGN_TAG s"

record decision_record =
  dr_version :: u16
  dr_decision_id :: decision_id
  dr_snapshot :: decision_snapshot
  dr_signature :: signature

definition enc_decision_record :: "decision_record \<Rightarrow> bytes" where
  "enc_decision_record r = enc_u16 (dr_version r) @ digest_bytes (dr_decision_id r) @ enc_decision_snapshot (dr_snapshot r)
     @ signature_bytes (dr_signature r)"

definition decision_record_assemble :: "crypto \<Rightarrow> decision_snapshot \<Rightarrow> signature \<Rightarrow> decision_record" where
  "decision_record_assemble cr s sig =
     \<lparr>dr_version = DECISION_RECORD_VERSION, dr_decision_id = decision_snapshot_id cr s, dr_snapshot = s, dr_signature = sig\<rparr>"

definition decision_check_signature :: "crypto \<Rightarrow> decision_record \<Rightarrow> (decision_error, unit) result" where
  "decision_check_signature cr r =
     rmap_err BadSignature (verify_signature cr (ds_key (dr_snapshot r))
       (digest_bytes (decision_signing_message cr (dr_snapshot r))) (dr_signature r))"

record finalized_decision =
  fd_tx_id :: tx_id
  fd_height :: block_height
  fd_record :: decision_record

section \<open>The decision as a process\<close>

record decision =
  dc_status :: decision_status
  dc_subject :: string
  dc_proposal_digest :: hash
  dc_snapshot :: "decision_snapshot option"
  dc_signature :: "signature option"
  dc_finalized :: "(tx_id \<times> block_height) option"

definition decision_draft :: "string \<Rightarrow> hash \<Rightarrow> decision" where
  "decision_draft subject digest =
     \<lparr>dc_status = DecisionDraft, dc_subject = subject, dc_proposal_digest = digest, dc_snapshot = None,
      dc_signature = None, dc_finalized = None\<rparr>"

definition decision_expect :: "decision \<Rightarrow> decision_status \<Rightarrow> string \<Rightarrow> (decision_error, unit) result" where
  "decision_expect d wanted to = (if dc_status d = wanted then Ok () else Err (DecisionInvalidTransition (dc_status d) to))"

text \<open>An operation returns the decision after it; an error leaves the decision as it was.\<close>

definition decision_freeze ::
    "(string \<Rightarrow> xml_reader) \<Rightarrow> (string \<Rightarrow> bytes option) \<Rightarrow> (bytes \<Rightarrow> (block \<times> bytes) option) \<Rightarrow> chain_store
      \<Rightarrow> block_height \<Rightarrow> channel_id \<Rightarrow> decision \<Rightarrow> (decision_error, decision) result" where
  "decision_freeze tok hexd de st at channel d =
     rbind (decision_expect d DecisionDraft ''freeze'') (\<lambda>_.
     rbind (rmap_err DecisionLedger (reconstruct tok hexd de st at)) (\<lambda>state.
     rbind (resolve_channel state channel) (\<lambda>resolved.
     rbind (ok_or (NotIndividual channel) (sole_actor resolved)) (\<lambda>a.
     rbind (ok_or (NoKey channel (at_id a)) (at_key a)) (\<lambda>key.
     Ok (d\<lparr>dc_snapshot := Some \<lparr>ds_company = company_id_str (co_company state), ds_subject = dc_subject d,
           ds_proposal_digest = dc_proposal_digest d, ds_height = at, ds_genesis_tx_id = co_genesis_tx_id state,
           ds_shares_tx_id = if_tx_id (co_shares state), ds_channels_tx_id = if_tx_id (co_channels state),
           ds_identities_tx_id = if_tx_id (co_identities state), ds_channel = channel_id_str channel,
           ds_actor = voter_id_str (at_id a), ds_key = key\<rparr>,
         dc_status := DecisionFrozen\<rparr>))))))"

definition decision_sign :: "crypto \<Rightarrow> digest \<Rightarrow> decision \<Rightarrow> (decision_error, decision) result" where
  "decision_sign cr seed d =
     rbind (decision_expect d DecisionFrozen ''sign'') (\<lambda>_.
     rbind (rexpect (dc_snapshot d)) (\<lambda>s.
     if ed_public cr seed \<noteq> ds_key s then Err (WrongKey (ds_actor s))
     else Ok (d\<lparr>dc_signature := Some (ed_sign cr seed (digest_bytes (decision_signing_message cr s))),
               dc_status := DecisionSigned\<rparr>)))"

definition decision_final_record :: "crypto \<Rightarrow> decision \<Rightarrow> (decision_error, decision_record) result" where
  "decision_final_record cr d =
     (if dc_status d \<notin> {DecisionSigned, DecisionFinalized}
      then Err (DecisionInvalidTransition (dc_status d) ''build the final record of'')
      else rbind (rexpect (dc_snapshot d)) (\<lambda>s. rbind (rexpect (dc_signature d)) (\<lambda>sig.
        Ok (decision_record_assemble cr s sig))))"

definition decision_of_seal :: "seal_error \<Rightarrow> decision_error" where
  "decision_of_seal e = (case e of SealStore e \<Rightarrow> DecisionStore e | SealCore e \<Rightarrow> DecisionCore e | SealNoHead h \<Rightarrow> DecisionChain h)"

text \<open>What \<open>finalize\<close> checks before it writes.\<close>

definition decision_ready ::
    "(string \<Rightarrow> xml_reader) \<Rightarrow> (string \<Rightarrow> bytes option) \<Rightarrow> crypto \<Rightarrow> (bytes \<Rightarrow> (block \<times> bytes) option)
      \<Rightarrow> chain_store \<Rightarrow> digest \<Rightarrow> decision \<Rightarrow> (decision_error, decision_record) result" where
  "decision_ready tok hexd cr de st seed d =
     rbind (decision_expect d DecisionSigned ''finalize'') (\<lambda>_.
     rbind (decision_final_record cr d) (\<lambda>r.
     rbind (decision_check_signature cr r) (\<lambda>_.
     rbind (rmap_err DecisionLedger (company_now tok hexd de st)) (\<lambda>now.
     rbind (rmap_err DecisionLedger (authorised_signer now Governance (ed_public cr seed))) (\<lambda>_.
     rbind (rmap_err DecisionLedger (reconstruct tok hexd de st (ds_height (dr_snapshot r)))) (\<lambda>state.
     if if_tx_id (co_channels state) \<noteq> ds_channels_tx_id (dr_snapshot r) \<or>
        company_id_str (co_company state) \<noteq> ds_company (dr_snapshot r)
     then Err (DecisionChannelsMoved (ds_height (dr_snapshot r)) (ds_channels_tx_id (dr_snapshot r)) (if_tx_id (co_channels state)))
     else Ok r))))))"

definition decision_finalize ::
    "(string \<Rightarrow> xml_reader) \<Rightarrow> (string \<Rightarrow> bytes option) \<Rightarrow> crypto \<Rightarrow> (bytes \<Rightarrow> (block \<times> bytes) option) \<Rightarrow> bool
      \<Rightarrow> chain_store \<Rightarrow> digest \<Rightarrow> u64 \<Rightarrow> decision
      \<Rightarrow> chain_store \<times> (decision_error, decision \<times> finalized_decision) result" where
  "decision_finalize tok hexd cr de io st seed ms d =
     (case decision_ready tok hexd cr de st seed d of
        Err e \<Rightarrow> (st, Err e)
      | Panic \<Rightarrow> (st, Panic)
      | Ok r \<Rightarrow>
          (let (st', sealed) = seal cr de io st seed DECISION_NAMESPACE DECISION_SCHEMA_VERSION (enc_decision_record r) ms in
           (st', rbind (rmap_err decision_of_seal sealed) (\<lambda>(i, height).
              Ok (d\<lparr>dc_finalized := Some (i, height), dc_status := DecisionFinalized\<rparr>,
                  \<lparr>fd_tx_id = i, fd_height = height, fd_record = r\<rparr>)))))"

section \<open>Independent verification\<close>

datatype decision_check_name =
    DecisionDecodes | DecisionIdDerives | DecisionSnapshotPrecedesRecord | DecisionRecordsResolve
  | DecisionSignerAuthorised | ChannelIsIndividual | ActorResolves | SignatureVerifies

text \<open>A check and whether it held; the text for a reader is left out.\<close>

record decision_verification =
  dv_tx_id :: tx_id
  dv_height :: block_height
  dv_record :: "decision_record option"
  dv_checks :: "(decision_check_name \<times> bool) list"

definition decision_is_valid :: "decision_verification \<Rightarrow> bool" where
  "decision_is_valid v \<longleftrightarrow> dv_checks v \<noteq> [] \<and> list_all snd (dv_checks v)"

text \<open>A result that is matched on: an error is an answer, a panic is not.\<close>

fun caught :: "('e, 'a) result \<Rightarrow> ('f, 'a option) result" where
  "caught (Ok a) = Ok (Some a)"
| "caught (Err _) = Ok None"
| "caught Panic = Panic"

definition signer_authorised_at ::
    "(string \<Rightarrow> xml_reader) \<Rightarrow> (string \<Rightarrow> bytes option) \<Rightarrow> (bytes \<Rightarrow> (block \<times> bytes) option) \<Rightarrow> chain_store
      \<Rightarrow> block_height \<Rightarrow> public_key \<Rightarrow> ('e, bool) result" where
  "signer_authorised_at tok hexd de st h key =
     rbind (caught (reconstruct tok hexd de st h)) (\<lambda>state.
     case state of
       None \<Rightarrow> Ok False
     | Some s \<Rightarrow> rbind (caught (authorised_signer s Governance key)) (\<lambda>p. Ok (p \<noteq> None)))"

text \<open>Whether a state provides the four records a snapshot pinned.\<close>

definition pins_hold :: "company_state \<Rightarrow> tx_id \<Rightarrow> tx_id \<Rightarrow> tx_id \<Rightarrow> tx_id \<Rightarrow> bool" where
  "pins_hold s genesis shares chans ids \<longleftrightarrow>
     list_all (\<lambda>(resolved, stored). resolved = stored)
       [(co_genesis_tx_id s, genesis), (if_tx_id (co_shares s), shares), (if_tx_id (co_channels s), chans),
        (if_tx_id (co_identities s), ids)]"

definition decision_channel_checks ::
    "company_state \<Rightarrow> channel_id \<Rightarrow> decision_snapshot \<Rightarrow> (decision_error, (decision_check_name \<times> bool) list) result" where
  "decision_channel_checks s channel sn =
     rbind (caught (resolve_channel s channel)) (\<lambda>resolved.
     Ok (case resolved of
       None \<Rightarrow> [(ChannelIsIndividual, False)]
     | Some r \<Rightarrow>
         (case sole_actor r of
            None \<Rightarrow> [(ChannelIsIndividual, False)]
          | Some a \<Rightarrow> [(ChannelIsIndividual, True),
              (ActorResolves, voter_id_str (at_id a) = ds_actor sn \<and> at_key a = Some (ds_key sn))])))"

text \<open>The checks after the record has decoded, with the early returns of the code.\<close>

definition decision_checks ::
    "(string \<Rightarrow> xml_reader) \<Rightarrow> (string \<Rightarrow> bytes option) \<Rightarrow> crypto \<Rightarrow> (bytes \<Rightarrow> (block \<times> bytes) option)
      \<Rightarrow> chain_store \<Rightarrow> located_transaction \<Rightarrow> decision_record \<Rightarrow> (decision_error, (decision_check_name \<times> bool) list) result" where
  "decision_checks tok hexd cr de st l r =
     (let sn = dr_snapshot r;
          start = [(DecisionDecodes, True), (DecisionIdDerives, decision_snapshot_id cr sn = dr_decision_id r),
                   (DecisionSnapshotPrecedesRecord, ds_height sn < lt_height l)];
          unresolved = start @ [(DecisionRecordsResolve, False)] in
      case rbind (company_id_new (ds_company sn)) (\<lambda>c. rbind (channel_id_new (ds_channel sn)) (\<lambda>ch. Ok (c, ch))) of
        Err _ \<Rightarrow> Ok unresolved
      | Panic \<Rightarrow> Panic
      | Ok (company, channel) \<Rightarrow>
          rbind (caught (reconstruct tok hexd de st (ds_height sn))) (\<lambda>state.
          case state of
            None \<Rightarrow> Ok unresolved
          | Some s \<Rightarrow>
              if co_company s \<noteq> company then Ok unresolved
              else if \<not> pins_hold s (ds_genesis_tx_id sn) (ds_shares_tx_id sn) (ds_channels_tx_id sn) (ds_identities_tx_id sn)
              then Ok unresolved
              else
                rbind (signer_authorised_at tok hexd de st (lt_height l) (t_signer (lt_transaction l))) (\<lambda>authorised.
                rbind (decision_channel_checks s channel sn) (\<lambda>resolves.
                rbind (caught (decision_check_signature cr r)) (\<lambda>signed.
                Ok (start @ [(DecisionRecordsResolve, True), (DecisionSignerAuthorised, authorised)] @ resolves @
                    [(SignatureVerifies, signed \<noteq> None)]))))))"

definition decision_report ::
    "(string \<Rightarrow> xml_reader) \<Rightarrow> (string \<Rightarrow> bytes option) \<Rightarrow> crypto \<Rightarrow> (bytes \<Rightarrow> (block \<times> bytes) option)
      \<Rightarrow> (bytes \<Rightarrow> (decision_record \<times> bytes) option) \<Rightarrow> chain_store \<Rightarrow> tx_id \<Rightarrow> located_transaction
      \<Rightarrow> (decision_error, decision_verification) result" where
  "decision_report tok hexd cr de dd st i l =
     (let t = lt_transaction l;
          report = \<lparr>dv_tx_id = i, dv_height = lt_height l, dv_record = None, dv_checks = []\<rparr>;
          refused = report\<lparr>dv_checks := [(DecisionDecodes, False)]\<rparr> in
      if namespace_str (t_namespace t) \<noteq> DECISION_NAMESPACE then Ok refused
      else rbind (caught (decode dd (t_payload t))) (\<lambda>decoded.
        case decoded of
          None \<Rightarrow> Ok refused
        | Some r \<Rightarrow>
            if dr_version r \<noteq> DECISION_RECORD_VERSION then Ok refused
            else if enc_decision_record r \<noteq> t_payload t then Ok refused
            else rbind (decision_checks tok hexd cr de st l r) (\<lambda>checks.
              Ok (report\<lparr>dv_record := Some r, dv_checks := checks\<rparr>))))"

definition verify_decision ::
    "(string \<Rightarrow> xml_reader) \<Rightarrow> (string \<Rightarrow> bytes option) \<Rightarrow> crypto \<Rightarrow> (bytes \<Rightarrow> (block \<times> bytes) option)
      \<Rightarrow> (bytes \<Rightarrow> (decision_record \<times> bytes) option) \<Rightarrow> chain_store \<Rightarrow> tx_id
      \<Rightarrow> (decision_error, decision_verification) result" where
  "verify_decision tok hexd cr de dd st i =
     rbind (rmap_err DecisionStore (get_transaction de st i)) (\<lambda>found.
     rbind (ok_or (DecisionNoSuchTransaction i) found) (\<lambda>l.
     decision_report tok hexd cr de dd st i l))"

section \<open>What a channel resolves to\<close>

lemma caught_iff [result_simps]:
  "caught r = Ok x \<longleftrightarrow> (\<exists>a. r = Ok a \<and> x = Some a) \<or> (\<exists>e. r = Err e) \<and> x = None" "caught r \<noteq> Err f"
  "caught r = Panic \<longleftrightarrow> r = Panic"
  by (cases r; auto)+

definition source_weights :: "actor_source \<Rightarrow> share_structure \<Rightarrow> (voter_id \<times> u64) list" where
  "source_weights source register = (case source of
     FromShareRegister \<Rightarrow> map (\<lambda>h. (ho_id h, ho_shares h)) (holders register)
   | FromRoster r \<Rightarrow> map (\<lambda>m. (mb_id m, mb_weight m)) (members r))"

definition actor_at :: "identities \<Rightarrow> voter_id \<times> u64 \<Rightarrow> actor" where
  "actor_at ids = (\<lambda>(i, w). \<lparr>at_id = i, at_weight = w, at_key = key_of ids i, at_can_sign = (key_of ids i \<noteq> None)\<rparr>)"

text \<open>What a list of weights has to be for its actors to form an electorate.\<close>

definition fair_list :: "(voter_id \<times> u64) list \<Rightarrow> bool" where
  "fair_list ws \<longleftrightarrow> sorted_wrt (<) (map fst ws) \<and> (\<forall>w \<in> snd ` set ws. w \<noteq> 0) \<and> weight_nat (map snd ws) < 2 ^ 64"

lemma source_weights_fair: "wf_shares register \<Longrightarrow> wf_source source \<Longrightarrow> fair_list (source_weights source register)"
  by (auto simp: fair_list_def source_weights_def wf_shares_def wf_source_def wf_roster_def o_def split: actor_source.splits)

definition set_of :: "identities \<Rightarrow> (voter_id \<times> u64) list \<Rightarrow> actor_set" where
  "set_of ids ws =
     \<lparr>set_electorate = Electorate (map (\<lambda>(i, w). \<lparr>v_id = i, v_weight = w, v_excluded = False\<rparr>) ws),
      set_actors = map (actor_at ids) ws, set_total_weight = of_nat (weight_nat (map snd ws)),
      set_signing = length (filter (\<lambda>(i, w). key_of ids i \<noteq> None) ws)\<rparr>"

lemma actor_of_Ok: "w \<noteq> 0 \<Longrightarrow> actor_of ids i w = Ok (actor_at ids (i, w))"
  by (simp add: actor_of_def actor_at_def weight_new_def Let_def)

lemma actor_set_build_Ok:
  assumes "fair_list ws"
  shows "actor_set_build (map (actor_at ids) ws) = Ok (set_of ids ws)"
proof -
  let ?vs = "map (\<lambda>(i, w). \<lparr>v_id = i, v_weight = w, v_excluded = False\<rparr>) ws"
  have ids: "map v_id ?vs = map fst ws" by (simp add: o_def case_prod_unfold)
  have strict: "sorted_wrt (<) (map v_id ?vs)" unfolding ids using assms by (simp add: fair_list_def)
  then have "sort_key v_id ?vs = ?vs" "first_repeat {} (map v_id ?vs) = None"
    by (simp_all only: strict_sorted_iff sort_key_id_if_sorted first_repeat_None)
  then have e: "electorate_new ?vs = Ok (Electorate ?vs)" by (simp only: electorate_new_def Let_def option.case)
  have t: "weight_sum (map snd ws) = Ok (of_nat (weight_nat (map snd ws)))"
    using assms by (intro weight_sum_Ok) (simp add: fair_list_def)
  have "map (\<lambda>a. \<lparr>v_id = at_id a, v_weight = at_weight a, v_excluded = False\<rparr>) (map (actor_at ids) ws) = ?vs"
    "map at_weight (map (actor_at ids) ws) = map snd ws"
    "filter at_can_sign (map (actor_at ids) ws) = map (actor_at ids) (filter (\<lambda>(i, w). key_of ids i \<noteq> None) ws)"
    by (simp_all add: actor_at_def o_def case_prod_unfold filter_map)
  then show ?thesis
    by (simp only: actor_set_build_def Let_def t e set_of_def rmap_err.simps rbind.simps length_map)
qed

lemma actors_of_Ok:
  assumes "fair_list (source_weights source register)"
  shows "actors_of source register ids = Ok (set_of ids (source_weights source register))"
proof (cases source)
  case FromShareRegister
  have "rcollect (\<lambda>h. actor_of ids (ho_id h) (ho_shares h)) (holders register)
      = Ok (map (\<lambda>h. actor_at ids (ho_id h, ho_shares h)) (holders register))"
    using assms by (intro rcollect_map_Ok actor_of_Ok) (auto simp: fair_list_def source_weights_def FromShareRegister)
  then show ?thesis
    using actor_set_build_Ok [OF assms, of ids]
    by (simp add: actors_of_def actors_of_register_def source_weights_def FromShareRegister o_def)
next
  case (FromRoster r)
  have "rcollect (\<lambda>m. actor_of ids (mb_id m) (mb_weight m)) (members r)
      = Ok (map (\<lambda>m. actor_at ids (mb_id m, mb_weight m)) (members r))"
    using assms by (intro rcollect_map_Ok actor_of_Ok) (auto simp: fair_list_def source_weights_def FromRoster)
  then show ?thesis
    using actor_set_build_Ok [OF assms, of ids]
    by (simp add: actors_of_def actors_of_roster_def source_weights_def FromRoster o_def)
qed

definition resolved_as :: "company_state \<Rightarrow> decision_channel \<Rightarrow> resolved_channel" where
  "resolved_as s c =
     \<lparr>rv_channel = c, rv_channels_tx_id = if_tx_id (co_channels s), rv_shares_tx_id = if_tx_id (co_shares s),
      rv_identities_tx_id = if_tx_id (co_identities s), rv_height = co_at s,
      rv_actors = set_of (if_value (co_identities s)) (source_weights (ch_actors c) (if_value (co_shares s)))\<rparr>"

lemma resolve_channel_eq:
  assumes "wf_shares (if_value (co_shares s))" and "wf_channel_set (if_value (co_channels s))"
  shows "resolve_channel s i =
    (case channels_get (if_value (co_channels s)) i of
       None \<Rightarrow> Err (NoSuchChannel i (co_at s))
     | Some c \<Rightarrow>
         (let n = length (source_weights (ch_actors c) (if_value (co_shares s))) in
          if ch_mode c = Individual \<and> n \<noteq> 1 then Err (NotSingleActor i n) else Ok (resolved_as s c)))"
proof (cases "channels_get (if_value (co_channels s)) i")
  case None
  then show ?thesis by (simp add: resolve_channel_def)
next
  case (Some c)
  have wf: "wf_channels (if_value (co_channels s))" using assms(2) by (simp add: wf_channel_set_def)
  then have "c \<in> set (channels (if_value (co_channels s)))" using Some by (simp add: channels_table.get_Some_iff)
  then have "fair_list (source_weights (ch_actors c) (if_value (co_shares s)))"
    using assms by (intro source_weights_fair) (simp_all add: wf_channel_set_def)
  note actors = actors_of_Ok [OF this, of "if_value (co_identities s)"]
  have "is_individual (ch_mode c) \<longleftrightarrow> ch_mode c = Individual" by (simp add: is_individual_def split: channel_mode.splits)
  then show ?thesis
    by (simp add: resolve_channel_def Some actors resolved_as_def set_of_def Let_def)
qed

lemma resolve_channel_no_Panic:
  assumes "wf_shares (if_value (co_shares s))" and "wf_channel_set (if_value (co_channels s))"
  shows "resolve_channel s i \<noteq> Panic"
  unfolding resolve_channel_eq [OF assms] by (simp add: Let_def split: option.splits)

lemma sole_actor_resolved:
  assumes "ch_mode c = Individual" and "length (source_weights (ch_actors c) (if_value (co_shares s))) = 1"
  shows "\<exists>i w. source_weights (ch_actors c) (if_value (co_shares s)) = [(i, w)] \<and>
    sole_actor (resolved_as s c) = Some (actor_at (if_value (co_identities s)) (i, w))"
proof -
  obtain i w where "source_weights (ch_actors c) (if_value (co_shares s)) = [(i, w)]"
    using assms(2) by (cases "source_weights (ch_actors c) (if_value (co_shares s))") auto
  then show ?thesis using assms(1) by (simp add: sole_actor_def resolved_as_def set_of_def)
qed

section \<open>Blocks that are not Irena's company records\<close>

definition company_namespace :: "string \<Rightarrow> bool" where
  "company_namespace ns \<longleftrightarrow> (\<exists>k. ns = kind_namespace k)"

lemma chain_records_other:
  assumes "b_transactions b = [t]" and "\<not> company_namespace (namespace_str (t_namespace t))"
  shows "chain_records tok hexd (bs @ [b]) = Ok rs \<longleftrightarrow> chain_records tok hexd bs = Ok rs"
proof -
  have "kind_of_namespace (namespace_str (t_namespace t)) = None"
    using assms(2) kind_of_namespace_iff [of "namespace_str (t_namespace t)"]
    by (cases "kind_of_namespace (namespace_str (t_namespace t))") (auto simp: company_namespace_def)
  then have "read_entry tok hexd (h_height (b_header b)) (0, t) = Ok None" by (simp add: read_entry_def)
  moreover have "chain_entries [b] = [(h_height (b_header b), 0, t)]" by (simp add: chain_entries_def assms(1))
  ultimately show ?thesis
    unfolding chain_records_def by (simp only: chain_entries_append read_all_append) simp
qed

text \<open>The company at the height of such a block is the company at the head before it.\<close>

lemma reconstruct_other:
  assumes de: "decodes_blocks de" and bs: "represents cr bs st" and new: "represents cr (bs @ b # new) st'"
    and b: "b_transactions b = [t]" "\<not> company_namespace (namespace_str (t_namespace t))" and h: "unat h = length bs"
    and now: "company_now tok hexd de st = Ok s"
  shows "reconstruct tok hexd de st' h = Ok (s\<lparr>co_at := h\<rparr>)"
proof -
  have u: "upto h (bs @ b # new) = bs @ [b]" using h by (simp add: upto_def)
  show ?thesis
    using now unfolding reconstruct_Ok_iff [OF de new] company_now_Ok_iff [OF de bs] u chain_records_other [OF b] by auto
qed

lemma authorised_signer_at [simp]: "authorised_signer (s\<lparr>co_at := h\<rparr>) family key = authorised_signer s family key"
  by (simp add: authorised_signer_def)

lemma resolve_channel_at: "resolve_channel (s\<lparr>co_at := h\<rparr>) i = Ok r \<Longrightarrow> \<exists>q. resolve_channel s i = Ok q"
  by (auto simp: resolve_channel_def result_simps split: if_splits)

lemma company_id_new_Ok_iff: "company_id_new s = Ok c \<longleftrightarrow> c = CompanyId s \<and> wf_label s"
  using company_id_new_label [of s] by (auto simp: company_id_new_def Let_def split: list.splits if_splits)

lemma channel_id_new_Ok_iff: "channel_id_new s = Ok c \<longleftrightarrow> c = ChannelId s \<and> wf_label s"
  using channel_id_new_label [of s] by (auto simp: channel_id_new_def Let_def split: list.splits if_splits)

section \<open>The layout of a record\<close>

definition wf_decision_snapshot :: "decision_snapshot \<Rightarrow> bool" where
  "wf_decision_snapshot s \<longleftrightarrow> is_string (ds_company s) \<and> is_string (ds_subject s) \<and> is_string (ds_channel s) \<and> is_string (ds_actor s)"

abbreviation decodes_decisions :: "(bytes \<Rightarrow> (decision_record \<times> bytes) option) \<Rightarrow> bool" where
  "decodes_decisions dd \<equiv> reads_back enc_decision_record (\<lambda>r. wf_decision_snapshot (dr_snapshot r)) dd"

lemma decision_namespace: "wf_label DECISION_NAMESPACE" "\<not> company_namespace DECISION_NAMESPACE"
proof -
  show "wf_label DECISION_NAMESPACE" unfolding wf_label_def by code_simp
  show "\<not> company_namespace DECISION_NAMESPACE"
    by (auto simp: company_namespace_def DECISION_NAMESPACE_def kind_namespace_def split: record_kind.splits)
qed

section \<open>Each operation, exactly\<close>

text \<open>The channel of a state decides alone: it is individual and its source is one person, whose key is \<open>key\<close>.\<close>

definition decides_alone :: "company_state \<Rightarrow> channel_id \<Rightarrow> voter_id \<Rightarrow> public_key \<Rightarrow> bool" where
  "decides_alone s channel i key \<longleftrightarrow>
     (\<exists>c w. channels_get (if_value (co_channels s)) channel = Some c \<and> ch_mode c = Individual \<and>
        source_weights (ch_actors c) (if_value (co_shares s)) = [(i, w)] \<and> key_of (if_value (co_identities s)) i = Some key)"

definition decision_snapshot_of ::
    "company_state \<Rightarrow> block_height \<Rightarrow> channel_id \<Rightarrow> voter_id \<Rightarrow> public_key \<Rightarrow> string \<Rightarrow> hash \<Rightarrow> decision_snapshot" where
  "decision_snapshot_of s at channel i key subject digest =
     \<lparr>ds_company = company_id_str (co_company s), ds_subject = subject, ds_proposal_digest = digest, ds_height = at,
      ds_genesis_tx_id = co_genesis_tx_id s, ds_shares_tx_id = if_tx_id (co_shares s),
      ds_channels_tx_id = if_tx_id (co_channels s), ds_identities_tx_id = if_tx_id (co_identities s),
      ds_channel = channel_id_str channel, ds_actor = voter_id_str i, ds_key = key\<rparr>"

lemma decision_expect_iff [result_simps]:
  "decision_expect d wanted to = Ok x \<longleftrightarrow> dc_status d = wanted"
  "decision_expect d wanted to = Err e \<longleftrightarrow> dc_status d \<noteq> wanted \<and> e = DecisionInvalidTransition (dc_status d) to"
  "decision_expect d wanted to \<noteq> Panic"
  by (auto simp: decision_expect_def)

text \<open>What resolving and asking for the sole actor and the key gives.\<close>

lemma sole_actor_of_channel:
  assumes wf: "wf_shares (if_value (co_shares s))" "wf_channel_set (if_value (co_channels s))"
  shows "(\<exists>r a. resolve_channel s channel = Ok r \<and> sole_actor r = Some a \<and> at_id a = i \<and> at_key a = Some key) \<longleftrightarrow>
    decides_alone s channel i key"
proof -
  have sole: "sole_actor (resolved_as s c) = Some a \<longleftrightarrow> ch_mode c = Individual \<and>
      (\<exists>p r. source_weights (ch_actors c) (if_value (co_shares s)) = p # r \<and> a = actor_at (if_value (co_identities s)) p)" for c a
    by (cases "ch_mode c"; cases "source_weights (ch_actors c) (if_value (co_shares s))")
      (auto simp: sole_actor_def resolved_as_def set_of_def)
  show ?thesis
  proof (cases "channels_get (if_value (co_channels s)) channel")
    case None
    then show ?thesis by (simp add: resolve_channel_eq [OF wf] decides_alone_def)
  next
    case (Some c)
    have one: "length ws = 1 \<and> (\<exists>p. (\<exists>r. ws = p # r) \<and> a = f p) \<longleftrightarrow> (\<exists>p. ws = [p] \<and> a = f p)" for ws :: "(voter_id \<times> u64) list" and f a
      by (cases ws) auto
    show ?thesis
      unfolding resolve_channel_eq [OF wf] Some decides_alone_def
      by (cases "source_weights (ch_actors c) (if_value (co_shares s))" rule: list.exhaust)
        (auto simp: Let_def sole actor_at_def)
  qed
qed

lemma decision_freeze_Ok_iff:
  assumes "decodes_blocks de" and "represents cr bs st"
  shows "decision_freeze tok hexd de st at channel d = Ok d' \<longleftrightarrow> dc_status d = DecisionDraft \<and>
    (\<exists>s i key. reconstruct tok hexd de st at = Ok s \<and> decides_alone s channel i key \<and>
       d' = d\<lparr>dc_snapshot := Some (decision_snapshot_of s at channel i key (dc_subject d) (dc_proposal_digest d)),
              dc_status := DecisionFrozen\<rparr>)"
proof (cases "reconstruct tok hexd de st at")
  case (Ok s)
  have "decision_freeze tok hexd de st at channel d = Ok d' \<longleftrightarrow> dc_status d = DecisionDraft \<and>
      (\<exists>i key. (\<exists>r a. resolve_channel s channel = Ok r \<and> sole_actor r = Some a \<and> at_id a = i \<and> at_key a = Some key) \<and>
       d' = d\<lparr>dc_snapshot := Some (decision_snapshot_of s at channel i key (dc_subject d) (dc_proposal_digest d)),
              dc_status := DecisionFrozen\<rparr>)"
    unfolding decision_freeze_def Ok decision_snapshot_of_def by (auto simp: result_simps)
  then show ?thesis
    unfolding sole_actor_of_channel [OF reconstruct_wf(1,2) [OF assms Ok]] by (simp add: Ok)
qed (simp_all add: decision_freeze_def result_simps)

lemma decision_freeze_no_Panic:
  assumes "decodes_blocks de" and "represents cr bs st"
  shows "decision_freeze tok hexd de st at channel d \<noteq> Panic"
proof (cases "reconstruct tok hexd de st at")
  case (Ok s)
  then show ?thesis
    using resolve_channel_no_Panic [OF reconstruct_wf(1,2) [OF assms Ok]]
    by (auto simp: decision_freeze_def result_simps)
qed (use reconstruct_no_Panic [OF assms] in \<open>simp_all add: decision_freeze_def result_simps\<close>)

lemma decision_sign_Ok_iff:
  "decision_sign cr seed d = Ok d' \<longleftrightarrow> dc_status d = DecisionFrozen \<and>
     (\<exists>s. dc_snapshot d = Some s \<and> ed_public cr seed = ds_key s \<and>
        d' = d\<lparr>dc_signature := Some (ed_sign cr seed (digest_bytes (decision_signing_message cr s))), dc_status := DecisionSigned\<rparr>)"
  by (auto simp: decision_sign_def result_simps)

lemma decision_final_record_Ok_iff:
  "decision_final_record cr d = Ok r \<longleftrightarrow> dc_status d \<in> {DecisionSigned, DecisionFinalized} \<and>
     (\<exists>s sig. dc_snapshot d = Some s \<and> dc_signature d = Some sig \<and> r = decision_record_assemble cr s sig)"
  by (auto simp: decision_final_record_def result_simps)

lemma decision_check_signature_Ok_iff:
  "decision_check_signature cr r = Ok x \<longleftrightarrow>
     verify_signature cr (ds_key (dr_snapshot r)) (digest_bytes (decision_signing_message cr (dr_snapshot r))) (dr_signature r) = Ok ()"
  by (simp add: decision_check_signature_def result_simps)

lemma decision_ready_Ok_iff:
  "decision_ready tok hexd cr de st seed d = Ok r \<longleftrightarrow> dc_status d = DecisionSigned \<and> decision_final_record cr d = Ok r \<and>
     decision_check_signature cr r = Ok () \<and>
     (\<exists>now p s. company_now tok hexd de st = Ok now \<and> authorised_signer now Governance (ed_public cr seed) = Ok p \<and>
        reconstruct tok hexd de st (ds_height (dr_snapshot r)) = Ok s \<and>
        if_tx_id (co_channels s) = ds_channels_tx_id (dr_snapshot r) \<and> company_id_str (co_company s) = ds_company (dr_snapshot r))"
  by (auto simp: decision_ready_def result_simps)

lemma verify_signature_no_Panic [simp]: "verify_signature cr key message s \<noteq> Panic"
  by (simp add: verify_signature_def)

lemma decision_ready_no_Panic:
  assumes "decodes_blocks de" and "represents cr bs st" and "decision_final_record cr d \<noteq> Panic"
  shows "decision_ready tok hexd cr de st seed d \<noteq> Panic"
  using company_now_no_Panic [OF assms(1,2)] reconstruct_no_Panic [OF assms(1,2)] authorised_signer_no_Panic assms(3)
  by (auto simp: decision_ready_def result_simps decision_check_signature_def)

section \<open>The decision as a state machine\<close>

text \<open>
  What can happen to a decision: its operations, in any order, each against any store that a program can
  hold at that moment, with any key.
\<close>

inductive decision_reaches ::
    "(string \<Rightarrow> xml_reader) \<Rightarrow> (string \<Rightarrow> bytes option) \<Rightarrow> crypto \<Rightarrow> (bytes \<Rightarrow> (block \<times> bytes) option) \<Rightarrow> decision \<Rightarrow> bool"
  for tok :: "string \<Rightarrow> xml_reader" and hexd :: "string \<Rightarrow> bytes option" and cr :: crypto
    and de :: "bytes \<Rightarrow> (block \<times> bytes) option" where
  drafted: "decision_reaches tok hexd cr de (decision_draft subject digest)"
| frozen: "decision_reaches tok hexd cr de d \<Longrightarrow> reachable cr de st \<Longrightarrow>
     decision_freeze tok hexd de st at channel d = Ok d' \<Longrightarrow> decision_reaches tok hexd cr de d'"
| signed: "decision_reaches tok hexd cr de d \<Longrightarrow> decision_sign cr seed d = Ok d' \<Longrightarrow> decision_reaches tok hexd cr de d'"
| finalized: "decision_reaches tok hexd cr de d \<Longrightarrow> reachable cr de st \<Longrightarrow>
     decision_finalize tok hexd cr de io st seed ms d = (st', Ok (d', f)) \<Longrightarrow> decision_reaches tok hexd cr de d'"

text \<open>What a decision holds in each status; a signature that is held verifies under the frozen key.\<close>

definition decision_inv :: "crypto \<Rightarrow> decision \<Rightarrow> bool" where
  "decision_inv cr d \<longleftrightarrow>
     (dc_snapshot d = None \<longleftrightarrow> dc_status d = DecisionDraft) \<and>
     (dc_signature d = None \<longleftrightarrow> dc_status d \<in> {DecisionDraft, DecisionFrozen}) \<and>
     (dc_finalized d = None \<longleftrightarrow> dc_status d \<noteq> DecisionFinalized) \<and>
     (\<forall>s. dc_snapshot d = Some s \<longrightarrow> ds_subject s = dc_subject d \<and> ds_proposal_digest s = dc_proposal_digest d \<and>
        (\<forall>sig. dc_signature d = Some sig \<longrightarrow>
           verify_signature cr (ds_key s) (digest_bytes (decision_signing_message cr s)) sig = Ok ()))"

lemma decision_finalize_Ok_iff:
  "decision_finalize tok hexd cr de io st seed ms d = (st', Ok (d', f)) \<longleftrightarrow>
     (\<exists>r i h. decision_ready tok hexd cr de st seed d = Ok r \<and>
        seal cr de io st seed DECISION_NAMESPACE DECISION_SCHEMA_VERSION (enc_decision_record r) ms = (st', Ok (i, h)) \<and>
        d' = d\<lparr>dc_finalized := Some (i, h), dc_status := DecisionFinalized\<rparr> \<and>
        f = \<lparr>fd_tx_id = i, fd_height = h, fd_record = r\<rparr>)"
  by (cases "decision_ready tok hexd cr de st seed d";
      cases "seal cr de io st seed DECISION_NAMESPACE DECISION_SCHEMA_VERSION
        (enc_decision_record (case decision_ready tok hexd cr de st seed d of Ok r \<Rightarrow> r)) ms")
    (auto simp: decision_finalize_def result_simps split: prod.splits)

lemma signature_of_seed:
  "signatures_verify cr \<Longrightarrow> verify_signature cr (ed_public cr seed) message (ed_sign cr seed message) = Ok ()"
  by (simp add: signatures_verify_def verify_signature_def)

lemma decision_reaches_inv:
  assumes "signatures_verify cr" and "decodes_blocks de" and "decision_reaches tok hexd cr de d"
  shows "decision_inv cr d"
  using assms(3)
proof (induction rule: decision_reaches.induct)
  case (drafted subject digest)
  show ?case by (simp add: decision_inv_def decision_draft_def)
next
  case (frozen d st at channel d')
  obtain bs where "represents cr bs st" by (rule reachable_represents [OF frozen(2) assms(2)])
  with frozen show ?case
    by (auto simp: decision_freeze_Ok_iff [OF assms(2)] decision_inv_def decision_snapshot_of_def)
next
  case (signed d seed d')
  then show ?case
    using signature_of_seed [OF assms(1), of seed] by (auto simp: decision_sign_Ok_iff decision_inv_def)
next
  case (finalized d st io seed ms st' d' f)
  then show ?case
    by (auto simp: decision_finalize_Ok_iff decision_ready_Ok_iff decision_inv_def)
qed

lemma decision_inv_no_Panic:
  assumes "decision_inv cr d"
  shows "decision_sign cr seed d \<noteq> Panic" "decision_final_record cr d \<noteq> Panic"
  using assms by (auto simp: decision_inv_def decision_sign_def decision_final_record_def result_simps)

section \<open>What a verified record means\<close>

text \<open>
  The specification of a decision record at height \<open>h\<close>, in a transaction signed by \<open>signer\<close>: the snapshot
  is the one the company of that earlier height gives for an actor who decides alone through the
  channel, the actor's signature is over it, and \<open>signer\<close> could sign governance records at \<open>h\<close>.
\<close>

definition decision_holds ::
    "(string \<Rightarrow> xml_reader) \<Rightarrow> (string \<Rightarrow> bytes option) \<Rightarrow> crypto \<Rightarrow> (bytes \<Rightarrow> (block \<times> bytes) option)
      \<Rightarrow> chain_store \<Rightarrow> block_height \<Rightarrow> public_key \<Rightarrow> decision_record \<Rightarrow> bool" where
  "decision_holds tok hexd cr de st h signer r \<longleftrightarrow>
     (let sn = dr_snapshot r in
      dr_decision_id r = decision_snapshot_id cr sn \<and> ds_height sn < h \<and> wf_label (ds_company sn) \<and> wf_label (ds_channel sn) \<and>
      (\<exists>s i. reconstruct tok hexd de st (ds_height sn) = Ok s \<and> decides_alone s (ChannelId (ds_channel sn)) i (ds_key sn) \<and>
         sn = decision_snapshot_of s (ds_height sn) (ChannelId (ds_channel sn)) i (ds_key sn) (ds_subject sn) (ds_proposal_digest sn)) \<and>
      (\<exists>s p. reconstruct tok hexd de st h = Ok s \<and> authorised_signer s Governance signer = Ok p) \<and>
      verify_signature cr (ds_key sn) (digest_bytes (decision_signing_message cr sn)) (dr_signature r) = Ok ())"

lemma signer_authorised_at_eq:
  assumes "decodes_blocks de" and "represents cr bs st"
  shows "signer_authorised_at tok hexd de st h key =
    Ok (\<exists>s p. reconstruct tok hexd de st h = Ok s \<and> authorised_signer s Governance key = Ok p)"
proof (cases "reconstruct tok hexd de st h")
  case (Ok s)
  then show ?thesis
    using authorised_signer_no_Panic [of s Governance key]
    by (cases "authorised_signer s Governance key") (simp_all add: signer_authorised_at_def)
qed (use reconstruct_no_Panic [OF assms] in \<open>simp_all add: signer_authorised_at_def\<close>)

lemma decision_channel_checks_eq:
  assumes "wf_shares (if_value (co_shares s))" and "wf_channel_set (if_value (co_channels s))"
  obtains checks where "decision_channel_checks s channel sn = Ok checks"
    "list_all snd checks \<longleftrightarrow> (\<exists>i. decides_alone s channel i (ds_key sn) \<and> voter_id_str i = ds_actor sn)"
proof (cases "resolve_channel s channel")
  case (Ok r)
  show ?thesis
  proof (cases "sole_actor r")
    case None
    then show ?thesis
      using Ok by (intro that) (auto simp: decision_channel_checks_def sole_actor_of_channel [OF assms, symmetric])
  next
    case (Some a)
    then show ?thesis
      using Ok by (intro that) (auto simp: decision_channel_checks_def sole_actor_of_channel [OF assms, symmetric])
  qed
next
  case (Err e)
  then show ?thesis by (intro that) (auto simp: decision_channel_checks_def sole_actor_of_channel [OF assms, symmetric])
next
  case Panic
  then show ?thesis using resolve_channel_no_Panic [OF assms] by blast
qed

lemma snapshot_pinned:
  assumes "co_company s = CompanyId (ds_company sn)"
  shows "(sn = decision_snapshot_of s (ds_height sn) (ChannelId (ds_channel sn)) i (ds_key sn) (ds_subject sn) (ds_proposal_digest sn))
    \<longleftrightarrow> pins_hold s (ds_genesis_tx_id sn) (ds_shares_tx_id sn) (ds_channels_tx_id sn) (ds_identities_tx_id sn) \<and>
      voter_id_str i = ds_actor sn"
  using assms by (cases sn) (auto simp: decision_snapshot_of_def pins_hold_def)

lemma decision_checks_exact:
  assumes "decodes_blocks de" and "represents cr bs st"
  obtains checks where "decision_checks tok hexd cr de st l r = (Ok checks :: (decision_error, (decision_check_name \<times> bool) list) result)" "checks \<noteq> []"
    "list_all snd checks \<longleftrightarrow> decision_holds tok hexd cr de st (lt_height l) (t_signer (lt_transaction l)) r"
proof -
  let ?sn = "dr_snapshot r"
  let ?labels = "rbind (company_id_new (ds_company ?sn)) (\<lambda>c. rbind (channel_id_new (ds_channel ?sn)) (\<lambda>ch. Ok (c, ch)))"
  have no_panic: "company_id_new x \<noteq> Panic" "channel_id_new y \<noteq> Panic" for x y
    by (simp_all add: company_id_new_def channel_id_new_def Let_def split: list.splits)
  show thesis
  proof (cases ?labels)
    case Panic
    then show ?thesis using no_panic by (auto simp: result_simps)
  next
    case (Err e)
    then have "\<not> (wf_label (ds_company ?sn) \<and> wf_label (ds_channel ?sn))"
      using company_id_new_label [of "ds_company ?sn"] channel_id_new_label [of "ds_channel ?sn"]
      by (auto simp: result_simps)
    then show ?thesis
      using Err by (intro that) (auto simp: decision_checks_def Let_def decision_holds_def)
  next
    case (Ok labels)
    then have labels: "labels = (CompanyId (ds_company ?sn), ChannelId (ds_channel ?sn))"
      "wf_label (ds_company ?sn)" "wf_label (ds_channel ?sn)"
      by (auto simp: result_simps company_id_new_Ok_iff channel_id_new_Ok_iff)
    note Ok = Ok [unfolded labels(1)]
    show ?thesis
    proof (cases "reconstruct tok hexd de st (ds_height ?sn)")
      case Panic
      then show ?thesis using reconstruct_no_Panic [OF assms] by blast
    next
      case (Err e)
      then show ?thesis
        using Ok by (intro that) (auto simp: decision_checks_def Let_def decision_holds_def)
    next
      case state: (Ok s)
      show ?thesis
      proof (cases "co_company s = CompanyId (ds_company ?sn) \<and>
          pins_hold s (ds_genesis_tx_id ?sn) (ds_shares_tx_id ?sn) (ds_channels_tx_id ?sn) (ds_identities_tx_id ?sn)")
        case False
        moreover from this have "?sn \<noteq> decision_snapshot_of s (ds_height ?sn) (ChannelId (ds_channel ?sn)) i (ds_key ?sn)
            (ds_subject ?sn) (ds_proposal_digest ?sn)" for i
          by (cases ?sn; cases "co_company s") (auto simp: decision_snapshot_of_def pins_hold_def)
        ultimately show ?thesis
          using Ok state by (intro that) (auto simp: decision_checks_def Let_def decision_holds_def)
      next
        case True
        obtain resolves where resolves: "decision_channel_checks s (ChannelId (ds_channel ?sn)) ?sn = Ok resolves"
          "list_all snd resolves \<longleftrightarrow> (\<exists>i. decides_alone s (ChannelId (ds_channel ?sn)) i (ds_key ?sn) \<and> voter_id_str i = ds_actor ?sn)"
          using decision_channel_checks_eq [OF reconstruct_wf(1,2) [OF assms state]] by metis
        let ?a = "\<exists>s p. reconstruct tok hexd de st (lt_height l) = Ok s \<and>
          authorised_signer s Governance (t_signer (lt_transaction l)) = Ok p"
        obtain signed where signed: "caught (decision_check_signature cr r) = (Ok signed :: (decision_error, unit option) result)"
          "signed \<noteq> None \<longleftrightarrow> decision_check_signature cr r = Ok ()"
          by (cases "decision_check_signature cr r") (auto simp: decision_check_signature_def result_simps)
        have eq: "decision_checks tok hexd cr de st l r =
            Ok ([(DecisionDecodes, True), (DecisionIdDerives, decision_snapshot_id cr ?sn = dr_decision_id r),
                 (DecisionSnapshotPrecedesRecord, ds_height ?sn < lt_height l)] @
              [(DecisionRecordsResolve, True), (DecisionSignerAuthorised, ?a)] @ resolves @
              [(SignatureVerifies, signed \<noteq> None)])"
          using Ok state True by (simp add: decision_checks_def Let_def resolves(1) signed(1) signer_authorised_at_eq [OF assms])
        have "decision_holds tok hexd cr de st (lt_height l) (t_signer (lt_transaction l)) r \<longleftrightarrow>
            decision_snapshot_id cr ?sn = dr_decision_id r \<and> ds_height ?sn < lt_height l \<and> ?a \<and>
            list_all snd resolves \<and> signed \<noteq> None"
          using True labels(2,3) state resolves(2) signed(2)
          by (auto simp: decision_holds_def Let_def snapshot_pinned decision_check_signature_Ok_iff)
        then show ?thesis by (intro that [OF eq]) auto
      qed
    qed
  qed
qed

lemma get_transaction_cases:
  assumes "decodes_blocks de" and "represents cr bs st"
  obtains "get_transaction de st i = Ok None" | l where "get_transaction de st i = Ok (Some l)"
proof (cases "i \<in> set (chain_ids bs)")
  case False
  then show ?thesis using get_transaction_absent [OF assms(2)] that(1) by blast
next
  case True
  then obtain k j where kj: "k < length bs" "j < length (b_transactions (bs ! k))"
    "i = t_id (b_transactions (bs ! k) ! j)" by (rule chain_ids_position)
  then show ?thesis using get_transaction_represents [OF assms kj(1,2)] that(2) by simp
qed

lemma decision_report_exact:
  assumes "decodes_blocks de" and "represents cr bs st" and "decodes_decisions dd"
  obtains v where "decision_report tok hexd cr de dd st i l = (Ok v :: (decision_error, decision_verification) result)" "dv_height v = lt_height l"
    "decision_is_valid v \<longleftrightarrow> namespace_str (t_namespace (lt_transaction l)) = DECISION_NAMESPACE \<and>
      (\<exists>r. t_payload (lt_transaction l) = enc_decision_record r \<and> wf_decision_snapshot (dr_snapshot r) \<and>
         dr_version r = DECISION_RECORD_VERSION \<and> dv_record v = Some r \<and>
         decision_holds tok hexd cr de st (lt_height l) (t_signer (lt_transaction l)) r)"
    "\<And>r. namespace_str (t_namespace (lt_transaction l)) = DECISION_NAMESPACE \<Longrightarrow>
      t_payload (lt_transaction l) = enc_decision_record r \<Longrightarrow> wf_decision_snapshot (dr_snapshot r) \<Longrightarrow>
      dr_version r = DECISION_RECORD_VERSION \<Longrightarrow> dv_record v = Some r"
proof (cases "decode dd (t_payload (lt_transaction l))")
  case (Ok r)
  then have r: "wf_decision_snapshot (dr_snapshot r)" "t_payload (lt_transaction l) = enc_decision_record r"
    by (simp_all add: decode_Ok_iff [OF assms(3)])
  have unique: "enc_decision_record q = enc_decision_record r \<Longrightarrow> wf_decision_snapshot (dr_snapshot q) \<Longrightarrow> q = r" for q
    using Ok r decode_Ok_iff [OF assms(3), of "enc_decision_record r" q] by simp
  obtain checks where checks: "decision_checks tok hexd cr de st l r = (Ok checks :: (decision_error, (decision_check_name \<times> bool) list) result)"
    "checks \<noteq> []"
    "list_all snd checks \<longleftrightarrow> decision_holds tok hexd cr de st (lt_height l) (t_signer (lt_transaction l)) r"
    by (rule decision_checks_exact [OF assms(1,2)])
  show ?thesis
  proof (cases "namespace_str (t_namespace (lt_transaction l)) = DECISION_NAMESPACE \<and> dr_version r = DECISION_RECORD_VERSION")
    case True
    then have eq: "decision_report tok hexd cr de dd st i l =
        Ok \<lparr>dv_tx_id = i, dv_height = lt_height l, dv_record = Some r, dv_checks = checks\<rparr>"
      using Ok r checks(1) by (simp add: decision_report_def Let_def)
    show ?thesis by (rule that [OF eq]) (use True r checks(2,3) in \<open>auto simp: decision_is_valid_def dest: unique sym\<close>)
  next
    case False
    then have eq: "decision_report tok hexd cr de dd st i l =
        Ok \<lparr>dv_tx_id = i, dv_height = lt_height l, dv_record = None, dv_checks = [(DecisionDecodes, False)]\<rparr>"
      using Ok by (auto simp: decision_report_def Let_def)
    show ?thesis by (rule that [OF eq]) (use False r in \<open>auto simp: decision_is_valid_def dest: unique [OF sym]\<close>)
  qed
next
  case (Err e)
  have none: "\<not> (\<exists>r. t_payload (lt_transaction l) = enc_decision_record r \<and> wf_decision_snapshot (dr_snapshot r))"
    using Err decode_Ok_iff [OF assms(3), of "t_payload (lt_transaction l)"] by auto
  from Err have eq: "decision_report tok hexd cr de dd st i l =
      Ok \<lparr>dv_tx_id = i, dv_height = lt_height l, dv_record = None, dv_checks = [(DecisionDecodes, False)]\<rparr>"
    by (simp add: decision_report_def Let_def)
  show ?thesis by (rule that [OF eq]) (use none in \<open>auto simp: decision_is_valid_def\<close>)
next
  case Panic
  then show ?thesis by (simp add: decode_def split: option.splits if_splits prod.splits)
qed

section \<open>What decisions promise\<close>

text \<open>
  C28: A channel resolves exactly: in every company that can be reconstructed, \<open>resolve_channel\<close> refuses
  only a channel the company does not have and an individual channel whose source is not exactly one
  person; otherwise the actors are the holders of the register, or the members of the roster, in strict
  id order, each with their own positive weight and the key their identity holds, and the total that
  Bornite is given is the sum of those weights, which fits in 64 bits.
\<close>

theorem channel_resolution_exact:
  assumes "decodes_blocks de" and "reachable cr de st" and "reconstruct tok hexd de st at = Ok s"
  shows "case channels_get (if_value (co_channels s)) i of
      None \<Rightarrow> resolve_channel s i = Err (NoSuchChannel i at)
    | Some c \<Rightarrow>
        (let ws = source_weights (ch_actors c) (if_value (co_shares s)); actors = map (actor_at (if_value (co_identities s))) ws in
         if ch_mode c = Individual \<and> length ws \<noteq> 1 then resolve_channel s i = Err (NotSingleActor i (length ws))
         else \<exists>r. resolve_channel s i = Ok r \<and> rv_channel r = c \<and> set_actors (rv_actors r) = actors \<and>
           wf_electorate (set_electorate (rv_actors r)) \<and>
           map v_id (voters (set_electorate (rv_actors r))) = map fst ws \<and>
           map v_weight (voters (set_electorate (rv_actors r))) = map snd ws \<and>
           (\<forall>w \<in> snd ` set ws. 0 < w) \<and>
           unat (set_total_weight (rv_actors r)) = (\<Sum>w \<leftarrow> map snd ws. unat w) \<and>
           set_signing (rv_actors r) = length (filter (\<lambda>a. at_key a \<noteq> None) actors))"
proof -
  obtain bs where bs: "represents cr bs st" by (rule reachable_represents [OF assms(2,1)])
  note wf = reconstruct_wf(1,2) [OF assms(1) bs assms(3)]
  have at: "co_at s = at" using assms(3) unfolding reconstruct_Ok_iff [OF assms(1) bs] by auto
  show ?thesis
  proof (cases "channels_get (if_value (co_channels s)) i")
    case None
    then show ?thesis by (simp add: resolve_channel_eq [OF wf] at)
  next
    case (Some c)
    let ?ws = "source_weights (ch_actors c) (if_value (co_shares s))"
    have "wf_channels (if_value (co_channels s))" using wf(2) by (simp add: wf_channel_set_def)
    then have "wf_source (ch_actors c)" using Some wf(2) by (simp add: channels_table.get_Some_iff wf_channel_set_def)
    then have fair: "fair_list ?ws" using wf(1) by (intro source_weights_fair)
    let ?ids = "if_value (co_identities s)" and ?a = "rv_actors (resolved_as s c)"
    show ?thesis
    proof (cases "ch_mode c = Individual \<and> length ?ws \<noteq> 1")
      case True
      then show ?thesis by (simp add: Some resolve_channel_eq [OF wf] at)
    next
      case False
      then have "resolve_channel s i = Ok (resolved_as s c)" by (auto simp: Some resolve_channel_eq [OF wf] Let_def)
      moreover have "rv_channel (resolved_as s c) = c" "set_actors ?a = map (actor_at ?ids) ?ws"
        by (simp_all add: resolved_as_def set_of_def)
      moreover have "map v_id (voters (set_electorate ?a)) = map fst ?ws" "map v_weight (voters (set_electorate ?a)) = map snd ?ws"
        by (simp_all add: resolved_as_def set_of_def o_def case_prod_unfold)
      moreover from this(1) have "wf_electorate (set_electorate ?a)" using fair by (simp only: wf_electorate_def fair_list_def)
      moreover have "\<forall>w \<in> snd ` set ?ws. 0 < w" using fair by (simp add: fair_list_def word_gt_0)
      moreover have "unat (set_total_weight ?a) = weight_nat (map snd ?ws)"
        using fair by (simp add: fair_list_def resolved_as_def set_of_def unat_of_nat take_bit_nat_eq_self)
      moreover have "set_signing ?a = length (filter (\<lambda>a. at_key a \<noteq> None) (map (actor_at ?ids) ?ws))"
        by (simp add: resolved_as_def set_of_def filter_map o_def case_prod_unfold actor_at_def)
      ultimately show ?thesis using False by (simp only: Some option.case Let_def if_False) blast
    qed
  qed
qed

lemma decision_finalize_writes_one:
  assumes de: "decodes_blocks de" and st: "reachable cr de st" and rep: "represents cr bs st"
    and room: "length (chain_ids bs) + 1 < 2 ^ 64" and sound: "decision_final_record cr d \<noteq> Panic"
    and fits: "\<And>r. decision_ready tok hexd cr de st key d = Ok r \<Longrightarrow> fits_u32 (enc_decision_record r)"
  shows "writes_one cr de bs st (decision_finalize tok hexd cr de io st key ms d)"
proof (cases "decision_ready tok hexd cr de st key d")
  case (Ok r)
  then show ?thesis
    using writes_one_bind [OF seal_writes_one [OF de st rep room decision_namespace(1) fits [OF Ok]]]
    by (simp add: decision_finalize_def case_prod_unfold Let_def)
next
  case Panic
  then show ?thesis using decision_ready_no_Panic [OF de rep sound] by blast
qed (simp add: decision_finalize_def)

text \<open>
  C29: The decision is a state machine that cannot go wrong: whatever operations are called in whatever
  order and against whatever stores, a decision holds exactly what its status says, the snapshot is of
  its own subject and proposal, a signature it holds verifies under the frozen actor's key, no
  operation panics, and each operation goes through only in its own status, which it advances.
  Finalizing, on a chain whose transaction count has not reached the last 64-bit number and with a
  record that has a canonical encoding, puts exactly one block on the chain or returns an error and
  leaves the store as it was.
\<close>

theorem decision_machine:
  assumes "signatures_verify cr" and "decodes_blocks de" and "decision_reaches tok hexd cr de d"
  shows "decision_inv cr d \<and> decision_sign cr seed d \<noteq> Panic \<and> decision_final_record cr d \<noteq> Panic \<and>
    (\<forall>st at channel. reachable cr de st \<longrightarrow> decision_freeze tok hexd de st at channel d \<noteq> Panic) \<and>
    (\<forall>st key. reachable cr de st \<longrightarrow> decision_ready tok hexd cr de st key d \<noteq> Panic) \<and>
    (\<forall>st at channel d'. decision_freeze tok hexd de st at channel d = Ok d' \<longrightarrow>
       dc_status d = DecisionDraft \<and> dc_status d' = DecisionFrozen) \<and>
    (\<forall>d'. decision_sign cr seed d = Ok d' \<longrightarrow> dc_status d = DecisionFrozen \<and> dc_status d' = DecisionSigned) \<and>
    (\<forall>st io key ms st' d' f. decision_finalize tok hexd cr de io st key ms d = (st', Ok (d', f)) \<longrightarrow>
       dc_status d = DecisionSigned \<and> dc_status d' = DecisionFinalized) \<and>
    (\<forall>st bs io key ms. reachable cr de st \<and> represents cr bs st \<and> length (chain_ids bs) + 1 < 2 ^ 64 \<and>
       (\<forall>r. decision_ready tok hexd cr de st key d = Ok r \<longrightarrow> fits_u32 (enc_decision_record r)) \<longrightarrow>
       snd (decision_finalize tok hexd cr de io st key ms d) \<noteq> Panic \<and>
       writes_one cr de bs st (decision_finalize tok hexd cr de io st key ms d))"
proof -
  have inv: "decision_inv cr d" by (rule decision_reaches_inv [OF assms])
  note panic = decision_inv_no_Panic [OF inv]
  have "decision_freeze tok hexd de st at channel d \<noteq> Panic" "decision_ready tok hexd cr de st key d \<noteq> Panic"
    if st: "reachable cr de st" for st at channel key
  proof -
    obtain bs where "represents cr bs st" by (rule reachable_represents [OF st assms(2)])
    then show "decision_freeze tok hexd de st at channel d \<noteq> Panic" "decision_ready tok hexd cr de st key d \<noteq> Panic"
      using decision_freeze_no_Panic [OF assms(2)] decision_ready_no_Panic [OF assms(2) _ panic(2)] by blast+
  qed
  moreover have "dc_status d = DecisionDraft \<and> dc_status d' = DecisionFrozen"
    if "decision_freeze tok hexd de st at channel d = Ok d'" for st at channel d'
    using that by (auto simp: decision_freeze_def result_simps)
  moreover have "dc_status d = DecisionFrozen \<and> dc_status d' = DecisionSigned" if "decision_sign cr seed d = Ok d'" for d'
    using that by (auto simp: decision_sign_Ok_iff)
  moreover have "dc_status d = DecisionSigned \<and> dc_status d' = DecisionFinalized"
    if "decision_finalize tok hexd cr de io st key ms d = (st', Ok (d', f))" for st io key ms st' d' f
    using that by (auto simp: decision_finalize_Ok_iff decision_ready_Ok_iff)
  moreover have "\<forall>st bs io key ms. reachable cr de st \<and> represents cr bs st \<and> length (chain_ids bs) + 1 < 2 ^ 64 \<and>
       (\<forall>r. decision_ready tok hexd cr de st key d = Ok r \<longrightarrow> fits_u32 (enc_decision_record r)) \<longrightarrow>
       snd (decision_finalize tok hexd cr de io st key ms d) \<noteq> Panic \<and>
       writes_one cr de bs st (decision_finalize tok hexd cr de io st key ms d)"
    using decision_finalize_writes_one [OF assms(2) _ _ _ panic(2)] writes_one_no_Panic by meson
  ultimately show ?thesis using inv panic by (intro conjI) (assumption | (intro allI impI; blast))+
qed

text \<open>
  C30: A decision verifies exactly when it is one. On every store a program can hold, \<open>verify_decision\<close>
  answers for every transaction on the chain, without an error, and the report is valid if and only if
  the transaction is in the decision namespace and carries a record whose snapshot is what the company
  of an earlier height gives for a person who decides alone through the channel, signed by that
  person's key, in a transaction signed by a governance signer of the company at the record's height.
\<close>

theorem verify_decision_exact:
  assumes "decodes_blocks de" and "reachable cr de st" and "decodes_decisions dd"
  shows "case get_transaction de st i of
      Ok None \<Rightarrow> verify_decision tok hexd cr de dd st i = Err (DecisionNoSuchTransaction i)
    | Ok (Some l) \<Rightarrow> \<exists>v. verify_decision tok hexd cr de dd st i = Ok v \<and> dv_height v = lt_height l \<and>
        (decision_is_valid v \<longleftrightarrow> namespace_str (t_namespace (lt_transaction l)) = DECISION_NAMESPACE \<and>
          (\<exists>r. t_payload (lt_transaction l) = enc_decision_record r \<and> wf_decision_snapshot (dr_snapshot r) \<and>
             dr_version r = DECISION_RECORD_VERSION \<and> dv_record v = Some r \<and>
             decision_holds tok hexd cr de st (lt_height l) (t_signer (lt_transaction l)) r))
    | _ \<Rightarrow> False"
proof -
  obtain bs where bs: "represents cr bs st" by (rule reachable_represents [OF assms(2,1)])
  show ?thesis
  proof (rule get_transaction_cases [OF assms(1) bs, of i])
    assume "get_transaction de st i = Ok None"
    then show ?thesis by (simp add: verify_decision_def)
  next
    fix l
    assume l: "get_transaction de st i = Ok (Some l)"
    show ?thesis
      by (rule decision_report_exact [OF assms(1) bs assms(3), of tok hexd i l]) (auto simp: verify_decision_def l)
  qed
qed

section \<open>From a draft to a verified record\<close>

text \<open>What a sealed record looks like from any later store.\<close>

lemma sealed_record:
  assumes de: "decodes_blocks de" and rep: "represents cr bs st" and room: "length (chain_ids bs) + 1 < 2 ^ 64"
    and ns: "wf_label ns" "\<not> company_namespace ns" and payload: "fits_u32 payload"
    and seal: "seal cr de io st seed ns schema payload ms = (st1, Ok (i, h))" and later: "store_steps cr de st1 st2"
  obtains t new where "represents cr (bs @ sealed_block cr (last bs) t ms h # new) st2"
    "get_transaction de st2 i = Ok (Some \<lparr>lt_height = h, lt_index = 0, lt_transaction = t\<rparr>)"
    "t_namespace t = Namespace ns" "t_payload t = payload" "t_signer t = ed_public cr seed" "unat h = length bs"
    "\<And>at. unat at < length bs \<Longrightarrow> reconstruct tok hexd de st2 at = reconstruct tok hexd de st at"
    "\<And>s. company_now tok hexd de st = Ok s \<Longrightarrow> reconstruct tok hexd de st2 h = Ok (s\<lparr>co_at := h\<rparr>)"
proof (rule seal_cases [OF de rep room ns(1) payload, of io seed schema ms])
  fix e assume "seal cr de io st seed ns schema payload ms = (st, Err e)"
  then show thesis using seal by simp
next
  fix st' k
  assume *: "seal cr de io st seed ns schema payload ms = (st', Ok (t_id (sealed_tx cr seed ns schema payload k), k))"
    and k: "unat k = length bs"
    and rep': "represents cr (bs @ [sealed_block cr (last bs) (sealed_tx cr seed ns schema payload k) ms k]) st'"
  let ?t = "sealed_tx cr seed ns schema payload h"
  let ?b = "sealed_block cr (last bs) ?t ms h"
  from * seal have eq: "st' = st1" "i = t_id ?t" "k = h" by auto
  obtain new where "represents cr ((bs @ [?b]) @ new) st2"
    using store_steps_represents [OF later de] rep' eq by blast
  then have new: "represents cr (bs @ ?b # new) st2" by simp
  have "get_transaction de st2 i = Ok (Some \<lparr>lt_height = h, lt_index = 0, lt_transaction = ?t\<rparr>)"
    using get_transaction_represents [OF de new, of "length bs" 0] eq by (simp add: index_u32_def try_from_nat_def)
  moreover have "reconstruct tok hexd de st2 at = reconstruct tok hexd de st at" if "unat at < length bs" for at
    by (rule reconstruct_extends [OF de rep new that])
  moreover have "reconstruct tok hexd de st2 h = Ok (s\<lparr>co_at := h\<rparr>)" if "company_now tok hexd de st = Ok s" for s
    using reconstruct_other [OF de rep new _ _ _ that] ns(2) k eq(3) by simp
  ultimately show thesis using that [of ?t new] new k eq by simp
qed

lemma store_steps_reachable_prefix:
  assumes "decodes_blocks de" and "represents cr bs st" and "store_steps cr de st st'"
  obtains new where "represents cr (bs @ new) st'"
  using store_steps_represents [OF assms(3,1,2)] by blast

text \<open>
  C31: A finalised decision verifies, for ever. A decision that is frozen at a height of the chain, signed,
  and finalised after any further use of the chain, is reported valid by \<open>verify_decision\<close> on every later
  store, with the record that was finalised: amendments of the company between the freeze and the
  finalisation, or afterwards, do not matter. (The texts of the snapshot are strings that fit the layout,
  and the two labels in it are labels, as their types promise.)
\<close>

theorem decision_verifies:
  assumes "decodes_blocks de" and "decodes_decisions dd" and "reachable cr de st0"
    and "store_head st0 = Ok head" and "at \<le> head_height head"
    and "decision_freeze tok hexd de st0 at channel (decision_draft subject digest) = Ok d1"
    and "decision_sign cr key d1 = Ok d2"
    and "store_steps cr de st0 st1" and "represents cr bs st1" and "length (chain_ids bs) + 1 < 2 ^ 64"
    and "decision_finalize tok hexd cr de io st1 seed ms d2 = (st2, Ok (d3, f))"
    and "wf_decision_snapshot (dr_snapshot (fd_record f))" and "fits_u32 (enc_decision_record (fd_record f))"
    and "wf_label (ds_company (dr_snapshot (fd_record f)))" and "wf_label (channel_id_str channel)"
    and "store_steps cr de st2 st3"
  shows "\<exists>v. verify_decision tok hexd cr de dd st3 (fd_tx_id f) = Ok v \<and> decision_is_valid v \<and>
    dv_record v = Some (fd_record f) \<and> dv_height v = fd_height f \<and> decision_final_record cr d3 = Ok (fd_record f)"
proof -
  obtain bs0 where bs0: "represents cr bs0 st0" by (rule reachable_represents [OF assms(3,1)])
  obtain s i k where frozen: "reconstruct tok hexd de st0 at = Ok s" "decides_alone s channel i k"
    "d1 = (decision_draft subject digest)\<lparr>dc_snapshot := Some (decision_snapshot_of s at channel i k subject digest),
       dc_status := DecisionFrozen\<rparr>"
    using assms(6) unfolding decision_freeze_Ok_iff [OF assms(1) bs0] by (auto simp: decision_draft_def)
  let ?sn = "decision_snapshot_of s at channel i k subject digest"
  have d2: "dc_snapshot d2 = Some ?sn" "dc_status d2 = DecisionSigned"
    using assms(7) frozen(3) by (auto simp: decision_sign_Ok_iff)
  from assms(11) obtain r id h where fin: "decision_ready tok hexd cr de st1 seed d2 = Ok r"
    "seal cr de io st1 seed DECISION_NAMESPACE DECISION_SCHEMA_VERSION (enc_decision_record r) ms = (st2, Ok (id, h))"
    "d3 = d2\<lparr>dc_finalized := Some (id, h), dc_status := DecisionFinalized\<rparr>"
    "f = \<lparr>fd_tx_id = id, fd_height = h, fd_record = r\<rparr>"
    unfolding decision_finalize_Ok_iff by blast
  from fin(1) obtain sig now p where r: "r = decision_record_assemble cr ?sn sig" "dc_signature d2 = Some sig"
    "decision_check_signature cr r = Ok ()" "company_now tok hexd de st1 = Ok now"
    "authorised_signer now Governance (ed_public cr seed) = Ok p"
    unfolding decision_ready_Ok_iff decision_final_record_Ok_iff by (auto simp: d2)
  have fits: "fits_u32 (enc_decision_record r)" using assms(13) by (simp add: fin(4))
  obtain t new where t: "represents cr (bs @ sealed_block cr (last bs) t ms h # new) st3"
    "get_transaction de st3 id = Ok (Some \<lparr>lt_height = h, lt_index = 0, lt_transaction = t\<rparr>)"
    "t_namespace t = Namespace DECISION_NAMESPACE" "t_payload t = enc_decision_record r" "t_signer t = ed_public cr seed"
    "unat h = length bs" "\<And>at. unat at < length bs \<Longrightarrow> reconstruct tok hexd de st3 at = reconstruct tok hexd de st1 at"
    "\<And>s. company_now tok hexd de st1 = Ok s \<Longrightarrow> reconstruct tok hexd de st3 h = Ok (s\<lparr>co_at := h\<rparr>)"
    by (rule sealed_record [where tok = tok and hexd = hexd, OF assms(1,9,10) decision_namespace fits fin(2) assms(16)]) (rule that; assumption)
  have at: "unat at < length bs0"
    using assms(4,5) head_height_represents [OF bs0] head_block_represents(1) [OF assms(1) bs0]
    by (cases bs0) (auto simp: word_le_nat_alt)
  obtain more where more: "represents cr (bs0 @ more) st1"
    by (rule store_steps_reachable_prefix [OF assms(1) bs0 assms(8)])
  then have "bs = bs0 @ more" using represents_functional [OF assms(1)] assms(9) by blast
  then have len: "unat at < length bs" using at by simp
  have "reconstruct tok hexd de st3 at = Ok s"
    using t(7) [OF len] reconstruct_extends [OF assms(1) bs0 more at] frozen(1) by simp
  moreover have "reconstruct tok hexd de st3 h = Ok (now\<lparr>co_at := h\<rparr>)" by (rule t(8) [OF r(4)])
  moreover have "at < h" using len t(6) by (simp add: word_less_nat_alt)
  ultimately have holds: "decision_holds tok hexd cr de st3 h (t_signer t) r"
    using frozen(2) r(3,5) assms(14,15) t(5)
    by (auto simp: decision_holds_def Let_def r(1) decision_record_assemble_def decision_snapshot_of_def fin(4)
        decision_check_signature_Ok_iff)
  let ?l = "\<lparr>lt_height = h, lt_index = 0, lt_transaction = t\<rparr>"
  have wf: "wf_decision_snapshot (dr_snapshot r)" "dr_version r = DECISION_RECORD_VERSION"
    using assms(12) by (simp_all add: fin(4) r(1) decision_record_assemble_def)
  show ?thesis
  proof (rule decision_report_exact [OF assms(1) t(1) assms(2), of tok hexd id ?l])
    fix v
    assume "decision_report tok hexd cr de dd st3 id ?l = Ok v" "dv_height v = lt_height ?l"
      and valid: "decision_is_valid v \<longleftrightarrow> namespace_str (t_namespace (lt_transaction ?l)) = DECISION_NAMESPACE \<and>
        (\<exists>r. t_payload (lt_transaction ?l) = enc_decision_record r \<and> wf_decision_snapshot (dr_snapshot r) \<and>
           dr_version r = DECISION_RECORD_VERSION \<and> dv_record v = Some r \<and>
           decision_holds tok hexd cr de st3 (lt_height ?l) (t_signer (lt_transaction ?l)) r)"
      and got: "\<And>r. namespace_str (t_namespace (lt_transaction ?l)) = DECISION_NAMESPACE \<Longrightarrow>
        t_payload (lt_transaction ?l) = enc_decision_record r \<Longrightarrow> wf_decision_snapshot (dr_snapshot r) \<Longrightarrow>
        dr_version r = DECISION_RECORD_VERSION \<Longrightarrow> dv_record v = Some r"
    moreover have held: "dv_record v = Some r" by (rule got) (simp_all add: t(3,4) wf)
    moreover have "decision_is_valid v" unfolding valid using held wf holds by (simp add: t(3,4))
    moreover have "decision_final_record cr d3 = Ok r"
      by (simp add: decision_final_record_def fin(3) d2 r(1,2))
    ultimately show ?thesis by (simp add: verify_decision_def t(2) fin(4))
  qed
qed

text \<open>
  The height is not checked at the freeze: a decision frozen at a height above the head can be signed and
  finalised, but if its record lands at or below that height it never verifies.
\<close>

lemma future_freeze_unverifiable:
  assumes "decodes_blocks de" and "decodes_decisions dd" and "represents cr bs st1" and "length (chain_ids bs) + 1 < 2 ^ 64"
    and "decision_finalize tok hexd cr de io st1 seed ms d2 = (st2, Ok (d3, f))"
    and "wf_decision_snapshot (dr_snapshot (fd_record f))" and "fits_u32 (enc_decision_record (fd_record f))"
    and "fd_height f \<le> ds_height (dr_snapshot (fd_record f))" and "store_steps cr de st2 st3"
  shows "\<exists>v. verify_decision tok hexd cr de dd st3 (fd_tx_id f) = Ok v \<and> \<not> decision_is_valid v"
proof -
  from assms(5) obtain r id h where fin: "decision_ready tok hexd cr de st1 seed d2 = Ok r"
    "seal cr de io st1 seed DECISION_NAMESPACE DECISION_SCHEMA_VERSION (enc_decision_record r) ms = (st2, Ok (id, h))"
    "f = \<lparr>fd_tx_id = id, fd_height = h, fd_record = r\<rparr>"
    unfolding decision_finalize_Ok_iff by blast
  have fits: "fits_u32 (enc_decision_record r)" using assms(7) by (simp add: fin(3))
  obtain t new where t: "represents cr (bs @ sealed_block cr (last bs) t ms h # new) st3"
    "get_transaction de st3 id = Ok (Some \<lparr>lt_height = h, lt_index = 0, lt_transaction = t\<rparr>)"
    "t_payload t = enc_decision_record r"
    using sealed_record [where tok = tok and hexd = hexd, OF assms(1,3,4) decision_namespace fits fin(2) assms(9)] by metis
  have unique: "enc_decision_record q = enc_decision_record r \<Longrightarrow> wf_decision_snapshot (dr_snapshot q) \<Longrightarrow> q = r" for q
    using assms(6) decode_Ok_iff [OF assms(2), of "enc_decision_record r" q] decode_Ok_iff [OF assms(2), of "enc_decision_record r" r]
    by (simp add: fin(3))
  have never: "\<not> decision_holds tok hexd cr de st3 h key r" for key
    using assms(8) by (auto simp: decision_holds_def Let_def fin(3) dest: leD)
  let ?l = "\<lparr>lt_height = h, lt_index = 0, lt_transaction = t\<rparr>"
  show ?thesis
  proof (rule decision_report_exact [OF assms(1) t(1) assms(2), of tok hexd id ?l])
    fix v
    assume v: "decision_report tok hexd cr de dd st3 id ?l = Ok v"
      and valid: "decision_is_valid v \<longleftrightarrow> namespace_str (t_namespace (lt_transaction ?l)) = DECISION_NAMESPACE \<and>
        (\<exists>r. t_payload (lt_transaction ?l) = enc_decision_record r \<and> wf_decision_snapshot (dr_snapshot r) \<and>
           dr_version r = DECISION_RECORD_VERSION \<and> dv_record v = Some r \<and>
           decision_holds tok hexd cr de st3 (lt_height ?l) (t_signer (lt_transaction ?l)) r)"
    have "\<not> decision_is_valid v"
    proof
      assume "decision_is_valid v"
      then obtain q where "enc_decision_record r = enc_decision_record q" "wf_decision_snapshot (dr_snapshot q)"
        "decision_holds tok hexd cr de st3 h (t_signer t) q"
        unfolding valid using t(3) by auto
      then show False using unique [of q] never by metis
    qed
    then show ?thesis using v by (simp add: verify_decision_def t(2) fin(3))
  qed
qed

section \<open>A decoder, and a decision of the sample company\<close>

definition snapshot_fields ::
    "decision_snapshot \<Rightarrow> string \<times> string \<times> hash \<times> block_height \<times> tx_id \<times> tx_id \<times> tx_id \<times> tx_id \<times> string \<times> string \<times> public_key" where
  "snapshot_fields s = (ds_company s, ds_subject s, ds_proposal_digest s, ds_height s, ds_genesis_tx_id s, ds_shares_tx_id s,
     ds_channels_tx_id s, ds_identities_tx_id s, ds_channel s, ds_actor s, ds_key s)"

definition dec_decision_snapshot :: "decision_snapshot decoder" where
  "dec_decision_snapshot = dec_map
     (\<lambda>(c, s, p, h, g, sh, ch, i, cn, a, k). \<lparr>ds_company = c, ds_subject = s, ds_proposal_digest = p, ds_height = h,
        ds_genesis_tx_id = g, ds_shares_tx_id = sh, ds_channels_tx_id = ch, ds_identities_tx_id = i, ds_channel = cn,
        ds_actor = a, ds_key = k\<rparr>)
     (dec_pair dec_string (dec_pair dec_string (dec_pair (dec_array 32) (dec_pair (dec_le 8) (dec_pair (dec_array 32)
       (dec_pair (dec_array 32) (dec_pair (dec_array 32) (dec_pair (dec_array 32) (dec_pair dec_string
       (dec_pair dec_string (dec_array 32)))))))))))"

lemma reads_back_decision_snapshot: "reads_back enc_decision_snapshot wf_decision_snapshot dec_decision_snapshot"
  unfolding dec_decision_snapshot_def
  by (rule reads_back_cong [OF reads_back_map [where g = snapshot_fields,
          OF reads_back_pair [OF reads_back_string reads_back_pair [OF reads_back_string
            reads_back_pair [OF reads_back_array reads_back_pair [OF reads_back_u64 reads_back_pair [OF reads_back_array
            reads_back_pair [OF reads_back_array reads_back_pair [OF reads_back_array reads_back_pair [OF reads_back_array
            reads_back_pair [OF reads_back_string reads_back_pair [OF reads_back_string reads_back_array]]]]]]]]]]]])
    (auto simp: snapshot_fields_def enc_decision_snapshot_def wf_decision_snapshot_def)

definition dec_decision_record :: "decision_record decoder" where
  "dec_decision_record = dec_map
     (\<lambda>(v, i, s, g). \<lparr>dr_version = v, dr_decision_id = i, dr_snapshot = s, dr_signature = g\<rparr>)
     (dec_pair (dec_le 2) (dec_pair (dec_array 32) (dec_pair dec_decision_snapshot (dec_array 64))))"

lemma reads_back_decision_record: "decodes_decisions dec_decision_record"
  unfolding dec_decision_record_def
  by (rule reads_back_cong [OF reads_back_map [where g = "\<lambda>r. (dr_version r, dr_decision_id r, dr_snapshot r, dr_signature r)",
          OF reads_back_pair [OF reads_back_u16 reads_back_pair [OF reads_back_array
            reads_back_pair [OF reads_back_decision_snapshot reads_back_array]]]]])
    (auto simp: enc_decision_record_def)

abbreviation sample_state :: company_state where
  "sample_state \<equiv> sample_genesis_state\<lparr>co_at := 0\<rparr>"

abbreviation sample_drafted :: decision where
  "sample_drafted \<equiv> decision_draft ''lease'' 7"

definition sample_decision :: decision_snapshot where
  "sample_decision =
     \<lparr>ds_company = ''acme'', ds_subject = ''lease'', ds_proposal_digest = 7, ds_height = 0, ds_genesis_tx_id = sample_founding_id,
      ds_shares_tx_id = sample_founding_id, ds_channels_tx_id = sample_founding_id, ds_identities_tx_id = sample_founding_id,
      ds_channel = ''board'', ds_actor = ''ann'', ds_key = 16\<rparr>"

lemma sample_decision: "decision_snapshot_of sample_state 0 (ChannelId ''board'') (VoterId ''ann'') 16 ''lease'' 7 = sample_decision"
  by (simp add: decision_snapshot_of_def sample_decision_def sample_state_parts sample_state_facts)

lemma sample_decides: "decides_alone sample_state (ChannelId ''board'') (VoterId ''ann'') 16"
proof -
  have "case channels_get (cg_channels sample_company) (ChannelId ''board'') of
      Some c \<Rightarrow> ch_mode c = Individual \<and> source_weights (ch_actors c) (cg_shares sample_company) = [(VoterId ''ann'', 1)] \<and>
        key_of (cg_identities sample_company) (VoterId ''ann'') = Some 16
    | None \<Rightarrow> False" by code_simp
  then show ?thesis
    by (auto simp: decides_alone_def sample_state_parts sample_genesis_state split: option.splits)
qed

lemma sample_decision_length: "length (enc_decision_record (decision_record_assemble cr sample_decision s)) = 331"
  by (simp add: decision_record_assemble_def enc_decision_record_def enc_decision_snapshot_def sample_decision_def enc_string_def
      enc_bytes_def enc_u16_def enc_u32_def enc_u64_def str_bytes_def)

lemma sample_decision_wf: "wf_decision_snapshot sample_decision" "wf_label (ds_company sample_decision)"
  "wf_label (channel_id_str (ChannelId ''board''))"
proof -
  show "wf_decision_snapshot sample_decision" by code_simp
  show "wf_label (ds_company sample_decision)" "wf_label (channel_id_str (ChannelId ''board''))"
    unfolding wf_label_def by code_simp+
qed

lemma sample_governance:
  obtains p where "authorised_signer sample_state Governance (ed_public sample_ledger_crypto 5) = Ok p"
proof -
  obtain p where "holder_of (cg_identities sample_company) 16 = Some p" "allows (cg_authorisation sample_company) (pn_id p) Governance"
    by (rule sample_company_signer)
  then have "authorised_signer sample_state Governance (ed_public sample_ledger_crypto 5) = Ok p"
    by (auto simp: authorised_signer_def signer_of_Ok_iff sample_genesis_state sample_state_facts)
  then show thesis by (rule that)
qed

text \<open>The decision of the board, frozen, signed and finalised on the chain the company is founded on.\<close>

lemma sample_decision_run:
  obtains st b d1 d2 st' d3 f where "reachable sample_ledger_crypto dec_block st" "represents sample_ledger_crypto [b] st"
    "store_head st = Ok (head_of sample_ledger_crypto [b])"
    "decision_freeze sample_company_tok sample_hexd dec_block st 0 (ChannelId ''board'') sample_drafted = Ok d1"
    "decision_sign sample_ledger_crypto 5 d1 = Ok d2" "length (chain_ids [b]) + 1 < 2 ^ 64"
    "decision_finalize sample_company_tok sample_hexd sample_ledger_crypto dec_block True st 5 10 d2 = (st', Ok (d3, f))"
    "fd_record f = decision_record_assemble sample_ledger_crypto sample_decision 0"
proof -
  obtain st b where st: "reachable sample_ledger_crypto dec_block st" "represents sample_ledger_crypto [b] st"
    "b_transactions b = [sample_founding_tx]" "h_timestamp_millis (b_header b) = 0"
    "company_now sample_company_tok sample_hexd dec_block st = Ok sample_state"
    by (rule sample_company_chain)
  let ?cr = sample_ledger_crypto
  note now = sample_company_at_founding(1) [OF st(2,5)] and head = sample_company_at_founding(3) [OF st(2,5)]
  let ?d1 = "sample_drafted\<lparr>dc_snapshot := Some sample_decision, dc_status := DecisionFrozen\<rparr>"
  let ?d2 = "?d1\<lparr>dc_signature := Some 0, dc_status := DecisionSigned\<rparr>"
  let ?r = "decision_record_assemble ?cr sample_decision 0"
  have freeze: "decision_freeze sample_company_tok sample_hexd dec_block st 0 (ChannelId ''board'') sample_drafted = Ok ?d1"
    unfolding decision_freeze_Ok_iff [OF reads_back_block st(2)] using now sample_decides sample_decision [symmetric]
    by (simp add: decision_draft_def) blast
  have sign: "decision_sign ?cr 5 ?d1 = Ok ?d2"
    by (simp add: decision_sign_def decision_expect_def sample_decision_def sample_ledger_crypto_def)
  obtain p where "authorised_signer sample_state Governance (ed_public ?cr 5) = Ok p" by (rule sample_governance)
  then have ready: "decision_ready sample_company_tok sample_hexd ?cr dec_block st 5 ?d2 = Ok ?r"
    unfolding decision_ready_Ok_iff decision_final_record_Ok_iff decision_check_signature_Ok_iff
    using st(5) now sample_ledger_signatures
    by (auto simp: decision_record_assemble_def sample_decision_def sample_state_parts sample_genesis_state
        verify_signature_def sample_ledger_crypto_def)
  have fits: "fits_u32 (enc_decision_record ?r)" by (simp add: fits_u32_def sample_decision_length)
  have "t_id (sealed_tx ?cr 5 DECISION_NAMESPACE DECISION_SCHEMA_VERSION (enc_decision_record ?r) 1) \<noteq> t_id sample_founding_tx"
    by (simp add: sample_ledger_id sample_decision_length DECISION_NAMESPACE_def sample_founding_tx_id sample_founding_id_def)
  with seal_accepts [OF reads_back_block st(2) _ decision_namespace(1) fits sample_ledger_signatures, of 10 5 DECISION_SCHEMA_VERSION]
  obtain st' i h where seal: "seal ?cr dec_block True st 5 DECISION_NAMESPACE DECISION_SCHEMA_VERSION (enc_decision_record ?r) 10
      = (st', Ok (i, h))"
    using st(3,4) by auto
  have "decision_finalize sample_company_tok sample_hexd ?cr dec_block True st 5 10 ?d2
      = (st', Ok (?d2\<lparr>dc_finalized := Some (i, h), dc_status := DecisionFinalized\<rparr>, \<lparr>fd_tx_id = i, fd_height = h, fd_record = ?r\<rparr>))"
    unfolding decision_finalize_Ok_iff using ready seal by blast
  then show thesis using that st(1-3) head freeze sign by force
qed

theorem channel_resolution_exact_witness:
  "\<exists>st r. reachable sample_ledger_crypto dec_block st \<and>
     reconstruct sample_company_tok sample_hexd dec_block st 0 = Ok sample_state \<and>
     resolve_channel sample_state (ChannelId ''members'') = Ok r \<and>
     map v_id (voters (set_electorate (rv_actors r))) = [VoterId ''ann'', VoterId ''bob''] \<and>
     unat (set_total_weight (rv_actors r)) = 150"
proof -
  obtain st b where st: "reachable sample_ledger_crypto dec_block st" "represents sample_ledger_crypto [b] st"
    "company_now sample_company_tok sample_hexd dec_block st = Ok sample_state"
    by (rule sample_company_chain)
  note now = sample_company_at_founding(1) [OF st(2,3)]
  have "case channels_get (cg_channels sample_company) (ChannelId ''members'') of
      Some c \<Rightarrow> ch_mode c \<noteq> Individual \<and>
        source_weights (ch_actors c) (cg_shares sample_company) = [(VoterId ''ann'', 100), (VoterId ''bob'', 50)]
    | None \<Rightarrow> False" by code_simp
  with channel_resolution_exact [OF reads_back_block st(1) now, of "ChannelId ''members''"]
  show ?thesis using st(1) now by (auto simp: Let_def sample_state_parts split: option.splits)
qed

theorem decision_machine_witness:
  "\<exists>st st' d d' f. reachable sample_ledger_crypto dec_block st \<and> dc_status d = DecisionSigned \<and> decision_inv sample_ledger_crypto d \<and>
     decision_final_record sample_ledger_crypto d \<noteq> Panic \<and>
     decision_finalize sample_company_tok sample_hexd sample_ledger_crypto dec_block True st 5 10 d = (st', Ok (d', f)) \<and>
     reachable sample_ledger_crypto dec_block st'"
proof -
  obtain st b d1 d2 st' d3 f where run: "reachable sample_ledger_crypto dec_block st" "represents sample_ledger_crypto [b] st"
    "decision_freeze sample_company_tok sample_hexd dec_block st 0 (ChannelId ''board'') sample_drafted = Ok d1"
    "decision_sign sample_ledger_crypto 5 d1 = Ok d2" "length (chain_ids [b]) + 1 < 2 ^ 64"
    "decision_finalize sample_company_tok sample_hexd sample_ledger_crypto dec_block True st 5 10 d2 = (st', Ok (d3, f))"
    "fd_record f = decision_record_assemble sample_ledger_crypto sample_decision 0"
    by (rule sample_decision_run)
  have "decision_reaches sample_company_tok sample_hexd sample_ledger_crypto dec_block d2"
    by (rule decision_reaches.signed [OF decision_reaches.frozen [OF decision_reaches.drafted run(1,3)] run(4)])
  note machine = decision_machine [OF sample_ledger_signatures reads_back_block this]
  have "fits_u32 (enc_decision_record r)"
    if "decision_ready sample_company_tok sample_hexd sample_ledger_crypto dec_block st 5 d2 = Ok r" for r
    using that run(6,7) by (auto simp: decision_finalize_Ok_iff fits_u32_def sample_decision_length)
  then have "writes_one sample_ledger_crypto dec_block [b] st
      (decision_finalize sample_company_tok sample_hexd sample_ledger_crypto dec_block True st 5 10 d2)"
    using machine [THEN conjunct2, THEN conjunct2, THEN conjunct2, THEN conjunct2, THEN conjunct2, THEN conjunct2, THEN conjunct2,
        THEN conjunct2, rule_format, of st "[b]" 5 True 10] run(1,2,5) by simp
  then have "reachable sample_ledger_crypto dec_block st'" unfolding run(6) by (rule writes_one_OkE)
  moreover have "dc_status d2 = DecisionSigned" using run(4) by (auto simp: decision_sign_Ok_iff)
  ultimately show ?thesis using conjunct1 [OF machine] conjunct1 [OF conjunct2 [OF conjunct2 [OF machine]]] run(1,6) by blast
qed

theorem verify_decision_exact_witness:
  "\<exists>st v. reachable sample_ledger_crypto dec_block st \<and>
     verify_decision sample_company_tok sample_hexd sample_ledger_crypto dec_block dec_decision_record st sample_founding_id = Ok v \<and>
     \<not> decision_is_valid v"
proof -
  obtain st b where st: "reachable sample_ledger_crypto dec_block st" "represents sample_ledger_crypto [b] st"
    "b_transactions b = [sample_founding_tx]"
    by (rule sample_company_chain)
  have "get_transaction dec_block st sample_founding_id = Ok (Some \<lparr>lt_height = h_height (b_header b), lt_index = 0, lt_transaction = sample_founding_tx\<rparr>)"
    using get_transaction_represents [OF reads_back_block st(2), of 0 0]
    by (simp add: st(3) sample_founding_tx_id index_u32_def try_from_nat_def)
  moreover have "namespace_str (t_namespace sample_founding_tx) \<noteq> DECISION_NAMESPACE"
    by (simp add: sample_founding_tx_def sealed_tx_def sign_transaction_def into_transaction_def Let_def kind_namespace_def DECISION_NAMESPACE_def)
  ultimately show ?thesis
    using verify_decision_exact [OF reads_back_block st(1) reads_back_decision_record, of sample_company_tok sample_hexd sample_founding_id] st(1)
    by auto
qed

theorem decision_verifies_witness:
  "\<exists>st d1 d2 st' d3 f v. reachable sample_ledger_crypto dec_block st \<and>
     decision_freeze sample_company_tok sample_hexd dec_block st 0 (ChannelId ''board'') sample_drafted = Ok d1 \<and>
     decision_sign sample_ledger_crypto 5 d1 = Ok d2 \<and>
     decision_finalize sample_company_tok sample_hexd sample_ledger_crypto dec_block True st 5 10 d2 = (st', Ok (d3, f)) \<and>
     verify_decision sample_company_tok sample_hexd sample_ledger_crypto dec_block dec_decision_record st' (fd_tx_id f) = Ok v \<and>
     decision_is_valid v"
proof -
  obtain st b d1 d2 st' d3 f where run: "reachable sample_ledger_crypto dec_block st" "represents sample_ledger_crypto [b] st"
    "store_head st = Ok (head_of sample_ledger_crypto [b])"
    "decision_freeze sample_company_tok sample_hexd dec_block st 0 (ChannelId ''board'') sample_drafted = Ok d1"
    "decision_sign sample_ledger_crypto 5 d1 = Ok d2" "length (chain_ids [b]) + 1 < 2 ^ 64"
    "decision_finalize sample_company_tok sample_hexd sample_ledger_crypto dec_block True st 5 10 d2 = (st', Ok (d3, f))"
    "fd_record f = decision_record_assemble sample_ledger_crypto sample_decision 0"
    by (rule sample_decision_run)
  have snapshot: "dr_snapshot (fd_record f) = sample_decision" by (simp add: run(8) decision_record_assemble_def)
  have fits: "fits_u32 (enc_decision_record (fd_record f))" by (simp add: run(8) fits_u32_def sample_decision_length)
  from decision_verifies [OF reads_back_block reads_back_decision_record run(1,3) _ run(4,5) store_steps.no_step run(2,6,7)
      _ fits _ sample_decision_wf(3) store_steps.no_step, unfolded snapshot, OF _ sample_decision_wf(1,2)]
  show ?thesis using run(1,4,5,7) by auto
qed

end
