(* ===== verification/Irena_Vote.thy ===== *)
theory Irena_Vote
  imports Irena_Decision Bornite_Eval
begin

text \<open>
  \<open>irena-vote\<close>: a decision taken by many, through a collective channel. \<open>snapshot.rs\<close> is the electorate that
  is frozen, \<open>ballot.rs\<close> what a voter signs and the checks of a ballot, \<open>record.rs\<close> the numbers of Bornite's
  result that are stored and the record that carries them, \<open>lifecycle.rs\<close> the process: draft, freeze, open,
  cast, close, evaluate, finalise. After the definitions: what a ballot and a count are
  (\<open>ballot_check_snapshot\<close>, \<open>vote_count_eq\<close>), what the stored numbers mean, the state machine, and the order
  in which ballots arrive. The checks of \<open>verify.rs\<close> are defined here and proved in \<open>Irena_Vote_Verify\<close>.
\<close>

section \<open>The snapshot\<close>

definition VOTE_ID_TAG :: string where "VOTE_ID_TAG = ''IRENA/vote/v1/id''"
definition BALLOT_SIGN_TAG :: string where "BALLOT_SIGN_TAG = ''IRENA/vote/v1/ballot-sign''"
definition BALLOT_DIGEST_TAG :: string where "BALLOT_DIGEST_TAG = ''IRENA/vote/v1/ballot''"
definition COMMITMENT_TAGS :: tree_tags where
  "COMMITMENT_TAGS = \<lparr>leaf_tag = ''IRENA/vote/v1/leaf'', node_tag = ''IRENA/vote/v1/node'', empty_tag = ''IRENA/vote/v1/empty''\<rparr>"
definition VOTE_NAMESPACE :: string where "VOTE_NAMESPACE = ''irena.vote.v1''"
definition VOTE_SCHEMA_VERSION :: u32 where "VOTE_SCHEMA_VERSION = 1"
definition VOTE_RECORD_VERSION :: u16 where "VOTE_RECORD_VERSION = 1"

type_synonym vote_id = digest

text \<open>The byte of a \<open>bool\<close>, an \<open>Option\<close> and the variant of an enum without fields, as Borsh writes them.\<close>

definition enc_bool :: "bool \<Rightarrow> bytes" where
  "enc_bool b = [if b then 1 else 0]"

definition enc_option :: "('a \<Rightarrow> bytes) \<Rightarrow> 'a option \<Rightarrow> bytes" where
  "enc_option enc v = (case v of None \<Rightarrow> [0] | Some a \<Rightarrow> 1 # enc a)"

record electorate_entry =
  ee_id :: string
  ee_weight :: u64
  ee_excluded :: bool
  ee_key :: "public_key option"

definition enc_electorate_entry :: "electorate_entry \<Rightarrow> bytes" where
  "enc_electorate_entry e = enc_string (ee_id e) @ enc_u64 (ee_weight e) @ enc_bool (ee_excluded e) @ enc_option digest_bytes (ee_key e)"

record vote_snapshot =
  vs_company :: string
  vs_subject :: string
  vs_proposal_digest :: hash
  vs_height :: block_height
  vs_genesis_tx_id :: tx_id
  vs_shares_tx_id :: tx_id
  vs_channels_tx_id :: tx_id
  vs_identities_tx_id :: tx_id
  vs_channel :: string
  vs_electorate :: "electorate_entry list"

definition enc_vote_snapshot :: "vote_snapshot \<Rightarrow> bytes" where
  "enc_vote_snapshot s = enc_string (vs_company s) @ enc_string (vs_subject s) @ digest_bytes (vs_proposal_digest s)
     @ enc_u64 (vs_height s) @ digest_bytes (vs_genesis_tx_id s) @ digest_bytes (vs_shares_tx_id s)
     @ digest_bytes (vs_channels_tx_id s) @ digest_bytes (vs_identities_tx_id s) @ enc_string (vs_channel s)
     @ enc_vec enc_electorate_entry (vs_electorate s)"

definition vote_snapshot_id :: "crypto \<Rightarrow> vote_snapshot \<Rightarrow> vote_id" where
  "vote_snapshot_id cr s = hash_canonical cr enc_vote_snapshot VOTE_ID_TAG s"

definition snapshot_entry :: "vote_snapshot \<Rightarrow> voter_id \<Rightarrow> electorate_entry option" where
  "snapshot_entry s i = table_get ee_id (vs_electorate s) (voter_id_str i)"

definition snapshot_electorate :: "vote_snapshot \<Rightarrow> (core_error, electorate) result" where
  "snapshot_electorate s =
     rbind (rcollect (\<lambda>e. rbind (voter_id_new (ee_id e)) (\<lambda>i. rbind (weight_new (ee_weight e)) (\<lambda>w.
       Ok \<lparr>v_id = i, v_weight = w, v_excluded = ee_excluded e\<rparr>))) (vs_electorate s)) electorate_new"

text \<open>Neighbours in order: \<open>windows(2).all(\<dots>)\<close>.\<close>

fun windows_less :: "'a::linorder list \<Rightarrow> bool" where
  "windows_less (x # y # r) \<longleftrightarrow> x < y \<and> windows_less (y # r)"
| "windows_less _ \<longleftrightarrow> True"

definition snapshot_is_sorted :: "vote_snapshot \<Rightarrow> bool" where
  "snapshot_is_sorted s = windows_less (map ee_id (vs_electorate s))"

section \<open>Ballots\<close>

datatype ballot_choice = BallotYes | BallotNo | BallotAbstain

definition to_bornite :: "ballot_choice \<Rightarrow> choice" where
  "to_bornite c = (case c of BallotYes \<Rightarrow> Yes | BallotNo \<Rightarrow> No | BallotAbstain \<Rightarrow> Abstain)"

definition ballot_choice_parse :: "string \<Rightarrow> ballot_choice option" where
  "ballot_choice_parse text =
     (if text = ''yes'' then Some BallotYes else if text = ''no'' then Some BallotNo
      else if text = ''abstain'' then Some BallotAbstain else None)"

definition ballot_choice_as_str :: "ballot_choice \<Rightarrow> string" where
  "ballot_choice_as_str c = (case c of BallotYes \<Rightarrow> ''yes'' | BallotNo \<Rightarrow> ''no'' | BallotAbstain \<Rightarrow> ''abstain'')"

definition enc_ballot_choice :: "ballot_choice \<Rightarrow> bytes" where
  "enc_ballot_choice c = [case c of BallotYes \<Rightarrow> 0 | BallotNo \<Rightarrow> 1 | BallotAbstain \<Rightarrow> 2]"

record ballot_body =
  bb_vote_id :: vote_id
  bb_voter :: string
  bb_choice :: ballot_choice

definition enc_ballot_body :: "ballot_body \<Rightarrow> bytes" where
  "enc_ballot_body b = digest_bytes (bb_vote_id b) @ enc_string (bb_voter b) @ enc_ballot_choice (bb_choice b)"

definition ballot_signing_message :: "crypto \<Rightarrow> ballot_body \<Rightarrow> digest" where
  "ballot_signing_message cr b = hash_canonical cr enc_ballot_body BALLOT_SIGN_TAG b"

record signed_ballot =
  sb_body :: ballot_body
  sb_signature :: signature

definition enc_signed_ballot :: "signed_ballot \<Rightarrow> bytes" where
  "enc_signed_ballot b = enc_ballot_body (sb_body b) @ signature_bytes (sb_signature b)"

abbreviation sb_voter :: "signed_ballot \<Rightarrow> string" where
  "sb_voter b \<equiv> bb_voter (sb_body b)"

definition ballot_sign :: "crypto \<Rightarrow> digest \<Rightarrow> vote_id \<Rightarrow> voter_id \<Rightarrow> ballot_choice \<Rightarrow> signed_ballot" where
  "ballot_sign cr seed i voter choice =
     (let body = \<lparr>bb_vote_id = i, bb_voter = voter_id_str voter, bb_choice = choice\<rparr> in
      \<lparr>sb_body = body, sb_signature = ed_sign cr seed (digest_bytes (ballot_signing_message cr body))\<rparr>)"

definition ballot_digest :: "crypto \<Rightarrow> signed_ballot \<Rightarrow> hash" where
  "ballot_digest cr b = hash_canonical cr enc_signed_ballot BALLOT_DIGEST_TAG b"

datatype ballot_rejection =
    WrongVote vote_id vote_id
  | InvalidVoter core_error
  | NotInElectorate voter_id
  | BallotExcluded voter_id
  | BallotNoKey voter_id
  | BallotBadSignature voter_id crypto_error
  | AlreadyVoted voter_id

definition ballot_check :: "crypto \<Rightarrow> signed_ballot \<Rightarrow> vote_snapshot \<Rightarrow> (ballot_rejection, voter_id) result" where
  "ballot_check cr b s =
     (let i = vote_snapshot_id cr s in
      if bb_vote_id (sb_body b) \<noteq> i then Err (WrongVote i (bb_vote_id (sb_body b)))
      else rbind (rmap_err InvalidVoter (voter_id_new (sb_voter b))) (\<lambda>voter.
        rbind (ok_or (NotInElectorate voter) (snapshot_entry s voter)) (\<lambda>entry.
        if ee_excluded entry then Err (BallotExcluded voter)
        else rbind (ok_or (BallotNoKey voter) (ee_key entry)) (\<lambda>key.
          rbind (rmap_err (BallotBadSignature voter)
            (verify_signature cr key (digest_bytes (ballot_signing_message cr (sb_body b))) (sb_signature b))) (\<lambda>_.
          Ok voter)))))"

definition ballot_commitment :: "crypto \<Rightarrow> signed_ballot list \<Rightarrow> hash" where
  "ballot_commitment cr bs = root cr COMMITMENT_TAGS (map (ballot_digest cr) bs)"

section \<open>The stored result and the record\<close>

datatype stored_outcome = StoredAccepted | StoredRejected
datatype stored_comparison = StoredAbove | StoredExactly | StoredBelow

record evaluation_summary =
  sm_outcome :: stored_outcome
  sm_reason :: string
  sm_voter_count :: u64
  sm_excluded_count :: u64
  sm_effective_voter_count :: u64
  sm_total_weight :: u64
  sm_effective_weight :: u64
  sm_ballot_count :: u64
  sm_participation_weight :: u64
  sm_non_participant_count :: u64
  sm_non_participant_weight :: u64
  sm_yes_weight :: u64
  sm_no_weight :: u64
  sm_abstain_weight :: u64
  sm_yes_count :: u64
  sm_no_count :: u64
  sm_abstain_count :: u64
  sm_quorum_required_weight :: "u64 option"
  sm_quorum_actual_weight :: u64
  sm_quorum_met :: bool
  sm_threshold_denominator_weight :: u64
  sm_threshold_numerator :: u64
  sm_threshold_denominator :: u64
  sm_abstentions_affected_denominator :: bool
  sm_threshold_yes_weight :: u64
  sm_comparison :: stored_comparison
  sm_threshold_met :: bool

text \<open>\<open>u128::div_ceil\<close>, \<open>u64::try_from(\<dots>).unwrap_or(u64::MAX)\<close>; a zero divisor and an overflowing product panic.\<close>

definition div_ceil :: "'l::len word \<Rightarrow> 'l word \<Rightarrow> ('e, 'l word) result" where
  "div_ceil a b =
     (if b = 0 then Panic else if a mod b > 0 then padd (a div b) 1 else Ok (a div b))"

definition required_share :: "fraction \<Rightarrow> u64 \<Rightarrow> ('e, u64) result" where
  "required_share f basis =
     rbind (rexpect (checked_mul (ucast basis :: u128) (ucast (numerator f)))) (\<lambda>product.
     rbind (div_ceil product (ucast (denominator f))) (\<lambda>required.
     Ok (case try_from_nat (unat required) of Some w \<Rightarrow> w | None \<Rightarrow> - 1)))"

definition quorum_required_weight :: "quorum_requirement \<Rightarrow> ('e, u64 option) result" where
  "quorum_required_weight q =
     (case q of
        RequireNone \<Rightarrow> Ok None
      | RequireAbsolute w \<Rightarrow> Ok (Some w)
      | RequireFraction f _ basis \<Rightarrow> rbind (required_share f basis) (\<lambda>w. Ok (Some w)))"

definition summary_of :: "vote_evaluation \<Rightarrow> ('e, evaluation_summary) result" where
  "summary_of ev =
     rbind (quorum_required_weight (q_requirement (ev_quorum ev))) (\<lambda>required.
     Ok \<lparr>sm_outcome = (case ev_outcome ev of Accepted \<Rightarrow> StoredAccepted | Rejected \<Rightarrow> StoredRejected),
         sm_reason = reason_code_as_str (ev_reason ev),
         sm_voter_count = es_voter_count (ev_electorate ev),
         sm_excluded_count = es_excluded_count (ev_electorate ev),
         sm_effective_voter_count = es_effective_voter_count (ev_electorate ev),
         sm_total_weight = es_total_weight (ev_electorate ev),
         sm_effective_weight = es_effective_weight (ev_electorate ev),
         sm_ballot_count = p_ballot_count (ev_participation ev),
         sm_participation_weight = p_weight (ev_participation ev),
         sm_non_participant_count = p_non_participant_count (ev_participation ev),
         sm_non_participant_weight = p_non_participant_weight (ev_participation ev),
         sm_yes_weight = yes_weight (ev_tally ev), sm_no_weight = no_weight (ev_tally ev),
         sm_abstain_weight = abstain_weight (ev_tally ev), sm_yes_count = yes_count (ev_tally ev),
         sm_no_count = no_count (ev_tally ev), sm_abstain_count = abstain_count (ev_tally ev),
         sm_quorum_required_weight = required, sm_quorum_actual_weight = q_actual_weight (ev_quorum ev),
         sm_quorum_met = q_met (ev_quorum ev),
         sm_threshold_denominator_weight = t_denominator_weight (ev_threshold ev),
         sm_threshold_numerator = numerator (t_required_fraction (ev_threshold ev)),
         sm_threshold_denominator = denominator (t_required_fraction (ev_threshold ev)),
         sm_abstentions_affected_denominator = t_abstentions_affected_denominator (ev_threshold ev),
         sm_threshold_yes_weight = t_yes_weight (ev_threshold ev),
         sm_comparison = (case t_comparison (ev_threshold ev) of
           Above \<Rightarrow> StoredAbove | Exactly \<Rightarrow> StoredExactly | Below \<Rightarrow> StoredBelow),
         sm_threshold_met = t_met (ev_threshold ev)\<rparr>)"

definition summary_accepted :: "evaluation_summary \<Rightarrow> bool" where
  "summary_accepted s \<longleftrightarrow> sm_outcome s = StoredAccepted"

definition enc_summary :: "evaluation_summary \<Rightarrow> bytes" where
  "enc_summary s =
     [case sm_outcome s of StoredAccepted \<Rightarrow> 0 | StoredRejected \<Rightarrow> 1] @ enc_string (sm_reason s)
     @ enc_u64 (sm_voter_count s) @ enc_u64 (sm_excluded_count s) @ enc_u64 (sm_effective_voter_count s)
     @ enc_u64 (sm_total_weight s) @ enc_u64 (sm_effective_weight s) @ enc_u64 (sm_ballot_count s)
     @ enc_u64 (sm_participation_weight s) @ enc_u64 (sm_non_participant_count s) @ enc_u64 (sm_non_participant_weight s)
     @ enc_u64 (sm_yes_weight s) @ enc_u64 (sm_no_weight s) @ enc_u64 (sm_abstain_weight s)
     @ enc_u64 (sm_yes_count s) @ enc_u64 (sm_no_count s) @ enc_u64 (sm_abstain_count s)
     @ enc_option enc_u64 (sm_quorum_required_weight s) @ enc_u64 (sm_quorum_actual_weight s) @ enc_bool (sm_quorum_met s)
     @ enc_u64 (sm_threshold_denominator_weight s) @ enc_u64 (sm_threshold_numerator s)
     @ enc_u64 (sm_threshold_denominator s) @ enc_bool (sm_abstentions_affected_denominator s)
     @ enc_u64 (sm_threshold_yes_weight s)
     @ [case sm_comparison s of StoredAbove \<Rightarrow> 0 | StoredExactly \<Rightarrow> 1 | StoredBelow \<Rightarrow> 2] @ enc_bool (sm_threshold_met s)"

record vote_record =
  vr_version :: u16
  vr_vote_id :: vote_id
  vr_snapshot :: vote_snapshot
  vr_ballot_commitment :: hash
  vr_ballots :: "signed_ballot list"
  vr_evaluation :: evaluation_summary

definition enc_vote_record :: "vote_record \<Rightarrow> bytes" where
  "enc_vote_record r = enc_u16 (vr_version r) @ digest_bytes (vr_vote_id r) @ enc_vote_snapshot (vr_snapshot r)
     @ digest_bytes (vr_ballot_commitment r) @ enc_vec enc_signed_ballot (vr_ballots r) @ enc_summary (vr_evaluation r)"

definition vote_record_assemble ::
    "crypto \<Rightarrow> vote_snapshot \<Rightarrow> signed_ballot list \<Rightarrow> evaluation_summary \<Rightarrow> vote_record" where
  "vote_record_assemble cr s bs ev =
     \<lparr>vr_version = VOTE_RECORD_VERSION, vr_vote_id = vote_snapshot_id cr s, vr_snapshot = s,
      vr_ballot_commitment = ballot_commitment cr bs, vr_ballots = bs, vr_evaluation = ev\<rparr>"

definition ballots_are_sorted :: "vote_record \<Rightarrow> bool" where
  "ballots_are_sorted r = windows_less (map sb_voter (vr_ballots r))"

section \<open>The vote as a process\<close>

datatype vote_status = VoteDraft | VoteFrozen | VoteOpen | VoteClosed | VoteEvaluated | VoteFinalized

datatype vote_error =
    VoteInvalidTransition vote_status string
  | VoteBallot ballot_rejection
  | VoteLedger ledger_error
  | VoteDerivation core_error
  | VoteDecision decision_error
  | VoteNotCollective string
  | VoteEvaluation evaluation_error
  | VoteStore store_error
  | VoteCore prunella_error
  | VoteChain chain_head
  | VoteNoSuchTransaction tx_id
  | VoteChannelsMoved block_height tx_id tx_id
  | VoteCompany irena_error
  | ResultMismatch

text \<open>A \<open>BTreeMap\<close> is its entries in strict key order.\<close>

fun btree_insert :: "'k::linorder \<Rightarrow> 'v \<Rightarrow> ('k \<times> 'v) list \<Rightarrow> ('k \<times> 'v) list" where
  "btree_insert k v [] = [(k, v)]"
| "btree_insert k v ((l, w) # r) =
     (if k < l then (k, v) # (l, w) # r else if k = l then (k, v) # r else (l, w) # btree_insert k v r)"

record vote =
  vt_status :: vote_status
  vt_company :: string
  vt_subject :: string
  vt_proposal_digest :: hash
  vt_snapshot :: "vote_snapshot option"
  vt_ballots :: "(string \<times> signed_ballot) list"
  vt_evaluation :: "evaluation_summary option"
  vt_finalized :: "(tx_id \<times> block_height) option"

record finalized_vote =
  fv_tx_id :: tx_id
  fv_height :: block_height
  fv_record :: vote_record

definition vote_draft :: "string \<Rightarrow> hash \<Rightarrow> vote" where
  "vote_draft subject digest =
     \<lparr>vt_status = VoteDraft, vt_company = [], vt_subject = subject, vt_proposal_digest = digest, vt_snapshot = None,
      vt_ballots = [], vt_evaluation = None, vt_finalized = None\<rparr>"

definition vote_expect :: "vote \<Rightarrow> vote_status \<Rightarrow> string \<Rightarrow> (vote_error, unit) result" where
  "vote_expect v wanted to = (if vt_status v = wanted then Ok () else Err (VoteInvalidTransition (vt_status v) to))"

definition entries_of :: "actor_set \<Rightarrow> electorate_entry list" where
  "entries_of s = map (\<lambda>a. \<lparr>ee_id = voter_id_str (at_id a), ee_weight = at_weight a, ee_excluded = False, ee_key = at_key a\<rparr>)
     (set_actors s)"

definition vote_freeze ::
    "(string \<Rightarrow> xml_reader) \<Rightarrow> (string \<Rightarrow> bytes option) \<Rightarrow> (bytes \<Rightarrow> (block \<times> bytes) option) \<Rightarrow> chain_store
      \<Rightarrow> block_height \<Rightarrow> channel_id \<Rightarrow> vote \<Rightarrow> (vote_error, vote) result" where
  "vote_freeze tok hexd de st at channel v =
     rbind (vote_expect v VoteDraft ''freeze'') (\<lambda>_.
     rbind (rmap_err VoteLedger (reconstruct tok hexd de st at)) (\<lambda>state.
     rbind (rmap_err VoteDecision (resolve_channel state channel)) (\<lambda>resolved.
     if resolved_rules resolved = None then Err (VoteNotCollective (channel_id_str channel))
     else
       let company = company_id_str (co_company state) in
       Ok (v\<lparr>vt_company := company,
         vt_snapshot := Some \<lparr>vs_company = company, vs_subject = vt_subject v, vs_proposal_digest = vt_proposal_digest v,
           vs_height = at, vs_genesis_tx_id = co_genesis_tx_id state, vs_shares_tx_id = if_tx_id (co_shares state),
           vs_channels_tx_id = if_tx_id (co_channels state), vs_identities_tx_id = if_tx_id (co_identities state),
           vs_channel = channel_id_str channel, vs_electorate = entries_of (rv_actors resolved)\<rparr>,
         vt_status := VoteFrozen\<rparr>))))"

definition vote_open :: "vote \<Rightarrow> (vote_error, vote) result" where
  "vote_open v = rbind (vote_expect v VoteFrozen ''open'') (\<lambda>_. Ok (v\<lparr>vt_status := VoteOpen\<rparr>))"

definition vote_cast :: "crypto \<Rightarrow> vote \<Rightarrow> signed_ballot \<Rightarrow> (vote_error, vote) result" where
  "vote_cast cr v b =
     rbind (vote_expect v VoteOpen ''cast a ballot in'') (\<lambda>_.
     rbind (rexpect (vt_snapshot v)) (\<lambda>s.
     rbind (rmap_err VoteBallot (ballot_check cr b s)) (\<lambda>voter.
     if map_of (vt_ballots v) (voter_id_str voter) \<noteq> None then Err (VoteBallot (AlreadyVoted voter))
     else Ok (v\<lparr>vt_ballots := btree_insert (voter_id_str voter) b (vt_ballots v)\<rparr>))))"

definition vote_close :: "vote \<Rightarrow> (vote_error, vote) result" where
  "vote_close v = rbind (vote_expect v VoteOpen ''close'') (\<lambda>_. Ok (v\<lparr>vt_status := VoteClosed\<rparr>))"

definition bornite_ballots :: "signed_ballot list \<Rightarrow> (vote_error, ballot_set) result" where
  "bornite_ballots bs =
     rbind (rcollect (\<lambda>b. rbind (rmap_err VoteDerivation (voter_id_new (sb_voter b))) (\<lambda>i.
       Ok \<lparr>b_voter = i, b_choice = to_bornite (bb_choice (sb_body b))\<rparr>)) bs) (\<lambda>bs.
     rmap_err VoteDerivation (ballot_set_new bs))"

text \<open>Bornite over the electorate of a snapshot and a list of ballots.\<close>

definition vote_count ::
    "voting_rules \<Rightarrow> vote_snapshot \<Rightarrow> signed_ballot list \<Rightarrow> (vote_error, vote_evaluation) result" where
  "vote_count rules s bs =
     rbind (rmap_err VoteDerivation (snapshot_electorate s)) (\<lambda>e.
     rbind (bornite_ballots bs) (\<lambda>bs.
     rmap_err VoteEvaluation (evaluate rules e bs)))"

definition vote_evaluate_now ::
    "(string \<Rightarrow> xml_reader) \<Rightarrow> (string \<Rightarrow> bytes option) \<Rightarrow> (bytes \<Rightarrow> (block \<times> bytes) option) \<Rightarrow> chain_store
      \<Rightarrow> vote \<Rightarrow> (vote_error, vote_evaluation) result" where
  "vote_evaluate_now tok hexd de st v =
     rbind (rexpect (vt_snapshot v)) (\<lambda>s.
     rbind (rmap_err VoteLedger (reconstruct tok hexd de st (vs_height s))) (\<lambda>state.
     if if_tx_id (co_channels state) \<noteq> vs_channels_tx_id s \<or> company_id_str (co_company state) \<noteq> vs_company s
     then Err (VoteChannelsMoved (vs_height s) (vs_channels_tx_id s) (if_tx_id (co_channels state)))
     else
       rbind (rmap_err VoteCompany (channel_id_new (vs_channel s))) (\<lambda>channel.
       rbind (rmap_err VoteDecision (resolve_channel state channel)) (\<lambda>resolved.
       rbind (ok_or (VoteNotCollective (vs_channel s)) (resolved_rules resolved)) (\<lambda>rules.
       vote_count rules s (map snd (vt_ballots v)))))))"

definition vote_evaluate ::
    "(string \<Rightarrow> xml_reader) \<Rightarrow> (string \<Rightarrow> bytes option) \<Rightarrow> (bytes \<Rightarrow> (block \<times> bytes) option) \<Rightarrow> chain_store
      \<Rightarrow> vote \<Rightarrow> (vote_error, vote \<times> vote_evaluation) result" where
  "vote_evaluate tok hexd de st v =
     rbind (vote_expect v VoteClosed ''evaluate'') (\<lambda>_.
     rbind (vote_evaluate_now tok hexd de st v) (\<lambda>ev.
     rbind (summary_of ev) (\<lambda>s.
     Ok (v\<lparr>vt_evaluation := Some s, vt_status := VoteEvaluated\<rparr>, ev))))"

definition vote_final_record :: "crypto \<Rightarrow> vote \<Rightarrow> (vote_error, vote_record) result" where
  "vote_final_record cr v =
     (if vt_status v \<notin> {VoteEvaluated, VoteFinalized}
      then Err (VoteInvalidTransition (vt_status v) ''build the final record of'')
      else rbind (rexpect (vt_snapshot v)) (\<lambda>s. rbind (rexpect (vt_evaluation v)) (\<lambda>ev.
        Ok (vote_record_assemble cr s (map snd (vt_ballots v)) ev))))"

definition vote_of_seal :: "seal_error \<Rightarrow> vote_error" where
  "vote_of_seal e = (case e of SealStore e \<Rightarrow> VoteStore e | SealCore e \<Rightarrow> VoteCore e | SealNoHead h \<Rightarrow> VoteChain h)"

definition vote_ready ::
    "(string \<Rightarrow> xml_reader) \<Rightarrow> (string \<Rightarrow> bytes option) \<Rightarrow> crypto \<Rightarrow> (bytes \<Rightarrow> (block \<times> bytes) option)
      \<Rightarrow> chain_store \<Rightarrow> digest \<Rightarrow> vote \<Rightarrow> (vote_error, vote_record) result" where
  "vote_ready tok hexd cr de st seed v =
     rbind (vote_expect v VoteEvaluated ''finalize'') (\<lambda>_.
     rbind (vote_evaluate_now tok hexd de st v) (\<lambda>ev.
     rbind (summary_of ev) (\<lambda>rerun.
     if Some rerun \<noteq> vt_evaluation v then Err ResultMismatch
     else
       rbind (rmap_err VoteLedger (company_now tok hexd de st)) (\<lambda>now.
       rbind (rmap_err VoteLedger (authorised_signer now Governance (ed_public cr seed))) (\<lambda>_.
       vote_final_record cr v)))))"

definition vote_finalize ::
    "(string \<Rightarrow> xml_reader) \<Rightarrow> (string \<Rightarrow> bytes option) \<Rightarrow> crypto \<Rightarrow> (bytes \<Rightarrow> (block \<times> bytes) option) \<Rightarrow> bool
      \<Rightarrow> chain_store \<Rightarrow> digest \<Rightarrow> u64 \<Rightarrow> vote \<Rightarrow> chain_store \<times> (vote_error, vote \<times> finalized_vote) result" where
  "vote_finalize tok hexd cr de io st seed ms v =
     (case vote_ready tok hexd cr de st seed v of
        Err e \<Rightarrow> (st, Err e)
      | Panic \<Rightarrow> (st, Panic)
      | Ok r \<Rightarrow>
          (let (st', sealed) = seal cr de io st seed VOTE_NAMESPACE VOTE_SCHEMA_VERSION (enc_vote_record r) ms in
           (st', rbind (rmap_err vote_of_seal sealed) (\<lambda>(i, height).
              Ok (v\<lparr>vt_finalized := Some (i, height), vt_status := VoteFinalized\<rparr>,
                  \<lparr>fv_tx_id = i, fv_height = height, fv_record = r\<rparr>)))))"

section \<open>Independent verification\<close>

datatype vote_check_name =
    VoteDecodes | VoteIdDerives | VoteSnapshotPrecedesRecord | VoteRecordsResolve | VoteSignerAuthorised
  | ChannelIsCollective | ElectorateDerives | BallotsVerify | BallotsOrdered | CommitmentDerives | ResultReproduces

record vote_verification =
  vv_tx_id :: tx_id
  vv_height :: block_height
  vv_record :: "vote_record option"
  vv_checks :: "(vote_check_name \<times> bool) list"

definition vote_is_valid :: "vote_verification \<Rightarrow> bool" where
  "vote_is_valid v \<longleftrightarrow> vv_checks v \<noteq> [] \<and> list_all snd (vv_checks v)"

text \<open>The sixth and seventh check, and the rules when there are any.\<close>

definition vote_channel_checks ::
    "company_state \<Rightarrow> vote_snapshot \<Rightarrow> (vote_error, (vote_check_name \<times> bool) list \<times> voting_rules option) result" where
  "vote_channel_checks state s =
     rbind (caught (rbind (rmap_err VoteCompany (channel_id_new (vs_channel s))) (\<lambda>channel.
       rmap_err VoteDecision (resolve_channel state channel)))) (\<lambda>resolved.
     Ok (case resolved of
       None \<Rightarrow> ([(ChannelIsCollective, False)], None)
     | Some r \<Rightarrow>
         (case resolved_rules r of
            None \<Rightarrow> ([(ChannelIsCollective, False)], None)
          | Some rules \<Rightarrow>
              ([(ChannelIsCollective, True), (ElectorateDerives, entries_of (rv_actors r) = vs_electorate s)], Some rules))))"

definition vote_ballot_checks :: "crypto \<Rightarrow> vote_record \<Rightarrow> (vote_error, (vote_check_name \<times> bool) list) result" where
  "vote_ballot_checks cr r =
     rbind (rcollect (\<lambda>b. caught (ballot_check cr b (vr_snapshot r))) (vr_ballots r)) (\<lambda>checked.
     Ok [(BallotsVerify, list_all (\<lambda>c. c \<noteq> None) checked), (BallotsOrdered, ballots_are_sorted r),
         (CommitmentDerives, ballot_commitment cr (vr_ballots r) = vr_ballot_commitment r)])"

definition vote_result_check ::
    "voting_rules option \<Rightarrow> vote_record \<Rightarrow> (vote_error, (vote_check_name \<times> bool) list) result" where
  "vote_result_check rules r =
     (case rules of
        None \<Rightarrow> Ok []
      | Some rules \<Rightarrow>
          rbind (caught (vote_count rules (vr_snapshot r) (vr_ballots r))) (\<lambda>rerun.
          case rerun of
            None \<Rightarrow> Ok [(ResultReproduces, False)]
          | Some ev \<Rightarrow> rbind (summary_of ev) (\<lambda>s. Ok [(ResultReproduces, s = vr_evaluation r)])))"

definition vote_checks ::
    "(string \<Rightarrow> xml_reader) \<Rightarrow> (string \<Rightarrow> bytes option) \<Rightarrow> crypto \<Rightarrow> (bytes \<Rightarrow> (block \<times> bytes) option)
      \<Rightarrow> chain_store \<Rightarrow> located_transaction \<Rightarrow> vote_record \<Rightarrow> (vote_error, (vote_check_name \<times> bool) list) result" where
  "vote_checks tok hexd cr de st l r =
     (let sn = vr_snapshot r;
          start = [(VoteDecodes, True), (VoteIdDerives, vote_snapshot_id cr sn = vr_vote_id r),
                   (VoteSnapshotPrecedesRecord, vs_height sn < lt_height l)];
          unresolved = start @ [(VoteRecordsResolve, False)] in
      case company_id_new (vs_company sn) of
        Err _ \<Rightarrow> Ok unresolved
      | Panic \<Rightarrow> Panic
      | Ok company \<Rightarrow>
          rbind (caught (reconstruct tok hexd de st (vs_height sn))) (\<lambda>state.
          case state of
            None \<Rightarrow> Ok unresolved
          | Some s \<Rightarrow>
              if co_company s \<noteq> company then Ok unresolved
              else if \<not> pins_hold s (vs_genesis_tx_id sn) (vs_shares_tx_id sn) (vs_channels_tx_id sn) (vs_identities_tx_id sn)
              then Ok unresolved
              else
                rbind (signer_authorised_at tok hexd de st (lt_height l) (t_signer (lt_transaction l))) (\<lambda>authorised.
                rbind (vote_channel_checks s sn) (\<lambda>(channel, rules).
                rbind (vote_ballot_checks cr r) (\<lambda>ballots.
                rbind (vote_result_check rules r) (\<lambda>result.
                Ok (start @ [(VoteRecordsResolve, True), (VoteSignerAuthorised, authorised)] @ channel @ ballots @ result)))))))"

definition vote_report ::
    "(string \<Rightarrow> xml_reader) \<Rightarrow> (string \<Rightarrow> bytes option) \<Rightarrow> crypto \<Rightarrow> (bytes \<Rightarrow> (block \<times> bytes) option)
      \<Rightarrow> (bytes \<Rightarrow> (vote_record \<times> bytes) option) \<Rightarrow> chain_store \<Rightarrow> tx_id \<Rightarrow> located_transaction
      \<Rightarrow> (vote_error, vote_verification) result" where
  "vote_report tok hexd cr de dv st i l =
     (let t = lt_transaction l;
          report = \<lparr>vv_tx_id = i, vv_height = lt_height l, vv_record = None, vv_checks = []\<rparr>;
          refused = report\<lparr>vv_checks := [(VoteDecodes, False)]\<rparr> in
      if namespace_str (t_namespace t) \<noteq> VOTE_NAMESPACE then Ok refused
      else rbind (caught (decode dv (t_payload t))) (\<lambda>decoded.
        case decoded of
          None \<Rightarrow> Ok refused
        | Some r \<Rightarrow>
            if vr_version r \<noteq> VOTE_RECORD_VERSION then Ok refused
            else if enc_vote_record r \<noteq> t_payload t then Ok refused
            else rbind (vote_checks tok hexd cr de st l r) (\<lambda>checks.
              Ok (report\<lparr>vv_record := Some r, vv_checks := checks\<rparr>))))"

definition verify_vote ::
    "(string \<Rightarrow> xml_reader) \<Rightarrow> (string \<Rightarrow> bytes option) \<Rightarrow> crypto \<Rightarrow> (bytes \<Rightarrow> (block \<times> bytes) option)
      \<Rightarrow> (bytes \<Rightarrow> (vote_record \<times> bytes) option) \<Rightarrow> chain_store \<Rightarrow> tx_id \<Rightarrow> (vote_error, vote_verification) result" where
  "verify_vote tok hexd cr de dv st i =
     rbind (rmap_err VoteStore (get_transaction de st i)) (\<lambda>found.
     rbind (ok_or (VoteNoSuchTransaction i) found) (\<lambda>l.
     vote_report tok hexd cr de dv st i l))"

section \<open>Sorted neighbours and ordered maps\<close>

lemma windows_less_iff: "windows_less xs \<longleftrightarrow> sorted_wrt (<) xs"
  by (induction xs rule: windows_less.induct) (auto intro: less_trans)

lemma btree_insert_set: "fst ` set (btree_insert k v m) = insert k (fst ` set m)"
  by (induction m rule: btree_insert.induct) auto

lemma btree_insert_sorted: "sorted_wrt (<) (map fst m) \<Longrightarrow> sorted_wrt (<) (map fst (btree_insert k v m))"
proof (induction k v m rule: btree_insert.induct)
  case (2 k v l w r)
  have "set (map fst (btree_insert k v r)) = insert k (fst ` set r)" using btree_insert_set [of k v r] by simp
  with 2 show ?case by (auto intro: less_trans)
qed simp

lemma btree_insert_map_of: "sorted_wrt (<) (map fst m) \<Longrightarrow> map_of (btree_insert k v m) = (map_of m)(k \<mapsto> v)"
proof (induction k v m rule: btree_insert.induct)
  case (2 k v l w r)
  then show ?case by (auto simp: fun_eq_iff)
qed simp

lemma btree_insert_mem: "map_of m k = None \<Longrightarrow> set (btree_insert k v m) = insert (k, v) (set m)"
  by (induction k v m rule: btree_insert.induct) (auto split: if_splits)

lemma btree_unique:
  fixes m n :: "('k::linorder \<times> 'v) list"
  assumes "sorted_wrt (<) (map fst m)" and "sorted_wrt (<) (map fst n)" and "map_of m = map_of n"
  shows "m = n"
proof (rule map_sorted_distinct_set_unique [where f = fst])
  show "sorted (map fst m)" "distinct (map fst m)" "sorted (map fst n)" "distinct (map fst n)"
    using assms(1,2) by (simp_all add: strict_sorted_iff)
  then show "set m = set n" using assms(3) map_of_inject_set by blast
  show "inj_on fst (set m \<union> set n)"
    using \<open>set m = set n\<close> \<open>distinct (map fst m)\<close> by (simp add: distinct_map)
qed

section \<open>What a snapshot is frozen from\<close>

text \<open>The channel of a state decides by vote: it is collective, with rules and weights.\<close>

definition decides_together :: "company_state \<Rightarrow> channel_id \<Rightarrow> voting_rules \<Rightarrow> (voter_id \<times> u64) list \<Rightarrow> bool" where
  "decides_together s channel rules ws \<longleftrightarrow>
     (\<exists>c. channels_get (if_value (co_channels s)) channel = Some c \<and> ch_mode c = Collective rules \<and>
        ws = source_weights (ch_actors c) (if_value (co_shares s)))"

definition entry_at :: "identities \<Rightarrow> voter_id \<times> u64 \<Rightarrow> electorate_entry" where
  "entry_at ids = (\<lambda>(i, w). \<lparr>ee_id = voter_id_str i, ee_weight = w, ee_excluded = False, ee_key = key_of ids i\<rparr>)"

definition vote_snapshot_of ::
    "company_state \<Rightarrow> block_height \<Rightarrow> channel_id \<Rightarrow> (voter_id \<times> u64) list \<Rightarrow> string \<Rightarrow> hash \<Rightarrow> vote_snapshot" where
  "vote_snapshot_of s at channel ws subject digest =
     \<lparr>vs_company = company_id_str (co_company s), vs_subject = subject, vs_proposal_digest = digest, vs_height = at,
      vs_genesis_tx_id = co_genesis_tx_id s, vs_shares_tx_id = if_tx_id (co_shares s),
      vs_channels_tx_id = if_tx_id (co_channels s), vs_identities_tx_id = if_tx_id (co_identities s),
      vs_channel = channel_id_str channel, vs_electorate = map (entry_at (if_value (co_identities s))) ws\<rparr>"

lemma vote_expect_iff [result_simps]:
  "vote_expect v wanted to = Ok x \<longleftrightarrow> vt_status v = wanted"
  "vote_expect v wanted to = Err e \<longleftrightarrow> vt_status v \<noteq> wanted \<and> e = VoteInvalidTransition (vt_status v) to"
  "vote_expect v wanted to \<noteq> Panic"
  by (auto simp: vote_expect_def)

lemma entries_of_set: "entries_of (set_of ids ws) = map (entry_at ids) ws"
  by (simp add: entries_of_def set_of_def entry_at_def actor_at_def case_prod_unfold)

text \<open>What resolving and asking for the rules gives.\<close>

lemma rules_of_channel:
  assumes wf: "wf_shares (if_value (co_shares s))" "wf_channel_set (if_value (co_channels s))"
  shows "(\<exists>r. resolve_channel s channel = Ok r \<and> resolved_rules r = Some rules \<and> entries_of (rv_actors r) = es) \<longleftrightarrow>
    (\<exists>ws. decides_together s channel rules ws \<and> es = map (entry_at (if_value (co_identities s))) ws)"
proof (cases "channels_get (if_value (co_channels s)) channel")
  case None
  then show ?thesis by (simp add: resolve_channel_eq [OF wf] decides_together_def)
next
  case (Some c)
  then show ?thesis
    by (cases "ch_mode c")
      (auto simp: resolve_channel_eq [OF wf] decides_together_def Let_def resolved_rules_def resolved_as_def mode_rules_def
        entries_of_set split: if_splits)
qed

lemma decides_together_unique: "decides_together s c r ws \<Longrightarrow> decides_together s c r' ws' \<Longrightarrow> r = r' \<and> ws = ws'"
  by (auto simp: decides_together_def)

lemma decides_together_fair:
  assumes wf: "wf_shares (if_value (co_shares s))" "wf_channel_set (if_value (co_channels s))"
    and "decides_together s channel rules ws"
  shows "fair_list ws" "wf_rules rules"
proof -
  obtain c where c: "channels_get (if_value (co_channels s)) channel = Some c" "ch_mode c = Collective rules"
    "ws = source_weights (ch_actors c) (if_value (co_shares s))"
    using assms(3) by (auto simp: decides_together_def)
  have "wf_channels (if_value (co_channels s))" using wf(2) by (simp add: wf_channel_set_def)
  then have "wf_source (ch_actors c)" "wf_mode (ch_mode c)"
    using c(1) wf(2) by (simp_all add: channels_table.get_Some_iff wf_channel_set_def)
  then show "fair_list ws" "wf_rules rules"
    using source_weights_fair [OF wf(1)] by (simp_all add: c(2,3) wf_mode_def sound_rules_wf)
qed

lemma vote_freeze_Ok_iff:
  assumes "decodes_blocks de" and "represents cr bs st"
  shows "vote_freeze tok hexd de st at channel v = Ok v' \<longleftrightarrow> vt_status v = VoteDraft \<and>
    (\<exists>s rules ws. reconstruct tok hexd de st at = Ok s \<and> decides_together s channel rules ws \<and>
       v' = v\<lparr>vt_company := company_id_str (co_company s),
              vt_snapshot := Some (vote_snapshot_of s at channel ws (vt_subject v) (vt_proposal_digest v)),
              vt_status := VoteFrozen\<rparr>)"
proof (cases "reconstruct tok hexd de st at")
  case (Ok s)
  note wf = reconstruct_wf(1,2) [OF assms Ok]
  let ?next = "\<lambda>es. v\<lparr>vt_company := company_id_str (co_company s),
    vt_snapshot := Some \<lparr>vs_company = company_id_str (co_company s), vs_subject = vt_subject v,
      vs_proposal_digest = vt_proposal_digest v, vs_height = at, vs_genesis_tx_id = co_genesis_tx_id s,
      vs_shares_tx_id = if_tx_id (co_shares s), vs_channels_tx_id = if_tx_id (co_channels s),
      vs_identities_tx_id = if_tx_id (co_identities s), vs_channel = channel_id_str channel, vs_electorate = es\<rparr>,
    vt_status := VoteFrozen\<rparr>"
  have "vote_freeze tok hexd de st at channel v = Ok v' \<longleftrightarrow> vt_status v = VoteDraft \<and>
      (\<exists>rules es. (\<exists>r. resolve_channel s channel = Ok r \<and> resolved_rules r = Some rules \<and> entries_of (rv_actors r) = es) \<and>
        v' = ?next es)"
    by (auto simp: vote_freeze_def Ok result_simps Let_def)
  then show ?thesis
    unfolding rules_of_channel [OF wf] by (auto simp: Ok vote_snapshot_of_def)
qed (simp_all add: vote_freeze_def result_simps)

lemma vote_freeze_no_Panic:
  assumes "decodes_blocks de" and "represents cr bs st"
  shows "vote_freeze tok hexd de st at channel v \<noteq> Panic"
proof (cases "reconstruct tok hexd de st at")
  case (Ok s)
  show ?thesis
    using resolve_channel_no_Panic [OF reconstruct_wf(1,2) [OF assms Ok], of channel]
    by (auto simp: vote_freeze_def Ok result_simps Let_def vote_expect_def)
qed (use reconstruct_no_Panic [OF assms] in \<open>auto simp: vote_freeze_def result_simps vote_expect_def\<close>)

section \<open>Ballots and the count\<close>

lemma ballot_check_Ok_iff:
  "ballot_check cr b s = Ok i \<longleftrightarrow> i = VoterId (sb_voter b) \<and> wf_voter_id i \<and> bb_vote_id (sb_body b) = vote_snapshot_id cr s \<and>
     (\<exists>e key. snapshot_entry s i = Some e \<and> \<not> ee_excluded e \<and> ee_key e = Some key \<and>
        verify_signature cr key (digest_bytes (ballot_signing_message cr (sb_body b))) (sb_signature b) = Ok ())"
  by (auto simp: ballot_check_def Let_def result_simps voter_id_new_Ok_iff)

lemma ballot_check_no_Panic [simp]: "ballot_check cr b s \<noteq> Panic"
  by (auto simp: ballot_check_def Let_def result_simps)

text \<open>What a ballot has to be in a vote over the weights \<open>ws\<close>: for this vote, from a voter with a key, and signed with it.\<close>

definition ballot_holds :: "crypto \<Rightarrow> identities \<Rightarrow> (voter_id \<times> u64) list \<Rightarrow> vote_id \<Rightarrow> signed_ballot \<Rightarrow> bool" where
  "ballot_holds cr ids ws i b \<longleftrightarrow> bb_vote_id (sb_body b) = i \<and> wf_voter_id (VoterId (sb_voter b)) \<and>
     VoterId (sb_voter b) \<in> fst ` set ws \<and>
     (\<exists>key. key_of ids (VoterId (sb_voter b)) = Some key \<and>
        verify_signature cr key (digest_bytes (ballot_signing_message cr (sb_body b))) (sb_signature b) = Ok ())"

lemma ballot_check_snapshot:
  assumes "fair_list ws" and "vs_electorate s = map (entry_at ids) ws"
  shows "(\<exists>i. ballot_check cr b s = Ok i) \<longleftrightarrow> ballot_holds cr ids ws (vote_snapshot_id cr s) b"
proof -
  have ids: "map ee_id (vs_electorate s) = map voter_id_str (map fst ws)"
    by (simp add: assms(2) entry_at_def case_prod_unfold)
  have "sorted_wrt (<) (map ee_id (vs_electorate s))"
    using assms(1) unfolding ids sorted_wrt_map by (simp add: fair_list_def less_voter_id_def sorted_wrt_map)
  then have "snapshot_entry s i = Some e \<longleftrightarrow> (\<exists>w. (i, w) \<in> set ws \<and> e = entry_at ids (i, w))" for i e
    by (auto simp: snapshot_entry_def table_get_Some_iff assms(2) entry_at_def dest!: voter_id.expand)
  then have entry: "(\<exists>e. snapshot_entry s i = Some e \<and> Q e) \<longleftrightarrow> (\<exists>w. (i, w) \<in> set ws \<and> Q (entry_at ids (i, w)))" for i Q
    by auto
  have "(\<exists>e key. snapshot_entry s i = Some e \<and> \<not> ee_excluded e \<and> ee_key e = Some key \<and> P key) \<longleftrightarrow>
      i \<in> fst ` set ws \<and> (\<exists>key. key_of ids i = Some key \<and> P key)" for i P
    using entry [of i "\<lambda>e. \<exists>key. \<not> ee_excluded e \<and> ee_key e = Some key \<and> P key"]
    by (auto simp: entry_at_def image_iff) force+
  then show ?thesis by (simp add: ballot_check_Ok_iff ballot_holds_def) blast
qed

text \<open>The electorate and the ballots as Bornite is given them.\<close>

definition electorate_of :: "(voter_id \<times> u64) list \<Rightarrow> electorate" where
  "electorate_of ws = Electorate (map (\<lambda>(i, w). \<lparr>v_id = i, v_weight = w, v_excluded = False\<rparr>) ws)"

definition ballots_of :: "signed_ballot list \<Rightarrow> ballot_set" where
  "ballots_of bs = BallotSet (map (\<lambda>b. \<lparr>b_voter = VoterId (sb_voter b), b_choice = to_bornite (bb_choice (sb_body b))\<rparr>) bs)"

lemma electorate_of_wf:
  assumes "fair_list ws"
  shows "wf_electorate (electorate_of ws)" "\<forall>v \<in> set (voters (electorate_of ws)). v_weight v \<noteq> 0"
  using assms by (auto simp: wf_electorate_def electorate_of_def fair_list_def o_def case_prod_unfold)

lemma electorate_new_sorted: "sorted_wrt (<) (map v_id vs) \<Longrightarrow> electorate_new vs = Ok (Electorate vs)"
proof -
  assume strict: "sorted_wrt (<) (map v_id vs)"
  then have "sort_key v_id vs = vs" "first_repeat {} (map v_id vs) = None"
    by (simp_all only: strict_sorted_iff sort_key_id_if_sorted first_repeat_None)
  then show ?thesis by (simp only: electorate_new_def Let_def option.case)
qed

lemma ballot_set_new_sorted: "sorted_wrt (<) (map b_voter bs) \<Longrightarrow> ballot_set_new bs = Ok (BallotSet bs)"
proof -
  assume strict: "sorted_wrt (<) (map b_voter bs)"
  then have "sort_key b_voter bs = bs" "first_repeat {} (map b_voter bs) = None"
    by (simp_all only: strict_sorted_iff sort_key_id_if_sorted first_repeat_None)
  then show ?thesis by (simp only: ballot_set_new_def Let_def option.case)
qed

lemma snapshot_electorate_Ok:
  assumes "fair_list ws" and "vs_electorate s = map (entry_at ids) ws" and "\<forall>i \<in> fst ` set ws. wf_voter_id i"
  shows "snapshot_electorate s = Ok (electorate_of ws)"
proof -
  have "rcollect (\<lambda>e. rbind (voter_id_new (ee_id e)) (\<lambda>i. rbind (weight_new (ee_weight e)) (\<lambda>w.
       Ok \<lparr>v_id = i, v_weight = w, v_excluded = ee_excluded e\<rparr>))) (map (entry_at ids) ws)
     = Ok (map (\<lambda>e. \<lparr>v_id = VoterId (ee_id e), v_weight = ee_weight e, v_excluded = ee_excluded e\<rparr>) (map (entry_at ids) ws))"
    using assms(1,3)
    by (intro rcollect_map_Ok)
      (auto simp: entry_at_def voter_id_new_str weight_new_def fair_list_def image_iff)
  moreover have "map (\<lambda>e. \<lparr>v_id = VoterId (ee_id e), v_weight = ee_weight e, v_excluded = ee_excluded e\<rparr>) (map (entry_at ids) ws)
      = voters (electorate_of ws)"
    by (simp add: entry_at_def electorate_of_def case_prod_unfold)
  moreover have "electorate_new (voters (electorate_of ws)) = Ok (electorate_of ws)"
    using electorate_of_wf(1) [OF assms(1)]
    by (simp only: wf_electorate_def electorate_new_sorted electorate.collapse)
  ultimately show ?thesis by (simp only: snapshot_electorate_def assms(2) rbind.simps)
qed

lemma snapshot_electorate_ids:
  assumes "vs_electorate s = map (entry_at ids) ws" and "snapshot_electorate s = Ok e"
  shows "\<forall>i \<in> fst ` set ws. wf_voter_id i"
proof -
  obtain vs where "list_all2 (\<lambda>e v. rbind (voter_id_new (ee_id e)) (\<lambda>i. rbind (weight_new (ee_weight e)) (\<lambda>w.
       Ok \<lparr>v_id = i, v_weight = w, v_excluded = ee_excluded e\<rparr>)) = Ok v) (map (entry_at ids) ws) vs"
    using assms by (auto simp: snapshot_electorate_def result_simps)
  then have "\<exists>v. voter_id_new (ee_id (entry_at ids p)) = Ok v" if "p \<in> set ws" for p
    using that by (auto simp: list_all2_map1 list_all2_conv_all_nth in_set_conv_nth result_simps)
  then show ?thesis by (force simp: entry_at_def voter_id_new_Ok_iff split: prod.splits)
qed

lemma bornite_ballots_Ok:
  assumes "\<forall>b \<in> set bs. wf_voter_id (VoterId (sb_voter b))" and "sorted_wrt (<) (map sb_voter bs)"
  shows "bornite_ballots bs = Ok (ballots_of bs)" "wf_ballot_set (ballots_of bs)"
proof -
  have "rcollect (\<lambda>b. rbind (rmap_err VoteDerivation (voter_id_new (sb_voter b))) (\<lambda>i.
      Ok \<lparr>b_voter = i, b_choice = to_bornite (bb_choice (sb_body b))\<rparr>)) bs = Ok (ballots (ballots_of bs))"
    unfolding ballots_of_def ballot_set.sel
    using assms(1) voter_id_new_str by (intro rcollect_map_Ok) fastforce
  moreover have strict: "sorted_wrt (<) (map b_voter (ballots (ballots_of bs)))"
    using assms(2) by (simp add: ballots_of_def sorted_wrt_map less_voter_id_def)
  ultimately show "bornite_ballots bs = Ok (ballots_of bs)"
    by (simp only: bornite_ballots_def rbind.simps ballot_set_new_sorted ballot_set.collapse rmap_err.simps)
  show "wf_ballot_set (ballots_of bs)" using strict by (simp only: wf_ballot_set_def)
qed

lemma vote_count_eq:
  assumes "fair_list ws" and "vs_electorate s = map (entry_at ids) ws"
    and "\<forall>b \<in> set bs. wf_voter_id (VoterId (sb_voter b))" and "sorted_wrt (<) (map sb_voter bs)"
  shows "\<forall>i \<in> fst ` set ws. wf_voter_id i \<Longrightarrow>
      vote_count rules s bs = rmap_err VoteEvaluation (evaluate rules (electorate_of ws) (ballots_of bs))"
    and "vote_count rules s bs = Ok ev \<longleftrightarrow>
      (\<forall>i \<in> fst ` set ws. wf_voter_id i) \<and> evaluate rules (electorate_of ws) (ballots_of bs) = Ok ev"
    and "wf_vote (electorate_of ws) (ballots_of bs)"
proof -
  show eq: "vote_count rules s bs = rmap_err VoteEvaluation (evaluate rules (electorate_of ws) (ballots_of bs))"
    if "\<forall>i \<in> fst ` set ws. wf_voter_id i"
    by (simp only: vote_count_def snapshot_electorate_Ok [OF assms(1,2) that] rmap_err.simps rbind.simps
        bornite_ballots_Ok [OF assms(3,4)])
  show "vote_count rules s bs = Ok ev \<longleftrightarrow>
      (\<forall>i \<in> fst ` set ws. wf_voter_id i) \<and> evaluate rules (electorate_of ws) (ballots_of bs) = Ok ev"
  proof (cases "\<forall>i \<in> fst ` set ws. wf_voter_id i")
    case False
    then have "snapshot_electorate s \<noteq> Ok e" for e using snapshot_electorate_ids [OF assms(2)] by blast
    with False show ?thesis by (simp add: vote_count_def result_simps)
  qed (simp add: eq result_simps)
  show "wf_vote (electorate_of ws) (ballots_of bs)"
    using electorate_of_wf [OF assms(1)] bornite_ballots_Ok(2) [OF assms(3,4)] by (simp add: wf_vote_def)
qed

text \<open>Counting never panics, whatever the snapshot and the ballots are.\<close>

lemma count_inputs_wf:
  assumes "snapshot_electorate s = Ok e" and "bornite_ballots bs = Ok bl"
  shows "wf_vote e bl"
proof -
  have "\<exists>vs. list_all2 (\<lambda>e v. rbind (voter_id_new (ee_id e)) (\<lambda>i. rbind (weight_new (ee_weight e)) (\<lambda>w.
     Ok \<lparr>v_id = i, v_weight = w, v_excluded = ee_excluded e\<rparr>)) = Ok v) (vs_electorate s) vs \<and> electorate_new vs = Ok e"
    using assms(1) by (simp only: snapshot_electorate_def rbind_Ok_iff [of _ electorate_new] rcollect_Ok_iff)
  then obtain vs where vs: "list_all2 (\<lambda>e v. rbind (voter_id_new (ee_id e)) (\<lambda>i. rbind (weight_new (ee_weight e)) (\<lambda>w.
     Ok \<lparr>v_id = i, v_weight = w, v_excluded = ee_excluded e\<rparr>)) = Ok v) (vs_electorate s) vs" "electorate_new vs = Ok e"
    by blast
  then have "\<forall>v \<in> set vs. v_weight v \<noteq> 0"
    by (auto simp: list_all2_conv_all_nth in_set_conv_nth result_simps weight_new_def split: if_splits) (metis voter.select_convs(2))
  moreover have "voters e = sort_key v_id vs" using vs(2) by (auto simp: electorate_new_def Let_def split: option.splits)
  ultimately show ?thesis
    using electorate_new_wf [OF vs(2)] ballot_set_new_wf assms(2)
    by (auto simp: wf_vote_def bornite_ballots_def result_simps)
qed

lemma vote_count_no_Panic: "vote_count rules s bs \<noteq> Panic"
proof -
  have "electorate_new vs \<noteq> Panic" "ballot_set_new b \<noteq> Panic" for vs b
    by (auto simp: electorate_new_def ballot_set_new_def Let_def split: option.splits)
  moreover have "rcollect (\<lambda>e. rbind (voter_id_new (ee_id e)) (\<lambda>i. rbind (weight_new (ee_weight e)) (\<lambda>w.
       Ok \<lparr>v_id = i, v_weight = w, v_excluded = ee_excluded e\<rparr>))) es \<noteq> Panic" for es
    by (rule rcollect_no_Panic) (auto simp: result_simps weight_new_def)
  moreover have "rcollect (\<lambda>b. rbind (rmap_err VoteDerivation (voter_id_new (sb_voter b))) (\<lambda>i.
       Ok \<lparr>b_voter = i, b_choice = to_bornite (bb_choice (sb_body b))\<rparr>)) bs \<noteq> Panic"
    by (rule rcollect_no_Panic) (auto simp: result_simps)
  ultimately have "snapshot_electorate s \<noteq> Panic" "bornite_ballots bs \<noteq> Panic"
    by (simp_all add: snapshot_electorate_def bornite_ballots_def result_simps)
  moreover have "evaluate rules e bl \<noteq> Panic" if "snapshot_electorate s = Ok e" "bornite_ballots bs = Ok bl" for e bl
    using evaluate_cases [OF count_inputs_wf [OF that], of rules] by (auto split: if_splits)
  ultimately show ?thesis by (auto simp: vote_count_def result_simps)
qed

section \<open>The stored result\<close>

lemma div_ceil_Ok:
  assumes "b \<noteq> 0"
  obtains c :: "'l::len word" where "div_ceil a b = Ok c" "unat c = (unat a + unat b - 1) div unat b"
proof -
  let ?a = "unat a" and ?b = "unat b"
  have b: "0 < ?b" using assms by (simp add: word_greater_zero_iff unat_gt_0)
  have ceil: "(?a + ?b - 1) div ?b = ?a div ?b + (if ?a mod ?b = 0 then 0 else 1)"
  proof -
    have split: "?a = ?b * (?a div ?b) + ?a mod ?b" by simp
    have "?a + ?b - 1 = ?b * (?a div ?b) + (?a mod ?b + ?b - 1)" using split b by linarith
    moreover have "(?b * q + r) div ?b = q + r div ?b" for q r using b by simp
    ultimately have "(?a + ?b - 1) div ?b = ?a div ?b + (?a mod ?b + ?b - 1) div ?b" by (simp only:)
    moreover have "(?a mod ?b + ?b - 1) div ?b = (if ?a mod ?b = 0 then 0 else 1)"
    proof (cases "?a mod ?b = 0")
      case False
      then have "?b \<le> ?a mod ?b + ?b - 1" "?a mod ?b + ?b - 1 < ?b + ?b" using b mod_less_divisor [OF b, of ?a] by linarith+
      then have "(?a mod ?b + ?b - 1 - ?b) div ?b = 0" "(?a mod ?b + ?b - 1) div ?b = Suc ((?a mod ?b + ?b - 1 - ?b) div ?b)"
        using b by (simp, intro le_div_geq)
      then show ?thesis using False by simp
    qed (use b in simp)
    ultimately show ?thesis by simp
  qed
  have zero: "a mod b > 0 \<longleftrightarrow> ?a mod ?b \<noteq> 0" by (simp add: word_less_nat_alt unat_mod_distrib)
  show thesis
  proof (cases "?a mod ?b = 0")
    case True
    then show thesis using that [of "a div b"] assms zero ceil by (simp add: div_ceil_def unat_div_distrib)
  next
    case False
    have "?a div ?b + 1 \<le> ?a" 
    proof -
      have "?b \<noteq> 1" using False by (metis mod_by_Suc_0 One_nat_def)
      then have "2 \<le> ?b" using b by linarith
      moreover have "0 < ?a" using False by (cases "?a = 0") auto
      ultimately show ?thesis using div_less_dividend [of ?b ?a] by linarith
    qed
    then have "?a div ?b + 1 < 2 ^ LENGTH('l)" using unat_bound [of a] by linarith
    then obtain c :: "'l word" where c: "unat c = ?a div ?b + 1" using nat_word_exists by blast
    then have "padd (a div b) 1 = Ok c" by (simp add: padd_Ok_iff unat_div_distrib)
    then show thesis using that [of c] assms zero ceil False c by (simp add: div_ceil_def)
  qed
qed

text \<open>The required share, rounded up, meets exactly what the share asks for, and never saturates for a proportion.\<close>

lemma required_share_Ok:
  assumes "wf_fraction f" and "is_proportion f"
  obtains w where "required_share f basis = (Ok w :: ('e, u64) result)" "w \<le> basis"
    "\<And>n. unat w \<le> n \<longleftrightarrow> unat (numerator f) * unat basis \<le> n * unat (denominator f)"
proof -
  let ?n = "unat (numerator f)" and ?d = "unat (denominator f)" and ?b = "unat basis"
  have d: "0 < ?d" using assms(1) by (simp add: wf_fraction_def unat_gt_0)
  obtain p where p: "checked_mul (ucast basis :: u128) (ucast (numerator f)) = Some p" "unat p = ?b * ?n"
    using checked_mul_u64_in_u128 [of basis "numerator f"] by auto
  have "(ucast (denominator f) :: u128) \<noteq> 0" using d unat_ucast_u128 [of "denominator f"] by (metis less_irrefl unat_0)
  from div_ceil_Ok [OF this, of p] obtain c where c: "div_ceil p (ucast (denominator f)) = (Ok c :: ('e, u128) result)"
    "unat c = (?b * ?n + ?d - 1) div ?d" unfolding p(2) unat_ucast_u128 by blast
  have meets: "unat c \<le> n \<longleftrightarrow> ?n * ?b \<le> n * ?d" for n
  proof -
    have "unat c \<le> n \<longleftrightarrow> (?b * ?n + ?d - 1) div ?d < Suc n" by (simp only: c(2) less_Suc_eq_le)
    also have "\<dots> \<longleftrightarrow> ?b * ?n + ?d - 1 < Suc n * ?d" using d by (simp add: less_mult_imp_div_less div_less_iff_less_mult)
    also have "\<dots> \<longleftrightarrow> ?n * ?b \<le> n * ?d" using d by (auto simp: mult.commute)
    finally show ?thesis .
  qed
  have "unat c \<le> ?b" using meets [of ?b] assms(2) by (simp add: is_proportion_def word_le_nat_alt mult.commute)
  then have small: "unat c < 2 ^ 64" using unat_bound [of basis] by simp
  then obtain w :: u64 where w: "unat w = unat c" using u64_exists by blast
  then have "try_from_nat (unat c) = Some w" by (simp only: try_from_nat_Some)
  then have "required_share f basis = (Ok w :: ('e, u64) result)" by (simp only: required_share_def p(1) c(1) rexpect.simps rbind.simps option.case)
  then show thesis using that [of w] meets w \<open>unat c \<le> ?b\<close> by (simp add: word_le_nat_alt)
qed

lemma evaluate_parts:
  assumes "evaluate r e bs = Ok ev"
  shows "q_requirement (ev_quorum ev) =
      requirement_of (quorum r) (es_total_weight (ev_electorate ev)) (es_effective_weight (ev_electorate ev))"
    "q_actual_weight (ev_quorum ev) = p_weight (ev_participation ev)"
    "t_required_fraction (ev_threshold ev) = threshold_fraction (threshold r)"
    "quorum_met (q_requirement (ev_quorum ev)) (p_weight (ev_participation ev)) = Ok (q_met (ev_quorum ev))"
  using assms by (auto simp: evaluate_def result_simps Let_def)

lemma evaluate_verdict:
  assumes "evaluate r e bs = Ok ev"
  shows "t_yes_weight (ev_threshold ev) = yes_weight (ev_tally ev)"
    "t_abstentions_affected_denominator (ev_threshold ev) = abstentions_affect_denominator r"
    "t_comparison (ev_threshold ev) =
       comparison_of (cmp (unat (yes_weight (ev_tally ev)) * unat (denominator (threshold_fraction (threshold r))))
         (unat (numerator (threshold_fraction (threshold r))) * unat (t_denominator_weight (ev_threshold ev))))"
    "(ev_outcome ev, ev_reason ev) =
       decide (q_met (ev_quorum ev)) (t_denominator_weight (ev_threshold ev)) (t_comparison (ev_threshold ev)) (tie r)"
  using assms by (auto simp: evaluate_def result_simps Let_def compare_share_eq)

text \<open>
  The decision in words: what the reason of a stored result says, and on which side of the required
  share the YES weight lies. With an empty basis both products are zero.
\<close>

definition verdict_reason :: "voting_rules \<Rightarrow> electorate \<Rightarrow> ballot_set \<Rightarrow> string" where
  "verdict_reason r e bs =
     (let f = threshold_fraction (threshold r);
          wanted = unat (numerator f) * basis_nat r e bs;
          got = voted r e bs Yes * unat (denominator f)
      in if \<not> quorum_reached r e bs then ''quorum_not_met''
         else if basis_nat r e bs = 0 then ''empty_threshold_basis''
         else if wanted < got then ''threshold_met''
         else if got < wanted then ''threshold_not_met''
         else if tie r = TieAccept then ''tie_accepted'' else ''tie_rejected'')"

definition share_comparison :: "voting_rules \<Rightarrow> electorate \<Rightarrow> ballot_set \<Rightarrow> stored_comparison" where
  "share_comparison r e bs =
     (let f = threshold_fraction (threshold r);
          wanted = unat (numerator f) * basis_nat r e bs;
          got = voted r e bs Yes * unat (denominator f)
      in if wanted < got then StoredAbove else if got < wanted then StoredBelow else StoredExactly)"

lemma accounts_tally:
  assumes "accounts r e bs ev"
  shows "unat (yes_weight (ev_tally ev)) = voted r e bs Yes" "unat (no_weight (ev_tally ev)) = voted r e bs No"
    "unat (abstain_weight (ev_tally ev)) = voted r e bs Abstain"
    "unat (yes_count (ev_tally ev)) = length (cast_for Yes bs)" "unat (no_count (ev_tally ev)) = length (cast_for No bs)"
    "unat (abstain_count (ev_tally ev)) = length (cast_for Abstain bs)"
proof -
  have c: "unat (bucket_weight c (ev_tally ev)) = voted r e bs c \<and> unat (bucket_count c (ev_tally ev)) = length (cast_for c bs)" for c
    using assms by (simp only: accounts_def)
  show "unat (yes_weight (ev_tally ev)) = voted r e bs Yes" "unat (no_weight (ev_tally ev)) = voted r e bs No"
    "unat (abstain_weight (ev_tally ev)) = voted r e bs Abstain"
    "unat (yes_count (ev_tally ev)) = length (cast_for Yes bs)" "unat (no_count (ev_tally ev)) = length (cast_for No bs)"
    "unat (abstain_count (ev_tally ev)) = length (cast_for Abstain bs)"
    using c [of Yes] c [of No] c [of Abstain] by (simp_all add: bucket_weight_def bucket_count_def)
qed

lemma verdict_stored:
  assumes "accounts r e bs ev" and "evaluate r e bs = Ok ev"
  shows "reason_code_as_str (ev_reason ev) = verdict_reason r e bs"
    "(case t_comparison (ev_threshold ev) of
       Above \<Rightarrow> StoredAbove | Exactly \<Rightarrow> StoredExactly | Below \<Rightarrow> StoredBelow) = share_comparison r e bs"
proof -
  note v = evaluate_verdict [OF assms(2)]
  note y = accounts_tally(1) [OF assms(1)]
  have d: "unat (t_denominator_weight (ev_threshold ev)) = basis_nat r e bs" and q: "q_met (ev_quorum ev) \<longleftrightarrow> quorum_reached r e bs"
    using assms(1) by (simp_all only: accounts_def)
  have zero: "t_denominator_weight (ev_threshold ev) = 0 \<longleftrightarrow> basis_nat r e bs = 0" by (simp flip: d add: unat_eq_0)
  have reason: "ev_reason ev = snd (decide (quorum_reached r e bs) (t_denominator_weight (ev_threshold ev))
      (comparison_of (cmp (voted r e bs Yes * unat (denominator (threshold_fraction (threshold r))))
         (unat (numerator (threshold_fraction (threshold r))) * basis_nat r e bs))) (tie r))"
    using arg_cong [OF v(4), of snd] unfolding v(3) y d q by (simp only: snd_conv)
  show "reason_code_as_str (ev_reason ev) = verdict_reason r e bs"
    unfolding reason decide_def verdict_reason_def Let_def zero cmp_def comparison_of_def reason_code_as_str_def
    by (cases "tie r") simp_all
  show "(case t_comparison (ev_threshold ev) of
       Above \<Rightarrow> StoredAbove | Exactly \<Rightarrow> StoredExactly | Below \<Rightarrow> StoredBelow) = share_comparison r e bs"
    unfolding v(3) y d share_comparison_def Let_def by (auto simp: cmp_def comparison_of_def)
qed

lemma quorum_stored:
  assumes "wf_rules rules" and "wf_vote e bs" and "evaluate rules e bs = Ok ev"
  obtains required where
    "quorum_required_weight (q_requirement (ev_quorum ev)) = (Ok required :: (vote_error, u64 option) result)"
    "q_met (ev_quorum ev) \<longleftrightarrow> (\<forall>w. required = Some w \<longrightarrow> w \<le> p_weight (ev_participation ev))"
    "\<forall>f b. quorum rules = QuorumFraction f b \<longrightarrow> (\<exists>w. required = Some w \<and>
       unat w = (LEAST n. unat (numerator f) * (case b of QB_TotalElectorate \<Rightarrow> total_nat rules e
         | QB_EffectiveElectorate \<Rightarrow> effective_nat rules e) \<le> n * unat (denominator f)))"
    "quorum rules = QuorumNone \<longrightarrow> required = None" "\<forall>w. quorum rules = QuorumAbsolute w \<longrightarrow> required = Some w"
proof -
  note parts = evaluate_parts [OF assms(3)]
  note ok = evaluate_OkD [OF assms(3,2)]
  have acc: "accounts rules e bs ev" by (rule ok(4))
  let ?q = "q_requirement (ev_quorum ev)" and ?met = "q_met (ev_quorum ev)" and ?part = "p_weight (ev_participation ev)"
  let ?basis = "\<lambda>b. case b of QB_TotalElectorate \<Rightarrow> total_nat rules e | QB_EffectiveElectorate \<Rightarrow> effective_nat rules e"
  show thesis
  proof (cases "quorum rules")
    case QuorumNone
    then show thesis
      using parts(1,4) by (intro that [of None]) (simp_all add: requirement_of_def quorum_required_weight_def quorum_met_def)
  next
    case (QuorumAbsolute w)
    then show thesis
      using parts(1,4) by (intro that [of "Some w"]) (simp_all add: requirement_of_def quorum_required_weight_def quorum_met_def)
  next
    case (QuorumFraction f b)
    let ?w = "case b of QB_TotalElectorate \<Rightarrow> es_total_weight (ev_electorate ev) | QB_EffectiveElectorate \<Rightarrow> es_effective_weight (ev_electorate ev)"
    have w: "unat ?w = ?basis b" using acc by (cases b) (simp_all add: accounts_def)
    have q: "?q = RequireFraction f b ?w" by (simp add: parts(1) QuorumFraction requirement_of_def)
    have "wf_fraction f" "is_proportion f" using assms(1) ok(1) QuorumFraction by (simp_all add: wf_rules_def compatible_def)
    from required_share_Ok [OF this, of ?w] obtain m where m: "required_share f ?w = (Ok m :: (vote_error, u64) result)"
      "\<And>n. unat m \<le> n \<longleftrightarrow> unat (numerator f) * ?basis b \<le> n * unat (denominator f)" unfolding w by blast
    have "?met \<longleftrightarrow> m \<le> ?part"
      using parts(4) by (simp add: q quorum_met_def compare_share_eq cmp_def word_le_nat_alt m(2) w not_less flip: not_le split: if_splits)
    moreover have "unat m = (LEAST n. unat (numerator f) * ?basis b \<le> n * unat (denominator f))"
      by (rule Least_equality [symmetric]) (simp_all flip: m(2))
    ultimately show thesis using that [of "Some m"] m(1) QuorumFraction by (simp add: q quorum_required_weight_def)
  qed
qed

lemma summary_of_Ok:
  assumes "wf_rules rules" and "wf_vote e bs" and "evaluate rules e bs = Ok ev"
  obtains s where "summary_of ev = (Ok s :: (vote_error, evaluation_summary) result)"
  by (rule quorum_stored [OF assms]) (auto simp: summary_of_def intro: that)

lemma summary_fields:
  assumes "summary_of ev = (Ok s :: ('e, evaluation_summary) result)"
    and "quorum_required_weight (q_requirement (ev_quorum ev)) = (Ok required :: ('e, u64 option) result)"
  shows "sm_outcome s = (case ev_outcome ev of Accepted \<Rightarrow> StoredAccepted | Rejected \<Rightarrow> StoredRejected)"
    "sm_reason s = reason_code_as_str (ev_reason ev)" "sm_voter_count s = es_voter_count (ev_electorate ev)"
    "sm_excluded_count s = es_excluded_count (ev_electorate ev)"
    "sm_effective_voter_count s = es_effective_voter_count (ev_electorate ev)"
    "sm_total_weight s = es_total_weight (ev_electorate ev)" "sm_effective_weight s = es_effective_weight (ev_electorate ev)"
    "sm_ballot_count s = p_ballot_count (ev_participation ev)" "sm_participation_weight s = p_weight (ev_participation ev)"
    "sm_non_participant_count s = p_non_participant_count (ev_participation ev)"
    "sm_non_participant_weight s = p_non_participant_weight (ev_participation ev)"
    "sm_yes_weight s = yes_weight (ev_tally ev)" "sm_no_weight s = no_weight (ev_tally ev)"
    "sm_abstain_weight s = abstain_weight (ev_tally ev)" "sm_yes_count s = yes_count (ev_tally ev)"
    "sm_no_count s = no_count (ev_tally ev)" "sm_abstain_count s = abstain_count (ev_tally ev)"
    "sm_quorum_required_weight s = required" "sm_quorum_actual_weight s = q_actual_weight (ev_quorum ev)"
    "sm_quorum_met s = q_met (ev_quorum ev)"
    "sm_threshold_denominator_weight s = t_denominator_weight (ev_threshold ev)"
    "sm_threshold_numerator s = numerator (t_required_fraction (ev_threshold ev))"
    "sm_threshold_denominator s = denominator (t_required_fraction (ev_threshold ev))"
    "sm_abstentions_affected_denominator s = t_abstentions_affected_denominator (ev_threshold ev)"
    "sm_threshold_yes_weight s = t_yes_weight (ev_threshold ev)"
    "sm_comparison s = (case t_comparison (ev_threshold ev) of
       Above \<Rightarrow> StoredAbove | Exactly \<Rightarrow> StoredExactly | Below \<Rightarrow> StoredBelow)"
    "sm_threshold_met s = t_met (ev_threshold ev)"
  using assms(1) by (auto simp: summary_of_def assms(2))

text \<open>
  C32: The stored result says what Bornite decided: for every vote that Bornite evaluates, the summary
  exists and every field of it is the one of the unbounded specification. The counts and the weights of
  the electorate, of the participants and of those who stayed away, of YES, NO and abstentions, are those
  of the inputs. The quorum it stores is none, the absolute weight of the rule, or the least weight that
  meets the fraction of the rule, never saturated; the vote met its quorum exactly when the participating
  weight reaches that number. The threshold fields are the rule's fraction, its basis, the YES weight and
  the side of the share it lies on, and the outcome and the reason are those of the two tests.
\<close>

theorem stored_result_exact:
  assumes "wf_rules rules" and "wf_vote e bs" and "evaluate rules e bs = Ok ev"
  shows "\<exists>s. summary_of ev = (Ok s :: (vote_error, evaluation_summary) result) \<and>
    (summary_accepted s \<longleftrightarrow> quorum_reached rules e bs \<and> share_reached rules e bs) \<and>
    sm_reason s = verdict_reason rules e bs \<and>
    unat (sm_voter_count s) = length (voters e) \<and>
    unat (sm_effective_voter_count s) = length (effective_voters rules e) \<and>
    unat (sm_excluded_count s) = length (filter (\<lambda>v. \<not> is_effective rules v) (voters e)) \<and>
    unat (sm_total_weight s) = total_nat rules e \<and> unat (sm_effective_weight s) = effective_nat rules e \<and>
    unat (sm_ballot_count s) = length (ballots bs) \<and>
    unat (sm_participation_weight s) = weigh rules e (ballots bs) \<and>
    unat (sm_ballot_count s) + unat (sm_non_participant_count s) = length (effective_voters rules e) \<and>
    unat (sm_participation_weight s) + unat (sm_non_participant_weight s) = effective_nat rules e \<and>
    unat (sm_yes_weight s) = voted rules e bs Yes \<and> unat (sm_yes_count s) = length (cast_for Yes bs) \<and>
    unat (sm_no_weight s) = voted rules e bs No \<and> unat (sm_no_count s) = length (cast_for No bs) \<and>
    unat (sm_abstain_weight s) = voted rules e bs Abstain \<and> unat (sm_abstain_count s) = length (cast_for Abstain bs) \<and>
    (case quorum rules of
       QuorumNone \<Rightarrow> sm_quorum_required_weight s = None
     | QuorumAbsolute w \<Rightarrow> sm_quorum_required_weight s = Some w
     | QuorumFraction f b \<Rightarrow> \<exists>w. sm_quorum_required_weight s = Some w \<and>
         unat w = (LEAST n. unat (numerator f) * (case b of QB_TotalElectorate \<Rightarrow> total_nat rules e
           | QB_EffectiveElectorate \<Rightarrow> effective_nat rules e) \<le> n * unat (denominator f))) \<and>
    unat (sm_quorum_actual_weight s) = weigh rules e (ballots bs) \<and>
    (sm_quorum_met s \<longleftrightarrow> (\<forall>w. sm_quorum_required_weight s = Some w \<longrightarrow> w \<le> sm_quorum_actual_weight s)) \<and>
    (sm_quorum_met s \<longleftrightarrow> quorum_reached rules e bs) \<and>
    unat (sm_threshold_denominator_weight s) = basis_nat rules e bs \<and>
    \<lparr>numerator = sm_threshold_numerator s, denominator = sm_threshold_denominator s\<rparr> = threshold_fraction (threshold rules) \<and>
    (sm_abstentions_affected_denominator s \<longleftrightarrow> threshold_basis_of (threshold rules) = TB_VotesCast) \<and>
    unat (sm_threshold_yes_weight s) = voted rules e bs Yes \<and>
    sm_comparison s = share_comparison rules e bs \<and>
    (sm_threshold_met s \<longleftrightarrow> share_reached rules e bs)"
proof -
  have acc: "accounts rules e bs ev" by (rule evaluate_OkD(4) [OF assms(3,2)])
  note tally = accounts_tally [OF acc]
  have excluded: "unat (es_excluded_count (ev_electorate ev)) = length (filter (\<lambda>v. \<not> is_effective rules v) (voters e))"
    using acc sum_length_filter_compl [of "is_effective rules" "voters e"] by (simp add: accounts_def)
  show ?thesis
  proof (rule quorum_stored [OF assms])
    fix required
    assume required: "quorum_required_weight (q_requirement (ev_quorum ev)) = (Ok required :: (vote_error, u64 option) result)"
      "q_met (ev_quorum ev) \<longleftrightarrow> (\<forall>w. required = Some w \<longrightarrow> w \<le> p_weight (ev_participation ev))"
      "\<forall>f b. quorum rules = QuorumFraction f b \<longrightarrow> (\<exists>w. required = Some w \<and>
         unat w = (LEAST n. unat (numerator f) * (case b of QB_TotalElectorate \<Rightarrow> total_nat rules e
           | QB_EffectiveElectorate \<Rightarrow> effective_nat rules e) \<le> n * unat (denominator f)))"
      "quorum rules = QuorumNone \<longrightarrow> required = None" "\<forall>w. quorum rules = QuorumAbsolute w \<longrightarrow> required = Some w"
    obtain s where s: "summary_of ev = (Ok s :: (vote_error, evaluation_summary) result)"
      using required(1) by (simp add: summary_of_def)
    note fields = summary_fields [OF s required(1)]
    have "case quorum rules of
       QuorumNone \<Rightarrow> sm_quorum_required_weight s = None
     | QuorumAbsolute w \<Rightarrow> sm_quorum_required_weight s = Some w
     | QuorumFraction f b \<Rightarrow> \<exists>w. sm_quorum_required_weight s = Some w \<and>
         unat w = (LEAST n. unat (numerator f) * (case b of QB_TotalElectorate \<Rightarrow> total_nat rules e
           | QB_EffectiveElectorate \<Rightarrow> effective_nat rules e) \<le> n * unat (denominator f))"
      unfolding fields(18) using required(3-5) by (cases "quorum rules") simp_all
    moreover have "q_met (ev_quorum ev) \<longleftrightarrow> quorum_reached rules e bs" using acc by (simp add: accounts_def)
    moreover have "summary_accepted s \<longleftrightarrow> accepted ev"
      by (simp add: summary_accepted_def accepted_def fields(1) split: outcome.splits)
    moreover have "\<lparr>numerator = sm_threshold_numerator s, denominator = sm_threshold_denominator s\<rparr> = threshold_fraction (threshold rules)"
      by (simp add: fields evaluate_parts(3) [OF assms(3)])
    ultimately show ?thesis
      using required(2) acc s
      by (intro exI [of _ s])
        (simp add: fields accounts_def tally excluded evaluate_parts(2) [OF assms(3)] evaluate_verdict(1,2) [OF assms(3)]
          verdict_stored [OF acc assms(3)] abstentions_affect_denominator_def)
  qed
qed

section \<open>The vote as a state machine\<close>

lemma vote_cast_Ok_iff:
  "vote_cast cr v b = Ok v' \<longleftrightarrow> vt_status v = VoteOpen \<and>
     (\<exists>s. vt_snapshot v = Some s \<and> ballot_check cr b s = Ok (VoterId (sb_voter b)) \<and>
        map_of (vt_ballots v) (sb_voter b) = None \<and> v' = v\<lparr>vt_ballots := btree_insert (sb_voter b) b (vt_ballots v)\<rparr>)"
proof -
  have i: "ballot_check cr b s = Ok i \<Longrightarrow> i = VoterId (sb_voter b)" for s i by (simp add: ballot_check_Ok_iff)
  have "rbind (rmap_err VoteBallot (ballot_check cr b s)) f = Ok v' \<longleftrightarrow>
      ballot_check cr b s = Ok (VoterId (sb_voter b)) \<and> f (VoterId (sb_voter b)) = Ok v'" for s f
    unfolding rbind_Ok_iff rmap_err_Ok_iff using i by blast
  then show ?thesis
    unfolding vote_cast_def rbind_Ok_iff [of "vote_expect v w t" for w t] rbind_Ok_iff [of "rexpect x" for x]
    by (auto simp: vote_expect_iff rexpect_iff)
qed

lemma vote_open_Ok_iff: "vote_open v = Ok v' \<longleftrightarrow> vt_status v = VoteFrozen \<and> v' = v\<lparr>vt_status := VoteOpen\<rparr>"
  and vote_close_Ok_iff: "vote_close v = Ok v' \<longleftrightarrow> vt_status v = VoteOpen \<and> v' = v\<lparr>vt_status := VoteClosed\<rparr>"
  by (auto simp: vote_open_def vote_close_def result_simps)

lemma vote_evaluate_Ok_iff:
  "vote_evaluate tok hexd de st v = Ok (v', ev) \<longleftrightarrow> vt_status v = VoteClosed \<and> vote_evaluate_now tok hexd de st v = Ok ev \<and>
     (\<exists>s. summary_of ev = (Ok s :: (vote_error, evaluation_summary) result) \<and>
        v' = v\<lparr>vt_evaluation := Some s, vt_status := VoteEvaluated\<rparr>)"
  by (auto simp: vote_evaluate_def result_simps)

lemma vote_final_record_Ok_iff:
  "vote_final_record cr v = Ok r \<longleftrightarrow> vt_status v \<in> {VoteEvaluated, VoteFinalized} \<and>
     (\<exists>s ev. vt_snapshot v = Some s \<and> vt_evaluation v = Some ev \<and> r = vote_record_assemble cr s (map snd (vt_ballots v)) ev)"
  by (auto simp: vote_final_record_def result_simps)

lemma vote_ready_Ok_iff:
  "vote_ready tok hexd cr de st seed v = Ok r \<longleftrightarrow> vt_status v = VoteEvaluated \<and>
     (\<exists>ev s now p. vote_evaluate_now tok hexd de st v = Ok ev \<and> summary_of ev = (Ok s :: (vote_error, evaluation_summary) result) \<and>
        vt_evaluation v = Some s \<and> company_now tok hexd de st = Ok now \<and>
        authorised_signer now Governance (ed_public cr seed) = Ok p \<and> vote_final_record cr v = Ok r)"
  by (auto simp: vote_ready_def result_simps)

lemma vote_finalize_Ok_iff:
  "vote_finalize tok hexd cr de io st seed ms v = (st', Ok (v', f)) \<longleftrightarrow>
     (\<exists>r i h. vote_ready tok hexd cr de st seed v = Ok r \<and>
        seal cr de io st seed VOTE_NAMESPACE VOTE_SCHEMA_VERSION (enc_vote_record r) ms = (st', Ok (i, h)) \<and>
        v' = v\<lparr>vt_finalized := Some (i, h), vt_status := VoteFinalized\<rparr> \<and>
        f = \<lparr>fv_tx_id = i, fv_height = h, fv_record = r\<rparr>)"
  by (cases "vote_ready tok hexd cr de st seed v";
      cases "seal cr de io st seed VOTE_NAMESPACE VOTE_SCHEMA_VERSION
        (enc_vote_record (case vote_ready tok hexd cr de st seed v of Ok r \<Rightarrow> r)) ms")
    (auto simp: vote_finalize_def result_simps split: prod.splits)

inductive vote_reaches ::
    "(string \<Rightarrow> xml_reader) \<Rightarrow> (string \<Rightarrow> bytes option) \<Rightarrow> crypto \<Rightarrow> (bytes \<Rightarrow> (block \<times> bytes) option) \<Rightarrow> vote \<Rightarrow> bool"
  for tok :: "string \<Rightarrow> xml_reader" and hexd :: "string \<Rightarrow> bytes option" and cr :: crypto
    and de :: "bytes \<Rightarrow> (block \<times> bytes) option" where
  drafted: "vote_reaches tok hexd cr de (vote_draft subject digest)"
| frozen: "vote_reaches tok hexd cr de v \<Longrightarrow> reachable cr de st \<Longrightarrow>
     vote_freeze tok hexd de st at channel v = Ok v' \<Longrightarrow> vote_reaches tok hexd cr de v'"
| opened: "vote_reaches tok hexd cr de v \<Longrightarrow> vote_open v = Ok v' \<Longrightarrow> vote_reaches tok hexd cr de v'"
| received: "vote_reaches tok hexd cr de v \<Longrightarrow> vote_cast cr v b = Ok v' \<Longrightarrow> vote_reaches tok hexd cr de v'"
| closed: "vote_reaches tok hexd cr de v \<Longrightarrow> vote_close v = Ok v' \<Longrightarrow> vote_reaches tok hexd cr de v'"
| evaluated: "vote_reaches tok hexd cr de v \<Longrightarrow> reachable cr de st \<Longrightarrow>
     vote_evaluate tok hexd de st v = Ok (v', ev) \<Longrightarrow> vote_reaches tok hexd cr de v'"
| finalized: "vote_reaches tok hexd cr de v \<Longrightarrow> reachable cr de st \<Longrightarrow>
     vote_finalize tok hexd cr de io st seed ms v = (st', Ok (v', f)) \<Longrightarrow> vote_reaches tok hexd cr de v'"

text \<open>What a vote holds: one ballot for a voter, under that voter's name, and each passed every check.\<close>

definition ballots_kept :: "crypto \<Rightarrow> vote \<Rightarrow> bool" where
  "ballots_kept cr v \<longleftrightarrow> sorted_wrt (<) (map fst (vt_ballots v)) \<and>
     (\<forall>(k, b) \<in> set (vt_ballots v). k = sb_voter b \<and>
        (\<exists>s. vt_snapshot v = Some s \<and> ballot_check cr b s = Ok (VoterId k)))"

definition vote_inv :: "crypto \<Rightarrow> vote \<Rightarrow> bool" where
  "vote_inv cr v \<longleftrightarrow>
     (vt_snapshot v = None \<longleftrightarrow> vt_status v = VoteDraft) \<and>
     (vt_evaluation v = None \<longleftrightarrow> vt_status v \<notin> {VoteEvaluated, VoteFinalized}) \<and>
     (vt_finalized v = None \<longleftrightarrow> vt_status v \<noteq> VoteFinalized) \<and>
     (vt_status v \<in> {VoteDraft, VoteFrozen} \<longrightarrow> vt_ballots v = []) \<and>
     (\<forall>s. vt_snapshot v = Some s \<longrightarrow> vs_subject s = vt_subject v \<and> vs_proposal_digest s = vt_proposal_digest v \<and>
        vs_company s = vt_company v \<and> sorted_wrt (<) (map ee_id (vs_electorate s))) \<and>
     ballots_kept cr v"

lemma ballots_kept_cast:
  assumes "ballots_kept cr v" and "vote_cast cr v b = Ok v'"
  shows "ballots_kept cr v'"
proof -
  obtain s where s: "vt_snapshot v = Some s" "ballot_check cr b s = Ok (VoterId (sb_voter b))"
    "map_of (vt_ballots v) (sb_voter b) = None" "v' = v\<lparr>vt_ballots := btree_insert (sb_voter b) b (vt_ballots v)\<rparr>"
    using assms(2) by (auto simp: vote_cast_Ok_iff)
  then show ?thesis
    using assms(1) by (auto simp: ballots_kept_def btree_insert_sorted btree_insert_mem)
qed

lemma entry_ids: "map ee_id (map (entry_at ids) ws) = map voter_id_str (map fst ws)"
  by (simp add: entry_at_def case_prod_unfold)

lemma entries_sorted: "fair_list ws \<Longrightarrow> sorted_wrt (<) (map ee_id (map (entry_at ids) ws))"
  unfolding entry_ids sorted_wrt_map by (simp add: fair_list_def less_voter_id_def sorted_wrt_map)

lemma vote_reaches_inv:
  assumes "decodes_blocks de" and "vote_reaches tok hexd cr de v"
  shows "vote_inv cr v"
  using assms(2)
proof (induction rule: vote_reaches.induct)
  case (drafted subject digest)
  show ?case by (simp add: vote_inv_def vote_draft_def ballots_kept_def)
next
  case (frozen v st at channel v')
  obtain bs where bs: "represents cr bs st" by (rule reachable_represents [OF frozen(2) assms(1)])
  obtain s rules ws where s: "vt_status v = VoteDraft" "reconstruct tok hexd de st at = Ok s" "decides_together s channel rules ws"
    "v' = v\<lparr>vt_company := company_id_str (co_company s),
       vt_snapshot := Some (vote_snapshot_of s at channel ws (vt_subject v) (vt_proposal_digest v)), vt_status := VoteFrozen\<rparr>"
    using frozen(3) unfolding vote_freeze_Ok_iff [OF assms(1) bs] by blast
  have "fair_list ws" by (rule decides_together_fair(1) [OF reconstruct_wf(1,2) [OF assms(1) bs s(2)] s(3)])
  then show ?case
    using frozen(4) s(1) entries_sorted
    by (auto simp: s(4) vote_inv_def vote_snapshot_of_def ballots_kept_def simp del: map_map)
next
  case (opened v v')
  then show ?case by (auto simp: vote_open_Ok_iff vote_inv_def ballots_kept_def)
next
  case (received v b v')
  then have "ballots_kept cr v'" using ballots_kept_cast unfolding vote_inv_def by blast
  then show ?case using received by (auto simp: vote_cast_Ok_iff vote_inv_def)
next
  case (closed v v')
  then show ?case by (auto simp: vote_close_Ok_iff vote_inv_def ballots_kept_def)
next
  case (evaluated v st v' ev)
  then show ?case by (auto simp: vote_evaluate_Ok_iff vote_inv_def ballots_kept_def)
next
  case (finalized v st io seed ms st' v' f)
  then show ?case by (auto simp: vote_finalize_Ok_iff vote_ready_Ok_iff vote_inv_def ballots_kept_def)
qed

lemma vote_evaluate_now_Ok_iff:
  assumes "decodes_blocks de" and "represents cr bs st"
  shows "vote_evaluate_now tok hexd de st v = Ok ev \<longleftrightarrow>
    (\<exists>sn s rules ws. vt_snapshot v = Some sn \<and> reconstruct tok hexd de st (vs_height sn) = Ok s \<and>
       if_tx_id (co_channels s) = vs_channels_tx_id sn \<and> company_id_str (co_company s) = vs_company sn \<and>
       wf_label (vs_channel sn) \<and> decides_together s (ChannelId (vs_channel sn)) rules ws \<and>
       vote_count rules sn (map snd (vt_ballots v)) = Ok ev)"
proof -
  have rules: "(\<exists>r. resolve_channel s channel = Ok r \<and> resolved_rules r = Some rules) \<longleftrightarrow> (\<exists>ws. decides_together s channel rules ws)"
    if "reconstruct tok hexd de st at = Ok s" for s at channel rules
    using rules_of_channel [OF reconstruct_wf(1,2) [OF assms that]] by blast
  show ?thesis
    by (cases "vt_snapshot v"; auto simp: vote_evaluate_now_def result_simps channel_id_new_Ok_iff; use rules in blast)
qed

lemma vote_evaluate_now_no_Panic:
  assumes "decodes_blocks de" and "represents cr bs st" and "vt_snapshot v \<noteq> None"
  shows "vote_evaluate_now tok hexd de st v \<noteq> Panic"
proof -
  have "resolve_channel s channel \<noteq> Panic" if "reconstruct tok hexd de st at = Ok s" for s at channel
    by (rule resolve_channel_no_Panic [OF reconstruct_wf(1,2) [OF assms(1,2) that]])
  moreover have "channel_id_new c \<noteq> Panic" for c by (simp add: channel_id_new_def Let_def split: list.split)
  ultimately show ?thesis
    using assms(3) reconstruct_no_Panic [OF assms(1,2)] vote_count_no_Panic
    by (auto simp: vote_evaluate_now_def result_simps)
qed

text \<open>What was counted: the rules were sound and the inputs formed, so the result can be stored.\<close>

lemma vote_counted:
  assumes "decodes_blocks de" and "represents cr bs st" and "vote_evaluate_now tok hexd de st v = Ok ev"
  obtains s where "summary_of ev = (Ok s :: (vote_error, evaluation_summary) result)"
proof -
  obtain sn s rules ws where c: "reconstruct tok hexd de st (vs_height sn) = Ok s"
    "decides_together s (ChannelId (vs_channel sn)) rules ws" "vote_count rules sn (map snd (vt_ballots v)) = Ok ev"
    using assms(3) unfolding vote_evaluate_now_Ok_iff [OF assms(1,2)] by blast
  have rules: "wf_rules rules" by (rule decides_together_fair(2) [OF reconstruct_wf(1,2) [OF assms(1,2) c(1)] c(2)])
  obtain e bl where "snapshot_electorate sn = Ok e" "bornite_ballots (map snd (vt_ballots v)) = Ok bl" "evaluate rules e bl = Ok ev"
    using c(3) by (auto simp: vote_count_def result_simps)
  then show thesis using summary_of_Ok [OF rules count_inputs_wf] that by blast
qed

lemma vote_operations_no_Panic:
  assumes "vote_inv cr v"
  shows "vote_open v \<noteq> Panic" "vote_close v \<noteq> Panic" "vote_cast cr v b \<noteq> Panic" "vote_final_record cr v \<noteq> Panic"
  using assms by (auto simp: vote_inv_def vote_open_def vote_close_def vote_cast_def vote_final_record_def result_simps)

lemma vote_store_operations_no_Panic:
  assumes "decodes_blocks de" and "represents cr bs st" and inv: "vote_inv cr v"
  shows "vote_evaluate tok hexd de st v \<noteq> Panic" "vote_ready tok hexd cr de st seed v \<noteq> Panic"
proof -
  have now: "vote_evaluate_now tok hexd de st v \<noteq> Panic" if "vt_status v \<noteq> VoteDraft"
    using vote_evaluate_now_no_Panic [OF assms(1,2)] inv that by (simp add: vote_inv_def)
  have sum: "summary_of ev \<noteq> (Panic :: (vote_error, evaluation_summary) result)" if "vote_evaluate_now tok hexd de st v = Ok ev" for ev
    by (rule vote_counted [OF assms(1,2) that]) simp
  show "vote_evaluate tok hexd de st v \<noteq> Panic"
    using now sum by (auto simp: vote_evaluate_def result_simps)
  show "vote_ready tok hexd cr de st seed v \<noteq> Panic"
    using now sum vote_operations_no_Panic(4) [OF inv] company_now_no_Panic [OF assms(1,2)] authorised_signer_no_Panic
    by (auto simp: vote_ready_def result_simps)
qed

lemma vote_namespace: "wf_label VOTE_NAMESPACE" "\<not> company_namespace VOTE_NAMESPACE"
proof -
  show "wf_label VOTE_NAMESPACE" unfolding wf_label_def by code_simp
  show "\<not> company_namespace VOTE_NAMESPACE"
    by (auto simp: company_namespace_def VOTE_NAMESPACE_def kind_namespace_def split: record_kind.splits)
qed

lemma vote_finalize_writes_one:
  assumes de: "decodes_blocks de" and st: "reachable cr de st" and rep: "represents cr bs st"
    and room: "length (chain_ids bs) + 1 < 2 ^ 64" and inv: "vote_inv cr v"
    and fits: "\<And>r. vote_ready tok hexd cr de st seed v = Ok r \<Longrightarrow> fits_u32 (enc_vote_record r)"
  shows "writes_one cr de bs st (vote_finalize tok hexd cr de io st seed ms v)"
proof (cases "vote_ready tok hexd cr de st seed v")
  case (Ok r)
  then show ?thesis
    using writes_one_bind [OF seal_writes_one [OF de st rep room vote_namespace(1) fits [OF Ok]]]
    by (simp add: vote_finalize_def case_prod_unfold Let_def)
next
  case Panic
  then show ?thesis using vote_store_operations_no_Panic(2) [OF de rep inv] by blast
qed (simp add: vote_finalize_def)

section \<open>What votes promise\<close>

text \<open>
  C33: A vote is a state machine that cannot go wrong: whatever operations are called in whatever order
  and against whatever stores, a vote holds exactly what its status says, at most one ballot for a voter,
  in voter order, each of which passed every check against the frozen electorate; no operation panics;
  each goes through only in its own status; and nothing but a ballot changes the ballots. Finalizing, on a
  chain whose transaction count has not reached the last 64-bit number and with a record that has a
  canonical encoding, puts exactly one block on the chain or returns an error and leaves the store as it
  was.
\<close>

theorem vote_machine:
  assumes "decodes_blocks de" and "vote_reaches tok hexd cr de v"
  shows "vote_inv cr v \<and> vote_open v \<noteq> Panic \<and> vote_close v \<noteq> Panic \<and> vote_cast cr v b \<noteq> Panic \<and> vote_final_record cr v \<noteq> Panic \<and>
    (\<forall>st at channel. reachable cr de st \<longrightarrow> vote_freeze tok hexd de st at channel v \<noteq> Panic) \<and>
    (\<forall>st seed. reachable cr de st \<longrightarrow> vote_evaluate tok hexd de st v \<noteq> Panic \<and> vote_ready tok hexd cr de st seed v \<noteq> Panic) \<and>
    (\<forall>st at channel v'. vote_freeze tok hexd de st at channel v = Ok v' \<longrightarrow> vt_status v = VoteDraft \<and> vt_status v' = VoteFrozen) \<and>
    (\<forall>v'. vote_open v = Ok v' \<longrightarrow> vt_status v = VoteFrozen \<and> vt_status v' = VoteOpen) \<and>
    (\<forall>v'. vote_cast cr v b = Ok v' \<longrightarrow> vt_status v = VoteOpen \<and> vt_status v' = VoteOpen \<and>
       set (vt_ballots v') = insert (sb_voter b, b) (set (vt_ballots v)) \<and> sb_voter b \<notin> fst ` set (vt_ballots v)) \<and>
    (\<forall>v'. vote_close v = Ok v' \<longrightarrow> vt_status v = VoteOpen \<and> vt_status v' = VoteClosed \<and> vt_ballots v' = vt_ballots v) \<and>
    (\<forall>st v' ev. vote_evaluate tok hexd de st v = Ok (v', ev) \<longrightarrow>
       vt_status v = VoteClosed \<and> vt_status v' = VoteEvaluated \<and> vt_ballots v' = vt_ballots v) \<and>
    (\<forall>st io seed ms st' v' f. vote_finalize tok hexd cr de io st seed ms v = (st', Ok (v', f)) \<longrightarrow>
       vt_status v = VoteEvaluated \<and> vt_status v' = VoteFinalized \<and> vt_ballots v' = vt_ballots v) \<and>
    (\<forall>st bs io seed ms. reachable cr de st \<and> represents cr bs st \<and> length (chain_ids bs) + 1 < 2 ^ 64 \<and>
       (\<forall>r. vote_ready tok hexd cr de st seed v = Ok r \<longrightarrow> fits_u32 (enc_vote_record r)) \<longrightarrow>
       snd (vote_finalize tok hexd cr de io st seed ms v) \<noteq> Panic \<and>
       writes_one cr de bs st (vote_finalize tok hexd cr de io st seed ms v))"
proof -
  have inv: "vote_inv cr v" by (rule vote_reaches_inv [OF assms])
  have "vote_freeze tok hexd de st at channel v \<noteq> Panic" "vote_evaluate tok hexd de st v \<noteq> Panic"
    "vote_ready tok hexd cr de st seed v \<noteq> Panic" if st: "reachable cr de st" for st at channel seed
  proof -
    obtain bs where "represents cr bs st" by (rule reachable_represents [OF st assms(1)])
    then show "vote_freeze tok hexd de st at channel v \<noteq> Panic" "vote_evaluate tok hexd de st v \<noteq> Panic"
      "vote_ready tok hexd cr de st seed v \<noteq> Panic"
      using vote_freeze_no_Panic [OF assms(1)] vote_store_operations_no_Panic [OF assms(1) _ inv] by blast+
  qed
  moreover have "vt_status v = VoteDraft \<and> vt_status v' = VoteFrozen"
    if "vote_freeze tok hexd de st at channel v = Ok v'" for st at channel v'
    using that by (auto simp: vote_freeze_def result_simps Let_def split: if_splits)
  moreover have "vt_status v = VoteOpen \<and> vt_status v' = VoteOpen \<and>
      set (vt_ballots v') = insert (sb_voter b, b) (set (vt_ballots v)) \<and> sb_voter b \<notin> fst ` set (vt_ballots v)"
    if "vote_cast cr v b = Ok v'" for v'
    using that by (auto simp: vote_cast_Ok_iff btree_insert_mem map_of_eq_None_iff)
  moreover have "vt_status v = VoteClosed \<and> vt_status v' = VoteEvaluated \<and> vt_ballots v' = vt_ballots v"
    if "vote_evaluate tok hexd de st v = Ok (v', ev)" for st v' ev
    using that by (auto simp: vote_evaluate_Ok_iff)
  moreover have "vt_status v = VoteEvaluated \<and> vt_status v' = VoteFinalized \<and> vt_ballots v' = vt_ballots v"
    if "vote_finalize tok hexd cr de io st seed ms v = (st', Ok (v', f))" for st io seed ms st' v' f
    using that by (auto simp: vote_finalize_Ok_iff vote_ready_Ok_iff)
  moreover have "vt_status v = VoteFrozen \<and> vt_status v' = VoteOpen" if "vote_open v = Ok v'" for v'
    using that by (simp add: vote_open_Ok_iff)
  moreover have "vt_status v = VoteOpen \<and> vt_status v' = VoteClosed \<and> vt_ballots v' = vt_ballots v" if "vote_close v = Ok v'" for v'
    using that by (simp add: vote_close_Ok_iff)
  moreover have "\<forall>st bs io seed ms. reachable cr de st \<and> represents cr bs st \<and> length (chain_ids bs) + 1 < 2 ^ 64 \<and>
       (\<forall>r. vote_ready tok hexd cr de st seed v = Ok r \<longrightarrow> fits_u32 (enc_vote_record r)) \<longrightarrow>
       snd (vote_finalize tok hexd cr de io st seed ms v) \<noteq> Panic \<and>
       writes_one cr de bs st (vote_finalize tok hexd cr de io st seed ms v)"
    using vote_finalize_writes_one [OF assms(1) _ _ _ inv] writes_one_no_Panic by meson
  ultimately show ?thesis
    using inv vote_operations_no_Panic [OF inv] by (intro conjI) (assumption | (intro allI impI; (blast | metis)))+
qed

section \<open>Ballots in any order\<close>

text \<open>
  The interface of a state that takes items one after another: items with different keys commute, so
  the order in which items with distinct keys arrive cannot be seen.
\<close>

locale arrivals =
  fixes step :: "'s \<Rightarrow> 'b \<Rightarrow> 's" and key :: "'b \<Rightarrow> 'k" and inv :: "'s \<Rightarrow> bool"
  assumes kept: "inv s \<Longrightarrow> inv (step s b)"
    and swap: "inv s \<Longrightarrow> key a \<noteq> key b \<Longrightarrow> step (step s a) b = step (step s b) a"
begin

lemma kept_all: "inv s \<Longrightarrow> inv (foldl step s bs)"
  by (induction bs arbitrary: s) (simp_all add: kept)

lemma first_is_last: "inv s \<Longrightarrow> key b \<notin> key ` set bs \<Longrightarrow> foldl step (step s b) bs = step (foldl step s bs) b"
proof (induction bs arbitrary: s)
  case (Cons a bs)
  then have "foldl step (step s b) (a # bs) = foldl step (step (step s a) b) bs" using swap [of s b a] by simp
  then show ?case using Cons by (simp add: kept)
qed simp

lemma order_irrelevant:
  assumes "inv s" and "mset bs = mset cs" and "distinct (map key bs)"
  shows "foldl step s bs = foldl step s cs"
  using assms
proof (induction bs arbitrary: s cs)
  case (Cons b bs)
  then have "b \<in> set cs" by (metis list.set_intros(1) set_mset_mset)
  then obtain xs ys where cs: "cs = xs @ b # ys" by (meson split_list)
  with Cons.prems(2) have rest: "mset bs = mset (xs @ ys)" by simp
  moreover from this have "set bs = set (xs @ ys)" by (metis set_mset_mset)
  ultimately have "key b \<notin> key ` set xs" using Cons.prems(3) by auto
  then have "foldl step s cs = foldl step (step s b) (xs @ ys)" using Cons.prems(1) by (simp add: cs first_is_last)
  also have "\<dots> = foldl step (step s b) bs"
    using Cons.IH [OF kept [OF Cons.prems(1)] rest] Cons.prems(3) by simp
  finally show ?case by simp
qed simp

end

text \<open>A caller offers ballots one after another; a ballot that is refused leaves the vote as it was.\<close>

definition vote_receive :: "crypto \<Rightarrow> vote \<Rightarrow> signed_ballot \<Rightarrow> vote" where
  "vote_receive cr v b = (case vote_cast cr v b of Ok v' \<Rightarrow> v' | _ \<Rightarrow> v)"

definition acceptable :: "crypto \<Rightarrow> vote \<Rightarrow> signed_ballot \<Rightarrow> bool" where
  "acceptable cr v b \<longleftrightarrow> vt_status v = VoteOpen \<and>
     (\<exists>s. vt_snapshot v = Some s \<and> ballot_check cr b s = Ok (VoterId (sb_voter b))) \<and> sb_voter b \<notin> fst ` set (vt_ballots v)"

lemma vote_receive_eq:
  "vote_receive cr v b =
     (if acceptable cr v b then v\<lparr>vt_ballots := btree_insert (sb_voter b) b (vt_ballots v)\<rparr> else v)"
proof (cases "acceptable cr v b")
  case True
  then have "vote_cast cr v b = Ok (v\<lparr>vt_ballots := btree_insert (sb_voter b) b (vt_ballots v)\<rparr>)"
    by (simp add: acceptable_def vote_cast_Ok_iff map_of_eq_None_iff)
  then show ?thesis using True by (simp add: vote_receive_def)
next
  case False
  then have "vote_cast cr v b \<noteq> Ok v'" for v' by (auto simp: acceptable_def vote_cast_Ok_iff map_of_eq_None_iff)
  then show ?thesis using False by (simp add: vote_receive_def split: result.split)
qed

abbreviation ballots_sorted :: "vote \<Rightarrow> bool" where
  "ballots_sorted v \<equiv> sorted_wrt (<) (map fst (vt_ballots v))"

lemma btree_insert_swap:
  assumes "sorted_wrt (<) (map fst m)" and "k \<noteq> l"
  shows "btree_insert k v (btree_insert l w m) = btree_insert l w (btree_insert k v m)"
  using assms by (intro btree_unique) (simp_all add: btree_insert_sorted btree_insert_map_of fun_upd_twist)

lemma acceptable_other:
  "sb_voter a \<noteq> sb_voter b \<Longrightarrow> acceptable cr (v\<lparr>vt_ballots := btree_insert (sb_voter a) a (vt_ballots v)\<rparr>) b = acceptable cr v b"
  by (simp add: acceptable_def btree_insert_set)

interpretation polls: arrivals "vote_receive cr" sb_voter ballots_sorted for cr
proof unfold_locales
  fix v b a
  assume v: "ballots_sorted v"
  then show "ballots_sorted (vote_receive cr v b)" by (simp add: vote_receive_eq btree_insert_sorted)
  assume "sb_voter a \<noteq> sb_voter b"
  then show "vote_receive cr (vote_receive cr v a) b = vote_receive cr (vote_receive cr v b) a"
    using acceptable_other [of a b cr v] acceptable_other [of b a cr v] btree_insert_swap [OF v]
    by (simp add: vote_receive_eq)
qed

lemma received_ballots:
  "distinct (map sb_voter bs) \<Longrightarrow> set (vt_ballots (foldl (vote_receive cr) v bs)) =
     set (vt_ballots v) \<union> {(sb_voter b, b) | b. b \<in> set bs \<and> acceptable cr v b}"
proof (induction bs arbitrary: v)
  case (Cons b bs)
  show ?case
  proof (cases "acceptable cr v b")
    case True
    let ?v = "v\<lparr>vt_ballots := btree_insert (sb_voter b) b (vt_ballots v)\<rparr>"
    have "map_of (vt_ballots v) (sb_voter b) = None" using True by (simp add: acceptable_def map_of_eq_None_iff)
    then have "set (vt_ballots ?v) = insert (sb_voter b, b) (set (vt_ballots v))" by (simp add: btree_insert_mem)
    moreover have "acceptable cr ?v c = acceptable cr v c" if "c \<in> set bs" for c
      using that Cons.prems by (intro acceptable_other) auto
    ultimately show ?thesis using True Cons.IH [of ?v] Cons.prems by (auto simp: vote_receive_eq)
  qed (use Cons in \<open>auto simp: vote_receive_eq\<close>)
qed simp

lemma vote_receive_fields [simp]:
  "vt_status (foldl (vote_receive cr) v bs) = vt_status v" "vt_snapshot (foldl (vote_receive cr) v bs) = vt_snapshot v"
  "vt_evaluation (foldl (vote_receive cr) v bs) = vt_evaluation v"
  by (induction bs arbitrary: v) (simp_all add: vote_receive_eq)

lemma vote_receive_reaches:
  "vote_reaches tok hexd cr de v \<Longrightarrow> vote_reaches tok hexd cr de (foldl (vote_receive cr) v bs)"
proof (induction bs arbitrary: v)
  case (Cons b bs)
  have "vote_reaches tok hexd cr de (vote_receive cr v b)"
    using Cons.prems vote_reaches.received by (auto simp: vote_receive_def split: result.split)
  then show ?case using Cons.IH by simp
qed simp

text \<open>
  C34: The order in which ballots arrive cannot be seen: when every voter sends one ballot, two orders of
  the same ballots leave the same vote, so the same commitment and the same result; and what is held are
  exactly the ballots held before and those of the new ones that pass every check and whose voter had
  not voted yet.
\<close>

theorem arrival_order_irrelevant:
  assumes "decodes_blocks de" and "vote_reaches tok hexd cr de v"
    and "mset bs = mset cs" and "distinct (map sb_voter bs)"
  shows "foldl (vote_receive cr) v bs = foldl (vote_receive cr) v cs \<and>
    set (vt_ballots (foldl (vote_receive cr) v bs)) =
      set (vt_ballots v) \<union> {(sb_voter b, b) | b. b \<in> set bs \<and> acceptable cr v b}"
proof -
  have "ballots_sorted v" using vote_reaches_inv [OF assms(1,2)] by (simp add: vote_inv_def ballots_kept_def)
  then show ?thesis using polls.order_irrelevant [OF _ assms(3,4)] received_ballots [OF assms(4)] by blast
qed

end
