(* ===== verification/Irena_Vote_Verify.thy ===== *)
theory Irena_Vote_Verify
  imports Irena_Vote Prunella_Layout
begin

text \<open>
  What \<open>verify.rs\<close> of \<open>irena-vote\<close> establishes: the specification \<open>vote_holds\<close> of a record, the proof that the
  checks decide it (\<open>vote_checks_exact\<close>), and that a vote which went through the process verifies on every
  later store. The derived Borsh decoder of a record is a parameter that reads back what the encoder writes;
  \<open>dec_vote_record\<close> is one, for the vote of the sample company at the end.
\<close>

section \<open>Reports\<close>

text \<open>
  The verifiers of decisions and votes open in the same way: a transaction of another namespace, a payload
  that does not decode, another version and bytes that are not the canonical ones are refused with one
  failed check; otherwise the checks of the record follow.
\<close>

definition report_outcome ::
    "string \<Rightarrow> ('r \<Rightarrow> bytes) \<Rightarrow> ('r \<Rightarrow> bool) \<Rightarrow> (bytes \<Rightarrow> ('r \<times> bytes) option) \<Rightarrow> ('r \<Rightarrow> ('e, ('c \<times> bool) list) result) \<Rightarrow> 'c
      \<Rightarrow> transaction \<Rightarrow> ('e, 'r option \<times> ('c \<times> bool) list) result" where
  "report_outcome ns enc current dec checks decodes t =
     (if namespace_str (t_namespace t) \<noteq> ns then Ok (None, [(decodes, False)])
      else rbind (caught (decode dec (t_payload t))) (\<lambda>decoded.
        case decoded of
          None \<Rightarrow> Ok (None, [(decodes, False)])
        | Some r \<Rightarrow>
            if \<not> current r then Ok (None, [(decodes, False)])
            else if enc r \<noteq> t_payload t then Ok (None, [(decodes, False)])
            else rbind (checks r) (\<lambda>checks. Ok (Some r, checks))))"

lemma report_outcome_exact:
  assumes reads: "reads_back enc ok dec"
    and checked: "\<And>r. \<exists>cs. checks r = Ok cs \<and> cs \<noteq> [] \<and> (list_all snd cs \<longleftrightarrow> holds r)"
  obtains found cs where "report_outcome ns enc current dec checks decodes t = Ok (found, cs)"
    "cs \<noteq> [] \<and> list_all snd cs \<longleftrightarrow> namespace_str (t_namespace t) = ns \<and>
       (\<exists>r. t_payload t = enc r \<and> ok r \<and> current r \<and> found = Some r \<and> holds r)"
    "\<And>r. namespace_str (t_namespace t) = ns \<Longrightarrow> t_payload t = enc r \<Longrightarrow> ok r \<Longrightarrow> current r \<Longrightarrow> found = Some r"
proof (cases "decode dec (t_payload t)")
  case (Ok r)
  then have r: "ok r" "t_payload t = enc r" by (simp_all add: decode_Ok_iff [OF reads])
  have unique: "enc r = enc q \<Longrightarrow> ok q \<Longrightarrow> r = q" for q
    using Ok r decode_Ok_iff [OF reads, of "enc r" q] by simp
  obtain cs where cs: "checks r = Ok cs" "cs \<noteq> []" "list_all snd cs \<longleftrightarrow> holds r" using checked by blast
  show ?thesis
  proof (cases "namespace_str (t_namespace t) = ns \<and> current r")
    case True
    then have eq: "report_outcome ns enc current dec checks decodes t = Ok (Some r, cs)"
      using Ok r cs(1) by (simp add: report_outcome_def)
    show ?thesis by (rule that [OF eq]) (use True r cs(2,3) unique in \<open>auto\<close>)
  next
    case False
    then have eq: "report_outcome ns enc current dec checks decodes t = Ok (None, [(decodes, False)])"
      using Ok by (auto simp: report_outcome_def)
    show ?thesis by (rule that [OF eq]) (use False r unique in \<open>auto\<close>)
  qed
next
  case (Err e)
  have none: "t_payload t = enc r \<Longrightarrow> \<not> ok r" for r using Err decode_Ok_iff [OF reads, of "t_payload t" r] by auto
  from Err have eq: "report_outcome ns enc current dec checks decodes t = Ok (None, [(decodes, False)])"
    by (simp add: report_outcome_def)
  show ?thesis by (rule that [OF eq]) (use none in \<open>auto\<close>)
next
  case Panic
  then show ?thesis by (simp add: decode_def split: option.splits if_splits prod.splits)
qed

section \<open>What a verified vote means\<close>

text \<open>
  The specification of a vote record at height \<open>h\<close>, in a transaction signed by \<open>signer\<close>: the snapshot is the
  one the company of that earlier height gives for a channel that decides together, every ballot is a
  voter's of that channel, the ballots are in order and committed to, and the stored result is what Bornite
  decides on the rules, the weights and the ballots.
\<close>

definition vote_holds ::
    "(string \<Rightarrow> xml_reader) \<Rightarrow> (string \<Rightarrow> bytes option) \<Rightarrow> crypto \<Rightarrow> (bytes \<Rightarrow> (block \<times> bytes) option)
      \<Rightarrow> chain_store \<Rightarrow> block_height \<Rightarrow> public_key \<Rightarrow> vote_record \<Rightarrow> bool" where
  "vote_holds tok hexd cr de st h signer r \<longleftrightarrow>
     (let sn = vr_snapshot r; channel = ChannelId (vs_channel sn) in
      vr_vote_id r = vote_snapshot_id cr sn \<and> vs_height sn < h \<and> wf_label (vs_company sn) \<and> wf_label (vs_channel sn) \<and>
      (\<exists>s rules ws ev. reconstruct tok hexd de st (vs_height sn) = Ok s \<and> decides_together s channel rules ws \<and>
         sn = vote_snapshot_of s (vs_height sn) channel ws (vs_subject sn) (vs_proposal_digest sn) \<and>
         (\<forall>i \<in> fst ` set ws. wf_voter_id i) \<and>
         (\<forall>b \<in> set (vr_ballots r). ballot_holds cr (if_value (co_identities s)) ws (vr_vote_id r) b) \<and>
         evaluate rules (electorate_of ws) (ballots_of (vr_ballots r)) = Ok ev \<and>
         accounts rules (electorate_of ws) (ballots_of (vr_ballots r)) ev \<and>
         summary_of ev = (Ok (vr_evaluation r) :: (vote_error, evaluation_summary) result)) \<and>
      sorted_wrt (<) (map sb_voter (vr_ballots r)) \<and> vr_ballot_commitment r = ballot_commitment cr (vr_ballots r) \<and>
      (\<exists>s p. reconstruct tok hexd de st h = Ok s \<and> authorised_signer s Governance signer = Ok p))"

lemma vote_channel_checks_eq:
  assumes wf: "wf_shares (if_value (co_shares s))" "wf_channel_set (if_value (co_channels s))"
  shows "wf_label (vs_channel sn) \<and> decides_together s (ChannelId (vs_channel sn)) rules ws \<Longrightarrow>
      vote_channel_checks s sn = Ok ([(ChannelIsCollective, True),
        (ElectorateDerives, map (entry_at (if_value (co_identities s))) ws = vs_electorate sn)], Some rules)"
    and "\<nexists>rules ws. wf_label (vs_channel sn) \<and> decides_together s (ChannelId (vs_channel sn)) rules ws \<Longrightarrow>
      vote_channel_checks s sn = Ok ([(ChannelIsCollective, False)], None)"
proof -
  assume "wf_label (vs_channel sn) \<and> decides_together s (ChannelId (vs_channel sn)) rules ws"
  moreover from this obtain r where "resolve_channel s (ChannelId (vs_channel sn)) = Ok r" "resolved_rules r = Some rules"
    "entries_of (rv_actors r) = map (entry_at (if_value (co_identities s))) ws"
    using rules_of_channel [OF wf, of "ChannelId (vs_channel sn)" rules] by blast
  moreover from calculation have "channel_id_new (vs_channel sn) = Ok (ChannelId (vs_channel sn))"
    by (simp add: channel_id_new_Ok_iff)
  ultimately show "vote_channel_checks s sn = Ok ([(ChannelIsCollective, True),
      (ElectorateDerives, map (entry_at (if_value (co_identities s))) ws = vs_electorate sn)], Some rules)"
    by (simp add: vote_channel_checks_def)
next
  assume none: "\<nexists>rules ws. wf_label (vs_channel sn) \<and> decides_together s (ChannelId (vs_channel sn)) rules ws"
  have no_panic: "resolve_channel s c \<noteq> Panic" "channel_id_new x \<noteq> Panic" for c x
    by (rule resolve_channel_no_Panic [OF wf], simp add: channel_id_new_def Let_def split: list.split)
  have no_rules: "resolved_rules r = None" if "channel_id_new (vs_channel sn) = Ok c" "resolve_channel s c = Ok r" for c r
    using that none rules_of_channel [OF wf, of c] by (cases "resolved_rules r") (auto simp: channel_id_new_Ok_iff)
  show "vote_channel_checks s sn = Ok ([(ChannelIsCollective, False)], None)"
  proof (cases "channel_id_new (vs_channel sn)")
    case (Ok c)
    then show ?thesis
      using no_panic(1) [of c] no_rules [OF Ok]
      by (cases "resolve_channel s c") (auto simp: vote_channel_checks_def)
  qed (use no_panic in \<open>simp_all add: vote_channel_checks_def\<close>)
qed

lemma vote_ballot_checks_eq:
  "vote_ballot_checks cr r = Ok [(BallotsVerify, \<forall>b \<in> set (vr_ballots r). \<exists>i. ballot_check cr b (vr_snapshot r) = Ok i),
     (BallotsOrdered, sorted_wrt (<) (map sb_voter (vr_ballots r))),
     (CommitmentDerives, ballot_commitment cr (vr_ballots r) = vr_ballot_commitment r)]"
proof -
  have one: "caught (ballot_check cr b s) = Ok (case ballot_check cr b s of Ok i \<Rightarrow> Some i | _ \<Rightarrow> None)" for b s
    using ballot_check_no_Panic [of cr b s] by (cases "ballot_check cr b s") (simp_all del: ballot_check_no_Panic)
  have "(case ballot_check cr b s of Ok i \<Rightarrow> Some i | _ \<Rightarrow> None) \<noteq> None \<longleftrightarrow> (\<exists>i. ballot_check cr b s = Ok i)" for b s
    by (cases "ballot_check cr b s") simp_all
  then have "list_all (\<lambda>c. c \<noteq> None) (map (\<lambda>b. case ballot_check cr b s of Ok i \<Rightarrow> Some i | _ \<Rightarrow> None) bs) \<longleftrightarrow>
      (\<forall>b \<in> set bs. \<exists>i. ballot_check cr b s = Ok i)" for s bs
    by (simp only: list_all_iff set_map ball_simps(9))
  then show ?thesis
    by (simp add: vote_ballot_checks_def rcollect_map_Ok [where g = "\<lambda>b. case ballot_check cr b (vr_snapshot r) of Ok i \<Rightarrow> Some i | _ \<Rightarrow> None"]
        one ballots_are_sorted_def windows_less_iff)
qed

lemma vote_result_check_eq:
  assumes "wf_rules rules"
  obtains same where "vote_result_check (Some rules) r = Ok [(ResultReproduces, same)]"
    "same \<longleftrightarrow> (\<exists>ev. vote_count rules (vr_snapshot r) (vr_ballots r) = Ok ev \<and>
       summary_of ev = (Ok (vr_evaluation r) :: (vote_error, evaluation_summary) result))"
proof (cases "vote_count rules (vr_snapshot r) (vr_ballots r)")
  case (Ok ev)
  then obtain e bl where "snapshot_electorate (vr_snapshot r) = Ok e" "bornite_ballots (vr_ballots r) = Ok bl" "evaluate rules e bl = Ok ev"
    by (auto simp: vote_count_def result_simps)
  then obtain s where "summary_of ev = (Ok s :: (vote_error, evaluation_summary) result)"
    using summary_of_Ok [OF assms count_inputs_wf] by blast
  then show thesis using that Ok by (simp add: vote_result_check_def)
next
  case (Err e)
  then show thesis using that [of False] by (simp add: vote_result_check_def)
qed (use vote_count_no_Panic in blast)

text \<open>A snapshot is what a company gives exactly when the pins and the electorate are.\<close>

lemma vote_snapshot_pinned:
  assumes "co_company s = CompanyId (vs_company sn)"
  shows "(sn = vote_snapshot_of s (vs_height sn) (ChannelId (vs_channel sn)) ws (vs_subject sn) (vs_proposal_digest sn))
    \<longleftrightarrow> pins_hold s (vs_genesis_tx_id sn) (vs_shares_tx_id sn) (vs_channels_tx_id sn) (vs_identities_tx_id sn) \<and>
      map (entry_at (if_value (co_identities s))) ws = vs_electorate sn"
  using assms by (cases sn) (auto simp: vote_snapshot_of_def pins_hold_def)

lemma vote_snapshot_unpinned:
  assumes "\<not> (co_company s = CompanyId (vs_company sn) \<and>
      pins_hold s (vs_genesis_tx_id sn) (vs_shares_tx_id sn) (vs_channels_tx_id sn) (vs_identities_tx_id sn))"
  shows "sn \<noteq> vote_snapshot_of s (vs_height sn) (ChannelId (vs_channel sn)) ws (vs_subject sn) (vs_proposal_digest sn)"
  using assms by (cases sn; cases "co_company s") (auto simp: vote_snapshot_of_def pins_hold_def)

lemma source_found:
  assumes "reconstruct tok hexd de st at = Ok s" and "decides_together s c rules ws"
  shows "(\<exists>s' rules' ws' ev. reconstruct tok hexd de st at = Ok s' \<and> decides_together s' c rules' ws' \<and> P s' rules' ws' ev)
    \<longleftrightarrow> (\<exists>ev. P s rules ws ev)"
proof
  assume "\<exists>s' rules' ws' ev. reconstruct tok hexd de st at = Ok s' \<and> decides_together s' c rules' ws' \<and> P s' rules' ws' ev"
  then obtain s' rules' ws' ev where found: "reconstruct tok hexd de st at = Ok s'" "decides_together s' c rules' ws'"
    "P s' rules' ws' ev" by blast
  then have "s' = s" using assms(1) by simp
  moreover from this have "rules' = rules" "ws' = ws" using decides_together_unique assms(2) found(2) by blast+
  ultimately show "\<exists>ev. P s rules ws ev" using found(3) by blast
qed (use assms in blast)

text \<open>The checks of the record, once the records of the snapshot resolve.\<close>

lemma vote_record_checks_exact:
  assumes "decodes_blocks de" and "represents cr bs st" and state: "reconstruct tok hexd de st (vs_height (vr_snapshot r)) = Ok s"
    and pinned: "co_company s = CompanyId (vs_company (vr_snapshot r))"
      "pins_hold s (vs_genesis_tx_id (vr_snapshot r)) (vs_shares_tx_id (vr_snapshot r)) (vs_channels_tx_id (vr_snapshot r))
         (vs_identities_tx_id (vr_snapshot r))"
    and label: "wf_label (vs_company (vr_snapshot r))"
  obtains channel rules ballots result where "vote_channel_checks s (vr_snapshot r) = Ok (channel, rules)"
    "vote_ballot_checks cr r = Ok ballots" "vote_result_check rules r = Ok result"
    "vote_holds tok hexd cr de st h signer r \<longleftrightarrow> vote_snapshot_id cr (vr_snapshot r) = vr_vote_id r \<and> vs_height (vr_snapshot r) < h \<and>
       list_all snd (channel @ ballots @ result) \<and>
       (\<exists>s p. reconstruct tok hexd de st h = Ok s \<and> authorised_signer s Governance signer = Ok p)"
proof -
  let ?sn = "vr_snapshot r" and ?bs = "vr_ballots r" and ?ids = "if_value (co_identities s)"
  let ?channel = "ChannelId (vs_channel ?sn)"
  note wf = reconstruct_wf(1,2) [OF assms(1-3)]
  note ballots = vote_ballot_checks_eq [of cr r]
  note snapshot = vote_snapshot_pinned [OF pinned(1)]
  show thesis
  proof (cases "\<exists>rules ws. wf_label (vs_channel ?sn) \<and> decides_together s ?channel rules ws")
    case False
    then have "vote_channel_checks s ?sn = Ok ([(ChannelIsCollective, False)], None)" by (rule vote_channel_checks_eq(2) [OF wf])
    moreover have "\<not> vote_holds tok hexd cr de st h signer r" using False state by (auto simp: vote_holds_def Let_def)
    ultimately show thesis by (intro that [OF _ ballots, of _ None "[]"]) (auto simp: vote_result_check_def)
  next
    case True
    then obtain rules ws where ws: "wf_label (vs_channel ?sn)" "decides_together s ?channel rules ws" by blast
    note channel = vote_channel_checks_eq(1) [OF wf conjI [OF ws]]
    note fair = decides_together_fair [OF wf ws(2)]
    obtain same where same: "vote_result_check (Some rules) r = Ok [(ResultReproduces, same)]"
      "same \<longleftrightarrow> (\<exists>ev. vote_count rules ?sn ?bs = Ok ev \<and>
         summary_of ev = (Ok (vr_evaluation r) :: (vote_error, evaluation_summary) result))"
      by (rule vote_result_check_eq [OF fair(2)])
    let ?derived = "map (entry_at ?ids) ws = vs_electorate ?sn"
    let ?sorted = "sorted_wrt (<) (map sb_voter ?bs)"
    let ?checked = "\<forall>b \<in> set ?bs. \<exists>i. ballot_check cr b ?sn = Ok i"
    have counted: "?checked \<longleftrightarrow> (\<forall>b \<in> set ?bs. ballot_holds cr ?ids ws (vote_snapshot_id cr ?sn) b)"
      "?checked \<Longrightarrow> ?sorted \<Longrightarrow> vote_count rules ?sn ?bs = Ok ev \<longleftrightarrow> (\<forall>i \<in> fst ` set ws. wf_voter_id i) \<and>
         evaluate rules (electorate_of ws) (ballots_of ?bs) = Ok ev"
      "?checked \<Longrightarrow> ?sorted \<Longrightarrow> evaluate rules (electorate_of ws) (ballots_of ?bs) = Ok ev \<Longrightarrow>
         accounts rules (electorate_of ws) (ballots_of ?bs) ev" if derived: ?derived for ev
    proof -
      show checked: "?checked \<longleftrightarrow> (\<forall>b \<in> set ?bs. ballot_holds cr ?ids ws (vote_snapshot_id cr ?sn) b)"
        using ballot_check_snapshot [OF fair(1) derived [symmetric]] by simp
      assume c: ?checked and s: ?sorted
      then have ids: "\<forall>b \<in> set ?bs. wf_voter_id (VoterId (sb_voter b))" unfolding checked by (simp add: ballot_holds_def)
      note count = vote_count_eq [OF fair(1) derived [symmetric] ids s]
      show "vote_count rules ?sn ?bs = Ok ev \<longleftrightarrow> (\<forall>i \<in> fst ` set ws. wf_voter_id i) \<and>
         evaluate rules (electorate_of ws) (ballots_of ?bs) = Ok ev" by (rule count(2))
      show "accounts rules (electorate_of ws) (ballots_of ?bs) ev" if "evaluate rules (electorate_of ws) (ballots_of ?bs) = Ok ev"
        by (rule evaluate_OkD(4) [OF that count(3)])
    qed
    have "vote_holds tok hexd cr de st h signer r \<longleftrightarrow> vote_snapshot_id cr ?sn = vr_vote_id r \<and> vs_height ?sn < h \<and>
       ?derived \<and> ?checked \<and> ?sorted \<and> ballot_commitment cr ?bs = vr_ballot_commitment r \<and> same \<and>
       (\<exists>s p. reconstruct tok hexd de st h = Ok s \<and> authorised_signer s Governance signer = Ok p)"
    proof -
      note found = source_found [OF state ws(2)]
      show ?thesis
      proof (cases "?derived \<and> vote_snapshot_id cr ?sn = vr_vote_id r")
        case d: True
        let ?E = "\<lambda>ev. evaluate rules (electorate_of ws) (ballots_of ?bs) = Ok ev"
        let ?A = "\<lambda>ev. accounts rules (electorate_of ws) (ballots_of ?bs) ev"
        let ?S = "\<lambda>ev. summary_of ev = (Ok (vr_evaluation r) :: (vote_error, evaluation_summary) result)"
        let ?I = "\<forall>i \<in> fst ` set ws. wf_voter_id i" and ?B = "\<forall>b \<in> set ?bs. ballot_holds cr ?ids ws (vote_snapshot_id cr ?sn) b"
        note b = counted(1) [OF conjunct1 [OF d]] and e = counted(2) [OF conjunct1 [OF d]] and a = counted(3) [OF conjunct1 [OF d]]
        have key: "(\<exists>ev. ?I \<and> ?B \<and> ?E ev \<and> ?A ev \<and> ?S ev) \<and> ?sorted \<longleftrightarrow> ?checked \<and> ?sorted \<and> same"
        proof (cases "?checked \<and> ?sorted")
          case c: True
          have "same \<longleftrightarrow> (\<exists>ev. ?I \<and> ?E ev \<and> ?S ev)" unfolding same(2) e [OF conjunct1 [OF c] conjunct2 [OF c]] by blast
          moreover have "?E ev \<Longrightarrow> ?A ev" for ev by (rule a [OF conjunct1 [OF c] conjunct2 [OF c]])
          moreover have ?B using b c by blast
          ultimately show ?thesis using c by blast
        qed (use b in blast)
        have sn: "?sn = vote_snapshot_of s (vs_height ?sn) ?channel ws (vs_subject ?sn) (vs_proposal_digest ?sn)"
          unfolding snapshot using d pinned(2) by blast
        have id: "vr_vote_id r = vote_snapshot_id cr ?sn" using d by simp
        show ?thesis
          unfolding vote_holds_def Let_def found id eqTrueI [OF sn] simp_thms eq_commute [of "vr_ballot_commitment r"]
          using key ws(1) label conjunct1 [OF d] by blast
      next
        case False
        then show ?thesis using snapshot [of ws] unfolding vote_holds_def Let_def found by auto
      qed
    qed
    then show thesis using same(1) by (intro that [OF channel ballots]) auto
  qed
qed

section \<open>The report of a record\<close>

definition wf_vote_snapshot :: "vote_snapshot \<Rightarrow> bool" where
  "wf_vote_snapshot s \<longleftrightarrow> is_string (vs_company s) \<and> is_string (vs_subject s) \<and> is_string (vs_channel s) \<and>
     fits_u32 (vs_electorate s) \<and> (\<forall>e \<in> set (vs_electorate s). is_string (ee_id e))"

definition wf_vote_record :: "vote_record \<Rightarrow> bool" where
  "wf_vote_record r \<longleftrightarrow> wf_vote_snapshot (vr_snapshot r) \<and> fits_u32 (vr_ballots r) \<and>
     (\<forall>b \<in> set (vr_ballots r). is_string (sb_voter b)) \<and> is_string (sm_reason (vr_evaluation r))"

abbreviation decodes_votes :: "(bytes \<Rightarrow> (vote_record \<times> bytes) option) \<Rightarrow> bool" where
  "decodes_votes dv \<equiv> reads_back enc_vote_record wf_vote_record dv"

lemma vote_checks_exact:
  assumes de: "decodes_blocks de" and rep: "represents cr bs st"
  obtains checks where "vote_checks tok hexd cr de st l r = Ok checks" "checks \<noteq> []"
    "list_all snd checks \<longleftrightarrow> vote_holds tok hexd cr de st (lt_height l) (t_signer (lt_transaction l)) r"
proof -
  let ?sn = "vr_snapshot r" and ?h = "lt_height l" and ?key = "t_signer (lt_transaction l)"
  let ?start = "[(VoteDecodes, True), (VoteIdDerives, vote_snapshot_id cr ?sn = vr_vote_id r),
    (VoteSnapshotPrecedesRecord, vs_height ?sn < ?h)]"
  note conclude = that
  have unresolved: thesis
    if "vote_checks tok hexd cr de st l r = Ok (?start @ [(VoteRecordsResolve, False)])" "\<not> vote_holds tok hexd cr de st ?h ?key r"
    by (rule conclude [OF that(1)]) (simp_all add: that(2))
  show thesis
  proof (cases "company_id_new (vs_company ?sn)")
    case Panic
    then show thesis by (simp add: company_id_new_def Let_def split: list.splits if_splits)
  next
    case (Err e)
    moreover have "\<not> wf_label (vs_company ?sn)" using Err company_id_new_label [of "vs_company ?sn"] by auto
    ultimately show thesis by (intro unresolved) (simp_all add: vote_checks_def Let_def vote_holds_def)
  next
    case (Ok company)
    then have label: "company = CompanyId (vs_company ?sn)" "wf_label (vs_company ?sn)" by (simp_all add: company_id_new_Ok_iff)
    show thesis
    proof (cases "reconstruct tok hexd de st (vs_height ?sn)")
      case Panic
      then show thesis using reconstruct_no_Panic [OF de rep] by blast
    next
      case (Err e)
      then show thesis using Ok by (intro unresolved) (simp_all add: vote_checks_def Let_def vote_holds_def)
    next
      case state: (Ok s)
      show thesis
      proof (cases "co_company s = CompanyId (vs_company ?sn) \<and>
          pins_hold s (vs_genesis_tx_id ?sn) (vs_shares_tx_id ?sn) (vs_channels_tx_id ?sn) (vs_identities_tx_id ?sn)")
        case False
        note no = vote_snapshot_unpinned [OF False]
        have "\<not> vote_holds tok hexd cr de st ?h ?key r" using no state by (auto simp: vote_holds_def Let_def)
        moreover have "vote_checks tok hexd cr de st l r = Ok (?start @ [(VoteRecordsResolve, False)])"
          using False Ok state by (auto simp: vote_checks_def Let_def label(1))
        ultimately show thesis by (intro unresolved)
      next
        case True
        let ?a = "\<exists>s p. reconstruct tok hexd de st ?h = Ok s \<and> authorised_signer s Governance ?key = Ok p"
        show thesis
        proof (rule vote_record_checks_exact [OF de rep state conjunct1 [OF True] conjunct2 [OF True] label(2)])
          fix channel rules ballots result
          assume c: "vote_channel_checks s ?sn = Ok (channel, rules)" "vote_ballot_checks cr r = Ok ballots"
            "vote_result_check rules r = Ok result"
            and holds: "vote_holds tok hexd cr de st ?h ?key r \<longleftrightarrow> vote_snapshot_id cr ?sn = vr_vote_id r \<and> vs_height ?sn < ?h \<and>
              list_all snd (channel @ ballots @ result) \<and> ?a"
          have "vote_checks tok hexd cr de st l r =
              Ok (?start @ [(VoteRecordsResolve, True), (VoteSignerAuthorised, ?a)] @ channel @ ballots @ result)"
            using Ok state True by (simp add: vote_checks_def Let_def label(1) c signer_authorised_at_eq [OF de rep])
          then show thesis by (rule that) (auto simp: holds)
        qed
      qed
    qed
  qed
qed

lemma vote_report_outcome:
  "vote_report tok hexd cr de dv st i l =
     rbind (report_outcome VOTE_NAMESPACE enc_vote_record (\<lambda>r. vr_version r = VOTE_RECORD_VERSION) dv
         (vote_checks tok hexd cr de st l) VoteDecodes (lt_transaction l)) (\<lambda>(found, checks).
       Ok \<lparr>vv_tx_id = i, vv_height = lt_height l, vv_record = found, vv_checks = checks\<rparr>)"
proof (cases "decode dv (t_payload (lt_transaction l))")
  case (Ok r)
  then show ?thesis
    by (cases "vote_checks tok hexd cr de st l r") (simp_all add: vote_report_def report_outcome_def Let_def)
qed (simp_all add: vote_report_def report_outcome_def Let_def)

lemma vote_report_exact:
  assumes de: "decodes_blocks de" and rep: "represents cr bs st" and dv: "decodes_votes dv"
  obtains v where "vote_report tok hexd cr de dv st i l = Ok v" "vv_height v = lt_height l"
    "vote_is_valid v \<longleftrightarrow> namespace_str (t_namespace (lt_transaction l)) = VOTE_NAMESPACE \<and>
      (\<exists>r. t_payload (lt_transaction l) = enc_vote_record r \<and> wf_vote_record r \<and> vr_version r = VOTE_RECORD_VERSION \<and>
         vv_record v = Some r \<and> vote_holds tok hexd cr de st (lt_height l) (t_signer (lt_transaction l)) r)"
    "\<And>r. namespace_str (t_namespace (lt_transaction l)) = VOTE_NAMESPACE \<Longrightarrow> t_payload (lt_transaction l) = enc_vote_record r \<Longrightarrow>
      wf_vote_record r \<Longrightarrow> vr_version r = VOTE_RECORD_VERSION \<Longrightarrow> vv_record v = Some r"
proof (rule report_outcome_exact [OF dv, where checks = "vote_checks tok hexd cr de st l" and ns = VOTE_NAMESPACE
      and current = "\<lambda>r. vr_version r = VOTE_RECORD_VERSION" and decodes = VoteDecodes and t = "lt_transaction l"
      and holds = "vote_holds tok hexd cr de st (lt_height l) (t_signer (lt_transaction l))"])
  fix r
  show "\<exists>cs. vote_checks tok hexd cr de st l r = Ok cs \<and> cs \<noteq> [] \<and>
      list_all snd cs = vote_holds tok hexd cr de st (lt_height l) (t_signer (lt_transaction l)) r"
    by (rule vote_checks_exact [OF de rep, of tok hexd l r]) blast
next
  fix found checks
  assume report: "report_outcome VOTE_NAMESPACE enc_vote_record (\<lambda>r. vr_version r = VOTE_RECORD_VERSION) dv
      (vote_checks tok hexd cr de st l) VoteDecodes (lt_transaction l) = Ok (found, checks)"
    and valid: "checks \<noteq> [] \<and> list_all snd checks \<longleftrightarrow> namespace_str (t_namespace (lt_transaction l)) = VOTE_NAMESPACE \<and>
      (\<exists>r. t_payload (lt_transaction l) = enc_vote_record r \<and> wf_vote_record r \<and> vr_version r = VOTE_RECORD_VERSION \<and>
         found = Some r \<and> vote_holds tok hexd cr de st (lt_height l) (t_signer (lt_transaction l)) r)"
    and got: "\<And>r. namespace_str (t_namespace (lt_transaction l)) = VOTE_NAMESPACE \<Longrightarrow> t_payload (lt_transaction l) = enc_vote_record r \<Longrightarrow>
      wf_vote_record r \<Longrightarrow> vr_version r = VOTE_RECORD_VERSION \<Longrightarrow> found = Some r"
  let ?v = "\<lparr>vv_tx_id = i, vv_height = lt_height l, vv_record = found, vv_checks = checks\<rparr>"
  have "vote_report tok hexd cr de dv st i l = Ok ?v" by (simp add: vote_report_outcome report)
  then show thesis
  proof (rule that)
    show "vote_is_valid ?v \<longleftrightarrow> namespace_str (t_namespace (lt_transaction l)) = VOTE_NAMESPACE \<and>
      (\<exists>r. t_payload (lt_transaction l) = enc_vote_record r \<and> wf_vote_record r \<and> vr_version r = VOTE_RECORD_VERSION \<and>
         vv_record ?v = Some r \<and> vote_holds tok hexd cr de st (lt_height l) (t_signer (lt_transaction l)) r)"
      using valid by (simp add: vote_is_valid_def)
  qed (use got in simp_all)
qed

text \<open>
  C35: A vote verifies exactly when it is one. On every store a program can hold, \<open>verify_vote\<close> answers for
  every transaction on the chain, without an error, and the report is valid if and only if the transaction
  is in the vote namespace and carries a record whose electorate is what the company of an earlier height
  gives for a channel that decides together, whose ballots are signed by distinct voters of it, in order
  and committed to, and whose stored result is what Bornite decides on them, in a transaction signed by
  a governance signer of the company at the record's height.
\<close>

theorem verify_vote_exact:
  assumes "decodes_blocks de" and "reachable cr de st" and "decodes_votes dv"
  shows "case get_transaction de st i of
      Ok None \<Rightarrow> verify_vote tok hexd cr de dv st i = Err (VoteNoSuchTransaction i)
    | Ok (Some l) \<Rightarrow> \<exists>v. verify_vote tok hexd cr de dv st i = Ok v \<and> vv_height v = lt_height l \<and>
        (vote_is_valid v \<longleftrightarrow> namespace_str (t_namespace (lt_transaction l)) = VOTE_NAMESPACE \<and>
          (\<exists>r. t_payload (lt_transaction l) = enc_vote_record r \<and> wf_vote_record r \<and> vr_version r = VOTE_RECORD_VERSION \<and>
             vv_record v = Some r \<and> vote_holds tok hexd cr de st (lt_height l) (t_signer (lt_transaction l)) r))
    | _ \<Rightarrow> False"
proof -
  obtain bs where bs: "represents cr bs st" by (rule reachable_represents [OF assms(2,1)])
  show ?thesis
  proof (rule get_transaction_cases [OF assms(1) bs, of i])
    assume "get_transaction de st i = Ok None"
    then show ?thesis by (simp add: verify_vote_def)
  next
    fix l
    assume l: "get_transaction de st i = Ok (Some l)"
    show ?thesis
      by (rule vote_report_exact [OF assms(1) bs assms(3), of tok hexd i l]) (auto simp: verify_vote_def l)
  qed
qed

section \<open>From a draft to a verified record\<close>

lemma kept_ballots:
  assumes "ballots_kept cr v" and "vt_snapshot v = Some sn"
  shows "sorted_wrt (<) (map sb_voter (map snd (vt_ballots v)))"
    "\<forall>b \<in> set (map snd (vt_ballots v)). ballot_check cr b sn = Ok (VoterId (sb_voter b))"
proof -
  have "map sb_voter (map snd (vt_ballots v)) = map fst (vt_ballots v)"
    using assms(1) by (auto simp: ballots_kept_def)
  then show "sorted_wrt (<) (map sb_voter (map snd (vt_ballots v)))" using assms(1) by (simp only: ballots_kept_def)
  show "\<forall>b \<in> set (map snd (vt_ballots v)). ballot_check cr b sn = Ok (VoterId (sb_voter b))"
    using assms by (auto simp: ballots_kept_def)
qed

text \<open>A record of checked ballots and their count is one that holds.\<close>

lemma counted_record_holds:
  assumes de: "decodes_blocks de" and rep: "represents cr bs st" and state: "reconstruct tok hexd de st at = Ok s"
    and rules: "decides_together s channel rules ws" and sn: "sn = vote_snapshot_of s at channel ws subject digest"
    and checked: "\<forall>b \<in> set bl. ballot_check cr b sn = Ok (VoterId (sb_voter b))" and sorted: "sorted_wrt (<) (map sb_voter bl)"
    and counted: "vote_count rules sn bl = Ok ev" "summary_of ev = (Ok sm :: (vote_error, evaluation_summary) result)"
    and "at < h" and "wf_label (vs_company sn)" and "wf_label (channel_id_str channel)"
    and signer: "reconstruct tok hexd de st h = Ok now" "authorised_signer now Governance key = Ok p"
  shows "vote_holds tok hexd cr de st h key (vote_record_assemble cr sn bl sm)"
proof -
  let ?r = "vote_record_assemble cr sn bl sm" and ?ids = "if_value (co_identities s)"
  note fair = decides_together_fair(1) [OF reconstruct_wf(1,2) [OF de rep state] rules]
  have es: "vs_electorate sn = map (entry_at ?ids) ws" by (simp add: sn vote_snapshot_of_def)
  have chan: "ChannelId (vs_channel sn) = channel" by (simp add: sn vote_snapshot_of_def)
  have self: "sn = vote_snapshot_of s (vs_height sn) (ChannelId (vs_channel sn)) ws (vs_subject sn) (vs_proposal_digest sn)"
    unfolding chan by (simp add: sn vote_snapshot_of_def)
  have holds: "\<forall>b \<in> set bl. ballot_holds cr ?ids ws (vote_snapshot_id cr sn) b"
    using checked ballot_check_snapshot [OF fair es] by blast
  then have "\<forall>b \<in> set bl. wf_voter_id (VoterId (sb_voter b))" by (simp add: ballot_holds_def)
  note count = vote_count_eq [OF fair es this sorted]
  have ev: "\<forall>i \<in> fst ` set ws. wf_voter_id i" "evaluate rules (electorate_of ws) (ballots_of bl) = Ok ev"
    using counted(1) unfolding count(2) by blast+
  have "accounts rules (electorate_of ws) (ballots_of bl) ev" by (rule evaluate_OkD(4) [OF ev(2) count(3)])
  note accounts = this
  have fields: "vr_snapshot ?r = sn" "vr_vote_id ?r = vote_snapshot_id cr sn" "vr_ballots ?r = bl"
    "vr_ballot_commitment ?r = ballot_commitment cr bl" "vr_evaluation ?r = sm" "vs_height sn = at"
    by (simp_all add: vote_record_assemble_def sn vote_snapshot_of_def)
  have label: "wf_label (vs_channel sn)" using assms(12) by (simp add: sn vote_snapshot_of_def)
  show ?thesis
    unfolding vote_holds_def Let_def fields chan
    by (intro conjI exI;
        rule refl state rules self [unfolded chan fields] ev holds accounts sorted counted(2) assms(10,11) label signer)
qed

text \<open>A past that was read at an earlier store reads the same now.\<close>

lemma frozen_state_kept:
  assumes "decodes_blocks de" and rep: "represents cr bs0 st0" and head: "store_head st0 = Ok head" "at \<le> head_height head"
    and later: "store_steps cr de st0 st1" "represents cr bs st1" and past: "reconstruct tok hexd de st0 at = Ok s"
  obtains "unat at < length bs" "reconstruct tok hexd de st1 at = Ok s"
proof -
  have at: "unat at < length bs0"
    using head head_height_represents [OF rep] head_block_represents(1) [OF assms(1) rep] by (cases bs0) (auto simp: word_le_nat_alt)
  obtain more where more: "represents cr (bs0 @ more) st1" by (rule store_steps_reachable_prefix [OF assms(1) rep later(1)])
  then have "bs = bs0 @ more" using represents_functional [OF assms(1)] later(2) by blast
  then show thesis using that at past reconstruct_extends [OF assms(1) rep more at] by simp
qed

lemma vote_report_valid:
  assumes "decodes_blocks de" and "represents cr bs st" and "decodes_votes dv"
    and "namespace_str (t_namespace (lt_transaction l)) = VOTE_NAMESPACE" and "t_payload (lt_transaction l) = enc_vote_record r"
    and "wf_vote_record r" and "vr_version r = VOTE_RECORD_VERSION"
    and "vote_holds tok hexd cr de st (lt_height l) (t_signer (lt_transaction l)) r"
  shows "\<exists>v. vote_report tok hexd cr de dv st i l = Ok v \<and> vote_is_valid v \<and> vv_record v = Some r \<and> vv_height v = lt_height l"
  by (rule vote_report_exact [OF assms(1-3), of tok hexd i l]) (use assms(4-8) in blast)

text \<open>What a vote that was finalised had gone through.\<close>

lemma polled_vote:
  assumes de: "decodes_blocks de" and st: "reachable cr de st"
    and "vote_freeze tok hexd de st at channel (vote_draft subject digest) = Ok v1" and "vote_open v1 = Ok v2"
    and "vote_close (foldl (vote_receive cr) v2 bl) = Ok v3" and "vote_evaluate tok hexd de st' v3 = Ok (v4, ev)"
  obtains s rules ws where "reconstruct tok hexd de st at = Ok s" "decides_together s channel rules ws"
    "vt_snapshot v4 = Some (vote_snapshot_of s at channel ws subject digest)" "ballots_kept cr v4" "vt_status v4 = VoteEvaluated"
proof -
  obtain bs where bs: "represents cr bs st" by (rule reachable_represents [OF st de])
  let ?v = "foldl (vote_receive cr) v2 bl"
  obtain s rules ws where s: "reconstruct tok hexd de st at = Ok s" "decides_together s channel rules ws"
    "vt_snapshot v1 = Some (vote_snapshot_of s at channel ws subject digest)"
    using assms(3) unfolding vote_freeze_Ok_iff [OF de bs] by (auto simp: vote_draft_def)
  have "vote_reaches tok hexd cr de ?v"
    by (rule vote_receive_reaches [OF vote_reaches.opened [OF vote_reaches.frozen [OF vote_reaches.drafted st assms(3)] assms(4)]])
  then have "ballots_kept cr ?v" using vote_reaches_inv [OF de] unfolding vote_inv_def by blast
  moreover have "vt_snapshot ?v = vt_snapshot v1" using assms(4) by (auto simp: vote_open_Ok_iff)
  moreover have "vt_snapshot v4 = vt_snapshot ?v" "vt_ballots v4 = vt_ballots ?v" "vt_status v4 = VoteEvaluated"
    using assms(5,6) by (auto simp: vote_close_Ok_iff vote_evaluate_Ok_iff)
  ultimately show thesis using that [OF s(1,2)] s(3) unfolding ballots_kept_def by simp
qed

text \<open>
  C36: A finalised vote verifies, for ever. A vote that is frozen at a height of the chain, opened, offered any
  ballots in any order, closed, evaluated after any further use of the chain and finalised after yet more of
  it, is reported valid by \<open>verify_vote\<close> on every later store, with the record that was finalised: amendments
  of the company after the freeze do not matter. (The record fits the layout, and the two labels in it
  are labels, as their types promise.)
\<close>

theorem vote_verifies:
  assumes "decodes_blocks de" and "decodes_votes dv" and "reachable cr de st0"
    and "store_head st0 = Ok head" and "at \<le> head_height head"
    and "vote_freeze tok hexd de st0 at channel (vote_draft subject digest) = Ok v1" and "vote_open v1 = Ok v2"
    and "vote_close (foldl (vote_receive cr) v2 offered) = Ok v3" and "vote_evaluate tok hexd de sta v3 = Ok (v4, ev)"
    and "store_steps cr de st0 st1" and "represents cr bs st1" and "length (chain_ids bs) + 1 < 2 ^ 64"
    and "vote_finalize tok hexd cr de io st1 seed ms v4 = (st2, Ok (v5, f))"
    and "wf_vote_record (fv_record f)" and "fits_u32 (enc_vote_record (fv_record f))"
    and "wf_label (vs_company (vr_snapshot (fv_record f)))" and "wf_label (channel_id_str channel)"
    and "store_steps cr de st2 st3"
  shows "\<exists>v. verify_vote tok hexd cr de dv st3 (fv_tx_id f) = Ok v \<and> vote_is_valid v \<and>
    vv_record v = Some (fv_record f) \<and> vv_height v = fv_height f \<and> vote_final_record cr v5 = Ok (fv_record f)"
proof -
  obtain bs0 where bs0: "represents cr bs0 st0" by (rule reachable_represents [OF assms(3,1)])
  obtain s rules ws where s: "reconstruct tok hexd de st0 at = Ok s" "decides_together s channel rules ws"
    "vt_snapshot v4 = Some (vote_snapshot_of s at channel ws subject digest)" "ballots_kept cr v4" "vt_status v4 = VoteEvaluated"
    by (rule polled_vote [OF assms(1,3,6-9)])
  let ?sn = "vote_snapshot_of s at channel ws subject digest" and ?bl = "map snd (vt_ballots v4)"
  from assms(13) obtain r id h where fin: "vote_ready tok hexd cr de st1 seed v4 = Ok r"
    "seal cr de io st1 seed VOTE_NAMESPACE VOTE_SCHEMA_VERSION (enc_vote_record r) ms = (st2, Ok (id, h))"
    "v5 = v4\<lparr>vt_finalized := Some (id, h), vt_status := VoteFinalized\<rparr>" "f = \<lparr>fv_tx_id = id, fv_height = h, fv_record = r\<rparr>"
    unfolding vote_finalize_Ok_iff by blast
  from fin(1) obtain ev' sm now p where r: "vote_evaluate_now tok hexd de st1 v4 = Ok ev'"
    "summary_of ev' = (Ok sm :: (vote_error, evaluation_summary) result)" "vt_evaluation v4 = Some sm"
    "company_now tok hexd de st1 = Ok now" "authorised_signer now Governance (ed_public cr seed) = Ok p"
    "r = vote_record_assemble cr ?sn ?bl sm"
    unfolding vote_ready_Ok_iff vote_final_record_Ok_iff by (auto simp: s(3))
  have fits: "fits_u32 (enc_vote_record r)" using assms(15) by (simp add: fin(4))
  obtain t new where t: "represents cr (bs @ sealed_block cr (last bs) t ms h # new) st3"
    "get_transaction de st3 id = Ok (Some \<lparr>lt_height = h, lt_index = 0, lt_transaction = t\<rparr>)"
    "t_namespace t = Namespace VOTE_NAMESPACE" "t_payload t = enc_vote_record r" "t_signer t = ed_public cr seed"
    "unat h = length bs" "\<And>at. unat at < length bs \<Longrightarrow> reconstruct tok hexd de st3 at = reconstruct tok hexd de st1 at"
    "\<And>s. company_now tok hexd de st1 = Ok s \<Longrightarrow> reconstruct tok hexd de st3 h = Ok (s\<lparr>co_at := h\<rparr>)"
    by (rule sealed_record [where tok = tok and hexd = hexd, OF assms(1,11,12) vote_namespace fits fin(2) assms(18)]) (rule that; assumption)
  obtain len: "unat at < length bs" and past: "reconstruct tok hexd de st1 at = Ok s"
    by (rule frozen_state_kept [OF assms(1) bs0 assms(4,5,10,11) s(1)])
  have state: "reconstruct tok hexd de st3 at = Ok s" using t(7) [OF len] past by simp
  have counted: "vote_count rules ?sn ?bl = Ok ev'"
  proof -
    obtain sn' s' rules' ws' where c: "vt_snapshot v4 = Some sn'" "reconstruct tok hexd de st1 (vs_height sn') = Ok s'"
      "decides_together s' (ChannelId (vs_channel sn')) rules' ws'" "vote_count rules' sn' ?bl = Ok ev'"
      using r(1) unfolding vote_evaluate_now_Ok_iff [OF assms(1,11)] by blast
    have "sn' = ?sn" using c(1) s(3) by simp
    then have "s' = s" "decides_together s' channel rules' ws'" using c(2,3) past by (simp_all add: vote_snapshot_of_def)
    then have "rules' = rules" using decides_together_unique s(2) by blast
    with c(4) \<open>sn' = ?sn\<close> show ?thesis by simp
  qed
  have "at < h" using len t(6) by (simp add: word_less_nat_alt)
  moreover have "vr_snapshot (fv_record f) = ?sn" by (simp add: fin(4) r(6) vote_record_assemble_def)
  ultimately have "vote_holds tok hexd cr de st3 h (t_signer t) r"
    unfolding r(6) using kept_ballots [OF s(4,3)] assms(16,17) t(5,8) r(4,5) counted
    by (intro counted_record_holds [OF assms(1) t(1) state s(2) refl _ _ counted r(2), where now = "now\<lparr>co_at := h\<rparr>" and p = p]) simp_all
  moreover have wf: "wf_vote_record r" "vr_version r = VOTE_RECORD_VERSION"
    using assms(14) by (simp_all add: fin(4) r(6) vote_record_assemble_def)
  moreover have "vote_final_record cr v5 = Ok r" by (simp add: vote_final_record_Ok_iff fin(3) s(3) r(3,6))
  ultimately show ?thesis
    using vote_report_valid [OF assms(1) t(1) assms(2), of "\<lparr>lt_height = h, lt_index = 0, lt_transaction = t\<rparr>" r tok hexd id]
    by (auto simp: verify_vote_def t(2,3,4) fin(4))
qed

section \<open>A decoder\<close>

definition dec_tag :: "(u8 \<Rightarrow> 'a option) \<Rightarrow> 'a decoder" where
  "dec_tag f b = (case b of [] \<Rightarrow> None | x # r \<Rightarrow> map_option (\<lambda>a. (a, r)) (f x))"

lemma reads_back_tag:
  assumes "\<And>a. f (g a) = Some a" and "\<And>x a. f x = Some a \<Longrightarrow> x = g a"
  shows "reads_back (\<lambda>a. [g a]) (\<lambda>_. True) (dec_tag f)"
proof (rule reads_backI)
  fix b a r
  assume "dec_tag f b = Some (a, r)"
  then show "True \<and> b = [g a] @ r" using assms(2) by (auto simp: dec_tag_def split: list.splits)
qed (simp add: dec_tag_def assms(1))

definition bool_of :: "u8 \<Rightarrow> bool option" where
  "bool_of x = (if x = 0 then Some False else if x = 1 then Some True else None)"

definition ballot_choice_of :: "u8 \<Rightarrow> ballot_choice option" where
  "ballot_choice_of x = (if x = 0 then Some BallotYes else if x = 1 then Some BallotNo else if x = 2 then Some BallotAbstain else None)"

definition stored_outcome_of :: "u8 \<Rightarrow> stored_outcome option" where
  "stored_outcome_of x = (if x = 0 then Some StoredAccepted else if x = 1 then Some StoredRejected else None)"

definition stored_comparison_of :: "u8 \<Rightarrow> stored_comparison option" where
  "stored_comparison_of x = (if x = 0 then Some StoredAbove else if x = 1 then Some StoredExactly else if x = 2 then Some StoredBelow else None)"

lemma reads_back_enums:
  "reads_back enc_bool (\<lambda>_. True) (dec_tag bool_of)"
  "reads_back enc_ballot_choice (\<lambda>_. True) (dec_tag ballot_choice_of)"
  "reads_back (\<lambda>c. [case c of StoredAccepted \<Rightarrow> 0 | StoredRejected \<Rightarrow> 1]) (\<lambda>_. True) (dec_tag stored_outcome_of)"
  "reads_back (\<lambda>c. [case c of StoredAbove \<Rightarrow> 0 | StoredExactly \<Rightarrow> 1 | StoredBelow \<Rightarrow> 2]) (\<lambda>_. True) (dec_tag stored_comparison_of)"
  unfolding enc_bool_def [abs_def] enc_ballot_choice_def [abs_def]
  by (rule reads_back_tag; auto simp: bool_of_def ballot_choice_of_def stored_outcome_of_def stored_comparison_of_def
      split: ballot_choice.splits stored_outcome.splits stored_comparison.splits if_splits)+

definition dec_opt :: "'a decoder \<Rightarrow> 'a option decoder" where
  "dec_opt d b = (case dec_tag bool_of b of None \<Rightarrow> None | Some (some, r) \<Rightarrow> if some then dec_map Some d r else Some (None, r))"

lemma reads_back_opt:
  assumes "reads_back e ok d"
  shows "reads_back (enc_option e) (\<lambda>v. \<forall>a. v = Some a \<longrightarrow> ok a) (dec_opt d)"
proof (rule reads_backI)
  fix b v r
  assume "dec_opt d b = Some (v, r)"
  then obtain some q where q: "dec_tag bool_of b = Some (some, q)" "(if some then dec_map Some d q else Some (None, q)) = Some (v, r)"
    by (auto simp: dec_opt_def split: option.splits)
  have "b = enc_bool some @ q" using reads_back_enums(1) q(1) unfolding reads_back_def by blast
  then show "(\<forall>a. v = Some a \<longrightarrow> ok a) \<and> b = enc_option e v @ r"
    using q(2) assms unfolding reads_back_def by (auto simp: enc_option_def enc_bool_def dec_map_def split: if_splits)
next
  fix v r
  assume "\<forall>a. v = Some a \<longrightarrow> ok a"
  then show "dec_opt d (enc_option e v @ r) = Some (v, r)"
    using assms by (cases v) (simp_all add: reads_back_def enc_option_def dec_opt_def dec_tag_def bool_of_def dec_map_def)
qed

definition dec_electorate_entry :: "electorate_entry decoder" where
  "dec_electorate_entry = dec_map (\<lambda>(i, w, x, k). \<lparr>ee_id = i, ee_weight = w, ee_excluded = x, ee_key = k\<rparr>)
     (dec_pair dec_string (dec_pair (dec_le 8) (dec_pair (dec_tag bool_of) (dec_opt (dec_array 32)))))"

lemma reads_back_electorate_entry: "reads_back enc_electorate_entry (\<lambda>e. is_string (ee_id e)) dec_electorate_entry"
  unfolding dec_electorate_entry_def
  by (rule reads_back_cong [OF reads_back_map [where g = "\<lambda>e. (ee_id e, ee_weight e, ee_excluded e, ee_key e)",
          OF reads_back_pair [OF reads_back_string reads_back_pair [OF reads_back_u64
            reads_back_pair [OF reads_back_enums(1) reads_back_opt [OF reads_back_array]]]]]])
    (auto simp: enc_electorate_entry_def)

definition dec_vote_snapshot :: "vote_snapshot decoder" where
  "dec_vote_snapshot = dec_map
     (\<lambda>(c, s, p, h, g, sh, ch, i, cn, es). \<lparr>vs_company = c, vs_subject = s, vs_proposal_digest = p, vs_height = h,
        vs_genesis_tx_id = g, vs_shares_tx_id = sh, vs_channels_tx_id = ch, vs_identities_tx_id = i, vs_channel = cn,
        vs_electorate = es\<rparr>)
     (dec_pair dec_string (dec_pair dec_string (dec_pair (dec_array 32) (dec_pair (dec_le 8) (dec_pair (dec_array 32)
       (dec_pair (dec_array 32) (dec_pair (dec_array 32) (dec_pair (dec_array 32) (dec_pair dec_string
       (dec_vec dec_electorate_entry))))))))))"

lemma reads_back_vote_snapshot: "reads_back enc_vote_snapshot wf_vote_snapshot dec_vote_snapshot"
  unfolding dec_vote_snapshot_def
  by (rule reads_back_cong [OF reads_back_map [where g = "\<lambda>s. (vs_company s, vs_subject s, vs_proposal_digest s, vs_height s,
            vs_genesis_tx_id s, vs_shares_tx_id s, vs_channels_tx_id s, vs_identities_tx_id s, vs_channel s, vs_electorate s)",
          OF reads_back_pair [OF reads_back_string reads_back_pair [OF reads_back_string
            reads_back_pair [OF reads_back_array reads_back_pair [OF reads_back_u64 reads_back_pair [OF reads_back_array
            reads_back_pair [OF reads_back_array reads_back_pair [OF reads_back_array reads_back_pair [OF reads_back_array
            reads_back_pair [OF reads_back_string reads_back_vec [OF reads_back_electorate_entry]]]]]]]]]]]])
    (auto simp: enc_vote_snapshot_def wf_vote_snapshot_def)

definition dec_signed_ballot :: "signed_ballot decoder" where
  "dec_signed_ballot = dec_map
     (\<lambda>(i, v, c, s). \<lparr>sb_body = \<lparr>bb_vote_id = i, bb_voter = v, bb_choice = c\<rparr>, sb_signature = s\<rparr>)
     (dec_pair (dec_array 32) (dec_pair dec_string (dec_pair (dec_tag ballot_choice_of) (dec_array 64))))"

lemma reads_back_signed_ballot: "reads_back enc_signed_ballot (\<lambda>b. is_string (sb_voter b)) dec_signed_ballot"
  unfolding dec_signed_ballot_def
  by (rule reads_back_cong [OF reads_back_map [where g = "\<lambda>b. (bb_vote_id (sb_body b), sb_voter b, bb_choice (sb_body b), sb_signature b)",
          OF reads_back_pair [OF reads_back_array reads_back_pair [OF reads_back_string
            reads_back_pair [OF reads_back_enums(2) reads_back_array]]]]])
    (auto simp: enc_signed_ballot_def enc_ballot_body_def)

text \<open>The summary in three parts: the outcome and the electorate, the votes, the quorum and the threshold.\<close>

definition dec_summary :: "evaluation_summary decoder" where
  "dec_summary = dec_map
     (\<lambda>((oc, re, vc, xc, fc, tw, fw, bc), (pw, nc, nw, yw, ow, aw, yc, oc', ac), (rq, qa, qm, dw, tn, td, af, ty, cmp, tm)).
        \<lparr>sm_outcome = oc, sm_reason = re, sm_voter_count = vc, sm_excluded_count = xc, sm_effective_voter_count = fc,
         sm_total_weight = tw, sm_effective_weight = fw, sm_ballot_count = bc, sm_participation_weight = pw,
         sm_non_participant_count = nc, sm_non_participant_weight = nw, sm_yes_weight = yw, sm_no_weight = ow,
         sm_abstain_weight = aw, sm_yes_count = yc, sm_no_count = oc', sm_abstain_count = ac, sm_quorum_required_weight = rq,
         sm_quorum_actual_weight = qa, sm_quorum_met = qm, sm_threshold_denominator_weight = dw, sm_threshold_numerator = tn,
         sm_threshold_denominator = td, sm_abstentions_affected_denominator = af, sm_threshold_yes_weight = ty,
         sm_comparison = cmp, sm_threshold_met = tm\<rparr>)
     (dec_pair
       (dec_pair (dec_tag stored_outcome_of) (dec_pair dec_string (dec_pair (dec_le 8) (dec_pair (dec_le 8) (dec_pair (dec_le 8)
         (dec_pair (dec_le 8) (dec_pair (dec_le 8) (dec_le 8))))))))
       (dec_pair
         (dec_pair (dec_le 8) (dec_pair (dec_le 8) (dec_pair (dec_le 8) (dec_pair (dec_le 8) (dec_pair (dec_le 8)
           (dec_pair (dec_le 8) (dec_pair (dec_le 8) (dec_pair (dec_le 8) (dec_le 8)))))))))
         (dec_pair (dec_opt (dec_le 8)) (dec_pair (dec_le 8) (dec_pair (dec_tag bool_of) (dec_pair (dec_le 8)
           (dec_pair (dec_le 8) (dec_pair (dec_le 8) (dec_pair (dec_tag bool_of) (dec_pair (dec_le 8)
           (dec_pair (dec_tag stored_comparison_of) (dec_tag bool_of))))))))))))"

lemmas reads_back_counts = reads_back_pair [OF reads_back_u64 reads_back_pair [OF reads_back_u64 reads_back_u64]]

lemma reads_back_summary: "reads_back enc_summary (\<lambda>s. is_string (sm_reason s)) dec_summary"
  unfolding dec_summary_def
  by (rule reads_back_cong [OF reads_back_map [where g = "\<lambda>s.
          ((sm_outcome s, sm_reason s, sm_voter_count s, sm_excluded_count s, sm_effective_voter_count s, sm_total_weight s,
            sm_effective_weight s, sm_ballot_count s),
           (sm_participation_weight s, sm_non_participant_count s, sm_non_participant_weight s, sm_yes_weight s, sm_no_weight s,
            sm_abstain_weight s, sm_yes_count s, sm_no_count s, sm_abstain_count s),
           (sm_quorum_required_weight s, sm_quorum_actual_weight s, sm_quorum_met s, sm_threshold_denominator_weight s,
            sm_threshold_numerator s, sm_threshold_denominator s, sm_abstentions_affected_denominator s, sm_threshold_yes_weight s,
            sm_comparison s, sm_threshold_met s))",
          OF reads_back_pair [OF
            reads_back_pair [OF reads_back_enums(3) reads_back_pair [OF reads_back_string reads_back_pair [OF reads_back_u64
              reads_back_pair [OF reads_back_u64 reads_back_pair [OF reads_back_u64 reads_back_counts]]]]]
            reads_back_pair [OF
              reads_back_pair [OF reads_back_u64 reads_back_pair [OF reads_back_u64 reads_back_pair [OF reads_back_u64
                reads_back_pair [OF reads_back_u64 reads_back_pair [OF reads_back_u64 reads_back_pair [OF reads_back_u64
                reads_back_counts]]]]]]
              reads_back_pair [OF reads_back_opt [OF reads_back_u64] reads_back_pair [OF reads_back_u64
                reads_back_pair [OF reads_back_enums(1) reads_back_pair [OF reads_back_u64 reads_back_pair [OF reads_back_u64
                reads_back_pair [OF reads_back_u64 reads_back_pair [OF reads_back_enums(1) reads_back_pair [OF reads_back_u64
                reads_back_pair [OF reads_back_enums(4) reads_back_enums(1)]]]]]]]]]]]]])
    (auto simp: enc_summary_def)

definition dec_vote_record :: "vote_record decoder" where
  "dec_vote_record = dec_map
     (\<lambda>(v, i, s, c, bs, ev). \<lparr>vr_version = v, vr_vote_id = i, vr_snapshot = s, vr_ballot_commitment = c, vr_ballots = bs,
        vr_evaluation = ev\<rparr>)
     (dec_pair (dec_le 2) (dec_pair (dec_array 32) (dec_pair dec_vote_snapshot (dec_pair (dec_array 32)
       (dec_pair (dec_vec dec_signed_ballot) dec_summary)))))"

lemma reads_back_vote_record: "decodes_votes dec_vote_record"
  unfolding dec_vote_record_def
  by (rule reads_back_cong [OF reads_back_map [where g = "\<lambda>r. (vr_version r, vr_vote_id r, vr_snapshot r, vr_ballot_commitment r,
            vr_ballots r, vr_evaluation r)",
          OF reads_back_pair [OF reads_back_u16 reads_back_pair [OF reads_back_array
            reads_back_pair [OF reads_back_vote_snapshot reads_back_pair [OF reads_back_array
            reads_back_pair [OF reads_back_vec [OF reads_back_signed_ballot] reads_back_summary]]]]]]])
    (auto simp: enc_vote_record_def wf_vote_record_def)

section \<open>A vote of the sample company\<close>

text \<open>The members vote on the lease of the board's decision: ann, with 100 of the 150 shares, says yes; bob holds no key.\<close>

definition sample_members :: "(voter_id \<times> u64) list" where
  "sample_members = [(VoterId ''ann'', 100), (VoterId ''bob'', 50)]"

definition sample_members_rules :: voting_rules where
  "sample_members_rules = \<lparr>weight_rule = ElectorateWeight, exclusions_enabled = True,
     quorum = QuorumFraction \<lparr>numerator = 1, denominator = 2\<rparr> QB_TotalElectorate,
     threshold = SimpleMajority TB_VotesCast, abstentions = AbstentionsExclude, tie = TieReject\<rparr>"

definition sample_electors :: vote_snapshot where
  "sample_electors =
     \<lparr>vs_company = ''acme'', vs_subject = ''lease'', vs_proposal_digest = 7, vs_height = 0, vs_genesis_tx_id = sample_founding_id,
      vs_shares_tx_id = sample_founding_id, vs_channels_tx_id = sample_founding_id, vs_identities_tx_id = sample_founding_id,
      vs_channel = ''members'', vs_electorate =
        [\<lparr>ee_id = ''ann'', ee_weight = 100, ee_excluded = False, ee_key = Some 16\<rparr>,
         \<lparr>ee_id = ''bob'', ee_weight = 50, ee_excluded = False, ee_key = None\<rparr>]\<rparr>"

definition sample_ballot :: signed_ballot where
  "sample_ballot = ballot_sign sample_ledger_crypto 5 (vote_snapshot_id sample_ledger_crypto sample_electors) (VoterId ''ann'') BallotYes"

definition sample_summary :: evaluation_summary where
  "sample_summary =
     \<lparr>sm_outcome = StoredAccepted, sm_reason = ''threshold_met'', sm_voter_count = 2, sm_excluded_count = 0,
      sm_effective_voter_count = 2, sm_total_weight = 150, sm_effective_weight = 150, sm_ballot_count = 1,
      sm_participation_weight = 100, sm_non_participant_count = 1, sm_non_participant_weight = 50, sm_yes_weight = 100,
      sm_no_weight = 0, sm_abstain_weight = 0, sm_yes_count = 1, sm_no_count = 0, sm_abstain_count = 0,
      sm_quorum_required_weight = Some 75, sm_quorum_actual_weight = 100, sm_quorum_met = True,
      sm_threshold_denominator_weight = 100, sm_threshold_numerator = 1, sm_threshold_denominator = 2,
      sm_abstentions_affected_denominator = True, sm_threshold_yes_weight = 100, sm_comparison = StoredAbove,
      sm_threshold_met = True\<rparr>"

lemma sample_together: "decides_together sample_state (ChannelId ''members'') sample_members_rules sample_members"
proof -
  have "case channels_get (cg_channels sample_company) (ChannelId ''members'') of
      Some c \<Rightarrow> ch_mode c = Collective sample_members_rules \<and> source_weights (ch_actors c) (cg_shares sample_company) = sample_members
    | None \<Rightarrow> False" by code_simp
  then show ?thesis by (auto simp: decides_together_def sample_state_parts split: option.splits)
qed

lemma sample_electors: "vote_snapshot_of sample_state 0 (ChannelId ''members'') sample_members ''lease'' 7 = sample_electors"
proof -
  have "map (entry_at (cg_identities sample_company)) sample_members = vs_electorate sample_electors" by code_simp
  then show ?thesis
    by (simp add: vote_snapshot_of_def sample_state_parts sample_state_facts sample_genesis_state) (simp add: sample_electors_def)
qed

lemma sample_ballot_check: "ballot_check sample_ledger_crypto sample_ballot sample_electors = Ok (VoterId ''ann'')"
proof -
  have "snapshot_entry sample_electors (VoterId ''ann'') = Some \<lparr>ee_id = ''ann'', ee_weight = 100, ee_excluded = False, ee_key = Some 16\<rparr>"
    "wf_voter_id (VoterId ''ann'')" by code_simp+
  then show ?thesis
    by (simp add: ballot_check_Ok_iff sample_ballot_def ballot_sign_def Let_def verify_signature_def sample_ledger_crypto_def)
qed

text \<open>What Bornite decides on the one ballot.\<close>

definition sample_evaluation :: vote_evaluation where
  "sample_evaluation =
     \<lparr>ev_version = 1, ev_rules = sample_members_rules,
      ev_electorate = \<lparr>es_voter_count = 2, es_excluded_count = 0, es_effective_voter_count = 2, es_total_weight = 150,
        es_effective_weight = 150\<rparr>,
      ev_participation = \<lparr>p_ballot_count = 1, p_weight = 100, p_non_participant_count = 1, p_non_participant_weight = 50\<rparr>,
      ev_tally = \<lparr>yes_weight = 100, no_weight = 0, abstain_weight = 0, yes_count = 1, no_count = 0, abstain_count = 0\<rparr>,
      ev_quorum = \<lparr>q_requirement = RequireFraction \<lparr>numerator = 1, denominator = 2\<rparr> QB_TotalElectorate 150,
        q_actual_weight = 100, q_met = True\<rparr>,
      ev_threshold = \<lparr>t_basis = TB_VotesCast, t_denominator_weight = 100, t_required_fraction = \<lparr>numerator = 1, denominator = 2\<rparr>,
        t_abstentions_affected_denominator = True, t_yes_weight = 100, t_comparison = comparison.Above, t_met = True\<rparr>,
      ev_outcome = Accepted, ev_reason = ThresholdMet\<rparr>"

lemma sample_evaluated:
  "evaluate sample_members_rules (electorate_of sample_members) (BallotSet [\<lparr>b_voter = VoterId ''ann'', b_choice = Yes\<rparr>])
    = Ok sample_evaluation"
proof -
  have "electorate_get (Electorate (voters (electorate_of sample_members))) (VoterId ''ann'')
      = Some \<lparr>v_id = VoterId ''ann'', v_weight = 100, v_excluded = False\<rparr>" by code_simp
  then show ?thesis
    by (simp add: evaluate_def validate_def validation_issues_def fraction_issues_def voter_issues_def quorum_issues_def is_proportion_def
      sample_members_rules_def electorate_of_def sample_members_def weight_of_def is_effective_def eval_sum_def weight_sum_def
      total_checked_add_def checked_add_def count_items_def try_from_nat_def check_ballots_def ballot_issue_of_def participating_def ballot_weight_def eval_add_def psub_def padd_def checked_sub_def total_checked_sub_def
      requirement_of_def quorum_met_def compare_share_def checked_mul_def cmp_def tally_ballots_def tally_step_def empty_tally_def
      denominator_weight_def threshold_basis_of_def threshold_fraction_def Bornite_Eval.comparison_of_def threshold_met_def decide_def
      HALF_def abstentions_affect_denominator_def sample_evaluation_def Let_def)
qed

lemma sample_summarised: "summary_of sample_evaluation = (Ok sample_summary :: (vote_error, evaluation_summary) result)"
proof -
  have "required_share \<lparr>numerator = 1, denominator = 2\<rparr> 150 = (Ok 75 :: (vote_error, u64) result)" by code_simp
  then show ?thesis
    by (simp add: summary_of_def sample_evaluation_def sample_summary_def quorum_required_weight_def reason_code_as_str_def)
qed

lemma sample_counted: "vote_count sample_members_rules sample_electors [sample_ballot] = Ok sample_evaluation"
proof -
  have "snapshot_electorate sample_electors = Ok (electorate_of sample_members)" by code_simp
  moreover have "wf_voter_id (VoterId ''ann'')" by code_simp
  then have "bornite_ballots [sample_ballot] = Ok (BallotSet [\<lparr>b_voter = VoterId ''ann'', b_choice = Yes\<rparr>])"
    using bornite_ballots_Ok(1) [of "[sample_ballot]"]
    by (simp add: ballots_of_def sample_ballot_def ballot_sign_def Let_def to_bornite_def)
  ultimately show ?thesis by (simp add: vote_count_def sample_evaluated)
qed

abbreviation sample_vote :: vote where
  "sample_vote \<equiv> vote_draft ''lease'' 7"

abbreviation sample_record :: vote_record where
  "sample_record \<equiv> vote_record_assemble sample_ledger_crypto sample_electors [sample_ballot] sample_summary"

lemma sample_record_length: "length (enc_vote_record sample_record) = 631"
  by (simp add: vote_record_assemble_def enc_vote_record_def enc_vote_snapshot_def sample_electors_def enc_string_def enc_bytes_def
      enc_u16_def enc_u32_def enc_u64_def str_bytes_def enc_vec_def enc_electorate_entry_def enc_bool_def enc_option_def
      enc_signed_ballot_def enc_ballot_body_def enc_ballot_choice_def sample_ballot_def ballot_sign_def Let_def enc_summary_def
      sample_summary_def)

lemma sample_record_wf: "wf_vote_record sample_record" "wf_label (vs_company sample_electors)" "wf_label (channel_id_str (ChannelId ''members''))"
  "fits_u32 (enc_vote_record sample_record)"
proof -
  have "wf_vote_snapshot sample_electors" "is_string (sm_reason sample_summary)" "is_string ''ann''"
    unfolding wf_vote_snapshot_def fits_u32_def by code_simp+
  then show "wf_vote_record sample_record"
    by (simp add: wf_vote_record_def vote_record_assemble_def fits_u32_def sample_ballot_def ballot_sign_def Let_def)
  show "wf_label (vs_company sample_electors)" "wf_label (channel_id_str (ChannelId ''members''))"
    unfolding wf_label_def by code_simp+
  show "fits_u32 (enc_vote_record sample_record)" by (simp add: fits_u32_def sample_record_length)
qed

text \<open>The vote, frozen, opened, voted in, closed, evaluated and finalised on the chain the company is founded on.\<close>

lemma sample_vote_run:
  obtains st b v1 v2 v3 v4 st' v5 f where "reachable sample_ledger_crypto dec_block st" "represents sample_ledger_crypto [b] st"
    "store_head st = Ok (head_of sample_ledger_crypto [b])" "length (chain_ids [b]) + 1 < 2 ^ 64"
    "vote_freeze sample_company_tok sample_hexd dec_block st 0 (ChannelId ''members'') sample_vote = Ok v1" "vote_open v1 = Ok v2"
    "acceptable sample_ledger_crypto v2 sample_ballot"
    "vote_close (foldl (vote_receive sample_ledger_crypto) v2 [sample_ballot]) = Ok v3"
    "vote_evaluate sample_company_tok sample_hexd dec_block st v3 = Ok (v4, sample_evaluation)"
    "vote_finalize sample_company_tok sample_hexd sample_ledger_crypto dec_block True st 5 10 v4 = (st', Ok (v5, f))"
    "fv_record f = sample_record"
proof -
  obtain st b where st: "reachable sample_ledger_crypto dec_block st" "represents sample_ledger_crypto [b] st"
    "b_transactions b = [sample_founding_tx]" "h_timestamp_millis (b_header b) = 0"
    "company_now sample_company_tok sample_hexd dec_block st = Ok sample_state"
    by (rule sample_company_chain)
  let ?cr = sample_ledger_crypto
  note now = sample_company_at_founding(1) [OF st(2,5)] and head = sample_company_at_founding(3) [OF st(2,5)]
  let ?v1 = "sample_vote\<lparr>vt_company := ''acme'', vt_snapshot := Some sample_electors, vt_status := VoteFrozen\<rparr>"
  let ?v2 = "?v1\<lparr>vt_status := VoteOpen\<rparr>"
  let ?v = "?v2\<lparr>vt_ballots := [(''ann'', sample_ballot)]\<rparr>"
  let ?v3 = "?v\<lparr>vt_status := VoteClosed\<rparr>"
  let ?v4 = "?v3\<lparr>vt_evaluation := Some sample_summary, vt_status := VoteEvaluated\<rparr>"
  have company: "company_id_str (co_company sample_state) = ''acme''" by (simp add: sample_genesis_state)
  have freeze: "vote_freeze sample_company_tok sample_hexd dec_block st 0 (ChannelId ''members'') sample_vote = Ok ?v1"
    unfolding vote_freeze_Ok_iff [OF reads_back_block st(2)] using now sample_together sample_electors [symmetric] company
    by (simp add: vote_draft_def) blast
  have voter: "sb_voter sample_ballot = ''ann''" by (simp add: sample_ballot_def ballot_sign_def Let_def)
  have accept: "acceptable ?cr ?v2 sample_ballot"
    by (simp add: acceptable_def voter sample_ballot_check vote_draft_def)
  then have received: "foldl (vote_receive ?cr) ?v2 [sample_ballot] = ?v"
    by (simp add: vote_receive_eq voter vote_draft_def)
  let ?ev = sample_evaluation
  note ev = sample_counted sample_summarised
  have again: "vote_evaluate_now sample_company_tok sample_hexd dec_block st v = Ok ?ev"
    if "vt_snapshot v = Some sample_electors" "vt_ballots v = [(''ann'', sample_ballot)]" for v
    unfolding vote_evaluate_now_Ok_iff [OF reads_back_block st(2)]
    using that now company sample_together ev(1) sample_record_wf(3)
    by (intro exI [of _ sample_electors] exI [of _ sample_state]) (auto simp: sample_electors_def sample_state_parts)
  have evaluated: "vote_evaluate sample_company_tok sample_hexd dec_block st ?v3 = Ok (?v4, ?ev)"
    unfolding vote_evaluate_Ok_iff using again [of ?v3] ev(2) by simp
  obtain p where "authorised_signer sample_state Governance (ed_public ?cr 5) = Ok p" by (rule sample_governance)
  then have ready: "vote_ready sample_company_tok sample_hexd ?cr dec_block st 5 ?v4 = Ok sample_record"
    unfolding vote_ready_Ok_iff vote_final_record_Ok_iff using again [of ?v4] ev(2) st(5) by auto
  have "t_id (sealed_tx ?cr 5 VOTE_NAMESPACE VOTE_SCHEMA_VERSION (enc_vote_record sample_record) 1) \<noteq> t_id sample_founding_tx"
    by (simp add: sample_ledger_id sample_record_length VOTE_NAMESPACE_def sample_founding_tx_id sample_founding_id_def)
  with seal_accepts [OF reads_back_block st(2) _ vote_namespace(1) sample_record_wf(4) sample_ledger_signatures, of 10 5 VOTE_SCHEMA_VERSION]
  obtain st' i h where seal: "seal ?cr dec_block True st 5 VOTE_NAMESPACE VOTE_SCHEMA_VERSION (enc_vote_record sample_record) 10
      = (st', Ok (i, h))"
    using st(3,4) by auto
  have "vote_finalize sample_company_tok sample_hexd ?cr dec_block True st 5 10 ?v4
      = (st', Ok (?v4\<lparr>vt_finalized := Some (i, h), vt_status := VoteFinalized\<rparr>, \<lparr>fv_tx_id = i, fv_height = h, fv_record = sample_record\<rparr>))"
    unfolding vote_finalize_Ok_iff using ready seal by blast
  then show thesis
    using that [OF st(1,2) head _ freeze _ accept, of ?v3] received evaluated st(3)
    by (simp add: vote_open_Ok_iff vote_close_Ok_iff)
qed

lemma sample_vote_wf: "wf_rules sample_members_rules" "wf_vote (electorate_of sample_members) (BallotSet [\<lparr>b_voter = VoterId ''ann'', b_choice = Yes\<rparr>])"
proof -
  show "wf_rules sample_members_rules" by (simp add: wf_rules_def sample_members_rules_def wf_fraction_def threshold_fraction_def HALF_def)
  show "wf_vote (electorate_of sample_members) (BallotSet [\<lparr>b_voter = VoterId ''ann'', b_choice = Yes\<rparr>])"
    by (auto simp: wf_vote_def wf_electorate_def wf_ballot_set_def electorate_of_def sample_members_def less_voter_id_def)
qed

theorem stored_result_exact_witness:
  "summary_of sample_evaluation = (Ok sample_summary :: (vote_error, evaluation_summary) result) \<and>
   75 = (LEAST n. total_nat sample_members_rules (electorate_of sample_members) \<le> n * 2) \<and>
   length (cast_for Yes (BallotSet [\<lparr>b_voter = VoterId ''ann'', b_choice = Yes\<rparr>])) = 1 \<and>
   verdict_reason sample_members_rules (electorate_of sample_members) (BallotSet [\<lparr>b_voter = VoterId ''ann'', b_choice = Yes\<rparr>])
     = ''threshold_met'' \<and>
   quorum_reached sample_members_rules (electorate_of sample_members) (BallotSet [\<lparr>b_voter = VoterId ''ann'', b_choice = Yes\<rparr>]) \<and>
   share_reached sample_members_rules (electorate_of sample_members) (BallotSet [\<lparr>b_voter = VoterId ''ann'', b_choice = Yes\<rparr>])"
proof -
  have rule: "quorum sample_members_rules = QuorumFraction \<lparr>numerator = 1, denominator = 2\<rparr> QB_TotalElectorate"
    by (simp add: sample_members_rules_def)
  note exact = stored_result_exact [OF sample_vote_wf sample_evaluated]
  have summary: "sm_reason sample_summary = ''threshold_met''" "sm_quorum_required_weight sample_summary = Some 75"
    "unat (sm_yes_count sample_summary) = 1" "summary_accepted sample_summary"
    by (simp_all add: summary_accepted_def sample_summary_def)
  show ?thesis
    using exact summary unfolding sample_summarised rule by auto
qed

theorem vote_machine_witness:
  "\<exists>st st' v v' f. reachable sample_ledger_crypto dec_block st \<and> vt_status v = VoteEvaluated \<and>
     vote_inv sample_ledger_crypto v \<and> vt_ballots v \<noteq> [] \<and>
     vote_finalize sample_company_tok sample_hexd sample_ledger_crypto dec_block True st 5 10 v = (st', Ok (v', f)) \<and>
     reachable sample_ledger_crypto dec_block st'"
proof -
  obtain st b v1 v2 v3 v4 st' v5 f where run: "reachable sample_ledger_crypto dec_block st" "represents sample_ledger_crypto [b] st"
    "vote_freeze sample_company_tok sample_hexd dec_block st 0 (ChannelId ''members'') sample_vote = Ok v1" "vote_open v1 = Ok v2"
    "acceptable sample_ledger_crypto v2 sample_ballot" "vote_close (foldl (vote_receive sample_ledger_crypto) v2 [sample_ballot]) = Ok v3"
    "vote_evaluate sample_company_tok sample_hexd dec_block st v3 = Ok (v4, sample_evaluation)"
    "vote_finalize sample_company_tok sample_hexd sample_ledger_crypto dec_block True st 5 10 v4 = (st', Ok (v5, f))"
    "fv_record f = sample_record" "length (chain_ids [b]) + 1 < 2 ^ 64"
    by (rule sample_vote_run)
  have v2: "vote_reaches sample_company_tok sample_hexd sample_ledger_crypto dec_block v2"
    by (rule vote_reaches.opened [OF vote_reaches.frozen [OF vote_reaches.drafted run(1,3)] run(4)])
  have "vote_reaches sample_company_tok sample_hexd sample_ledger_crypto dec_block v4"
    by (rule vote_reaches.evaluated [OF vote_reaches.closed [OF vote_receive_reaches [OF v2] run(6)] run(1,7)])
  note machine = vote_machine [OF reads_back_block this]
  have "fits_u32 (enc_vote_record r)"
    if "vote_ready sample_company_tok sample_hexd sample_ledger_crypto dec_block st 5 v4 = Ok r" for r
    using that run(8,9) sample_record_wf(4) by (auto simp: vote_finalize_Ok_iff)
  then have "writes_one sample_ledger_crypto dec_block [b] st
      (vote_finalize sample_company_tok sample_hexd sample_ledger_crypto dec_block True st 5 10 v4)"
    using machine [THEN conjunct2, THEN conjunct2, THEN conjunct2, THEN conjunct2, THEN conjunct2, THEN conjunct2, THEN conjunct2,
        THEN conjunct2, THEN conjunct2, THEN conjunct2, THEN conjunct2, THEN conjunct2, THEN conjunct2, rule_format, of st "[b]" 5 True 10]
      run(1,2,10) by simp
  then have "reachable sample_ledger_crypto dec_block st'" unfolding run(8) by (rule writes_one_OkE)
  moreover have "vt_ballots v4 = vt_ballots (vote_receive sample_ledger_crypto v2 sample_ballot)" "vt_status v4 = VoteEvaluated"
    using run(6,7) by (auto simp: vote_close_Ok_iff vote_evaluate_Ok_iff)
  moreover have "vt_ballots (vote_receive sample_ledger_crypto v2 sample_ballot) \<noteq> []"
    using run(5) btree_insert_set [of "sb_voter sample_ballot" sample_ballot "vt_ballots v2"] by (auto simp: vote_receive_eq)
  ultimately show ?thesis using conjunct1 [OF machine] run(1,8) by metis
qed

text \<open>Bob offers a ballot too, which is refused: he holds no key.\<close>

definition sample_other_ballot :: signed_ballot where
  "sample_other_ballot = ballot_sign sample_ledger_crypto 6 (vote_snapshot_id sample_ledger_crypto sample_electors) (VoterId ''bob'') BallotNo"

theorem arrival_order_irrelevant_witness:
  "\<exists>v. acceptable sample_ledger_crypto v sample_ballot \<and>
     foldl (vote_receive sample_ledger_crypto) v [sample_ballot, sample_other_ballot]
       = foldl (vote_receive sample_ledger_crypto) v [sample_other_ballot, sample_ballot]"
proof -
  obtain st b v1 v2 where run: "reachable sample_ledger_crypto dec_block st"
    "vote_freeze sample_company_tok sample_hexd dec_block st 0 (ChannelId ''members'') sample_vote = Ok v1" "vote_open v1 = Ok v2"
    "acceptable sample_ledger_crypto v2 sample_ballot"
    by (rule sample_vote_run)
  have v2: "vote_reaches sample_company_tok sample_hexd sample_ledger_crypto dec_block v2"
    by (rule vote_reaches.opened [OF vote_reaches.frozen [OF vote_reaches.drafted run(1,2)] run(3)])
  have "sb_voter sample_ballot = ''ann''" "sb_voter sample_other_ballot = ''bob''"
    by (simp_all add: sample_ballot_def sample_other_ballot_def ballot_sign_def Let_def)
  then show ?thesis
    using arrival_order_irrelevant [OF reads_back_block v2, of "[sample_ballot, sample_other_ballot]" "[sample_other_ballot, sample_ballot]"]
      run(4)
    by (intro exI [of _ v2]) simp
qed

theorem verify_vote_exact_witness:
  "\<exists>st v. reachable sample_ledger_crypto dec_block st \<and>
     verify_vote sample_company_tok sample_hexd sample_ledger_crypto dec_block dec_vote_record st sample_founding_id = Ok v \<and>
     \<not> vote_is_valid v"
proof -
  obtain st b where st: "reachable sample_ledger_crypto dec_block st" "represents sample_ledger_crypto [b] st"
    "b_transactions b = [sample_founding_tx]"
    by (rule sample_company_chain)
  have "get_transaction dec_block st sample_founding_id = Ok (Some \<lparr>lt_height = h_height (b_header b), lt_index = 0, lt_transaction = sample_founding_tx\<rparr>)"
    using get_transaction_represents [OF reads_back_block st(2), of 0 0]
    by (simp add: st(3) sample_founding_tx_id index_u32_def try_from_nat_def)
  moreover have "namespace_str (t_namespace sample_founding_tx) \<noteq> VOTE_NAMESPACE"
    by (simp add: sample_founding_tx_def sealed_tx_def sign_transaction_def into_transaction_def Let_def kind_namespace_def VOTE_NAMESPACE_def)
  ultimately show ?thesis
    using verify_vote_exact [OF reads_back_block st(1) reads_back_vote_record, of sample_company_tok sample_hexd sample_founding_id] st(1)
    by auto
qed

theorem vote_verifies_witness:
  "\<exists>st v1 v2 v3 v4 st' v5 f r. reachable sample_ledger_crypto dec_block st \<and>
     vote_freeze sample_company_tok sample_hexd dec_block st 0 (ChannelId ''members'') sample_vote = Ok v1 \<and> vote_open v1 = Ok v2 \<and>
     vote_close (foldl (vote_receive sample_ledger_crypto) v2 [sample_ballot]) = Ok v3 \<and>
     vote_evaluate sample_company_tok sample_hexd dec_block st v3 = Ok (v4, sample_evaluation) \<and>
     vote_finalize sample_company_tok sample_hexd sample_ledger_crypto dec_block True st 5 10 v4 = (st', Ok (v5, f)) \<and>
     verify_vote sample_company_tok sample_hexd sample_ledger_crypto dec_block dec_vote_record st' (fv_tx_id f) = Ok r \<and> vote_is_valid r"
proof -
  obtain st b v1 v2 v3 v4 st' v5 f where run: "reachable sample_ledger_crypto dec_block st" "represents sample_ledger_crypto [b] st"
    "store_head st = Ok (head_of sample_ledger_crypto [b])" "length (chain_ids [b]) + 1 < 2 ^ 64"
    "vote_freeze sample_company_tok sample_hexd dec_block st 0 (ChannelId ''members'') sample_vote = Ok v1" "vote_open v1 = Ok v2"
    "vote_close (foldl (vote_receive sample_ledger_crypto) v2 [sample_ballot]) = Ok v3"
    "vote_evaluate sample_company_tok sample_hexd dec_block st v3 = Ok (v4, sample_evaluation)"
    "vote_finalize sample_company_tok sample_hexd sample_ledger_crypto dec_block True st 5 10 v4 = (st', Ok (v5, f))"
    "fv_record f = sample_record"
    by (rule sample_vote_run)
  have snapshot: "vr_snapshot (fv_record f) = sample_electors" by (simp add: run(10) vote_record_assemble_def)
  note fits = sample_record_wf(1,4) [folded run(10)]
  from vote_verifies [OF reads_back_block reads_back_vote_record run(1,3) _ run(5-8) store_steps.no_step run(2,4,9) fits,
      unfolded snapshot, OF _ sample_record_wf(2,3) store_steps.no_step]
  show ?thesis using run(1,5-9) by auto
qed

end
