(* ===== verification/Irena_Meeting.thy ===== *)
theory Irena_Meeting
  imports Irena_Vote_Verify
begin

text \<open>
  Meetings and their records (\<open>meeting.rs\<close>, \<open>record.rs\<close> and \<open>error.rs\<close> of \<open>irena-meeting\<close>): agendas and
  particulars with what makes them sound, the reader of a meeting record over the events of quick-xml, and
  the two writers, which read back what they write before they hand it on. The lemmas show that the reader
  only moves forward, never panics and returns sound records (\<open>read_meeting_record_valid\<close>), and what the
  writers return (\<open>compose_convened_valid\<close>, \<open>compose_final_valid\<close>).
\<close>

section \<open>Meetings and agendas\<close>

type_synonym meeting_id = tx_id

datatype meeting_status = MeetingDraft | MeetingConvened | MeetingOpen | MeetingClosed | MeetingFinalized

text \<open>The texts of \<open>InvalidAgenda\<close> and \<open>Chain\<close> are kept as what they are rendered from.\<close>

datatype agenda_fault =
    AgendaChannel irena_error
  | AgendaTitle
  | AgendaSchedule irena_error
  | AgendaEmpty
  | AgendaTooLong
  | AgendaMisnumbered u32 u32
  | AgendaUntitled u32
  | ItemUntitled

datatype meeting_chain = NoBlockAtHead chain_head | NotReadBack

datatype meeting_error =
    MeetingInvalidTransition meeting_status string
  | InvalidAgenda agenda_fault
  | NoSuchItem u32
  | NotAVoteItem u32
  | MeetingVote u32 vote_error
  | MeetingLedger ledger_error
  | MeetingRecord irena_error
  | MeetingStore store_error
  | MeetingCore prunella_error
  | MeetingNoSuchTransaction tx_id
  | NotAMeetingRecord tx_id block_height string
  | MeetingChain meeting_chain

record meeting_metadata =
  mm_channel :: string
  mm_title :: string
  mm_scheduled_at :: string
  mm_notice_digest :: "hash option"

definition metadata_channel :: "meeting_metadata \<Rightarrow> (meeting_error, channel_id) result" where
  "metadata_channel m = rmap_err (\<lambda>e. InvalidAgenda (AgendaChannel e)) (channel_id_new (mm_channel m))"

definition metadata_validate :: "meeting_metadata \<Rightarrow> (meeting_error, unit) result" where
  "metadata_validate m =
     rbind (metadata_channel m) (\<lambda>_.
     if trims_to_empty (mm_title m) then Err (InvalidAgenda AgendaTitle)
     else rbind (rmap_err (\<lambda>e. InvalidAgenda (AgendaSchedule e)) (notary_time_parse (mm_scheduled_at m))) (\<lambda>_. Ok ()))"

datatype agenda_body = Informational hash | VoteItem hash

definition agenda_kind :: "agenda_body \<Rightarrow> string" where
  "agenda_kind b = (case b of Informational _ \<Rightarrow> ''informational'' | VoteItem _ \<Rightarrow> ''vote'')"

definition agenda_digest :: "agenda_body \<Rightarrow> hash" where
  "agenda_digest b = (case b of Informational d \<Rightarrow> d | VoteItem d \<Rightarrow> d)"

definition is_vote :: "agenda_body \<Rightarrow> bool" where
  "is_vote b = (case b of Informational _ \<Rightarrow> False | VoteItem _ \<Rightarrow> True)"

record agenda_item =
  ai_number :: u32
  ai_title :: string
  ai_body :: agenda_body

datatype agenda = Agenda (agenda_items: "agenda_item list")

text \<open>The loop of \<open>AgendaV1::new\<close>, from an index.\<close>

fun check_items :: "nat \<Rightarrow> agenda_item list \<Rightarrow> (meeting_error, unit) result" where
  "check_items index [] = Ok ()"
| "check_items index (i # r) =
     rbind (ok_or (InvalidAgenda AgendaTooLong) (try_from_nat (index + 1))) (\<lambda>expected.
     if ai_number i \<noteq> expected then Err (InvalidAgenda (AgendaMisnumbered expected (ai_number i)))
     else if trims_to_empty (ai_title i) then Err (InvalidAgenda (AgendaUntitled expected))
     else check_items (index + 1) r)"

definition agenda_new :: "agenda_item list \<Rightarrow> (meeting_error, agenda) result" where
  "agenda_new items =
     (if items = [] then Err (InvalidAgenda AgendaEmpty)
      else rbind (check_items 0 items) (\<lambda>_. Ok (Agenda items)))"

definition agenda_item_at :: "agenda \<Rightarrow> u32 \<Rightarrow> agenda_item option" where
  "agenda_item_at a number =
     (if number = 0 \<or> length (agenda_items a) < unat number then None else Some (agenda_items a ! (unat number - 1)))"

definition vote_items :: "agenda \<Rightarrow> agenda_item list" where
  "vote_items a = filter (\<lambda>i. is_vote (ai_body i)) (agenda_items a)"

section \<open>The two records\<close>

definition MEETING_NAMESPACE :: string where "MEETING_NAMESPACE = ''irena.meeting.v1''"
definition MEETING_SCHEMA_VERSION :: u32 where "MEETING_SCHEMA_VERSION = 1"
definition MEETING_VERSION :: string where "MEETING_VERSION = ''1.0''"
definition MEETING_MAX_BYTES :: u64 where "MEETING_MAX_BYTES = 16 * 1024 * 1024"

record final_item =
  fi_item :: agenda_item
  fi_vote_tx_id :: "tx_id option"
  fi_outcome :: "string option"

record meeting_final =
  mf_meeting_id :: meeting_id
  mf_metadata :: meeting_metadata
  mf_opened_at :: block_height
  mf_items :: "final_item list"

definition final_agenda :: "meeting_final \<Rightarrow> (meeting_error, agenda) result" where
  "final_agenda f = agenda_new (map fi_item (mf_items f))"

datatype meeting_body = Convened meeting_metadata agenda | Concluded meeting_final

definition meeting_kind :: "meeting_body \<Rightarrow> string" where
  "meeting_kind b = (case b of Convened _ _ \<Rightarrow> ''convened'' | Concluded _ \<Rightarrow> ''final'')"

record meeting_record =
  mr_company :: company_id
  mr_notarisation :: notarisation
  mr_body :: meeting_body

section \<open>Reading a record\<close>

abbreviation meeting_of_xml :: "xml_error \<Rightarrow> meeting_error" where
  "meeting_of_xml e \<equiv> MeetingRecord (irena_of_xml e)"

abbreviation meeting_malformed :: "u64 \<Rightarrow> string \<Rightarrow> meeting_error" where
  "meeting_malformed pos detail \<equiv> MeetingRecord (malformed_at pos detail)"

abbreviation meeting_invalid :: "irena_issue list \<Rightarrow> meeting_error" where
  "meeting_invalid issues \<equiv> MeetingRecord (irena_invalid issues)"

abbreviation unused :: "string \<Rightarrow> string \<Rightarrow> string \<Rightarrow> irena_issue" where
  "unused element attribute reason \<equiv> IssueXml (XmlUnusedAttribute element attribute reason)"

text \<open>The issues of a constructor, under the attribute the value came from.\<close>

definition relabelled :: "string \<Rightarrow> string \<Rightarrow> irena_issue list \<Rightarrow> irena_issue list" where
  "relabelled element attribute issues =
     map (\<lambda>i. case i of InvalidValue _ _ v r \<Rightarrow> InvalidValue element attribute v r | _ \<Rightarrow> i) issues"

definition relabel_errors :: "string \<Rightarrow> string \<Rightarrow> (irena_error, 'a) result option \<Rightarrow> irena_issue list \<Rightarrow> irena_issue list" where
  "relabel_errors element attribute x issues =
     (case x of Some (Err e) \<Rightarrow> issues @ relabelled element attribute (error_issues e) | _ \<Rightarrow> issues)"

definition parse_u32 :: "string \<Rightarrow> u32 option" where
  "parse_u32 text = Option.bind (parse_u64 text) (\<lambda>n. try_from_nat (unat n))"

definition tx_attr :: "(string \<Rightarrow> bytes option) \<Rightarrow> string \<Rightarrow> string \<Rightarrow> string \<Rightarrow> (irena_error, tx_id) result" where
  "tx_attr hexd element attribute text =
     rmap_err (\<lambda>e. irena_invalid [InvalidValue element attribute text (BecauseLedger e)]) (tx_id_from_hex hexd text)"

text \<open>The digest of an item: present, and hexadecimal.\<close>

definition item_digest :: "(string \<Rightarrow> bytes option) \<Rightarrow> string \<Rightarrow> string option \<Rightarrow> irena_issue list \<Rightarrow> hash option \<times> irena_issue list" where
  "item_digest hexd name text issues =
     (case text of
        Some t \<Rightarrow> collect (hash_attr hexd ''item'' name t) issues
      | None \<Rightarrow> (None, issues @ [MissingAttribute ''item'' name]))"

definition item_body ::
    "(string \<Rightarrow> bytes option) \<Rightarrow> string option \<Rightarrow> string option \<Rightarrow> string option \<Rightarrow> string option \<Rightarrow> string option
      \<Rightarrow> irena_issue list \<Rightarrow> agenda_body option \<times> irena_issue list" where
  "item_body hexd kind document proposal vote_tx outcome issues =
     (case kind of
        None \<Rightarrow> (None, issues)
      | Some k \<Rightarrow>
          if k = ''informational'' then
            (let issues = issues @ (if proposal \<noteq> None then [unused ''item'' ''proposal-digest'' ''the item is informational''] else []);
                 issues = issues @ (if vote_tx \<noteq> None \<or> outcome \<noteq> None then [unused ''item'' ''vote-tx'' ''the item is informational''] else [])
             in map_prod (map_option Informational) id (item_digest hexd ''document-digest'' document issues))
          else if k = ''vote'' then
            (let issues = issues @ (if document \<noteq> None then [unused ''item'' ''document-digest'' ''the item is a vote''] else [])
             in map_prod (map_option VoteItem) id (item_digest hexd ''proposal-digest'' proposal issues))
          else (None, issues @ [InvalidValue ''item'' ''kind'' k (Because ''expected informational or vote'')]))"

text \<open>What only a vote item of a final record has: needed there, refused in a convening.\<close>

definition vote_attr ::
    "string \<Rightarrow> (string \<Rightarrow> (irena_error, 'a) result) \<Rightarrow> bool \<Rightarrow> bool \<Rightarrow> string option \<Rightarrow> irena_issue list
      \<Rightarrow> 'a option \<times> irena_issue list" where
  "vote_attr name read is_final vote text issues =
     (case (is_final \<and> vote, text) of
        (True, Some t) \<Rightarrow> collect (read t) issues
      | (True, None) \<Rightarrow> (None, issues @ [MissingAttribute ''item'' name])
      | (False, Some _) \<Rightarrow> (None, if vote then issues @ [unused ''item'' name ''the record is a convening''] else issues)
      | (False, None) \<Rightarrow> (None, issues))"

text \<open>An item from its attributes: none where one could not be read, which has left an issue.\<close>

definition item_entry ::
    "(string \<Rightarrow> bytes option) \<Rightarrow> bool \<Rightarrow> string option \<Rightarrow> string option \<Rightarrow> string option \<Rightarrow> string option \<Rightarrow> string option
      \<Rightarrow> string option \<Rightarrow> string option \<Rightarrow> irena_issue list \<Rightarrow> final_item option \<times> irena_issue list" where
  "item_entry hexd is_final number kind title document proposal vote_tx outcome issues =
     (let (number, issues) = opt_then number (\<lambda>n. collect
            (or_invalid ''item'' ''number'' n (Because ''must be a decimal integer'') (parse_u32 n))) issues;
          (body, issues) = item_body hexd kind document proposal vote_tx outcome issues;
          vote = (case body of Some b \<Rightarrow> is_vote b | None \<Rightarrow> False);
          (tx, issues) = vote_attr ''vote-tx'' (tx_attr hexd ''item'' ''vote-tx'') is_final vote vote_tx issues;
          (said, issues) = vote_attr ''outcome'' Ok is_final vote outcome issues
      in (case (number, title, body) of
            (Some n, Some t, Some b) \<Rightarrow>
              Some \<lparr>fi_item = \<lparr>ai_number = n, ai_title = t, ai_body = b\<rparr>, fi_vote_tx_id = tx, fi_outcome = said\<rparr>
          | _ \<Rightarrow> None, issues))"

definition read_item ::
    "(string \<Rightarrow> bytes option) \<Rightarrow> bool \<Rightarrow> xml_tag \<Rightarrow> bool \<Rightarrow> final_item list \<times> irena_issue list
      \<Rightarrow> (meeting_error, final_item list \<times> irena_issue list) parser" where
  "read_item hexd is_final t is_empty s = with_position (\<lambda>pos.
     if tag_name t \<noteq> ''item''
     then pfail (meeting_malformed pos (''<agenda> has an unknown child <'' @ tag_name t @ ''>''))
     else
       pbind (plift (rmap_err MeetingRecord (irena_attributes pos ''item'' t))) (\<lambda>a.
       let (number, a, issues) = irena_require ''number'' a (snd s);
           (kind, a, issues) = irena_require ''kind'' a issues;
           (title, a, issues) = irena_require ''title'' a issues;
           (document, a) = attr_take ''document-digest'' a;
           (proposal, a) = attr_take ''proposal-digest'' a;
           (vote_tx, a) = attr_take ''vote-tx'' a;
           (outcome, a) = attr_take ''outcome'' a
       in pbind (plift (rmap_err MeetingRecord (irena_finish pos a))) (\<lambda>_.
       pbind (pmap_err MeetingRecord (end_of_leaf ''item'' is_empty ())) (\<lambda>_.
       let (entry, issues) = item_entry hexd is_final number kind title document proposal vote_tx outcome issues
       in preturn (fst s @ (case entry of Some e \<Rightarrow> [e] | None \<Rightarrow> []), issues)))))"

definition agenda_child ::
    "(string \<Rightarrow> bytes option) \<Rightarrow> bool \<Rightarrow> xml_tag \<Rightarrow> bool \<Rightarrow> final_item list option \<times> irena_issue list
      \<Rightarrow> (meeting_error, final_item list option \<times> irena_issue list) parser" where
  "agenda_child hexd is_final t is_empty s = with_position (\<lambda>pos.
     if tag_name t \<noteq> ''agenda''
     then pfail (meeting_malformed pos (''<meeting> has an unknown child <'' @ tag_name t @ ''>''))
     else
       let issues = snd s @ (if fst s \<noteq> None then [RepeatedElement ''meeting'' ''agenda''] else []) in
       pbind (plift (rmap_err MeetingRecord (rbind (irena_attributes pos ''agenda'' t) (irena_finish pos)))) (\<lambda>_.
       pbind (if is_empty then preturn ([], issues) else children meeting_of_xml ''agenda'' (read_item hexd is_final) ([], issues))
         (\<lambda>(items, issues). preturn (Some items, issues))))"

text \<open>The attributes of \<open><meeting>\<close>: what they give, and the issues.\<close>

record meeting_fields =
  fd_channel :: "string option"
  fd_title :: "string option"
  fd_scheduled :: "string option"
  fd_notice :: "hash option"
  fd_opened :: "block_height option"

text \<open>\<open>opened-at-height\<close> is needed in a final record and refused in a convening.\<close>

definition opened_attr :: "bool \<Rightarrow> string option \<Rightarrow> irena_issue list \<Rightarrow> string option \<times> irena_issue list" where
  "opened_attr is_final opened issues =
     (case (is_final, opened) of
        (True, Some text) \<Rightarrow> (Some text, issues)
      | (True, None) \<Rightarrow> (None, issues @ [MissingAttribute ''meeting'' ''opened-at-height''])
      | (False, Some _) \<Rightarrow> (None, issues @ [unused ''meeting'' ''opened-at-height'' ''the record is a convening''])
      | (False, None) \<Rightarrow> (None, issues))"

definition field_values ::
    "(string \<Rightarrow> bytes option) \<Rightarrow> string option \<Rightarrow> string option \<Rightarrow> string option \<Rightarrow> string option \<Rightarrow> string option
      \<Rightarrow> irena_issue list \<Rightarrow> meeting_fields \<times> irena_issue list" where
  "field_values hexd channel title scheduled notice opened issues =
     (let (notice, issues) = opt_then notice (\<lambda>n. collect (hash_attr hexd ''meeting'' ''notice-digest'' n)) issues;
          issues = relabel_errors ''meeting'' ''scheduled-at'' (map_option notary_time_parse scheduled) issues;
          issues = nonblank ''meeting'' ''title'' title issues;
          issues = relabel_errors ''meeting'' ''channel'' (map_option channel_id_new channel) issues;
          (opened, issues) = opt_then opened (\<lambda>h. collect
            (or_invalid ''meeting'' ''opened-at-height'' h (Because ''must be a decimal block height'') (parse_u64 h))) issues
      in (\<lparr>fd_channel = channel, fd_title = title, fd_scheduled = scheduled, fd_notice = notice, fd_opened = opened\<rparr>, issues))"

definition meeting_attributes ::
    "(string \<Rightarrow> bytes option) \<Rightarrow> u64 \<Rightarrow> bool \<Rightarrow> xml_tag \<Rightarrow> (meeting_error, meeting_fields \<times> irena_issue list) result" where
  "meeting_attributes hexd pos is_final t =
     rbind (rmap_err MeetingRecord (irena_attributes pos ''meeting'' t)) (\<lambda>a.
     let (channel, a, issues) = irena_require ''channel'' a [];
         (title, a, issues) = irena_require ''title'' a issues;
         (scheduled, a, issues) = irena_require ''scheduled-at'' a issues;
         (notice, a) = attr_take ''notice-digest'' a;
         (opened, a) = attr_take ''opened-at-height'' a;
         (opened, issues) = opened_attr is_final opened issues
     in rbind (rmap_err MeetingRecord (irena_finish pos a)) (\<lambda>_.
     Ok (field_values hexd channel title scheduled notice opened issues)))"

definition finish_meeting ::
    "meeting_fields \<Rightarrow> final_item list option \<times> irena_issue list
      \<Rightarrow> (meeting_error, meeting_metadata \<times> block_height option \<times> final_item list) result" where
  "finish_meeting f s =
     (let issues = snd s @ (if fst s = None then [MissingElement ''meeting'' ''agenda''] else []) in
      if issues \<noteq> [] then Err (meeting_invalid issues)
      else rbind (rexpect (fd_channel f)) (\<lambda>channel. rbind (rexpect (fd_title f)) (\<lambda>title.
        rbind (rexpect (fd_scheduled f)) (\<lambda>scheduled.
        Ok (\<lparr>mm_channel = channel, mm_title = title, mm_scheduled_at = scheduled, mm_notice_digest = fd_notice f\<rparr>,
            fd_opened f, case fst s of Some items \<Rightarrow> items | None \<Rightarrow> [])))))"

definition read_meeting ::
    "(string \<Rightarrow> bytes option) \<Rightarrow> bool \<Rightarrow> xml_tag
      \<Rightarrow> (meeting_error, meeting_metadata \<times> block_height option \<times> final_item list) parser" where
  "read_meeting hexd is_final t = with_position (\<lambda>pos.
     pbind (plift (meeting_attributes hexd pos is_final t)) (\<lambda>(f, issues).
     pbind (children meeting_of_xml ''meeting'' (agenda_child hexd is_final) (None, issues)) (\<lambda>s.
     plift (finish_meeting f s))))"

definition meeting_child ::
    "(string \<Rightarrow> bytes option) \<Rightarrow> bool \<Rightarrow> xml_tag \<Rightarrow> bool
      \<Rightarrow> notarisation option \<times> (meeting_metadata \<times> block_height option \<times> final_item list) option
      \<Rightarrow> (meeting_error, notarisation option \<times> (meeting_metadata \<times> block_height option \<times> final_item list) option) parser" where
  "meeting_child hexd is_final t is_empty s = with_position (\<lambda>pos.
     if tag_name t = ''notarisation'' then
       (if fst s \<noteq> None \<or> snd s \<noteq> None
        then pfail (meeting_malformed pos ''notarisation must appear once, before the meeting element'')
        else pbind (plift (rmap_err MeetingRecord (read_notarisation hexd pos t))) (\<lambda>n.
          pmap_err MeetingRecord (end_of_leaf ''notarisation'' is_empty (Some n, snd s))))
     else if tag_name t = ''meeting'' then
       (if snd s \<noteq> None then pfail (meeting_malformed pos ''a record carries one meeting element'')
        else if is_empty then pfail (meeting_malformed pos ''<meeting> must hold an agenda'')
        else pbind (read_meeting hexd is_final t) (\<lambda>b. preturn (fst s, Some b)))
     else pfail (meeting_malformed pos (''<irena-meeting> has an unknown child <'' @ tag_name t @ ''>'')))"

definition meeting_id_attr ::
    "(string \<Rightarrow> bytes option) \<Rightarrow> u64 \<Rightarrow> bool \<Rightarrow> string option \<Rightarrow> (meeting_error, meeting_id option) result" where
  "meeting_id_attr hexd pos is_final meeting =
     (case (is_final, meeting) of
        (True, Some text) \<Rightarrow> rbind (rmap_err MeetingRecord (tx_attr hexd ''irena-meeting'' ''meeting'' text)) (\<lambda>i. Ok (Some i))
      | (True, None) \<Rightarrow> Err (meeting_invalid [MissingAttribute ''irena-meeting'' ''meeting''])
      | (False, Some _) \<Rightarrow> Err (meeting_malformed pos ''a convened record does not name a meeting; it is one'')
      | (False, None) \<Rightarrow> Ok None)"

definition meeting_envelope ::
    "(string \<Rightarrow> bytes option) \<Rightarrow> u64 \<Rightarrow> xml_tag \<Rightarrow> (meeting_error, bool \<times> company_id \<times> meeting_id option) result" where
  "meeting_envelope hexd pos t =
     rbind (rmap_err MeetingRecord (irena_attributes pos ''irena-meeting'' t)) (\<lambda>a.
     let (version, a, issues) = irena_require ''version'' a [];
         (kind, a, issues) = irena_require ''kind'' a issues;
         (company, a, issues) = irena_require ''company'' a issues;
         (meeting, a) = attr_take ''meeting'' a
     in rbind (rmap_err MeetingRecord (irena_finish pos a)) (\<lambda>_.
     if issues \<noteq> [] then Err (meeting_invalid issues)
     else rbind (rexpect version) (\<lambda>version.
     if version \<noteq> MEETING_VERSION then Err (MeetingRecord (UnsupportedVersion version))
     else rbind (rexpect kind) (\<lambda>kind.
     rbind (if kind = ''convened'' then Ok False else if kind = ''final'' then Ok True
            else Err (MeetingRecord (IrenaMalformed pos (FaultDebug ''unknown meeting record kind '' kind
              ''; expected convened or final'')))) (\<lambda>is_final.
     rbind (rexpect company) (\<lambda>company. rbind (rmap_err MeetingRecord (company_id_new company)) (\<lambda>company.
     rbind (meeting_id_attr hexd pos is_final meeting) (\<lambda>meeting.
     Ok (is_final, company, meeting)))))))))"

definition finish_meeting_record ::
    "bool \<times> company_id \<times> meeting_id option
      \<Rightarrow> notarisation option \<times> (meeting_metadata \<times> block_height option \<times> final_item list) option
      \<Rightarrow> (meeting_error, meeting_record) result" where
  "finish_meeting_record envelope s =
     (case envelope of (is_final, company, meeting) \<Rightarrow>
        rbind (ok_or (meeting_invalid [MissingElement ''irena-meeting'' ''notarisation'']) (fst s)) (\<lambda>n.
        rbind (ok_or (meeting_invalid [MissingElement ''irena-meeting'' ''meeting'']) (snd s)) (\<lambda>(metadata, opened, items).
        rbind (if is_final
               then rbind (rexpect meeting) (\<lambda>m. rbind (rexpect opened) (\<lambda>h.
                 Ok (Concluded \<lparr>mf_meeting_id = m, mf_metadata = metadata, mf_opened_at = h, mf_items = items\<rparr>)))
               else rbind (agenda_new (map fi_item items)) (\<lambda>a. Ok (Convened metadata a))) (\<lambda>body.
        Ok \<lparr>mr_company = company, mr_notarisation = n, mr_body = body\<rparr>))))"

definition meeting_parser :: "(string \<Rightarrow> bytes option) \<Rightarrow> (meeting_error, meeting_record) parser" where
  "meeting_parser hexd =
     pbind (pmap_err meeting_of_xml (root_start ''irena-meeting'')) (\<lambda>start. with_position (\<lambda>pos.
     pbind (plift (meeting_envelope hexd pos start)) (\<lambda>envelope.
     pbind (children meeting_of_xml ''irena-meeting'' (meeting_child hexd (fst envelope)) (None, None)) (\<lambda>s.
     pbind (pmap_err meeting_of_xml expect_eof) (\<lambda>_.
     plift (finish_meeting_record envelope s))))))"

definition read_meeting_record ::
    "(string \<Rightarrow> xml_reader) \<Rightarrow> (string \<Rightarrow> bytes option) \<Rightarrow> string \<Rightarrow> (meeting_error, meeting_record) result" where
  "read_meeting_record tok hexd xml =
     rbind (rmap_err MeetingRecord (irena_size xml MEETING_MAX_BYTES)) (\<lambda>_. fst (meeting_parser hexd (tok xml)))"

section \<open>Composing a record\<close>

definition metadata_attributes :: "meeting_metadata \<Rightarrow> string" where
  "metadata_attributes m =
     attr_text ''channel'' (escape_attribute (mm_channel m)) @ attr_text ''title'' (escape_attribute (mm_title m)) @
     attr_text ''scheduled-at'' (mm_scheduled_at m) @
     opt_text (\<lambda>d. attr_text ''notice-digest'' (to_hex 32 d)) (mm_notice_digest m)"

definition item_text :: "final_item \<Rightarrow> string" where
  "item_text f =
     (let i = fi_item f in
      ''      <item'' @ attr_text ''number'' (decimal (unat (ai_number i))) @ attr_text ''kind'' (agenda_kind (ai_body i)) @
      attr_text ''title'' (escape_attribute (ai_title i)) @
      (case ai_body i of
         Informational d \<Rightarrow> attr_text ''document-digest'' (to_hex 32 d)
       | VoteItem d \<Rightarrow> attr_text ''proposal-digest'' (to_hex 32 d)) @
      opt_text (\<lambda>t. attr_text ''vote-tx'' (to_hex 32 t)) (fi_vote_tx_id f) @
      opt_text (\<lambda>s. attr_text ''outcome'' (escape_attribute s)) (fi_outcome f) @ ''/>'' @ [CHR 0x0A])"

definition agenda_text :: "final_item list \<Rightarrow> string" where
  "agenda_text items =
     ''    <agenda>'' @ [CHR 0x0A] @ concat (map item_text items) @ ''    </agenda>'' @ [CHR 0x0A]"

definition plain_item :: "agenda_item \<Rightarrow> final_item" where
  "plain_item i = \<lparr>fi_item = i, fi_vote_tx_id = None, fi_outcome = None\<rparr>"

definition convened_text :: "company_id \<Rightarrow> notarisation \<Rightarrow> meeting_metadata \<Rightarrow> agenda \<Rightarrow> string" where
  "convened_text company n m a =
     ''<irena-meeting'' @ attr_text ''version'' MEETING_VERSION @ attr_text ''kind'' ''convened'' @
     attr_text ''company'' (company_id_str company) @ ''>'' @ [CHR 0x0A] @ ''  '' @ write_notarisation n @ [CHR 0x0A] @
     ''  <meeting'' @ metadata_attributes m @ ''>'' @ [CHR 0x0A] @ agenda_text (map plain_item (agenda_items a)) @
     ''  </meeting>'' @ [CHR 0x0A] @ ''</irena-meeting>''"

definition final_text :: "company_id \<Rightarrow> notarisation \<Rightarrow> meeting_final \<Rightarrow> string" where
  "final_text company n f =
     ''<irena-meeting'' @ attr_text ''version'' MEETING_VERSION @ attr_text ''kind'' ''final'' @
     attr_text ''company'' (company_id_str company) @ attr_text ''meeting'' (to_hex 32 (mf_meeting_id f)) @ ''>'' @ [CHR 0x0A] @
     ''  '' @ write_notarisation n @ [CHR 0x0A] @ ''  <meeting'' @ metadata_attributes (mf_metadata f) @
     attr_text ''opened-at-height'' (decimal (unat (mf_opened_at f))) @ ''>'' @ [CHR 0x0A] @ agenda_text (mf_items f) @
     ''  </meeting>'' @ [CHR 0x0A] @ ''</irena-meeting>''"

text \<open>What is written is read back before it is handed on.\<close>

definition reading_back ::
    "(string \<Rightarrow> xml_reader) \<Rightarrow> (string \<Rightarrow> bytes option) \<Rightarrow> string \<Rightarrow> meeting_record \<Rightarrow> (meeting_error, string) result" where
  "reading_back tok hexd xml r =
     rbind (read_meeting_record tok hexd xml) (\<lambda>found.
     if mr_company found \<noteq> mr_company r \<or> mr_notarisation found \<noteq> mr_notarisation r \<or> mr_body found \<noteq> mr_body r
     then Err (MeetingChain NotReadBack) else Ok xml)"

definition compose_convened ::
    "(string \<Rightarrow> xml_reader) \<Rightarrow> (string \<Rightarrow> bytes option) \<Rightarrow> company_id \<Rightarrow> notarisation \<Rightarrow> meeting_metadata \<Rightarrow> agenda
      \<Rightarrow> (meeting_error, string) result" where
  "compose_convened tok hexd company n m a =
     rbind (metadata_validate m) (\<lambda>_.
     rbind (rmap_err MeetingRecord (notarisation_validate n)) (\<lambda>_.
     reading_back tok hexd (convened_text company n m a)
       \<lparr>mr_company = company, mr_notarisation = n, mr_body = Convened m a\<rparr>))"

definition compose_final ::
    "(string \<Rightarrow> xml_reader) \<Rightarrow> (string \<Rightarrow> bytes option) \<Rightarrow> company_id \<Rightarrow> notarisation \<Rightarrow> meeting_final
      \<Rightarrow> (meeting_error, string) result" where
  "compose_final tok hexd company n f =
     rbind (metadata_validate (mf_metadata f)) (\<lambda>_.
     rbind (final_agenda f) (\<lambda>_.
     rbind (rmap_err MeetingRecord (notarisation_validate n)) (\<lambda>_.
     reading_back tok hexd (final_text company n f)
       \<lparr>mr_company = company, mr_notarisation = n, mr_body = Concluded f\<rparr>)))"

section \<open>The readers only move forward\<close>

lemma read_item_shrinks [shrink]: "shrinking (read_item hexd is_final t e s)"
  unfolding read_item_def Let_def case_prod_unfold by (intro shrink)

lemma agenda_child_shrinks [shrink]: "shrinking (agenda_child hexd is_final t e s)"
  unfolding agenda_child_def Let_def by (intro shrink)

lemma read_meeting_shrinks [shrink]: "shrinking (read_meeting hexd is_final t)"
  unfolding read_meeting_def by (intro shrink)

lemma meeting_child_shrinks [shrink]: "shrinking (meeting_child hexd is_final t e s)"
  unfolding meeting_child_def by (intro shrink)

section \<open>What a reader returns\<close>

definition meeting_listed :: "meeting_error \<Rightarrow> bool" where
  "meeting_listed e \<longleftrightarrow> (\<forall>i. e = MeetingRecord i \<longrightarrow> listed i)"

lemma meeting_listed_simps [simp]:
  "meeting_listed (MeetingRecord i) = listed i" "meeting_listed (InvalidAgenda f)" "meeting_listed (MeetingChain c)"
  by (simp_all add: meeting_listed_def)

lemma meeting_of_record: "rvalid x Q listed \<Longrightarrow> rvalid (rmap_err MeetingRecord x) Q meeting_listed"
  by (rule rvalid_map_err) simp_all

lemmas meeting_steps =
  rvalid_bind [OF meeting_of_record [OF irena_attributes_valid]] rvalid_bind [OF meeting_of_record [OF irena_finish_valid]]

lemma meeting_plift_step:
  "rvalid x (\<lambda>_. True) meeting_listed \<Longrightarrow> (\<And>a. yields (f a) Q meeting_listed) \<Longrightarrow> yields (pbind (plift x) f) Q meeting_listed"
  by (rule yields_bind [where Q = "\<lambda>_. True"]) simp_all

lemma meeting_leaf: "yields (pmap_err MeetingRecord (end_of_leaf element e v)) (\<lambda>w. w = v) meeting_listed"
  by (rule yields_map_err [OF end_of_leaf_yields]) simp_all

text \<open>The items of a record: only a vote has a vote transaction and an outcome, and only in a final record; there it has both.\<close>

definition item_reported :: "bool \<Rightarrow> final_item \<Rightarrow> bool" where
  "item_reported is_final f \<longleftrightarrow>
     (if is_final \<and> is_vote (ai_body (fi_item f)) then fi_vote_tx_id f \<noteq> None \<and> fi_outcome f \<noteq> None
      else fi_vote_tx_id f = None \<and> fi_outcome f = None)"

text \<open>A step that collects issues and may find a value: without an issue after it, there was none before, and \<open>G\<close> holds.\<close>

lemma collect_clean:
  assumes "refuses P x" and "snd (collect x issues) = []"
  shows "issues = []" "fst (collect x issues) \<noteq> None"
  using collect_answered [OF assms(1), of issues] assms(2) unfolding answered_def by blast+

lemma item_digest_clean: "snd (item_digest hexd name x issues) = [] \<Longrightarrow> issues = []"
  by (cases x) (auto simp: item_digest_def dest: collect_clean(1) [OF hash_attr_refuses])

lemma item_body_clean: "snd (item_body hexd kind document proposal tx outcome issues) = [] \<Longrightarrow> issues = []"
  by (cases kind) (auto simp: item_body_def Let_def dest!: item_digest_clean split: if_splits)

lemma tx_attr_refuses: "refuses (\<lambda>_. True) (tx_attr hexd e a t)"
  using hash_from_hex_no_Panic(3) [of hexd t] by (cases "tx_id_from_hex hexd t") (simp_all add: tx_attr_def)

lemma vote_attr_eq:
  "vote_attr name read True True (Some t) issues = collect (read t) issues"
  "vote_attr name read True True None issues = (None, issues @ [MissingAttribute ''item'' name])"
  "\<not> (is_final \<and> vote) \<Longrightarrow> vote_attr name read is_final vote x issues =
     (None, if x \<noteq> None \<and> vote then issues @ [unused ''item'' name ''the record is a convening''] else issues)"
  by (simp_all add: vote_attr_def) (cases is_final; cases vote; cases x; simp)

lemma vote_attr_clean:
  assumes "\<And>t. refuses (\<lambda>_. True) (read t)" and "snd (vote_attr name read is_final vote x issues) = []"
  shows "issues = []" "(fst (vote_attr name read is_final vote x issues) \<noteq> None) = (is_final \<and> vote)"
proof -
  have "issues = [] \<and> (fst (vote_attr name read is_final vote x issues) \<noteq> None) = (is_final \<and> vote)"
  proof (cases "is_final \<and> vote")
    case True
    then show ?thesis
      using assms(2) collect_clean [OF assms(1)] by (cases x) (simp_all only: vote_attr_eq simp_thms snd_conv append_is_Nil_conv list.distinct)
  next
    case False
    show ?thesis using assms(2) unfolding vote_attr_eq(3) [OF False] using False by (simp split: if_splits)
  qed
  then show "issues = []" "(fst (vote_attr name read is_final vote x issues) \<noteq> None) = (is_final \<and> vote)" by blast+
qed

text \<open>A clean list of issues at the end of the items has been clean at every item.\<close>

definition items_ok :: "bool \<Rightarrow> bool \<Rightarrow> final_item list \<times> irena_issue list \<Rightarrow> bool" where
  "items_ok clean is_final s \<longleftrightarrow> (snd s = [] \<longrightarrow> clean \<and> (\<forall>f \<in> set (fst s). item_reported is_final f))"

lemma item_entry_clean:
  assumes "snd (item_entry hexd is_final number kind title document proposal tx said issues) = []"
  shows "issues = []" "\<And>e. fst (item_entry hexd is_final number kind title document proposal tx said issues) = Some e \<Longrightarrow> item_reported is_final e"
proof -
  let ?num = "\<lambda>n. or_invalid ''item'' ''number'' n (Because ''must be a decimal integer'') (parse_u32 n)"
  define n where "n = opt_then number (\<lambda>n. collect (?num n)) issues"
  define b where "b = item_body hexd kind document proposal tx said (snd n)"
  define vote where "vote = (case fst b of Some b \<Rightarrow> is_vote b | None \<Rightarrow> False)"
  define t where "t = vote_attr ''vote-tx'' (tx_attr hexd ''item'' ''vote-tx'') is_final vote tx (snd b)"
  define o' where "o' = vote_attr ''outcome'' Ok is_final vote said (snd t)"
  have entry: "item_entry hexd is_final number kind title document proposal tx said issues = (case (fst n, title, fst b) of
      (Some n, Some ti, Some b) \<Rightarrow> Some \<lparr>fi_item = \<lparr>ai_number = n, ai_title = ti, ai_body = b\<rparr>, fi_vote_tx_id = fst t, fi_outcome = fst o'\<rparr>
    | _ \<Rightarrow> None, snd o')"
    unfolding item_entry_def Let_def n_def [symmetric] b_def [symmetric] case_prod_beta vote_def [symmetric] t_def [symmetric]
      o'_def [symmetric] by (simp split: option.split)
  have said: "snd t = []" "(fst o' \<noteq> None) = (is_final \<and> vote)"
    using vote_attr_clean [of Ok] assms unfolding entry o'_def by simp_all
  have tx: "snd b = []" "(fst t \<noteq> None) = (is_final \<and> vote)"
    using vote_attr_clean [where read = "tx_attr hexd ''item'' ''vote-tx''", OF tx_attr_refuses said(1) [unfolded t_def]]
    unfolding t_def by blast+
  have "snd n = []" using tx(1) item_body_clean unfolding b_def by blast
  then show "issues = []"
    using opt_collect_clean [where f = ?num, OF or_invalid_refuses] unfolding n_def by blast
  show "item_reported is_final e" if "fst (item_entry hexd is_final number kind title document proposal tx said issues) = Some e" for e
    using that tx(2) said(2) unfolding entry by (auto simp: item_reported_def vote_def split: option.splits)
qed

lemma irena_require_clean:
  assumes "snd (snd (irena_require name a issues)) = []"
  shows "issues = []" "fst (irena_require name a issues) \<noteq> None"
  using irena_require_answered [of issues name a] assms by (auto simp: answered_def)

lemma read_item_yields:
  assumes "items_ok clean is_final s"
  shows "yields (read_item hexd is_final t e s) (items_ok clean is_final) meeting_listed"
proof -
  have before: "snd (snd (irena_require c a3 (snd (snd (irena_require b a2 (snd (snd (irena_require a a1 issues)))))))) = [] \<Longrightarrow> issues = []"
    for a b c a1 a2 a3 issues
    by (blast dest: irena_require_clean(1))
  have step: "items_ok clean is_final (fst s @ (case fst x of Some e \<Rightarrow> [e] | None \<Rightarrow> []), snd x)"
    if "x = item_entry hexd is_final number kind title document proposal tx said issues" "issues = [] \<Longrightarrow> snd s = []"
    for x number kind title document proposal tx said issues
    using that assms item_entry_clean [of hexd is_final number kind title document proposal tx said issues]
    by (auto simp: items_ok_def split: option.split)
  show ?thesis
    unfolding read_item_def Let_def case_prod_unfold
  proof (intro yields_position yields_if meeting_plift_step meeting_of_record irena_attributes_valid irena_finish_valid
      yields_bind [OF meeting_leaf], goal_cases)
    case 2
    show ?case unfolding yields_simps by (rule step [OF refl]) (erule before)
  qed simp
qed

definition agenda_ok :: "bool \<Rightarrow> bool \<Rightarrow> final_item list option \<times> irena_issue list \<Rightarrow> bool" where
  "agenda_ok clean is_final s \<longleftrightarrow>
     (snd s = [] \<longrightarrow> clean \<and> (\<forall>items. fst s = Some items \<longrightarrow> (\<forall>f \<in> set items. item_reported is_final f)))"

lemma agenda_child_yields:
  assumes "agenda_ok clean is_final s"
  shows "yields (agenda_child hexd is_final t e s) (agenda_ok clean is_final) meeting_listed"
proof -
  have loop: "yields (children meeting_of_xml ''agenda'' (read_item hexd is_final) ([], issues)) (items_ok (issues = []) is_final)
      meeting_listed" for issues
    by (rule yields_children [where I = "items_ok (issues = []) is_final", OF read_item_shrinks read_item_yields])
      (simp_all add: items_ok_def listed_of_xml)
  have items: "yields (if e then preturn ([], issues) else children meeting_of_xml ''agenda'' (read_item hexd is_final) ([], issues))
      (items_ok (issues = []) is_final) meeting_listed" for issues
    by (rule yields_if [OF _ loop]) (simp add: items_ok_def)
  show ?thesis
    unfolding agenda_child_def Let_def
    by (intro yields_position yields_if meeting_plift_step meeting_of_record irena_open_valid yields_bind [OF items])
      (use assms in \<open>auto simp: items_ok_def agenda_ok_def\<close>)
qed

text \<open>What the attributes of \<open><meeting>\<close> give: nothing missing when no issue was found.\<close>

definition fields_ok :: "bool \<Rightarrow> meeting_fields \<times> irena_issue list \<Rightarrow> bool" where
  "fields_ok is_final r \<longleftrightarrow> (snd r = [] \<longrightarrow>
     (\<exists>channel title at. fd_channel (fst r) = Some channel \<and> fd_title (fst r) = Some title \<and> fd_scheduled (fst r) = Some at \<and>
        metadata_validate \<lparr>mm_channel = channel, mm_title = title, mm_scheduled_at = at, mm_notice_digest = fd_notice (fst r)\<rparr> = Ok ()) \<and>
     (fd_opened (fst r) \<noteq> None) = is_final)"

lemma relabel_clean:
  assumes "\<And>t. refuses (\<lambda>_. True) (f t)" and "relabel_errors e a (map_option f x) issues = []"
  shows "issues = []" "\<And>t. x = Some t \<Longrightarrow> \<exists>v. f t = Ok v"
proof -
  have "issues = [] \<and> (\<forall>t. x = Some t \<longrightarrow> (\<exists>v. f t = Ok v))"
  proof (cases x)
    case (Some t)
    have "refuses (\<lambda>_. True) (f t)" by (rule assms(1))
    then show ?thesis using assms(2) Some
      by (cases "f t") (auto simp: relabel_errors_def relabelled_def refuses_def error_issues_def)
  qed (use assms(2) in \<open>simp add: relabel_errors_def\<close>)
  then show "issues = []" "\<And>t. x = Some t \<Longrightarrow> \<exists>v. f t = Ok v" by blast+
qed

lemma nonblank_clean: "nonblank e a x issues = [] \<Longrightarrow> issues = [] \<and> (\<forall>t. x = Some t \<longrightarrow> \<not> trims_to_empty t)"
  by (auto simp: nonblank_def split: option.splits if_splits)

lemma field_values_ok:
  assumes "issues = [] \<Longrightarrow> channel \<noteq> None \<and> title \<noteq> None \<and> scheduled \<noteq> None \<and> (opened \<noteq> None) = is_final"
  shows "fields_ok is_final (field_values hexd channel title scheduled notice opened issues)"
proof -
  let ?opened = "\<lambda>h. or_invalid ''meeting'' ''opened-at-height'' h (Because ''must be a decimal block height'') (parse_u64 h)"
  define n where "n = opt_then notice (\<lambda>n. collect (hash_attr hexd ''meeting'' ''notice-digest'' n)) issues"
  define at where "at = relabel_errors ''meeting'' ''scheduled-at'' (map_option notary_time_parse scheduled) (snd n)"
  define ti where "ti = nonblank ''meeting'' ''title'' title at"
  define ch where "ch = relabel_errors ''meeting'' ''channel'' (map_option channel_id_new channel) ti"
  define h where "h = opt_then opened (\<lambda>h. collect (?opened h)) ch"
  have eq: "field_values hexd channel title scheduled notice opened issues =
      (\<lparr>fd_channel = channel, fd_title = title, fd_scheduled = scheduled, fd_notice = fst n, fd_opened = fst h\<rparr>, snd h)"
    unfolding field_values_def Let_def n_def [symmetric] case_prod_beta at_def [symmetric] ti_def [symmetric] ch_def [symmetric]
      h_def [symmetric] ..
  show ?thesis
  proof (cases "snd h = []")
    case True
    have a: "ch = [] \<and> (fst h = None \<longrightarrow> opened = None)"
      using opt_collect_clean [where f = ?opened, OF or_invalid_refuses True [unfolded h_def]] unfolding h_def by blast
    note b = relabel_clean [OF channel_id_new_refuses conjunct1 [OF a, unfolded ch_def]]
    note c = nonblank_clean [OF b(1) [unfolded ti_def]]
    note d = relabel_clean [OF notary_time_parse_refuses conjunct1 [OF c, unfolded at_def]]
    have "issues = []" using opt_collect_clean [OF hash_attr_refuses d(1) [unfolded n_def]] by blast
    then obtain x y z where xyz: "channel = Some x" "title = Some y" "scheduled = Some z" "(opened \<noteq> None) = is_final"
      using assms by auto
    have none: "opened = None \<Longrightarrow> fst h = None" by (simp add: h_def opt_then_def)
    obtain ci where ci: "channel_id_new x = Ok ci" using b(2) xyz(1) by blast
    obtain t where t: "notary_time_parse z = Ok t" using d(2) xyz(3) by blast
    have y: "\<not> trims_to_empty y" using c xyz(2) by blast
    have "metadata_validate \<lparr>mm_channel = x, mm_title = y, mm_scheduled_at = z, mm_notice_digest = fst n\<rparr> = Ok ()"
      by (simp add: metadata_validate_def metadata_channel_def ci t y)
    moreover have "(fst h \<noteq> None) = is_final" using a none xyz(4) by metis
    ultimately show ?thesis unfolding eq fields_ok_def by (simp add: xyz(1-3))
  qed (simp add: eq fields_ok_def)
qed

lemma meeting_attributes_valid: "rvalid (meeting_attributes hexd pos is_final t) (fields_ok is_final) meeting_listed"
proof -
  have opened: "snd (opened_attr is_final x issues) = [] \<Longrightarrow> issues = [] \<and> (fst (opened_attr is_final x issues) \<noteq> None) = is_final"
    for x issues
    by (cases is_final; cases x) (simp_all add: opened_attr_def)
  show ?thesis
    unfolding meeting_attributes_def Let_def case_prod_unfold
  proof (intro meeting_steps, unfold rvalid_simps, rule field_values_ok, goal_cases)
    case (1 a)
    note o' = opened [OF 1(5)]
    show ?case using o' irena_require_clean by blast
  qed
qed

lemma finish_meeting_valid:
  assumes "fields_ok is_final (f, issues)" and "agenda_ok (issues = []) is_final s"
  shows "rvalid (finish_meeting f s) (\<lambda>(m, h, items). metadata_validate m = Ok () \<and> (h \<noteq> None) = is_final \<and>
     (\<forall>i \<in> set items. item_reported is_final i)) meeting_listed"
  using assms
  by (cases "snd s = []"; cases "fst s") (auto simp: finish_meeting_def Let_def irena_invalid_not_empty agenda_ok_def fields_ok_def)

abbreviation meeting_part_ok :: "bool \<Rightarrow> meeting_metadata \<times> block_height option \<times> final_item list \<Rightarrow> bool" where
  "meeting_part_ok is_final \<equiv> (\<lambda>(m, h, items). metadata_validate m = Ok () \<and> (h \<noteq> None) = is_final \<and>
     (\<forall>i \<in> set items. item_reported is_final i))"

lemma read_meeting_yields: "yields (read_meeting hexd is_final t) (meeting_part_ok is_final) meeting_listed"
proof -
  have loop: "yields (children meeting_of_xml ''meeting'' (agenda_child hexd is_final) (None, issues)) (agenda_ok (issues = []) is_final)
      meeting_listed" for issues
    by (rule yields_children [where I = "agenda_ok (issues = []) is_final", OF agenda_child_shrinks agenda_child_yields])
      (simp_all add: agenda_ok_def listed_of_xml)
  show ?thesis
    unfolding read_meeting_def case_prod_unfold
    by (intro yields_position yields_bind [where Q = "fields_ok is_final" and p = "plift _"] yields_bind [OF loop])
      (unfold yields_simps, rule meeting_attributes_valid, rule finish_meeting_valid [unfolded case_prod_unfold], simp_all)
qed

definition meeting_slots_ok :: "bool \<Rightarrow> notarisation option \<times> (meeting_metadata \<times> block_height option \<times> final_item list) option \<Rightarrow> bool" where
  "meeting_slots_ok is_final s \<longleftrightarrow> (\<forall>b. snd s = Some b \<longrightarrow> meeting_part_ok is_final b)"

lemma meeting_child_yields:
  assumes "meeting_slots_ok is_final s"
  shows "yields (meeting_child hexd is_final t e s) (meeting_slots_ok is_final) meeting_listed"
  unfolding meeting_child_def
  by (intro yields_position yields_if meeting_plift_step meeting_of_record read_notarisation_valid yields_bind [OF read_meeting_yields]
      yields_mono [OF meeting_leaf])
    (use assms in \<open>auto simp: meeting_slots_ok_def\<close>)

lemma meeting_id_attr_valid: "rvalid (meeting_id_attr hexd pos is_final x) (\<lambda>i. (i \<noteq> None) = is_final) meeting_listed"
proof (cases "is_final \<and> x \<noteq> None")
  case True
  then obtain t where t: "is_final" "x = Some t" by blast
  then show ?thesis
    unfolding meeting_id_attr_def
    by (simp add: rvalid_bind [OF meeting_of_record [OF refuses_listed [OF tx_attr_refuses]]])
next
  case False
  then show ?thesis by (cases is_final; cases x) (simp_all add: meeting_id_attr_def irena_invalid_not_empty)
qed

lemma company_id_label: "rvalid (company_id_new c) (\<lambda>i. wf_label (company_id_str i)) listed"
proof (cases "company_id_new c")
  case (Ok i)
  have "wf_label (company_id_str i)" using Ok by (simp add: company_id_new_Ok_iff)
  then show ?thesis by (simp only: Ok rvalid_simps)
qed (use refuses_listed [OF company_id_new_refuses, of c] in simp_all)

lemma meeting_envelope_valid:
  "rvalid (meeting_envelope hexd pos t) (\<lambda>e. (snd (snd e) \<noteq> None) = fst e \<and> wf_label (company_id_str (fst (snd e)))) meeting_listed"
  unfolding meeting_envelope_def Let_def case_prod_unfold
proof (intro meeting_steps, goal_cases)
  case (1 a)
  let ?v = "irena_require ''version'' a []"
  let ?k = "irena_require ''kind'' (fst (snd ?v)) (snd (snd ?v))"
  let ?c = "irena_require ''company'' (fst (snd ?k)) (snd (snd ?k))"
  have whole: "rvalid (rbind (rmap_err MeetingRecord (company_id_new c)) (\<lambda>company. rbind (meeting_id_attr hexd pos is_final m)
      (\<lambda>meeting. Ok (is_final, company, meeting)))) (\<lambda>e. (snd (snd e) \<noteq> None) = fst e \<and> wf_label (company_id_str (fst (snd e)))) meeting_listed"
    for is_final m c
    by (rule rvalid_bind [OF meeting_of_record [OF company_id_label]], rule rvalid_bind [OF meeting_id_attr_valid]) simp
  show ?case
  proof (cases "snd (snd ?c) = []")
    case True
    obtain v k c where vkc: "fst ?v = Some v" "fst ?k = Some k" "fst ?c = Some c"
      using True by (blast dest: irena_require_clean)
    show ?thesis unfolding vkc using whole by (simp add: True)
  qed (simp add: irena_invalid_not_empty)
qed

text \<open>What a record is: sound metadata and, as its kind has it, an agenda or reported items.\<close>

definition wf_agenda :: "agenda_item list \<Rightarrow> bool" where
  "wf_agenda items \<longleftrightarrow> items \<noteq> [] \<and> length items < 2 ^ 32 \<and>
     (\<forall>k < length items. unat (ai_number (items ! k)) = k + 1 \<and> \<not> trims_to_empty (ai_title (items ! k)))"

definition wf_meeting_record :: "meeting_record \<Rightarrow> bool" where
  "wf_meeting_record r \<longleftrightarrow> wf_label (company_id_str (mr_company r)) \<and> (case mr_body r of
       Convened m a \<Rightarrow> metadata_validate m = Ok () \<and> wf_agenda (agenda_items a)
     | Concluded f \<Rightarrow> metadata_validate (mf_metadata f) = Ok () \<and> (\<forall>i \<in> set (mf_items f). item_reported True i))"

lemma check_items_valid: "rvalid (check_items k items)
   (\<lambda>_. \<forall>j < length items. k + j + 1 < 2 ^ 32 \<and> unat (ai_number (items ! j)) = k + j + 1 \<and> \<not> trims_to_empty (ai_title (items ! j)))
   meeting_listed"
proof (induction k items rule: check_items.induct)
  case (2 k i r)
  show ?case
  proof (cases "try_from_nat (k + 1) :: u32 option")
    case (Some n)
    then have "unat n = k + 1" by (simp add: try_from_nat_Some)
    moreover have "unat n < 2 ^ LENGTH(32)" by (rule unsigned_less)
    moreover have "rvalid (check_items (k + 1) r) (\<lambda>_. \<forall>j < length r. k + 1 + j + 1 < 2 ^ 32 \<and>
        unat (ai_number (r ! j)) = k + 1 + j + 1 \<and> \<not> trims_to_empty (ai_title (r ! j))) meeting_listed"
      if "ai_number i = n" "\<not> trims_to_empty (ai_title i)" using 2 [of n] that by simp
    ultimately show ?thesis
      by (auto simp: Some [unfolded Suc_eq_plus1 [symmetric]] nth_Cons split: nat.split elim!: rvalid_mono)
  qed simp
qed simp

lemma agenda_new_valid: "rvalid (agenda_new items) (\<lambda>a. agenda_items a = items \<and> wf_agenda items) meeting_listed"
  using check_items_valid [of 0 items]
  by (cases "check_items 0 items") (auto simp: agenda_new_def wf_agenda_def dest: spec [of _ "length items - 1"])

lemma finish_meeting_record_valid:
  assumes "(snd (snd envelope) \<noteq> None) = fst envelope" and "wf_label (company_id_str (fst (snd envelope)))" and "meeting_slots_ok (fst envelope) s"
  shows "rvalid (finish_meeting_record envelope s) wf_meeting_record meeting_listed"
proof -
  obtain is_final company i where e: "envelope = (is_final, company, i)" by (rule prod_cases3)
  show ?thesis
  proof (cases "fst s = None \<or> snd s = None")
    case True
    then show ?thesis by (cases "fst s") (auto simp: finish_meeting_record_def e irena_invalid_not_empty)
  next
    case False
    then obtain n m h items where s: "fst s = Some n" "snd s = Some (m, h, items)" by auto
    with assms have ok: "metadata_validate m = Ok ()" "(h \<noteq> None) = is_final" "\<forall>i \<in> set items. item_reported is_final i"
      "(i \<noteq> None) = is_final" "wf_label (company_id_str company)" by (simp_all add: meeting_slots_ok_def e)
    show ?thesis
    proof (cases is_final)
      case True
      then show ?thesis using ok by (auto simp: finish_meeting_record_def e s wf_meeting_record_def)
    next
      case False
      then show ?thesis
        using agenda_new_valid [of "map fi_item items"] ok(1,4,5)
        by (cases "agenda_new (map fi_item items)") (auto simp: finish_meeting_record_def e s wf_meeting_record_def)
    qed
  qed
qed

lemma meeting_parser_yields: "yields (meeting_parser hexd) wf_meeting_record meeting_listed"
proof -
  have loop: "yields (children meeting_of_xml ''irena-meeting'' (meeting_child hexd is_final) (None, None)) (meeting_slots_ok is_final)
      meeting_listed" for is_final
    by (rule yields_children [where I = "meeting_slots_ok is_final", OF meeting_child_shrinks meeting_child_yields])
      (simp_all add: meeting_slots_ok_def listed_of_xml)
  have root: "yields (pmap_err meeting_of_xml (root_start element)) (\<lambda>_. True) meeting_listed"
    "yields (pmap_err meeting_of_xml expect_eof) (\<lambda>_. True) meeting_listed" for element
    by (rule yields_map_err [OF root_start_yields], simp add: listed_of_xml)
      (rule yields_map_err [OF expect_eof_yields], simp add: listed_of_xml)
  show ?thesis
    unfolding meeting_parser_def
    by (intro yields_bind [OF root(1)] yields_position
        yields_bind [where Q = "\<lambda>e. (snd (snd e) \<noteq> None) = fst e \<and> wf_label (company_id_str (fst (snd e)))" and p = "plift _"] yields_bind [OF loop] yields_bind [OF root(2)])
      (unfold yields_simps, rule meeting_envelope_valid, elim conjE, rule finish_meeting_record_valid)
qed

lemma read_meeting_record_valid: "rvalid (read_meeting_record tok hexd xml) wf_meeting_record meeting_listed"
  unfolding read_meeting_record_def
  by (intro rvalid_bind [OF meeting_of_record [OF size_valid]] run_yields meeting_parser_yields)

lemma metadata_validate_valid: "rvalid (metadata_validate m) (\<lambda>_. True) meeting_listed"
  using channel_id_new_refuses [of "mm_channel m"] notary_time_parse_refuses [of "mm_scheduled_at m"]
  by (cases "channel_id_new (mm_channel m)"; cases "notary_time_parse (mm_scheduled_at m)")
    (simp_all add: metadata_validate_def metadata_channel_def)

lemma reading_back_Ok:
  assumes "reading_back tok hexd xml r = Ok text"
  shows "text = xml" "read_meeting_record tok hexd text = Ok r"
  using assms by (auto simp: reading_back_def result_simps split: if_splits)

lemma reading_back_valid:
  "rvalid (reading_back tok hexd xml r) (\<lambda>text. text = xml \<and> read_meeting_record tok hexd text = Ok r) meeting_listed"
proof (cases "reading_back tok hexd xml r")
  case (Err e)
  then show ?thesis
    using read_meeting_record_valid [of tok hexd xml]
    by (cases "read_meeting_record tok hexd xml") (auto simp: reading_back_def split: if_splits)
next
  case Panic
  then show ?thesis
    using read_meeting_record_valid [of tok hexd xml]
    by (cases "read_meeting_record tok hexd xml") (auto simp: reading_back_def split: if_splits)
qed (use reading_back_Ok in auto)

lemma notarisation_validate_valid: "rvalid (notarisation_validate n) (\<lambda>_. True) listed"
  by (rule refuses_listed) (simp add: notarisation_validate_def accept_refuses)

lemma compose_convened_valid:
  "rvalid (compose_convened tok hexd company n m a) (\<lambda>text. text = convened_text company n m a \<and> metadata_validate m = Ok () \<and>
     read_meeting_record tok hexd text = Ok \<lparr>mr_company = company, mr_notarisation = n, mr_body = Convened m a\<rparr>) meeting_listed"
  unfolding compose_convened_def
  by (intro rvalid_bind [OF metadata_validate_valid] rvalid_bind [OF meeting_of_record [OF notarisation_validate_valid]]
      rvalid_mono [OF reading_back_valid]) simp_all

lemma compose_final_valid:
  "rvalid (compose_final tok hexd company n f) (\<lambda>text. text = final_text company n f \<and> metadata_validate (mf_metadata f) = Ok () \<and>
     read_meeting_record tok hexd text = Ok \<lparr>mr_company = company, mr_notarisation = n, mr_body = Concluded f\<rparr>) meeting_listed"
  unfolding compose_final_def final_agenda_def
  by (intro rvalid_bind [OF metadata_validate_valid] rvalid_bind [OF meeting_of_record [OF notarisation_validate_valid]]
      rvalid_bind [OF agenda_new_valid] rvalid_mono [OF reading_back_valid]) simp_all

text \<open>
  C37: The readers and writers of meeting records are total and sound. Whatever events quick-xml makes of a
  text, no \<open>expect\<close> panics and a document refused for its content names an issue; what is read has sound
  metadata, a convened agenda is numbered from one in order, without a gap, titled and not empty, and in
  a final record a vote names its transaction and outcome while an informational item has neither. A
  record that is composed reads back as exactly what was asked for.
\<close>

theorem meeting_records_total:
  "(case read_meeting_record tok hexd xml of
      Ok r \<Rightarrow> (case mr_body r of
          Convened m a \<Rightarrow> metadata_validate m = Ok () \<and> wf_agenda (agenda_items a)
        | Concluded f \<Rightarrow> metadata_validate (mf_metadata f) = Ok () \<and>
            (\<forall>i \<in> set (mf_items f). is_vote (ai_body (fi_item i)) = (fi_vote_tx_id i \<noteq> None) \<and>
               (fi_vote_tx_id i = None) = (fi_outcome i = None)))
    | Err e \<Rightarrow> e \<noteq> MeetingRecord (IrenaInvalid [])
    | Panic \<Rightarrow> False) \<and>
   (case compose_convened tok hexd company n m a of
      Ok text \<Rightarrow> read_meeting_record tok hexd text = Ok \<lparr>mr_company = company, mr_notarisation = n, mr_body = Convened m a\<rparr>
    | Err e \<Rightarrow> e \<noteq> MeetingRecord (IrenaInvalid [])
    | Panic \<Rightarrow> False) \<and>
   (case compose_final tok hexd company n f of
      Ok text \<Rightarrow> read_meeting_record tok hexd text = Ok \<lparr>mr_company = company, mr_notarisation = n, mr_body = Concluded f\<rparr>
    | Err e \<Rightarrow> e \<noteq> MeetingRecord (IrenaInvalid [])
    | Panic \<Rightarrow> False)"
proof -
  have cases: "case x of Ok v \<Rightarrow> Q' v | Err e \<Rightarrow> e \<noteq> MeetingRecord (IrenaInvalid []) | Panic \<Rightarrow> False"
    if "rvalid x Q meeting_listed" "\<And>v. Q v \<Longrightarrow> Q' v" for x :: "(meeting_error, 'x) result" and Q Q'
    using that by (cases x) (auto simp: meeting_listed_def listed_def)
  show ?thesis
    by (intro conjI cases [OF read_meeting_record_valid] cases [OF compose_convened_valid] cases [OF compose_final_valid])
      (auto simp: wf_meeting_record_def item_reported_def split: meeting_body.splits if_splits)
qed

end
