(* ===== verification/Irena_Meeting_Process.thy ===== *)
theory Irena_Meeting_Process
  imports Irena_Meeting
begin

text \<open>
  The life of a meeting (\<open>lifecycle.rs\<close> of \<open>irena-meeting\<close>): a meeting in memory and its operations, which
  put its two records and those of its votes on the chain. \<open>meeting_reaches\<close> is the step relation of a
  meeting under any sequence of operations, \<open>meeting_inv\<close> the invariant it keeps.
\<close>

section \<open>The meeting as a process\<close>

record meeting =
  mt_status :: meeting_status
  mt_company :: string
  mt_metadata :: meeting_metadata
  mt_items :: "agenda_item list"
  mt_votes :: "(u32 \<times> vote) list"
  mt_convened :: "(tx_id \<times> block_height) option"
  mt_opened_at :: "block_height option"
  mt_finalized :: "(tx_id \<times> block_height) option"

record finalized_meeting =
  fm_tx_id :: tx_id
  fm_height :: block_height
  fm_record :: meeting_final

definition meeting_draft :: "meeting_metadata \<Rightarrow> meeting" where
  "meeting_draft metadata =
     \<lparr>mt_status = MeetingDraft, mt_company = [], mt_metadata = metadata, mt_items = [], mt_votes = [], mt_convened = None,
      mt_opened_at = None, mt_finalized = None\<rparr>"

definition meeting_expect :: "meeting \<Rightarrow> meeting_status \<Rightarrow> string \<Rightarrow> (meeting_error, unit) result" where
  "meeting_expect m wanted to = (if mt_status m = wanted then Ok () else Err (MeetingInvalidTransition (mt_status m) to))"

definition meeting_vote :: "meeting \<Rightarrow> u32 \<Rightarrow> vote option" where
  "meeting_vote m number = map_of (mt_votes m) number"

text \<open>An operation returns the meeting after it; where none is returned an error leaves the meeting as it was.\<close>

definition meeting_add_item :: "string \<Rightarrow> agenda_body \<Rightarrow> meeting \<Rightarrow> (meeting_error, meeting) result" where
  "meeting_add_item title body m =
     rbind (meeting_expect m MeetingDraft ''add an item to'') (\<lambda>_.
     if trims_to_empty title then Err (InvalidAgenda ItemUntitled)
     else rbind (ok_or (InvalidAgenda AgendaTooLong) (try_from_nat (length (mt_items m) + 1))) (\<lambda>number.
       Ok (m\<lparr>mt_items := mt_items m @ [\<lparr>ai_number = number, ai_title = title, ai_body = body\<rparr>]\<rparr>)))"

definition meeting_of_seal :: "seal_error \<Rightarrow> meeting_error" where
  "meeting_of_seal e = (case e of SealStore e \<Rightarrow> MeetingStore e | SealCore e \<Rightarrow> MeetingCore e | SealNoHead h \<Rightarrow> MeetingChain (NoBlockAtHead h))"

text \<open>\<open>append\<close>: one meeting record in a block of its own.\<close>

definition meeting_append ::
    "crypto \<Rightarrow> (bytes \<Rightarrow> (block \<times> bytes) option) \<Rightarrow> bool \<Rightarrow> chain_store \<Rightarrow> digest \<Rightarrow> string \<Rightarrow> u64
      \<Rightarrow> chain_store \<times> (meeting_error, tx_id \<times> block_height) result" where
  "meeting_append cr de io st seed payload ms =
     (let (st', sealed) = seal cr de io st seed MEETING_NAMESPACE MEETING_SCHEMA_VERSION (str_bytes payload) ms in
      (st', rmap_err meeting_of_seal sealed))"

definition convening_ready ::
    "(string \<Rightarrow> xml_reader) \<Rightarrow> (string \<Rightarrow> bytes option) \<Rightarrow> crypto \<Rightarrow> (bytes \<Rightarrow> (block \<times> bytes) option)
      \<Rightarrow> chain_store \<Rightarrow> digest \<Rightarrow> notarisation \<Rightarrow> meeting \<Rightarrow> (meeting_error, company_id \<times> string) result" where
  "convening_ready tok hexd cr de st seed n m =
     rbind (meeting_expect m MeetingDraft ''convene'') (\<lambda>_.
     rbind (agenda_new (mt_items m)) (\<lambda>agenda.
     rbind (rmap_err MeetingLedger (company_now tok hexd de st)) (\<lambda>state.
     rbind (rmap_err MeetingLedger (authorised_signer state Governance (ed_public cr seed))) (\<lambda>_.
     rbind (compose_convened tok hexd (co_company state) n (mt_metadata m) agenda) (\<lambda>payload.
     Ok (co_company state, payload))))))"

definition meeting_convene ::
    "(string \<Rightarrow> xml_reader) \<Rightarrow> (string \<Rightarrow> bytes option) \<Rightarrow> crypto \<Rightarrow> (bytes \<Rightarrow> (block \<times> bytes) option) \<Rightarrow> bool
      \<Rightarrow> chain_store \<Rightarrow> digest \<Rightarrow> notarisation \<Rightarrow> u64 \<Rightarrow> meeting \<Rightarrow> chain_store \<times> (meeting_error, meeting \<times> meeting_id) result" where
  "meeting_convene tok hexd cr de io st seed n ms m =
     (case convening_ready tok hexd cr de st seed n m of
        Err e \<Rightarrow> (st, Err e)
      | Panic \<Rightarrow> (st, Panic)
      | Ok (company, payload) \<Rightarrow>
          (let (st', appended) = meeting_append cr de io st seed payload ms in
           (st', rbind appended (\<lambda>(i, height).
              Ok (m\<lparr>mt_company := company_id_str company, mt_convened := Some (i, height), mt_status := MeetingConvened\<rparr>, i)))))"

definition item_subject :: "agenda_item \<Rightarrow> string" where
  "item_subject i = ''item '' @ decimal (unat (ai_number i)) @ '': '' @ ai_title i"

definition open_item ::
    "(string \<Rightarrow> xml_reader) \<Rightarrow> (string \<Rightarrow> bytes option) \<Rightarrow> (bytes \<Rightarrow> (block \<times> bytes) option) \<Rightarrow> chain_store
      \<Rightarrow> block_height \<Rightarrow> channel_id \<Rightarrow> agenda_item \<Rightarrow> (meeting_error, u32 \<times> vote) result" where
  "open_item tok hexd de st at channel i =
     (case ai_body i of
        Informational _ \<Rightarrow> Panic
      | VoteItem digest \<Rightarrow>
          rbind (rmap_err (MeetingVote (ai_number i)) (vote_freeze tok hexd de st at channel (vote_draft (item_subject i) digest))) (\<lambda>v.
          rbind (rmap_err (MeetingVote (ai_number i)) (vote_open v)) (\<lambda>v. Ok (ai_number i, v))))"

definition meeting_open ::
    "(string \<Rightarrow> xml_reader) \<Rightarrow> (string \<Rightarrow> bytes option) \<Rightarrow> (bytes \<Rightarrow> (block \<times> bytes) option) \<Rightarrow> chain_store
      \<Rightarrow> meeting \<Rightarrow> (meeting_error, meeting) result" where
  "meeting_open tok hexd de st m =
     rbind (meeting_expect m MeetingConvened ''open'') (\<lambda>_.
     rbind (metadata_channel (mt_metadata m)) (\<lambda>channel.
     rbind (rmap_err MeetingStore (store_head st)) (\<lambda>head.
     let at = head_height head in
     rbind (rcollect (open_item tok hexd de st at channel) (filter (\<lambda>i. is_vote (ai_body i)) (mt_items m))) (\<lambda>votes.
     Ok (m\<lparr>mt_votes := votes, mt_opened_at := Some at, mt_status := MeetingOpen\<rparr>)))))"

text \<open>The first entry of a number, changed in place.\<close>

fun replace_vote :: "u32 \<Rightarrow> vote \<Rightarrow> (u32 \<times> vote) list \<Rightarrow> (u32 \<times> vote) list" where
  "replace_vote n v [] = []"
| "replace_vote n v ((k, w) # r) = (if k = n then (k, v) # r else (k, w) # replace_vote n v r)"

definition item_of :: "meeting \<Rightarrow> u32 \<Rightarrow> (meeting_error, agenda_item) result" where
  "item_of m number = ok_or (NoSuchItem number) (find (\<lambda>i. ai_number i = number) (mt_items m))"

definition meeting_cast :: "crypto \<Rightarrow> u32 \<Rightarrow> signed_ballot \<Rightarrow> meeting \<Rightarrow> (meeting_error, meeting) result" where
  "meeting_cast cr number b m =
     rbind (meeting_expect m MeetingOpen ''cast a ballot in'') (\<lambda>_.
     rbind (item_of m number) (\<lambda>_.
     rbind (ok_or (NotAVoteItem number) (meeting_vote m number)) (\<lambda>v.
     rbind (rmap_err (MeetingVote number) (vote_cast cr v b)) (\<lambda>v.
     Ok (m\<lparr>mt_votes := replace_vote number v (mt_votes m)\<rparr>)))))"

text \<open>
  The loop of \<open>close\<close> changes the votes one after another: when one cannot be counted, those before it
  are counted and it is closed.
\<close>

fun close_votes ::
    "(string \<Rightarrow> xml_reader) \<Rightarrow> (string \<Rightarrow> bytes option) \<Rightarrow> (bytes \<Rightarrow> (block \<times> bytes) option) \<Rightarrow> chain_store
      \<Rightarrow> (u32 \<times> vote) list \<Rightarrow> (u32 \<times> vote) list \<times> (meeting_error, unit) result" where
  "close_votes tok hexd de st [] = ([], Ok ())"
| "close_votes tok hexd de st ((n, v) # r) =
     (case vote_close v of
        Err e \<Rightarrow> ((n, v) # r, Err (MeetingVote n e))
      | Panic \<Rightarrow> ((n, v) # r, Panic)
      | Ok v1 \<Rightarrow>
          (case vote_evaluate tok hexd de st v1 of
             Err e \<Rightarrow> ((n, v1) # r, Err (MeetingVote n e))
           | Panic \<Rightarrow> ((n, v1) # r, Panic)
           | Ok (v2, _) \<Rightarrow> (let (r', x) = close_votes tok hexd de st r in ((n, v2) # r', x))))"

definition meeting_close ::
    "(string \<Rightarrow> xml_reader) \<Rightarrow> (string \<Rightarrow> bytes option) \<Rightarrow> (bytes \<Rightarrow> (block \<times> bytes) option) \<Rightarrow> chain_store
      \<Rightarrow> meeting \<Rightarrow> meeting \<times> (meeting_error, unit) result" where
  "meeting_close tok hexd de st m =
     (case meeting_expect m MeetingOpen ''close'' of
        Ok _ \<Rightarrow>
          (case close_votes tok hexd de st (mt_votes m) of
             (votes, Ok _) \<Rightarrow> (m\<lparr>mt_votes := votes, mt_status := MeetingClosed\<rparr>, Ok ())
           | (votes, x) \<Rightarrow> (m\<lparr>mt_votes := votes\<rparr>, x))
      | x \<Rightarrow> (m, x))"

definition outcome_text :: "evaluation_summary \<Rightarrow> string" where
  "outcome_text s = (if summary_accepted s then ''accepted'' else ''rejected'')"

definition final_item_of :: "meeting \<Rightarrow> agenda_item \<Rightarrow> final_item" where
  "final_item_of m i =
     (let v = meeting_vote m (ai_number i) in
      \<lparr>fi_item = i, fi_vote_tx_id = Option.bind v (\<lambda>v. map_option fst (vt_finalized v)),
       fi_outcome = Option.bind v (\<lambda>v. map_option outcome_text (vt_evaluation v))\<rparr>)"

definition meeting_final_record :: "meeting \<Rightarrow> (meeting_error, meeting_final) result" where
  "meeting_final_record m =
     (let refused = MeetingInvalidTransition (mt_status m) ''build the final record of'' in
      if mt_status m \<notin> {MeetingClosed, MeetingFinalized} then Err refused
      else rbind (ok_or refused (map_option fst (mt_convened m))) (\<lambda>i.
        rbind (ok_or refused (mt_opened_at m)) (\<lambda>at.
        Ok \<lparr>mf_meeting_id = i, mf_metadata = mt_metadata m, mf_opened_at = at, mf_items = map (final_item_of m) (mt_items m)\<rparr>)))"

text \<open>
  The loop of \<open>finalize\<close>: each vote that is not on the chain yet is written to it. \<open>io k\<close> says whether the \<open>k\<close>-th
  commit goes through.
\<close>

fun finalize_votes ::
    "(string \<Rightarrow> xml_reader) \<Rightarrow> (string \<Rightarrow> bytes option) \<Rightarrow> crypto \<Rightarrow> (bytes \<Rightarrow> (block \<times> bytes) option) \<Rightarrow> (nat \<Rightarrow> bool)
      \<Rightarrow> nat \<Rightarrow> chain_store \<Rightarrow> digest \<Rightarrow> u64 \<Rightarrow> (u32 \<times> vote) list
      \<Rightarrow> chain_store \<times> (u32 \<times> vote) list \<times> (meeting_error, unit) result" where
  "finalize_votes tok hexd cr de io k st seed ms [] = (st, [], Ok ())"
| "finalize_votes tok hexd cr de io k st seed ms ((n, v) # r) =
     (if vt_finalized v \<noteq> None
      then let (st', r', x) = finalize_votes tok hexd cr de io (Suc k) st seed ms r in (st', (n, v) # r', x)
      else case vote_finalize tok hexd cr de (io k) st seed ms v of
          (st', Err e) \<Rightarrow> (st', (n, v) # r, Err (MeetingVote n e))
        | (st', Panic) \<Rightarrow> (st', (n, v) # r, Panic)
        | (st', Ok (v', _)) \<Rightarrow>
            (let (st'', r', x) = finalize_votes tok hexd cr de io (Suc k) st' seed ms r in (st'', (n, v') # r', x)))"

definition conclude_ready ::
    "(string \<Rightarrow> xml_reader) \<Rightarrow> (string \<Rightarrow> bytes option) \<Rightarrow> notarisation \<Rightarrow> meeting
      \<Rightarrow> (meeting_error, meeting_final \<times> string) result" where
  "conclude_ready tok hexd n m =
     rbind (meeting_final_record m) (\<lambda>r.
     rbind (rmap_err MeetingRecord (company_id_new (mt_company m))) (\<lambda>company.
     rbind (compose_final tok hexd company n r) (\<lambda>payload. Ok (r, payload))))"

definition finalizing_ready ::
    "(string \<Rightarrow> xml_reader) \<Rightarrow> (string \<Rightarrow> bytes option) \<Rightarrow> crypto \<Rightarrow> (bytes \<Rightarrow> (block \<times> bytes) option)
      \<Rightarrow> chain_store \<Rightarrow> digest \<Rightarrow> meeting \<Rightarrow> (meeting_error, unit) result" where
  "finalizing_ready tok hexd cr de st seed m =
     rbind (meeting_expect m MeetingClosed ''finalize'') (\<lambda>_.
     rbind (rmap_err MeetingLedger (company_now tok hexd de st)) (\<lambda>now.
     rbind (rmap_err MeetingLedger (authorised_signer now Governance (ed_public cr seed))) (\<lambda>_. Ok ())))"

definition meeting_finalize ::
    "(string \<Rightarrow> xml_reader) \<Rightarrow> (string \<Rightarrow> bytes option) \<Rightarrow> crypto \<Rightarrow> (bytes \<Rightarrow> (block \<times> bytes) option) \<Rightarrow> (nat \<Rightarrow> bool)
      \<Rightarrow> chain_store \<Rightarrow> digest \<Rightarrow> notarisation \<Rightarrow> u64 \<Rightarrow> meeting
      \<Rightarrow> chain_store \<times> meeting \<times> (meeting_error, finalized_meeting) result" where
  "meeting_finalize tok hexd cr de io st seed n ms m =
     (case finalizing_ready tok hexd cr de st seed m of
        Err e \<Rightarrow> (st, m, Err e)
      | Panic \<Rightarrow> (st, m, Panic)
      | Ok _ \<Rightarrow>
          (case finalize_votes tok hexd cr de io 0 st seed ms (mt_votes m) of
             (st1, votes, Err e) \<Rightarrow> (st1, m\<lparr>mt_votes := votes\<rparr>, Err e)
           | (st1, votes, Panic) \<Rightarrow> (st1, m\<lparr>mt_votes := votes\<rparr>, Panic)
           | (st1, votes, Ok _) \<Rightarrow>
               (let m1 = m\<lparr>mt_votes := votes\<rparr> in
                case conclude_ready tok hexd n m1 of
                  Err e \<Rightarrow> (st1, m1, Err e)
                | Panic \<Rightarrow> (st1, m1, Panic)
                | Ok (r, payload) \<Rightarrow>
                    (case meeting_append cr de (io (length votes)) st1 seed payload ms of
                       (st2, Err e) \<Rightarrow> (st2, m1, Err e)
                     | (st2, Panic) \<Rightarrow> (st2, m1, Panic)
                     | (st2, Ok (i, height)) \<Rightarrow>
                         (st2, m1\<lparr>mt_finalized := Some (i, height), mt_status := MeetingFinalized\<rparr>,
                          Ok \<lparr>fm_tx_id = i, fm_height = height, fm_record = r\<rparr>)))))"

section \<open>The meeting as a state machine\<close>

lemma meeting_expect_iff [result_simps]:
  "meeting_expect m wanted to = Ok x \<longleftrightarrow> mt_status m = wanted"
  "meeting_expect m wanted to = Err e \<longleftrightarrow> mt_status m \<noteq> wanted \<and> e = MeetingInvalidTransition (mt_status m) to"
  "meeting_expect m wanted to \<noteq> Panic"
  by (auto simp: meeting_expect_def)

lemma metadata_channel_Ok_iff: "metadata_channel m = Ok c \<longleftrightarrow> c = ChannelId (mm_channel m) \<and> wf_label (mm_channel m)"
  by (simp add: metadata_channel_def result_simps channel_id_new_Ok_iff)

lemma agenda_new_Ok_iff: "agenda_new items = Ok a \<longleftrightarrow> a = Agenda items \<and> wf_agenda items"
proof
  assume "agenda_new items = Ok a"
  then show "a = Agenda items \<and> wf_agenda items" using agenda_new_valid [of items] by (cases a) simp
next
  assume a: "a = Agenda items \<and> wf_agenda items"
  have "check_items k items = Ok ()"
    if "\<forall>j < length items. unat (ai_number (items ! j)) = k + j + 1 \<and> \<not> trims_to_empty (ai_title (items ! j))" for k items
    using that
  proof (induction k items rule: check_items.induct)
    case (2 k i r)
    have "unat (ai_number i) = k + 1" "\<not> trims_to_empty (ai_title i)" using 2(2) by auto
    moreover from this have "try_from_nat (k + 1) = Some (ai_number i)" by (simp only: try_from_nat_Some)
    moreover have "check_items (k + 1) r = Ok ()" by (rule 2(1)) (use 2(2) in auto)
    ultimately show ?case by (simp only: check_items.simps ok_or.simps rbind.simps if_False simp_thms)
  qed simp
  then show "agenda_new items = Ok a" using a by (simp add: agenda_new_def wf_agenda_def)
qed

text \<open>What the vote of an item is about, and how far the votes are when the meeting is where it is.\<close>

definition vote_for :: "crypto \<Rightarrow> meeting \<Rightarrow> agenda_item \<Rightarrow> u32 \<times> vote \<Rightarrow> bool" where
  "vote_for cr m i e \<longleftrightarrow> fst e = ai_number i \<and> vote_inv cr (snd e) \<and>
     (\<exists>s. vt_snapshot (snd e) = Some s \<and> vs_subject s = item_subject i \<and> vs_proposal_digest s = agenda_digest (ai_body i) \<and>
        mt_opened_at m = Some (vs_height s) \<and> vs_channel s = mm_channel (mt_metadata m))"

definition vote_stages :: "meeting_status \<Rightarrow> vote_status set" where
  "vote_stages s = (case s of MeetingOpen \<Rightarrow> {VoteOpen, VoteClosed, VoteEvaluated} | MeetingClosed \<Rightarrow> {VoteEvaluated, VoteFinalized}
     | MeetingFinalized \<Rightarrow> {VoteFinalized} | _ \<Rightarrow> {})"

definition meeting_inv :: "crypto \<Rightarrow> meeting \<Rightarrow> bool" where
  "meeting_inv cr m \<longleftrightarrow>
     (mt_items m = [] \<or> wf_agenda (mt_items m)) \<and>
     (mt_convened m = None \<longleftrightarrow> mt_status m = MeetingDraft) \<and>
     (mt_opened_at m = None \<longleftrightarrow> mt_status m \<in> {MeetingDraft, MeetingConvened}) \<and>
     (mt_finalized m = None \<longleftrightarrow> mt_status m \<noteq> MeetingFinalized) \<and>
     (mt_status m \<noteq> MeetingDraft \<longrightarrow> wf_agenda (mt_items m) \<and> metadata_validate (mt_metadata m) = Ok () \<and> wf_label (mt_company m)) \<and>
     (if mt_status m \<in> {MeetingDraft, MeetingConvened} then mt_votes m = []
      else list_all2 (vote_for cr m) (filter (\<lambda>i. is_vote (ai_body i)) (mt_items m)) (mt_votes m) \<and>
        (\<forall>e \<in> set (mt_votes m). vt_status (snd e) \<in> vote_stages (mt_status m)))"

lemma vote_inv_cast: "vote_inv cr v \<Longrightarrow> vote_cast cr v b = Ok v' \<Longrightarrow> vote_inv cr v'"
  using ballots_kept_cast [of cr v b v'] by (auto simp: vote_cast_Ok_iff vote_inv_def)

lemma vote_inv_steps:
  assumes "vote_inv cr v"
  shows "vote_close v = Ok v' \<Longrightarrow> vote_inv cr v'" "vote_evaluate tok hexd de st v = Ok (v', ev) \<Longrightarrow> vote_inv cr v'"
    "vote_finalize tok hexd cr de io st seed ms v = (st', Ok (v', f)) \<Longrightarrow> vote_inv cr v'"
  using assms
  by (auto simp: vote_close_Ok_iff vote_evaluate_Ok_iff vote_finalize_Ok_iff vote_ready_Ok_iff vote_inv_def ballots_kept_def)

lemma opened_vote:
  assumes "decodes_blocks de" and "reachable cr de st"
    and "open_item tok hexd de st at channel i = Ok e" and "is_vote (ai_body i)"
  shows "fst e = ai_number i" "vote_inv cr (snd e)" "vt_status (snd e) = VoteOpen"
    "\<exists>v1. vote_freeze tok hexd de st at channel (vote_draft (item_subject i) (agenda_digest (ai_body i))) = Ok v1 \<and> vote_open v1 = Ok (snd e)"
    "\<exists>s. vt_snapshot (snd e) = Some s \<and> vs_subject s = item_subject i \<and> vs_proposal_digest s = agenda_digest (ai_body i) \<and>
        vs_height s = at \<and> vs_channel s = channel_id_str channel"
proof -
  obtain d where d: "ai_body i = VoteItem d" using assms(4) by (cases "ai_body i") (simp_all add: is_vote_def)
  then obtain v1 where v1: "vote_freeze tok hexd de st at channel (vote_draft (item_subject i) d) = Ok v1" "vote_open v1 = Ok (snd e)"
    "fst e = ai_number i"
    using assms(3) by (auto simp: open_item_def result_simps)
  obtain bs where bs: "represents cr bs st" by (rule reachable_represents [OF assms(2,1)])
  have "vote_reaches tok hexd cr de (snd e)"
    by (rule vote_reaches.opened [OF vote_reaches.frozen [OF vote_reaches.drafted assms(2) v1(1)] v1(2)])
  then show "vote_inv cr (snd e)" by (rule vote_reaches_inv [OF assms(1)])
  show "fst e = ai_number i" by (rule v1(3))
  show "vt_status (snd e) = VoteOpen" using v1(2) by (simp add: vote_open_Ok_iff)
  show "\<exists>v1. vote_freeze tok hexd de st at channel (vote_draft (item_subject i) (agenda_digest (ai_body i))) = Ok v1 \<and> vote_open v1 = Ok (snd e)"
    using v1 d by (auto simp: agenda_digest_def)
  show "\<exists>s. vt_snapshot (snd e) = Some s \<and> vs_subject s = item_subject i \<and> vs_proposal_digest s = agenda_digest (ai_body i) \<and>
        vs_height s = at \<and> vs_channel s = channel_id_str channel"
    using v1(1,2) unfolding vote_freeze_Ok_iff [OF assms(1) bs]
    by (auto simp: vote_open_Ok_iff vote_snapshot_of_def vote_draft_def agenda_digest_def d)
qed

section \<open>What the operations do to the votes\<close>

text \<open>What stays of a vote when the meeting closes or finalises it.\<close>

definition vote_kept :: "crypto \<Rightarrow> vote_status set \<Rightarrow> u32 \<times> vote \<Rightarrow> u32 \<times> vote \<Rightarrow> bool" where
  "vote_kept cr new e e' \<longleftrightarrow> fst e' = fst e \<and> vt_snapshot (snd e') = vt_snapshot (snd e) \<and> vt_ballots (snd e') = vt_ballots (snd e) \<and>
     (vote_inv cr (snd e) \<longrightarrow> vote_inv cr (snd e')) \<and> vt_status (snd e') \<in> insert (vt_status (snd e)) new"

lemma vote_kept_refl [simp]: "vote_kept cr new e e"
  by (simp add: vote_kept_def)

lemma close_votes_kept:
  "close_votes tok hexd de st votes = (votes', x) \<Longrightarrow>
     list_all2 (vote_kept cr {VoteClosed, VoteEvaluated}) votes votes' \<and>
     (x = Ok () \<longrightarrow> (\<forall>e \<in> set votes. vt_status (snd e) = VoteOpen) \<and> (\<forall>e \<in> set votes'. vt_status (snd e) = VoteEvaluated))"
proof (induction votes arbitrary: votes' x)
  case (Cons e r)
  obtain n v where e: "e = (n, v)" by (cases e)
  have same: "list_all2 (vote_kept cr new) l l" for l new by (simp add: list_all2_same)
  obtain r' y where r: "close_votes tok hexd de st r = (r', y)" by (cases "close_votes tok hexd de st r")
  note IH = Cons.IH [OF r]
  show ?case
  proof (cases "vote_close v")
    case (Ok v1)
    then have v1: "vote_kept cr {VoteClosed, VoteEvaluated} (n, v) (n, v1)"
      using vote_inv_steps(1) [of cr v v1] by (simp add: vote_kept_def) (simp add: vote_close_Ok_iff)
    have one: "vt_status v = VoteOpen" using Ok by (simp add: vote_close_Ok_iff)
    show ?thesis
    proof (cases "vote_evaluate tok hexd de st v1")
      case ev: (Ok p)
      obtain v2 w where p: "p = (v2, w)" by (cases p)
      have v2: "vote_kept cr {VoteClosed, VoteEvaluated} (n, v) (n, v2)" "vt_status v2 = VoteEvaluated"
        using v1 ev vote_inv_steps(2) [of cr v1 tok hexd de st v2 w] by (auto simp: vote_kept_def p vote_evaluate_Ok_iff)
      have "votes' = (n, v2) # r'" "x = y" using Cons.prems Ok ev r by (simp_all add: e p)
      then show ?thesis using v2 IH one by (simp add: e)
    qed (use Cons.prems Ok v1 same in \<open>auto simp: e\<close>)
  qed (use Cons.prems same in \<open>auto simp: e\<close>)
qed simp

lemma finalize_votes_kept:
  "finalize_votes tok hexd cr de io k st seed ms votes = (st', votes', x) \<Longrightarrow>
     list_all2 (vote_kept cr {VoteFinalized}) votes votes' \<and>
     list_all2 (\<lambda>e e'. vt_finalized (snd e) \<noteq> None \<longrightarrow> e' = e) votes votes' \<and>
     (x = Ok () \<longrightarrow> (\<forall>e \<in> set votes'. vt_finalized (snd e) \<noteq> None))"
proof (induction votes arbitrary: k st st' votes' x)
  case (Cons e r)
  obtain n v where e: "e = (n, v)" by (cases e)
  have same: "list_all2 (vote_kept cr new) l l" "list_all2 (\<lambda>e e'. vt_finalized (snd e) \<noteq> None \<longrightarrow> e' = e) l l" for l new
    by (simp_all add: list_all2_same)
  show ?case
  proof (cases "vt_finalized v = None")
    case False
    obtain st1 r' y where r: "finalize_votes tok hexd cr de io (Suc k) st seed ms r = (st1, r', y)"
      by (cases "finalize_votes tok hexd cr de io (Suc k) st seed ms r")
    have "votes' = (n, v) # r'" "x = y" using Cons.prems False r by (simp_all add: e)
    then show ?thesis using Cons.IH [OF r] False by (simp add: e)
  next
    case True
    obtain st1 y where f: "vote_finalize tok hexd cr de (io k) st seed ms v = (st1, y)"
      by (cases "vote_finalize tok hexd cr de (io k) st seed ms v")
    show ?thesis
    proof (cases y)
      case (Ok p)
      obtain v' w where p: "p = (v', w)" by (cases p)
      obtain st2 r' z where r: "finalize_votes tok hexd cr de io (Suc k) st1 seed ms r = (st2, r', z)"
        by (cases "finalize_votes tok hexd cr de io (Suc k) st1 seed ms r")
      have step: "vote_finalize tok hexd cr de (io k) st seed ms v = (st1, Ok (v', w))" using f Ok p by simp
      then have "vt_finalized v' \<noteq> None" "vt_status v' = VoteFinalized" "vt_snapshot v' = vt_snapshot v" "vt_ballots v' = vt_ballots v"
        by (auto simp: vote_finalize_Ok_iff)
      then have "vote_kept cr {VoteFinalized} (n, v) (n, v')"
        using vote_inv_steps(3) [OF _ step] by (simp add: vote_kept_def)
      moreover have "votes' = (n, v') # r'" "x = z" using Cons.prems True step r by (simp_all add: e)
      ultimately show ?thesis using Cons.IH [OF r] True \<open>vt_finalized v' \<noteq> None\<close> by (simp add: e)
    qed (use Cons.prems True f same in \<open>auto simp: e\<close>)
  qed
qed simp

lemma vote_kept_for:
  assumes "list_all2 (vote_for cr m) items votes" and "list_all2 (vote_kept cr new) votes votes'"
    and "mt_opened_at m' = mt_opened_at m" and "mt_metadata m' = mt_metadata m"
  shows "list_all2 (vote_for cr m') items votes'"
  using assms(1,2)
  by (rule list_all2_trans [rotated]) (auto simp: vote_for_def vote_kept_def assms(3,4))

lemma vote_kept_stages:
  "list_all2 (vote_kept cr new) votes votes' \<Longrightarrow> e' \<in> set votes' \<Longrightarrow> \<exists>e \<in> set votes. vt_status (snd e') \<in> insert (vt_status (snd e)) new"
  by (induction rule: list_all2_induct) (auto simp: vote_kept_def)

lemma replace_vote_for:
  assumes "list_all2 (vote_for cr m) items votes" and "map_of votes n = Some v" and "vote_inv cr v'" and "vt_snapshot v' = vt_snapshot v"
  shows "list_all2 (vote_for cr m) items (replace_vote n v' votes)"
  using assms(1,2)
proof (induction rule: list_all2_induct)
  case (Cons i items e es)
  obtain k w where e: "e = (k, w)" by (cases e)
  show ?case
  proof (cases "k = n")
    case True
    then have "w = v" using Cons.prems by (simp add: e)
    then have "vote_for cr m i (k, v')" using Cons.hyps(1) assms(3,4) by (simp add: vote_for_def e)
    then show ?thesis using Cons.hyps(2) True by (simp add: e)
  qed (use Cons in \<open>simp add: e\<close>)
qed simp

lemma replace_vote_set: "map_of votes n = Some v \<Longrightarrow> e \<in> set (replace_vote n v' votes) \<Longrightarrow> e = (n, v') \<or> e \<in> set votes"
  by (induction n v' votes rule: replace_vote.induct) (auto split: if_splits)

section \<open>What the meeting is in every state\<close>

lemma meeting_add_item_Ok_iff:
  "meeting_add_item title body m = Ok m' \<longleftrightarrow> mt_status m = MeetingDraft \<and> \<not> trims_to_empty title \<and>
     (\<exists>n. unat n = length (mt_items m) + 1 \<and>
        m' = m\<lparr>mt_items := mt_items m @ [\<lparr>ai_number = n, ai_title = title, ai_body = body\<rparr>]\<rparr>)"
  by (auto simp: meeting_add_item_def result_simps try_from_nat_Some)

lemma convening_ready_Ok_iff:
  "convening_ready tok hexd cr de st seed n m = Ok (company, payload) \<longleftrightarrow> mt_status m = MeetingDraft \<and> wf_agenda (mt_items m) \<and>
     (\<exists>s p. company_now tok hexd de st = Ok s \<and> authorised_signer s Governance (ed_public cr seed) = Ok p \<and>
        company = co_company s \<and> compose_convened tok hexd company n (mt_metadata m) (Agenda (mt_items m)) = Ok payload)"
  by (auto simp: convening_ready_def result_simps agenda_new_Ok_iff)

lemma meeting_convene_Ok_iff:
  "meeting_convene tok hexd cr de io st seed n ms m = (st', Ok (m', i)) \<longleftrightarrow>
     (\<exists>company payload h. convening_ready tok hexd cr de st seed n m = Ok (company, payload) \<and>
        seal cr de io st seed MEETING_NAMESPACE MEETING_SCHEMA_VERSION (str_bytes payload) ms = (st', Ok (i, h)) \<and>
        m' = m\<lparr>mt_company := company_id_str company, mt_convened := Some (i, h), mt_status := MeetingConvened\<rparr>)"
  by (cases "convening_ready tok hexd cr de st seed n m")
    (auto simp: meeting_convene_def meeting_append_def result_simps split: prod.splits)

lemma meeting_open_Ok_iff:
  "meeting_open tok hexd de st m = Ok m' \<longleftrightarrow> mt_status m = MeetingConvened \<and> wf_label (mm_channel (mt_metadata m)) \<and>
     (\<exists>head votes. store_head st = Ok head \<and>
        list_all2 (\<lambda>i e. open_item tok hexd de st (head_height head) (ChannelId (mm_channel (mt_metadata m))) i = Ok e)
          (filter (\<lambda>i. is_vote (ai_body i)) (mt_items m)) votes \<and>
        m' = m\<lparr>mt_votes := votes, mt_opened_at := Some (head_height head), mt_status := MeetingOpen\<rparr>)"
  by (auto simp: meeting_open_def result_simps metadata_channel_Ok_iff Let_def)

lemma meeting_cast_Ok_iff:
  "meeting_cast cr number b m = Ok m' \<longleftrightarrow> mt_status m = MeetingOpen \<and> (\<exists>i \<in> set (mt_items m). ai_number i = number) \<and>
     (\<exists>v v'. map_of (mt_votes m) number = Some v \<and> vote_cast cr v b = Ok v' \<and>
        m' = m\<lparr>mt_votes := replace_vote number v' (mt_votes m)\<rparr>)"
proof -
  have "(\<exists>i. find (\<lambda>i. ai_number i = number) (mt_items m) = Some i) \<longleftrightarrow> (\<exists>i \<in> set (mt_items m). ai_number i = number)"
    using find_None_iff [of "\<lambda>i. ai_number i = number" "mt_items m"]
    by (cases "find (\<lambda>i. ai_number i = number) (mt_items m)") auto
  then show ?thesis by (auto simp: meeting_cast_def item_of_def meeting_vote_def result_simps)
qed

lemma meeting_close_cases:
  assumes "meeting_close tok hexd de st m = (m', x)"
  shows "mt_status m \<noteq> MeetingOpen \<and> m' = m \<and> x = Err (MeetingInvalidTransition (mt_status m) ''close'') \<or>
    mt_status m = MeetingOpen \<and> (\<exists>votes. close_votes tok hexd de st (mt_votes m) = (votes, x) \<and>
      m' = m\<lparr>mt_votes := votes, mt_status := (if x = Ok () then MeetingClosed else MeetingOpen)\<rparr>)"
proof (cases "mt_status m = MeetingOpen")
  case True
  then have "m\<lparr>mt_votes := votes, mt_status := MeetingOpen\<rparr> = m\<lparr>mt_votes := votes\<rparr>" for votes by (cases m) simp
  then show ?thesis
    using assms True by (auto simp: meeting_close_def meeting_expect_def split: prod.splits result.splits)
qed (use assms in \<open>auto simp: meeting_close_def meeting_expect_def\<close>)

lemma meeting_final_record_Ok_iff:
  "meeting_final_record m = Ok r \<longleftrightarrow> mt_status m \<in> {MeetingClosed, MeetingFinalized} \<and>
     (\<exists>i h at. mt_convened m = Some (i, h) \<and> mt_opened_at m = Some at \<and>
        r = \<lparr>mf_meeting_id = i, mf_metadata = mt_metadata m, mf_opened_at = at, mf_items = map (final_item_of m) (mt_items m)\<rparr>)"
  by (auto simp: meeting_final_record_def Let_def result_simps)

lemma conclude_ready_Ok_iff:
  "conclude_ready tok hexd n m = Ok (r, payload) \<longleftrightarrow> meeting_final_record m = Ok r \<and> wf_label (mt_company m) \<and>
     compose_final tok hexd (CompanyId (mt_company m)) n r = Ok payload"
  by (auto simp: conclude_ready_def result_simps company_id_new_Ok_iff)

lemma meeting_finalize_cases:
  assumes "meeting_finalize tok hexd cr de io st seed n ms m = (st', m', x)"
  shows "m' = m \<and> st' = st \<and> (\<forall>f. x \<noteq> Ok f) \<or>
    finalizing_ready tok hexd cr de st seed m = Ok () \<and>
     (\<exists>st1 votes y. finalize_votes tok hexd cr de io 0 st seed ms (mt_votes m) = (st1, votes, y) \<and>
       (m' = m\<lparr>mt_votes := votes\<rparr> \<and> (\<forall>f. x \<noteq> Ok f) \<or>
        y = Ok () \<and> (\<exists>r payload i h. conclude_ready tok hexd n (m\<lparr>mt_votes := votes\<rparr>) = Ok (r, payload) \<and>
          seal cr de (io (length votes)) st1 seed MEETING_NAMESPACE MEETING_SCHEMA_VERSION (str_bytes payload) ms = (st', Ok (i, h)) \<and>
          m' = m\<lparr>mt_votes := votes, mt_finalized := Some (i, h), mt_status := MeetingFinalized\<rparr> \<and>
          x = Ok \<lparr>fm_tx_id = i, fm_height = h, fm_record = r\<rparr>)))"
proof (cases "finalizing_ready tok hexd cr de st seed m")
  case (Ok u)
  obtain st1 votes y where v: "finalize_votes tok hexd cr de io 0 st seed ms (mt_votes m) = (st1, votes, y)"
    by (cases "finalize_votes tok hexd cr de io 0 st seed ms (mt_votes m)")
  show ?thesis
  proof (cases y)
    case y: (Ok w)
    show ?thesis
    proof (cases "conclude_ready tok hexd n (m\<lparr>mt_votes := votes\<rparr>)")
      case c: (Ok p)
      obtain r payload where p: "p = (r, payload)" by (cases p)
      obtain st2 z where s: "seal cr de (io (length votes)) st1 seed MEETING_NAMESPACE MEETING_SCHEMA_VERSION (str_bytes payload) ms = (st2, z)"
        by (cases "seal cr de (io (length votes)) st1 seed MEETING_NAMESPACE MEETING_SCHEMA_VERSION (str_bytes payload) ms")
      show ?thesis using assms by (cases z) (auto simp: meeting_finalize_def Ok v y c p s meeting_append_def)
    qed (use assms in \<open>auto simp: meeting_finalize_def Ok v y\<close>)
  qed (use assms in \<open>auto simp: meeting_finalize_def Ok v\<close>)
qed (use assms in \<open>auto simp: meeting_finalize_def\<close>)

inductive meeting_reaches ::
    "(string \<Rightarrow> xml_reader) \<Rightarrow> (string \<Rightarrow> bytes option) \<Rightarrow> crypto \<Rightarrow> (bytes \<Rightarrow> (block \<times> bytes) option) \<Rightarrow> meeting \<Rightarrow> bool"
  for tok :: "string \<Rightarrow> xml_reader" and hexd :: "string \<Rightarrow> bytes option" and cr :: crypto
    and de :: "bytes \<Rightarrow> (block \<times> bytes) option" where
  drafted: "meeting_reaches tok hexd cr de (meeting_draft metadata)"
| added: "meeting_reaches tok hexd cr de m \<Longrightarrow> meeting_add_item title body m = Ok m' \<Longrightarrow> meeting_reaches tok hexd cr de m'"
| convened: "meeting_reaches tok hexd cr de m \<Longrightarrow> reachable cr de st \<Longrightarrow>
     meeting_convene tok hexd cr de io st seed n ms m = (st', Ok (m', i)) \<Longrightarrow> meeting_reaches tok hexd cr de m'"
| opened: "meeting_reaches tok hexd cr de m \<Longrightarrow> reachable cr de st \<Longrightarrow> meeting_open tok hexd de st m = Ok m' \<Longrightarrow>
     meeting_reaches tok hexd cr de m'"
| received: "meeting_reaches tok hexd cr de m \<Longrightarrow> meeting_cast cr number b m = Ok m' \<Longrightarrow> meeting_reaches tok hexd cr de m'"
| closed: "meeting_reaches tok hexd cr de m \<Longrightarrow> reachable cr de st \<Longrightarrow> meeting_close tok hexd de st m = (m', x) \<Longrightarrow>
     meeting_reaches tok hexd cr de m'"
| finalized: "meeting_reaches tok hexd cr de m \<Longrightarrow> reachable cr de st \<Longrightarrow>
     meeting_finalize tok hexd cr de io st seed n ms m = (st', m', y) \<Longrightarrow> meeting_reaches tok hexd cr de m'"

lemma wf_agenda_numbers:
  assumes "wf_agenda items"
  shows "distinct (map ai_number items)"
proof -
  have "ai_number (items ! j) = ai_number (items ! k) \<Longrightarrow> j = k" if "j < length items" "k < length items" for j k
    using assms that unfolding wf_agenda_def by (metis add_right_cancel)
  then show ?thesis by (auto simp: distinct_conv_nth)
qed

lemma agenda_add:
  assumes "items = [] \<or> wf_agenda items" and "unat n = length items + 1" and "\<not> trims_to_empty title"
  shows "wf_agenda (items @ [\<lparr>ai_number = n, ai_title = title, ai_body = body\<rparr>])"
proof -
  have "unat n < 2 ^ LENGTH(32)" by (rule unsigned_less)
  then show ?thesis using assms by (auto simp: wf_agenda_def nth_append less_Suc_eq)
qed

lemma meeting_opened_inv:
  assumes "decodes_blocks de" and "reachable cr de st" and "meeting_inv cr m" and "meeting_open tok hexd de st m = Ok m'"
  shows "meeting_inv cr m'"
proof -
  obtain head :: chain_head and votes where o': "mt_status m = MeetingConvened"
    "list_all2 (\<lambda>i e. open_item tok hexd de st (head_height head) (ChannelId (mm_channel (mt_metadata m))) i = Ok e)
      (filter (\<lambda>i. is_vote (ai_body i)) (mt_items m)) votes"
    "m' = m\<lparr>mt_votes := votes, mt_opened_at := Some (head_height head), mt_status := MeetingOpen\<rparr>"
    using assms(4) unfolding meeting_open_Ok_iff by blast
  have one: "vote_for cr m' i e \<and> vt_status (snd e) = VoteOpen"
    if "open_item tok hexd de st (head_height head) (ChannelId (mm_channel (mt_metadata m))) i = Ok e" "is_vote (ai_body i)" for i e
    using opened_vote [OF assms(1,2) that] unfolding vote_for_def by (auto simp: o'(3))
  have votes: "\<forall>k < length (filter (\<lambda>i. is_vote (ai_body i)) (mt_items m)). is_vote (ai_body (filter (\<lambda>i. is_vote (ai_body i)) (mt_items m) ! k))"
    using nth_mem by fastforce
  have all: "list_all2 (\<lambda>i e. vote_for cr m' i e \<and> vt_status (snd e) = VoteOpen) (filter (\<lambda>i. is_vote (ai_body i)) (mt_items m)) votes"
    using o'(2) votes one unfolding list_all2_conv_all_nth by blast
  have "list_all2 (vote_for cr m') (filter (\<lambda>i. is_vote (ai_body i)) (mt_items m)) votes" by (rule list_all2_mono [OF all]) simp
  moreover have "\<forall>e \<in> set votes. vt_status (snd e) = VoteOpen" using all by (induction rule: list_all2_induct) simp_all
  ultimately show ?thesis using assms(3) o'(1) by (simp add: meeting_inv_def o'(3) vote_stages_def)
qed

lemma meeting_closed_inv:
  assumes "meeting_inv cr m" and "meeting_close tok hexd de st m = (m', x)"
  shows "meeting_inv cr m'"
  using meeting_close_cases [OF assms(2)]
proof (elim disjE conjE exE)
  fix votes
  assume o': "mt_status m = MeetingOpen" "close_votes tok hexd de st (mt_votes m) = (votes, x)"
    and m': "m' = m\<lparr>mt_votes := votes, mt_status := (if x = Ok () then MeetingClosed else MeetingOpen)\<rparr>"
  note kept = close_votes_kept [OF o'(2)]
  have inv: "list_all2 (vote_for cr m) (filter (\<lambda>i. is_vote (ai_body i)) (mt_items m)) (mt_votes m)"
    "\<forall>e \<in> set (mt_votes m). vt_status (snd e) \<in> {VoteOpen, VoteClosed, VoteEvaluated}"
    using assms(1) o'(1) by (simp_all add: meeting_inv_def vote_stages_def)
  have "list_all2 (vote_for cr m') (filter (\<lambda>i. is_vote (ai_body i)) (mt_items m)) votes"
    by (rule vote_kept_for [OF inv(1) conjunct1 [OF kept]]) (simp_all add: m')
  moreover have "vt_status (snd e) \<in> vote_stages (mt_status m')" if "e \<in> set votes" for e
    using kept inv(2) vote_kept_stages [OF conjunct1 [OF kept] that] that by (auto simp: m' vote_stages_def)
  ultimately show ?thesis using assms(1) o'(1) by (auto simp: meeting_inv_def m')
qed (use assms(1) in simp)

lemma finalized_votes_inv:
  assumes "meeting_inv cr m" and closed: "mt_status m = MeetingClosed"
    and run: "finalize_votes tok hexd cr de io k st seed ms (mt_votes m) = (st1, votes, y)"
  shows "meeting_inv cr (m\<lparr>mt_votes := votes\<rparr>)" "y = Ok () \<Longrightarrow> \<forall>e \<in> set votes. vt_status (snd e) = VoteFinalized"
proof -
  have inv: "list_all2 (vote_for cr m) (filter (\<lambda>i. is_vote (ai_body i)) (mt_items m)) (mt_votes m)"
    "\<forall>e \<in> set (mt_votes m). vt_status (snd e) \<in> {VoteEvaluated, VoteFinalized}"
    using assms(1,2) by (simp_all add: meeting_inv_def vote_stages_def)
  note kept = finalize_votes_kept [OF run]
  have ours: "list_all2 (vote_for cr (m\<lparr>mt_votes := votes\<rparr>)) (filter (\<lambda>i. is_vote (ai_body i)) (mt_items m)) votes"
    by (rule vote_kept_for [OF inv(1) conjunct1 [OF kept]]) simp_all
  moreover have "vt_status (snd e) \<in> {VoteEvaluated, VoteFinalized}" if "e \<in> set votes" for e
    using inv(2) vote_kept_stages [OF conjunct1 [OF kept] that] by auto
  ultimately show "meeting_inv cr (m\<lparr>mt_votes := votes\<rparr>)" using assms(1,2) by (simp add: meeting_inv_def vote_stages_def)
  show "\<forall>e \<in> set votes. vt_status (snd e) = VoteFinalized" if "y = Ok ()"
  proof
    fix e
    assume e: "e \<in> set votes"
    then have "vote_inv cr (snd e)" using ours by (auto simp: list_all2_conv_all_nth in_set_conv_nth vote_for_def)
    then show "vt_status (snd e) = VoteFinalized" using kept that e by (auto simp: vote_inv_def)
  qed
qed

lemma meeting_finalized_inv:
  assumes "meeting_inv cr m" and "meeting_finalize tok hexd cr de io st seed n ms m = (st', m', x)"
  shows "meeting_inv cr m'"
  using meeting_finalize_cases [OF assms(2)]
proof (elim disjE conjE exE)
  fix st1 votes y
  assume *: "finalizing_ready tok hexd cr de st seed m = Ok ()" "finalize_votes tok hexd cr de io 0 st seed ms (mt_votes m) = (st1, votes, y)"
    "m' = m\<lparr>mt_votes := votes\<rparr>"
  then show ?thesis using finalized_votes_inv(1) [OF assms(1) _ *(2)] by (simp add: finalizing_ready_def result_simps)
next
  fix st1 votes y r payload i h
  assume *: "finalizing_ready tok hexd cr de st seed m = Ok ()" "finalize_votes tok hexd cr de io 0 st seed ms (mt_votes m) = (st1, votes, y)"
    "y = Ok ()" "m' = m\<lparr>mt_votes := votes, mt_finalized := Some (i, h), mt_status := MeetingFinalized\<rparr>"
  have closed: "mt_status m = MeetingClosed" using *(1) by (simp add: finalizing_ready_def result_simps)
  note now = finalized_votes_inv [OF assms(1) closed *(2)]
  then have "list_all2 (vote_for cr (m\<lparr>mt_votes := votes\<rparr>)) (filter (\<lambda>i. is_vote (ai_body i)) (mt_items m)) votes"
    using closed by (simp add: meeting_inv_def)
  then have "list_all2 (vote_for cr m') (filter (\<lambda>i. is_vote (ai_body i)) (mt_items m)) votes"
    by (rule list_all2_mono) (simp add: vote_for_def *(4))
  then show ?thesis using now(1) now(2) [OF *(3)] *(4) closed by (simp add: meeting_inv_def vote_stages_def)
qed (use assms(1) in simp)

lemma meeting_reaches_inv:
  assumes "decodes_blocks de" and "meeting_reaches tok hexd cr de m"
  shows "meeting_inv cr m"
  using assms(2)
proof (induction rule: meeting_reaches.induct)
  case (drafted metadata)
  show ?case by (simp add: meeting_inv_def meeting_draft_def)
next
  case (added m title body m')
  then obtain n where n: "mt_status m = MeetingDraft" "\<not> trims_to_empty title" "unat n = length (mt_items m) + 1"
    "m' = m\<lparr>mt_items := mt_items m @ [\<lparr>ai_number = n, ai_title = title, ai_body = body\<rparr>]\<rparr>"
    unfolding meeting_add_item_Ok_iff by blast
  have "wf_agenda (mt_items m @ [\<lparr>ai_number = n, ai_title = title, ai_body = body\<rparr>])"
    by (rule agenda_add [OF _ n(3,2)]) (use added(3) in \<open>simp add: meeting_inv_def\<close>)
  then show ?case using added(3) n(1) by (simp add: meeting_inv_def n(4))
next
  case (convened m st io seed n ms st' m' i)
  then obtain company payload h where c: "convening_ready tok hexd cr de st seed n m = Ok (company, payload)"
    "m' = m\<lparr>mt_company := company_id_str company, mt_convened := Some (i, h), mt_status := MeetingConvened\<rparr>"
    unfolding meeting_convene_Ok_iff by blast
  from c(1) have r: "mt_status m = MeetingDraft" "wf_agenda (mt_items m)"
    "compose_convened tok hexd company n (mt_metadata m) (Agenda (mt_items m)) = Ok payload"
    unfolding convening_ready_Ok_iff by blast+
  have written: "metadata_validate (mt_metadata m) = Ok ()"
    "read_meeting_record tok hexd payload = Ok \<lparr>mr_company = company, mr_notarisation = n, mr_body = Convened (mt_metadata m) (Agenda (mt_items m))\<rparr>"
    using compose_convened_valid [of tok hexd company n "mt_metadata m" "Agenda (mt_items m)"] unfolding r(3) rvalid_simps by blast+
  have "wf_label (company_id_str company)"
    using read_meeting_record_valid [of tok hexd payload] unfolding written(2) by (simp add: wf_meeting_record_def)
  then show ?case using convened(4) r(1,2) written(1) by (simp add: meeting_inv_def c(2))
next
  case (opened m st m')
  then show ?case using meeting_opened_inv [OF assms(1)] by blast
next
  case (received m number b m')
  then obtain v v' where v: "mt_status m = MeetingOpen" "map_of (mt_votes m) number = Some v" "vote_cast cr v b = Ok v'"
    "m' = m\<lparr>mt_votes := replace_vote number v' (mt_votes m)\<rparr>"
    unfolding meeting_cast_Ok_iff by blast
  have inv: "list_all2 (vote_for cr m) (filter (\<lambda>i. is_vote (ai_body i)) (mt_items m)) (mt_votes m)"
    "\<forall>e \<in> set (mt_votes m). vt_status (snd e) \<in> vote_stages (mt_status m)"
    using received(3) v(1) by (simp_all add: meeting_inv_def)
  have mem: "(number, v) \<in> set (mt_votes m)" using v(2) by (rule map_of_SomeD)
  then have "vote_inv cr v" using inv(1) by (auto simp: list_all2_conv_all_nth in_set_conv_nth vote_for_def)
  then have v': "vote_inv cr v'" "vt_snapshot v' = vt_snapshot v" "vt_status v' = VoteOpen"
    using v(3) vote_inv_cast by (auto simp: vote_cast_Ok_iff)
  have "list_all2 (vote_for cr m) (filter (\<lambda>i. is_vote (ai_body i)) (mt_items m)) (mt_votes m')"
    unfolding v(4) using replace_vote_for [OF inv(1) v(2) v'(1,2)] by simp
  then have "list_all2 (vote_for cr m') (filter (\<lambda>i. is_vote (ai_body i)) (mt_items m)) (mt_votes m')"
    by (rule list_all2_mono) (simp add: vote_for_def v(4))
  moreover have "vt_status (snd e) \<in> vote_stages MeetingOpen" if "e \<in> set (mt_votes m')" for e
    using replace_vote_set [OF v(2), of e v'] that inv(2) v(1) v'(3) by (auto simp: v(4) vote_stages_def)
  ultimately show ?case using received(3) v(1) by (simp add: meeting_inv_def v(4))
next
  case (closed m st m' x)
  then show ?case using meeting_closed_inv by blast
next
  case (finalized m st io seed n ms st' m' y)
  then show ?case using meeting_finalized_inv by blast
qed

section \<open>Nothing panics\<close>

lemma open_item_no_Panic:
  assumes "decodes_blocks de" and "represents cr bs st" and "is_vote (ai_body i)"
  shows "open_item tok hexd de st at channel i \<noteq> Panic"
proof -
  obtain d where "ai_body i = VoteItem d" using assms(3) by (cases "ai_body i") (simp_all add: is_vote_def)
  then show ?thesis
    using vote_freeze_no_Panic [OF assms(1,2)] by (auto simp: open_item_def result_simps vote_open_def)
qed

lemma close_votes_no_Panic:
  assumes "decodes_blocks de" and "represents cr bs st" and "\<forall>e \<in> set votes. vote_inv cr (snd e)"
  shows "snd (close_votes tok hexd de st votes) \<noteq> Panic"
  using assms(3)
proof (induction votes)
  case (Cons e r)
  obtain n v where e: "e = (n, v)" by (cases e)
  have v: "vote_inv cr v" using Cons.prems by (simp add: e)
  show ?case
  proof (cases "vote_close v")
    case (Ok v1)
    have "vote_evaluate tok hexd de st v1 \<noteq> Panic"
      by (rule vote_store_operations_no_Panic(1) [OF assms(1,2) vote_inv_steps(1) [OF v Ok]])
    then show ?thesis
      using Cons Ok by (cases "vote_evaluate tok hexd de st v1") (auto simp: e split: prod.splits)
  qed (use vote_operations_no_Panic(2) [OF v] in \<open>simp_all add: e\<close>)
qed simp

lemma meeting_votes_inv:
  assumes "meeting_inv cr m" and "e \<in> set (mt_votes m)"
  shows "vote_inv cr (snd e)"
proof -
  have "list_all2 (vote_for cr m) (filter (\<lambda>i. is_vote (ai_body i)) (mt_items m)) (mt_votes m)"
    using assms by (auto simp: meeting_inv_def split: if_splits)
  then show ?thesis using assms(2) by (auto simp: list_all2_conv_all_nth in_set_conv_nth vote_for_def)
qed

lemma meeting_operations_no_Panic:
  assumes "meeting_inv cr m"
  shows "meeting_add_item title body m \<noteq> Panic" "meeting_cast cr number b m \<noteq> Panic" "meeting_final_record m \<noteq> Panic"
    "conclude_ready tok hexd n m \<noteq> Panic"
proof -
  show "meeting_add_item title body m \<noteq> Panic" by (auto simp: meeting_add_item_def result_simps)
  have "vote_cast cr v b \<noteq> Panic" if "map_of (mt_votes m) number = Some v" for v
    using vote_operations_no_Panic(3) [OF meeting_votes_inv [OF assms map_of_SomeD [OF that]]] by simp
  then show "meeting_cast cr number b m \<noteq> Panic"
    by (auto simp: meeting_cast_def item_of_def meeting_vote_def result_simps)
  show final: "meeting_final_record m \<noteq> Panic" by (auto simp: meeting_final_record_def Let_def result_simps)
  have "compose_final tok hexd company n r \<noteq> Panic" "company_id_new c \<noteq> Panic" for company r c
    using compose_final_valid [of tok hexd company n r] by (auto simp: company_id_new_def Let_def split: list.split)
  then show "conclude_ready tok hexd n m \<noteq> Panic" using final by (auto simp: conclude_ready_def result_simps)
qed

lemma meeting_store_operations_no_Panic:
  assumes "decodes_blocks de" and "represents cr bs st" and "meeting_inv cr m"
  shows "convening_ready tok hexd cr de st seed n m \<noteq> Panic" "meeting_open tok hexd de st m \<noteq> Panic"
    "snd (meeting_close tok hexd de st m) \<noteq> Panic" "finalizing_ready tok hexd cr de st seed m \<noteq> Panic"
proof -
  have "compose_convened tok hexd company n x a \<noteq> Panic" "agenda_new items \<noteq> Panic" for company x a items
    using compose_convened_valid [of tok hexd company n x a] agenda_new_valid [of items] by auto
  then show "convening_ready tok hexd cr de st seed n m \<noteq> Panic"
    using company_now_no_Panic [OF assms(1,2)] authorised_signer_no_Panic by (auto simp: convening_ready_def result_simps)
  have "rcollect (open_item tok hexd de st at channel) (filter (\<lambda>i. is_vote (ai_body i)) items) \<noteq> Panic" for at channel items
    by (rule rcollect_no_Panic) (use open_item_no_Panic [OF assms(1,2)] in auto)
  moreover have "metadata_channel x \<noteq> Panic" for x
    by (auto simp: metadata_channel_def channel_id_new_def Let_def result_simps split: list.split)
  ultimately show "meeting_open tok hexd de st m \<noteq> Panic"
    using head_block_represents(1) [OF assms(1,2)] by (auto simp: meeting_open_def Let_def result_simps)
  have "snd (close_votes tok hexd de st (mt_votes m)) \<noteq> Panic"
    by (rule close_votes_no_Panic [OF assms(1,2)]) (use meeting_votes_inv [OF assms(3)] in blast)
  then show "snd (meeting_close tok hexd de st m) \<noteq> Panic"
    using meeting_close_cases [of tok hexd de st m] by (cases "meeting_close tok hexd de st m") auto
  show "finalizing_ready tok hexd cr de st seed m \<noteq> Panic"
    using company_now_no_Panic [OF assms(1,2)] authorised_signer_no_Panic by (auto simp: finalizing_ready_def result_simps)
qed

lemma meeting_namespace: "wf_label MEETING_NAMESPACE" "\<not> company_namespace MEETING_NAMESPACE"
proof -
  show "wf_label MEETING_NAMESPACE" unfolding wf_label_def by code_simp
  show "\<not> company_namespace MEETING_NAMESPACE"
    by (auto simp: company_namespace_def MEETING_NAMESPACE_def kind_namespace_def split: record_kind.splits)
qed

text \<open>How many of the votes are not on the chain yet.\<close>

definition pending :: "(u32 \<times> vote) list \<Rightarrow> nat" where
  "pending votes = length (filter (\<lambda>e. vt_finalized (snd e) = None) votes)"

lemma pending_simps [simp]:
  "pending [] = 0" "vt_finalized v = None \<Longrightarrow> pending ((n, v) # r) = Suc (pending r)"
  "vt_finalized v \<noteq> None \<Longrightarrow> pending ((n, v) # r) = pending r"
  by (simp_all add: pending_def)

text \<open>
  What an operation of several commits may do to a store that represents the chain \<open>bs\<close>: it puts the blocks
  \<open>new\<close> behind it, each with one transaction, and the program still holds a reachable store.
\<close>

definition writes_more ::
    "crypto \<Rightarrow> (bytes \<Rightarrow> (block \<times> bytes) option) \<Rightarrow> block list \<Rightarrow> chain_store \<Rightarrow> nat \<Rightarrow> bool" where
  "writes_more cr de bs st' k \<longleftrightarrow> reachable cr de st' \<and>
     (\<exists>new. represents cr (bs @ new) st' \<and> length new = k \<and> (\<forall>b \<in> set new. length (b_transactions b) = 1))"

lemma writes_more_zero: "reachable cr de st \<Longrightarrow> represents cr bs st \<Longrightarrow> writes_more cr de bs st 0"
  by (auto simp: writes_more_def intro!: exI [of _ "[]"])

lemma writes_more_one:
  assumes "writes_one cr de bs st (st', Ok x)"
  shows "writes_more cr de bs st' 1"
proof -
  obtain b where "reachable cr de st'" "length (b_transactions b) = 1" "represents cr (bs @ [b]) st'"
    using assms by (auto simp: writes_one_def)
  then show ?thesis by (auto simp: writes_more_def intro!: exI [of _ "[b]"])
qed

lemma one_each: "\<forall>b \<in> set new. length (b_transactions b) = 1 \<Longrightarrow> length (chain_ids new) = length new"
  by (induction new) auto

lemma writes_more_store:
  assumes "writes_more cr de bs st' k"
  obtains new where "reachable cr de st'" "represents cr (bs @ new) st'" "length (chain_ids (bs @ new)) = length (chain_ids bs) + k"
    "length new = k" "\<forall>b \<in> set new. length (b_transactions b) = 1"
proof -
  obtain new where new: "reachable cr de st'" "represents cr (bs @ new) st'" "length new = k" "\<forall>b \<in> set new. length (b_transactions b) = 1"
    using assms by (auto simp: writes_more_def)
  have "length (chain_ids (bs @ new)) = length (chain_ids bs) + k" using one_each [OF new(4)] new(3) by simp
  then show thesis using that new by blast
qed

lemma writes_more_add:
  assumes "represents cr (bs @ new) st'" and "length new = k" and "\<forall>b \<in> set new. length (b_transactions b) = 1"
    and "writes_more cr de (bs @ new) st'' j"
  shows "writes_more cr de bs st'' (k + j)"
proof -
  obtain more where "reachable cr de st''" "represents cr ((bs @ new) @ more) st''" "length more = j"
    "\<forall>b \<in> set more. length (b_transactions b) = 1"
    using assms(4) by (auto simp: writes_more_def)
  then show ?thesis using assms(2,3) by (auto simp: writes_more_def intro!: exI [of _ "new @ more"])
qed

lemma finalize_votes_writes:
  assumes de: "decodes_blocks de"
  shows "reachable cr de st \<Longrightarrow> represents cr bs st \<Longrightarrow> length (chain_ids bs) + pending votes < 2 ^ 64 \<Longrightarrow>
    \<forall>e \<in> set votes. vote_inv cr (snd e) \<and>
      (vt_finalized (snd e) = None \<longrightarrow> (\<forall>r. vote_final_record cr (snd e) = Ok r \<longrightarrow> fits_u32 (enc_vote_record r))) \<Longrightarrow>
    finalize_votes tok hexd cr de io k st seed ms votes = (st', votes', x) \<Longrightarrow>
    x \<noteq> Panic \<and> length votes' = length votes \<and> pending votes' \<le> pending votes \<and> writes_more cr de bs st' (pending votes - pending votes')"
proof (induction votes arbitrary: k st bs st' votes' x)
  case Nil
  then show ?case by (auto intro: writes_more_zero)
next
  case (Cons e rest)
  obtain n v where e: "e = (n, v)" by (cases e)
  show ?case
  proof (cases "vt_finalized v = None")
    case False
    obtain st1 r' y where r: "finalize_votes tok hexd cr de io (Suc k) st seed ms rest = (st1, r', y)"
      by (cases "finalize_votes tok hexd cr de io (Suc k) st seed ms rest")
    have "votes' = (n, v) # r'" "x = y" "st' = st1" using Cons.prems(5) False r by (simp_all add: e)
    then show ?thesis using Cons.IH [OF Cons.prems(1,2) _ _ r] Cons.prems(3,4) False by (simp add: e)
  next
    case True
    have inv: "vote_inv cr v" and fits: "\<And>r. vote_final_record cr v = Ok r \<Longrightarrow> fits_u32 (enc_vote_record r)"
      using Cons.prems(4) True by (simp_all add: e)
    have room: "length (chain_ids bs) + 1 < 2 ^ 64" using Cons.prems(3) True by (simp add: e)
    obtain st1 y where f: "vote_finalize tok hexd cr de (io k) st seed ms v = (st1, y)"
      by (cases "vote_finalize tok hexd cr de (io k) st seed ms v")
    have one: "writes_one cr de bs st (st1, y)"
      unfolding f [symmetric]
      by (rule vote_finalize_writes_one [OF de Cons.prems(1,2) room inv]) (auto simp: vote_ready_Ok_iff fits)
    show ?thesis
    proof (cases y)
      case (Ok p)
      obtain v' w where p: "p = (v', w)" by (cases p)
      have v': "vt_finalized v' \<noteq> None" using f by (auto simp: Ok p vote_finalize_Ok_iff)
      obtain st2 r' z where r: "finalize_votes tok hexd cr de io (Suc k) st1 seed ms rest = (st2, r', z)"
        by (cases "finalize_votes tok hexd cr de io (Suc k) st1 seed ms rest")
      have eq: "votes' = (n, v') # r'" "x = z" "st' = st2" using Cons.prems(5) True f Ok r by (simp_all add: e p)
      obtain new where new: "reachable cr de st1" "represents cr (bs @ new) st1" "length (chain_ids (bs @ new)) = length (chain_ids bs) + 1"
        "length new = 1" "\<forall>b \<in> set new. length (b_transactions b) = 1"
        by (rule writes_more_store [OF writes_more_one [OF one [unfolded Ok]]])
      have IH: "z \<noteq> Panic" "length r' = length rest" "pending r' \<le> pending rest" "writes_more cr de (bs @ new) st2 (pending rest - pending r')"
        using Cons.IH [OF new(1,2) _ _ r] Cons.prems(3,4) True unfolding new(3) by (simp_all add: e)
      have "writes_more cr de bs st2 (1 + (pending rest - pending r'))" by (rule writes_more_add [OF new(2,4,5) IH(4)])
      then show ?thesis using IH(1-3) True v' by (simp add: eq e Suc_diff_le)
    next
      case (Err e')
      then have "st1 = st" using one by simp
      then show ?thesis using Cons.prems(1,2,5) True f Err by (auto simp: e intro: writes_more_zero)
    qed (use one in simp)
  qed
qed

lemma meeting_append_writes_one:
  assumes "decodes_blocks de" and "reachable cr de st" and "represents cr bs st"
    and "length (chain_ids bs) + 1 < 2 ^ 64" and "fits_u32 (str_bytes payload)"
  shows "writes_one cr de bs st (meeting_append cr de io st seed payload ms)"
  using writes_one_bind [OF seal_writes_one [OF assms(1-4) meeting_namespace(1) assms(5)],
      where f = meeting_of_seal and g = "\<lambda>p. p"]
  by (simp add: meeting_append_def case_prod_unfold Let_def)

lemma meeting_convene_writes_one:
  assumes "decodes_blocks de" and "reachable cr de st" and "represents cr bs st" and "meeting_inv cr m"
    and "length (chain_ids bs) + 1 < 2 ^ 64"
    and fits: "\<And>company payload. convening_ready tok hexd cr de st seed n m = Ok (company, payload) \<Longrightarrow> fits_u32 (str_bytes payload)"
  shows "writes_one cr de bs st (meeting_convene tok hexd cr de io st seed n ms m)"
proof (cases "convening_ready tok hexd cr de st seed n m")
  case (Ok p)
  obtain company payload where p: "p = (company, payload)" by (cases p)
  have "writes_one cr de bs st (meeting_append cr de io st seed payload ms)"
    by (rule meeting_append_writes_one [OF assms(1-3,5) fits]) (simp add: Ok p)
  from writes_one_bind [OF this, of "\<lambda>e. e" "\<lambda>(i, height). (m\<lparr>mt_company := company_id_str company,
      mt_convened := Some (i, height), mt_status := MeetingConvened\<rparr>, i)"]
  show ?thesis
    by (cases "snd (meeting_append cr de io st seed payload ms)") (auto simp: meeting_convene_def Ok p case_prod_unfold Let_def)
next
  case Panic
  then show ?thesis using meeting_store_operations_no_Panic(1) [OF assms(1,3,4)] by blast
qed (simp add: meeting_convene_def)

lemma meeting_finalize_writes:
  assumes de: "decodes_blocks de" and st: "reachable cr de st" and rep: "represents cr bs st" and inv: "meeting_inv cr m"
    and room: "length (chain_ids bs) + pending (mt_votes m) + 1 < 2 ^ 64"
    and votes_fit: "\<And>e r. e \<in> set (mt_votes m) \<Longrightarrow> vt_finalized (snd e) = None \<Longrightarrow> vote_final_record cr (snd e) = Ok r \<Longrightarrow>
      fits_u32 (enc_vote_record r)"
    and record_fits: "\<And>st1 votes r payload. finalize_votes tok hexd cr de io 0 st seed ms (mt_votes m) = (st1, votes, Ok ()) \<Longrightarrow>
      conclude_ready tok hexd n (m\<lparr>mt_votes := votes\<rparr>) = Ok (r, payload) \<Longrightarrow> fits_u32 (str_bytes payload)"
    and run: "meeting_finalize tok hexd cr de io st seed n ms m = (st', m', x)"
  shows "x \<noteq> Panic \<and> pending (mt_votes m') \<le> pending (mt_votes m) \<and>
    writes_more cr de bs st' (pending (mt_votes m) - pending (mt_votes m') + (if \<exists>f. x = Ok f then 1 else 0))"
proof (cases "finalizing_ready tok hexd cr de st seed m")
  case (Ok u)
  then have closed: "mt_status m = MeetingClosed" by (simp add: finalizing_ready_def result_simps)
  obtain st1 votes y where v: "finalize_votes tok hexd cr de io 0 st seed ms (mt_votes m) = (st1, votes, y)"
    by (cases "finalize_votes tok hexd cr de io 0 st seed ms (mt_votes m)")
  have votes: "y \<noteq> Panic" "pending votes \<le> pending (mt_votes m)" "writes_more cr de bs st1 (pending (mt_votes m) - pending votes)"
    using finalize_votes_writes [OF de st rep _ _ v] room meeting_votes_inv [OF inv] votes_fit by auto
  show ?thesis
  proof (cases y)
    case y: (Ok w)
    obtain new where new: "reachable cr de st1" "represents cr (bs @ new) st1"
      "length (chain_ids (bs @ new)) = length (chain_ids bs) + (pending (mt_votes m) - pending votes)"
      "length new = pending (mt_votes m) - pending votes" "\<forall>b \<in> set new. length (b_transactions b) = 1"
      by (rule writes_more_store [OF votes(3)])
    show ?thesis
    proof (cases "conclude_ready tok hexd n (m\<lparr>mt_votes := votes\<rparr>)")
      case c: (Ok p)
      obtain r payload where p: "p = (r, payload)" by (cases p)
      obtain st2 z where a: "meeting_append cr de (io (length votes)) st1 seed payload ms = (st2, z)"
        by (cases "meeting_append cr de (io (length votes)) st1 seed payload ms")
      have one: "writes_one cr de (bs @ new) st1 (st2, z)"
        unfolding a [symmetric]
        by (rule meeting_append_writes_one [OF de new(1,2)]) (use room new(3) record_fits [of st1 votes r payload] v y c p in simp_all)
      show ?thesis
      proof (cases z)
        case (Ok q)
        then have "writes_more cr de bs st2 (pending (mt_votes m) - pending votes + 1)"
          by (intro writes_more_add [OF new(2,4,5) writes_more_one]) (rule one [unfolded Ok])
        then show ?thesis using run votes(2) by (cases q) (auto simp: meeting_finalize_def \<open>finalizing_ready tok hexd cr de st seed m = Ok u\<close> v y c p a Ok)
      next
        case (Err e)
        then have "st2 = st1" using one by simp
        then show ?thesis using run votes by (auto simp: meeting_finalize_def Ok v y c p a Err)
      qed (use one in simp)
    next
      case Panic
      then show ?thesis using meeting_operations_no_Panic(4) [OF finalized_votes_inv(1) [OF inv closed v]] by blast
    qed (use run votes in \<open>auto simp: meeting_finalize_def Ok v y\<close>)
  qed (use run votes in \<open>auto simp: meeting_finalize_def Ok v\<close>)
next
  case Panic
  then show ?thesis using meeting_store_operations_no_Panic(4) [OF de rep inv] by blast
qed (use run writes_more_zero [OF st rep] in \<open>auto simp: meeting_finalize_def\<close>)

section \<open>What meetings promise\<close>

lemma meeting_transitions:
  "meeting_add_item title body m = Ok m' \<Longrightarrow> mt_status m = MeetingDraft \<and> mt_status m' = MeetingDraft"
  "meeting_convene tok hexd cr de io st seed n ms m = (st', Ok (m', i)) \<Longrightarrow>
     mt_status m = MeetingDraft \<and> mt_status m' = MeetingConvened \<and> mt_items m' = mt_items m"
  "meeting_open tok hexd de st m = Ok m' \<Longrightarrow> mt_status m = MeetingConvened \<and> mt_status m' = MeetingOpen \<and> mt_items m' = mt_items m"
  "meeting_cast cr number b m = Ok m' \<Longrightarrow> mt_status m = MeetingOpen \<and> mt_status m' = MeetingOpen \<and> mt_items m' = mt_items m"
  by (auto simp: meeting_add_item_Ok_iff meeting_convene_Ok_iff convening_ready_Ok_iff meeting_open_Ok_iff meeting_cast_Ok_iff)

lemma meeting_close_transition:
  assumes "meeting_close tok hexd de st m = (m', x)"
  shows "mt_items m' = mt_items m" "x = Ok () \<Longrightarrow> mt_status m = MeetingOpen \<and> mt_status m' = MeetingClosed"
    "x \<noteq> Ok () \<Longrightarrow> mt_status m' = mt_status m"
  using meeting_close_cases [OF assms] by auto

lemma meeting_finalize_transition:
  assumes "meeting_finalize tok hexd cr de io st seed n ms m = (st', m', x)"
  shows "mt_items m' = mt_items m" "x = Ok f \<Longrightarrow> mt_status m = MeetingClosed \<and> mt_status m' = MeetingFinalized"
    "(\<forall>f. x \<noteq> Ok f) \<Longrightarrow> mt_status m' = mt_status m"
    "e \<in> set (mt_votes m) \<Longrightarrow> vt_finalized (snd e) \<noteq> None \<Longrightarrow> e \<in> set (mt_votes m')"
proof -
  note cases = meeting_finalize_cases [OF assms]
  show "mt_items m' = mt_items m" "x = Ok f \<Longrightarrow> mt_status m = MeetingClosed \<and> mt_status m' = MeetingFinalized"
    "(\<forall>f. x \<noteq> Ok f) \<Longrightarrow> mt_status m' = mt_status m"
    using cases by (auto simp: finalizing_ready_def result_simps)
  assume e: "e \<in> set (mt_votes m)" "vt_finalized (snd e) \<noteq> None"
  have "e \<in> set votes" if "finalize_votes tok hexd cr de io 0 st seed ms (mt_votes m) = (st1, votes, y)" for st1 votes y
  proof -
    have "list_all2 (\<lambda>e e'. vt_finalized (snd e) \<noteq> None \<longrightarrow> e' = e) (mt_votes m) votes"
      using finalize_votes_kept [OF that] by blast
    then show ?thesis using e by (induction rule: list_all2_induct) auto
  qed
  then show "e \<in> set (mt_votes m')" using cases e(1) by auto
qed

text \<open>
  A meeting whose closing failed stays open, but its first vote is closed by then: closing it again, on
  whatever store, is refused at that vote.
\<close>

lemma close_not_resumable:
  assumes "meeting_close tok hexd de st m = (m', x)" and "mt_status m = MeetingOpen" and "x \<noteq> Ok ()"
  shows "mt_status m' = MeetingOpen \<and> (\<exists>n s. \<forall>st'. meeting_close tok hexd de st' m' = (m', Err (MeetingVote n (VoteInvalidTransition s ''close''))))"
proof -
  obtain votes where c: "close_votes tok hexd de st (mt_votes m) = (votes, x)" "m' = m\<lparr>mt_votes := votes, mt_status := MeetingOpen\<rparr>"
    using meeting_close_cases [OF assms(1)] assms(2,3) by auto
  obtain n v r where first: "mt_votes m = (n, v) # r" using c(1) assms(3) by (cases "mt_votes m") auto
  obtain v' r' where v': "votes = (n, v') # r'" "vt_status v' \<noteq> VoteOpen"
  proof (cases "vote_close v")
    case (Ok v1)
    have v1: "vt_status v1 = VoteClosed" using Ok by (auto simp: vote_close_Ok_iff)
    show thesis
    proof (cases "vote_evaluate tok hexd de st v1")
      case ev: (Ok p)
      obtain v2 w where p: "p = (v2, w)" by (cases p)
      have "vt_status v2 = VoteEvaluated" using ev by (auto simp: p vote_evaluate_Ok_iff)
      then show thesis using c(1) first Ok ev that by (auto simp: p split: prod.splits)
    qed (use c(1) first Ok v1 that in auto)
  next
    case (Err e)
    then have "vt_status v \<noteq> VoteOpen" by (auto simp: vote_close_def result_simps)
    then show thesis using c(1) first Err by (intro that [of v r]) simp_all
  next
    case Panic
    then show thesis by (auto simp: vote_close_def result_simps)
  qed
  have "vote_close v' = Err (VoteInvalidTransition (vt_status v') ''close'')" using v'(2) by (simp add: vote_close_def vote_expect_def)
  then have "meeting_close tok hexd de st' m' = (m', Err (MeetingVote n (VoteInvalidTransition (vt_status v') ''close'')))" for st'
    by (simp add: meeting_close_def meeting_expect_def c(2) v'(1))
  then show ?thesis by (auto simp: c(2))
qed

text \<open>
  C38: A meeting is a state machine that cannot go wrong. Whatever operations are called in whatever order
  and against whatever stores, a meeting holds what its status says: an agenda numbered from one, fixed
  once it is convened; once opened, exactly one vote for every vote item, in agenda order, about that item
  and frozen at the opening height for the meeting's channel, each of which is itself in order and as far
  as the meeting is. Nothing panics, every operation goes through only in its own status, and a
  finalisation that fails keeps the status and every vote that is already on the chain. For the two
  operations that write, this is given room for their transactions on the chain and records that have a
  canonical encoding: convening then puts one block on the chain or returns an error and leaves the
  store as it was; finalising puts one block on the chain for every vote it finalises and one more for
  its own record exactly when it goes through, whichever commit fails.
\<close>

theorem meeting_machine:
  assumes "decodes_blocks de" and "meeting_reaches tok hexd cr de m"
  shows "meeting_inv cr m \<and>
    meeting_add_item title body m \<noteq> Panic \<and> meeting_cast cr number b m \<noteq> Panic \<and> conclude_ready tok hexd n m \<noteq> Panic \<and>
    (\<forall>st. reachable cr de st \<longrightarrow> convening_ready tok hexd cr de st seed n m \<noteq> Panic \<and> meeting_open tok hexd de st m \<noteq> Panic \<and>
       snd (meeting_close tok hexd de st m) \<noteq> Panic \<and> finalizing_ready tok hexd cr de st seed m \<noteq> Panic) \<and>
    (\<forall>m'. meeting_add_item title body m = Ok m' \<longrightarrow> mt_status m = MeetingDraft \<and> mt_status m' = MeetingDraft) \<and>
    (\<forall>io st ms st' m' i. meeting_convene tok hexd cr de io st seed n ms m = (st', Ok (m', i)) \<longrightarrow>
       mt_status m = MeetingDraft \<and> mt_status m' = MeetingConvened \<and> mt_items m' = mt_items m) \<and>
    (\<forall>st m'. meeting_open tok hexd de st m = Ok m' \<longrightarrow>
       mt_status m = MeetingConvened \<and> mt_status m' = MeetingOpen \<and> mt_items m' = mt_items m) \<and>
    (\<forall>m'. meeting_cast cr number b m = Ok m' \<longrightarrow> mt_status m = MeetingOpen \<and> mt_status m' = MeetingOpen \<and> mt_items m' = mt_items m) \<and>
    (\<forall>st m'. meeting_close tok hexd de st m = (m', Ok ()) \<longrightarrow>
       mt_status m = MeetingOpen \<and> mt_status m' = MeetingClosed \<and> mt_items m' = mt_items m) \<and>
    (\<forall>io st ms st' m' x. meeting_finalize tok hexd cr de io st seed n ms m = (st', m', x) \<longrightarrow>
       mt_items m' = mt_items m \<and> {e \<in> set (mt_votes m). vt_finalized (snd e) \<noteq> None} \<subseteq> set (mt_votes m') \<and>
       (if \<exists>f. x = Ok f then mt_status m = MeetingClosed \<and> mt_status m' = MeetingFinalized else mt_status m' = mt_status m)) \<and>
    (\<forall>st bs io ms. reachable cr de st \<and> represents cr bs st \<and> length (chain_ids bs) + 1 < 2 ^ 64 \<and>
       (\<forall>company payload. convening_ready tok hexd cr de st seed n m = Ok (company, payload) \<longrightarrow> fits_u32 (str_bytes payload)) \<longrightarrow>
       snd (meeting_convene tok hexd cr de io st seed n ms m) \<noteq> Panic \<and>
       writes_one cr de bs st (meeting_convene tok hexd cr de io st seed n ms m)) \<and>
    (\<forall>st bs io ms st' m' x. reachable cr de st \<and> represents cr bs st \<and>
       length (chain_ids bs) + pending (mt_votes m) + 1 < 2 ^ 64 \<and>
       (\<forall>e r. e \<in> set (mt_votes m) \<and> vt_finalized (snd e) = None \<and> vote_final_record cr (snd e) = Ok r \<longrightarrow>
          fits_u32 (enc_vote_record r)) \<and>
       (\<forall>st1 votes r payload. finalize_votes tok hexd cr de io 0 st seed ms (mt_votes m) = (st1, votes, Ok ()) \<and>
          conclude_ready tok hexd n (m\<lparr>mt_votes := votes\<rparr>) = Ok (r, payload) \<longrightarrow> fits_u32 (str_bytes payload)) \<and>
       meeting_finalize tok hexd cr de io st seed n ms m = (st', m', x) \<longrightarrow>
       x \<noteq> Panic \<and> pending (mt_votes m') \<le> pending (mt_votes m) \<and>
       writes_more cr de bs st' (pending (mt_votes m) - pending (mt_votes m') + (if \<exists>f. x = Ok f then 1 else 0)))"
proof -
  have inv: "meeting_inv cr m" by (rule meeting_reaches_inv [OF assms])
  have ops: "convening_ready tok hexd cr de st seed n m \<noteq> Panic \<and> meeting_open tok hexd de st m \<noteq> Panic \<and>
      snd (meeting_close tok hexd de st m) \<noteq> Panic \<and> finalizing_ready tok hexd cr de st seed m \<noteq> Panic" if "reachable cr de st" for st
    by (rule reachable_represents [OF that assms(1)]) (use meeting_store_operations_no_Panic [OF assms(1) _ inv] in blast)
  have closing: "mt_status m = MeetingOpen \<and> mt_status m' = MeetingClosed \<and> mt_items m' = mt_items m"
    if "meeting_close tok hexd de st m = (m', Ok ())" for st m'
    using meeting_close_transition [OF that] by simp
  have finalizing: "mt_items m' = mt_items m \<and> {e \<in> set (mt_votes m). vt_finalized (snd e) \<noteq> None} \<subseteq> set (mt_votes m') \<and>
      (if \<exists>f. x = Ok f then mt_status m = MeetingClosed \<and> mt_status m' = MeetingFinalized else mt_status m' = mt_status m)"
    if "meeting_finalize tok hexd cr de io st seed n ms m = (st', m', x)" for io st ms st' m' x
    using meeting_finalize_transition [OF that] by auto
  have convening: "snd (meeting_convene tok hexd cr de io st seed n ms m) \<noteq> Panic \<and>
      writes_one cr de bs st (meeting_convene tok hexd cr de io st seed n ms m)"
    if "reachable cr de st \<and> represents cr bs st \<and> length (chain_ids bs) + 1 < 2 ^ 64 \<and>
       (\<forall>company payload. convening_ready tok hexd cr de st seed n m = Ok (company, payload) \<longrightarrow> fits_u32 (str_bytes payload))"
    for st bs io ms
    using meeting_convene_writes_one [OF assms(1) _ _ inv] that writes_one_no_Panic by meson
  show ?thesis
    by (intro conjI; (rule inv | rule meeting_operations_no_Panic [OF inv]
        | intro allI impI, (erule ops | erule meeting_transitions | erule closing | erule finalizing | erule convening
          | elim conjE, erule (2) meeting_finalize_writes [OF assms(1) _ _ inv]; blast)))
qed

end
