(* ===== verification/Irena_Meeting_Verify.thy ===== *)
theory Irena_Meeting_Verify
  imports Irena_Meeting_Process
begin

text \<open>
  What \<open>verify.rs\<close> of \<open>irena-meeting\<close> establishes: the specification \<open>meeting_holds\<close> of a final record, the
  proof that the checks decide it (\<open>meeting_checks_exact\<close>), and that a meeting which went through the process
  verifies on every later store, whatever follows (\<open>finalised_votes\<close> for its votes, \<open>convened_meeting\<close>,
  \<open>held_meeting\<close> and \<open>concluded_meeting\<close> for its stages).
\<close>

section \<open>Independent verification\<close>

datatype meeting_check_name =
    MeetingDecodes | ConveningExists | HeightsOrdered | AgendaMatches | MetadataMatches | CompanyReconstructs
  | MeetingSignersAuthorised | VotesVerify | VotesBelong | ItemsConsistent

record meeting_verification =
  mv_tx_id :: tx_id
  mv_height :: block_height
  mv_record :: "meeting_final option"
  mv_checks :: "(meeting_check_name \<times> bool) list"
  mv_votes :: "(u32 \<times> vote_verification) list"

definition meeting_is_valid :: "meeting_verification \<Rightarrow> bool" where
  "meeting_is_valid v \<longleftrightarrow>
     mv_checks v \<noteq> [] \<and> list_all snd (mv_checks v) \<and> list_all (\<lambda>(_, vote). vote_is_valid vote) (mv_votes v)"

text \<open>A transaction that holds a meeting record: in the namespace, UTF-8, and readable.\<close>

definition read_payload ::
    "(string \<Rightarrow> xml_reader) \<Rightarrow> (string \<Rightarrow> bytes option) \<Rightarrow> transaction \<Rightarrow> ('e, meeting_record option) result" where
  "read_payload tok hexd t =
     (if namespace_str (t_namespace t) \<noteq> MEETING_NAMESPACE then Ok None
      else if \<not> utf8_valid (t_payload t) then Ok None
      else caught (read_meeting_record tok hexd (text_of_bytes (t_payload t))))"

definition meeting_decode ::
    "(string \<Rightarrow> xml_reader) \<Rightarrow> (string \<Rightarrow> bytes option) \<Rightarrow> transaction \<Rightarrow> ('e, (string \<times> meeting_final) option) result" where
  "meeting_decode tok hexd t =
     rbind (read_payload tok hexd t) (\<lambda>r. Ok (case r of
       None \<Rightarrow> None
     | Some r \<Rightarrow> (case mr_body r of Concluded f \<Rightarrow> Some (company_id_str (mr_company r), f) | Convened _ _ \<Rightarrow> None)))"

definition read_convening ::
    "(string \<Rightarrow> xml_reader) \<Rightarrow> (string \<Rightarrow> bytes option) \<Rightarrow> transaction
      \<Rightarrow> ('e, (string \<times> meeting_metadata \<times> agenda) option) result" where
  "read_convening tok hexd t =
     rbind (read_payload tok hexd t) (\<lambda>r. Ok (case r of
       None \<Rightarrow> None
     | Some r \<Rightarrow> (case mr_body r of Convened m a \<Rightarrow> Some (company_id_str (mr_company r), m, a) | Concluded _ \<Rightarrow> None)))"

text \<open>The vote of one item: whether it verifies, whether it is the one the item called for, and its report.\<close>

definition vote_belongs ::
    "string \<Rightarrow> string \<Rightarrow> block_height \<Rightarrow> block_height \<Rightarrow> final_item \<Rightarrow> hash \<Rightarrow> vote_record \<Rightarrow> block_height \<Rightarrow> bool" where
  "vote_belongs company channel opened height entry digest r vote_height \<longleftrightarrow>
     (let s = vr_snapshot r in
      vs_company s = company \<and> vs_channel s = channel \<and> vs_subject s = item_subject (fi_item entry) \<and>
      vs_proposal_digest s = digest \<and> vs_height s = opened \<and> vote_height < height \<and>
      fi_outcome entry = Some (outcome_text (vr_evaluation r)))"

definition check_entry ::
    "(string \<Rightarrow> xml_reader) \<Rightarrow> (string \<Rightarrow> bytes option) \<Rightarrow> crypto \<Rightarrow> (bytes \<Rightarrow> (block \<times> bytes) option)
      \<Rightarrow> (bytes \<Rightarrow> (vote_record \<times> bytes) option) \<Rightarrow> chain_store \<Rightarrow> string \<Rightarrow> string \<Rightarrow> block_height \<Rightarrow> block_height
      \<Rightarrow> final_item \<Rightarrow> (meeting_error, bool \<times> bool \<times> (u32 \<times> vote_verification) list) result" where
  "check_entry tok hexd cr de dv st company channel opened height entry =
     (case ai_body (fi_item entry) of
        Informational _ \<Rightarrow> Ok (True, True, [])
      | VoteItem digest \<Rightarrow>
          (case fi_vote_tx_id entry of
             None \<Rightarrow> Ok (False, True, [])
           | Some tx \<Rightarrow>
               rbind (caught (verify_vote tok hexd cr de dv st tx)) (\<lambda>verified.
               case verified of
                 None \<Rightarrow> Ok (False, True, [])
               | Some v \<Rightarrow>
                   rbind (case vv_record v of
                       None \<Rightarrow> Ok True
                     | Some r \<Rightarrow> rbind (rmap_err MeetingStore (get_transaction de st tx)) (\<lambda>located.
                         Ok (vote_belongs company channel opened height entry digest r
                           (case located of None \<Rightarrow> - 1 | Some l \<Rightarrow> lt_height l)))) (\<lambda>belongs.
                   Ok (vote_is_valid v, belongs, [(ai_number (fi_item entry), v)])))))"

definition entry_consistent :: "final_item \<Rightarrow> bool" where
  "entry_consistent entry \<longleftrightarrow>
     (case ai_body (fi_item entry) of
        Informational _ \<Rightarrow> fi_vote_tx_id entry = None \<and> fi_outcome entry = None
      | VoteItem _ \<Rightarrow> fi_vote_tx_id entry \<noteq> None)"

definition meeting_checks ::
    "(string \<Rightarrow> xml_reader) \<Rightarrow> (string \<Rightarrow> bytes option) \<Rightarrow> crypto \<Rightarrow> (bytes \<Rightarrow> (block \<times> bytes) option)
      \<Rightarrow> (bytes \<Rightarrow> (vote_record \<times> bytes) option) \<Rightarrow> chain_store \<Rightarrow> located_transaction \<Rightarrow> string \<Rightarrow> meeting_final
      \<Rightarrow> (meeting_error, (meeting_check_name \<times> bool) list \<times> (u32 \<times> vote_verification) list) result" where
  "meeting_checks tok hexd cr de dv st l company f =
     (let missing = Ok ([(MeetingDecodes, True), (ConveningExists, False)], []) in
      rbind (rmap_err MeetingStore (get_transaction de st (mf_meeting_id f))) (\<lambda>found.
      case found of
        None \<Rightarrow> missing
      | Some c \<Rightarrow>
          rbind (read_convening tok hexd (lt_transaction c)) (\<lambda>convened.
          case convened of
            None \<Rightarrow> missing
          | Some (for, metadata, agenda) \<Rightarrow>
              if for \<noteq> company then missing
              else
                rbind (caught (final_agenda f)) (\<lambda>final.
                rbind (caught (reconstruct tok hexd de st (lt_height c))) (\<lambda>state.
                rbind (signer_authorised_at tok hexd de st (lt_height c) (t_signer (lt_transaction c))) (\<lambda>by_convener.
                rbind (signer_authorised_at tok hexd de st (lt_height l) (t_signer (lt_transaction l))) (\<lambda>by_finaliser.
                rbind (rcollect (check_entry tok hexd cr de dv st company (mm_channel metadata) (mf_opened_at f) (lt_height l))
                  (mf_items f)) (\<lambda>entries.
                Ok ([(MeetingDecodes, True), (ConveningExists, True),
                     (HeightsOrdered, lt_height c \<le> mf_opened_at f \<and> mf_opened_at f < lt_height l),
                     (AgendaMatches, final = Some agenda), (MetadataMatches, metadata = mf_metadata f),
                     (CompanyReconstructs, case state of Some s \<Rightarrow> company_id_str (co_company s) = company | None \<Rightarrow> False),
                     (MeetingSignersAuthorised, by_convener \<and> by_finaliser),
                     (VotesVerify, list_all fst entries), (VotesBelong, list_all (\<lambda>e. fst (snd e)) entries),
                     (ItemsConsistent, list_all entry_consistent (mf_items f))],
                    concat (map (\<lambda>e. snd (snd e)) entries)))))))))) "

definition meeting_report ::
    "(string \<Rightarrow> xml_reader) \<Rightarrow> (string \<Rightarrow> bytes option) \<Rightarrow> crypto \<Rightarrow> (bytes \<Rightarrow> (block \<times> bytes) option)
      \<Rightarrow> (bytes \<Rightarrow> (vote_record \<times> bytes) option) \<Rightarrow> chain_store \<Rightarrow> tx_id \<Rightarrow> located_transaction
      \<Rightarrow> (meeting_error, meeting_verification) result" where
  "meeting_report tok hexd cr de dv st i l =
     (let report = \<lparr>mv_tx_id = i, mv_height = lt_height l, mv_record = None, mv_checks = [], mv_votes = []\<rparr> in
      rbind (meeting_decode tok hexd (lt_transaction l)) (\<lambda>decoded.
      case decoded of
        None \<Rightarrow> Ok (report\<lparr>mv_checks := [(MeetingDecodes, False)]\<rparr>)
      | Some (company, f) \<Rightarrow>
          rbind (meeting_checks tok hexd cr de dv st l company f) (\<lambda>(checks, votes).
          Ok (report\<lparr>mv_record := Some f, mv_checks := checks, mv_votes := votes\<rparr>))))"

definition verify_meeting ::
    "(string \<Rightarrow> xml_reader) \<Rightarrow> (string \<Rightarrow> bytes option) \<Rightarrow> crypto \<Rightarrow> (bytes \<Rightarrow> (block \<times> bytes) option)
      \<Rightarrow> (bytes \<Rightarrow> (vote_record \<times> bytes) option) \<Rightarrow> chain_store \<Rightarrow> tx_id \<Rightarrow> (meeting_error, meeting_verification) result" where
  "verify_meeting tok hexd cr de dv st i =
     rbind (rmap_err MeetingStore (get_transaction de st i)) (\<lambda>found.
     rbind (ok_or (MeetingNoSuchTransaction i) found) (\<lambda>l.
     meeting_report tok hexd cr de dv st i l))"
section \<open>What a verified meeting means\<close>

text \<open>A transaction holds a meeting record: it is in the namespace, and its payload is UTF-8 that reads as the record.\<close>

definition holds_meeting ::
    "(string \<Rightarrow> xml_reader) \<Rightarrow> (string \<Rightarrow> bytes option) \<Rightarrow> transaction \<Rightarrow> meeting_record \<Rightarrow> bool" where
  "holds_meeting tok hexd t r \<longleftrightarrow> namespace_str (t_namespace t) = MEETING_NAMESPACE \<and> utf8_valid (t_payload t) \<and>
     read_meeting_record tok hexd (text_of_bytes (t_payload t)) = Ok r"

text \<open>
  An item of a final record at height \<open>h\<close>: information carries nothing, and a vote names a transaction of an
  earlier height whose vote record holds, was taken by the meeting's company and channel on that item,
  frozen when the meeting opened, and has the stated outcome.
\<close>

definition item_decided ::
    "(string \<Rightarrow> xml_reader) \<Rightarrow> (string \<Rightarrow> bytes option) \<Rightarrow> crypto \<Rightarrow> (bytes \<Rightarrow> (block \<times> bytes) option) \<Rightarrow> chain_store
      \<Rightarrow> string \<Rightarrow> string \<Rightarrow> block_height \<Rightarrow> block_height \<Rightarrow> final_item \<Rightarrow> bool" where
  "item_decided tok hexd cr de st company channel opened h e \<longleftrightarrow>
     (case ai_body (fi_item e) of
        Informational _ \<Rightarrow> fi_vote_tx_id e = None \<and> fi_outcome e = None
      | VoteItem digest \<Rightarrow>
          (\<exists>tx l r. fi_vote_tx_id e = Some tx \<and> get_transaction de st tx = Ok (Some l) \<and>
             namespace_str (t_namespace (lt_transaction l)) = VOTE_NAMESPACE \<and> t_payload (lt_transaction l) = enc_vote_record r \<and>
             wf_vote_record r \<and> vr_version r = VOTE_RECORD_VERSION \<and>
             vote_holds tok hexd cr de st (lt_height l) (t_signer (lt_transaction l)) r \<and>
             vs_company (vr_snapshot r) = company \<and> vs_channel (vr_snapshot r) = channel \<and>
             vs_subject (vr_snapshot r) = item_subject (fi_item e) \<and> vs_proposal_digest (vr_snapshot r) = digest \<and>
             vs_height (vr_snapshot r) = opened \<and> lt_height l < h \<and>
             fi_outcome e = Some (if summary_accepted (vr_evaluation r) then ''accepted'' else ''rejected'')))"

lemma item_decided_iff:
  "item_decided tok hexd cr de st company channel opened h e \<longleftrightarrow>
     (case ai_body (fi_item e) of
        Informational _ \<Rightarrow> fi_vote_tx_id e = None \<and> fi_outcome e = None
      | VoteItem digest \<Rightarrow>
          (\<exists>tx l r. fi_vote_tx_id e = Some tx \<and> get_transaction de st tx = Ok (Some l) \<and>
             namespace_str (t_namespace (lt_transaction l)) = VOTE_NAMESPACE \<and> t_payload (lt_transaction l) = enc_vote_record r \<and>
             wf_vote_record r \<and> vr_version r = VOTE_RECORD_VERSION \<and>
             vote_holds tok hexd cr de st (lt_height l) (t_signer (lt_transaction l)) r \<and>
             vote_belongs company channel opened h e digest r (lt_height l)))"
  unfolding item_decided_def vote_belongs_def outcome_text_def Let_def ..

definition meeting_holds ::
    "(string \<Rightarrow> xml_reader) \<Rightarrow> (string \<Rightarrow> bytes option) \<Rightarrow> crypto \<Rightarrow> (bytes \<Rightarrow> (block \<times> bytes) option)
      \<Rightarrow> chain_store \<Rightarrow> block_height \<Rightarrow> public_key \<Rightarrow> string \<Rightarrow> meeting_final \<Rightarrow> bool" where
  "meeting_holds tok hexd cr de st h signer company f \<longleftrightarrow>
     (\<exists>c r a. get_transaction de st (mf_meeting_id f) = Ok (Some c) \<and> holds_meeting tok hexd (lt_transaction c) r \<and>
        mr_body r = Convened (mf_metadata f) a \<and> company_id_str (mr_company r) = company \<and> agenda_items a = map fi_item (mf_items f) \<and>
        lt_height c \<le> mf_opened_at f \<and> mf_opened_at f < h \<and>
        (\<exists>s p. reconstruct tok hexd de st (lt_height c) = Ok s \<and> company_id_str (co_company s) = company \<and>
           authorised_signer s Governance (t_signer (lt_transaction c)) = Ok p)) \<and>
     (\<exists>s p. reconstruct tok hexd de st h = Ok s \<and> authorised_signer s Governance signer = Ok p) \<and>
     (\<forall>e \<in> set (mf_items f). item_decided tok hexd cr de st company (mm_channel (mf_metadata f)) (mf_opened_at f) h e)"

lemma read_payload_cases:
  obtains r where "holds_meeting tok hexd t r" "read_payload tok hexd t = (Ok (Some r) :: (meeting_error, meeting_record option) result)"
  | "\<nexists>r. holds_meeting tok hexd t r" "read_payload tok hexd t = (Ok None :: (meeting_error, meeting_record option) result)"
proof (cases "namespace_str (t_namespace t) = MEETING_NAMESPACE \<and> utf8_valid (t_payload t)")
  case True
  then show thesis
    using that read_meeting_record_valid [of tok hexd "text_of_bytes (t_payload t)"]
    by (cases "read_meeting_record tok hexd (text_of_bytes (t_payload t))") (auto simp: holds_meeting_def read_payload_def)
qed (use that in \<open>auto simp: holds_meeting_def read_payload_def\<close>)

lemma holds_meeting_unique: "holds_meeting tok hexd t r \<Longrightarrow> holds_meeting tok hexd t q \<Longrightarrow> r = q"
  by (simp add: holds_meeting_def)

lemma holds_meeting_wf: "holds_meeting tok hexd t r \<Longrightarrow> wf_meeting_record r"
  using read_meeting_record_valid [of tok hexd "text_of_bytes (t_payload t)"] by (simp add: holds_meeting_def)

lemma check_entry_exact:
  assumes de: "decodes_blocks de" and rep: "represents cr bs st" and dv: "decodes_votes dv"
  obtains a b vs where "check_entry tok hexd cr de dv st company channel opened h e = Ok (a, b, vs)"
    "a \<and> b \<and> entry_consistent e \<and> list_all (\<lambda>(_, v). vote_is_valid v) vs \<longleftrightarrow>
       item_decided tok hexd cr de st company channel opened h e"
proof (cases "ai_body (fi_item e)")
  case (Informational d)
  show thesis by (rule that [of True True "[]"]) (simp_all add: check_entry_def Informational entry_consistent_def item_decided_iff)
next
  case (VoteItem d)
  show thesis
  proof (cases "fi_vote_tx_id e")
    case None
    show thesis by (rule that [of False True "[]"]) (simp_all add: check_entry_def VoteItem None item_decided_iff)
  next
    case (Some tx)
    show thesis
    proof (rule get_transaction_cases [OF de rep, of tx])
      assume none: "get_transaction de st tx = Ok None"
      show thesis by (rule that [of False True "[]"]) (simp_all add: check_entry_def VoteItem Some verify_vote_def none item_decided_iff)
    next
      fix l
      assume l: "get_transaction de st tx = Ok (Some l)"
      show thesis
      proof (rule vote_report_exact [OF de rep dv, of tok hexd tx l])
        fix v
        assume v: "vote_report tok hexd cr de dv st tx l = Ok v"
          and valid: "vote_is_valid v \<longleftrightarrow> namespace_str (t_namespace (lt_transaction l)) = VOTE_NAMESPACE \<and>
            (\<exists>r. t_payload (lt_transaction l) = enc_vote_record r \<and> wf_vote_record r \<and> vr_version r = VOTE_RECORD_VERSION \<and>
               vv_record v = Some r \<and> vote_holds tok hexd cr de st (lt_height l) (t_signer (lt_transaction l)) r)"
          and got: "\<And>r. namespace_str (t_namespace (lt_transaction l)) = VOTE_NAMESPACE \<Longrightarrow>
            t_payload (lt_transaction l) = enc_vote_record r \<Longrightarrow> wf_vote_record r \<Longrightarrow> vr_version r = VOTE_RECORD_VERSION \<Longrightarrow> vv_record v = Some r"
        define belongs where "belongs = (case vv_record v of None \<Rightarrow> True | Some r \<Rightarrow> vote_belongs company channel opened h e d r (lt_height l))"
        have "check_entry tok hexd cr de dv st company channel opened h e = Ok (vote_is_valid v, belongs, [(ai_number (fi_item e), v)])"
          by (simp add: check_entry_def VoteItem Some verify_vote_def l v belongs_def split: option.split)
        moreover have "vote_is_valid v \<and> belongs \<longleftrightarrow> item_decided tok hexd cr de st company channel opened h e"
        proof
          assume "vote_is_valid v \<and> belongs"
          then show "item_decided tok hexd cr de st company channel opened h e"
            unfolding valid by (auto simp: item_decided_iff VoteItem Some l belongs_def)
        next
          assume "item_decided tok hexd cr de st company channel opened h e"
          then obtain r where r: "namespace_str (t_namespace (lt_transaction l)) = VOTE_NAMESPACE" "t_payload (lt_transaction l) = enc_vote_record r"
            "wf_vote_record r" "vr_version r = VOTE_RECORD_VERSION"
            "vote_holds tok hexd cr de st (lt_height l) (t_signer (lt_transaction l)) r"
            "vote_belongs company channel opened h e d r (lt_height l)"
            by (auto simp: item_decided_iff VoteItem Some l)
          note found = got [OF r(1-4)]
          show "vote_is_valid v \<and> belongs" unfolding valid belongs_def found using r by simp
        qed
        ultimately show thesis by (intro that) (auto simp: entry_consistent_def VoteItem Some)
      qed
    qed
  qed
qed

lemma check_entries_exact:
  assumes de: "decodes_blocks de" and rep: "represents cr bs st" and dv: "decodes_votes dv"
  obtains entries where "rcollect (check_entry tok hexd cr de dv st company channel opened h) es = Ok entries"
    "list_all fst entries \<and> list_all (\<lambda>x. fst (snd x)) entries \<and> list_all entry_consistent es \<and>
       list_all (\<lambda>(_, v). vote_is_valid v) (concat (map (\<lambda>x. snd (snd x)) entries)) \<longleftrightarrow>
     (\<forall>e \<in> set es. item_decided tok hexd cr de st company channel opened h e)"
proof -
  let ?c = "check_entry tok hexd cr de dv st company channel opened h"
  have "\<exists>entries. rcollect ?c es = Ok entries \<and>
     (list_all fst entries \<and> list_all (\<lambda>x. fst (snd x)) entries \<and> list_all entry_consistent es \<and>
       list_all (\<lambda>(_, v). vote_is_valid v) (concat (map (\<lambda>x. snd (snd x)) entries)) \<longleftrightarrow>
     (\<forall>e \<in> set es. item_decided tok hexd cr de st company channel opened h e))"
  proof (induction es)
    case (Cons e es)
    then obtain entries where rest: "rcollect ?c es = Ok entries"
      "list_all fst entries \<and> list_all (\<lambda>x. fst (snd x)) entries \<and> list_all entry_consistent es \<and>
         list_all (\<lambda>(_, v). vote_is_valid v) (concat (map (\<lambda>x. snd (snd x)) entries)) \<longleftrightarrow>
       (\<forall>e \<in> set es. item_decided tok hexd cr de st company channel opened h e)" by blast
    show ?case
    proof (rule check_entry_exact [OF de rep dv, of tok hexd company channel opened h e])
      fix a b vs
      assume "?c e = Ok (a, b, vs)" and one: "a \<and> b \<and> entry_consistent e \<and> list_all (\<lambda>(_, v). vote_is_valid v) vs \<longleftrightarrow>
        item_decided tok hexd cr de st company channel opened h e"
      then have "rcollect ?c (e # es) = Ok ((a, b, vs) # entries)" using rest(1) by simp
      moreover have "(list_all fst ((a, b, vs) # entries) \<and> list_all (\<lambda>x. fst (snd x)) ((a, b, vs) # entries) \<and> list_all entry_consistent (e # es) \<and>
         list_all (\<lambda>(_, v). vote_is_valid v) (concat (map (\<lambda>x. snd (snd x)) ((a, b, vs) # entries)))) \<longleftrightarrow>
        (a \<and> b \<and> entry_consistent e \<and> list_all (\<lambda>(_, v). vote_is_valid v) vs) \<and>
        (list_all fst entries \<and> list_all (\<lambda>x. fst (snd x)) entries \<and> list_all entry_consistent es \<and>
         list_all (\<lambda>(_, v). vote_is_valid v) (concat (map (\<lambda>x. snd (snd x)) entries)))"
        by (simp only: list.pred_inject fst_conv snd_conv list.map concat.simps list_all_append) blast
      ultimately show ?thesis unfolding one rest(2) by auto
    qed
  qed simp
  then show thesis using that by blast
qed

lemma meeting_checks_exact:
  assumes de: "decodes_blocks de" and rep: "represents cr bs st" and dv: "decodes_votes dv"
  obtains checks votes where "meeting_checks tok hexd cr de dv st l company f = Ok (checks, votes)" "checks \<noteq> []"
    "list_all snd checks \<and> list_all (\<lambda>(_, v). vote_is_valid v) votes \<longleftrightarrow>
       meeting_holds tok hexd cr de st (lt_height l) (t_signer (lt_transaction l)) company f"
proof -
  let ?h = "lt_height l" and ?key = "t_signer (lt_transaction l)"
  note conclude = that
  have missing: thesis
    if "meeting_checks tok hexd cr de dv st l company f = Ok ([(MeetingDecodes, True), (ConveningExists, False)], [])"
      "\<not> meeting_holds tok hexd cr de st ?h ?key company f"
    by (rule conclude [OF that(1)]) (simp_all add: that(2))
  show thesis
  proof (rule get_transaction_cases [OF de rep, of "mf_meeting_id f"])
    assume "get_transaction de st (mf_meeting_id f) = Ok None"
    then show thesis by (intro missing) (simp_all add: meeting_checks_def meeting_holds_def Let_def)
  next
    fix c
    assume c: "get_transaction de st (mf_meeting_id f) = Ok (Some c)"
    let ?c = "lt_transaction c"
    have no: "\<not> meeting_holds tok hexd cr de st ?h ?key company f"
      if "\<And>r m a. holds_meeting tok hexd ?c r \<Longrightarrow> mr_body r = Convened m a \<Longrightarrow> company_id_str (mr_company r) \<noteq> company"
      using that by (auto simp: meeting_holds_def c)
    show thesis
    proof (cases "\<exists>r m a. holds_meeting tok hexd ?c r \<and> mr_body r = Convened m a \<and> company_id_str (mr_company r) = company")
      case False
      then have none: "\<not> meeting_holds tok hexd cr de st ?h ?key company f" by (intro no) blast
      show thesis
      proof (rule read_payload_cases [of tok hexd ?c])
        fix r
        assume r: "holds_meeting tok hexd ?c r" "read_payload tok hexd ?c = (Ok (Some r) :: (meeting_error, meeting_record option) result)"
        then have "\<forall>m a. mr_body r = Convened m a \<longrightarrow> company_id_str (mr_company r) \<noteq> company" using False by blast
        then show thesis
          by (intro missing [OF _ none], cases "mr_body r") (simp_all add: meeting_checks_def Let_def c read_convening_def r(2))
      next
        assume "read_payload tok hexd ?c = (Ok None :: (meeting_error, meeting_record option) result)"
        then show thesis by (intro missing [OF _ none]) (simp add: meeting_checks_def Let_def c read_convening_def)
      qed
    next
      case True
      then obtain r m a where r: "holds_meeting tok hexd ?c r" "mr_body r = Convened m a" "company_id_str (mr_company r) = company" by blast
      have unique: "holds_meeting tok hexd ?c q \<longleftrightarrow> q = r" for q using r(1) holds_meeting_unique by blast
      have read: "read_convening tok hexd ?c = (Ok (Some (company, m, a)) :: (meeting_error, _) result)"
        by (rule read_payload_cases [of tok hexd ?c]) (use r unique in \<open>auto simp: read_convening_def\<close>)
      have agenda: "wf_agenda (agenda_items a)" using holds_meeting_wf [OF r(1)] by (simp add: wf_meeting_record_def r(2))
      obtain final where final: "caught (final_agenda f) = (Ok final :: (meeting_error, _) result)"
        "final = Some a \<longleftrightarrow> agenda_items a = map fi_item (mf_items f)"
      proof (cases "final_agenda f")
        case (Ok x)
        then have "x = Agenda (map fi_item (mf_items f))" by (simp add: final_agenda_def agenda_new_Ok_iff)
        then show thesis using that [of "Some x"] Ok by (cases a) auto
      next
        case (Err e)
        then have "\<not> wf_agenda (map fi_item (mf_items f))"
          using agenda_new_Ok_iff [of "map fi_item (mf_items f)" "Agenda (map fi_item (mf_items f))"] by (simp add: final_agenda_def)
        then have "agenda_items a \<noteq> map fi_item (mf_items f)" using agenda by metis
        then show thesis using that [of None] Err by simp
      next
        case Panic
        then show thesis using agenda_new_valid [of "map fi_item (mf_items f)"] by (simp add: final_agenda_def)
      qed
      obtain state where state: "caught (reconstruct tok hexd de st (lt_height c)) = (Ok state :: (meeting_error, _) result)"
        "state = (case reconstruct tok hexd de st (lt_height c) of Ok s \<Rightarrow> Some s | _ \<Rightarrow> None)"
        using reconstruct_no_Panic [OF de rep, of tok hexd "lt_height c"] by (cases "reconstruct tok hexd de st (lt_height c)") auto
      note signer = signer_authorised_at_eq [OF de rep, where tok = tok and hexd = hexd]
      show thesis
      proof (rule check_entries_exact [OF de rep dv, of tok hexd company "mm_channel m" "mf_opened_at f" ?h "mf_items f"])
        fix entries
        assume e: "rcollect (check_entry tok hexd cr de dv st company (mm_channel m) (mf_opened_at f) ?h) (mf_items f) = Ok entries"
          and decided: "list_all fst entries \<and> list_all (\<lambda>x. fst (snd x)) entries \<and> list_all entry_consistent (mf_items f) \<and>
             list_all (\<lambda>(_, v). vote_is_valid v) (concat (map (\<lambda>x. snd (snd x)) entries)) \<longleftrightarrow>
             (\<forall>e \<in> set (mf_items f). item_decided tok hexd cr de st company (mm_channel m) (mf_opened_at f) ?h e)"
        let ?checks = "[(MeetingDecodes, True), (ConveningExists, True),
                     (HeightsOrdered, lt_height c \<le> mf_opened_at f \<and> mf_opened_at f < ?h),
                     (AgendaMatches, final = Some a), (MetadataMatches, m = mf_metadata f),
                     (CompanyReconstructs, case state of Some s \<Rightarrow> company_id_str (co_company s) = company | None \<Rightarrow> False),
                     (MeetingSignersAuthorised, (\<exists>s p. reconstruct tok hexd de st (lt_height c) = Ok s \<and> authorised_signer s Governance (t_signer ?c) = Ok p) \<and>
                        (\<exists>s p. reconstruct tok hexd de st ?h = Ok s \<and> authorised_signer s Governance ?key = Ok p)),
                     (VotesVerify, list_all fst entries), (VotesBelong, list_all (\<lambda>e. fst (snd e)) entries),
                     (ItemsConsistent, list_all entry_consistent (mf_items f))]"
        have eq: "meeting_checks tok hexd cr de dv st l company f = Ok (?checks, concat (map (\<lambda>e. snd (snd e)) entries))"
          by (simp only: meeting_checks_def Let_def c rmap_err.simps rbind.simps option.case read prod.case simp_thms if_False
              final(1) state(1) signer e)
        have company: "(case state of Some s \<Rightarrow> company_id_str (co_company s) = company | None \<Rightarrow> False) \<and>
            (\<exists>s p. reconstruct tok hexd de st (lt_height c) = Ok s \<and> authorised_signer s Governance (t_signer ?c) = Ok p) \<longleftrightarrow>
          (\<exists>s p. reconstruct tok hexd de st (lt_height c) = Ok s \<and> company_id_str (co_company s) = company \<and>
             authorised_signer s Governance (t_signer ?c) = Ok p)"
          unfolding state(2) by (cases "reconstruct tok hexd de st (lt_height c)") auto
        show thesis
        proof (rule conclude [OF eq])
          have "meeting_holds tok hexd cr de st ?h ?key company f \<longleftrightarrow> m = mf_metadata f \<and> agenda_items a = map fi_item (mf_items f) \<and>
            lt_height c \<le> mf_opened_at f \<and> mf_opened_at f < ?h \<and>
            (\<exists>s p. reconstruct tok hexd de st (lt_height c) = Ok s \<and> company_id_str (co_company s) = company \<and>
               authorised_signer s Governance (t_signer ?c) = Ok p) \<and>
            (\<exists>s p. reconstruct tok hexd de st ?h = Ok s \<and> authorised_signer s Governance ?key = Ok p) \<and>
            (\<forall>e \<in> set (mf_items f). item_decided tok hexd cr de st company (mm_channel (mf_metadata f)) (mf_opened_at f) ?h e)"
            by (auto simp: meeting_holds_def c unique r(2,3))
          then show "list_all snd ?checks \<and> list_all (\<lambda>(_, v). vote_is_valid v) (concat (map (\<lambda>e. snd (snd e)) entries)) \<longleftrightarrow>
              meeting_holds tok hexd cr de st ?h ?key company f"
            using decided final(2) company by (simp only: list.pred_inject snd_conv) blast
        qed simp
      qed
    qed
  qed
qed

lemma meeting_report_exact:
  assumes de: "decodes_blocks de" and rep: "represents cr bs st" and dv: "decodes_votes dv"
  obtains v where "meeting_report tok hexd cr de dv st i l = Ok v" "mv_height v = lt_height l"
    "meeting_is_valid v \<longleftrightarrow> (\<exists>r f. holds_meeting tok hexd (lt_transaction l) r \<and> mr_body r = Concluded f \<and> mv_record v = Some f \<and>
       meeting_holds tok hexd cr de st (lt_height l) (t_signer (lt_transaction l)) (company_id_str (mr_company r)) f)"
    "\<And>r f. holds_meeting tok hexd (lt_transaction l) r \<Longrightarrow> mr_body r = Concluded f \<Longrightarrow> mv_record v = Some f"
proof -
  let ?t = "lt_transaction l"
  let ?report = "\<lparr>mv_tx_id = i, mv_height = lt_height l, mv_record = None, mv_checks = [], mv_votes = []\<rparr>"
  note conclude = that
  have refused: thesis
    if "meeting_decode tok hexd ?t = (Ok None :: (meeting_error, (string \<times> meeting_final) option) result)"
      "\<nexists>r f. holds_meeting tok hexd ?t r \<and> mr_body r = Concluded f"
    by (rule conclude [of "?report\<lparr>mv_checks := [(MeetingDecodes, False)]\<rparr>"])
      (use that in \<open>auto simp: meeting_report_def meeting_is_valid_def\<close>)
  show thesis
  proof (rule read_payload_cases [of tok hexd ?t])
    assume "\<nexists>r. holds_meeting tok hexd ?t r" "read_payload tok hexd ?t = (Ok None :: (meeting_error, meeting_record option) result)"
    then show thesis by (intro refused) (simp_all add: meeting_decode_def)
  next
    fix r
    assume r: "holds_meeting tok hexd ?t r" "read_payload tok hexd ?t = (Ok (Some r) :: (meeting_error, meeting_record option) result)"
    have unique: "holds_meeting tok hexd ?t q \<longleftrightarrow> q = r" for q using r(1) holds_meeting_unique by blast
    show thesis
    proof (cases "mr_body r")
      case (Convened m a)
      then show thesis by (intro refused) (simp_all add: meeting_decode_def r(2) unique)
    next
      case (Concluded f)
      show thesis
      proof (rule meeting_checks_exact [OF de rep dv, of tok hexd l "company_id_str (mr_company r)" f])
        fix checks votes
        assume c: "meeting_checks tok hexd cr de dv st l (company_id_str (mr_company r)) f = Ok (checks, votes)" "checks \<noteq> []"
          and holds: "list_all snd checks \<and> list_all (\<lambda>(_, v). vote_is_valid v) votes \<longleftrightarrow>
            meeting_holds tok hexd cr de st (lt_height l) (t_signer ?t) (company_id_str (mr_company r)) f"
        show thesis
          by (rule conclude [of "?report\<lparr>mv_record := Some f, mv_checks := checks, mv_votes := votes\<rparr>"])
            (use c(2) holds in \<open>auto simp: meeting_report_def meeting_decode_def r(2) unique Concluded c(1) meeting_is_valid_def\<close>)
      qed
    qed
  qed
qed

text \<open>
  C39: A meeting verifies exactly when it was one. On every store a program can hold, \<open>verify_meeting\<close>
  answers for every transaction on the chain, without an error, and the report is valid if and only if
  the transaction holds a final record whose meeting was convened on the chain by a governance signer of
  the company, with that agenda and those particulars, before it opened; which was itself signed by a
  governance signer; and whose every vote item names a vote, finalised earlier, that holds and was taken
  on that item by that company and channel at the opening height, with the outcome the record states.
\<close>

theorem verify_meeting_exact:
  assumes "decodes_blocks de" and "reachable cr de st" and "decodes_votes dv"
  shows "case get_transaction de st i of
      Ok None \<Rightarrow> verify_meeting tok hexd cr de dv st i = Err (MeetingNoSuchTransaction i)
    | Ok (Some l) \<Rightarrow> \<exists>v. verify_meeting tok hexd cr de dv st i = Ok v \<and> mv_height v = lt_height l \<and>
        (meeting_is_valid v \<longleftrightarrow> (\<exists>r f. holds_meeting tok hexd (lt_transaction l) r \<and> mr_body r = Concluded f \<and> mv_record v = Some f \<and>
           meeting_holds tok hexd cr de st (lt_height l) (t_signer (lt_transaction l)) (company_id_str (mr_company r)) f))
    | _ \<Rightarrow> False"
proof -
  obtain bs where bs: "represents cr bs st" by (rule reachable_represents [OF assms(2,1)])
  show ?thesis
  proof (rule get_transaction_cases [OF assms(1) bs, of i])
    assume "get_transaction de st i = Ok None"
    then show ?thesis by (simp add: verify_meeting_def)
  next
    fix l
    assume l: "get_transaction de st i = Ok (Some l)"
    show ?thesis
      by (rule meeting_report_exact [OF assms(1) bs assms(3), of tok hexd i l]) (simp add: verify_meeting_def l)
  qed
qed

lemma one_company_upto:
  assumes de: "decodes_blocks de" and rep: "represents cr bs st" and le: "at \<le> at'"
    and s: "reconstruct tok hexd de st at = Ok s" and s': "reconstruct tok hexd de st at' = Ok s'"
  shows "co_company s = co_company s'"
proof -
  note inv = reconstruct_inv [OF de rep s] and inv' = reconstruct_inv [OF de rep s']
  have "Suc (unat at) \<le> Suc (unat at')" using le by (simp add: word_le_nat_alt)
  then obtain rest where "upto at' bs = upto at bs @ rest"
    unfolding upto_def by (metis le_add_diff_inverse take_add)
  then obtain more where more: "co_applied s' = co_applied s @ more"
    using inv(2) inv'(2) unfolding chain_records_def by (auto simp: chain_entries_append read_all_append result_simps)
  obtain f where "f \<in> set (co_applied s)" using inv(1) by (cases "co_applied s") (auto simp: company_inv_def)
  then show ?thesis using inv(1) inv'(1) more unfolding company_inv_def by (metis Un_iff set_append)
qed

lemma one_company:
  assumes "decodes_blocks de" and "represents cr bs st"
    and "reconstruct tok hexd de st at = Ok s" and "reconstruct tok hexd de st at' = Ok s'"
  shows "co_company s = co_company s'"
  using one_company_upto [OF assms(1,2) _ assms(3,4)] one_company_upto [OF assms(1,2) _ assms(4,3)] by (metis linear)

text \<open>A vote over the electorate of a past height of the chain, and what is on the chain once it has been finalised.\<close>

definition frozen_at ::
    "(string \<Rightarrow> xml_reader) \<Rightarrow> (string \<Rightarrow> bytes option) \<Rightarrow> crypto \<Rightarrow> (bytes \<Rightarrow> (block \<times> bytes) option) \<Rightarrow> chain_store
      \<Rightarrow> block_height \<Rightarrow> channel_id \<Rightarrow> string \<Rightarrow> hash \<Rightarrow> vote \<Rightarrow> bool" where
  "frozen_at tok hexd cr de st at channel subject digest v \<longleftrightarrow>
     (\<exists>s rules ws. reconstruct tok hexd de st at = Ok s \<and> decides_together s channel rules ws \<and>
        vt_snapshot v = Some (vote_snapshot_of s at channel ws subject digest) \<and> wf_label (company_id_str (co_company s))) \<and>
     wf_label (channel_id_str channel) \<and> ballots_kept cr v"

lemma finalised_vote:
  assumes de: "decodes_blocks de" and rep: "represents cr bs st" and room: "length (chain_ids bs) + 1 < 2 ^ 64"
    and frozen: "frozen_at tok hexd cr de st at channel subject digest v" and at: "unat at < length bs"
    and fin: "vote_finalize tok hexd cr de io st seed ms v = (st1, Ok (v', f))"
    and fits: "wf_vote_record (fv_record f)" "fits_u32 (enc_vote_record (fv_record f))"
    and later: "store_steps cr de st1 st2"
  obtains t new where "represents cr (bs @ sealed_block cr (last bs) t ms (fv_height f) # new) st2"
    "get_transaction de st2 (fv_tx_id f) = Ok (Some \<lparr>lt_height = fv_height f, lt_index = 0, lt_transaction = t\<rparr>)"
    "namespace_str (t_namespace t) = VOTE_NAMESPACE" "t_payload t = enc_vote_record (fv_record f)"
    "vr_version (fv_record f) = VOTE_RECORD_VERSION" "unat (fv_height f) = length bs"
    "vote_holds tok hexd cr de st2 (fv_height f) (t_signer t) (fv_record f)"
    "vote_final_record cr v' = Ok (fv_record f)"
    "\<And>s. company_now tok hexd de st = Ok s \<Longrightarrow> reconstruct tok hexd de st2 (fv_height f) = Ok (s\<lparr>co_at := fv_height f\<rparr>)"
proof -
  obtain s rules ws where s: "reconstruct tok hexd de st at = Ok s" "decides_together s channel rules ws"
    "vt_snapshot v = Some (vote_snapshot_of s at channel ws subject digest)" "ballots_kept cr v"
    "wf_label (company_id_str (co_company s))" "wf_label (channel_id_str channel)"
    using frozen unfolding frozen_at_def by blast
  let ?sn = "vote_snapshot_of s at channel ws subject digest" and ?bl = "map snd (vt_ballots v)"
  from fin obtain r id h where f: "vote_ready tok hexd cr de st seed v = Ok r"
    "seal cr de io st seed VOTE_NAMESPACE VOTE_SCHEMA_VERSION (enc_vote_record r) ms = (st1, Ok (id, h))"
    "v' = v\<lparr>vt_finalized := Some (id, h), vt_status := VoteFinalized\<rparr>" "f = \<lparr>fv_tx_id = id, fv_height = h, fv_record = r\<rparr>"
    unfolding vote_finalize_Ok_iff by blast
  from f(1) obtain ev sm now p where r: "vote_evaluate_now tok hexd de st v = Ok ev"
    "summary_of ev = (Ok sm :: (vote_error, evaluation_summary) result)" "vt_evaluation v = Some sm"
    "company_now tok hexd de st = Ok now" "authorised_signer now Governance (ed_public cr seed) = Ok p"
    "r = vote_record_assemble cr ?sn ?bl sm"
    unfolding vote_ready_Ok_iff vote_final_record_Ok_iff by (auto simp: s(3))
  have fr: "fv_record f = r" "fv_height f = h" "fv_tx_id f = id" by (simp_all add: f(4))
  obtain t new where t: "represents cr (bs @ sealed_block cr (last bs) t ms h # new) st2"
    "get_transaction de st2 id = Ok (Some \<lparr>lt_height = h, lt_index = 0, lt_transaction = t\<rparr>)"
    "t_namespace t = Namespace VOTE_NAMESPACE" "t_payload t = enc_vote_record r" "t_signer t = ed_public cr seed"
    "unat h = length bs" "\<And>at. unat at < length bs \<Longrightarrow> reconstruct tok hexd de st2 at = reconstruct tok hexd de st at"
    "\<And>s. company_now tok hexd de st = Ok s \<Longrightarrow> reconstruct tok hexd de st2 h = Ok (s\<lparr>co_at := h\<rparr>)"
    by (rule sealed_record [where tok = tok and hexd = hexd, OF de rep room vote_namespace fits(2) [unfolded fr] f(2) later])
      (rule that; assumption)
  have state: "reconstruct tok hexd de st2 at = Ok s" using t(7) [OF at] s(1) by simp
  have counted: "vote_count rules ?sn ?bl = Ok ev"
  proof -
    obtain sn' s' rules' ws' where c: "vt_snapshot v = Some sn'" "reconstruct tok hexd de st (vs_height sn') = Ok s'"
      "decides_together s' (ChannelId (vs_channel sn')) rules' ws'" "vote_count rules' sn' ?bl = Ok ev"
      using r(1) unfolding vote_evaluate_now_Ok_iff [OF de rep] by blast
    have "sn' = ?sn" using c(1) s(3) by simp
    then have "s' = s" "decides_together s' channel rules' ws'" using c(2,3) s(1) by (simp_all add: vote_snapshot_of_def)
    then have "rules' = rules" using decides_together_unique s(2) by blast
    with c(4) \<open>sn' = ?sn\<close> show ?thesis by simp
  qed
  have less: "at < h" using at t(6) by (simp add: word_less_nat_alt)
  have "wf_label (vs_company ?sn)" using s(5) by (simp add: vote_snapshot_of_def)
  then have "vote_holds tok hexd cr de st2 h (t_signer t) r"
    unfolding r(6) using less kept_ballots [OF s(4,3)] s(6) t(5,8) r(4,5) counted
    by (intro counted_record_holds [OF de t(1) state s(2) refl _ _ counted r(2), where now = "now\<lparr>co_at := h\<rparr>" and p = p]) simp_all
  moreover have "vr_version r = VOTE_RECORD_VERSION" by (simp add: r(6) vote_record_assemble_def)
  moreover have "vote_final_record cr v' = Ok r" by (simp add: vote_final_record_Ok_iff f(3) s(3) r(3,6))
  ultimately show thesis using that [of t new] t unfolding fr by simp
qed

lemma finalised_record:
  assumes "vote_finalize tok hexd cr de io st seed ms v = (st', Ok (v', f))"
  shows "vote_final_record cr v' = Ok (fv_record f)" "vt_finalized v' = Some (fv_tx_id f, fv_height f)"
  using assms by (auto simp: vote_finalize_Ok_iff vote_ready_Ok_iff vote_final_record_Ok_iff)

lemma sealed_one:
  assumes de: "decodes_blocks de" and rep: "represents cr bs st" and room: "length (chain_ids bs) + 1 < 2 ^ 64"
    and ns: "wf_label ns" "fits_u32 payload" and seal: "seal cr de io st seed ns schema payload ms = (st1, Ok (i, h))"
  obtains b where "represents cr (bs @ [b]) st1" "length (b_transactions b) = 1" "h_height (b_header b) = h" "store_steps cr de st st1"
proof (rule seal_cases [OF de rep room ns, of io seed schema ms])
  fix e assume "seal cr de io st seed ns schema payload ms = (st, Err e)"
  then show thesis using seal by simp
next
  fix st' k
  assume *: "seal cr de io st seed ns schema payload ms = (st', Ok (t_id (sealed_tx cr seed ns schema payload k), k))"
    "represents cr (bs @ [sealed_block cr (last bs) (sealed_tx cr seed ns schema payload k) ms k]) st'"
  then show thesis using seal by (intro that [OF _ _ _ seal_steps [OF de rep ns seal]]) auto
qed

lemma company_now_sealed:
  assumes "decodes_blocks de" and "represents cr (bs @ [b]) st"
  shows "company_now tok hexd de st = reconstruct tok hexd de st (h_height (b_header b))"
  using head_block_represents(1,3) [OF assms] by (simp add: company_now_def)

lemma frozen_at_later:
  assumes "decodes_blocks de" and "represents cr bs st" and "represents cr (bs @ new) st'" and "unat at < length bs"
    and "frozen_at tok hexd cr de st at channel subject digest v"
  shows "frozen_at tok hexd cr de st' at channel subject digest v"
  using assms(5) reconstruct_extends [OF assms(1-4)] by (simp add: frozen_at_def)

text \<open>What is on the chain for a finalised vote.\<close>

definition vote_on_chain ::
    "(string \<Rightarrow> xml_reader) \<Rightarrow> (string \<Rightarrow> bytes option) \<Rightarrow> crypto \<Rightarrow> (bytes \<Rightarrow> (block \<times> bytes) option) \<Rightarrow> chain_store
      \<Rightarrow> nat \<Rightarrow> vote \<Rightarrow> bool" where
  "vote_on_chain tok hexd cr de st len v \<longleftrightarrow>
     (\<exists>tx l r. vt_finalized v = Some (tx, lt_height l) \<and> get_transaction de st tx = Ok (Some l) \<and>
        namespace_str (t_namespace (lt_transaction l)) = VOTE_NAMESPACE \<and> t_payload (lt_transaction l) = enc_vote_record r \<and>
        wf_vote_record r \<and> vr_version r = VOTE_RECORD_VERSION \<and>
        vote_holds tok hexd cr de st (lt_height l) (t_signer (lt_transaction l)) r \<and> unat (lt_height l) < len \<and>
        vt_snapshot v = Some (vr_snapshot r) \<and> vt_evaluation v = Some (vr_evaluation r))"

lemma vote_on_chain_mono: "vote_on_chain tok hexd cr de st len v \<Longrightarrow> len \<le> len' \<Longrightarrow> vote_on_chain tok hexd cr de st len' v"
  unfolding vote_on_chain_def by (blast intro: less_le_trans)

lemma one_vote_finalised:
  assumes de: "decodes_blocks de" and rep: "represents cr bs st" and room: "length (chain_ids bs) + 1 < 2 ^ 64"
    and frozen: "frozen_at tok hexd cr de st at channel subject digest v" and at: "unat at < length bs"
    and fin: "vote_finalize tok hexd cr de io st seed ms v = (st1, Ok (v', f))"
    and fits: "wf_vote_record (fv_record f)" "fits_u32 (enc_vote_record (fv_record f))"
  obtains b where "represents cr (bs @ [b]) st1" "length (b_transactions b) = 1" "store_steps cr de st st1"
    "\<And>now. company_now tok hexd de st = Ok now \<Longrightarrow> \<exists>x. company_now tok hexd de st1 = Ok (now\<lparr>co_at := x\<rparr>)"
    "\<And>st2. store_steps cr de st1 st2 \<Longrightarrow> vote_on_chain tok hexd cr de st2 (length bs + 1) v'"
proof -
  have "seal cr de io st seed VOTE_NAMESPACE VOTE_SCHEMA_VERSION (enc_vote_record (fv_record f)) ms =
      (st1, Ok (fv_tx_id f, fv_height f))"
    using fin unfolding vote_finalize_Ok_iff by auto
  from sealed_one [OF de rep room vote_namespace(1) fits(2) this(1)] obtain b where
    b: "represents cr (bs @ [b]) st1" "length (b_transactions b) = 1" "h_height (b_header b) = fv_height f" "store_steps cr de st st1"
    by blast
  note on_chain = finalised_vote [OF de rep room frozen at fin fits]
  have "\<exists>x. company_now tok hexd de st1 = Ok (now\<lparr>co_at := x\<rparr>)" if "company_now tok hexd de st = Ok now" for now
    by (rule on_chain [OF store_steps.no_step]) (use that company_now_sealed [OF de b(1)] b(3) in metis)
  moreover have "vote_on_chain tok hexd cr de st2 (length bs + 1) v'" if later: "store_steps cr de st1 st2" for st2
  proof (rule on_chain [OF later])
    fix t
    assume t: "get_transaction de st2 (fv_tx_id f) = Ok (Some \<lparr>lt_height = fv_height f, lt_index = 0, lt_transaction = t\<rparr>)"
      "namespace_str (t_namespace t) = VOTE_NAMESPACE" "t_payload t = enc_vote_record (fv_record f)"
      "vr_version (fv_record f) = VOTE_RECORD_VERSION" "unat (fv_height f) = length bs"
      "vote_holds tok hexd cr de st2 (fv_height f) (t_signer t) (fv_record f)" "vote_final_record cr v' = Ok (fv_record f)"
    have "vt_snapshot v' = Some (vr_snapshot (fv_record f))" "vt_evaluation v' = Some (vr_evaluation (fv_record f))"
      using t(7) by (auto simp: vote_final_record_Ok_iff vote_record_assemble_def)
    then show ?thesis
      unfolding vote_on_chain_def finalised_record(2) [OF fin] using t fits(1)
      by (intro exI [of _ "fv_tx_id f"] exI [of _ "\<lparr>lt_height = fv_height f, lt_index = 0, lt_transaction = t\<rparr>"] exI [of _ "fv_record f"]) simp_all
  qed
  ultimately show thesis using that b by blast
qed

definition storable :: "crypto \<Rightarrow> vote \<Rightarrow> bool" where
  "storable cr v \<longleftrightarrow> (\<forall>r. vote_final_record cr v = Ok r \<longrightarrow>
     wf_vote_record r \<and> fits_u32 (enc_vote_record r))"

lemma finalised_votes:
  assumes de: "decodes_blocks de"
  shows "represents cr bs st \<Longrightarrow> length (chain_ids bs) + length votes < 2 ^ 64 \<Longrightarrow> unat at < length bs \<Longrightarrow>
    \<forall>e \<in> set votes. vt_finalized (snd e) = None \<and> (\<exists>subject digest. frozen_at tok hexd cr de st at channel subject digest (snd e)) \<Longrightarrow>
    finalize_votes tok hexd cr de io k st seed ms votes = (st', votes', Ok ()) \<Longrightarrow> \<forall>e \<in> set votes'. storable cr (snd e) \<Longrightarrow>
    \<exists>new. represents cr (bs @ new) st' \<and> store_steps cr de st st' \<and> length (chain_ids (bs @ new)) = length (chain_ids bs) + length votes \<and>
      (\<forall>now. company_now tok hexd de st = Ok now \<longrightarrow> (\<exists>x. company_now tok hexd de st' = Ok (now\<lparr>co_at := x\<rparr>))) \<and>
      (\<forall>st2. store_steps cr de st' st2 \<longrightarrow> (\<forall>e \<in> set votes'. vote_on_chain tok hexd cr de st2 (length (bs @ new)) (snd e)))"
proof (induction votes arbitrary: k st bs votes')
  case Nil
  have "\<exists>x. now = now\<lparr>co_at := x\<rparr>" for now :: company_state by (rule exI [of _ "co_at now"]) simp
  then show ?case using Nil by (intro exI [of _ "[]"]) (auto intro: store_steps.no_step)
next
  case (Cons e rest)
  obtain n v where e: "e = (n, v)" by (cases e)
  obtain subject digest where v: "vt_finalized v = None" "frozen_at tok hexd cr de st at channel subject digest v"
    using Cons.prems(4) by (auto simp: e)
  obtain st1 x where f1: "vote_finalize tok hexd cr de (io k) st seed ms v = (st1, x)"
    by (cases "vote_finalize tok hexd cr de (io k) st seed ms v")
  obtain v' f where x: "x = Ok (v', f)" using Cons.prems(5) v(1) f1 by (cases x) (auto simp: e)
  obtain st2 rest' y where r: "finalize_votes tok hexd cr de io (Suc k) st1 seed ms rest = (st2, rest', y)"
    by (cases "finalize_votes tok hexd cr de io (Suc k) st1 seed ms rest")
  have eq: "votes' = (n, v') # rest'" "st2 = st'" "y = Ok ()" using Cons.prems(5) v(1) f1 x r by (simp_all add: e)
  have "storable cr v'" using Cons.prems(6) by (simp add: eq)
  then have fits: "wf_vote_record (fv_record f)" "fits_u32 (enc_vote_record (fv_record f))"
    using finalised_record(1) [OF f1 [unfolded x]] by (simp_all add: storable_def)
  have room: "length (chain_ids bs) + 1 < 2 ^ 64" using Cons.prems(2) by simp
  show ?case
  proof (rule one_vote_finalised [OF de Cons.prems(1) room v(2) Cons.prems(3) f1 [unfolded x] fits])
    fix b
    assume b: "represents cr (bs @ [b]) st1" "length (b_transactions b) = 1" "store_steps cr de st st1"
      and now: "\<And>now. company_now tok hexd de st = Ok now \<Longrightarrow> \<exists>x. company_now tok hexd de st1 = Ok (now\<lparr>co_at := x\<rparr>)"
      and chain: "\<And>st2. store_steps cr de st1 st2 \<Longrightarrow> vote_on_chain tok hexd cr de st2 (length bs + 1) v'"
    have ids: "length (chain_ids (bs @ [b])) = length (chain_ids bs) + 1" using b(2) by simp
    have "\<exists>new. represents cr ((bs @ [b]) @ new) st' \<and> store_steps cr de st1 st' \<and>
        length (chain_ids ((bs @ [b]) @ new)) = length (chain_ids (bs @ [b])) + length rest \<and>
        (\<forall>now. company_now tok hexd de st1 = Ok now \<longrightarrow> (\<exists>x. company_now tok hexd de st' = Ok (now\<lparr>co_at := x\<rparr>))) \<and>
        (\<forall>st2. store_steps cr de st' st2 \<longrightarrow> (\<forall>e \<in> set rest'. vote_on_chain tok hexd cr de st2 (length ((bs @ [b]) @ new)) (snd e)))"
    proof (rule Cons.IH [OF b(1)])
      show "\<forall>e \<in> set rest. vt_finalized (snd e) = None \<and> (\<exists>subject digest. frozen_at tok hexd cr de st1 at channel subject digest (snd e))"
        using Cons.prems(4) frozen_at_later [OF de Cons.prems(1) b(1) Cons.prems(3)] by (meson list.set_intros(2))
      show "finalize_votes tok hexd cr de io (Suc k) st1 seed ms rest = (st', rest', Ok ())" using r by (simp add: eq)
      show "\<forall>e \<in> set rest'. storable cr (snd e)" using Cons.prems(6) by (simp add: eq)
    qed (use ids Cons.prems(2,3) in simp_all)
    then obtain new where new: "represents cr ((bs @ [b]) @ new) st'" "store_steps cr de st1 st'"
      "length (chain_ids ((bs @ [b]) @ new)) = length (chain_ids (bs @ [b])) + length rest"
      "\<And>now. company_now tok hexd de st1 = Ok now \<Longrightarrow> \<exists>x. company_now tok hexd de st' = Ok (now\<lparr>co_at := x\<rparr>)"
      "\<And>st2. store_steps cr de st' st2 \<Longrightarrow> \<forall>e \<in> set rest'. vote_on_chain tok hexd cr de st2 (length ((bs @ [b]) @ new)) (snd e)"
      by blast
    have "store_steps cr de st st'" by (rule store_steps_append [OF new(2) b(3)])
    moreover have "\<exists>x. company_now tok hexd de st' = Ok (now\<lparr>co_at := x\<rparr>)" if c: "company_now tok hexd de st = Ok now" for now
    proof -
      obtain x where "company_now tok hexd de st1 = Ok (now\<lparr>co_at := x\<rparr>)" using now [OF c] by blast
      from new(4) [OF this] show ?thesis by simp
    qed
    moreover have "\<forall>e \<in> set votes'. vote_on_chain tok hexd cr de st2 (length (bs @ b # new)) (snd e)"
      if "store_steps cr de st' st2" for st2
      using vote_on_chain_mono [OF chain [OF store_steps_append [OF that new(2)]]] new(5) [OF that] by (simp add: eq)
    ultimately show ?case using new(1,3) ids by (intro exI [of _ "b # new"]) simp
  qed
qed

section \<open>From a convening to a verified record\<close>

text \<open>A caller offers ballots one after another; one that is refused leaves the meeting as it was.\<close>

definition meeting_receive :: "crypto \<Rightarrow> meeting \<Rightarrow> u32 \<times> signed_ballot \<Rightarrow> meeting" where
  "meeting_receive cr m b = (case meeting_cast cr (fst b) (snd b) m of Ok m' \<Rightarrow> m' | _ \<Rightarrow> m)"

lemma list_all2_right: "list_all2 P xs ys \<Longrightarrow> y \<in> set ys \<Longrightarrow> \<exists>x \<in> set xs. P x y"
  and list_all2_left: "list_all2 P xs ys \<Longrightarrow> x \<in> set xs \<Longrightarrow> \<exists>y \<in> set ys. P x y"
  by (induction rule: list_all2_induct) auto

abbreviation snapshots :: "(u32 \<times> vote) list \<Rightarrow> (u32 \<times> vote_snapshot option) list" where
  "snapshots votes \<equiv> map (\<lambda>e. (fst e, vt_snapshot (snd e))) votes"

lemma snapshots_kept: "list_all2 (vote_kept cr new) votes votes' \<Longrightarrow> snapshots votes' = snapshots votes"
  by (induction rule: list_all2_induct) (simp_all add: vote_kept_def)

lemma snapshots_replaced:
  "map_of votes n = Some v \<Longrightarrow> vt_snapshot v' = vt_snapshot v \<Longrightarrow> snapshots (replace_vote n v' votes) = snapshots votes"
  by (induction n v' votes rule: replace_vote.induct) (auto split: if_splits)

text \<open>What stays of a meeting from its opening on.\<close>

definition same_meeting :: "meeting \<Rightarrow> meeting \<Rightarrow> bool" where
  "same_meeting m m' \<longleftrightarrow> mt_metadata m' = mt_metadata m \<and> mt_items m' = mt_items m \<and> mt_company m' = mt_company m \<and>
     mt_convened m' = mt_convened m \<and> mt_opened_at m' = mt_opened_at m \<and> snapshots (mt_votes m') = snapshots (mt_votes m)"

lemma same_meeting_receive: "same_meeting m (meeting_receive cr m b)"
  using snapshots_replaced
  by (auto simp: meeting_receive_def same_meeting_def meeting_cast_Ok_iff vote_cast_Ok_iff split: result.split)

lemma same_meeting_trans: "same_meeting a b \<Longrightarrow> same_meeting b c \<Longrightarrow> same_meeting a c"
  by (simp add: same_meeting_def)

lemma same_meeting_received: "same_meeting m (foldl (meeting_receive cr) m bs)"
proof (induction bs arbitrary: m)
  case (Cons b bs)
  show ?case unfolding foldl_Cons by (rule same_meeting_trans [OF same_meeting_receive Cons.IH])
qed (simp add: same_meeting_def)

lemma meeting_receive_reaches:
  "meeting_reaches tok hexd cr de m \<Longrightarrow> meeting_reaches tok hexd cr de (foldl (meeting_receive cr) m bs)"
proof (induction bs arbitrary: m)
  case (Cons b bs)
  have "meeting_reaches tok hexd cr de (meeting_receive cr m b)"
    using Cons.prems meeting_reaches.received by (auto simp: meeting_receive_def split: result.split)
  then show ?case using Cons.IH by simp
qed simp

lemma same_meeting_close:
  assumes "meeting_close tok hexd de st m = (m', Ok ())"
  shows "same_meeting m m'" "mt_status m' = MeetingClosed" "\<forall>e \<in> set (mt_votes m'). vt_status (snd e) = VoteEvaluated"
proof -
  obtain votes where c: "close_votes tok hexd de st (mt_votes m) = (votes, Ok ())" "m' = m\<lparr>mt_votes := votes, mt_status := MeetingClosed\<rparr>"
    using meeting_close_cases [OF assms] by auto
  note kept = close_votes_kept [OF c(1)]
  show "same_meeting m m'" using snapshots_kept [OF conjunct1 [OF kept]] by (simp add: same_meeting_def c(2))
  show "mt_status m' = MeetingClosed" "\<forall>e \<in> set (mt_votes m'). vt_status (snd e) = VoteEvaluated" using kept by (simp_all add: c(2))
qed

text \<open>The votes of an opened meeting are frozen at its opening.\<close>

lemma opened_meeting:
  assumes de: "decodes_blocks de" and st: "reachable cr de st" "represents cr bs st" and "meeting_open tok hexd de st m = Ok m'"
  obtains at where "mt_opened_at m' = Some at" "at = head_height (head_of cr bs)" "mt_metadata m' = mt_metadata m" "mt_items m' = mt_items m"
    "mt_company m' = mt_company m" "mt_convened m' = mt_convened m" "wf_label (mm_channel (mt_metadata m))"
    "\<forall>e \<in> set (mt_votes m'). \<exists>s rules ws subject digest. reconstruct tok hexd de st at = Ok s \<and>
       decides_together s (ChannelId (mm_channel (mt_metadata m))) rules ws \<and>
       vt_snapshot (snd e) = Some (vote_snapshot_of s at (ChannelId (mm_channel (mt_metadata m))) ws subject digest)"
proof -
  let ?c = "ChannelId (mm_channel (mt_metadata m))"
  obtain head :: chain_head and votes where o': "wf_label (mm_channel (mt_metadata m))" "store_head st = Ok head"
    "list_all2 (\<lambda>i e. open_item tok hexd de st (head_height head) ?c i = Ok e) (filter (\<lambda>i. is_vote (ai_body i)) (mt_items m)) votes"
    "m' = m\<lparr>mt_votes := votes, mt_opened_at := Some (head_height head), mt_status := MeetingOpen\<rparr>"
    using assms(4) unfolding meeting_open_Ok_iff by blast
  have head: "head = head_of cr bs" using o'(2) head_block_represents(1) [OF de st(2)] by simp
  have "\<exists>s rules ws subject digest. reconstruct tok hexd de st (head_height head) = Ok s \<and> decides_together s ?c rules ws \<and>
      vt_snapshot (snd e) = Some (vote_snapshot_of s (head_height head) ?c ws subject digest)" if "e \<in> set votes" for e
  proof -
    obtain i where i: "i \<in> set (filter (\<lambda>i. is_vote (ai_body i)) (mt_items m))" "open_item tok hexd de st (head_height head) ?c i = Ok e"
      using list_all2_right [OF o'(3) \<open>e \<in> set votes\<close>] by blast
    then obtain v1 where v1: "vote_freeze tok hexd de st (head_height head) ?c (vote_draft (item_subject i) (agenda_digest (ai_body i))) = Ok v1"
      "vote_open v1 = Ok (snd e)" using opened_vote(4) [OF de st(1) i(2)] by auto
    obtain s rules ws where s: "reconstruct tok hexd de st (head_height head) = Ok s" "decides_together s ?c rules ws"
      "vt_snapshot v1 = Some (vote_snapshot_of s (head_height head) ?c ws (item_subject i) (agenda_digest (ai_body i)))"
      using v1(1) unfolding vote_freeze_Ok_iff [OF de st(2)] by (auto simp: vote_draft_def)
    moreover have "vt_snapshot (snd e) = vt_snapshot v1" using v1(2) by (simp add: vote_open_Ok_iff)
    ultimately show ?thesis by metis
  qed
  then show thesis using o'(1) by (intro that [of "head_height head"]) (simp_all add: o'(4) head)
qed

text \<open>What the votes of a meeting are when it has been held, and the items its record reports.\<close>

lemma meeting_vote_of:
  assumes inv: "meeting_inv cr m" and "mt_status m \<notin> {MeetingDraft, MeetingConvened}" and i: "i \<in> set (mt_items m)"
  shows "is_vote (ai_body i) \<Longrightarrow> \<exists>v. meeting_vote m (ai_number i) = Some v \<and> (ai_number i, v) \<in> set (mt_votes m) \<and> vote_for cr m i (ai_number i, v)"
    "\<not> is_vote (ai_body i) \<Longrightarrow> meeting_vote m (ai_number i) = None"
proof -
  let ?items = "filter (\<lambda>i. is_vote (ai_body i)) (mt_items m)"
  have votes: "list_all2 (vote_for cr m) ?items (mt_votes m)" using assms(1,2) by (simp add: meeting_inv_def split: if_splits)
  have "wf_agenda (mt_items m)" using assms(1,2) by (simp add: meeting_inv_def)
  then have items: "distinct (map ai_number (mt_items m))" by (rule wf_agenda_numbers)
  have numbers: "map fst (mt_votes m) = map ai_number ?items"
    using votes by (induction rule: list_all2_induct) (simp_all add: vote_for_def)
  have distinct: "distinct (map fst (mt_votes m))" unfolding numbers using items by (simp add: distinct_map_filter)
  show "\<exists>v. meeting_vote m (ai_number i) = Some v \<and> (ai_number i, v) \<in> set (mt_votes m) \<and> vote_for cr m i (ai_number i, v)"
    if "is_vote (ai_body i)"
  proof -
    have "i \<in> set ?items" using i that by simp
    then obtain e where e: "e \<in> set (mt_votes m)" "vote_for cr m i e" using list_all2_left [OF votes] by blast
    then have "e = (ai_number i, snd e)" unfolding vote_for_def by (metis prod.collapse)
    then show ?thesis using e distinct unfolding meeting_vote_def by (metis map_of_eq_Some_iff)
  qed
  show "meeting_vote m (ai_number i) = None" if "\<not> is_vote (ai_body i)"
  proof -
    have "ai_number i \<notin> set (map ai_number ?items)"
      using items i that by (auto simp: distinct_map inj_on_def)
    then show ?thesis using numbers by (metis map_of_eq_None_iff meeting_vote_def set_map)
  qed
qed

lemma final_item_decided:
  assumes inv: "meeting_inv cr m" and closed: "mt_status m = MeetingClosed" and i: "i \<in> set (mt_items m)"
    and chain: "\<forall>e \<in> set (mt_votes m). vote_on_chain tok hexd cr de st (unat h) (snd e)"
    and company: "\<forall>e \<in> set (mt_votes m). \<forall>s. vt_snapshot (snd e) = Some s \<longrightarrow> vs_company s = mt_company m"
    and at: "mt_opened_at m = Some at"
  shows "item_decided tok hexd cr de st (mt_company m) (mm_channel (mt_metadata m)) at h (final_item_of m i)"
proof (cases "ai_body i")
  case (Informational d)
  then show ?thesis
    using meeting_vote_of(2) [OF inv _ i] closed by (simp add: item_decided_iff final_item_of_def is_vote_def)
next
  case (VoteItem d)
  then obtain v where v: "meeting_vote m (ai_number i) = Some v" "(ai_number i, v) \<in> set (mt_votes m)" "vote_for cr m i (ai_number i, v)"
    using meeting_vote_of(1) [OF inv _ i] closed by (auto simp: is_vote_def)
  then obtain tx l r where r: "vt_finalized v = Some (tx, lt_height l)" "get_transaction de st tx = Ok (Some l)"
    "namespace_str (t_namespace (lt_transaction l)) = VOTE_NAMESPACE" "t_payload (lt_transaction l) = enc_vote_record r"
    "wf_vote_record r" "vr_version r = VOTE_RECORD_VERSION"
    "vote_holds tok hexd cr de st (lt_height l) (t_signer (lt_transaction l)) r" "unat (lt_height l) < unat h"
    "vt_snapshot v = Some (vr_snapshot r)" "vt_evaluation v = Some (vr_evaluation r)"
    using chain unfolding vote_on_chain_def by fastforce
  have "vote_belongs (mt_company m) (mm_channel (mt_metadata m)) at h (final_item_of m i) d r (lt_height l)"
    using v(3) r(8-10) company v(1,2) at
    by (auto simp: vote_belongs_def Let_def vote_for_def final_item_of_def agenda_digest_def VoteItem word_less_nat_alt)
  then show ?thesis
    using r by (auto simp: item_decided_iff final_item_of_def Let_def VoteItem v(1))
qed

lemma composed_holds:
  assumes "read_meeting_record tok hexd payload = Ok r" and "is_string payload"
    and "t_namespace t = Namespace MEETING_NAMESPACE" and "t_payload t = str_bytes payload"
  shows "holds_meeting tok hexd t r" "fits_u32 (str_bytes payload)"
  using assms by (simp_all add: holds_meeting_def is_string_def fits_u32_def)

text \<open>A meeting that was convened: its record is on the chain, for ever.\<close>

lemma convened_meeting:
  assumes de: "decodes_blocks de" and rep: "represents cr bs st" and room: "length (chain_ids bs) + 1 < 2 ^ 64"
    and run: "meeting_convene tok hexd cr de io st seed n ms m = (st1, Ok (m1, i))"
    and "is_string (convened_text (CompanyId (mt_company m1)) n (mt_metadata m) (Agenda (mt_items m)))"
  obtains s where "store_steps cr de st st1" "mt_metadata m1 = mt_metadata m" "mt_items m1 = mt_items m"
    "mt_convened m1 \<noteq> None" "fst (the (mt_convened m1)) = i" "mt_company m1 = company_id_str (co_company s)" "wf_label (mt_company m1)"
    "\<And>st2. store_steps cr de st1 st2 \<Longrightarrow> \<exists>c r p. get_transaction de st2 i = Ok (Some c) \<and> holds_meeting tok hexd (lt_transaction c) r \<and>
       mr_body r = Convened (mt_metadata m) (Agenda (mt_items m)) \<and> company_id_str (mr_company r) = mt_company m1 \<and>
       unat (lt_height c) = length bs \<and> reconstruct tok hexd de st2 (lt_height c) = Ok (s\<lparr>co_at := lt_height c\<rparr>) \<and>
       authorised_signer s Governance (t_signer (lt_transaction c)) = Ok p"
    "\<And>bs1. represents cr bs1 st1 \<Longrightarrow> length bs < length bs1"
proof -
  from run obtain company payload h where c: "convening_ready tok hexd cr de st seed n m = Ok (company, payload)"
    "seal cr de io st seed MEETING_NAMESPACE MEETING_SCHEMA_VERSION (str_bytes payload) ms = (st1, Ok (i, h))"
    "m1 = m\<lparr>mt_company := company_id_str company, mt_convened := Some (i, h), mt_status := MeetingConvened\<rparr>"
    unfolding meeting_convene_Ok_iff by blast
  from c(1) obtain s p where s: "company_now tok hexd de st = Ok s" "authorised_signer s Governance (ed_public cr seed) = Ok p"
    "company = co_company s" "compose_convened tok hexd company n (mt_metadata m) (Agenda (mt_items m)) = Ok payload"
    unfolding convening_ready_Ok_iff by blast
  have payload: "payload = convened_text company n (mt_metadata m) (Agenda (mt_items m))"
    "read_meeting_record tok hexd payload = Ok \<lparr>mr_company = company, mr_notarisation = n, mr_body = Convened (mt_metadata m) (Agenda (mt_items m))\<rparr>"
    using compose_convened_valid [of tok hexd company n "mt_metadata m" "Agenda (mt_items m)"] unfolding s(4) rvalid_simps by blast+
  have "company = CompanyId (mt_company m1)" by (cases company) (simp add: c(3))
  then have string: "is_string payload" using assms(5) payload(1) by simp
  then have fits: "fits_u32 (str_bytes payload)" by (simp add: is_string_def fits_u32_def)
  have label: "wf_label (company_id_str company)"
    using read_meeting_record_valid [of tok hexd payload] unfolding payload(2) by (simp add: wf_meeting_record_def)
  have persists: "\<exists>c r p. get_transaction de st2 i = Ok (Some c) \<and> holds_meeting tok hexd (lt_transaction c) r \<and>
       mr_body r = Convened (mt_metadata m) (Agenda (mt_items m)) \<and> company_id_str (mr_company r) = mt_company m1 \<and>
       unat (lt_height c) = length bs \<and> reconstruct tok hexd de st2 (lt_height c) = Ok (s\<lparr>co_at := lt_height c\<rparr>) \<and>
       authorised_signer s Governance (t_signer (lt_transaction c)) = Ok p" if later: "store_steps cr de st1 st2" for st2
  proof (rule sealed_record [where tok = tok and hexd = hexd, OF de rep room meeting_namespace fits c(2) later])
    fix t
    assume t: "get_transaction de st2 i = Ok (Some \<lparr>lt_height = h, lt_index = 0, lt_transaction = t\<rparr>)"
      "t_namespace t = Namespace MEETING_NAMESPACE" "t_payload t = str_bytes payload" "t_signer t = ed_public cr seed" "unat h = length bs"
      and now: "\<And>s. company_now tok hexd de st = Ok s \<Longrightarrow> reconstruct tok hexd de st2 h = Ok (s\<lparr>co_at := h\<rparr>)"
    show ?thesis
      using t(1,4,5) composed_holds(1) [OF payload(2) string t(2,3)] now [OF s(1)] s(2)
      by (intro exI [of _ "\<lparr>lt_height = h, lt_index = 0, lt_transaction = t\<rparr>"]
          exI [of _ "\<lparr>mr_company = company, mr_notarisation = n, mr_body = Convened (mt_metadata m) (Agenda (mt_items m))\<rparr>"] exI [of _ p])
        (simp add: c(3))
  qed
  from sealed_one [OF de rep room meeting_namespace(1) fits c(2)] obtain b where b: "represents cr (bs @ [b]) st1" "store_steps cr de st st1"
    by blast
  have "length bs < length bs1" if "represents cr bs1 st1" for bs1
    using represents_functional [OF de b(1) that] by auto
  then show thesis using that [OF b(2) _ _ _ _ _ _ persists] s(3) label by (simp add: c(3))
qed

lemma later_same_state:
  assumes "decodes_blocks de" and "represents cr bs st" and "store_steps cr de st st'" and "unat at < length bs"
  shows "reconstruct tok hexd de st' at = reconstruct tok hexd de st at"
proof -
  obtain new where "represents cr (bs @ new) st'" by (rule store_steps_reachable_prefix [OF assms(1-3)])
  then show ?thesis by (rule reconstruct_extends [OF assms(1,2) _ assms(4)])
qed

text \<open>A meeting that was opened, received ballots and was closed: its votes are ready to be finalised.\<close>

lemma held_meeting:
  assumes de: "decodes_blocks de" and m: "meeting_reaches tok hexd cr de m" and st: "reachable cr de st" "represents cr bs st"
    and run: "meeting_open tok hexd de st m = Ok m1" "meeting_close tok hexd de st' (foldl (meeting_receive cr) m1 offered) = (m2, Ok ())"
    and st': "reachable cr de st'" and later: "store_steps cr de st st2"
  obtains at where "mt_opened_at m2 = Some at" "unat at + 1 = length bs" "same_meeting m1 m2" "mt_metadata m2 = mt_metadata m"
    "mt_items m2 = mt_items m" "mt_company m2 = mt_company m" "mt_convened m2 = mt_convened m" "meeting_inv cr m2" "mt_status m2 = MeetingClosed"
    "\<forall>e \<in> set (mt_votes m2). vt_finalized (snd e) = None \<and> (\<exists>s rules ws subject digest. reconstruct tok hexd de st at = Ok s \<and>
       vt_snapshot (snd e) = Some (vote_snapshot_of s at (ChannelId (mm_channel (mt_metadata m))) ws subject digest) \<and>
       (wf_label (company_id_str (co_company s)) \<longrightarrow>
        frozen_at tok hexd cr de st2 at (ChannelId (mm_channel (mt_metadata m))) subject digest (snd e)))"
proof (rule opened_meeting [OF de st run(1)])
  fix at
  let ?c = "ChannelId (mm_channel (mt_metadata m))"
  assume o': "mt_opened_at m1 = Some at" "at = head_height (head_of cr bs)" "mt_metadata m1 = mt_metadata m" "mt_items m1 = mt_items m"
    "mt_company m1 = mt_company m" "mt_convened m1 = mt_convened m" and label: "wf_label (mm_channel (mt_metadata m))"
    and votes: "\<forall>e \<in> set (mt_votes m1). \<exists>s rules ws subject digest. reconstruct tok hexd de st at = Ok s \<and>
       decides_together s ?c rules ws \<and> vt_snapshot (snd e) = Some (vote_snapshot_of s at ?c ws subject digest)"
  have len: "unat at + 1 = length bs" using head_height_represents [OF st(2)] o'(2) by (cases bs) simp_all
  have same: "same_meeting m1 m2"
    by (rule same_meeting_trans [OF same_meeting_received same_meeting_close(1) [OF run(2)]])
  have "meeting_reaches tok hexd cr de m2"
    by (rule meeting_reaches.closed [OF meeting_receive_reaches [OF meeting_reaches.opened [OF m st(1) run(1)]] st' run(2)])
  then have inv: "meeting_inv cr m2" by (rule meeting_reaches_inv [OF de])
  note closed = same_meeting_close(2,3) [OF run(2)]
  have past: "reconstruct tok hexd de st2 at = reconstruct tok hexd de st at"
    by (rule later_same_state [OF de st(2) later]) (use len in simp)
  have "vt_finalized (snd e) = None \<and> (\<exists>s rules ws subject digest. reconstruct tok hexd de st at = Ok s \<and>
       vt_snapshot (snd e) = Some (vote_snapshot_of s at ?c ws subject digest) \<and>
       (wf_label (company_id_str (co_company s)) \<longrightarrow> frozen_at tok hexd cr de st2 at ?c subject digest (snd e)))"
    if e: "e \<in> set (mt_votes m2)" for e
  proof -
    have kept: "vote_inv cr (snd e)" by (rule meeting_votes_inv [OF inv e])
    have "(fst e, vt_snapshot (snd e)) \<in> set (snapshots (mt_votes m1))"
      unfolding conjunct2 [OF conjunct2 [OF conjunct2 [OF conjunct2 [OF conjunct2 [OF same [unfolded same_meeting_def]]]]], symmetric]
      using imageI [OF e, of "\<lambda>e. (fst e, vt_snapshot (snd e))"] by simp
    then obtain e1 where e1: "e1 \<in> set (mt_votes m1)" "vt_snapshot (snd e) = vt_snapshot (snd e1)" by auto
    then obtain s rules ws subject digest where s: "reconstruct tok hexd de st at = Ok s" "decides_together s ?c rules ws"
      "vt_snapshot (snd e) = Some (vote_snapshot_of s at ?c ws subject digest)" using votes by metis
    have "vt_finalized (snd e) = None" using kept closed(2) e by (simp add: vote_inv_def)
    moreover have "frozen_at tok hexd cr de st2 at ?c subject digest (snd e)" if "wf_label (company_id_str (co_company s))"
      unfolding frozen_at_def past using s that label kept by (auto simp: vote_inv_def)
    ultimately show ?thesis using s(1,3) by blast
  qed
  then show thesis
    using o' len same inv closed(1) by (intro that [of at]) (auto simp: same_meeting_def)
qed

text \<open>A meeting that was finalised: every vote is on the chain, the final record follows them, and it verifies.\<close>

lemma concluded_meeting:
  assumes de: "decodes_blocks de" and rep: "represents cr bs st" and room: "length (chain_ids bs) + length (mt_votes m) + 1 < 2 ^ 64"
    and inv: "meeting_inv cr m" and at: "mt_opened_at m = Some at" "unat at < length bs"
    and votes: "\<forall>e \<in> set (mt_votes m). vt_finalized (snd e) = None \<and> (\<exists>subject digest. frozen_at tok hexd cr de st at channel subject digest (snd e))"
    and company: "\<forall>e \<in> set (mt_votes m). \<forall>s. vt_snapshot (snd e) = Some s \<longrightarrow> vs_company s = mt_company m"
    and fin: "meeting_finalize tok hexd cr de io st seed n ms m = (st1, m', Ok f)"
    and fits: "\<forall>e \<in> set (mt_votes m'). storable cr (snd e)" "is_string (final_text (CompanyId (mt_company m)) n (fm_record f))"
    and later: "store_steps cr de st1 st2"
  obtains l where "store_steps cr de st st2" "get_transaction de st2 (fm_tx_id f) = Ok (Some l)" "lt_height l = fm_height f" "at < fm_height f"
    "holds_meeting tok hexd (lt_transaction l) \<lparr>mr_company = CompanyId (mt_company m), mr_notarisation = n, mr_body = Concluded (fm_record f)\<rparr>"
    "\<exists>s p. reconstruct tok hexd de st2 (fm_height f) = Ok s \<and> authorised_signer s Governance (t_signer (lt_transaction l)) = Ok p"
    "\<forall>e \<in> set (mf_items (fm_record f)). item_decided tok hexd cr de st2 (mt_company m) (mm_channel (mt_metadata m)) at (fm_height f) e"
    "mf_metadata (fm_record f) = mt_metadata m" "mf_opened_at (fm_record f) = at" "map fi_item (mf_items (fm_record f)) = mt_items m"
    "Some (mf_meeting_id (fm_record f)) = map_option fst (mt_convened m)"
proof -
  from meeting_finalize_cases [OF fin] obtain st' votes r payload i h where f:
    "finalizing_ready tok hexd cr de st seed m = Ok ()" "finalize_votes tok hexd cr de io 0 st seed ms (mt_votes m) = (st', votes, Ok ())"
    "conclude_ready tok hexd n (m\<lparr>mt_votes := votes\<rparr>) = Ok (r, payload)"
    "seal cr de (io (length votes)) st' seed MEETING_NAMESPACE MEETING_SCHEMA_VERSION (str_bytes payload) ms = (st1, Ok (i, h))"
    "m' = m\<lparr>mt_votes := votes, mt_finalized := Some (i, h), mt_status := MeetingFinalized\<rparr>" "f = \<lparr>fm_tx_id = i, fm_height = h, fm_record = r\<rparr>"
    by auto
  have fr: "fm_record f = r" "fm_height f = h" "fm_tx_id f = i" by (simp_all add: f(6))
  have closed: "mt_status m = MeetingClosed" using f(1) by (simp add: finalizing_ready_def result_simps)
  obtain now p where now: "company_now tok hexd de st = Ok now" "authorised_signer now Governance (ed_public cr seed) = Ok p"
    using f(1) by (auto simp: finalizing_ready_def result_simps)
  let ?m = "m\<lparr>mt_votes := votes\<rparr>"
  have r: "meeting_final_record ?m = Ok r" "compose_final tok hexd (CompanyId (mt_company m)) n r = Ok payload"
    using f(3) by (simp_all add: conclude_ready_Ok_iff)
  have payload: "payload = final_text (CompanyId (mt_company m)) n r"
    "read_meeting_record tok hexd payload = Ok \<lparr>mr_company = CompanyId (mt_company m), mr_notarisation = n, mr_body = Concluded r\<rparr>"
    using compose_final_valid [of tok hexd "CompanyId (mt_company m)" n r] unfolding r(2) rvalid_simps by blast+
  have string: "is_string payload" using fits(2) payload(1) fr by simp
  have "\<forall>e \<in> set votes. storable cr (snd e)" using fits(1) by (simp add: f(5))
  from finalised_votes [OF de rep _ at(2) votes f(2) this] room obtain new where new: "represents cr (bs @ new) st'" "store_steps cr de st st'"
    "length (chain_ids (bs @ new)) = length (chain_ids bs) + length (mt_votes m)"
    "\<And>now. company_now tok hexd de st = Ok now \<Longrightarrow> \<exists>x. company_now tok hexd de st' = Ok (now\<lparr>co_at := x\<rparr>)"
    "\<And>st2. store_steps cr de st' st2 \<Longrightarrow> \<forall>e \<in> set votes. vote_on_chain tok hexd cr de st2 (length (bs @ new)) (snd e)"
    by auto
  have space: "length (chain_ids (bs @ new)) + 1 < 2 ^ 64" using new(3) room by simp
  have u: "fits_u32 (str_bytes payload)" using string by (simp add: is_string_def fits_u32_def)
  have steps: "store_steps cr de st' st1" by (rule seal_steps [OF de new(1) meeting_namespace(1) u f(4)])
  have steps': "store_steps cr de st' st2" by (rule store_steps_append [OF later steps])
  obtain x where x: "company_now tok hexd de st' = Ok (now\<lparr>co_at := x\<rparr>)" using new(4) [OF now(1)] by blast
  have inv': "meeting_inv cr ?m" by (rule finalized_votes_inv(1) [OF inv closed f(2)])
  have rec: "mf_metadata r = mt_metadata m" "mf_opened_at r = at" "mf_items r = map (final_item_of ?m) (mt_items m)"
    "Some (mf_meeting_id r) = map_option fst (mt_convened m)"
    using r(1) at(1) by (auto simp: meeting_final_record_Ok_iff)
  have kept: "snapshots votes = snapshots (mt_votes m)" by (rule snapshots_kept [OF conjunct1 [OF finalize_votes_kept [OF f(2)]]])
  have company': "\<forall>e \<in> set votes. \<forall>s. vt_snapshot (snd e) = Some s \<longrightarrow> vs_company s = mt_company m"
  proof
    fix e
    assume "e \<in> set votes"
    then have "(fst e, vt_snapshot (snd e)) \<in> set (snapshots (mt_votes m))"
      unfolding kept [symmetric] using imageI [of e "set votes" "\<lambda>e. (fst e, vt_snapshot (snd e))"] by simp
    then show "\<forall>s. vt_snapshot (snd e) = Some s \<longrightarrow> vs_company s = mt_company m" using company by fastforce
  qed
  show thesis
  proof (rule sealed_record [where tok = tok and hexd = hexd, OF de new(1) space meeting_namespace u f(4) later])
    fix t
    assume t: "get_transaction de st2 i = Ok (Some \<lparr>lt_height = h, lt_index = 0, lt_transaction = t\<rparr>)"
      "t_namespace t = Namespace MEETING_NAMESPACE" "t_payload t = str_bytes payload" "t_signer t = ed_public cr seed" "unat h = length (bs @ new)"
      and state: "\<And>s. company_now tok hexd de st' = Ok s \<Longrightarrow> reconstruct tok hexd de st2 h = Ok (s\<lparr>co_at := h\<rparr>)"
    let ?l = "\<lparr>lt_height = h, lt_index = 0, lt_transaction = t\<rparr>"
    have "\<forall>e \<in> set (mt_votes ?m). vote_on_chain tok hexd cr de st2 (unat h) (snd e)" using new(5) [OF steps'] t(5) by simp
    then have decided: "item_decided tok hexd cr de st2 (mt_company m) (mm_channel (mt_metadata m)) at h (final_item_of ?m i)"
      if "i \<in> set (mt_items m)" for i
      using final_item_decided [OF inv', of i tok hexd de st2 h at] closed that company' at(1) by simp
    have "map fi_item (mf_items r) = mt_items m" unfolding rec(3) by (simp add: final_item_of_def Let_def comp_def)
    moreover have "at < h" using at(2) t(5) by (simp add: word_less_nat_alt)
    moreover have "store_steps cr de st st2" by (rule store_steps_append [OF steps' new(2)])
    moreover have "\<exists>s p. reconstruct tok hexd de st2 h = Ok s \<and> authorised_signer s Governance (t_signer t) = Ok p"
      using state [OF x] now(2) t(4) by simp
    moreover have "holds_meeting tok hexd t \<lparr>mr_company = CompanyId (mt_company m), mr_notarisation = n, mr_body = Concluded r\<rparr>"
      by (rule composed_holds(1) [OF payload(2) string t(2,3)])
    ultimately show thesis using t(1) decided rec by (intro that [of ?l]) (simp_all add: fr)
  qed
qed

lemma meeting_report_valid:
  assumes "decodes_blocks de" and "represents cr bs st" and "decodes_votes dv"
    and "holds_meeting tok hexd (lt_transaction l) r" and "mr_body r = Concluded f"
    and "meeting_holds tok hexd cr de st (lt_height l) (t_signer (lt_transaction l)) (company_id_str (mr_company r)) f"
  shows "\<exists>v. meeting_report tok hexd cr de dv st i l = Ok v \<and> meeting_is_valid v \<and> mv_record v = Some f \<and> mv_height v = lt_height l"
  by (rule meeting_report_exact [OF assms(1-3), of tok hexd i l]) (use assms(4-6) in blast)

text \<open>
  C40: A meeting that was held verifies, for ever. A meeting that is convened on a chain, opened after any
  further use of it, given any ballots for any items in any order, closed, and finalised after yet more
  use of the chain, is reported valid by \<open>verify_meeting\<close> on every later store, with the final record and
  the height that \<open>finalize\<close> answered: nothing the company decides or amends afterwards matters. (The chain
  has room for the records, the two texts are strings, and the vote records fit their layout, as their types promise.)
\<close>

theorem meeting_verifies:
  assumes "decodes_blocks de" and "decodes_votes dv" and "meeting_reaches tok hexd cr de m0"
    and "reachable cr de st0" and "represents cr bs0 st0" and "length (chain_ids bs0) + 1 < 2 ^ 64"
    and "meeting_convene tok hexd cr de io0 st0 seed0 n0 ms0 m0 = (st1, Ok (m1, i))"
    and "is_string (convened_text (CompanyId (mt_company m1)) n0 (mt_metadata m0) (Agenda (mt_items m0)))"
    and "store_steps cr de st1 st2" and "meeting_open tok hexd de st2 m1 = Ok m2"
    and "store_steps cr de st2 sta" and "meeting_close tok hexd de sta (foldl (meeting_receive cr) m2 offered) = (m3, Ok ())"
    and "store_steps cr de sta st3" and "represents cr bs st3" and "length (chain_ids bs) + length (mt_votes m3) + 1 < 2 ^ 64"
    and "meeting_finalize tok hexd cr de io st3 seed n ms m3 = (st4, m4, Ok f)"
    and "\<forall>e \<in> set (mt_votes m4). storable cr (snd e)" and "is_string (final_text (CompanyId (mt_company m3)) n (fm_record f))"
    and "store_steps cr de st4 st5"
  shows "\<exists>v. verify_meeting tok hexd cr de dv st5 (fm_tx_id f) = Ok v \<and> meeting_is_valid v \<and>
    mv_record v = Some (fm_record f) \<and> mv_height v = fm_height f"
proof (rule convened_meeting [OF assms(1,5,6,7,8)])
  fix s
  assume c: "store_steps cr de st0 st1" "mt_metadata m1 = mt_metadata m0" "mt_items m1 = mt_items m0" "mt_convened m1 \<noteq> None"
      "fst (the (mt_convened m1)) = i" "mt_company m1 = company_id_str (co_company s)" "wf_label (mt_company m1)"
    and convening: "\<And>st2. store_steps cr de st1 st2 \<Longrightarrow> \<exists>c r p. get_transaction de st2 i = Ok (Some c) \<and> holds_meeting tok hexd (lt_transaction c) r \<and>
       mr_body r = Convened (mt_metadata m0) (Agenda (mt_items m0)) \<and> company_id_str (mr_company r) = mt_company m1 \<and>
       unat (lt_height c) = length bs0 \<and> reconstruct tok hexd de st2 (lt_height c) = Ok (s\<lparr>co_at := lt_height c\<rparr>) \<and>
       authorised_signer s Governance (t_signer (lt_transaction c)) = Ok p"
    and longer: "\<And>bs1. represents cr bs1 st1 \<Longrightarrow> length bs0 < length bs1"
  have later: "store_steps cr de st2 st3" by (rule store_steps_append [OF assms(13,11)])
  have m1: "meeting_reaches tok hexd cr de m1" by (rule meeting_reaches.convened [OF assms(3,4,7)])
  have st2: "reachable cr de st2" by (rule reachable_steps [OF reachable_steps [OF assms(4) c(1)] assms(9)])
  obtain bs1 where bs1: "represents cr bs1 st1" by (rule reachable_represents [OF reachable_steps [OF assms(4) c(1)] assms(1)])
  obtain more where bs2: "represents cr (bs1 @ more) st2" by (rule store_steps_reachable_prefix [OF assms(1) bs1 assms(9)])
  obtain more' where "represents cr ((bs1 @ more) @ more') st3" by (rule store_steps_reachable_prefix [OF assms(1) bs2 later])
  then have bs: "bs = (bs1 @ more) @ more'" using represents_functional [OF assms(1)] assms(14) by blast
  obtain c0 r0 p0 where "get_transaction de st2 i = Ok (Some c0)" "unat (lt_height c0) = length bs0"
    and s0: "reconstruct tok hexd de st2 (lt_height c0) = Ok (s\<lparr>co_at := lt_height c0\<rparr>)" using convening [OF assms(9)] by blast
  show ?thesis
  proof (rule held_meeting [OF assms(1) m1 st2 bs2 assms(10,12) reachable_steps [OF st2 assms(11)] later])
    fix at
    assume h: "mt_opened_at m3 = Some at" "unat at + 1 = length (bs1 @ more)" "same_meeting m2 m3" "mt_metadata m3 = mt_metadata m1"
        "mt_items m3 = mt_items m1" "mt_company m3 = mt_company m1" "mt_convened m3 = mt_convened m1" "meeting_inv cr m3"
      and votes: "\<forall>e \<in> set (mt_votes m3). vt_finalized (snd e) = None \<and> (\<exists>s rules ws subject digest. reconstruct tok hexd de st2 at = Ok s \<and>
       vt_snapshot (snd e) = Some (vote_snapshot_of s at (ChannelId (mm_channel (mt_metadata m1))) ws subject digest) \<and>
       (wf_label (company_id_str (co_company s)) \<longrightarrow>
        frozen_at tok hexd cr de st3 at (ChannelId (mm_channel (mt_metadata m1))) subject digest (snd e)))"
    have one: "co_company s' = co_company s" if "reconstruct tok hexd de st2 at = Ok s'" for s'
      using one_company [OF assms(1) bs2 that s0] by simp
    have ready: "\<forall>e \<in> set (mt_votes m3). vt_finalized (snd e) = None \<and>
        (\<exists>subject digest. frozen_at tok hexd cr de st3 at (ChannelId (mm_channel (mt_metadata m1))) subject digest (snd e))"
      using votes one c(6,7) by metis
    have company: "\<forall>e \<in> set (mt_votes m3). \<forall>x. vt_snapshot (snd e) = Some x \<longrightarrow> vs_company x = mt_company m3"
      using votes one by (fastforce simp: vote_snapshot_of_def h(6) c(6))
    have len: "unat at < length bs" using h(2) bs by simp
    show ?thesis
    proof (rule concluded_meeting [OF assms(1,14,15) h(8,1) len ready company assms(16,17,18,19)])
      fix l
      assume l: "store_steps cr de st3 st5" "get_transaction de st5 (fm_tx_id f) = Ok (Some l)" "lt_height l = fm_height f" "at < fm_height f"
        "holds_meeting tok hexd (lt_transaction l) \<lparr>mr_company = CompanyId (mt_company m3), mr_notarisation = n, mr_body = Concluded (fm_record f)\<rparr>"
        "\<exists>s p. reconstruct tok hexd de st5 (fm_height f) = Ok s \<and> authorised_signer s Governance (t_signer (lt_transaction l)) = Ok p"
        "\<forall>e \<in> set (mf_items (fm_record f)). item_decided tok hexd cr de st5 (mt_company m3) (mm_channel (mt_metadata m3)) at (fm_height f) e"
        "mf_metadata (fm_record f) = mt_metadata m3" "mf_opened_at (fm_record f) = at" "map fi_item (mf_items (fm_record f)) = mt_items m3"
        "Some (mf_meeting_id (fm_record f)) = map_option fst (mt_convened m3)"
      have id: "mf_meeting_id (fm_record f) = i" using l(11) c(4,5) by (auto simp: h(7))
      have all: "store_steps cr de st1 st5" by (rule store_steps_append [OF store_steps_append [OF l(1) later] assms(9)])
      obtain bs5 where bs5: "represents cr bs5 st5" by (rule reachable_represents [OF reachable_steps [OF reachable_steps [OF st2 later] l(1)] assms(1)])
      obtain c1 r p where k: "get_transaction de st5 i = Ok (Some c1)" "holds_meeting tok hexd (lt_transaction c1) r"
        "mr_body r = Convened (mt_metadata m0) (Agenda (mt_items m0))" "company_id_str (mr_company r) = mt_company m1"
        "unat (lt_height c1) = length bs0" "reconstruct tok hexd de st5 (lt_height c1) = Ok (s\<lparr>co_at := lt_height c1\<rparr>)"
        "authorised_signer s Governance (t_signer (lt_transaction c1)) = Ok p" using convening [OF all] by blast
      have "lt_height c1 \<le> at" using k(5) h(2) longer [OF bs1] by (simp add: word_le_nat_alt)
      then have "meeting_holds tok hexd cr de st5 (lt_height l) (t_signer (lt_transaction l)) (mt_company m3) (fm_record f)"
        unfolding meeting_holds_def id l(3)
        using k l(4,6,7) by (auto simp: l(8-10) h(4-6) c(2,3,6))
      with meeting_report_valid [OF assms(1) bs5 assms(2) l(5), of "fm_record f" "fm_tx_id f"]
      show ?thesis by (simp add: verify_meeting_def l(2,3))
    qed
  qed
qed

end
