(* ===== verification/Irena_Meeting_Sample.thy ===== *)
theory Irena_Meeting_Sample
  imports Irena_Meeting_Verify
begin

text \<open>
  A general meeting of the sample company, from its convening to its minutes: an agenda of a report and a
  motion, the ballot of one member, the texts of the two records and the events quick-xml makes of them. It
  shows that the hypotheses of the theorems about meetings hold together.
\<close>

text \<open>
  The general meeting of the sample company: a report, which is for information, and the lease, on which the
  members vote. The events are what quick-xml makes of the two texts.
\<close>

definition sample_metadata :: meeting_metadata where
  "sample_metadata = \<lparr>mm_channel = ''members'', mm_title = ''AGM'', mm_scheduled_at = ''2024-03-29T09:30:00Z'', mm_notice_digest = None\<rparr>"

definition sample_report :: agenda_item where
  "sample_report = \<lparr>ai_number = 1, ai_title = ''Report'', ai_body = Informational 5\<rparr>"

definition sample_motion :: agenda_item where
  "sample_motion = \<lparr>ai_number = 2, ai_title = ''Lease'', ai_body = VoteItem 7\<rparr>"

abbreviation hex_zeros :: string where
  "hex_zeros \<equiv> ''0000000000000000000000000000000000000000000000000000000000000''"

definition sample_meeting_id :: meeting_id where
  "sample_meeting_id = 697"

definition sample_vote_id :: tx_id where
  "sample_vote_id = 789"

definition sample_minutes :: meeting_final where
  "sample_minutes = \<lparr>mf_meeting_id = sample_meeting_id, mf_metadata = sample_metadata, mf_opened_at = 1, mf_items =
     [\<lparr>fi_item = sample_report, fi_vote_tx_id = None, fi_outcome = None\<rparr>,
      \<lparr>fi_item = sample_motion, fi_vote_tx_id = Some sample_vote_id, fi_outcome = Some ''accepted''\<rparr>]\<rparr>"

definition sample_convening_text :: string where
  "sample_convening_text = convened_text (CompanyId ''acme'') sample_notarisation sample_metadata (Agenda [sample_report, sample_motion])"

definition sample_minutes_text :: string where
  "sample_minutes_text = final_text (CompanyId ''acme'') sample_notarisation sample_minutes"

definition sample_meeting_events :: "(string \<times> string) list \<Rightarrow> (string \<times> string) list \<Rightarrow> (string \<times> string) list \<Rightarrow> xml_event list" where
  "sample_meeting_events envelope opened motion =
     [EvStart (tag ''irena-meeting'' (envelope)), EvEmpty (notarisation_tag sample_notarisation),
      EvStart (tag ''meeting'' ([(''channel'', ''members''), (''title'', ''AGM''), (''scheduled-at'', ''2024-03-29T09:30:00Z'')] @ opened)),
      EvStart (tag ''agenda'' []),
      EvEmpty (tag ''item'' [(''number'', ''1''), (''kind'', ''informational''), (''title'', ''Report''), (''document-digest'', hex_zeros @ ''005'')]),
      EvEmpty (tag ''item'' ([(''number'', ''2''), (''kind'', ''vote''), (''title'', ''Lease''), (''proposal-digest'', hex_zeros @ ''007'')] @ motion)),
      EvEnd ''agenda'', EvEnd ''meeting'', EvEnd ''irena-meeting'', EvEof]"

lemma sample_hexes:
  "to_hex 32 (5 :: hash) = hex_zeros @ ''005''" "to_hex 32 (7 :: hash) = hex_zeros @ ''007''"
  "to_hex 32 sample_meeting_id = hex_zeros @ ''2b9''" "to_hex 32 sample_vote_id = hex_zeros @ ''315''"
  by code_simp+

lemma sample_decimals: "decimal (Suc 0) = ''1''" "decimal 2 = ''2''"
  by code_simp+

lemma sample_notarised:
  "write_notarisation sample_notarisation = ''<notarisation id=\"n:1\" name=\"R &amp; Co\" at=\"2024-02-29T09:30:00Z\"/>''"
  by code_simp

lemma sample_escapes: "escape_attribute ''members'' = ''members''" "escape_attribute ''AGM'' = ''AGM''" "escape_attribute ''Report'' = ''Report''"
  "escape_attribute ''Lease'' = ''Lease''" "escape_attribute ''accepted'' = ''accepted''"
  by code_simp+

lemmas sample_text_defs = sample_hexes sample_decimals sample_notarised sample_escapes metadata_attributes_def sample_metadata_def
  agenda_text_def item_text_def sample_report_def sample_motion_def attr_text_def opt_text_def agenda_kind_def MEETING_VERSION_def Let_def

lemma sample_convening_literal: "sample_convening_text =
    ''<irena-meeting version=\"1.0\" kind=\"convened\" company=\"acme\">'' @ [CHR 0x0A] @
    ''  <notarisation id=\"n:1\" name=\"R &amp; Co\" at=\"2024-02-29T09:30:00Z\"/>'' @ [CHR 0x0A] @
    ''  <meeting channel=\"members\" title=\"AGM\" scheduled-at=\"2024-03-29T09:30:00Z\">'' @ [CHR 0x0A] @
    ''    <agenda>'' @ [CHR 0x0A] @
    ''      <item number=\"1\" kind=\"informational\" title=\"Report\" document-digest=\"'' @ hex_zeros @ ''005\"/>'' @ [CHR 0x0A] @
    ''      <item number=\"2\" kind=\"vote\" title=\"Lease\" proposal-digest=\"'' @ hex_zeros @ ''007\"/>'' @ [CHR 0x0A] @
    ''    </agenda>'' @ [CHR 0x0A] @ ''  </meeting>'' @ [CHR 0x0A] @ ''</irena-meeting>''"
  by (simp add: sample_convening_text_def convened_text_def plain_item_def sample_text_defs)

lemma sample_minutes_literal: "sample_minutes_text =
    ''<irena-meeting version=\"1.0\" kind=\"final\" company=\"acme\" meeting=\"'' @ hex_zeros @ ''2b9\">'' @ [CHR 0x0A] @
    ''  <notarisation id=\"n:1\" name=\"R &amp; Co\" at=\"2024-02-29T09:30:00Z\"/>'' @ [CHR 0x0A] @
    ''  <meeting channel=\"members\" title=\"AGM\" scheduled-at=\"2024-03-29T09:30:00Z\" opened-at-height=\"1\">'' @ [CHR 0x0A] @
    ''    <agenda>'' @ [CHR 0x0A] @
    ''      <item number=\"1\" kind=\"informational\" title=\"Report\" document-digest=\"'' @ hex_zeros @ ''005\"/>'' @ [CHR 0x0A] @
    ''      <item number=\"2\" kind=\"vote\" title=\"Lease\" proposal-digest=\"'' @ hex_zeros @ ''007\" vote-tx=\"'' @ hex_zeros @
    ''315\" outcome=\"accepted\"/>'' @ [CHR 0x0A] @
    ''    </agenda>'' @ [CHR 0x0A] @ ''  </meeting>'' @ [CHR 0x0A] @ ''</irena-meeting>''"
  by (simp add: sample_minutes_text_def final_text_def sample_minutes_def sample_text_defs)

lemma sample_texts_string: "is_string sample_convening_text" "is_string sample_minutes_text"
  unfolding sample_convening_literal sample_minutes_literal by code_simp+

lemma sample_text_lengths: "length sample_convening_text = 544" "length sample_minutes_text = 731"
  unfolding sample_convening_literal sample_minutes_literal by simp_all

definition sample_meeting_tok :: "string \<Rightarrow> xml_reader" where
  "sample_meeting_tok xml =
     (if take 36 xml = ''<irena-meeting version=\"1.0\" kind=\"c''
      then reader_of (sample_meeting_events [(''version'', ''1.0''), (''kind'', ''convened''), (''company'', ''acme'')] [] [])
      else if take 36 xml = ''<irena-meeting version=\"1.0\" kind=\"f''
      then reader_of (sample_meeting_events
        [(''version'', ''1.0''), (''kind'', ''final''), (''company'', ''acme''), (''meeting'', hex_zeros @ ''2b9'')]
        [(''opened-at-height'', ''1'')] [(''vote-tx'', hex_zeros @ ''315''), (''outcome'', ''accepted'')])
      else sample_company_tok xml)"

lemma sample_meeting_tok_texts:
  "sample_meeting_tok sample_convening_text =
     reader_of (sample_meeting_events [(''version'', ''1.0''), (''kind'', ''convened''), (''company'', ''acme'')] [] [])"
  "sample_meeting_tok sample_minutes_text = reader_of (sample_meeting_events
     [(''version'', ''1.0''), (''kind'', ''final''), (''company'', ''acme''), (''meeting'', hex_zeros @ ''2b9'')]
     [(''opened-at-height'', ''1'')] [(''vote-tx'', hex_zeros @ ''315''), (''outcome'', ''accepted'')])"
  by (simp_all add: sample_meeting_tok_def sample_convening_literal sample_minutes_literal)

lemma sample_convening_events:
  "fst (meeting_parser sample_hexd (reader_of (sample_meeting_events [(''version'', ''1.0''), (''kind'', ''convened''), (''company'', ''acme'')] [] [])))
     = Ok \<lparr>mr_company = CompanyId ''acme'', mr_notarisation = sample_notarisation, mr_body = Convened sample_metadata (Agenda [sample_report, sample_motion])\<rparr>"
  by code_simp

lemma sample_minutes_events:
  "fst (meeting_parser sample_hexd (reader_of (sample_meeting_events
     [(''version'', ''1.0''), (''kind'', ''final''), (''company'', ''acme''), (''meeting'', hex_zeros @ ''2b9'')]
     [(''opened-at-height'', ''1'')] [(''vote-tx'', hex_zeros @ ''315''), (''outcome'', ''accepted'')])))
     = Ok \<lparr>mr_company = CompanyId ''acme'', mr_notarisation = sample_notarisation, mr_body = Concluded sample_minutes\<rparr>"
  by code_simp

lemma sample_metadata_valid: "metadata_validate sample_metadata = Ok ()" "notarisation_validate sample_notarisation = Ok ()"
  "agenda_new [sample_report, sample_motion] = Ok (Agenda [sample_report, sample_motion])"
  by code_simp+

lemma sample_meeting_read:
  "read_meeting_record sample_meeting_tok sample_hexd sample_convening_text =
    Ok \<lparr>mr_company = CompanyId ''acme'', mr_notarisation = sample_notarisation, mr_body = Convened sample_metadata (Agenda [sample_report, sample_motion])\<rparr>"
  "read_meeting_record sample_meeting_tok sample_hexd sample_minutes_text =
    Ok \<lparr>mr_company = CompanyId ''acme'', mr_notarisation = sample_notarisation, mr_body = Concluded sample_minutes\<rparr>"
proof -
  have "irena_size sample_convening_text MEETING_MAX_BYTES = Ok ()" "irena_size sample_minutes_text MEETING_MAX_BYTES = Ok ()"
    by (simp_all add: irena_size_def sample_text_lengths MEETING_MAX_BYTES_def)
  then show
    "read_meeting_record sample_meeting_tok sample_hexd sample_convening_text =
      Ok \<lparr>mr_company = CompanyId ''acme'', mr_notarisation = sample_notarisation, mr_body = Convened sample_metadata (Agenda [sample_report, sample_motion])\<rparr>"
    "read_meeting_record sample_meeting_tok sample_hexd sample_minutes_text =
      Ok \<lparr>mr_company = CompanyId ''acme'', mr_notarisation = sample_notarisation, mr_body = Concluded sample_minutes\<rparr>"
    by (simp_all only: read_meeting_record_def sample_meeting_tok_texts sample_convening_events sample_minutes_events rmap_err.simps rbind.simps)
qed

lemma sample_meeting_composed:
  "compose_convened sample_meeting_tok sample_hexd (CompanyId ''acme'') sample_notarisation sample_metadata (Agenda [sample_report, sample_motion])
     = Ok sample_convening_text"
  "compose_final sample_meeting_tok sample_hexd (CompanyId ''acme'') sample_notarisation sample_minutes = Ok sample_minutes_text"
proof -
  have "final_agenda sample_minutes = Ok (Agenda [sample_report, sample_motion])" "mf_metadata sample_minutes = sample_metadata"
    using sample_metadata_valid(3) by (simp_all add: final_agenda_def sample_minutes_def)
  then show "compose_convened sample_meeting_tok sample_hexd (CompanyId ''acme'') sample_notarisation sample_metadata (Agenda [sample_report, sample_motion])
     = Ok sample_convening_text"
    "compose_final sample_meeting_tok sample_hexd (CompanyId ''acme'') sample_notarisation sample_minutes = Ok sample_minutes_text"
    by (simp_all add: sample_meeting_read compose_convened_def compose_final_def reading_back_def sample_metadata_valid
        sample_convening_text_def [symmetric] sample_minutes_text_def [symmetric])
qed

text \<open>The theorem about the readers, on the minutes: the motion names its vote, the report does not.\<close>

theorem meeting_records_total_witness:
  "read_meeting_record sample_meeting_tok sample_hexd sample_minutes_text =
     Ok \<lparr>mr_company = CompanyId ''acme'', mr_notarisation = sample_notarisation, mr_body = Concluded sample_minutes\<rparr> \<and>
   metadata_validate (mf_metadata sample_minutes) = Ok () \<and>
   is_vote (ai_body (fi_item (mf_items sample_minutes ! 1))) = (fi_vote_tx_id (mf_items sample_minutes ! 1) \<noteq> None) \<and>
   (fi_vote_tx_id (mf_items sample_minutes ! 0) = None) = (fi_outcome (mf_items sample_minutes ! 0) = None)"
proof -
  have "mf_items sample_minutes ! 0 \<in> set (mf_items sample_minutes)" "mf_items sample_minutes ! 1 \<in> set (mf_items sample_minutes)"
    by (simp_all add: sample_minutes_def)
  moreover have "metadata_validate (mf_metadata sample_minutes) = Ok () \<and>
      (\<forall>i \<in> set (mf_items sample_minutes). is_vote (ai_body (fi_item i)) = (fi_vote_tx_id i \<noteq> None) \<and>
         (fi_vote_tx_id i = None) = (fi_outcome i = None))"
    using conjunct1 [OF meeting_records_total [of sample_meeting_tok sample_hexd sample_minutes_text]]
    unfolding sample_meeting_read(2) result.case meeting_record.simps meeting_body.case .
  ultimately show ?thesis using sample_meeting_read(2) by blast
qed

lemma sample_meeting_founding:
  "read_record sample_meeting_tok sample_hexd sample_founding = Ok \<lparr>rc_company = CompanyId ''acme'', rc_supersedes = None,
     rc_notarisation = sample_notarisation, rc_body = BodyGenesis sample_company\<rparr>"
proof -
  have "take 36 sample_founding = ''<irena-record version=\"1.0\" kind=\"co''" by code_simp
  then have "sample_meeting_tok sample_founding = sample_company_tok sample_founding" by (simp add: sample_meeting_tok_def)
  then show ?thesis using sample_founding_read by (simp add: read_record_def read_record_with_limit_def)
qed

text \<open>A record sealed by ann on the sample chain: the next block, under the id its length gives, the company unchanged.\<close>

lemma sample_sealed:
  assumes rep: "represents sample_ledger_crypto bs st" and now: "company_now tok hexd dec_block st = Ok s"
    and ns: "wf_label ns" "\<not> company_namespace ns" and payload: "fits_u32 payload"
    and room: "length (chain_ids bs) + 1 < 2 ^ 64" "length bs < 2 ^ 64" and ms: "h_timestamp_millis (b_header (last bs)) \<le> ms"
    and len: "137 + length ns + length payload = len" and fresh: "word_of_nat len \<notin> set (chain_ids bs)"
  obtains st' b where "seal sample_ledger_crypto dec_block True st 5 ns schema payload ms =
      (st', Ok (word_of_nat len, word_of_nat (length bs)))"
    "represents sample_ledger_crypto (bs @ [b]) st'" "store_steps sample_ledger_crypto dec_block st st'" "h_timestamp_millis (b_header b) = ms"
    "chain_ids (bs @ [b]) = chain_ids bs @ [word_of_nat len]"
    "reconstruct tok hexd dec_block st' (word_of_nat (length bs)) = Ok (s\<lparr>co_at := word_of_nat (length bs)\<rparr>)"
    "company_now tok hexd dec_block st' = Ok (s\<lparr>co_at := word_of_nat (length bs)\<rparr>)"
proof -
  obtain st' i h where seal: "seal sample_ledger_crypto dec_block True st 5 ns schema payload ms = (st', Ok (i, h))"
    using seal_accepts [OF reads_back_block rep room(1) ns(1) payload sample_ledger_signatures room(2) ms, of 5 schema] fresh
    unfolding sample_ledger_id len by blast
  note steps = seal_steps [OF reads_back_block rep ns(1) payload seal]
  show thesis
  proof (rule seal_cases [OF reads_back_block rep room(1) ns(1) payload, of True 5 schema ms])
    fix st1 h1
    let ?b = "sealed_block sample_ledger_crypto (last bs) (sealed_tx sample_ledger_crypto 5 ns schema payload h1) ms h1"
    assume s: "seal sample_ledger_crypto dec_block True st 5 ns schema payload ms =
        (st1, Ok (t_id (sealed_tx sample_ledger_crypto 5 ns schema payload h1), h1))"
      and h1: "unat h1 = length bs" and rep': "represents sample_ledger_crypto (bs @ [?b]) st1"
    have eq: "st1 = st'" "i = word_of_nat len" "h1 = h" using s seal by (auto simp: sample_ledger_id simp flip: len)
    have h: "h = word_of_nat (length bs)" unfolding h1 [symmetric] eq(3) by simp
    have "reconstruct tok hexd dec_block st' h = Ok (s\<lparr>co_at := h\<rparr>)"
      by (rule sealed_record [where tok = tok and hexd = hexd, OF reads_back_block rep room(1) ns payload seal store_steps.no_step]) (use now in blast)
    moreover from this have "company_now tok hexd dec_block st' = Ok (s\<lparr>co_at := h\<rparr>)"
      using company_now_sealed [OF reads_back_block rep'] by (simp add: eq)
    moreover have "h_timestamp_millis (b_header ?b) = ms" by (simp add: sealed_block_def)
    ultimately show thesis
      using that [of st' ?b] seal rep' steps by (simp add: eq h sample_ledger_id flip: len)
  qed (use seal in simp)
qed

text \<open>What the members are asked at height 1, and what ann answers.\<close>

abbreviation agm_state :: "block_height \<Rightarrow> company_state" where
  "agm_state at \<equiv> sample_genesis_state\<lparr>co_at := at\<rparr>"

definition agm_electors :: vote_snapshot where
  "agm_electors = sample_electors\<lparr>vs_subject := ''item 2: Lease'', vs_height := 1\<rparr>"

definition agm_ballot :: signed_ballot where
  "agm_ballot = ballot_sign sample_ledger_crypto 5 (vote_snapshot_id sample_ledger_crypto agm_electors) (VoterId ''ann'') BallotYes"

abbreviation agm_record :: vote_record where
  "agm_record \<equiv> vote_record_assemble sample_ledger_crypto agm_electors [agm_ballot] sample_summary"

lemma agm_together: "decides_together (agm_state at) (ChannelId ''members'') sample_members_rules sample_members"
  using sample_together by (simp add: decides_together_def)

lemma agm_electors: "vote_snapshot_of (agm_state 1) 1 (ChannelId ''members'') sample_members ''item 2: Lease'' 7 = agm_electors"
  unfolding agm_electors_def sample_electors [symmetric] by (simp add: vote_snapshot_of_def)

lemma agm_electors_parts:
  "vs_company agm_electors = ''acme''" "vs_channel agm_electors = ''members''" "vs_height agm_electors = 1"
  "vs_channels_tx_id agm_electors = sample_founding_id" "vs_electorate agm_electors = vs_electorate sample_electors"
  "vs_subject agm_electors = ''item 2: Lease''" "vs_proposal_digest agm_electors = 7"
  by (simp_all add: agm_electors_def sample_electors_def)

lemma agm_ballot_parts: "sb_voter agm_ballot = ''ann''" "bb_choice (sb_body agm_ballot) = BallotYes"
  by (simp_all add: agm_ballot_def ballot_sign_def Let_def)

lemma agm_ballot_check: "ballot_check sample_ledger_crypto agm_ballot agm_electors = Ok (VoterId ''ann'')"
proof -
  have "snapshot_entry sample_electors (VoterId ''ann'') = Some \<lparr>ee_id = ''ann'', ee_weight = 100, ee_excluded = False, ee_key = Some 16\<rparr>"
    "wf_voter_id (VoterId ''ann'')" by code_simp+
  then show ?thesis
    by (simp add: ballot_check_Ok_iff agm_ballot_def ballot_sign_def Let_def verify_signature_def sample_ledger_crypto_def
        snapshot_entry_def agm_electors_parts)
qed

lemma agm_counted: "vote_count sample_members_rules agm_electors [agm_ballot] = Ok sample_evaluation"
proof -
  have "snapshot_electorate sample_electors = Ok (electorate_of sample_members)" by code_simp
  then have "snapshot_electorate agm_electors = Ok (electorate_of sample_members)" by (simp add: snapshot_electorate_def agm_electors_parts)
  moreover have "wf_voter_id (VoterId ''ann'')" by code_simp
  then have "bornite_ballots [agm_ballot] = Ok (BallotSet [\<lparr>b_voter = VoterId ''ann'', b_choice = Yes\<rparr>])"
    using bornite_ballots_Ok(1) [of "[agm_ballot]"] by (simp add: ballots_of_def agm_ballot_parts to_bornite_def)
  ultimately show ?thesis by (simp add: vote_count_def sample_evaluated)
qed

lemma agm_record_length: "length (enc_vote_record agm_record) = 639"
  by (simp add: vote_record_assemble_def enc_vote_record_def enc_vote_snapshot_def agm_electors_def sample_electors_def enc_string_def enc_bytes_def
      enc_u16_def enc_u32_def enc_u64_def str_bytes_def enc_vec_def enc_electorate_entry_def enc_bool_def enc_option_def
      enc_signed_ballot_def enc_ballot_body_def enc_ballot_choice_def agm_ballot_def ballot_sign_def Let_def enc_summary_def
      sample_summary_def)

lemma agm_record_wf: "wf_vote_record agm_record" "fits_u32 (enc_vote_record agm_record)"
proof -
  have "wf_vote_snapshot agm_electors" "is_string (sm_reason sample_summary)" "is_string ''ann''"
    unfolding wf_vote_snapshot_def fits_u32_def by code_simp+
  then show "wf_vote_record agm_record"
    by (simp add: wf_vote_record_def vote_record_assemble_def fits_u32_def agm_ballot_def ballot_sign_def Let_def)
  show "fits_u32 (enc_vote_record agm_record)" by (simp add: fits_u32_def agm_record_length)
qed

text \<open>The meeting in each of its states.\<close>

definition agm_drafted :: meeting where
  "agm_drafted = (meeting_draft sample_metadata)\<lparr>mt_items := [sample_report, sample_motion]\<rparr>"

definition agm_convened :: meeting where
  "agm_convened = agm_drafted\<lparr>mt_company := ''acme'', mt_convened := Some (sample_meeting_id, 1), mt_status := MeetingConvened\<rparr>"

definition agm_vote :: vote where
  "agm_vote = (vote_draft ''item 2: Lease'' 7)\<lparr>vt_company := ''acme'', vt_snapshot := Some agm_electors, vt_status := VoteOpen\<rparr>"

definition agm_opened :: meeting where
  "agm_opened = agm_convened\<lparr>mt_votes := [(2, agm_vote)], mt_opened_at := Some 1, mt_status := MeetingOpen\<rparr>"

definition agm_counted_vote :: vote where
  "agm_counted_vote = agm_vote\<lparr>vt_ballots := [(''ann'', agm_ballot)], vt_evaluation := Some sample_summary, vt_status := VoteEvaluated\<rparr>"

definition agm_closed :: meeting where
  "agm_closed = agm_opened\<lparr>mt_votes := [(2, agm_counted_vote)], mt_status := MeetingClosed\<rparr>"

definition agm_written_vote :: vote where
  "agm_written_vote = agm_counted_vote\<lparr>vt_finalized := Some (sample_vote_id, 2), vt_status := VoteFinalized\<rparr>"

lemma agm_drafted_reached: "meeting_reaches tok hexd cr de agm_drafted"
proof -
  let ?m = "(meeting_draft sample_metadata)\<lparr>mt_items := [sample_report]\<rparr>"
  have "\<not> trims_to_empty ''Report''" "\<not> trims_to_empty ''Lease''" by code_simp+
  then have "meeting_add_item ''Report'' (Informational 5) (meeting_draft sample_metadata) = Ok ?m"
    "meeting_add_item ''Lease'' (VoteItem 7) ?m = Ok agm_drafted"
    by (simp_all add: meeting_add_item_Ok_iff meeting_draft_def agm_drafted_def sample_report_def sample_motion_def)
  then show ?thesis using meeting_reaches.added meeting_reaches.drafted by metis
qed

lemma agm_convening:
  assumes "company_now sample_meeting_tok sample_hexd dec_block st = Ok (agm_state 0)"
  shows "convening_ready sample_meeting_tok sample_hexd sample_ledger_crypto dec_block st 5 sample_notarisation agm_drafted
    = Ok (CompanyId ''acme'', sample_convening_text)"
proof -
  obtain p where "authorised_signer sample_state Governance (ed_public sample_ledger_crypto 5) = Ok p" by (rule sample_governance)
  moreover have "wf_agenda [sample_report, sample_motion]" using sample_metadata_valid(3) by (simp add: agenda_new_Ok_iff)
  ultimately show ?thesis
    unfolding convening_ready_Ok_iff
    using assms sample_meeting_composed(1) by (simp add: agm_drafted_def meeting_draft_def sample_genesis_state)
qed

lemma agm_opening:
  assumes rep: "represents sample_ledger_crypto bs st" and head: "head_height (head_of sample_ledger_crypto bs) = 1"
    and state: "reconstruct sample_meeting_tok sample_hexd dec_block st 1 = Ok (agm_state 1)"
  shows "meeting_open sample_meeting_tok sample_hexd dec_block st agm_convened = Ok agm_opened"
proof -
  let ?v1 = "agm_vote\<lparr>vt_status := VoteFrozen\<rparr>"
  have subject: "item_subject sample_motion = ''item 2: Lease''" by (simp add: item_subject_def sample_motion_def sample_decimals)
  have motion: "ai_body sample_motion = VoteItem 7" "ai_number sample_motion = 2" by (simp_all add: sample_motion_def)
  have "company_id_str (co_company sample_genesis_state) = ''acme''" by (simp add: sample_genesis_state)
  then have freeze: "vote_freeze sample_meeting_tok sample_hexd dec_block st 1 (ChannelId ''members'') (vote_draft ''item 2: Lease'' 7) = Ok ?v1"
    unfolding vote_freeze_Ok_iff [OF reads_back_block rep]
    using state agm_together [of 1] agm_electors by (simp add: vote_draft_def agm_vote_def) metis
  have "vote_open ?v1 = Ok agm_vote" by (simp add: vote_open_Ok_iff agm_vote_def)
  with freeze have "open_item sample_meeting_tok sample_hexd dec_block st 1 (ChannelId ''members'') sample_motion = Ok (2, agm_vote)"
    by (simp add: open_item_def subject motion)
  moreover have "filter (\<lambda>i. is_vote (ai_body i)) (mt_items agm_convened) = [sample_motion]"
    by (simp add: agm_convened_def agm_drafted_def sample_report_def sample_motion_def is_vote_def)
  moreover have "wf_label ''members''" using sample_record_wf(3) by simp
  ultimately show ?thesis
    unfolding meeting_open_Ok_iff
    by (simp add: head_block_represents(1) [OF reads_back_block rep] head agm_opened_def)
      (simp add: agm_convened_def agm_drafted_def meeting_draft_def sample_metadata_def)
qed

lemma agm_evaluated:
  assumes rep: "represents sample_ledger_crypto bs st" and state: "reconstruct sample_meeting_tok sample_hexd dec_block st 1 = Ok (agm_state 1)"
    and v: "vt_snapshot v = Some agm_electors" "vt_ballots v = [(''ann'', agm_ballot)]"
  shows "vote_evaluate_now sample_meeting_tok sample_hexd dec_block st v = Ok sample_evaluation"
proof -
  have "company_id_str (co_company sample_genesis_state) = ''acme''" "wf_label ''members''"
    using sample_record_wf(3) by (simp_all add: sample_genesis_state)
  then show ?thesis
    unfolding vote_evaluate_now_Ok_iff [OF reads_back_block rep]
    using v state agm_together [of 1] agm_counted
    by (intro exI [of _ agm_electors] exI [of _ "agm_state 1"]) (auto simp: agm_electors_parts sample_state_parts)
qed

lemma agm_closing:
  assumes rep: "represents sample_ledger_crypto bs st" and state: "reconstruct sample_meeting_tok sample_hexd dec_block st 1 = Ok (agm_state 1)"
  shows "meeting_close sample_meeting_tok sample_hexd dec_block st (foldl (meeting_receive sample_ledger_crypto) agm_opened [(2, agm_ballot)])
    = (agm_closed, Ok ())"
proof -
  let ?v = "agm_vote\<lparr>vt_ballots := [(''ann'', agm_ballot)]\<rparr>" and ?v3 = "agm_vote\<lparr>vt_ballots := [(''ann'', agm_ballot)], vt_status := VoteClosed\<rparr>"
  have "vote_cast sample_ledger_crypto agm_vote agm_ballot = Ok ?v"
    by (simp add: vote_cast_Ok_iff agm_vote_def agm_ballot_check agm_ballot_parts vote_draft_def)
  then have "meeting_cast sample_ledger_crypto 2 agm_ballot agm_opened = Ok (agm_opened\<lparr>mt_votes := [(2, ?v)]\<rparr>)"
    by (simp add: meeting_cast_Ok_iff agm_opened_def) (simp add: agm_convened_def agm_drafted_def sample_motion_def)
  then have cast: "foldl (meeting_receive sample_ledger_crypto) agm_opened [(2, agm_ballot)] = agm_opened\<lparr>mt_votes := [(2, ?v)]\<rparr>"
    by (simp add: meeting_receive_def)
  have "vote_close ?v = Ok ?v3" by (simp add: vote_close_Ok_iff agm_vote_def)
  moreover have "vote_evaluate sample_meeting_tok sample_hexd dec_block st ?v3 = Ok (agm_counted_vote, sample_evaluation)"
    using agm_evaluated [OF rep state, of ?v3] sample_summarised
    by (simp add: vote_evaluate_Ok_iff agm_vote_def agm_counted_vote_def)
  ultimately show ?thesis unfolding cast by (simp add: meeting_close_def meeting_expect_def agm_opened_def agm_closed_def)
qed

lemma agm_written:
  assumes rep: "represents sample_ledger_crypto bs st" and state: "reconstruct sample_meeting_tok sample_hexd dec_block st 1 = Ok (agm_state 1)"
    and now: "company_now sample_meeting_tok sample_hexd dec_block st = Ok (agm_state x)"
    and seal: "seal sample_ledger_crypto dec_block True st 5 VOTE_NAMESPACE VOTE_SCHEMA_VERSION (enc_vote_record agm_record) ms
      = (st', Ok (sample_vote_id, 2))"
  shows "vote_finalize sample_meeting_tok sample_hexd sample_ledger_crypto dec_block True st 5 ms agm_counted_vote
    = (st', Ok (agm_written_vote, \<lparr>fv_tx_id = sample_vote_id, fv_height = 2, fv_record = agm_record\<rparr>))"
proof -
  obtain p where "authorised_signer sample_state Governance (ed_public sample_ledger_crypto 5) = Ok p" by (rule sample_governance)
  moreover have "vote_evaluate_now sample_meeting_tok sample_hexd dec_block st agm_counted_vote = Ok sample_evaluation"
    by (rule agm_evaluated [OF rep state]) (simp_all add: agm_counted_vote_def agm_vote_def)
  ultimately have "vote_ready sample_meeting_tok sample_hexd sample_ledger_crypto dec_block st 5 agm_counted_vote = Ok agm_record"
    unfolding vote_ready_Ok_iff vote_final_record_Ok_iff
    using now sample_summarised by (auto simp: agm_counted_vote_def agm_vote_def)
  then show ?thesis unfolding vote_finalize_Ok_iff using seal by (simp add: agm_written_vote_def)
qed

lemma agm_concluding:
  "conclude_ready sample_meeting_tok sample_hexd sample_notarisation (agm_closed\<lparr>mt_votes := [(2, agm_written_vote)]\<rparr>)
    = Ok (sample_minutes, sample_minutes_text)"
proof -
  let ?m = "agm_closed\<lparr>mt_votes := [(2, agm_written_vote)]\<rparr>"
  have "wf_label ''acme''" using sample_record_wf(2) by (simp add: sample_electors_def)
  moreover have "meeting_vote ?m 1 = None" "meeting_vote ?m 2 = Some agm_written_vote" by (simp_all add: meeting_vote_def)
  then have "map (final_item_of ?m) [sample_report, sample_motion] = mf_items sample_minutes"
    by (simp add: final_item_of_def sample_report_def sample_motion_def Let_def sample_minutes_def agm_written_vote_def
        agm_counted_vote_def outcome_text_def summary_accepted_def sample_summary_def)
  then have "meeting_final_record ?m = Ok sample_minutes"
    unfolding meeting_final_record_Ok_iff
    by (simp add: agm_closed_def agm_opened_def agm_convened_def agm_drafted_def meeting_draft_def) (simp add: sample_minutes_def)
  ultimately show ?thesis
    unfolding conclude_ready_Ok_iff using sample_meeting_composed(2)
    by (simp add: agm_closed_def agm_opened_def agm_convened_def)
qed

text \<open>The general meeting, from its convening to its minutes, on the chain the company is founded on.\<close>

lemma agm_run:
  obtains st0 b st1 st2 st3 bs m4 f where "reachable sample_ledger_crypto dec_block st0" "represents sample_ledger_crypto [b] st0"
    "length (chain_ids [b]) + 1 < 2 ^ 64" "store_steps sample_ledger_crypto dec_block st0 st1"
    "meeting_convene sample_meeting_tok sample_hexd sample_ledger_crypto dec_block True st0 5 sample_notarisation 10 agm_drafted
      = (st1, Ok (agm_convened, sample_meeting_id))"
    "meeting_open sample_meeting_tok sample_hexd dec_block st1 agm_convened = Ok agm_opened"
    "meeting_close sample_meeting_tok sample_hexd dec_block st1 (foldl (meeting_receive sample_ledger_crypto) agm_opened [(2, agm_ballot)])
      = (agm_closed, Ok ())"
    "represents sample_ledger_crypto bs st1" "length (chain_ids bs) + length (mt_votes agm_closed) + 1 < 2 ^ 64"
    "meeting_finalize sample_meeting_tok sample_hexd sample_ledger_crypto dec_block (\<lambda>_. True) st1 5 sample_notarisation 10 agm_closed
      = (st3, m4, Ok f)" "mt_votes m4 = [(2, agm_written_vote)]" "fm_record f = sample_minutes" "fm_height f = 3"
proof -
  obtain st0 b where st0: "reachable sample_ledger_crypto dec_block st0" "represents sample_ledger_crypto [b] st0"
    "b_transactions b = [sample_founding_tx]" "h_timestamp_millis (b_header b) = 0"
    "company_now sample_meeting_tok sample_hexd dec_block st0 = Ok (agm_state 0)"
    by (rule sample_company_chain_read [OF sample_meeting_founding])
  have ids: "chain_ids [b] = [347]" by (simp add: st0(3) sample_founding_tx_id sample_founding_id_def)
  have fits: "fits_u32 (str_bytes sample_convening_text)" "fits_u32 (str_bytes sample_minutes_text)"
    by (simp_all add: fits_u32_def sample_text_lengths str_bytes_def)
  have lengths: "137 + length MEETING_NAMESPACE + length (str_bytes sample_convening_text) = 697"
    "137 + length VOTE_NAMESPACE + length (enc_vote_record agm_record) = 789"
    "137 + length MEETING_NAMESPACE + length (str_bytes sample_minutes_text) = 884"
    by (simp_all add: sample_text_lengths str_bytes_def agm_record_length MEETING_NAMESPACE_def VOTE_NAMESPACE_def)
  obtain st1 b1 where st1: "seal sample_ledger_crypto dec_block True st0 5 MEETING_NAMESPACE MEETING_SCHEMA_VERSION (str_bytes sample_convening_text) 10
      = (st1, Ok (697, 1))" "represents sample_ledger_crypto [b, b1] st1" "store_steps sample_ledger_crypto dec_block st0 st1"
    "h_timestamp_millis (b_header b1) = 10" "chain_ids [b, b1] = [347, 697]"
    "reconstruct sample_meeting_tok sample_hexd dec_block st1 1 = Ok (agm_state 1)"
    "company_now sample_meeting_tok sample_hexd dec_block st1 = Ok (agm_state 1)"
    by (rule sample_sealed [OF st0(2,5) meeting_namespace fits(1) _ _ _ lengths(1), of 10 MEETING_SCHEMA_VERSION])
      (use ids st0(4) in \<open>simp_all\<close>)
  obtain st2 b2 where st2: "seal sample_ledger_crypto dec_block True st1 5 VOTE_NAMESPACE VOTE_SCHEMA_VERSION (enc_vote_record agm_record) 10
      = (st2, Ok (789, 2))" "represents sample_ledger_crypto [b, b1, b2] st2" "h_timestamp_millis (b_header b2) = 10"
    "chain_ids [b, b1, b2] = [347, 697, 789]" "company_now sample_meeting_tok sample_hexd dec_block st2 = Ok (agm_state 2)"
    by (rule sample_sealed [OF st1(2,7) vote_namespace agm_record_wf(2) _ _ _ lengths(2), of 10 VOTE_SCHEMA_VERSION])
      (use st1(4,5) in \<open>simp_all\<close>)
  obtain st3 b3 where st3: "seal sample_ledger_crypto dec_block True st2 5 MEETING_NAMESPACE MEETING_SCHEMA_VERSION (str_bytes sample_minutes_text) 10
      = (st3, Ok (884, 3))"
    by (rule sample_sealed [OF st2(2,5) meeting_namespace fits(2) _ _ _ lengths(3), of 10 MEETING_SCHEMA_VERSION])
      (use st2(3,4) in \<open>simp_all\<close>)
  have convene: "meeting_convene sample_meeting_tok sample_hexd sample_ledger_crypto dec_block True st0 5 sample_notarisation 10 agm_drafted
      = (st1, Ok (agm_convened, sample_meeting_id))"
    unfolding meeting_convene_Ok_iff agm_convening [OF st0(5)] using st1(1)
    by (simp add: agm_convened_def sample_meeting_id_def)
  have "unat (head_height (head_of sample_ledger_crypto [b, b1])) = 1" by (simp only: head_height_represents [OF st1(2)]) simp
  then have head: "head_height (head_of sample_ledger_crypto [b, b1]) = 1" by (intro word_unat_eq_iff [THEN iffD2]) simp
  note written = agm_written [OF st1(2,6,7) st2(1) [folded sample_vote_id_def]]
  obtain p where p: "authorised_signer sample_state Governance (ed_public sample_ledger_crypto 5) = Ok p" by (rule sample_governance)
  then have ready: "finalizing_ready sample_meeting_tok sample_hexd sample_ledger_crypto dec_block st1 5 agm_closed = Ok ()"
    by (simp add: finalizing_ready_def meeting_expect_def st1(7) agm_closed_def)
  have votes: "mt_votes agm_closed = [(2, agm_counted_vote)]" by (simp add: agm_closed_def)
  have "vt_finalized agm_counted_vote = None" by (simp add: agm_counted_vote_def agm_vote_def vote_draft_def)
  then have fin: "meeting_finalize sample_meeting_tok sample_hexd sample_ledger_crypto dec_block (\<lambda>_. True) st1 5 sample_notarisation 10 agm_closed
      = (st3, agm_closed\<lparr>mt_votes := [(2, agm_written_vote)], mt_finalized := Some (884, 3), mt_status := MeetingFinalized\<rparr>,
         Ok \<lparr>fm_tx_id = 884, fm_height = 3, fm_record = sample_minutes\<rparr>)"
    by (simp add: meeting_finalize_def ready votes written agm_concluding meeting_append_def st3)
  have room1: "length (chain_ids [b]) + 1 < 2 ^ 64" unfolding ids by simp
  have room2: "length (chain_ids [b, b1]) + length (mt_votes agm_closed) + 1 < 2 ^ 64" unfolding st1(5) votes by simp
  show thesis
    by (rule that [OF st0(1,2) room1 st1(3) convene agm_opening [OF st1(2) head st1(6)] agm_closing [OF st1(2,6)] st1(2) room2 fin])
      simp_all
qed

lemma agm_reached:
  obtains st1 where "reachable sample_ledger_crypto dec_block st1"
    "meeting_reaches sample_meeting_tok sample_hexd sample_ledger_crypto dec_block agm_closed"
proof -
  obtain st0 st1 where run: "reachable sample_ledger_crypto dec_block st0" "store_steps sample_ledger_crypto dec_block st0 st1"
    "meeting_convene sample_meeting_tok sample_hexd sample_ledger_crypto dec_block True st0 5 sample_notarisation 10 agm_drafted
      = (st1, Ok (agm_convened, sample_meeting_id))"
    "meeting_open sample_meeting_tok sample_hexd dec_block st1 agm_convened = Ok agm_opened"
    "meeting_close sample_meeting_tok sample_hexd dec_block st1 (foldl (meeting_receive sample_ledger_crypto) agm_opened [(2, agm_ballot)])
      = (agm_closed, Ok ())"
    by (rule agm_run)
  have st1: "reachable sample_ledger_crypto dec_block st1" by (rule reachable_steps [OF run(1,2)])
  have "meeting_reaches sample_meeting_tok sample_hexd sample_ledger_crypto dec_block agm_opened"
    by (rule meeting_reaches.opened [OF meeting_reaches.convened [OF agm_drafted_reached run(1,3)] st1 run(4)])
  then show thesis
    by (intro that [OF st1] meeting_reaches.closed [OF meeting_receive_reaches st1 run(5)])
qed

theorem meeting_machine_witness:
  "\<exists>st bs st' m f. reachable sample_ledger_crypto dec_block st \<and> represents sample_ledger_crypto bs st \<and>
     mt_status agm_closed = MeetingClosed \<and> meeting_inv sample_ledger_crypto agm_closed \<and>
     meeting_finalize sample_meeting_tok sample_hexd sample_ledger_crypto dec_block (\<lambda>_. True) st 5 sample_notarisation 10 agm_closed
       = (st', m, Ok f) \<and> writes_more sample_ledger_crypto dec_block bs st' 2"
proof -
  obtain st0 st bs st' m f where run: "reachable sample_ledger_crypto dec_block st0" "store_steps sample_ledger_crypto dec_block st0 st"
    "meeting_convene sample_meeting_tok sample_hexd sample_ledger_crypto dec_block True st0 5 sample_notarisation 10 agm_drafted
      = (st, Ok (agm_convened, sample_meeting_id))"
    "meeting_open sample_meeting_tok sample_hexd dec_block st agm_convened = Ok agm_opened"
    "meeting_close sample_meeting_tok sample_hexd dec_block st (foldl (meeting_receive sample_ledger_crypto) agm_opened [(2, agm_ballot)])
      = (agm_closed, Ok ())"
    "represents sample_ledger_crypto bs st" "length (chain_ids bs) + length (mt_votes agm_closed) + 1 < 2 ^ 64"
    "meeting_finalize sample_meeting_tok sample_hexd sample_ledger_crypto dec_block (\<lambda>_. True) st 5 sample_notarisation 10 agm_closed
      = (st', m, Ok f)" "mt_votes m = [(2, agm_written_vote)]"
    by (rule agm_run)
  have st: "reachable sample_ledger_crypto dec_block st" by (rule reachable_steps [OF run(1,2)])
  have "meeting_reaches sample_meeting_tok sample_hexd sample_ledger_crypto dec_block agm_opened"
    by (rule meeting_reaches.opened [OF meeting_reaches.convened [OF agm_drafted_reached run(1,3)] st run(4)])
  then have reached: "meeting_reaches sample_meeting_tok sample_hexd sample_ledger_crypto dec_block agm_closed"
    by (intro meeting_reaches.closed [OF meeting_receive_reaches st run(5)])
  have votes: "mt_votes agm_closed = [(2, agm_counted_vote)]" by (simp add: agm_closed_def)
  have closed: "mt_status agm_closed = MeetingClosed" by (simp add: agm_closed_def)
  have open_vote: "vt_finalized agm_counted_vote = None" by (simp add: agm_counted_vote_def agm_vote_def vote_draft_def)
  have room: "length (chain_ids bs) + pending (mt_votes agm_closed) + 1 < 2 ^ 64" using run(7) by (simp add: votes open_vote)
  have "r = agm_record" if "vote_final_record sample_ledger_crypto agm_counted_vote = Ok r" for r
    using that by (simp add: vote_final_record_Ok_iff agm_counted_vote_def agm_vote_def)
  then have vote_fits: "\<forall>e r. e \<in> set (mt_votes agm_closed) \<and> vt_finalized (snd e) = None \<and>
      vote_final_record sample_ledger_crypto (snd e) = Ok r \<longrightarrow> fits_u32 (enc_vote_record r)"
    using agm_record_wf(2) by (auto simp: votes)
  have "payload = sample_minutes_text"
    if "finalize_votes sample_meeting_tok sample_hexd sample_ledger_crypto dec_block (\<lambda>_. True) 0 st 5 10 (mt_votes agm_closed) = (st1, vs, Ok ())"
      and "conclude_ready sample_meeting_tok sample_hexd sample_notarisation (agm_closed\<lparr>mt_votes := vs\<rparr>) = Ok (r, payload)" for st1 vs r payload
  proof -
    have "vs = [(2, agm_written_vote)]" using meeting_finalize_cases [OF run(8)] that(1) run(9) by auto
    then show ?thesis using that(2) by (simp add: agm_concluding)
  qed
  then have record_fits: "\<forall>st1 vs r payload.
      finalize_votes sample_meeting_tok sample_hexd sample_ledger_crypto dec_block (\<lambda>_. True) 0 st 5 10 (mt_votes agm_closed) = (st1, vs, Ok ()) \<and>
      conclude_ready sample_meeting_tok sample_hexd sample_notarisation (agm_closed\<lparr>mt_votes := vs\<rparr>) = Ok (r, payload) \<longrightarrow>
      fits_u32 (str_bytes payload)"
    by (auto simp: fits_u32_def sample_text_lengths str_bytes_def)
  note machine = meeting_machine [where seed = 5 and n = sample_notarisation, OF reads_back_block reached]
  have "writes_more sample_ledger_crypto dec_block bs st' (pending (mt_votes agm_closed) - pending (mt_votes m) +
      (if \<exists>g. (Ok f :: (meeting_error, finalized_meeting) result) = Ok g then 1 else 0))"
    by (rule machine [THEN conjunct2, THEN conjunct2, THEN conjunct2, THEN conjunct2, THEN conjunct2, THEN conjunct2,
        THEN conjunct2, THEN conjunct2, THEN conjunct2, THEN conjunct2, THEN conjunct2, THEN conjunct2, THEN spec, THEN spec, THEN spec,
        THEN spec, THEN spec, THEN spec, THEN spec, THEN mp, THEN conjunct2, THEN conjunct2])
      (rule conjI st run(6) room vote_fits record_fits run(8))+
  then have "writes_more sample_ledger_crypto dec_block bs st' (pending (mt_votes agm_closed) - pending (mt_votes m) + 1)" by simp
  moreover have "pending (mt_votes agm_closed) - pending (mt_votes m) + 1 = 2"
    by (simp add: votes open_vote run(9) agm_written_vote_def)
  ultimately show ?thesis using conjunct1 [OF machine] st run(6,8) closed by metis
qed

theorem verify_meeting_exact_witness:
  "\<exists>st v. reachable sample_ledger_crypto dec_block st \<and>
     verify_meeting sample_meeting_tok sample_hexd sample_ledger_crypto dec_block dec_vote_record st sample_founding_id = Ok v \<and>
     \<not> meeting_is_valid v"
proof -
  obtain st b where st: "reachable sample_ledger_crypto dec_block st" "represents sample_ledger_crypto [b] st"
    "b_transactions b = [sample_founding_tx]"
    by (rule sample_company_chain)
  have "get_transaction dec_block st sample_founding_id = Ok (Some \<lparr>lt_height = h_height (b_header b), lt_index = 0, lt_transaction = sample_founding_tx\<rparr>)"
    using get_transaction_represents [OF reads_back_block st(2), of 0 0]
    by (simp add: st(3) sample_founding_tx_id index_u32_def try_from_nat_def)
  moreover have "\<not> holds_meeting sample_meeting_tok sample_hexd sample_founding_tx r" for r
    by (simp add: holds_meeting_def sample_founding_tx_def sealed_tx_def sign_transaction_def into_transaction_def Let_def kind_namespace_def
        MEETING_NAMESPACE_def)
  ultimately show ?thesis
    using verify_meeting_exact [where i = sample_founding_id and tok = sample_meeting_tok and hexd = sample_hexd,
        OF reads_back_block st(1) reads_back_vote_record] st(1)
    by auto
qed

theorem meeting_verifies_witness:
  "\<exists>st0 st1 st2 m f v. reachable sample_ledger_crypto dec_block st0 \<and>
     meeting_convene sample_meeting_tok sample_hexd sample_ledger_crypto dec_block True st0 5 sample_notarisation 10 agm_drafted
       = (st1, Ok (agm_convened, sample_meeting_id)) \<and>
     meeting_open sample_meeting_tok sample_hexd dec_block st1 agm_convened = Ok agm_opened \<and>
     meeting_close sample_meeting_tok sample_hexd dec_block st1 (foldl (meeting_receive sample_ledger_crypto) agm_opened [(2, agm_ballot)])
       = (agm_closed, Ok ()) \<and>
     meeting_finalize sample_meeting_tok sample_hexd sample_ledger_crypto dec_block (\<lambda>_. True) st1 5 sample_notarisation 10 agm_closed
       = (st2, m, Ok f) \<and>
     verify_meeting sample_meeting_tok sample_hexd sample_ledger_crypto dec_block dec_vote_record st2 (fm_tx_id f) = Ok v \<and>
     meeting_is_valid v \<and> mv_record v = Some sample_minutes"
proof -
  obtain st0 b st1 st2 bs m f where run: "reachable sample_ledger_crypto dec_block st0" "represents sample_ledger_crypto [b] st0"
    "length (chain_ids [b]) + 1 < 2 ^ 64" "store_steps sample_ledger_crypto dec_block st0 st1"
    "meeting_convene sample_meeting_tok sample_hexd sample_ledger_crypto dec_block True st0 5 sample_notarisation 10 agm_drafted
      = (st1, Ok (agm_convened, sample_meeting_id))"
    "meeting_open sample_meeting_tok sample_hexd dec_block st1 agm_convened = Ok agm_opened"
    "meeting_close sample_meeting_tok sample_hexd dec_block st1 (foldl (meeting_receive sample_ledger_crypto) agm_opened [(2, agm_ballot)])
      = (agm_closed, Ok ())"
    "represents sample_ledger_crypto bs st1" "length (chain_ids bs) + length (mt_votes agm_closed) + 1 < 2 ^ 64"
    "meeting_finalize sample_meeting_tok sample_hexd sample_ledger_crypto dec_block (\<lambda>_. True) st1 5 sample_notarisation 10 agm_closed
      = (st2, m, Ok f)" and m: "mt_votes m = [(2, agm_written_vote)]" "fm_record f = sample_minutes"
    by (rule agm_run)
  have "r = agm_record" if "vote_final_record sample_ledger_crypto agm_written_vote = Ok r" for r
    using that by (simp add: vote_final_record_Ok_iff agm_written_vote_def agm_counted_vote_def agm_vote_def)
  then have storable: "\<forall>e \<in> set (mt_votes m). storable sample_ledger_crypto (snd e)"
    using agm_record_wf by (auto simp: m(1) storable_def)
  have company: "mt_company agm_convened = ''acme''" "mt_company agm_closed = ''acme''"
    by (simp_all add: agm_convened_def agm_closed_def agm_opened_def)
  have first: "is_string (convened_text (CompanyId (mt_company agm_convened)) sample_notarisation (mt_metadata agm_drafted) (Agenda (mt_items agm_drafted)))"
    using sample_texts_string(1) unfolding company by (simp add: agm_drafted_def meeting_draft_def sample_convening_text_def)
  have final: "is_string (final_text (CompanyId (mt_company agm_closed)) sample_notarisation (fm_record f))"
    using sample_texts_string(2) unfolding company m(2) sample_minutes_text_def .
  from meeting_verifies [OF reads_back_block reads_back_vote_record agm_drafted_reached run(1-3,5) first store_steps.no_step run(6)
      store_steps.no_step run(7) store_steps.no_step run(8-10) storable final store_steps.no_step]
  show ?thesis using run(1,5-7,10) m(2) by metis
qed

end
