(* ===== verification/Spec2Isabelle.thy ===== *)
theory Spec2Isabelle
  imports Bornite_Eval Bornite_Xml Prunella_Chain Prunella_Oracle Irena_Meeting_Sample
begin

text \<open>
  A model of the Rust workspace under \<open>crates/\<close>: \<^emph>\<open>Bornite\<close> counts a vote under typed rules, \<^emph>\<open>Prunella\<close> is
  an append-only ledger of signed transactions in hash-linked blocks, and \<^emph>\<open>Irena\<close> keeps the records of
  a company (its shares, decision channels, identities and authorisations) on such a ledger.

  \<^bold>\<open>Theories.\<close>
  \<^item> \<open>Irena_Prelude\<close>: the result type \<open>Ok | Err | Panic\<close> with its bind, words, sorted tables and canonical
    builders (the locales that the constructors of every crate instantiate), decimal digits.
  \<^item> \<open>Bornite_Core\<close>, \<open>Bornite_Rules\<close>, \<open>Bornite_Eval\<close>: \<open>bornite-core\<close>, \<open>bornite-rules\<close>, \<open>bornite-eval\<close>. Fractions,
    weights, electorates and ballot sets; the rules; \<open>evaluate\<close> with each of its steps, every refusal and
    every possible panic, against a specification over unbounded integers.
  \<^item> \<open>Bornite_Xml\<close>: \<open>bornite-xml\<close> (\<open>reader.rs\<close>, \<open>documents.rs\<close>, \<open>error.rs\<close>), readers over the events of quick-xml.
  \<^item> \<open>Prunella_Canonical\<close>, \<open>Prunella_Merkle\<close>, \<open>Prunella_Core\<close>: \<open>prunella-canonical\<close> and \<open>prunella-core\<close>. Tags,
    Borsh layouts, hex text, transactions, blocks, genesis, and the Merkle tree with its proofs.
  \<^item> \<open>Prunella_Verify\<close>, \<open>Prunella_Store\<close>, \<open>Prunella_Layout\<close>, \<open>Prunella_Chain\<close>: \<open>prunella-verify\<close>, \<open>prunella-crypto\<close>
    and \<open>prunella-store\<close>. The block rules and the walk over a chain; the redb tables as maps, the
    operations on them, the state a reachable store represents, and the properties that span both.
  \<^item> \<open>Prunella_Oracle\<close>: the second implementation of the protocol in \<open>prunella-conformance\<close>.
  \<^item> \<open>Irena_Core\<close>, \<open>Irena_Parts\<close>, \<open>Irena_Xml\<close>, \<open>Irena_Readers\<close>: \<open>irena-core\<close>. Ids, times, notarisations and
    errors; registers, rosters, channels, identities and authorisations; the record documents.
  \<^item> \<open>Prunella_Seal\<close>: the sequence with which every Irena crate writes: read the head, draft, sign and append one
    block with one transaction; \<open>writes_one\<close> is what such an operation may do to a store.
  \<^item> \<open>Irena_Frames\<close>: the readers of \<open>irena-core\<close> decide on the events of their own element alone, so that the body
    of a composed record is what the standalone reader makes of it.
  \<^item> \<open>Irena_Ledger\<close>, \<open>Irena_Publish\<close>: \<open>irena-ledger\<close>. A company as the replay of the Irena records a chain
    holds; signers and lockout; founding and amending. Here the parts meet: a publication reads the
    documents of \<open>irena-core\<close>, signs and appends with Prunella, and reconstructs.
  \<^item> \<open>Irena_Decision\<close>: \<open>irena-decision\<close>. Resolving a channel into actors, the decision as a process, and the
    verification of its record from the chain alone.
  \<^item> \<open>Irena_Vote\<close>, \<open>Irena_Vote_Verify\<close>: \<open>irena-vote\<close>. The frozen electorate, ballots, the stored numbers of
    Bornite's result, the vote as a process, and the verification of its record. Here all three layers meet:
    the electorate is a channel of a reconstructed company, the result Bornite's, the record a sealed block.
  \<^item> \<open>Irena_Meeting\<close>, \<open>Irena_Meeting_Process\<close>, \<open>Irena_Meeting_Verify\<close>, \<open>Irena_Meeting_Sample\<close>: \<open>irena-meeting\<close>.
    Agendas and the two XML records of a meeting, the meeting as a process that runs the votes of its items,
    the verification of its final record, and a general meeting from its convening to its minutes.

  \<^bold>\<open>How code is read.\<close> A struct is a record or a one-constructor datatype, an enum a datatype, \<open>u64\<close> and
  \<open>u32\<close> are words; a \<open>Result\<close> is \<open>result\<close>, whose third constructor \<open>Panic\<close> is a failing \<open>expect\<close> or an arithmetic
  overflow, so that "does not panic" is a theorem. Strings are lists of bytes. The message a person
  reads is kept as the structured value it is rendered from; a derived \<open>Ord\<close> that sorting uses is
  written out as a key. The loops over children of an XML element and over the blocks of a chain recurse
  on fuel or on the events left, with a lemma that the fuel cannot run out.

  \<^bold>\<open>Parameters.\<close> Code outside the repository is an argument: BLAKE3 and ed25519 (fields of a record of
  primitives), \<open>hex::decode_to_slice\<close> (\<open>hexd\<close>), the quick-xml tokenizer (\<open>tok\<close>, from a text to the events it
  yields), the Borsh deserializer (\<open>de\<close> and its like, from bytes to a value and what is left of them), and
  whether a commit of redb goes through (\<open>io\<close>) or a file can be created (\<open>creates\<close>). The acceptance policy is
  not one: a store is created, opened and appended to under \<open>LocalDeterministicPolicy\<close>, as \<open>init_genesis\<close> and
  \<open>open\<close> do. What is used of BLAKE3 is never that it has no collisions,
  but that a failure of a commitment exhibits one.

  \<^bold>\<open>What is shown.\<close> Evaluation is total and equals its specification, is monotone in YES ballots and
  does not depend on listing order. Merkle proofs are complete, sound and bound to their index; block
  hashes commit to every byte. The verifier accepts exactly the valid chains. Every reachable store
  represents a valid chain; appending refines its specification, is all or nothing, idempotent and
  compositional; committed history does not change; lookups and iteration are exact. The readers of XML
  documents never panic, return only well-formed values, consume their elements exactly, and read back
  what is written. Tables of holders, persons and signers are exact and canonical. Reconstructing a company is
  replaying its records (the locale \<open>replayed\<close>, interpreted for the invariant of a company and for the
  authority of its signers); a company can always be amended again, only by the signers it names;
  a genesis founds the company its document describes; publishing appends exactly the amendment asked for or nothing. A decision is a state machine with an
  invariant, none of whose operations panics; its record verifies exactly when it is one, and a finalised decision verifies for ever.
  The same holds of a vote, whose record in addition cannot show in which order ballots arrived (the locale
  \<open>arrivals\<close>) and stores exactly what Bornite decided. The readers of meeting records are total and sound, a
  meeting is a state machine whose votes are as far as it is, its final record verifies exactly when the
  meeting was one, and a meeting that was held verifies for ever. The loops of a meeting over its votes keep
  what was done before an error: a finalisation can be called again, a closing cannot
  (\<open>close_not_resumable\<close>).

  \<^bold>\<open>Not modelled.\<close> The binaries (\<open>*-cli\<close>): argument parsing, files and printing. \<open>prunella-xml\<close>
  and \<open>irena-resolution\<close> are not modelled.
  \<open>init_genesis_with_policy\<close> and \<open>open_with_policy\<close> are modelled for the default policy only. A read of redb
  that fails for another reason than missing or malformed contents, file locking and closing are left out,
  and so are key generation, serde output and the rendering of errors.
  The encoder writes the length of a list or string as 32 bits: where the code has an \<open>Encode\<close> error or an
  \<open>expect\<close> for one of \<open>2 ^ 32\<close> elements or more, the model's length wraps, and the theorems about encodings and
  about writing assume that it fits (\<open>fits_u32\<close>, the \<open>wf_\<close> predicates). A decision, a vote or a meeting starts
  as a draft: one that is decoded from its stored Borsh or serde form in the middle of its life is not
  among the states \<open>decision_reaches\<close>, \<open>vote_reaches\<close> and \<open>meeting_reaches\<close> speak of.
\<close>

end
